(* ===== verification/Prelude.thy ===== *)
theory Prelude
  imports Main "HOL-Library.Word" "HOL-Library.Monad_Syntax"
begin

text \<open>
  Shared vocabulary of the development.

  \<^item> The C integer types of \<^verbatim>\<open>lib/stdint.h\<close> as words: \<open>u8\<close>, \<open>u16\<close>, \<open>u32\<close>, \<open>u64\<close>.
    A pointer is a \<open>u32\<close>; \<open>NULL\<close> is 0.
  \<^item> A call of the kernel is a function into \<open>option\<close>: \<open>Some r\<close> says that the call runs to
    completion and returns \<open>r\<close> (with the new state); \<open>None\<close> says that it does not return,
    because an \<open>ASSERT\<close> fails or \<open>PANIC\<close> is reached (both spin in \<open>panic_spin\<close>), because
    it goes through a null pointer or past the end of an object, or because a loop never ends.
    Calls that can put the running thread to sleep have a result type of their own
    (theories \<open>Sync\<close> and \<open>Ioqueue\<close>).
  \<^item> Array accesses that check the index, used wherever the C code indexes an array.
  \<^item> The collections \<open>frame\<close> (what an operation leaves unchanged), \<open>wf\<close> (preservation of
    well-formedness) and \<open>refines\<close> (effects seen through an abstraction function).
\<close>

unbundle bit_operations_syntax

named_theorems frame "what an operation leaves unchanged"
named_theorems wf "operations keep the invariant"
named_theorems refines "effects seen through the abstraction function"

type_synonym u8 = "8 word"
type_synonym u16 = "16 word"
type_synonym u32 = "32 word"
type_synonym u64 = "64 word"
type_synonym addr = u32

abbreviation NULL :: addr where
  "NULL \<equiv> 0"

definition PG_SIZE :: u32 where
  "PG_SIZE = 4096"

text \<open>\<open>DIV_ROUND_UP(X, STEP)\<close> of \<^verbatim>\<open>kernel/global.h\<close>, in 32-bit arithmetic.\<close>

definition DIV_ROUND_UP :: "u32 \<Rightarrow> u32 \<Rightarrow> u32" where
  "DIV_ROUND_UP X STEP = (X + STEP - 1) div STEP"

text \<open>\<open>ASSERT(c)\<close> of \<^verbatim>\<open>kernel/debug.h\<close> (the build does not define \<open>NDEBUG\<close>).\<close>

definition ASSERT :: "bool \<Rightarrow> unit option" where
  "ASSERT c = (if c then Some () else None)"

text \<open>Indexed access: reading or writing past the end does not return.\<close>

definition get_at :: "'a list \<Rightarrow> nat \<Rightarrow> 'a option" where
  "get_at xs i = (if i < length xs then Some (xs ! i) else None)"

text \<open>The bytes of a string literal.\<close>

definition char_code :: "char \<Rightarrow> u8" where
  "char_code c = of_nat (of_char c)"

definition lit :: "string \<Rightarrow> u8 list" where
  "lit = map char_code"

lemma lit_append: "lit (a @ b) = lit a @ lit b"
  by (simp add: lit_def)

definition set_at :: "'a list \<Rightarrow> nat \<Rightarrow> 'a \<Rightarrow> 'a list option" where
  "set_at xs i v = (if i < length xs then Some (xs[i := v]) else None)"

lemma ASSERT_bind [simp]: "ASSERT c \<bind> f = (if c then f () else None)"
  by (simp add: ASSERT_def)

lemma ASSERT_eq_Some [simp]: "ASSERT c = Some u \<longleftrightarrow> c"
  by (simp add: ASSERT_def)

lemma get_at_in [simp]: "i < length xs \<Longrightarrow> get_at xs i = Some (xs ! i)"
  by (simp add: get_at_def)

lemma get_at_out [simp]: "length xs \<le> i \<Longrightarrow> get_at xs i = None"
  by (simp add: get_at_def)

lemma get_at_eq_Some: "get_at xs i = Some v \<longleftrightarrow> i < length xs \<and> v = xs ! i"
  by (auto simp: get_at_def)

lemma set_at_in [simp]: "i < length xs \<Longrightarrow> set_at xs i v = Some (xs[i := v])"
  by (simp add: set_at_def)

lemma set_at_eq_Some: "set_at xs i v = Some ys \<longleftrightarrow> i < length xs \<and> ys = xs[i := v]"
  by (auto simp: set_at_def)

text \<open>Bits of words.\<close>

lemma bit_1_iff_0 [simp]: "bit (1 :: 'a::len word) n \<longleftrightarrow> n = 0"
  by (simp add: bit_1_iff)

lemma word_and_1_shift: "(w AND push_bit n 1 \<noteq> 0) = (n < LENGTH('a) \<and> bit w n)"
  for w :: "'a::len word"
proof
  assume "w AND push_bit n 1 \<noteq> 0"
  then obtain i where "bit (w AND push_bit n 1) i"
    using bit_word_eqI [of "w AND push_bit n 1" 0] by auto
  then have "bit w i" "i = n" "i < LENGTH('a)"
    by (auto simp: bit_simps)
  then show "n < LENGTH('a) \<and> bit w n" by simp
next
  assume a: "n < LENGTH('a) \<and> bit w n"
  then have "bit (w AND push_bit n 1) n"
    by (simp add: bit_simps)
  then show "w AND push_bit n 1 \<noteq> 0" by auto
qed

lemma word_and_exp: "w AND 2 ^ n = 0 \<longleftrightarrow> \<not> (n < LENGTH('a) \<and> bit w n)"
  for w :: "'a::len word"
  using word_and_1_shift [of w n] by auto

text \<open>
  The masks of the paging code as sets of bits. \<open>bit_simps\<close> reduces a literal word to a literal
  integer, so the facts are about integers.
\<close>

lemma bit_mask_literals:
  "bit (0xFFFF :: int) n \<longleftrightarrow> n < 16"
  "bit (0xFFF :: int) n \<longleftrightarrow> n < 12"
  "bit (0x3FF :: int) n \<longleftrightarrow> n < 10"
  "bit (0x3FF000 :: int) n \<longleftrightarrow> 12 \<le> n \<and> n < 22"
  "bit (0xFFC00000 :: int) n \<longleftrightarrow> 22 \<le> n \<and> n < 32"
  "bit (0xFFFFF000 :: int) n \<longleftrightarrow> 12 \<le> n \<and> n < 32"
proof -
  have eqs: "(0xFFFF :: int) = mask 16" "(0xFFF :: int) = mask 12"
    "(0x3FF :: int) = mask 10"
    "(0x3FF000 :: int) = push_bit 12 (mask 10)" "(0xFFC00000 :: int) = push_bit 22 (mask 10)"
    "(0xFFFFF000 :: int) = push_bit 12 (mask 20)"
    by (simp_all add: mask_eq_exp_minus_1)
  show "bit (0xFFFF :: int) n \<longleftrightarrow> n < 16" "bit (0xFFF :: int) n \<longleftrightarrow> n < 12"
    "bit (0x3FF :: int) n \<longleftrightarrow> n < 10"
    "bit (0x3FF000 :: int) n \<longleftrightarrow> 12 \<le> n \<and> n < 22"
    "bit (0xFFC00000 :: int) n \<longleftrightarrow> 22 \<le> n \<and> n < 32"
    "bit (0xFFFFF000 :: int) n \<longleftrightarrow> 12 \<le> n \<and> n < 32"
    unfolding eqs by (auto simp: bit_simps)
qed

lemma unat_lt2p_32 [simp]: "unat (w :: u32) < 4294967296"
  using unsigned_less [of w] by simp

lemma unat_of_nat32 [simp]: "n < 4294967296 \<Longrightarrow> unat (of_nat n :: u32) = n"
  by (simp add: unat_of_nat)

end
