(* ===== verification/Cstring.thy ===== *)
theory Cstring
  imports Prelude "HOL-Library.List_Lexorder"
begin

text \<open>
  The string library \<^verbatim>\<open>lib/string.c\<close> on a byte-addressed memory.

  \<open>bmem\<close> gives the byte at an address; an address without a byte lies in no object and an access
  to it does not return. \<open>char\<close> is signed on this platform: comparisons of characters are
  comparisons of \<open>sint\<close>. Loops that look for the end of a string are \<open>partial_function\<close>s,
  since nothing bounds them when there is no end.

  \<open>cstr m a xs\<close> says that the string \<open>xs\<close>, followed by a zero byte, is stored at \<open>a\<close>; \<open>span a n\<close> is the
  set of the \<open>n\<close> addresses from \<open>a\<close> on; \<open>put_bytes\<close> stores a list of bytes. The lemmas give the
  result of every function on strings in these terms.
\<close>

type_synonym bmem = "addr \<Rightarrow> u8 option"

definition wr8 :: "bmem \<Rightarrow> addr \<Rightarrow> u8 \<Rightarrow> bmem option" where
  "wr8 m a v = (if m a = None then None else Some (m(a \<mapsto> v)))"

subsection \<open>The functions\<close>

primrec memset_loop :: "nat \<Rightarrow> addr \<Rightarrow> u8 \<Rightarrow> bmem \<Rightarrow> bmem option" where
  "memset_loop 0 dst v m = Some m"
| "memset_loop (Suc n) dst v m = do { m \<leftarrow> wr8 m dst v; memset_loop n (dst + 1) v m }"

definition memset :: "addr \<Rightarrow> u8 \<Rightarrow> u32 \<Rightarrow> bmem \<Rightarrow> bmem option" where
  "memset dst v sz m = do { _ \<leftarrow> ASSERT (dst \<noteq> NULL); memset_loop (unat sz) dst v m }"

primrec memcpy_loop :: "nat \<Rightarrow> addr \<Rightarrow> addr \<Rightarrow> bmem \<Rightarrow> bmem option" where
  "memcpy_loop 0 dst src m = Some m"
| "memcpy_loop (Suc n) dst src m = do {
     c \<leftarrow> m src;
     m \<leftarrow> wr8 m dst c;
     memcpy_loop n (dst + 1) (src + 1) m
   }"

definition memcpy :: "addr \<Rightarrow> addr \<Rightarrow> u32 \<Rightarrow> bmem \<Rightarrow> bmem option" where
  "memcpy dst src sz m = do { _ \<leftarrow> ASSERT (dst \<noteq> NULL \<and> src \<noteq> NULL); memcpy_loop (unat sz) dst src m }"

primrec memcmp_loop :: "nat \<Rightarrow> addr \<Rightarrow> addr \<Rightarrow> bmem \<Rightarrow> int option" where
  "memcmp_loop 0 a b m = Some 0"
| "memcmp_loop (Suc n) a b m = do {
     x \<leftarrow> m a;
     y \<leftarrow> m b;
     if x \<noteq> y then Some (if sint x > sint y then 1 else -1) else memcmp_loop n (a + 1) (b + 1) m
   }"

definition memcmp :: "addr \<Rightarrow> addr \<Rightarrow> u32 \<Rightarrow> bmem \<Rightarrow> int option" where
  "memcmp a b sz m = do { _ \<leftarrow> ASSERT (a \<noteq> NULL \<or> b \<noteq> NULL); memcmp_loop (unat sz) a b m }"

text \<open>\<open>while((*dst_++ = *src_++));\<close>\<close>

partial_function (option) copy_str :: "addr \<Rightarrow> addr \<Rightarrow> bmem \<Rightarrow> bmem option" where
  "copy_str dst src m = do {
     c \<leftarrow> m src;
     m \<leftarrow> wr8 m dst c;
     if c = 0 then Some m else copy_str (dst + 1) (src + 1) m
   }"

definition strcpy :: "addr \<Rightarrow> addr \<Rightarrow> bmem \<Rightarrow> (addr \<times> bmem) option" where
  "strcpy dst src m = do {
     _ \<leftarrow> ASSERT (dst \<noteq> NULL \<and> src \<noteq> NULL);
     m \<leftarrow> copy_str dst src m;
     Some (dst, m)
   }"

text \<open>\<open>while(*p++);\<close> leaves \<open>p\<close> one past the zero byte.\<close>

partial_function (option) skip_str :: "addr \<Rightarrow> bmem \<Rightarrow> addr option" where
  "skip_str p m = do { c \<leftarrow> m p; if c = 0 then Some (p + 1) else skip_str (p + 1) m }"

definition strlen :: "addr \<Rightarrow> bmem \<Rightarrow> u32 option" where
  "strlen str m = do {
     _ \<leftarrow> ASSERT (str \<noteq> NULL);
     p \<leftarrow> skip_str str m;
     Some (p - str - 1)
   }"

partial_function (option) strcmp_loop :: "addr \<Rightarrow> addr \<Rightarrow> bmem \<Rightarrow> int option" where
  "strcmp_loop a b m = do {
     x \<leftarrow> m a;
     y \<leftarrow> m b;
     if x \<noteq> 0 \<and> x = y then strcmp_loop (a + 1) (b + 1) m
     else Some (if sint x < sint y then -1 else if sint x > sint y then 1 else 0)
   }"

definition strcmp :: "addr \<Rightarrow> addr \<Rightarrow> bmem \<Rightarrow> int option" where
  "strcmp a b m = do { _ \<leftarrow> ASSERT (a \<noteq> NULL \<and> b \<noteq> NULL); strcmp_loop a b m }"

text \<open>A \<open>char\<close> compared with a \<open>uint8_t\<close>: both are promoted to \<open>int\<close>, so a negative character equals
  no \<open>uint8_t\<close>.\<close>

definition is_ch :: "u8 \<Rightarrow> u8 \<Rightarrow> bool" where
  "is_ch c ch \<longleftrightarrow> sint c = uint ch"

partial_function (option) strchr_loop :: "addr \<Rightarrow> u8 \<Rightarrow> bmem \<Rightarrow> addr option" where
  "strchr_loop str ch m = do {
     c \<leftarrow> m str;
     if c = 0 then Some NULL
     else if is_ch c ch then Some str
     else strchr_loop (str + 1) ch m
   }"

definition strchr :: "addr \<Rightarrow> u8 \<Rightarrow> bmem \<Rightarrow> addr option" where
  "strchr str ch m = do { _ \<leftarrow> ASSERT (str \<noteq> NULL); strchr_loop str ch m }"

partial_function (option) strrchr_loop :: "addr \<Rightarrow> u8 \<Rightarrow> addr \<Rightarrow> bmem \<Rightarrow> addr option" where
  "strrchr_loop str ch last_char m = do {
     c \<leftarrow> m str;
     if c = 0 then Some last_char
     else strrchr_loop (str + 1) ch (if is_ch c ch then str else last_char) m
   }"

definition strrchr :: "addr \<Rightarrow> u8 \<Rightarrow> bmem \<Rightarrow> addr option" where
  "strrchr str ch m = do { _ \<leftarrow> ASSERT (str \<noteq> NULL); strrchr_loop str ch NULL m }"

definition strcat :: "addr \<Rightarrow> addr \<Rightarrow> bmem \<Rightarrow> (addr \<times> bmem) option" where
  "strcat dst src m = do {
     _ \<leftarrow> ASSERT (dst \<noteq> NULL \<and> src \<noteq> NULL);
     str \<leftarrow> skip_str dst m;
     m \<leftarrow> copy_str (str - 1) src m;
     Some (dst, m)
   }"

partial_function (option) strchrs_loop :: "addr \<Rightarrow> u8 \<Rightarrow> u32 \<Rightarrow> bmem \<Rightarrow> u32 option" where
  "strchrs_loop p ch ch_cnt m = do {
     c \<leftarrow> m p;
     if c = 0 then Some ch_cnt
     else strchrs_loop (p + 1) ch (if is_ch c ch then ch_cnt + 1 else ch_cnt) m
   }"

definition strchrs :: "addr \<Rightarrow> u8 \<Rightarrow> bmem \<Rightarrow> u32 option" where
  "strchrs str ch m = do { _ \<leftarrow> ASSERT (str \<noteq> NULL); strchrs_loop str ch 0 m }"

subsection \<open>Strings in memory\<close>

primrec bytes_at :: "bmem \<Rightarrow> addr \<Rightarrow> u8 list \<Rightarrow> bool" where
  "bytes_at m a [] = True"
| "bytes_at m a (x # xs) = (m a = Some x \<and> bytes_at m (a + 1) xs)"

definition cstr :: "bmem \<Rightarrow> addr \<Rightarrow> u8 list \<Rightarrow> bool" where
  "cstr m a xs \<longleftrightarrow> bytes_at m a (xs @ [0]) \<and> 0 \<notin> set xs"

primrec put_bytes :: "bmem \<Rightarrow> addr \<Rightarrow> u8 list \<Rightarrow> bmem" where
  "put_bytes m a [] = m"
| "put_bytes m a (x # xs) = put_bytes (m(a \<mapsto> x)) (a + 1) xs"

definition span :: "addr \<Rightarrow> nat \<Rightarrow> addr set" where
  "span a n = (\<lambda>i. a + of_nat i) ` {..<n}"

lemma span_0 [simp]: "span a 0 = {}"
  by (simp add: span_def)

lemma span_Suc [simp]: "span a (Suc n) = insert a (span (a + 1) n)"
proof -
  have "span a (Suc n) = insert a ((\<lambda>i. a + of_nat (Suc i)) ` {..<n})"
    unfolding span_def lessThan_Suc_eq_insert_0 by (simp add: image_image)
  then show ?thesis by (simp add: span_def algebra_simps)
qed

lemma span_mono: "n \<le> k \<Longrightarrow> span a n \<subseteq> span a k"
  by (auto simp: span_def)

lemma span_add: "span a (n + k) = span a n \<union> span (a + of_nat n) k"
proof (induction n arbitrary: a)
  case (Suc n)
  then show ?case by (simp add: algebra_simps)
qed simp

lemma start_notin_span: "n < 4294967296 \<Longrightarrow> a \<notin> span (a + 1) n"
proof
  assume n: "n < 4294967296" and "a \<in> span (a + 1) n"
  then obtain i where i: "i < n" "a = a + 1 + of_nat i" by (auto simp: span_def)
  then have "(of_nat (Suc i) :: u32) = 0" by (simp add: algebra_simps)
  then have "unat (of_nat (Suc i) :: u32) = 0" by simp
  then have "(Suc i) mod 4294967296 = 0" by (simp only: unat_of_nat) simp
  with i n show False by (cases "Suc i = 4294967296") auto
qed

lemma bytes_at_append: "bytes_at m a (xs @ ys) \<longleftrightarrow> bytes_at m a xs \<and> bytes_at m (a + of_nat (length xs)) ys"
  by (induction xs arbitrary: a) (auto simp: algebra_simps)

lemma bytes_at_cong: "(\<And>b. b \<in> span a (length xs) \<Longrightarrow> m b = m' b) \<Longrightarrow> bytes_at m a xs = bytes_at m' a xs"
  by (induction xs arbitrary: a) auto

lemma bytes_at_upd [simp]: "b \<notin> span a (length xs) \<Longrightarrow> bytes_at (m(b \<mapsto> v)) a xs = bytes_at m a xs"
  by (rule bytes_at_cong) auto

lemma bytes_at_nth: "bytes_at m a xs \<Longrightarrow> i < length xs \<Longrightarrow> m (a + of_nat i) = Some (xs ! i)"
proof (induction xs arbitrary: a i)
  case (Cons x xs)
  then show ?case using Cons.IH [of "a + 1" "i - 1"] by (cases i) (auto simp: ac_simps)
qed simp

lemma put_bytes_other: "b \<notin> span a (length xs) \<Longrightarrow> put_bytes m a xs b = m b"
  by (induction xs arbitrary: m a) auto

lemma put_bytes_append: "put_bytes m a (xs @ ys) = put_bytes (put_bytes m a xs) (a + of_nat (length xs)) ys"
  by (induction xs arbitrary: m a) (auto simp: algebra_simps)

lemma put_bytes_at: "length xs \<le> 4294967296 \<Longrightarrow> bytes_at (put_bytes m a xs) a xs"
proof (induction xs arbitrary: m a)
  case (Cons x xs)
  then show ?case by (simp add: put_bytes_other start_notin_span)
qed simp

lemma dom_put_bytes: "dom (put_bytes m a xs) = dom m \<union> span a (length xs)"
  by (induction xs arbitrary: m a) auto

lemma cstr_Nil [simp]: "cstr m a [] \<longleftrightarrow> m a = Some 0"
  by (simp add: cstr_def)

lemma cstr_Cons [simp]: "cstr m a (x # xs) \<longleftrightarrow> m a = Some x \<and> x \<noteq> 0 \<and> cstr m (a + 1) xs"
  by (auto simp: cstr_def)

lemma cstr_cong: "(\<And>b. b \<in> span a (Suc (length xs)) \<Longrightarrow> m b = m' b) \<Longrightarrow> cstr m a xs = cstr m' a xs"
  unfolding cstr_def using bytes_at_cong [of a "xs @ [0]" m m'] by simp

lemma cstr_upd [simp]: "b \<notin> span a (Suc (length xs)) \<Longrightarrow> cstr (m(b \<mapsto> v)) a xs = cstr m a xs"
  by (rule cstr_cong) auto

lemma sint_inj: "sint x = sint y \<longleftrightarrow> x = y" for x y :: u8
  by (auto intro: signed_word_eqI)

lemma cstr_length: "cstr m a xs \<Longrightarrow> length xs < 4294967296"
proof (rule ccontr)
  assume c: "cstr m a xs" and "\<not> length xs < 4294967296"
  then have l: "4294967296 \<le> length xs" by simp
  let ?k = "4294967296 :: nat"
  have b: "bytes_at m a (xs @ [0])" "0 \<notin> set xs" using c by (auto simp: cstr_def)
  define e where "e = length xs"
  have "m (a + of_nat e) = Some 0" using bytes_at_nth [OF b(1), of e] by (simp add: e_def)
  moreover have "(of_nat e :: u32) = of_nat (e - ?k)"
  proof -
    have "(of_nat e :: u32) = of_nat (e - ?k + ?k)" using l by (simp add: e_def)
    also have "\<dots> = of_nat (e - ?k) + of_nat ?k" by (rule of_nat_add)
    also have "(of_nat ?k :: u32) = 0" by simp
    finally show ?thesis by simp
  qed
  moreover have "m (a + of_nat (e - ?k)) = Some (xs ! (e - ?k))"
  proof -
    have lt: "e - ?k < length xs" using l unfolding e_def by arith
    then show ?thesis using bytes_at_nth [OF b(1), of "e - ?k"] by (simp add: nth_append)
  qed
  ultimately have "xs ! (e - ?k) = 0" by simp
  moreover have "e - ?k < length xs" using l unfolding e_def by arith
  ultimately show False using b(2) nth_mem by metis
qed

lemma wr8_in: "a \<in> dom m \<Longrightarrow> wr8 m a v = Some (m(a \<mapsto> v))"
  by (auto simp: wr8_def)

subsection \<open>What the functions compute\<close>

lemma memset_loop_eq: "span dst n \<subseteq> dom m \<Longrightarrow> memset_loop n dst v m = Some (put_bytes m dst (replicate n v))"
proof (induction n arbitrary: dst m)
  case (Suc n)
  then have "span (dst + 1) n \<subseteq> dom (m(dst \<mapsto> v))" "dst \<in> dom m" by auto
  moreover from this(1) have "memset_loop n (dst + 1) v (m(dst \<mapsto> v)) =
      Some (put_bytes (m(dst \<mapsto> v)) (dst + 1) (replicate n v))" by (rule Suc.IH)
  ultimately show ?case by (simp add: wr8_in)
qed simp

lemma memset_eq:
  assumes "dst \<noteq> NULL" "span dst (unat n) \<subseteq> dom m"
  shows "memset dst v n m = Some (put_bytes m dst (replicate (unat n) v))"
  using assms by (simp add: memset_def memset_loop_eq)

lemma memcpy_loop_eq:
  assumes "bytes_at m src xs" "span dst (length xs) \<subseteq> dom m" "span dst (length xs) \<inter> span src (length xs) = {}"
  shows "memcpy_loop (length xs) dst src m = Some (put_bytes m dst xs)"
  using assms
proof (induction xs arbitrary: dst src m)
  case (Cons x xs)
  have "bytes_at (m(dst \<mapsto> x)) (src + 1) xs"
    using Cons.prems by auto
  moreover have "span (dst + 1) (length xs) \<subseteq> dom (m(dst \<mapsto> x))" using Cons.prems(2) by auto
  moreover have "span (dst + 1) (length xs) \<inter> span (src + 1) (length xs) = {}" using Cons.prems(3) by auto
  ultimately have "memcpy_loop (length xs) (dst + 1) (src + 1) (m(dst \<mapsto> x)) =
      Some (put_bytes (m(dst \<mapsto> x)) (dst + 1) xs)" by (rule Cons.IH)
  with Cons.prems show ?case by (simp add: wr8_in)
qed simp

lemma copy_str_eq:
  assumes "cstr m src xs" "span dst (Suc (length xs)) \<subseteq> dom m"
    "span dst (Suc (length xs)) \<inter> span src (Suc (length xs)) = {}"
  shows "copy_str dst src m = Some (put_bytes m dst (xs @ [0]))"
  using assms
proof (induction xs arbitrary: dst src m)
  case Nil
  then show ?case by (subst copy_str.simps) (simp add: wr8_in)
next
  case (Cons x xs)
  have "cstr (m(dst \<mapsto> x)) (src + 1) xs"
    using Cons.prems by (subst cstr_upd) auto
  moreover have "span (dst + 1) (Suc (length xs)) \<subseteq> dom (m(dst \<mapsto> x))" using Cons.prems(2) by auto
  moreover have "span (dst + 1) (Suc (length xs)) \<inter> span (src + 1) (Suc (length xs)) = {}"
    using Cons.prems(3) by auto
  ultimately have "copy_str (dst + 1) (src + 1) (m(dst \<mapsto> x)) = Some (put_bytes m dst ((x # xs) @ [0]))"
    by (simp only: Cons.IH append_Cons put_bytes.simps)
  with Cons.prems show ?case by (subst copy_str.simps) (simp add: wr8_in)
qed

lemma skip_str_eq: "cstr m p xs \<Longrightarrow> skip_str p m = Some (p + of_nat (length xs) + 1)"
proof (induction xs arbitrary: p)
  case Nil
  then show ?case by (subst skip_str.simps) simp
next
  case (Cons x xs)
  then show ?case by (subst skip_str.simps) (simp add: algebra_simps)
qed

lemma strlen_eq: "cstr m a xs \<Longrightarrow> a \<noteq> NULL \<Longrightarrow> strlen a m = Some (of_nat (length xs))"
  by (simp add: strlen_def skip_str_eq)

lemma strcpy_eq:
  assumes "cstr m src xs" "dst \<noteq> NULL" "src \<noteq> NULL" "span dst (Suc (length xs)) \<subseteq> dom m"
    "span dst (Suc (length xs)) \<inter> span src (Suc (length xs)) = {}"
  shows "strcpy dst src m = Some (dst, put_bytes m dst (xs @ [0]))"
  using assms by (simp add: strcpy_def copy_str_eq del: put_bytes_append span_Suc)

text \<open>The order of \<open>strcmp\<close> and \<open>memcmp\<close>: lexicographic on signed characters; a string is compared
  together with its terminator.\<close>

definition byte_order :: "u8 list \<Rightarrow> u8 list \<Rightarrow> int" where
  "byte_order xs ys = (if xs = ys then 0 else if map sint xs < map sint ys then -1 else 1)"

lemma byte_order_Cons:
  "byte_order (x # xs) (y # ys) =
     (if x = y then byte_order xs ys else if sint x < sint y then -1 else 1)"
  by (auto simp: byte_order_def sint_inj)

lemma strcmp_loop_eq:
  "cstr m a xs \<Longrightarrow> cstr m b ys \<Longrightarrow> strcmp_loop a b m = Some (byte_order (xs @ [0]) (ys @ [0]))"
proof (induction xs arbitrary: a b ys)
  case Nil
  then show ?case
    by (subst strcmp_loop.simps, cases ys) (auto simp: byte_order_Cons byte_order_def sint_inj [of _ 0, simplified])
next
  case (Cons x xs)
  have ne: "sint x = sint y \<longleftrightarrow> x = y" "sint x = 0 \<longleftrightarrow> x = 0" for y
    using sint_inj [of x y] sint_inj [of x 0] by auto
  show ?case
  proof (cases ys)
    case Nil
    then show ?thesis using Cons.prems ne
      by (subst strcmp_loop.simps) (auto simp: byte_order_Cons)
  next
    case (Cons y zs)
    then show ?thesis using Cons.prems Cons.IH [of "a + 1" "b + 1" zs] ne
      by (subst strcmp_loop.simps) (auto simp: byte_order_Cons)
  qed
qed

lemma memcmp_loop_eq:
  "bytes_at m a xs \<Longrightarrow> bytes_at m b ys \<Longrightarrow> length xs = length ys \<Longrightarrow>
   memcmp_loop (length xs) a b m = Some (byte_order xs ys)"
proof (induction xs arbitrary: a b ys)
  case (Cons x xs)
  then obtain y zs where y: "ys = y # zs" by (cases ys) auto
  with Cons show ?case by (auto simp: byte_order_Cons sint_inj)
qed (simp add: byte_order_def)

lemma strchr_loop_eq:
  "cstr m a xs \<Longrightarrow>
   strchr_loop a ch m =
     Some (if \<exists>c \<in> set xs. is_ch c ch
           then a + of_nat (length (takeWhile (\<lambda>c. \<not> is_ch c ch) xs)) else NULL)"
proof (induction xs arbitrary: a)
  case Nil
  then show ?case by (subst strchr_loop.simps) simp
next
  case (Cons x xs)
  then show ?case by (subst strchr_loop.simps) (auto simp: algebra_simps)
qed

lemma strrchr_loop_eq:
  "cstr m a xs \<Longrightarrow>
   strrchr_loop a ch last_char m =
     Some (if \<exists>c \<in> set xs. is_ch c ch
           then a + of_nat (length xs) - 1 - of_nat (length (takeWhile (\<lambda>c. \<not> is_ch c ch) (rev xs)))
           else last_char)"
proof (induction xs arbitrary: a last_char)
  case Nil
  then show ?case by (subst strrchr_loop.simps) simp
next
  case (Cons x xs)
  then show ?case
    by (subst strrchr_loop.simps) (auto simp: takeWhile_append algebra_simps)
qed

lemma strchrs_loop_eq:
  "cstr m a xs \<Longrightarrow> strchrs_loop a ch k m = Some (k + of_nat (length (filter (\<lambda>c. is_ch c ch) xs)))"
proof (induction xs arbitrary: a k)
  case Nil
  then show ?case by (subst strchrs_loop.simps) simp
next
  case (Cons x xs)
  then show ?case by (subst strchrs_loop.simps) (auto simp: algebra_simps)
qed

lemma strcat_eq:
  assumes "cstr m dst xs" "cstr m src ys" "dst \<noteq> NULL" "src \<noteq> NULL"
    "span (dst + of_nat (length xs)) (Suc (length ys)) \<subseteq> dom m"
    "span (dst + of_nat (length xs)) (Suc (length ys)) \<inter> span src (Suc (length ys)) = {}"
  shows "strcat dst src m = Some (dst, put_bytes m (dst + of_nat (length xs)) (ys @ [0]))"
  using assms copy_str_eq [OF assms(2,5,6)] by (simp add: strcat_def skip_str_eq del: span_Suc)

lemma span_disjoint:
  assumes "n + k \<le> 4294967296"
  shows "span a n \<inter> span (a + of_nat n) k = {}"
  using assms
proof (induction n arbitrary: a)
  case (Suc n)
  have "a \<notin> span (a + 1) (n + k)" using Suc.prems by (intro start_notin_span) simp
  then have "a \<notin> span (a + 1 + of_nat n) k" by (simp add: span_add)
  moreover have "span (a + 1) n \<inter> span (a + 1 + of_nat n) k = {}" using Suc by simp
  ultimately show ?case by (simp add: add.assoc)
qed simp

lemma span_Suc_end: "span a (Suc n) = insert (a + of_nat n) (span a n)"
  using span_add [of a n 1] by simp

lemma end_notin_span: "n < 4294967296 \<Longrightarrow> a + of_nat n \<notin> span a n"
  using span_disjoint [of n 1 a] by simp

text \<open>\<open>strcat\<close> appends. For two strings that do not overlap and enough room after the first, the call
  returns the address of the first, where the concatenation is now stored with its terminator; no
  byte outside the appended part changes.\<close>

theorem strcat_concat:
  assumes "cstr m dst xs" "cstr m src ys" "dst \<noteq> NULL" "src \<noteq> NULL"
    "span (dst + of_nat (length xs)) (Suc (length ys)) \<subseteq> dom m"
    "span (dst + of_nat (length xs)) (Suc (length ys)) \<inter> span src (Suc (length ys)) = {}"
    "length xs + length ys < 4294967296"
  shows "\<exists>m'. strcat dst src m = Some (dst, m') \<and> cstr m' dst (xs @ ys) \<and>
    (\<forall>b. b \<notin> span (dst + of_nat (length xs)) (Suc (length ys)) \<longrightarrow> m' b = m b)"
proof -
  let ?e = "dst + of_nat (length xs)"
  let ?m = "put_bytes m ?e (ys @ [0])"
  have other: "?m b = m b" if "b \<notin> span ?e (Suc (length ys))" for b
    using that by (subst put_bytes_other) simp_all
  have "span dst (length xs) \<inter> span ?e (Suc (length ys)) = {}"
    using assms(7) by (intro span_disjoint) simp
  then have "bytes_at ?m dst xs = bytes_at m dst xs"
    using other by (intro bytes_at_cong) blast
  moreover have "bytes_at ?m ?e (ys @ [0])" using assms(7) by (intro put_bytes_at) simp
  ultimately have "cstr ?m dst (xs @ ys)"
    using assms(1,2) by (simp add: cstr_def bytes_at_append)
  with strcat_eq [OF assms(1-6)] other show ?thesis by blast
qed

theorem strcat_concat_witness:
  "\<exists>m'. strcat 0x1000 0x2000 (put_bytes (put_bytes Map.empty 0x1000 [97, 98, 0, 0, 0]) 0x2000 [99, 100, 0]) =
      Some (0x1000, m') \<and> cstr m' 0x1000 [97, 98, 99, 100]"
  using strcat_concat [of "put_bytes (put_bytes Map.empty 0x1000 [97, 98, 0, 0, 0]) 0x2000 [99, 100, 0]"
      "0x1000" "[97, 98]" "0x2000" "[99, 100]"]
  by simp blast

text \<open>\<open>strcmp\<close> returns 0 exactly on equal strings, and otherwise -1 or 1 by the lexicographic order of the
  signed characters, terminators included.\<close>

theorem strcmp_order:
  assumes "cstr m a xs" "cstr m b ys" "a \<noteq> NULL" "b \<noteq> NULL"
  shows "strcmp a b m =
    Some (if xs = ys then 0 else if map sint (xs @ [0]) < map sint (ys @ [0]) then -1 else 1)"
  using strcmp_loop_eq [OF assms(1,2)] assms(3,4) by (simp add: strcmp_def byte_order_def)

theorem strcmp_order_witness:
  "strcmp 0x1000 0x2000 (put_bytes (put_bytes Map.empty 0x1000 [97, 98, 0]) 0x2000 [97, 0xe9, 0]) = Some 1"
  by (subst strcmp_order [of _ _ "[97, 98]" _ "[97, 0xe9]"]) simp_all

end
