(* ===== verification/Stdio.thy ===== *)
theory Stdio
  imports Cstring
begin

text \<open>
  Formatted output: \<^verbatim>\<open>lib/stdio.c\<close>.

  \<open>va_list\<close> is an address: \<open>va_arg(ap, t)\<close> advances it by four bytes and reads a value there, a
  little-endian word (\<open>ld32\<close>) or, for \<open>%c\<close>, one byte. \<open>vsprintf\<close> does not store a terminator; its
  callers hand it a buffer of zero bytes.

  The reference for \<open>itoa\<close> is \<open>to_base\<close>, the digits of a number in a base, with \<open>itoa_digits\<close>
  as the characterisation of digits; the reference for \<open>vsprintf\<close> is \<open>format\<close>, a function from the format string and a list
  of typed arguments to the characters of the output. \<open>vsprintf_formats\<close> shows that the C code
  computes it.
\<close>

definition ld32 :: "bmem \<Rightarrow> addr \<Rightarrow> u32 option" where
  "ld32 m a = do {
     b0 \<leftarrow> m a;
     b1 \<leftarrow> m (a + 1);
     b2 \<leftarrow> m (a + 2);
     b3 \<leftarrow> m (a + 3);
     Some (ucast b0 + ucast b1 * 0x100 + ucast b2 * 0x10000 + ucast b3 * 0x1000000)
   }"

definition va_arg_int :: "bmem \<Rightarrow> addr \<Rightarrow> (u32 \<times> addr) option" where
  "va_arg_int m ap = do { v \<leftarrow> ld32 m (ap + 4); Some (v, ap + 4) }"

definition va_arg_char :: "bmem \<Rightarrow> addr \<Rightarrow> (u8 \<times> addr) option" where
  "va_arg_char m ap = do { v \<leftarrow> m (ap + 4); Some (v, ap + 4) }"

text \<open>A base of 0 is a division error.\<close>

definition digit_char :: "u32 \<Rightarrow> u8" where
  "digit_char d = (if d < 10 then ucast (d + 48) else ucast (d - 10 + 65))"

partial_function (option) itoa :: "u32 \<Rightarrow> u8 \<Rightarrow> addr \<Rightarrow> bmem \<Rightarrow> (addr \<times> bmem) option" where
  "itoa v base buf_ptr m =
     (if base = 0 then None
      else do {
        let r = v mod ucast base;
        let i = v div ucast base;
        (buf_ptr, m) \<leftarrow> (if i \<noteq> 0 then itoa i base buf_ptr m else Some (buf_ptr, m));
        m \<leftarrow> wr8 m buf_ptr (digit_char r);
        Some (buf_ptr + 1, m)
      })"

text \<open>The conversion specifiers \<open>%s\<close>, \<open>%c\<close>, \<open>%d\<close>, \<open>%x\<close>; each gives the new output pointer, argument
  pointer and memory.\<close>

definition conv_s :: "addr \<Rightarrow> addr \<Rightarrow> bmem \<Rightarrow> (addr \<times> addr \<times> bmem) option" where
  "conv_s buf_ptr ap m = do {
     (arg_str, ap) \<leftarrow> va_arg_int m ap;
     (_, m) \<leftarrow> strcpy buf_ptr arg_str m;
     n \<leftarrow> strlen arg_str m;
     Some (buf_ptr + n, ap, m)
   }"

definition conv_c :: "addr \<Rightarrow> addr \<Rightarrow> bmem \<Rightarrow> (addr \<times> addr \<times> bmem) option" where
  "conv_c buf_ptr ap m = do {
     (c, ap) \<leftarrow> va_arg_char m ap;
     m \<leftarrow> wr8 m buf_ptr c;
     Some (buf_ptr + 1, ap, m)
   }"

definition conv_d :: "addr \<Rightarrow> addr \<Rightarrow> bmem \<Rightarrow> (addr \<times> addr \<times> bmem) option" where
  "conv_d buf_ptr ap m = do {
     (arg_int, ap) \<leftarrow> va_arg_int m ap;
     (arg_int, buf_ptr, m) \<leftarrow>
       (if arg_int <s 0 then do { m \<leftarrow> wr8 m buf_ptr 45; Some (0 - arg_int, buf_ptr + 1, m) }
        else Some (arg_int, buf_ptr, m));
     (buf_ptr, m) \<leftarrow> itoa arg_int 10 buf_ptr m;
     Some (buf_ptr, ap, m)
   }"

definition conv_x :: "addr \<Rightarrow> addr \<Rightarrow> bmem \<Rightarrow> (addr \<times> addr \<times> bmem) option" where
  "conv_x buf_ptr ap m = do {
     (arg_int, ap) \<leftarrow> va_arg_int m ap;
     (buf_ptr, m) \<leftarrow> itoa arg_int 16 buf_ptr m;
     Some (buf_ptr, ap, m)
   }"

text \<open>An unknown character after \<open>%\<close> is not skipped: the next turn of the loop starts with it.\<close>

definition convert :: "u8 \<Rightarrow> addr \<Rightarrow> addr \<Rightarrow> bmem \<Rightarrow> (addr \<times> addr \<times> bmem) option option" where
  "convert c buf_ptr ap m =
     (if c = 115 then Some (conv_s buf_ptr ap m)
      else if c = 99 then Some (conv_c buf_ptr ap m)
      else if c = 100 then Some (conv_d buf_ptr ap m)
      else if c = 120 then Some (conv_x buf_ptr ap m)
      else None)"

partial_function (option) vsprintf_loop :: "addr \<Rightarrow> addr \<Rightarrow> addr \<Rightarrow> bmem \<Rightarrow> bmem option" where
  "vsprintf_loop index_ptr buf_ptr ap m = do {
     index_char \<leftarrow> m index_ptr;
     if index_char = 0 then Some m
     else if index_char \<noteq> 37 then do {
       m \<leftarrow> wr8 m buf_ptr index_char;
       vsprintf_loop (index_ptr + 1) (buf_ptr + 1) ap m
     } else do {
       c \<leftarrow> m (index_ptr + 1);
       case convert c buf_ptr ap m of
         Some r \<Rightarrow> do {
           (buf_ptr, ap, m) \<leftarrow> r;
           vsprintf_loop (index_ptr + 2) buf_ptr ap m
         }
       | None \<Rightarrow> vsprintf_loop (index_ptr + 1) buf_ptr ap m
     }
   }"

definition vsprintf :: "addr \<Rightarrow> addr \<Rightarrow> addr \<Rightarrow> bmem \<Rightarrow> (u32 \<times> bmem) option" where
  "vsprintf str format ap m = do {
     m \<leftarrow> vsprintf_loop format str ap m;
     n \<leftarrow> strlen str m;
     Some (n, m)
   }"

text \<open>\<open>va_start(args, format)\<close> takes the address of the parameter \<open>format\<close>; the other arguments follow it.\<close>

definition sprintf :: "addr \<Rightarrow> addr \<Rightarrow> bmem \<Rightarrow> (u32 \<times> bmem) option" where
  "sprintf buf format_param m = do {
     format \<leftarrow> ld32 m format_param;
     vsprintf buf format format_param m
   }"

subsection \<open>Digits\<close>

fun to_base :: "nat \<Rightarrow> nat \<Rightarrow> nat list" where
  "to_base b n = (if n < b \<or> b < 2 then [n] else to_base b (n div b) @ [n mod b])"

declare to_base.simps [simp del]

definition digit :: "nat \<Rightarrow> u8" where
  "digit d = (if d < 10 then of_nat (48 + d) else of_nat (55 + d))"

definition base_str :: "nat \<Rightarrow> u32 \<Rightarrow> u8 list" where
  "base_str b w = map digit (to_base b (unat w))"

lemma to_base_value: "2 \<le> b \<Longrightarrow> foldl (\<lambda>a d. a * b + d) 0 (to_base b n) = n"
  by (induction b n rule: to_base.induct) (subst to_base.simps, simp add: div_mult_mod_eq)

lemma to_base_digits: "2 \<le> b \<Longrightarrow> d \<in> set (to_base b n) \<Longrightarrow> d < b"
  by (induction b n rule: to_base.induct) (subst (asm) to_base.simps, auto split: if_splits)

lemma to_base_not_Nil [simp]: "to_base b n \<noteq> []"
  by (subst to_base.simps) simp

lemma to_base_hd: "2 \<le> b \<Longrightarrow> b \<le> n \<Longrightarrow> hd (to_base b n) \<noteq> 0"
proof (induction b n rule: to_base.induct)
  case (1 b n)
  have "hd (to_base b n) = hd (to_base b (n div b))"
    using 1 by (subst to_base.simps) (simp add: hd_append)
  moreover have "n div b \<noteq> 0" using 1 by (simp add: div_eq_0_iff)
  moreover have "hd (to_base b (n div b)) \<noteq> 0"
    using 1 \<open>n div b \<noteq> 0\<close> by (cases "n div b < b") (subst to_base.simps, auto)
  ultimately show ?case by simp
qed

lemma to_base_length: "2 \<le> b \<Longrightarrow> n < b ^ k \<Longrightarrow> 0 < k \<Longrightarrow> length (to_base b n) \<le> k"
proof (induction k arbitrary: n)
  case (Suc k)
  show ?case
  proof (cases "n < b")
    case True
    then show ?thesis by (subst to_base.simps) simp
  next
    case False
    then have "k \<noteq> 0" using Suc.prems by (cases k) auto
    moreover have "n div b < b ^ k"
      using Suc.prems by (simp add: less_mult_imp_div_less mult.commute)
    ultimately show ?thesis using Suc False by (subst to_base.simps) auto
  qed
qed simp

lemma unat_ucast_8_32: "unat (ucast w :: u32) = unat w" for w :: u8
proof -
  have "unat w < 2 ^ 32" using unsigned_less [of w, where 'a = nat] by simp
  then show ?thesis by (simp add: unsigned_ucast_eq take_bit_nat_eq_self)
qed

lemma ucast_of_nat_32_8: "ucast (of_nat k :: u32) = (of_nat k :: u8)"
  by (simp add: word_eq_iff_unsigned [where 'a = nat] unsigned_ucast_eq unsigned_of_nat)

lemma digit_char_of_nat: "d < 256 \<Longrightarrow> digit_char (of_nat d) = digit d"
proof -
  assume d: "d < 256"
  have "(of_nat d :: u32) < 10 \<longleftrightarrow> d < 10" using d by (simp add: word_less_nat_alt)
  moreover have "(of_nat d + 48 :: u32) = of_nat (48 + d)" "(of_nat d - 10 + 65 :: u32) = of_nat (55 + d)"
    by (simp_all add: algebra_simps)
  ultimately show ?thesis by (simp only: digit_char_def digit_def ucast_of_nat_32_8)
qed

lemma itoa_eq:
  assumes "2 \<le> base" "span buf (length (base_str (unat base) v)) \<subseteq> dom m"
  shows "itoa v base buf m =
    Some (buf + of_nat (length (base_str (unat base) v)), put_bytes m buf (base_str (unat base) v))"
  using assms(2)
proof (induction "unat v" arbitrary: v rule: less_induct)
  case less
  let ?b = "unat base" and ?w = "ucast base :: u32"
  have b: "2 \<le> ?b" "base \<noteq> 0" "?b < 256" "unat ?w = ?b"
    using assms(1) unsigned_less [of base, where 'a = nat] by (auto simp: word_le_nat_alt unat_ucast_8_32)
  have r: "digit_char (v mod ?w) = digit (unat v mod ?b)"
  proof -
    have "v mod ?w = of_nat (unat v mod ?b)"
      using word_arith_nat_mod [of v ?w] by (simp only: b(4))
    moreover have "unat v mod ?b < 256" using b(1,3) mod_less_divisor [of ?b "unat v"] by linarith
    ultimately show ?thesis by (simp add: digit_char_of_nat)
  qed
  have i: "v div ?w = 0 \<longleftrightarrow> unat v < ?b" "unat (v div ?w) = unat v div ?b"
    using b by (simp_all add: unat_div_distrib div_eq_0_iff word_unat_eq_iff)
  show ?case
  proof (cases "unat v < ?b")
    case True
    then have s: "base_str ?b v = [digit (unat v mod ?b)]"
      by (simp add: base_str_def to_base.simps [of ?b])
    show ?thesis using less.prems True
      by (subst itoa.simps) (simp add: i r s b(2) wr8_in)
  next
    case False
    let ?v = "v div ?w"
    have s: "base_str ?b v = base_str ?b ?v @ [digit (unat v mod ?b)]"
      using False b(1) by (simp add: base_str_def to_base.simps [of ?b "unat v"] i)
    have "unat ?v < unat v" using False b(1) by (simp add: i)
    moreover have sub: "span buf (length (base_str ?b ?v)) \<subseteq> dom m"
      "buf + of_nat (length (base_str ?b ?v)) \<in> dom m"
      using less.prems span_Suc_end [of buf "length (base_str ?b ?v)"] by (auto simp: s simp del: span_Suc)
    ultimately have "itoa ?v base buf m = Some (buf + of_nat (length (base_str ?b ?v)), put_bytes m buf (base_str ?b ?v))"
      using less.hyps by blast
    moreover have "wr8 (put_bytes m buf (base_str ?b ?v)) (buf + of_nat (length (base_str ?b ?v))) (digit (unat v mod ?b)) =
        Some (put_bytes m buf (base_str ?b v))"
      using sub(2) by (subst wr8_in) (simp_all add: dom_put_bytes s put_bytes_append)
    ultimately show ?thesis using False
      by (subst itoa.simps) (simp add: i r b(2) s Let_def algebra_simps)
  qed
qed

subsection \<open>The reference formatter\<close>

datatype fmt_arg = AStr "u8 list" | AChr u8 | AInt u32

definition dec_str :: "u32 \<Rightarrow> u8 list" where
  "dec_str w = (if w <s 0 then 45 # base_str 10 (0 - w) else base_str 10 w)"

fun arg_str :: "u8 \<Rightarrow> fmt_arg \<Rightarrow> u8 list option" where
  "arg_str c (AStr xs) = (if c = 115 then Some xs else None)"
| "arg_str c (AChr x) = (if c = 99 then Some [x] else None)"
| "arg_str c (AInt w) = (if c = 100 then Some (dec_str w) else if c = 120 then Some (base_str 16 w) else None)"

definition is_conv :: "u8 \<Rightarrow> bool" where
  "is_conv c \<longleftrightarrow> c = 115 \<or> c = 99 \<or> c = 100 \<or> c = 120"

text \<open>\<open>None\<close> when the arguments do not fit the specifiers. A lone \<open>%\<close> produces nothing.\<close>

fun format :: "u8 list \<Rightarrow> fmt_arg list \<Rightarrow> u8 list option" where
  "format [] args = Some []"
| "format [c] args = Some (if c = 37 then [] else [c])"
| "format (c # d # cs) args =
     (if c \<noteq> 37 then map_option ((#) c) (format (d # cs) args)
      else if \<not> is_conv d then format (d # cs) args
      else case args of [] \<Rightarrow> None
        | x # args \<Rightarrow> (case arg_str d x of None \<Rightarrow> None | Some xs \<Rightarrow> map_option ((@) xs) (format cs args)))"

text \<open>The arguments in memory, all bytes they occupy inside the set \<open>K\<close>.\<close>

fun arg_at :: "addr set \<Rightarrow> bmem \<Rightarrow> addr \<Rightarrow> fmt_arg \<Rightarrow> bool" where
  "arg_at K m p (AStr xs) = (span p 4 \<subseteq> K \<and> (\<exists>q. ld32 m p = Some q \<and> q \<noteq> NULL \<and> cstr m q xs \<and> span q (Suc (length xs)) \<subseteq> K))"
| "arg_at K m p (AChr c) = (p \<in> K \<and> m p = Some c)"
| "arg_at K m p (AInt w) = (span p 4 \<subseteq> K \<and> ld32 m p = Some w)"

primrec args_at :: "addr set \<Rightarrow> bmem \<Rightarrow> addr \<Rightarrow> fmt_arg list \<Rightarrow> bool" where
  "args_at K m ap [] = True"
| "args_at K m ap (x # xs) = (arg_at K m (ap + 4) x \<and> args_at K m (ap + 4) xs)"

lemma ld32_cong: "(\<And>b. b \<in> span p 4 \<Longrightarrow> m b = m' b) \<Longrightarrow> ld32 m p = ld32 m' p"
  by (simp add: ld32_def numeral_eq_Suc add.assoc cong: option.case_cong)

lemma arg_at_cong: "(\<And>b. b \<in> K \<Longrightarrow> m b = m' b) \<Longrightarrow> arg_at K m p x \<Longrightarrow> arg_at K m' p x"
proof (cases x)
  case (AStr xs)
  assume eq: "\<And>b. b \<in> K \<Longrightarrow> m b = m' b" and a: "arg_at K m p x"
  with AStr obtain q where q: "span p 4 \<subseteq> K" "ld32 m p = Some q" "q \<noteq> NULL" "cstr m q xs" "span q (Suc (length xs)) \<subseteq> K"
    by auto
  moreover have "ld32 m p = ld32 m' p" using q(1) eq by (intro ld32_cong) blast
  moreover have "cstr m q xs = cstr m' q xs" using q(5) eq by (intro cstr_cong) blast
  ultimately show ?thesis unfolding AStr arg_at.simps by (auto simp del: span_Suc)
next
  case (AInt w)
  assume "\<And>b. b \<in> K \<Longrightarrow> m b = m' b" "arg_at K m p x"
  then show ?thesis unfolding AInt arg_at.simps using ld32_cong [of p m m'] by (simp add: subset_iff)
qed auto

lemma args_at_cong: "(\<And>b. b \<in> K \<Longrightarrow> m b = m' b) \<Longrightarrow> args_at K m ap xs \<Longrightarrow> args_at K m' ap xs"
proof (induction xs arbitrary: ap)
  case (Cons x xs)
  then show ?case using arg_at_cong [OF Cons.prems(1)] by auto
qed simp

text \<open>What a step of the formatter does to memory: \<open>xs\<close> is at \<open>buf\<close>, followed by what was there or by a zero byte; nothing
  beyond changes.\<close>

definition wrote :: "addr \<Rightarrow> u8 list \<Rightarrow> bmem \<Rightarrow> bmem \<Rightarrow> bool" where
  "wrote buf xs m m' \<longleftrightarrow> bytes_at m' buf xs \<and> dom m' = dom m \<and>
     m' (buf + of_nat (length xs)) \<in> {m (buf + of_nat (length xs)), Some 0} \<and>
     (\<forall>b. b \<notin> span buf (Suc (length xs)) \<longrightarrow> m' b = m b)"

lemma wrote_put:
  assumes "length xs < 4294967296" "span buf (length xs) \<subseteq> dom m"
  shows "wrote buf xs m (put_bytes m buf xs)"
proof -
  have "put_bytes m buf xs (buf + of_nat (length xs)) = m (buf + of_nat (length xs))"
    using assms(1) by (intro put_bytes_other end_notin_span)
  moreover have "put_bytes m buf xs b = m b" if "b \<notin> span buf (Suc (length xs))" for b
    using that span_Suc_end by (intro put_bytes_other) auto
  ultimately show ?thesis
    using assms by (auto simp: wrote_def dom_put_bytes put_bytes_at simp del: span_Suc)
qed

lemma wrote_put0:
  assumes "length xs < 4294967296" "span buf (Suc (length xs)) \<subseteq> dom m"
  shows "wrote buf xs m (put_bytes m buf (xs @ [0]))"
proof -
  have "bytes_at (put_bytes m buf (xs @ [0])) buf (xs @ [0])" using assms(1) by (intro put_bytes_at) simp
  moreover have "put_bytes m buf (xs @ [0]) b = m b" if "b \<notin> span buf (Suc (length xs))" for b
    using that by (intro put_bytes_other) simp
  ultimately show ?thesis using assms(2) dom_put_bytes [of m buf "xs @ [0]"]
    by (auto simp: wrote_def bytes_at_append simp del: span_Suc)
qed

lemma wrote_end:
  assumes "wrote buf xs m m1" "length xs + length ys < 4294967296"
    "m (buf + of_nat (length (xs @ ys))) = Some 0"
  shows "m1 (buf + of_nat (length xs) + of_nat (length ys)) = Some 0"
proof (cases "ys = []")
  case True
  then show ?thesis using assms(1,3) by (auto simp: wrote_def)
next
  case False
  let ?e = "buf + of_nat (length xs)"
  have eq: "buf + of_nat (length (xs @ ys)) = ?e + of_nat (length ys)" by (simp add: add.assoc)
  have "span buf (length xs) \<inter> span ?e (Suc (length ys)) = {}"
    using assms(2) by (intro span_disjoint) simp
  then have "?e + of_nat (length ys) \<notin> span buf (length xs)"
    using span_Suc_end [of ?e "length ys"] by (auto simp del: span_Suc)
  moreover have "?e + of_nat (length ys) \<noteq> ?e"
  proof
    assume "?e + of_nat (length ys) = ?e"
    then have "unat (of_nat (length ys) :: u32) = 0" by simp
    with False assms(2) show False by simp
  qed
  ultimately have "?e + of_nat (length ys) \<notin> span buf (Suc (length xs))"
    by (simp add: span_Suc_end del: span_Suc)
  with assms(1,3) show ?thesis unfolding eq by (auto simp: wrote_def simp del: span_Suc)
qed

lemma wrote_append:
  assumes "wrote buf xs m m1" "wrote (buf + of_nat (length xs)) ys m1 m2" "length xs + length ys < 4294967296"
    "m (buf + of_nat (length (xs @ ys))) = Some 0"
  shows "wrote buf (xs @ ys) m m2"
proof -
  let ?e = "buf + of_nat (length xs)"
  have d: "span buf (length xs) \<inter> span ?e (Suc (length ys)) = {}"
    using assms(3) by (intro span_disjoint) simp
  have eq: "buf + of_nat (length (xs @ ys)) = ?e + of_nat (length ys)" by (simp add: add.assoc)
  have s: "span buf (Suc (length (xs @ ys))) = span buf (length xs) \<union> span ?e (Suc (length ys))"
    using span_add [of buf "length xs" "Suc (length ys)"] by simp
  have "bytes_at m1 buf xs = bytes_at m2 buf xs"
    using d assms(2) by (intro bytes_at_cong) (auto simp: wrote_def simp del: span_Suc)
  moreover have "m1 (?e + of_nat (length ys)) = Some 0" by (rule wrote_end [OF assms(1,3,4)])
  moreover have "m2 b = m b" if "b \<notin> span buf (Suc (length (xs @ ys)))" for b
  proof -
    have "b \<noteq> ?e" "b \<notin> span buf (length xs)" "b \<notin> span ?e (Suc (length ys))" using that unfolding s by auto
    then show ?thesis using assms(1,2) unfolding wrote_def span_Suc_end by auto
  qed
  ultimately show ?thesis
    using assms(1,2) unfolding wrote_def eq bytes_at_append by (auto simp del: span_Suc)
qed

text \<open>The output region: mapped, apart from the inputs \<open>K\<close>, with a zero byte where the output will end.\<close>

definition room :: "addr set \<Rightarrow> addr \<Rightarrow> nat \<Rightarrow> bmem \<Rightarrow> bool" where
  "room K buf n m \<longleftrightarrow> span buf (Suc n) \<subseteq> dom m \<and> span buf (Suc n) \<inter> K = {} \<and> n < 4294967296 \<and>
     NULL \<notin> dom m \<and> m (buf + of_nat n) = Some 0"

lemma room_advance:
  assumes "room K buf (length (xs @ ys)) m" "wrote buf xs m m1"
  shows "room K (buf + of_nat (length xs)) (length ys) m1" "\<And>b. b \<in> K \<Longrightarrow> m b = m1 b"
proof -
  have s: "span buf (Suc (length (xs @ ys))) = span buf (length xs) \<union> span (buf + of_nat (length xs)) (Suc (length ys))"
    using span_add [of buf "length xs" "Suc (length ys)"] by simp
  have r: "span buf (Suc (length (xs @ ys))) \<subseteq> dom m" "span buf (Suc (length (xs @ ys))) \<inter> K = {}"
      "length xs + length ys < 4294967296" "NULL \<notin> dom m" "m (buf + of_nat (length (xs @ ys))) = Some 0"
    using assms(1) unfolding room_def length_append by blast+
  have "m1 (buf + of_nat (length xs) + of_nat (length ys)) = Some 0"
    by (rule wrote_end [OF assms(2) r(3,5)])
  moreover have "dom m1 = dom m" using assms(2) by (simp add: wrote_def)
  moreover have "length ys < 4294967296" using r(3) by simp
  ultimately show "room K (buf + of_nat (length xs)) (length ys) m1"
    using r(1,2,4) unfolding room_def s by blast
  have "span buf (Suc (length xs)) \<subseteq> span buf (Suc (length (xs @ ys)))" by (intro span_mono) simp
  then show "m b = m1 b" if "b \<in> K" for b
    using assms that unfolding room_def wrote_def by (metis IntI empty_iff subsetD)
qed

lemma room_prefix:
  assumes "room K buf (length (xs @ ys)) m"
  shows "span buf (Suc (length xs)) \<subseteq> dom m" "span buf (Suc (length xs)) \<inter> K = {}"
    "length xs < 4294967296" "NULL \<notin> dom m"
proof -
  have "span buf (Suc (length xs)) \<subseteq> span buf (Suc (length (xs @ ys)))" by (intro span_mono) simp
  moreover have "length (xs @ ys) < 4294967296" "NULL \<notin> dom m"
    "span buf (Suc (length (xs @ ys))) \<subseteq> dom m" "span buf (Suc (length (xs @ ys))) \<inter> K = {}"
    using assms unfolding room_def by blast+
  ultimately show "span buf (Suc (length xs)) \<subseteq> dom m" "span buf (Suc (length xs)) \<inter> K = {}"
    "length xs < 4294967296" "NULL \<notin> dom m"
    by (blast, blast, simp, blast)
qed

lemma convert_none: "\<not> is_conv c \<Longrightarrow> convert c buf ap m = None"
  by (simp add: is_conv_def convert_def)

lemma conv_d_ok:
  assumes "arg_at K m (ap + 4) (AInt w)" "span buf (length (dec_str w)) \<subseteq> dom m"
  shows "conv_d buf ap m = Some (buf + of_nat (length (dec_str w)), ap + 4, put_bytes m buf (dec_str w))"
proof (cases "w <s 0")
  case True
  then have "span (buf + 1) (length (base_str 10 (- w))) \<subseteq> dom (m(buf \<mapsto> 45))" "buf \<in> dom m"
    using assms(2) by (auto simp: dec_str_def)
  with True assms(1) itoa_eq [of 10 "buf + 1" "- w" "m(buf \<mapsto> 45)"] show ?thesis
    by (simp add: conv_d_def va_arg_int_def dec_str_def wr8_in del: dom_fun_upd)
next
  case False
  with assms itoa_eq [of 10 buf w m] show ?thesis
    by (simp add: conv_d_def va_arg_int_def dec_str_def)
qed

lemma convert_ok:
  assumes "arg_at K m (ap + 4) x" "arg_str c x = Some xs" "span buf (Suc (length xs)) \<subseteq> dom m"
    "span buf (Suc (length xs)) \<inter> K = {}" "length xs < 4294967296" "NULL \<notin> dom m"
  shows "\<exists>m'. convert c buf ap m = Some (Some (buf + of_nat (length xs), ap + 4, m')) \<and> wrote buf xs m m'"
proof (cases x)
  case (AStr ys)
  with assms(1,2) obtain q where q: "c = 115" "ys = xs" "ld32 m (ap + 4) = Some q" "q \<noteq> NULL" "cstr m q xs"
      "span q (Suc (length xs)) \<subseteq> K"
    by (auto split: if_splits)
  let ?m = "put_bytes m buf (xs @ [0])"
  have n: "buf \<noteq> NULL" using assms(3,6) by auto
  have d: "span buf (Suc (length xs)) \<inter> span q (Suc (length xs)) = {}" using q(6) assms(4) by blast
  have "cstr ?m q xs = cstr m q xs"
    using d by (intro cstr_cong put_bytes_other) (auto simp del: span_Suc)
  then have "strlen q ?m = Some (of_nat (length xs))" using q(4,5) by (intro strlen_eq) simp_all
  moreover have "strcpy buf q m = Some (buf, ?m)" using strcpy_eq [OF q(5) n q(4) assms(3) d] .
  ultimately have "convert c buf ap m = Some (Some (buf + of_nat (length xs), ap + 4, ?m))"
    using q(1,3) by (simp add: convert_def conv_s_def va_arg_int_def)
  then show ?thesis using wrote_put0 [OF assms(5,3)] by blast
next
  case (AChr y)
  with assms(1-3) have "convert c buf ap m = Some (Some (buf + of_nat (length xs), ap + 4, put_bytes m buf xs))"
    by (auto simp: convert_def conv_c_def va_arg_char_def wr8_in split: if_splits)
  moreover have "wrote buf xs m (put_bytes m buf xs)"
    using assms(3,5) span_Suc_end [of buf "length xs"] by (intro wrote_put) auto
  ultimately show ?thesis by blast
next
  case (AInt w)
  have s: "span buf (length xs) \<subseteq> dom m" using assms(3) span_Suc_end [of buf "length xs"] by auto
  have "convert c buf ap m = Some (Some (buf + of_nat (length xs), ap + 4, put_bytes m buf xs))"
  proof (cases "c = 100")
    case True
    then have "xs = dec_str w" using assms(2) AInt by simp
    with conv_d_ok [OF assms(1) [unfolded AInt], of buf] s True show ?thesis by (simp add: convert_def)
  next
    case False
    then have "c = 120" "xs = base_str 16 w" using assms(2) AInt by (auto split: if_splits)
    with itoa_eq [of 16 buf w m] s assms(1) AInt show ?thesis
      by (simp add: convert_def conv_x_def va_arg_int_def)
  qed
  then show ?thesis using wrote_put [OF assms(5) s] by blast
qed

lemma vsprintf_loop_ok:
  assumes "format fs args = Some out" "cstr m f fs" "span f (Suc (length fs)) \<subseteq> K" "args_at K m ap args"
    "room K buf (length out) m"
  shows "\<exists>m'. vsprintf_loop f buf ap m = Some m' \<and> wrote buf out m m'"
  using assms
proof (induction fs args arbitrary: f buf ap m out rule: format.induct)
  case (1 args)
  then show ?case by (subst vsprintf_loop.simps) (simp add: wrote_def)
next
  case (2 c args)
  show ?case
  proof (cases "c = 37")
    case True
    with 2 show ?thesis
      by (subst vsprintf_loop.simps) (simp add: convert_none is_conv_def wrote_def vsprintf_loop.simps)
  next
    case False
    let ?m = "m(buf \<mapsto> c)"
    have w: "wrote buf [c] m ?m" using wrote_put [of "[c]" buf m] 2(5) by (auto simp: room_def)
    have "f + 1 \<in> K" "buf \<notin> K" and d: "buf \<in> dom m" using 2 False by (auto simp: room_def)
    then have "?m (f + 1) = Some 0" using 2(2) by auto
    then have "vsprintf_loop (f + 1) (buf + 1) ap ?m = Some ?m" by (subst vsprintf_loop.simps) simp
    with d 2(2) False have "vsprintf_loop f buf ap m = Some ?m"
      by (subst vsprintf_loop.simps) (simp add: wr8_in)
    with w False 2(1) show ?thesis by auto
  qed
next
  case (3 c d cs args)
  have K: "span (f + 1) (Suc (length (d # cs))) \<subseteq> K" using 3(6) by auto
  have fr: "cstr m' (f + 1) (d # cs) \<and> args_at K m' ap args" if "\<And>b. b \<in> K \<Longrightarrow> m b = m' b" for m'
    using 3(5,7) K that args_at_cong [of K m m'] cstr_cong [of "f + 1" "d # cs" m m'] by auto
  show ?case
  proof (cases "c = 37")
    case lit: False
    then obtain out' where o: "format (d # cs) args = Some out'" "out = c # out'" using 3(4) by auto
    let ?m = "m(buf \<mapsto> c)"
    have d: "buf \<in> dom m" using 3(8) by (auto simp: room_def)
    have w: "wrote buf [c] m ?m" using wrote_put [of "[c]" buf m] d by simp
    have r: "room K (buf + 1) (length out') ?m" "\<And>b. b \<in> K \<Longrightarrow> m b = ?m b"
      using room_advance [OF _ w, of K out'] 3(8) o(2) by simp_all
    obtain m' where m': "vsprintf_loop (f + 1) (buf + 1) ap ?m = Some m'" "wrote (buf + 1) out' ?m m'"
      using 3(1) [OF lit o(1) _ K _ r(1)] fr [OF r(2)] by blast
    have "wrote buf ([c] @ out') m m'"
      using w m'(2) 3(8) o(2) by (intro wrote_append) (auto simp: room_def)
    moreover have "vsprintf_loop f buf ap m = Some m'"
      using m'(1) d lit 3(5) by (subst vsprintf_loop.simps) (simp add: wr8_in)
    ultimately show ?thesis using o(2) by auto
  next
    case pct: True
    show ?thesis
    proof (cases "is_conv d")
      case False
      then have "format (d # cs) args = Some out" using 3(4) pct by simp
      then obtain m' where "vsprintf_loop (f + 1) buf ap m = Some m'" "wrote buf out m m'"
        using 3(2) pct False K 3(7,8) fr by blast
      then show ?thesis using pct False 3(5) by (subst vsprintf_loop.simps) (simp add: convert_none)
    next
      case True
      then obtain x args' xs out' where x: "args = x # args'" "arg_str d x = Some xs"
          "format cs args' = Some out'" "out = xs @ out'"
        using 3(4) pct by (auto split: list.splits option.splits)
      have rm: "span buf (Suc (length xs)) \<subseteq> dom m" "span buf (Suc (length xs)) \<inter> K = {}" "length xs < 4294967296"
          "NULL \<notin> dom m"
        using room_prefix [of K buf xs out' m] 3(8) x(4) by simp_all
      then obtain m1 where m1: "convert d buf ap m = Some (Some (buf + of_nat (length xs), ap + 4, m1))" "wrote buf xs m m1"
        using convert_ok [of K m ap x d xs buf] 3(7) x(1,2) by auto
      have r: "room K (buf + of_nat (length xs)) (length out') m1" "\<And>b. b \<in> K \<Longrightarrow> m b = m1 b"
        using room_advance [OF _ m1(2), of K out'] 3(8) x(4) by simp_all
      have f2: "cstr m1 (f + 2) cs" "args_at K m1 (ap + 4) args'" "span (f + 2) (Suc (length cs)) \<subseteq> K"
        using fr [OF r(2)] x(1) K by (simp_all add: add.assoc)
      obtain m' where m': "vsprintf_loop (f + 2) (buf + of_nat (length xs)) (ap + 4) m1 = Some m'"
          "wrote (buf + of_nat (length xs)) out' m1 m'"
        using 3(3) [of x args' xs out' m1 "f + 2" "ap + 4"] pct True x f2 r(1) by auto
      have "wrote buf (xs @ out') m m'"
        using m1(2) m'(2) 3(8) x(4) by (intro wrote_append) (auto simp: room_def)
      moreover have "vsprintf_loop f buf ap m = Some m'"
        using m'(1) m1(1) pct 3(5) by (subst vsprintf_loop.simps) simp
      ultimately show ?thesis using x(4) by auto
    qed
  qed
qed

text \<open>C32: \<open>vsprintf\<close> computes the reference formatter. When the arguments in memory fit the specifiers of the
  format and the output buffer is apart from them and holds a zero byte where the output ends, the
  call returns the length of the formatted string, which is then stored in the buffer; no byte
  outside the output changes.\<close>

theorem vsprintf_formats:
  assumes "format fs args = Some out" "cstr m f fs" "span f (Suc (length fs)) \<subseteq> K" "args_at K m ap args"
    "room K buf (length out) m" "0 \<notin> set out"
  shows "\<exists>m'. vsprintf buf f ap m = Some (of_nat (length out), m') \<and> cstr m' buf out \<and>
    (\<forall>b. b \<notin> span buf (Suc (length out)) \<longrightarrow> m' b = m b)"
proof -
  obtain m' where m': "vsprintf_loop f buf ap m = Some m'" "wrote buf out m m'"
    using vsprintf_loop_ok [OF assms(1-5)] by blast
  have "m' (buf + of_nat (length out)) = Some 0" using m'(2) assms(5) by (auto simp: wrote_def room_def)
  then have c: "cstr m' buf out"
    using m'(2) assms(6) by (simp add: cstr_def bytes_at_append wrote_def)
  have "buf \<noteq> NULL" using assms(5) by (auto simp: room_def)
  with c m' show ?thesis by (auto simp: vsprintf_def strlen_eq wrote_def simp del: span_Suc)
qed

lemma span_4_5:
  "span a 4 = {a, a + 1, a + 2, a + 3}" "span a 5 = {a, a + 1, a + 2, a + 3, a + 4}"
  by (simp_all add: eval_nat_numeral add.assoc)

lemma dec_str_minus5: "dec_str 0xfffffffb = [45, 53]"
  by (simp add: dec_str_def base_str_def digit_def word_sless_alt to_base.simps)

theorem vsprintf_formats_witness:
  "\<exists>m'. vsprintf 0x3000 0x1000 0x2000
      (put_bytes (put_bytes (put_bytes Map.empty 0x1000 [120, 61, 37, 100, 0]) 0x2004 [0xfb, 0xff, 0xff, 0xff])
        0x3000 [0, 0, 0, 0, 0]) = Some (4, m') \<and> cstr m' 0x3000 [120, 61, 45, 53]"
proof -
  let ?m = "put_bytes (put_bytes (put_bytes Map.empty 0x1000 [120, 61, 37, 100, 0]) 0x2004 [0xfb, 0xff, 0xff, 0xff])
        0x3000 [0, 0, 0, 0, 0]"
  have f: "format [120, 61, 37, 100] [AInt 0xfffffffb] = Some [120, 61, 45, 53]"
    by (simp add: is_conv_def dec_str_minus5)
  have K: "span 0x1000 (Suc (length [120 :: u8, 61, 37, 100])) \<subseteq> span 0x1000 5 \<union> span 0x2004 4"
    by (simp add: span_4_5)
  have "args_at (span 0x1000 5 \<union> span 0x2004 4) ?m 0x2000 [AInt 0xfffffffb]"
    by (simp add: ld32_def)
  moreover have "room (span 0x1000 5 \<union> span 0x2004 4) 0x3000 (length [120 :: u8, 61, 45, 53]) ?m"
    by (simp add: room_def span_4_5)
  ultimately show ?thesis
    using vsprintf_formats [OF f _ K, of ?m "0x2000" "0x3000"] by fastforce
qed

text \<open>C33: \<open>itoa\<close> terminates for every base from 2 on and writes the digits of the number in that base, most
  significant first: their value is the number, there is no leading zero, and there are at most 32.\<close>

theorem itoa_digits:
  assumes "2 \<le> base" "span buf 32 \<subseteq> dom m"
  shows "\<exists>ds. itoa v base buf m = Some (buf + of_nat (length ds), put_bytes m buf (map digit ds)) \<and>
    foldl (\<lambda>a d. a * unat base + d) 0 ds = unat v \<and> (\<forall>d \<in> set ds. d < unat base) \<and>
    length ds \<le> 32 \<and> (length ds > 1 \<longrightarrow> hd ds \<noteq> 0)"
proof -
  let ?ds = "to_base (unat base) (unat v)"
  have b: "2 \<le> unat base" using assms(1) by (simp add: word_le_nat_alt)
  have "unat v < 2 ^ 32" using unsigned_less [of v, where 'a = nat] by simp
  also have "(2 :: nat) ^ 32 \<le> unat base ^ 32" using b by (rule power_mono) simp
  finally have l: "length ?ds \<le> 32" by (rule to_base_length [OF b]) simp
  have "hd ?ds \<noteq> 0" if "length ?ds > 1"
  proof (cases "unat v < unat base")
    case True
    then have "length ?ds = 1" by (subst to_base.simps) simp
    with that show ?thesis by simp
  qed (simp add: to_base_hd [OF b])
  moreover have "itoa v base buf m = Some (buf + of_nat (length ?ds), put_bytes m buf (map digit ?ds))"
    using itoa_eq [OF assms(1), of buf v m] span_mono [OF l, of buf] assms(2) by (auto simp: base_str_def)
  ultimately show ?thesis using to_base_value [OF b] to_base_digits [OF b] l by blast
qed

theorem itoa_digits_witness:
  "\<exists>ds. itoa 255 16 0x1000 (put_bytes Map.empty 0x1000 (replicate 32 0)) =
      Some (0x1000 + of_nat (length ds), put_bytes (put_bytes Map.empty 0x1000 (replicate 32 0)) 0x1000 (map digit ds)) \<and>
      foldl (\<lambda>a d. a * 16 + d) 0 ds = 255 \<and> length ds \<le> 32"
proof -
  have "span 0x1000 32 \<subseteq> dom (put_bytes Map.empty 0x1000 (replicate 32 0))" by (simp add: dom_put_bytes)
  from itoa_digits [of 16, OF _ this, of 255] show ?thesis by auto
qed

end
