(* ===== verification/Interrupt.thy ===== *)
theory Interrupt
  imports Stdio
begin

text \<open>
  The interrupt component (\<^verbatim>\<open>kernel/interrupt.c\<close>).

  The record \<open>cpu\<close> holds what the C code reaches through assembly: the \<open>eflags\<close>
  register, whose bit 9 is the interrupt flag, the bytes written to I/O ports by \<open>outb\<close>,
  oldest first, and the characters on the screen. Other components extend this record with their own fields, so the functions
  below take any extension of it. The record \<open>idt_state\<close> adds the interrupt descriptor table,
  the handler table \<open>idt_table\<close>, the exception names and the operand of \<open>lidt\<close>. Addresses of
  functions (the entry points of \<^verbatim>\<open>kernel/kernel.S\<close>, the handlers) are link-time constants and
  parameters here. The text that \<open>general_intr_handler\<close> prints is left out.
\<close>

unbundle bit_operations_syntax

datatype intr_status = INTR_OFF | INTR_ON

record cpu =
  eflags :: u32
  outs :: "(u16 \<times> u8) list"
  screen :: "u8 list"

definition EFLAGS_IF :: u32 where
  "EFLAGS_IF = 0x200"

definition outb :: "u16 \<Rightarrow> u8 \<Rightarrow> 'a cpu_scheme \<Rightarrow> 'a cpu_scheme" where
  "outb port v c = c\<lparr>outs := outs c @ [(port, v)]\<rparr>"

text \<open>The screen as a sequence of characters, with the functions of \<^verbatim>\<open>lib/kernel/print.S\<close>; \<open>put_int\<close> prints the hexadecimal digits without
  leading zeros.\<close>

definition put_char :: "u8 \<Rightarrow> 'a cpu_scheme \<Rightarrow> 'a cpu_scheme" where
  "put_char c s = s\<lparr>screen := screen s @ [c]\<rparr>"

definition put_str :: "u8 list \<Rightarrow> 'a cpu_scheme \<Rightarrow> 'a cpu_scheme" where
  "put_str cs s = fold put_char cs s"

definition put_int :: "u32 \<Rightarrow> 'a cpu_scheme \<Rightarrow> 'a cpu_scheme" where
  "put_int num s = put_str (base_str 16 num) s"

lemma put_str_screen: "put_str cs s = s\<lparr>screen := screen s @ cs\<rparr>"
  unfolding put_str_def by (induction cs arbitrary: s) (simp_all add: put_char_def)

definition sti :: "'a cpu_scheme \<Rightarrow> 'a cpu_scheme" where
  "sti c = c\<lparr>eflags := eflags c OR EFLAGS_IF\<rparr>"

definition cli :: "'a cpu_scheme \<Rightarrow> 'a cpu_scheme" where
  "cli c = c\<lparr>eflags := eflags c AND NOT EFLAGS_IF\<rparr>"

definition intr_get_status :: "'a cpu_scheme \<Rightarrow> intr_status" where
  "intr_get_status c = (if EFLAGS_IF AND eflags c \<noteq> 0 then INTR_ON else INTR_OFF)"

definition intr_enable :: "'a cpu_scheme \<Rightarrow> intr_status \<times> 'a cpu_scheme" where
  "intr_enable c = (if INTR_ON = intr_get_status c then (INTR_ON, c) else (INTR_OFF, sti c))"

definition intr_disable :: "'a cpu_scheme \<Rightarrow> intr_status \<times> 'a cpu_scheme" where
  "intr_disable c = (if INTR_ON = intr_get_status c then (INTR_ON, cli c) else (INTR_OFF, c))"

definition intr_set_status :: "intr_status \<Rightarrow> 'a cpu_scheme \<Rightarrow> intr_status \<times> 'a cpu_scheme" where
  "intr_set_status st c = (if st = INTR_ON then intr_enable c else intr_disable c)"

text \<open>\<open>panic_spin\<close> of \<^verbatim>\<open>kernel/debug.c\<close>, the end of a failed assertion: the state in which it loops for ever. To the caller it is the result
  \<open>None\<close> of \<open>ASSERT\<close>.\<close>

definition panic_spin :: "u8 list \<Rightarrow> u32 \<Rightarrow> u8 list \<Rightarrow> u8 list \<Rightarrow> 'a cpu_scheme \<Rightarrow> 'a cpu_scheme" where
  "panic_spin filename line func condition c =
     (let (_, c) = intr_disable c;
          c = put_str (lit ''\<newline>\<newline>\<newline>!!!!! error !!!!!\<newline>'') c;
          c = put_str (lit ''\<newline>'') (put_str filename (put_str (lit ''filename:'') c));
          c = put_str (lit ''\<newline>'') (put_int line (put_str (lit ''line:0x'') c));
          c = put_str (lit ''\<newline>'') (put_str func (put_str (lit ''function:'') c))
      in put_str (lit ''\<newline>'') (put_str condition (put_str (lit ''condition:'') c)))"

subsection \<open>Descriptor table\<close>

record gate_desc =
  func_offset_low_word :: u16
  selector :: u16
  dcount :: u8
  attribute :: u8
  func_offset_high_word :: u16

definition IDT_DESC_CNT :: nat where
  "IDT_DESC_CNT = 0x81"

definition SELECTOR_K_CODE :: u16 where
  "SELECTOR_K_CODE = push_bit 3 1 + push_bit 2 0 + 0"

definition IDT_DESC_ATTR_DPL0 :: u8 where
  "IDT_DESC_ATTR_DPL0 = push_bit 7 1 + push_bit 5 0 + 0xE"

definition IDT_DESC_ATTR_DPL3 :: u8 where
  "IDT_DESC_ATTR_DPL3 = push_bit 7 1 + push_bit 5 3 + 0xE"

record idt_state = cpu +
  idt :: "gate_desc list"
  idt_table :: "addr list"
  intr_name :: "string list"
  idtr :: u64

definition make_idt_desc :: "u8 \<Rightarrow> addr \<Rightarrow> gate_desc" where
  "make_idt_desc attr f =
     \<lparr>func_offset_low_word = ucast (f AND 0x0000FFFF), selector = SELECTOR_K_CODE, dcount = 0,
      attribute = attr, func_offset_high_word = ucast (drop_bit 16 (f AND 0xFFFF0000))\<rparr>"

text \<open>The loop over the 0x81 entries of \<open>intr_entry_table\<close>, then the system call gate.\<close>

definition idt_desc_init :: "addr list \<Rightarrow> addr \<Rightarrow> 'a idt_state_scheme \<Rightarrow> 'a idt_state_scheme" where
  "idt_desc_init intr_entry_table syscall_handler c =
     (let descs = map (\<lambda>i. make_idt_desc IDT_DESC_ATTR_DPL0 (intr_entry_table ! i)) [0..<IDT_DESC_CNT];
          lastindex = IDT_DESC_CNT - 1
      in put_str (lit ''idt_desc_init done\<newline>'')
           (c\<lparr>idt := descs[lastindex := make_idt_desc IDT_DESC_ATTR_DPL3 syscall_handler]\<rparr>))"

definition exception_names :: "string list" where
  "exception_names =
     [''#DE Divide Error'', ''#DB Debug Exception'', ''NMI Interrupt'',
      ''#BP Breakpoint Exception'', ''#OF Overflow Exception'',
      ''#BR BOUND Range Exceeded Exception'', ''#UD Invalid Opcode Exception'',
      ''#NM Device Not Available Exception'', ''#DF Double Fault Exception'',
      ''Coprocessor Segment Overrun'', ''#TS Invalid TSS Exception'',
      ''#NP Segment Not Present'', ''#SS Stack Fault Exception'',
      ''#GP General Protection Exception'', ''#PF Page-Fault Exception'', ''unknown'',
      ''#MF x87 FPU Floating-Point Error'', ''#AC Alignment Check Exception'',
      ''#MC Machine-Check Exception'', ''#XF SIMD Floating-Point Exception'']"

definition exception_init :: "addr \<Rightarrow> 'a idt_state_scheme \<Rightarrow> 'a idt_state_scheme" where
  "exception_init general_intr_handler_addr c =
     c\<lparr>idt_table := replicate IDT_DESC_CNT general_intr_handler_addr,
       intr_name := exception_names @
         replicate (IDT_DESC_CNT - length exception_names) ''unknown''\<rparr>"

definition pic_init :: "'a cpu_scheme \<Rightarrow> 'a cpu_scheme" where
  "pic_init c =
     (let PIC_M_CTRL = 0x20; PIC_M_DATA = 0x21; PIC_S_CTRL = 0xa0; PIC_S_DATA = 0xa1;
          c = outb PIC_M_CTRL 0x11 c;
          c = outb PIC_M_DATA 0x20 c;
          c = outb PIC_M_DATA 0x04 c;
          c = outb PIC_M_DATA 0x01 c;
          c = outb PIC_S_CTRL 0x11 c;
          c = outb PIC_S_DATA 0x28 c;
          c = outb PIC_S_DATA 0x02 c;
          c = outb PIC_S_DATA 0x01 c;
          c = outb PIC_M_DATA 0xf8 c;
          c = outb PIC_S_DATA 0xbf c
      in put_str (lit ''pic_init done\<newline>'') c)"

text \<open>\<open>register_handler\<close> indexes \<open>idt_table\<close> with an unchecked byte.\<close>

definition register_handler ::
    "u8 \<Rightarrow> addr \<Rightarrow> 'a idt_state_scheme \<Rightarrow> 'a idt_state_scheme option" where
  "register_handler vector_no function c = do {
     t \<leftarrow> set_at (idt_table c) (unat vector_no) function;
     Some (c\<lparr>idt_table := t\<rparr>)
   }"

text \<open>Spurious interrupts return; every other vector prints its name and spins.\<close>

definition general_intr_handler :: "u8 \<Rightarrow> 'a cpu_scheme \<Rightarrow> 'a cpu_scheme option" where
  "general_intr_handler vec_nr c = (if vec_nr = 0x27 \<or> vec_nr = 0x2f then Some c else None)"

definition idt_init ::
    "addr list \<Rightarrow> addr \<Rightarrow> addr \<Rightarrow> addr \<Rightarrow> 'a idt_state_scheme \<Rightarrow> 'a idt_state_scheme" where
  "idt_init intr_entry_table syscall_handler general_intr_handler_addr idt_addr c =
     (let c = put_str (lit ''idt_init start\<newline>'') c;
          c = idt_desc_init intr_entry_table syscall_handler c;
          c = exception_init general_intr_handler_addr c;
          c = pic_init c;
          c = c\<lparr>idtr := (of_nat (IDT_DESC_CNT * 8) - 1) OR push_bit 16 (ucast idt_addr)\<rparr>
      in put_str (lit ''idt_init done\<newline>'') c)"

text \<open>The handler address the processor reads back from a gate.\<close>

definition gate_offset :: "gate_desc \<Rightarrow> addr" where
  "gate_offset g = push_bit 16 (ucast (func_offset_high_word g)) OR ucast (func_offset_low_word g)"

subsection \<open>Lemmas\<close>

lemma bit_EFLAGS_IF [simp]: "bit EFLAGS_IF n \<longleftrightarrow> n = 9"
proof -
  have "EFLAGS_IF = push_bit 9 1" by (simp add: EFLAGS_IF_def)
  show ?thesis unfolding \<open>EFLAGS_IF = push_bit 9 1\<close> bit_push_bit_iff by auto
qed

lemma and_EFLAGS_IF: "EFLAGS_IF AND w \<noteq> 0 \<longleftrightarrow> bit w 9"
proof -
  have "EFLAGS_IF = push_bit 9 1" by (simp add: EFLAGS_IF_def)
  then show ?thesis using word_and_1_shift [of w 9] by (simp add: and.commute)
qed

lemma intr_get_status_bit: "intr_get_status c = (if bit (eflags c) 9 then INTR_ON else INTR_OFF)"
  by (simp add: intr_get_status_def and_EFLAGS_IF)

lemma eflags_cli_sti: "bit w 9 \<Longrightarrow> (w AND NOT EFLAGS_IF) OR EFLAGS_IF = w"
  by (rule bit_word_eqI) (auto simp: bit_simps)

lemma intr_disable_snd: "intr_get_status (snd (intr_disable c)) = INTR_OFF"
  by (auto simp: intr_disable_def intr_get_status_bit cli_def bit_simps)

lemma intr_disable_fst: "fst (intr_disable c) = intr_get_status c"
  by (cases "intr_get_status c") (auto simp: intr_disable_def)

lemma intr_bracket_eflags:
  assumes "snd (intr_disable c) = d" and "eflags d' = eflags d"
  shows "eflags (snd (intr_set_status (fst (intr_disable c)) d')) = eflags c"
  using assms
  by (auto simp: intr_disable_def intr_set_status_def intr_enable_def intr_get_status_bit
      cli_def sti_def bit_simps eflags_cli_sti split: if_splits)

text \<open>The bracket as an equation: the code in between runs with interrupts off, then the flags come back.\<close>

lemma eflags_cli_off: "\<not> bit w 9 \<Longrightarrow> w AND NOT EFLAGS_IF = w"
  by (rule bit_word_eqI) (auto simp: bit_simps)

lemma intr_disable_eq: "intr_disable c = (intr_get_status c, c\<lparr>eflags := eflags c AND NOT EFLAGS_IF\<rparr>)"
  by (cases "bit (eflags c) 9") (simp_all add: intr_disable_def intr_get_status_bit cli_def eflags_cli_off)

lemma intr_restore_eq:
  assumes "eflags d = eflags c AND NOT EFLAGS_IF"
  shows "snd (intr_set_status (intr_get_status c) d) = d\<lparr>eflags := eflags c\<rparr>"
proof (cases "bit (eflags c) 9")
  case True
  then show ?thesis
    using assms by (auto simp: intr_set_status_def intr_enable_def intr_get_status_bit sti_def bit_simps
        eflags_cli_sti)
next
  case False
  then have "eflags d = eflags c" using assms by (simp add: eflags_cli_off)
  moreover have "d = d\<lparr>eflags := eflags d\<rparr>" by simp
  ultimately show ?thesis
    using False by (simp add: intr_set_status_def intr_disable_def intr_get_status_bit)
qed

lemma gate_offset_make: "gate_offset (make_idt_desc attr f) = f"
  unfolding gate_offset_def make_idt_desc_def
  by (rule bit_word_eqI)
    (auto simp: bit_simps bit_mask_literals)

lemma idt_init_idt: "idt (idt_init entries sysc gen base c) = idt (idt_desc_init entries sysc c)"
  by (simp add: idt_init_def idt_desc_init_def exception_init_def pic_init_def outb_def put_str_screen Let_def)

subsection \<open>Properties\<close>

text \<open>the disable/restore bracket. After \<open>intr_disable\<close> interrupts are off, its result is the
  status before, and \<open>intr_set_status\<close> with that result gives back the flags register exactly,
  whatever the code in between did to the rest of the state.\<close>

theorem intr_disable_restore:
  assumes "eflags d = eflags (snd (intr_disable c))"
  shows "intr_get_status (snd (intr_disable c)) = INTR_OFF \<and>
    fst (intr_disable c) = intr_get_status c \<and>
    eflags (snd (intr_set_status (fst (intr_disable c)) d)) = eflags c"
  using intr_disable_snd intr_disable_fst intr_bracket_eflags [of c _ d] assms by auto

theorem intr_disable_restore_witness:
  "intr_get_status (snd (intr_disable \<lparr>eflags = 0x202, outs = [], screen = []\<rparr>)) = INTR_OFF \<and>
   fst (intr_disable \<lparr>eflags = 0x202, outs = [], screen = []\<rparr>) = intr_get_status \<lparr>eflags = 0x202, outs = [], screen = []\<rparr> \<and>
   eflags (snd (intr_set_status (fst (intr_disable \<lparr>eflags = 0x202, outs = [], screen = []\<rparr>))
     \<lparr>eflags = 2, outs = [(0x20, 0x11)], screen = []\<rparr>)) = eflags \<lparr>eflags = 0x202, outs = [], screen = []\<rparr>"
  by (rule intr_disable_restore) code_simp

text \<open>after \<open>idt_init\<close> each of the 0x80 first gates leads to its entry of
  \<open>intr_entry_table\<close> and is closed to user mode, the last one leads to the system call handler
  and is open to user mode, and the operand of \<open>lidt\<close> carries the table's address and limit.\<close>

theorem idt_init_gates:
  "let c' = idt_init entries sysc gen base c in
     map gate_offset (idt c') = map ((!) entries) [0..<0x80] @ [sysc] \<and>
     map attribute (idt c') = replicate 0x80 0x8E @ [0xEE] \<and>
     ucast (idtr c') = (0x407 :: u16) \<and> ucast (drop_bit 16 (idtr c')) = base"
proof -
  let ?c' = "idt_init entries sysc gen base c"
  have desc: "idt ?c' = map (\<lambda>i. make_idt_desc IDT_DESC_ATTR_DPL0 (entries ! i)) [0..<0x80] @
      [make_idt_desc IDT_DESC_ATTR_DPL3 sysc]"
    by (simp add: idt_init_idt idt_desc_init_def put_str_screen IDT_DESC_CNT_def Let_def list_update_append
        upt_Suc_append [of 0 128, simplified])
  have op: "idtr ?c' = 0x407 OR push_bit 16 (ucast base)"
    by (simp add: idt_init_def put_str_screen Let_def IDT_DESC_CNT_def)
  have lim: "ucast (0x407 OR push_bit 16 (ucast base) :: u64) = (0x407 :: u16)"
    by (rule bit_word_eqI) (auto simp: bit_simps)
  have addr: "ucast (drop_bit 16 (0x407 OR push_bit 16 (ucast base) :: u64)) = base"
    unfolding drop_bit_or by (rule bit_word_eqI) (auto simp: bit_simps)
  have "map (\<lambda>i. 0x8E :: u8) [0..<128] = replicate 128 0x8E"
    by (simp only: map_replicate_const length_upt diff_zero)
  then have "map attribute (idt ?c') = replicate 0x80 0x8E @ [0xEE]"
    unfolding desc
    by (simp add: make_idt_desc_def comp_def IDT_DESC_ATTR_DPL0_def IDT_DESC_ATTR_DPL3_def del: upt_rec_numeral)
  moreover have "map gate_offset (idt ?c') = map ((!) entries) [0..<0x80] @ [sysc]"
    unfolding desc by (simp add: gate_offset_make comp_def del: upt_rec_numeral)
  ultimately show ?thesis using op lim addr by (simp add: Let_def)
qed

end
