(* ===== verification/Klist.thy ===== *)
theory Klist
  imports Interrupt
begin

text \<open>
  The doubly linked list (\<^verbatim>\<open>lib/kernel/list.c\<close>) on a pointer heap.

  A \<open>struct list_elem\<close> at address \<open>p\<close> is the pair \<open>prev_of h p\<close>, \<open>next_of h p\<close>; a
  \<open>struct list\<close> at \<open>plist\<close> has its \<open>head\<close> element at \<open>plist\<close> and its \<open>tail\<close> element eight
  bytes further. Every access checks for the null pointer. The two loops that walk the list are
  \<open>partial_function (option)\<close>: on a list that is not well formed they may not end.

  \<open>dlist h plist xs\<close> says that the list at \<open>plist\<close> is well formed and links the elements \<open>xs\<close>
  in this order. The locale \<open>kqueue\<close> states what the kernel relies on: the operations act on the
  sequence of elements. Its interpretation \<open>klist\<close> discharges the laws for the pointer code, and
  its lemmas give the queue behaviour the scheduler, the semaphores and the block allocator use.
\<close>

record list_heap = idt_state +
  prev_of :: "addr \<Rightarrow> addr"
  next_of :: "addr \<Rightarrow> addr"

definition list_head :: "addr \<Rightarrow> addr" where
  "list_head plist = plist"

definition list_tail :: "addr \<Rightarrow> addr" where
  "list_tail plist = plist + 8"

definition rd_prev :: "'a list_heap_scheme \<Rightarrow> addr \<Rightarrow> addr option" where
  "rd_prev h p = (if p = NULL then None else Some (prev_of h p))"

definition rd_next :: "'a list_heap_scheme \<Rightarrow> addr \<Rightarrow> addr option" where
  "rd_next h p = (if p = NULL then None else Some (next_of h p))"

definition wr_prev :: "addr \<Rightarrow> addr \<Rightarrow> 'a list_heap_scheme \<Rightarrow> 'a list_heap_scheme option" where
  "wr_prev p v h = (if p = NULL then None else Some (h\<lparr>prev_of := (prev_of h)(p := v)\<rparr>))"

definition wr_next :: "addr \<Rightarrow> addr \<Rightarrow> 'a list_heap_scheme \<Rightarrow> 'a list_heap_scheme option" where
  "wr_next p v h = (if p = NULL then None else Some (h\<lparr>next_of := (next_of h)(p := v)\<rparr>))"

definition list_init :: "addr \<Rightarrow> 'a list_heap_scheme \<Rightarrow> 'a list_heap_scheme option" where
  "list_init plist h = do {
     h \<leftarrow> wr_prev (list_head plist) NULL h;
     h \<leftarrow> wr_next (list_head plist) (list_tail plist) h;
     h \<leftarrow> wr_prev (list_tail plist) (list_head plist) h;
     wr_next (list_tail plist) NULL h
   }"

definition list_insert_before ::
    "addr \<Rightarrow> addr \<Rightarrow> 'a list_heap_scheme \<Rightarrow> 'a list_heap_scheme option" where
  "list_insert_before before_elem elem h =
     (let (old_status, h) = intr_disable h in do {
        bp \<leftarrow> rd_prev h before_elem;
        h \<leftarrow> wr_next bp elem h;
        bp \<leftarrow> rd_prev h before_elem;
        h \<leftarrow> wr_prev elem bp h;
        h \<leftarrow> wr_next elem before_elem h;
        h \<leftarrow> wr_prev before_elem elem h;
        Some (snd (intr_set_status old_status h))
      })"

definition list_push :: "addr \<Rightarrow> addr \<Rightarrow> 'a list_heap_scheme \<Rightarrow> 'a list_heap_scheme option" where
  "list_push plist elem h = do {
     first \<leftarrow> rd_next h (list_head plist);
     list_insert_before first elem h
   }"

definition list_append :: "addr \<Rightarrow> addr \<Rightarrow> 'a list_heap_scheme \<Rightarrow> 'a list_heap_scheme option" where
  "list_append plist elem h = list_insert_before (list_tail plist) elem h"

definition list_remove :: "addr \<Rightarrow> 'a list_heap_scheme \<Rightarrow> 'a list_heap_scheme option" where
  "list_remove pelem h =
     (let (old_status, h) = intr_disable h in do {
        pp \<leftarrow> rd_prev h pelem;
        pn \<leftarrow> rd_next h pelem;
        h \<leftarrow> wr_next pp pn h;
        pn \<leftarrow> rd_next h pelem;
        pp \<leftarrow> rd_prev h pelem;
        h \<leftarrow> wr_prev pn pp h;
        Some (snd (intr_set_status old_status h))
      })"

definition list_pop :: "addr \<Rightarrow> 'a list_heap_scheme \<Rightarrow> (addr \<times> 'a list_heap_scheme) option" where
  "list_pop plist h = do {
     elem \<leftarrow> rd_next h (list_head plist);
     h \<leftarrow> list_remove elem h;
     Some (elem, h)
   }"

partial_function (option) elem_find_loop ::
    "addr \<Rightarrow> addr \<Rightarrow> addr \<Rightarrow> 'a list_heap_scheme \<Rightarrow> bool option" where
  "elem_find_loop tail obj_elem elem h =
     (if elem \<noteq> tail then
        if elem = obj_elem then Some True
        else do { n \<leftarrow> rd_next h elem; elem_find_loop tail obj_elem n h }
      else Some False)"

definition elem_find :: "addr \<Rightarrow> addr \<Rightarrow> 'a list_heap_scheme \<Rightarrow> bool option" where
  "elem_find plist obj_elem h = do {
     elem \<leftarrow> rd_next h (list_head plist);
     elem_find_loop (list_tail plist) obj_elem elem h
   }"

definition list_empty :: "addr \<Rightarrow> 'a list_heap_scheme \<Rightarrow> bool option" where
  "list_empty plist h = do {
     n \<leftarrow> rd_next h (list_head plist);
     Some (n = list_tail plist)
   }"

text \<open>The callback of \<open>list_traversal\<close> may change the state, so the state is threaded.\<close>

partial_function (option) list_traversal_loop ::
    "addr \<Rightarrow> (addr \<Rightarrow> u32 \<Rightarrow> 'a list_heap_scheme \<Rightarrow> (bool \<times> 'a list_heap_scheme) option) \<Rightarrow>
     u32 \<Rightarrow> addr \<Rightarrow> 'a list_heap_scheme \<Rightarrow> (addr \<times> 'a list_heap_scheme) option" where
  "list_traversal_loop tail func arg elem h =
     (if elem \<noteq> tail then do {
        (hit, h) \<leftarrow> func elem arg h;
        if hit then Some (elem, h)
        else do { n \<leftarrow> rd_next h elem; list_traversal_loop tail func arg n h }
      } else Some (NULL, h))"

definition list_traversal ::
    "addr \<Rightarrow> (addr \<Rightarrow> u32 \<Rightarrow> 'a list_heap_scheme \<Rightarrow> (bool \<times> 'a list_heap_scheme) option) \<Rightarrow>
     u32 \<Rightarrow> 'a list_heap_scheme \<Rightarrow> (addr \<times> 'a list_heap_scheme) option" where
  "list_traversal plist func arg h = do {
     elem \<leftarrow> rd_next h (list_head plist);
     empty \<leftarrow> list_empty plist h;
     if empty then Some (NULL, h)
     else list_traversal_loop (list_tail plist) func arg elem h
   }"

partial_function (option) list_len_loop ::
    "addr \<Rightarrow> u32 \<Rightarrow> addr \<Rightarrow> 'a list_heap_scheme \<Rightarrow> u32 option" where
  "list_len_loop tail len elem h =
     (if elem \<noteq> tail then do { n \<leftarrow> rd_next h elem; list_len_loop tail (len + 1) n h }
      else Some len)"

definition list_len :: "addr \<Rightarrow> 'a list_heap_scheme \<Rightarrow> u32 option" where
  "list_len plist h = do {
     elem \<leftarrow> rd_next h (list_head plist);
     list_len_loop (list_tail plist) 0 elem h
   }"

declare elem_find_loop.simps [code] list_traversal_loop.simps [code] list_len_loop.simps [code]

subsection \<open>The sequence a list holds\<close>

fun linked :: "'a list_heap_scheme \<Rightarrow> addr list \<Rightarrow> bool" where
  "linked h (a # b # ns) \<longleftrightarrow> next_of h a = b \<and> prev_of h b = a \<and> linked h (b # ns)"
| "linked h _ \<longleftrightarrow> True"

definition nodes :: "addr \<Rightarrow> addr list \<Rightarrow> addr list" where
  "nodes plist xs = list_head plist # xs @ [list_tail plist]"

definition dlist :: "'a list_heap_scheme \<Rightarrow> addr \<Rightarrow> addr list \<Rightarrow> bool" where
  "dlist h plist xs \<longleftrightarrow>
     linked h (nodes plist xs) \<and> distinct (nodes plist xs) \<and> NULL \<notin> set (nodes plist xs) \<and>
     prev_of h (list_head plist) = NULL \<and> next_of h (list_tail plist) = NULL"

text \<open>An address that may be linked into the list at \<open>plist\<close>: not null and not a sentinel.\<close>

definition linkable :: "addr \<Rightarrow> addr \<Rightarrow> bool" where
  "linkable plist e \<longleftrightarrow> e \<noteq> NULL \<and> e \<noteq> list_head plist \<and> e \<noteq> list_tail plist"

lemma list_head_neq_tail [simp]: "list_head plist \<noteq> list_tail plist" "list_tail plist \<noteq> list_head plist"
  by (simp_all add: list_head_def list_tail_def)

lemma linked_append: "linked h (as @ a # bs) \<longleftrightarrow> linked h (as @ [a]) \<and> linked h (a # bs)"
  by (induction h "as @ [a]" arbitrary: as rule: linked.induct)
    (auto simp: Cons_eq_append_conv append_eq_Cons_conv)

lemma linked_split:
  "linked h (as @ a # b # bs) \<longleftrightarrow>
     linked h (as @ [a]) \<and> next_of h a = b \<and> prev_of h b = a \<and> linked h (b # bs)"
  by (subst linked_append) simp

lemma linked_cong:
  assumes "\<And>x. x \<in> set (butlast ns) \<Longrightarrow> next_of h' x = next_of h x"
    and "\<And>x. x \<in> set (tl ns) \<Longrightarrow> prev_of h' x = prev_of h x"
  shows "linked h' ns = linked h ns"
  using assms by (induction h ns rule: linked.induct) auto

subsection \<open>What the two pointer updates compute\<close>

lemma intr_bracket:
  fixes h :: "'a list_heap_scheme"
  assumes "intr_disable h = (st, d)"
  shows "snd (intr_set_status st (d\<lparr>next_of := n, prev_of := p\<rparr>)) = h\<lparr>next_of := n, prev_of := p\<rparr>"
  using assms
  by (cases h) (auto simp: intr_disable_def intr_set_status_def intr_enable_def intr_get_status_bit
      cli_def sti_def bit_simps eflags_cli_sti split: if_splits)

lemma intr_disable_links [simp]:
  "prev_of (snd (intr_disable h)) = prev_of h" "next_of (snd (intr_disable h)) = next_of h"
  by (simp_all add: intr_disable_def cli_def)

lemma list_insert_before_eq:
  assumes "before_elem \<noteq> NULL" "elem \<noteq> NULL" "prev_of h before_elem \<noteq> NULL"
  shows "list_insert_before before_elem elem h =
    Some (h\<lparr>next_of := (next_of h)(prev_of h before_elem := elem, elem := before_elem),
            prev_of := (prev_of h)(elem := prev_of h before_elem, before_elem := elem)\<rparr>)"
proof -
  obtain st d where d: "intr_disable h = (st, d)" by fastforce
  then have "prev_of d = prev_of h" "next_of d = next_of h"
    using intr_disable_links [of h] by simp_all
  then show ?thesis
    using assms intr_bracket [OF d]
    by (simp add: list_insert_before_def d rd_prev_def wr_next_def wr_prev_def)
qed

lemma list_remove_eq:
  assumes "pelem \<noteq> NULL" "prev_of h pelem \<noteq> NULL" "next_of h pelem \<noteq> NULL"
  shows "list_remove pelem h =
    Some (h\<lparr>next_of := (next_of h)(prev_of h pelem := next_of h pelem),
            prev_of := (prev_of h)(next_of h pelem := prev_of h pelem)\<rparr>)"
proof -
  obtain st d where d: "intr_disable h = (st, d)" by fastforce
  then have "prev_of d = prev_of h" "next_of d = next_of h"
    using intr_disable_links [of h] by simp_all
  then show ?thesis
    using assms intr_bracket [OF d]
    by (auto simp: list_remove_def d rd_prev_def rd_next_def wr_next_def wr_prev_def fun_upd_def)
qed

text \<open>Linking \<open>e\<close> in between two neighbours, and unlinking it again.\<close>

lemma linked_insert:
  assumes "linked h (as @ a # b # bs)" "distinct (as @ a # b # bs)" "e \<notin> set (as @ a # b # bs)"
  shows "linked (h\<lparr>next_of := (next_of h)(a := e, e := b), prev_of := (prev_of h)(e := a, b := e)\<rparr>)
           (as @ a # e # b # bs)" (is "linked ?h' _")
proof -
  have "linked h (as @ [a])" "linked h (b # bs)"
    using assms(1) by (simp_all add: linked_split)
  moreover have "linked ?h' (as @ [a]) = linked h (as @ [a])"
    by (rule linked_cong) (use assms in \<open>auto simp: butlast_append tl_append split: list.splits\<close>)
  moreover have "linked ?h' (b # bs) = linked h (b # bs)"
    by (rule linked_cong) (use assms in \<open>auto dest: in_set_butlastD split: if_splits\<close>)
  ultimately show ?thesis
    using assms by (auto simp: linked_split)
qed

lemma linked_unlink:
  assumes "linked h (as @ a # e # b # bs)" "distinct (as @ a # e # b # bs)"
  shows "linked (h\<lparr>next_of := (next_of h)(a := b), prev_of := (prev_of h)(b := a)\<rparr>)
           (as @ a # b # bs)" (is "linked ?h' _")
proof -
  have "linked h (as @ [a])" "linked h (b # bs)"
    using assms(1) by (simp_all add: linked_split)
  moreover have "linked ?h' (as @ [a]) = linked h (as @ [a])"
    by (rule linked_cong) (use assms in \<open>auto simp: butlast_append tl_append split: list.splits\<close>)
  moreover have "linked ?h' (b # bs) = linked h (b # bs)"
    by (rule linked_cong) (use assms in \<open>auto dest: in_set_butlastD split: if_splits\<close>)
  ultimately show ?thesis
    using assms by (auto simp: linked_split)
qed

subsection \<open>The operations on well-formed lists\<close>

text \<open>\<open>only_links S h h'\<close>: the two heaps differ at most in the links of the elements in \<open>S\<close>.\<close>

definition only_links :: "addr set \<Rightarrow> 'a list_heap_scheme \<Rightarrow> 'a list_heap_scheme \<Rightarrow> bool" where
  "only_links S h h' \<longleftrightarrow>
     h' = h\<lparr>next_of := next_of h', prev_of := prev_of h'\<rparr> \<and>
     (\<forall>x. x \<notin> S \<longrightarrow> next_of h' x = next_of h x \<and> prev_of h' x = prev_of h x)"

lemma only_links_eflags: "only_links S h h' \<Longrightarrow> eflags h' = eflags h"
  unfolding only_links_def by (cases h, cases h') simp

text \<open>The same for operations that change other parts of the state as well.\<close>

definition links_same :: "addr set \<Rightarrow> 'a list_heap_scheme \<Rightarrow> 'b list_heap_scheme \<Rightarrow> bool" where
  "links_same S h h' \<longleftrightarrow> (\<forall>x. x \<notin> S \<longrightarrow> next_of h' x = next_of h x \<and> prev_of h' x = prev_of h x)"

lemma only_links_same [dest]: "only_links S h h' \<Longrightarrow> links_same S h h'"
  by (simp add: only_links_def links_same_def)

lemma links_same_refl [simp]: "links_same S h h"
  by (simp add: links_same_def)

lemma links_same_trans: "links_same S h h' \<Longrightarrow> links_same R h' h'' \<Longrightarrow> links_same (S \<union> R) h h''"
  by (auto simp: links_same_def)

lemma links_same_mono: "links_same S h h' \<Longrightarrow> S \<subseteq> R \<Longrightarrow> links_same R h h'"
  by (auto simp: links_same_def)

lemma only_links_update: "only_links S h h' \<Longrightarrow> \<exists>n p. h' = h\<lparr>next_of := n, prev_of := p\<rparr>"
  unfolding only_links_def by blast

lemma dlist_cong:
  assumes "next_of h' = next_of h" "prev_of h' = prev_of h"
  shows "dlist h' p xs = dlist h p xs"
proof -
  have "linked h' ns = linked h ns" for ns
    using assms by (induction ns rule: induct_list012) auto
  then show ?thesis using assms by (simp add: dlist_def)
qed

lemma dlist_links_same [frame]:
  assumes "dlist h q ys" "links_same S h h'" "set (nodes q ys) \<inter> S = {}"
  shows "dlist h' q ys"
proof -
  have same: "next_of h' x = next_of h x \<and> prev_of h' x = prev_of h x" if "x \<in> set (nodes q ys)" for x
    using that assms(2,3) by (auto simp: links_same_def)
  have "linked h' ns = linked h ns" if "set ns \<subseteq> set (nodes q ys)" for ns
    using that same by (induction ns rule: induct_list012) auto
  moreover have "list_head q \<in> set (nodes q ys)" "list_tail q \<in> set (nodes q ys)"
    by (simp_all add: nodes_def)
  ultimately show ?thesis
    using assms(1) same by (simp add: dlist_def)
qed

lemma dlist_frame [frame]:
  assumes "dlist h q ys" "only_links S h h'" "set (nodes q ys) \<inter> S = {}"
  shows "dlist h' q ys"
  using dlist_links_same [OF assms(1) only_links_same [OF assms(2)] assms(3)] .

lemma nodes_split:
  obtains as a b bs where "list_head p # ys = as @ [a]" "zs @ [list_tail p] = b # bs"
    "nodes p (ys @ zs) = as @ a # b # bs" "nodes p (ys @ e # zs) = as @ a # e # b # bs"
proof -
  obtain as a where as: "list_head p # ys = as @ [a]"
    by (metis list.distinct(1) rev_exhaust)
  obtain b bs where bs: "zs @ [list_tail p] = b # bs"
    by (cases zs) auto
  have "nodes p (ys @ zs) = (list_head p # ys) @ (zs @ [list_tail p])"
    "nodes p (ys @ e # zs) = (list_head p # ys) @ e # (zs @ [list_tail p])"
    by (simp_all add: nodes_def)
  then show ?thesis using as bs that by simp
qed

lemma dlist_insert:
  assumes d: "dlist h p (ys @ zs)" and e: "linkable p e" "e \<notin> set (ys @ zs)"
  shows "\<exists>h'. list_insert_before (hd (zs @ [list_tail p])) e h = Some h' \<and>
    dlist h' p (ys @ e # zs) \<and> only_links (set (nodes p (ys @ e # zs))) h h'"
proof -
  obtain as a b bs where n: "list_head p # ys = as @ [a]" "zs @ [list_tail p] = b # bs"
    and n1: "nodes p (ys @ zs) = as @ a # b # bs"
    and n2: "nodes p (ys @ e # zs) = as @ a # e # b # bs"
    by (rule nodes_split)
  have wf: "linked h (as @ a # b # bs)" "distinct (as @ a # b # bs)" "NULL \<notin> set (as @ a # b # bs)"
    using d n1 by (simp_all add: dlist_def)
  have e': "e \<notin> set (as @ a # b # bs)" "e \<noteq> NULL"
    using e n1 by (auto simp: linkable_def nodes_def simp flip: n1)
  have ab: "next_of h a = b" "prev_of h b = a"
    using wf(1) by (simp_all add: linked_split)
  let ?h' = "h\<lparr>next_of := (next_of h)(a := e, e := b), prev_of := (prev_of h)(e := a, b := e)\<rparr>"
  have run: "list_insert_before b e h = Some ?h'"
    using wf(3) e' ab by (subst list_insert_before_eq) auto
  have "linked ?h' (as @ a # e # b # bs)"
    using linked_insert [OF wf(1,2) e'(1)] .
  moreover have "prev_of ?h' (list_head p) = NULL"
    using d e n wf by (cases ys) (auto simp: dlist_def linkable_def nodes_def Cons_eq_append_conv)
  moreover have "next_of ?h' (list_tail p) = NULL"
  proof -
    have "list_tail p \<in> set (b # bs)" using n(2) by (metis in_set_conv_decomp)
    then have "list_tail p \<noteq> a" using wf(2) by auto
    then show ?thesis using d e by (auto simp: dlist_def linkable_def)
  qed
  ultimately have "dlist ?h' p (ys @ e # zs)"
    unfolding dlist_def n2 using wf e' by auto
  moreover have "only_links (set (nodes p (ys @ e # zs))) h ?h'"
    by (auto simp: only_links_def n2)
  ultimately show ?thesis using run n(2) by auto
qed

lemma dlist_unlink:
  assumes d: "dlist h p (ys @ e # zs)"
  shows "\<exists>h'. list_remove e h = Some h' \<and> dlist h' p (ys @ zs) \<and>
    only_links (set (nodes p (ys @ e # zs))) h h'"
proof -
  obtain as a b bs where n: "list_head p # ys = as @ [a]" "zs @ [list_tail p] = b # bs"
    and n1: "nodes p (ys @ zs) = as @ a # b # bs"
    and n2: "nodes p (ys @ e # zs) = as @ a # e # b # bs"
    by (rule nodes_split)
  have wf: "linked h (as @ a # e # b # bs)" "distinct (as @ a # e # b # bs)"
    "NULL \<notin> set (as @ a # e # b # bs)"
    using d n2 by (simp_all add: dlist_def)
  have nb: "next_of h a = e" "prev_of h e = a" "next_of h e = b" "prev_of h b = e"
    using wf(1) by (simp_all add: linked_split)
  let ?h' = "h\<lparr>next_of := (next_of h)(a := b), prev_of := (prev_of h)(b := a)\<rparr>"
  have run: "list_remove e h = Some ?h'"
    using wf(3) nb by (subst list_remove_eq) auto
  have "linked ?h' (as @ a # b # bs)"
    using linked_unlink [OF wf(1,2)] .
  moreover have "prev_of ?h' (list_head p) = NULL"
    using d n wf by (cases ys) (auto simp: dlist_def nodes_def Cons_eq_append_conv)
  moreover have "next_of ?h' (list_tail p) = NULL"
  proof -
    have "list_tail p \<in> set (b # bs)" using n(2) by (metis in_set_conv_decomp)
    then have "list_tail p \<noteq> a" using wf(2) by auto
    then show ?thesis using d by (auto simp: dlist_def)
  qed
  ultimately have "dlist ?h' p (ys @ zs)"
    unfolding dlist_def n1 using wf by auto
  moreover have "only_links (set (nodes p (ys @ e # zs))) h ?h'"
    by (auto simp: only_links_def n2)
  ultimately show ?thesis using run by auto
qed

lemma dlist_head_next: "dlist h p xs \<Longrightarrow> rd_next h (list_head p) = Some (hd (xs @ [list_tail p]))"
  by (cases xs) (auto simp: dlist_def nodes_def rd_next_def)

lemma dlist_push:
  assumes "dlist h p xs" "linkable p e" "e \<notin> set xs"
  shows "\<exists>h'. list_push p e h = Some h' \<and> dlist h' p (e # xs) \<and> only_links (set (nodes p (e # xs))) h h'"
  using dlist_insert [of h p "[]" xs e] assms by (simp add: list_push_def dlist_head_next)

lemma dlist_append:
  assumes "dlist h p xs" "linkable p e" "e \<notin> set xs"
  shows "\<exists>h'. list_append p e h = Some h' \<and> dlist h' p (xs @ [e]) \<and>
    only_links (set (nodes p (xs @ [e]))) h h'"
  using dlist_insert [of h p xs "[]" e] assms by (simp add: list_append_def)

lemma dlist_remove:
  assumes "dlist h p xs" "e \<in> set xs"
  shows "\<exists>h'. list_remove e h = Some h' \<and> dlist h' p (remove1 e xs) \<and> only_links (set (nodes p xs)) h h'"
proof -
  obtain ys zs where "xs = ys @ e # zs" "e \<notin> set ys"
    using split_list_first [OF assms(2)] by blast
  then show ?thesis
    using dlist_unlink [of h p ys e zs] assms(1) by (simp add: remove1_append)
qed

lemma dlist_pop:
  assumes "dlist h p (x # xs)"
  shows "\<exists>h'. list_pop p h = Some (x, h') \<and> dlist h' p xs \<and> only_links (set (nodes p (x # xs))) h h'"
  using dlist_unlink [of h p "[]" x xs] dlist_head_next [OF assms] assms by (auto simp: list_pop_def)

lemma dlist_empty: "dlist h p xs \<Longrightarrow> list_empty p h = Some (xs = [])"
  using dlist_head_next [of h p xs] by (cases xs) (auto simp: list_empty_def dlist_def nodes_def)

text \<open>Popping an empty list goes through the null link of the tail sentinel.\<close>

lemma dlist_pop_empty: "dlist h p [] \<Longrightarrow> list_pop p h = None"
proof -
  assume d: "dlist h p []"
  obtain st d' where i: "intr_disable h = (st, d')" by fastforce
  then have "next_of d' = next_of h" "prev_of d' = prev_of h"
    using intr_disable_links [of h] by simp_all
  then show ?thesis
    using d by (auto simp: list_pop_def dlist_head_next list_remove_def i rd_next_def rd_prev_def
        wr_next_def wr_prev_def dlist_def nodes_def)
qed

lemma list_empty_cong: "next_of s' = next_of s \<Longrightarrow> list_empty L s' = list_empty L s"
  by (simp add: list_empty_def rd_next_def)

lemma list_init_dlist:
  assumes "list_head p \<noteq> NULL" "list_tail p \<noteq> NULL"
  shows "\<exists>h'. list_init p h = Some h' \<and> dlist h' p []"
  using assms by (auto simp: list_init_def wr_prev_def wr_next_def dlist_def nodes_def)

subsection \<open>The loops over a well-formed list\<close>

lemma elem_find_loop_linked:
  assumes "linked h (zs @ [t])" "t \<notin> set zs" "NULL \<notin> set zs"
  shows "elem_find_loop t obj (hd (zs @ [t])) h = Some (obj \<in> set zs)"
  using assms
proof (induction zs)
  case Nil
  then show ?case by (simp add: elem_find_loop.simps)
next
  case (Cons z zs)
  then have "next_of h z = hd (zs @ [t])" "linked h (zs @ [t])"
    by (cases zs; simp)+
  with Cons show ?case
    by (subst elem_find_loop.simps) (auto simp: rd_next_def)
qed

lemma list_len_loop_linked:
  assumes "linked h (zs @ [t])" "t \<notin> set zs" "NULL \<notin> set zs"
  shows "list_len_loop t n (hd (zs @ [t])) h = Some (n + of_nat (length zs))"
  using assms
proof (induction zs arbitrary: n)
  case Nil
  then show ?case by (simp add: list_len_loop.simps)
next
  case (Cons z zs)
  then have "next_of h z = hd (zs @ [t])" "linked h (zs @ [t])"
    by (cases zs; simp)+
  with Cons show ?case
    by (subst list_len_loop.simps) (auto simp: rd_next_def)
qed

lemma list_traversal_loop_linked:
  assumes "linked h (zs @ [t])" "t \<notin> set zs" "NULL \<notin> set zs"
    and "\<And>x. x \<in> set zs \<Longrightarrow> func x arg h = Some (P x, h)"
  shows "list_traversal_loop t func arg (hd (zs @ [t])) h =
    Some (case find P zs of Some x \<Rightarrow> x | None \<Rightarrow> NULL, h)"
  using assms
proof (induction zs)
  case Nil
  then show ?case by (simp add: list_traversal_loop.simps)
next
  case (Cons z zs)
  then have "next_of h z = hd (zs @ [t])" "linked h (zs @ [t])"
    by (cases zs; simp)+
  with Cons show ?case
    by (subst list_traversal_loop.simps) (auto simp: rd_next_def)
qed

lemma dlist_suffix:
  assumes "dlist h p xs"
  shows "linked h (xs @ [list_tail p])" "list_tail p \<notin> set xs" "NULL \<notin> set xs"
  using assms by (cases xs; auto simp: dlist_def nodes_def)+

lemma dlist_elem_find: "dlist h p xs \<Longrightarrow> elem_find p obj h = Some (obj \<in> set xs)"
  using elem_find_loop_linked [OF dlist_suffix] by (simp add: elem_find_def dlist_head_next)

lemma dlist_len: "dlist h p xs \<Longrightarrow> list_len p h = Some (of_nat (length xs))"
  using list_len_loop_linked [OF dlist_suffix, where n = 0] by (simp add: list_len_def dlist_head_next)

lemma dlist_traversal:
  assumes "dlist h p xs" "\<And>x. x \<in> set xs \<Longrightarrow> func x arg h = Some (P x, h)"
  shows "list_traversal p func arg h = Some (case find P xs of Some x \<Rightarrow> x | None \<Rightarrow> NULL, h)"
  using list_traversal_loop_linked [where func = func and arg = arg and P = P,
      OF dlist_suffix [OF assms(1)] assms(2)] assms(1)
  by (auto simp: list_traversal_def dlist_head_next dlist_empty)

subsection \<open>The queue interface\<close>

text \<open>Runs of one operation, for any queue operations.\<close>

primrec append_all :: "('p \<Rightarrow> 'e \<Rightarrow> 'h \<Rightarrow> 'h option) \<Rightarrow> 'p \<Rightarrow> 'e list \<Rightarrow> 'h \<Rightarrow> 'h option" where
  "append_all app p [] h = Some h"
| "append_all app p (e # es) h = do { h \<leftarrow> app p e h; append_all app p es h }"

primrec pop_n :: "('p \<Rightarrow> 'h \<Rightarrow> ('e \<times> 'h) option) \<Rightarrow> 'p \<Rightarrow> nat \<Rightarrow> 'h \<Rightarrow> ('e list \<times> 'h) option" where
  "pop_n pp p 0 h = Some ([], h)"
| "pop_n pp p (Suc n) h = do { (x, h) \<leftarrow> pp p h; (xs, h) \<leftarrow> pop_n pp p n h; Some (x # xs, h) }"

locale kqueue =
  fixes holds :: "'h \<Rightarrow> 'p \<Rightarrow> 'e list \<Rightarrow> bool"
    and ok :: "'p \<Rightarrow> 'e \<Rightarrow> bool"
    and push append :: "'p \<Rightarrow> 'e \<Rightarrow> 'h \<Rightarrow> 'h option"
    and remove :: "'e \<Rightarrow> 'h \<Rightarrow> 'h option"
    and pop :: "'p \<Rightarrow> 'h \<Rightarrow> ('e \<times> 'h) option"
    and member :: "'p \<Rightarrow> 'e \<Rightarrow> 'h \<Rightarrow> bool option"
  assumes push: "holds h p xs \<Longrightarrow> ok p e \<Longrightarrow> e \<notin> set xs \<Longrightarrow> \<exists>h'. push p e h = Some h' \<and> holds h' p (e # xs)"
    and append: "holds h p xs \<Longrightarrow> ok p e \<Longrightarrow> e \<notin> set xs \<Longrightarrow> \<exists>h'. append p e h = Some h' \<and> holds h' p (xs @ [e])"
    and remove: "holds h p xs \<Longrightarrow> e \<in> set xs \<Longrightarrow> \<exists>h'. remove e h = Some h' \<and> holds h' p (remove1 e xs)"
    and pop: "holds h p (x # xs) \<Longrightarrow> \<exists>h'. pop p h = Some (x, h') \<and> holds h' p xs"
    and member: "holds h p xs \<Longrightarrow> member p e h = Some (e \<in> set xs)"
    and distinct: "holds h p xs \<Longrightarrow> distinct xs"
begin

lemma append_all_holds:
  assumes "holds h p xs" "distinct es" "set xs \<inter> set es = {}" "\<forall>e \<in> set es. ok p e"
  shows "\<exists>h'. append_all append p es h = Some h' \<and> holds h' p (xs @ es)"
  using assms
proof (induction es arbitrary: h xs)
  case Nil
  then show ?case by simp
next
  case (Cons e es)
  then obtain h1 where h1: "append p e h = Some h1" "holds h1 p (xs @ [e])"
    using append [of h p xs e] by auto
  obtain h' where "append_all append p es h1 = Some h'" "holds h' p ((xs @ [e]) @ es)"
    using Cons.IH [OF h1(2)] Cons.prems by auto
  then show ?case using h1 by simp
qed

lemma pop_n_holds:
  assumes "holds h p (xs @ ys)"
  shows "\<exists>h'. pop_n pop p (length xs) h = Some (xs, h') \<and> holds h' p ys"
  using assms
proof (induction xs arbitrary: h)
  case Nil
  then show ?case by simp
next
  case (Cons x xs)
  then obtain h1 where h1: "pop p h = Some (x, h1)" "holds h1 p (xs @ ys)"
    using pop [of h p x "xs @ ys"] by auto
  then show ?case using Cons.IH [OF h1(2)] by auto
qed

text \<open>First in, first out: what was appended to an empty queue is popped in the same order.\<close>

lemma fifo:
  assumes "holds h p []" "distinct es" "\<forall>e \<in> set es. ok p e"
  shows "\<exists>h1 h2. append_all append p es h = Some h1 \<and> pop_n pop p (length es) h1 = Some (es, h2) \<and> holds h2 p []"
proof -
  obtain h1 where h1: "append_all append p es h = Some h1" "holds h1 p es"
    using append_all_holds [of h p "[]" es] assms by auto
  then show ?thesis using pop_n_holds [of h1 p es "[]"] by auto
qed

text \<open>An element that was removed is not found any more, the others still are.\<close>

lemma member_remove:
  assumes "holds h p xs" "e \<in> set xs"
  shows "\<exists>h'. remove e h = Some h' \<and> member p f h' = Some (f \<in> set xs \<and> f \<noteq> e)"
proof -
  obtain h' where h': "remove e h = Some h'" "holds h' p (remove1 e xs)"
    using remove [OF assms] by auto
  then show ?thesis
    using member [OF h'(2), of f] distinct [OF assms(1)] by (auto simp: set_remove1_eq)
qed

end

interpretation klist: kqueue dlist linkable list_push list_append list_remove list_pop elem_find
proof (unfold_locales, goal_cases)
  case (1 h p xs e) then show ?case using dlist_push by blast
next
  case (2 h p xs e) then show ?case using dlist_append by blast
next
  case (3 h p xs e) then show ?case using dlist_remove by blast
next
  case (4 h p x xs) then show ?case using dlist_pop by blast
next
  case (5 h p xs e) then show ?case by (rule dlist_elem_find)
next
  case (6 h p xs) then show ?case by (simp add: dlist_def nodes_def)
qed

subsection \<open>Properties\<close>

text \<open>C6: the pointer list is a first-in first-out queue. After appending distinct elements to an
  empty list, popping as many elements returns exactly these elements in the same order, every
  call returns, and the list is empty again.\<close>

theorem list_fifo:
  assumes "dlist h p []" "distinct es" "\<forall>e \<in> set es. linkable p e"
  shows "\<exists>h1 h2. append_all list_append p es h = Some h1 \<and>
    pop_n list_pop p (length es) h1 = Some (es, h2) \<and> dlist h2 p []"
  using klist.fifo [OF assms] .

theorem list_fifo_witness:
  "\<exists>h1 h2. append_all list_append 0x1000 [0x2000, 0x3000, 0x4000]
      \<lparr>eflags = 0x202, outs = [], screen = [], idt = [], idt_table = [], intr_name = [], idtr = 0, prev_of = (\<lambda>_. 0)(0x1008 := 0x1000),
        next_of = (\<lambda>_. 0)(0x1000 := 0x1008)\<rparr> = Some h1 \<and>
    pop_n list_pop 0x1000 (length [0x2000, 0x3000, 0x4000 :: addr]) h1 =
      Some ([0x2000, 0x3000, 0x4000], h2) \<and> dlist h2 0x1000 []"
  by (rule list_fifo) (simp_all add: dlist_def nodes_def list_head_def list_tail_def linkable_def)

text \<open>unlinking an element of a well-formed list returns, leaves the list with the other
  elements in their order, keeps every list that shares no node with it, and restores the
  interrupt flag.\<close>

theorem list_remove_keeps_lists:
  assumes "dlist h p xs" "e \<in> set xs" "dlist h q ys" "set (nodes q ys) \<inter> set (nodes p xs) = {}"
  shows "\<exists>h'. list_remove e h = Some h' \<and> dlist h' p (remove1 e xs) \<and> dlist h' q ys \<and>
    eflags h' = eflags h"
proof -
  obtain h' where h': "list_remove e h = Some h'" "dlist h' p (remove1 e xs)"
      "only_links (set (nodes p xs)) h h'"
    using dlist_remove [OF assms(1,2)] by blast
  moreover have "dlist h' q ys"
    using dlist_frame [OF assms(3) h'(3) assms(4)] .
  moreover have "eflags h' = eflags h"
    using only_links_eflags [OF h'(3)] .
  ultimately show ?thesis by blast
qed

theorem list_remove_keeps_lists_witness:
  "\<exists>h'. list_remove 0x2000
      \<lparr>eflags = 0x202, outs = [], screen = [], idt = [], idt_table = [], intr_name = [], idtr = 0,
        prev_of = (\<lambda>_. 0)(0x2000 := 0x1000, 0x1008 := 0x2000, 0x5008 := 0x5000),
        next_of = (\<lambda>_. 0)(0x1000 := 0x2000, 0x2000 := 0x1008, 0x5000 := 0x5008)\<rparr> = Some h' \<and>
    dlist h' 0x1000 (remove1 0x2000 [0x2000]) \<and> dlist h' 0x5000 [] \<and>
    eflags h' = eflags \<lparr>eflags = 0x202, outs = [], screen = [], idt = [], idt_table = [], intr_name = [], idtr = 0,
        prev_of = (\<lambda>_. 0)(0x2000 := 0x1000, 0x1008 := 0x2000, 0x5008 := 0x5000),
        next_of = (\<lambda>_. 0)(0x1000 := 0x2000, 0x2000 := 0x1008, 0x5000 := 0x5008)\<rparr>"
  by (rule list_remove_keeps_lists)
    (simp_all add: dlist_def nodes_def list_head_def list_tail_def)

text \<open>the search loops end on every well-formed list. \<open>elem_find\<close> decides membership,
  \<open>list_len\<close> counts the elements, and \<open>list_traversal\<close> with a callback that leaves the state
  alone returns the first element the callback accepts, or null.\<close>

theorem list_search:
  assumes "dlist h p xs" "\<And>x. x \<in> set xs \<Longrightarrow> func x arg h = Some (P x, h)"
  shows "elem_find p e h = Some (e \<in> set xs) \<and> list_len p h = Some (of_nat (length xs)) \<and>
    list_traversal p func arg h = Some (case find P xs of Some x \<Rightarrow> x | None \<Rightarrow> NULL, h)"
  using dlist_elem_find [OF assms(1)] dlist_len [OF assms(1)]
    dlist_traversal [where func = func and arg = arg and P = P, OF assms] by simp

theorem list_search_witness:
  "let h = \<lparr>eflags = 0, outs = [], screen = [], idt = [], idt_table = [], intr_name = [], idtr = 0,
        prev_of = (\<lambda>_. 0)(0x2000 := 0x1000, 0x3000 := 0x2000, 0x1008 := 0x3000),
        next_of = (\<lambda>_. 0)(0x1000 := 0x2000, 0x2000 := 0x3000, 0x3000 := 0x1008)\<rparr>;
       func = (\<lambda>x arg h. Some (x = arg, h))
   in elem_find 0x1000 0x3000 h = Some (0x3000 \<in> set [0x2000, 0x3000 :: addr]) \<and>
      list_len 0x1000 h = Some (of_nat (length [0x2000, 0x3000 :: addr])) \<and>
      list_traversal 0x1000 func 0x3000 h =
        Some (case find (\<lambda>x. x = 0x3000) [0x2000, 0x3000] of Some x \<Rightarrow> x | None \<Rightarrow> NULL, h)"
  unfolding Let_def
  by (rule list_search) (simp_all add: dlist_def nodes_def list_head_def list_tail_def)

end
