(* ===== verification/Paging.thy ===== *)
theory Paging
  imports Klist
begin

text \<open>
  Paging: the address computations of \<^verbatim>\<open>kernel/memory.c\<close> on a model of the memory management unit.

  \<open>pmem\<close> is the physical memory that holds page directories, page tables and other words the
  paging code reads and writes, by the physical address of a 32-bit word; \<open>cr3\<close> is the page
  directory register. \<open>mmu\<close> is the two-level walk the processor does for a kernel access, with
  \<open>None\<close> for a page fault; \<open>load32\<close> and \<open>store32\<close> are a load and a store of a word at a virtual address.

  The kernel reaches the entries of its own page tables through the last directory entry, which
  points back to the directory. \<open>mmu_pte_ptr\<close> and \<open>mmu_pde_ptr\<close> show that \<open>pte_ptr\<close> and
  \<open>pde_ptr\<close> compute addresses that the unit translates to the entries themselves.
\<close>

unbundle bit_operations_syntax

record pg_state = list_heap +
  pmem :: "u32 \<Rightarrow> u32"
  cr3 :: u32

definition PG_P_1 :: u32 where "PG_P_1 = 1"

definition PG_RW_W :: u32 where "PG_RW_W = 2"

definition PG_US_U :: u32 where "PG_US_U = 4"

definition PDE_IDX :: "u32 \<Rightarrow> u32" where
  "PDE_IDX addr = drop_bit 22 (addr AND 0xffc00000)"

definition PTE_IDX :: "u32 \<Rightarrow> u32" where
  "PTE_IDX addr = drop_bit 12 (addr AND 0x003ff000)"

definition pte_ptr :: "u32 \<Rightarrow> addr" where
  "pte_ptr vaddr = 0xffc00000 + drop_bit 10 (vaddr AND 0xffc00000) + PTE_IDX vaddr * 4"

definition pde_ptr :: "u32 \<Rightarrow> addr" where
  "pde_ptr vaddr = 0xfffff000 + PDE_IDX vaddr * 4"

subsection \<open>The memory management unit\<close>

definition page_of :: "u32 \<Rightarrow> u32" where
  "page_of a = a AND 0xfffff000"

definition present :: "u32 \<Rightarrow> bool" where
  "present e \<longleftrightarrow> e AND PG_P_1 \<noteq> 0"

text \<open>The words of a directory (a page table) that describe an address.\<close>

definition pde_at :: "u32 \<Rightarrow> u32 \<Rightarrow> u32" where
  "pde_at dir v = dir + PDE_IDX v * 4"

definition pte_at :: "(u32 \<Rightarrow> u32) \<Rightarrow> u32 \<Rightarrow> u32 \<Rightarrow> u32" where
  "pte_at pm dir v = page_of (pm (pde_at dir v)) + PTE_IDX v * 4"

definition mmu :: "(u32 \<Rightarrow> u32) \<Rightarrow> u32 \<Rightarrow> u32 \<Rightarrow> u32 option" where
  "mmu pm dir v =
     (if present (pm (pde_at dir v)) \<and> present (pm (pte_at pm dir v))
      then Some (page_of (pm (pte_at pm dir v)) + (v AND 0xfff)) else None)"

definition load32 :: "addr \<Rightarrow> 'a pg_state_scheme \<Rightarrow> u32 option" where
  "load32 v s = map_option (pmem s) (mmu (pmem s) (page_of (cr3 s)) v)"

definition store32 :: "addr \<Rightarrow> u32 \<Rightarrow> 'a pg_state_scheme \<Rightarrow> 'a pg_state_scheme option" where
  "store32 v x s = map_option (\<lambda>p. s\<lparr>pmem := (pmem s)(p := x)\<rparr>) (mmu (pmem s) (page_of (cr3 s)) v)"

text \<open>\<open>memset(v, 0, PG_SIZE)\<close> on a page-aligned address: one translation, then the whole frame.\<close>

definition zero_frame :: "u32 \<Rightarrow> (u32 \<Rightarrow> u32) \<Rightarrow> (u32 \<Rightarrow> u32)" where
  "zero_frame f pm = (\<lambda>a. if page_of a = f then 0 else pm a)"

definition memset_page :: "addr \<Rightarrow> 'a pg_state_scheme \<Rightarrow> 'a pg_state_scheme option" where
  "memset_page v s =
     map_option (\<lambda>p. s\<lparr>pmem := zero_frame (page_of p) (pmem s)\<rparr>) (mmu (pmem s) (page_of (cr3 s)) v)"

definition addr_v2p :: "u32 \<Rightarrow> 'a pg_state_scheme \<Rightarrow> u32 option" where
  "addr_v2p vaddr s = do {
     e \<leftarrow> load32 (pte_ptr vaddr) s;
     Some ((e AND 0xfffff000) + (vaddr AND 0x00000fff))
   }"

text \<open>\<open>page_table_pte_remove\<close> clears the present bit. The \<open>invlpg\<close> that follows names the local
  variable, not the page, and the model has no translation cache.\<close>

definition page_table_pte_remove :: "u32 \<Rightarrow> 'a pg_state_scheme \<Rightarrow> 'a pg_state_scheme option" where
  "page_table_pte_remove vaddr s = do {
     e \<leftarrow> load32 (pte_ptr vaddr) s;
     store32 (pte_ptr vaddr) (e AND NOT PG_P_1) s
   }"

subsection \<open>Well-formed directories\<close>

text \<open>
  A page directory \<open>dir\<close> whose last entry points to itself and whose present entries lead to
  different frames. Entry 0 is exempt: the loader makes the entries 0 and 768 share one table, so
  that low memory is seen both at 0 and at 3 GiB.
\<close>

definition dir_entry :: "(u32 \<Rightarrow> u32) \<Rightarrow> u32 \<Rightarrow> nat \<Rightarrow> u32" where
  "dir_entry pm dir i = pm (dir + of_nat i * 4)"

definition dir_wf :: "(u32 \<Rightarrow> u32) \<Rightarrow> u32 \<Rightarrow> bool" where
  "dir_wf pm dir \<longleftrightarrow>
     page_of dir = dir \<and> present (dir_entry pm dir 1023) \<and> page_of (dir_entry pm dir 1023) = dir \<and>
     (\<forall>i < 1024. \<forall>j < 1024. 0 < i \<longrightarrow> 0 < j \<longrightarrow>
        present (dir_entry pm dir i) \<longrightarrow> present (dir_entry pm dir j) \<longrightarrow>
        page_of (dir_entry pm dir i) = page_of (dir_entry pm dir j) \<longrightarrow> i = j)"

text \<open>Addresses whose page table is neither the shared one of entry 0 nor the directory itself.\<close>

definition mappable :: "u32 \<Rightarrow> bool" where
  "mappable v \<longleftrightarrow> PDE_IDX v \<noteq> 0 \<and> PDE_IDX v \<noteq> 1023"

text \<open>The page directory at 0x100000 and the first page table at 0x101000 as \<open>setup_page\<close> of
  \<^verbatim>\<open>boot/loader.S\<close> writes them, in a memory that is 0 elsewhere.\<close>

definition boot_pde :: "nat \<Rightarrow> u32" where
  "boot_pde i =
     (if i = 0 \<or> i = 768 then 0x101007
      else if i = 1023 then 0x100007
      else if 769 \<le> i \<and> i \<le> 1022 then of_nat (0x102007 + (i - 769) * 0x1000)
      else 0)"

definition boot_pm :: "u32 \<Rightarrow> u32" where
  "boot_pm a =
     (let n = unat a in
      if 0x100000 \<le> n \<and> n < 0x101000 then boot_pde ((n - 0x100000) div 4)
      else if 0x101000 \<le> n \<and> n < 0x101400 then of_nat ((n - 0x101000) div 4 * 0x1000 + 7)
      else 0)"

subsection \<open>Address arithmetic\<close>

lemma bit_PDE_IDX: "bit (PDE_IDX a) n \<longleftrightarrow> n < 10 \<and> bit a (n + 22)"
  by (auto simp: PDE_IDX_def bit_simps bit_mask_literals add.commute)

lemma bit_PTE_IDX: "bit (PTE_IDX a) n \<longleftrightarrow> n < 10 \<and> bit a (n + 12)"
  by (auto simp: PTE_IDX_def bit_simps bit_mask_literals add.commute)

lemma bit_page_of: "bit (page_of a) n \<longleftrightarrow> 12 \<le> n \<and> bit a n"
  by (auto simp: page_of_def bit_simps bit_mask_literals dest: bit_imp_le_length)

lemma bit_offset: "bit (a AND 0xfff) n \<longleftrightarrow> n < 12 \<and> bit a n" for a :: u32
  by (auto simp: bit_simps bit_mask_literals)

lemma bit_1023: "bit (1023 :: u32) n \<longleftrightarrow> n < 10"
  by (auto simp: bit_simps bit_mask_literals)

lemma bit_hi10: "bit (0xffc00000 :: u32) n \<longleftrightarrow> 22 \<le> n \<and> n < 32"
  by (auto simp: bit_simps bit_mask_literals)

lemma bit_hi20: "bit (0xfffff000 :: u32) n \<longleftrightarrow> 12 \<le> n \<and> n < 32"
  by (auto simp: bit_simps bit_mask_literals)

lemma bit_mid: "bit (drop_bit 10 (v AND 0xffc00000)) n \<longleftrightarrow> 12 \<le> n \<and> bit v (n + 10)" for v :: u32
  by (auto simp: bit_simps bit_mask_literals add.commute dest: bit_imp_le_length)

lemma mult4: "w * 4 = push_bit 2 w" for w :: u32
  by (simp add: push_bit_eq_mult)

lemma add_disj: "(\<And>n. \<not> (bit a n \<and> bit b n)) \<Longrightarrow> a + b = a OR b" for a b :: u32
  by (rule disjunctive_add_eq_or) (auto intro!: bit_word_eqI simp: bit_simps)

text \<open>The bits of the two pointers, so that the facts about them are one simplification each.\<close>

lemma bit_pte_ptr:
  "bit (pte_ptr v) n \<longleftrightarrow>
     (22 \<le> n \<and> n < 32) \<or> (12 \<le> n \<and> bit v (n + 10)) \<or> (2 \<le> n \<and> n < 12 \<and> bit v (n + 10))"
proof -
  have 1: "0xffc00000 + drop_bit 10 (v AND 0xffc00000) = 0xffc00000 OR drop_bit 10 (v AND 0xffc00000)"
    by (rule add_disj, unfold bit_hi10 bit_mid) (auto dest: bit_imp_le_length)
  have 2: "(0xffc00000 OR drop_bit 10 (v AND 0xffc00000)) + push_bit 2 (PTE_IDX v) =
      (0xffc00000 OR drop_bit 10 (v AND 0xffc00000)) OR push_bit 2 (PTE_IDX v)"
    by (rule add_disj, unfold bit_or_iff bit_hi10 bit_mid bit_push_bit_iff bit_PTE_IDX) auto
  have "n - 2 + 12 = n + 10" if "2 \<le> n" using that by simp
  then show ?thesis
    unfolding pte_ptr_def mult4 1 2 bit_or_iff bit_hi10 bit_mid bit_push_bit_iff bit_PTE_IDX
    by (auto simp: add.commute dest: bit_imp_le_length)
qed

lemma bit_pde_ptr:
  "bit (pde_ptr v) n \<longleftrightarrow> (12 \<le> n \<and> n < 32) \<or> (2 \<le> n \<and> n < 12 \<and> bit v (n + 20))"
proof -
  have 1: "0xfffff000 + push_bit 2 (PDE_IDX v) = 0xfffff000 OR push_bit 2 (PDE_IDX v)"
    by (rule add_disj, unfold bit_hi20 bit_push_bit_iff bit_PDE_IDX) auto
  have "n - 2 + 22 = n + 20" if "2 \<le> n" using that by simp
  then show ?thesis
    unfolding pde_ptr_def mult4 1 bit_or_iff bit_hi20 bit_push_bit_iff bit_PDE_IDX
    by (auto simp: add.commute dest: bit_imp_le_length)
qed

lemma pte_ptr_parts:
  "PDE_IDX (pte_ptr v) = 1023" "PTE_IDX (pte_ptr v) = PDE_IDX v" "pte_ptr v AND 0xfff = PTE_IDX v * 4"
proof -
  show "PDE_IDX (pte_ptr v) = 1023" "PTE_IDX (pte_ptr v) = PDE_IDX v"
    by (rule bit_word_eqI, unfold bit_PDE_IDX bit_PTE_IDX bit_pte_ptr bit_1023, auto simp: add.commute dest: bit_imp_le_length)+
  show "pte_ptr v AND 0xfff = PTE_IDX v * 4"
    unfolding mult4
    by (rule bit_word_eqI, unfold bit_offset bit_push_bit_iff bit_PTE_IDX bit_pte_ptr) (auto simp: add.commute)
qed

lemma pde_ptr_parts:
  "PDE_IDX (pde_ptr v) = 1023" "PTE_IDX (pde_ptr v) = 1023" "pde_ptr v AND 0xfff = PDE_IDX v * 4"
proof -
  show "PDE_IDX (pde_ptr v) = 1023" "PTE_IDX (pde_ptr v) = 1023"
    by (rule bit_word_eqI, unfold bit_PDE_IDX bit_PTE_IDX bit_pde_ptr bit_1023, auto)+
  show "pde_ptr v AND 0xfff = PDE_IDX v * 4"
    unfolding mult4
    by (rule bit_word_eqI, unfold bit_offset bit_push_bit_iff bit_PDE_IDX bit_pde_ptr) (auto simp: add.commute)
qed

text \<open>A word of a frame: the frame and the index can be read back.\<close>

definition table_index :: "u32 \<Rightarrow> bool" where
  "table_index i \<longleftrightarrow> take_bit 10 i = i"

lemma table_index_bit: "table_index i \<Longrightarrow> bit i n \<Longrightarrow> n < 10"
  unfolding table_index_def by (metis bit_take_bit_iff)

lemma table_index_unat: "table_index i \<Longrightarrow> unat i < 1024"
proof -
  assume "table_index i"
  then have "unat i = take_bit 10 (unat i)" unfolding table_index_def by (metis unsigned_take_bit_eq)
  then show ?thesis using take_bit_nat_less_exp [of 10 "unat i"] by simp
qed

lemma table_index_idx [simp]: "table_index (PDE_IDX v)" "table_index (PTE_IDX v)"
  unfolding table_index_def
  by (rule bit_word_eqI, unfold bit_take_bit_iff bit_PDE_IDX bit_PTE_IDX, auto)+

lemma table_index_of_nat: "i < 1024 \<Longrightarrow> table_index (of_nat i)"
  unfolding table_index_def by (simp add: word_unat_eq_iff unsigned_take_bit_eq take_bit_nat_eq_self)

lemma entry_or:
  assumes "table_index i"
  shows "page_of x + i * 4 = page_of x OR push_bit 2 i"
  unfolding mult4
proof (rule add_disj)
  fix n show "\<not> (bit (page_of x) n \<and> bit (push_bit 2 i) n)"
    using table_index_bit [OF assms, of "n - 2"] by (auto simp: bit_page_of bit_push_bit_iff)
qed

lemma page_of_entry:
  assumes "table_index i"
  shows "page_of (page_of x + i * 4) = page_of x"
  unfolding entry_or [OF assms]
proof (rule bit_word_eqI)
  fix n show "bit (page_of (page_of x OR push_bit 2 i)) n = bit (page_of x) n"
    using table_index_bit [OF assms, of "n - 2"] by (auto simp: bit_page_of bit_or_iff bit_push_bit_iff)
qed

lemma entry_inject:
  assumes "table_index i" "table_index j" "page_of x + i * 4 = page_of y + j * 4"
  shows "page_of x = page_of y \<and> i = j"
proof -
  have p: "page_of x = page_of y"
    using page_of_entry [OF assms(1), of x] page_of_entry [OF assms(2), of y] assms(3) by simp
  then have "i * 4 = j * 4" using assms(3) by simp
  moreover have "drop_bit 2 (w * 4) = w" if w: "table_index w" for w
  proof (rule bit_word_eqI)
    fix n show "bit (drop_bit 2 (w * 4)) n = bit w n"
      using table_index_bit [OF w, of n] by (auto simp: mult4 bit_drop_bit_eq bit_push_bit_iff)
  qed
  ultimately have "i = j" using assms(1,2) by metis
  with p show ?thesis by simp
qed

lemma page_of_page_of [simp]: "page_of (page_of a) = page_of a"
  by (rule bit_word_eqI) (simp add: bit_page_of)

lemma page_of_pte_at: "page_of (pte_at pm dir v) = page_of (pm (pde_at dir v))"
  unfolding pte_at_def by (rule page_of_entry) simp

lemma page_of_pde_at: "page_of dir = dir \<Longrightarrow> page_of (pde_at dir v) = dir"
  unfolding pde_at_def using page_of_entry [of "PDE_IDX v" dir] by simp

lemma PDE_IDX_less: "unat (PDE_IDX v) < 1024" "unat (PTE_IDX v) < 1024"
  by (simp_all add: table_index_unat)

lemma pde_at_entry: "pm (pde_at dir v) = dir_entry pm dir (unat (PDE_IDX v))"
  by (simp add: pde_at_def dir_entry_def)

lemma same_page_iff: "page_of v = page_of w \<longleftrightarrow> PDE_IDX v = PDE_IDX w \<and> PTE_IDX v = PTE_IDX w"
proof
  assume "PDE_IDX v = PDE_IDX w \<and> PTE_IDX v = PTE_IDX w"
  then have d: "bit (PDE_IDX v) n = bit (PDE_IDX w) n" "bit (PTE_IDX v) n = bit (PTE_IDX w) n" for n
    by auto
  have "bit v n = bit w n" if "12 \<le> n" "n < 32" for n
    using d(1) [of "n - 22"] d(2) [of "n - 12"] that
    by (cases "22 \<le> n") (auto simp: bit_PDE_IDX bit_PTE_IDX)
  then show "page_of v = page_of w"
    by (intro bit_word_eqI) (auto simp: bit_page_of)
next
  assume a: "page_of v = page_of w"
  have "bit v n = bit w n" if "12 \<le> n" for n
    using that a bit_page_of [of v n] bit_page_of [of w n] by simp
  then show "PDE_IDX v = PDE_IDX w \<and> PTE_IDX v = PTE_IDX w"
    by (auto intro!: bit_word_eqI simp: bit_PDE_IDX bit_PTE_IDX)
qed

subsection \<open>The recursive mapping\<close>

lemma dir_wf_self:
  assumes "dir_wf pm dir"
  shows "present (pm (dir + 1023 * 4))"
    "page_of (pm (dir + 1023 * 4)) = dir" "page_of dir = dir"
  using assms by (simp_all add: pde_at_def pte_ptr_parts dir_wf_def dir_entry_def)

lemma mmu_pte_ptr:
  assumes "dir_wf pm dir"
  shows "mmu pm dir (pte_ptr v) = (if present (pm (pde_at dir v)) then Some (pte_at pm dir v) else None)"
  using dir_wf_self [OF assms]
  by (simp add: mmu_def pte_at_def pde_at_def pte_ptr_parts)

lemma mmu_pde_ptr:
  assumes "dir_wf pm dir"
  shows "mmu pm dir (pde_ptr v) = Some (pde_at dir v)"
  using dir_wf_self [OF assms]
  by (simp add: mmu_def pte_at_def pde_at_def pde_ptr_parts)

lemma addr_v2p_mmu:
  assumes "dir_wf (pmem s) (page_of (cr3 s))" "mmu (pmem s) (page_of (cr3 s)) v = Some p"
  shows "addr_v2p v s = Some p"
proof -
  have "present (pmem s (pde_at (page_of (cr3 s)) v))"
    using assms(2) by (auto simp: mmu_def split: if_splits)
  moreover from this have "p = page_of (pmem s (pte_at (pmem s) (page_of (cr3 s)) v)) + (v AND 0xfff)"
    using assms(2) by (auto simp: mmu_def split: if_splits)
  ultimately show ?thesis
    using mmu_pte_ptr [OF assms(1), of v] by (simp add: addr_v2p_def load32_def page_of_def)
qed

lemma present_7: "present (f OR PG_US_U OR PG_RW_W OR PG_P_1)"
  unfolding present_def PG_P_1_def
  by (metis (no_types, lifting) and.commute bit_1_iff_0 bit_and_iff bit_or_iff zero_neq_one bit_0_eq bot_apply bot_bool_def)

lemma page_of_7: "page_of f = f \<Longrightarrow> page_of (f OR PG_US_U OR PG_RW_W OR PG_P_1) = f"
proof -
  assume a: "page_of f = f"
  have "bit (7 :: u32) n \<Longrightarrow> n < 3" for n
  proof -
    have "(7 :: u32) = mask 3" by (simp add: mask_eq_exp_minus_1)
    then show "bit (7 :: u32) n \<Longrightarrow> n < 3" by (simp only: bit_mask_iff)
  qed
  moreover have "f OR PG_US_U OR PG_RW_W OR PG_P_1 = f OR 7"
    by (simp add: PG_US_U_def PG_RW_W_def PG_P_1_def or.assoc)
  ultimately show ?thesis
    using a bit_page_of [of f] by (intro bit_word_eqI) (fastforce simp: bit_page_of bit_or_iff)
qed

text \<open>Writing the page table entry of \<open>v\<close> changes the translation of the page of \<open>v\<close> only.\<close>

lemma frame_not_dir:
  assumes "dir_wf pm dir" "mappable v" "present (pm (pde_at dir v))"
  shows "page_of (pm (pde_at dir v)) \<noteq> dir"
proof -
  have "unat (PDE_IDX v) \<noteq> 1023" "0 < unat (PDE_IDX v)"
    using assms(2) word_unat_eq_iff [of "PDE_IDX v" 1023] by (auto simp: mappable_def unat_gt_0)
  then show ?thesis
    using assms(1,3) PDE_IDX_less(1) [of v] unfolding dir_wf_def pde_at_entry by force
qed

lemma mmu_set_pte:
  assumes wf: "dir_wf pm dir" and v: "mappable v" and pr: "present (pm (pde_at dir v))"
  shows "dir_wf (pm(pte_at pm dir v := e)) dir"
    and "PDE_IDX w \<noteq> 0 \<Longrightarrow> mmu (pm(pte_at pm dir v := e)) dir w =
      (if page_of w = page_of v then (if present e then Some (page_of e + (w AND 0xfff)) else None)
       else mmu pm dir w)"
proof -
  let ?L = "pte_at pm dir v"
  have dd: "page_of dir = dir" using wf by (simp add: dir_wf_def)
  have L: "page_of ?L \<noteq> dir" using frame_not_dir [OF wf v pr] by (simp add: page_of_pte_at)
  have ent: "dir_entry (pm(?L := e)) dir i = dir_entry pm dir i" if "i < 1024" for i
  proof -
    have "page_of (dir + of_nat i * 4) = dir"
      using page_of_entry [OF table_index_of_nat [OF that], of dir] dd by simp
    then show ?thesis using L by (auto simp: dir_entry_def)
  qed
  then show "dir_wf (pm(?L := e)) dir"
    using wf unfolding dir_wf_def by simp
  have pde: "(pm(?L := e)) (pde_at dir w) = pm (pde_at dir w)"
    using ent [OF PDE_IDX_less(1)] by (simp only: pde_at_entry)
  have at: "pte_at (pm(?L := e)) dir w = pte_at pm dir w"
    unfolding pte_at_def using pde by (simp only: pte_at_def)
  assume w: "PDE_IDX w \<noteq> 0"
  have pos: "0 < unat (PDE_IDX w)" "0 < unat (PDE_IDX v)"
    using w v by (auto simp: mappable_def unat_gt_0)
  have hit: "pte_at pm dir w = ?L \<longleftrightarrow> page_of w = page_of v" if "present (pm (pde_at dir w))"
  proof
    assume "page_of w = page_of v"
    then show "pte_at pm dir w = ?L" by (simp add: same_page_iff pte_at_def pde_at_def)
  next
    assume "pte_at pm dir w = ?L"
    then have "page_of (pm (pde_at dir w)) = page_of (pm (pde_at dir v)) \<and> PTE_IDX w = PTE_IDX v"
      unfolding pte_at_def by (rule entry_inject [OF table_index_idx(2) table_index_idx(2)])
    then show "page_of w = page_of v"
      using wf that pr pos PDE_IDX_less(1) unfolding same_page_iff dir_wf_def pde_at_entry
      by (metis word_unat_eq_iff)
  qed
  show "mmu (pm(?L := e)) dir w =
      (if page_of w = page_of v then (if present e then Some (page_of e + (w AND 0xfff)) else None)
       else mmu pm dir w)"
    unfolding mmu_def pde at using hit pr
    by (cases "present (pm (pde_at dir w))") (auto simp: same_page_iff pde_at_def)
qed

text \<open>Entering a fresh, zeroed table changes no translation outside the window of the tables.\<close>

definition fresh_frame :: "(u32 \<Rightarrow> u32) \<Rightarrow> u32 \<Rightarrow> u32 \<Rightarrow> bool" where
  "fresh_frame pm dir f \<longleftrightarrow> page_of f = f \<and>
     (\<forall>i < 1024. present (dir_entry pm dir i) \<longrightarrow> page_of (dir_entry pm dir i) \<noteq> f)"

definition new_table :: "(u32 \<Rightarrow> u32) \<Rightarrow> u32 \<Rightarrow> u32 \<Rightarrow> u32 \<Rightarrow> (u32 \<Rightarrow> u32)" where
  "new_table pm dir v f = zero_frame f (pm(pde_at dir v := f OR PG_US_U OR PG_RW_W OR PG_P_1))"

lemma dir_entry_new_table:
  assumes "dir_wf pm dir" "fresh_frame pm dir f" "i < 1024"
  shows "dir_entry (new_table pm dir v f) dir i =
    (if i = unat (PDE_IDX v) then f OR PG_US_U OR PG_RW_W OR PG_P_1 else dir_entry pm dir i)"
proof -
  have dd: "page_of dir = dir" and df: "dir \<noteq> f"
    using assms(1,2) by (auto simp: dir_wf_def fresh_frame_def)
  have "page_of (dir + of_nat i * 4) = dir"
    using page_of_entry [OF table_index_of_nat [OF assms(3)], of dir] dd by simp
  moreover have "dir + of_nat i * 4 = pde_at dir v \<longleftrightarrow> i = unat (PDE_IDX v)"
  proof
    assume "dir + of_nat i * 4 = pde_at dir v"
    then have "of_nat i = PDE_IDX v"
      using entry_inject [OF table_index_of_nat [OF assms(3)] table_index_idx(1), of dir dir v] dd
      by (simp add: pde_at_def)
    then show "i = unat (PDE_IDX v)" using assms(3) using unat_of_nat32 [of i] by simp
  qed (simp add: pde_at_def)
  ultimately show ?thesis
    using df by (simp add: new_table_def zero_frame_def dir_entry_def)
qed

lemma mmu_new_table:
  assumes wf: "dir_wf pm dir" and v: "mappable v" and ab: "\<not> present (pm (pde_at dir v))"
    and fr: "fresh_frame pm dir f"
  shows "dir_wf (new_table pm dir v f) dir"
    and "new_table pm dir v f (pde_at dir v) = f OR PG_US_U OR PG_RW_W OR PG_P_1"
    and "new_table pm dir v f (pte_at (new_table pm dir v f) dir v) = 0"
    and "mappable w \<Longrightarrow> mmu (new_table pm dir v f) dir w = mmu pm dir w"
proof -
  let ?pm = "new_table pm dir v f"
  note ent = dir_entry_new_table [OF wf fr, of _ v]
  have ff: "page_of f = f" using fr by (simp add: fresh_frame_def)
  have v1: "unat (PDE_IDX v) \<noteq> 1023" using v word_unat_eq_iff [of "PDE_IDX v" 1023] by (simp add: mappable_def)
  show "dir_wf ?pm dir"
    using wf fr v1 page_of_7 [OF ff] unfolding dir_wf_def fresh_frame_def by (auto simp: ent)
  show pde: "?pm (pde_at dir v) = f OR PG_US_U OR PG_RW_W OR PG_P_1"
    using ent [OF PDE_IDX_less(1)] by (simp add: pde_at_entry)
  have "page_of (pte_at ?pm dir v) = f" by (simp add: page_of_pte_at pde page_of_7 [OF ff])
  then show "?pm (pte_at ?pm dir v) = 0" by (simp add: new_table_def zero_frame_def)
  assume w: "mappable w"
  show "mmu ?pm dir w = mmu pm dir w"
  proof (cases "PDE_IDX w = PDE_IDX v")
    case True
    then have "pde_at dir w = pde_at dir v" by (simp add: pde_at_def)
    then have "page_of (pte_at ?pm dir w) = f" by (simp add: page_of_pte_at pde page_of_7 [OF ff])
    then have "?pm (pte_at ?pm dir w) = 0" by (simp add: new_table_def zero_frame_def)
    moreover have "\<not> present 0" by (simp add: present_def)
    ultimately show ?thesis using ab \<open>pde_at dir w = pde_at dir v\<close> by (simp add: mmu_def)
  next
    case False
    then have "unat (PDE_IDX w) \<noteq> unat (PDE_IDX v)" by (simp add: word_unat_eq_iff)
    then have p: "?pm (pde_at dir w) = pm (pde_at dir w)"
      using ent [OF PDE_IDX_less(1)] by (simp add: pde_at_entry)
    then have at: "pte_at ?pm dir w = pte_at pm dir w" by (simp add: pte_at_def)
    have "?pm (pte_at pm dir w) = pm (pte_at pm dir w)" if pr: "present (pm (pde_at dir w))"
    proof -
      have "page_of (pte_at pm dir w) \<noteq> f"
        using fr pr PDE_IDX_less(1) [of w] by (simp add: page_of_pte_at fresh_frame_def pde_at_entry)
      moreover have "page_of (pte_at pm dir w) \<noteq> dir"
        using frame_not_dir [OF wf w pr] by (simp add: page_of_pte_at)
      then have "pte_at pm dir w \<noteq> pde_at dir v"
        using page_of_pde_at [of dir v] wf by (auto simp: dir_wf_def)
      ultimately show ?thesis by (simp add: new_table_def zero_frame_def)
    qed
    then show ?thesis by (auto simp: mmu_def p at)
  qed
qed

subsection \<open>The boot directory\<close>

lemma unat_page_of: "unat (page_of a) = unat a div 4096 * 4096"
proof -
  have "page_of a = push_bit 12 (drop_bit 12 a)"
    by (rule bit_word_eqI) (auto simp: bit_page_of bit_push_bit_iff bit_drop_bit_eq)
  then have "unat (page_of a) = unat (drop_bit 12 a * 4096)"
    by (simp add: push_bit_eq_mult)
  also have "unat (drop_bit 12 a * 4096) = unat a div 4096 * 4096"
  proof -
    have "unat a div 4096 * 4096 < 4294967296"
      using unat_lt2p_32 [of a] div_times_less_eq_dividend [of "unat a" 4096] by linarith
    moreover have "unat (drop_bit 12 a) = unat a div 4096"
      unfolding unat_drop_bit_eq by (simp add: drop_bit_eq_div)
    ultimately show ?thesis
      unfolding unat_word_ariths(2) by simp
  qed
  finally show ?thesis .
qed

lemma boot_dir_entry: "i < 1024 \<Longrightarrow> dir_entry boot_pm 0x100000 i = boot_pde i"
proof -
  assume i: "i < 1024"
  then have "unat (of_nat i * 4 :: u32) = i * 4"
    by (simp add: unat_word_ariths)
  then have "unat (0x100000 + of_nat i * 4 :: u32) = 0x100000 + i * 4"
    using i by (simp add: unat_word_ariths)
  then show ?thesis using i by (simp add: dir_entry_def boot_pm_def)
qed

lemma present_odd: "present e \<longleftrightarrow> odd (unat e)"
  by (simp add: present_def PG_P_1_def and_one_eq unat_eq_0 [symmetric] unat_mod odd_iff_mod_2_eq_one)

lemma boot_pde_unat: "i < 1024 \<Longrightarrow> unat (boot_pde i) =
    (if i = 0 \<or> i = 768 then 0x101007 else if i = 1023 then 0x100007
     else if 769 \<le> i \<and> i \<le> 1022 then 0x102007 + (i - 769) * 0x1000 else 0)"
proof -
  assume "i < 1024"
  then have "unat (of_nat (0x102007 + (i - 769) * 0x1000) :: u32) = 0x102007 + (i - 769) * 0x1000"
    by (intro unat_of_nat32) simp
  then show ?thesis unfolding boot_pde_def by (simp del: of_nat_add of_nat_mult)
qed

lemma boot_pde_frame: "i < 1024 \<Longrightarrow> unat (page_of (boot_pde i)) =
    (if i = 0 \<or> i = 768 then 0x101000 else if i = 1023 then 0x100000
     else if 769 \<le> i \<and> i \<le> 1022 then 0x102000 + (i - 769) * 0x1000 else 0)"
proof -
  assume i: "i < 1024"
  have "(0x102007 + k * 0x1000) div 4096 * 4096 = 0x102000 + k * 0x1000" for k :: nat by simp
  then show ?thesis unfolding unat_page_of boot_pde_unat [OF i] by (simp, arith)
qed

lemma boot_dir_wf: "dir_wf boot_pm 0x100000"
proof -
  note u = boot_pde_unat and frame = boot_pde_frame
  have inj: "i = j" if "i < 1024" "j < 1024" "0 < i" "0 < j" "odd (unat (boot_pde i))"
      "odd (unat (boot_pde j))" "page_of (boot_pde i) = page_of (boot_pde j)" for i j
  proof -
    have eq: "unat (page_of (boot_pde i)) = unat (page_of (boot_pde j))" using that by simp
    have "768 \<le> i" "768 \<le> j" using that(5,6) u [OF that(1)] u [OF that(2)] that(3,4)
      by (auto split: if_splits)
    then show ?thesis using eq frame [OF that(1)] frame [OF that(2)] that(1,2)
      by (auto split: if_splits)
  qed
  have "page_of (0x100000 :: u32) = 0x100000" "page_of (0x100007 :: u32) = 0x100000"
    by (simp_all add: page_of_def)
  then show ?thesis
    using inj unfolding dir_wf_def by (auto simp: boot_dir_entry present_odd) (simp_all add: boot_pde_def)
qed

lemma boot_unmapped:
  assumes "PDE_IDX w = 768" "256 \<le> unat (PTE_IDX w)"
  shows "mmu boot_pm 0x100000 w = None"
proof -
  have k: "unat (PTE_IDX w) < 1024" "unat (PTE_IDX w * 4) = 4 * unat (PTE_IDX w)"
    using PDE_IDX_less(2) [of w] by (simp_all add: unat_word_ariths)
  have "boot_pm (pde_at 0x100000 w) = boot_pde 768" using assms(1) boot_dir_entry [of 768] by (simp add: pde_at_entry)
  then have "unat (pte_at boot_pm 0x100000 w) = 0x101000 + 4 * unat (PTE_IDX w)"
    using k boot_pde_frame [of 768] by (simp add: pte_at_def unat_word_ariths)
  then have "boot_pm (pte_at boot_pm 0x100000 w) = 0" using assms(2) k by (simp add: boot_pm_def)
  then show ?thesis by (simp add: mmu_def present_def)
qed

text \<open>What \<open>setup_page\<close> writes: the directory and the first 256 entries of the first page table. It writes no other entry of the page
  tables up to 0x1fffff, to which the directory points; \<open>rest_absent\<close> says that none of them has its present bit set.\<close>

definition loader_pm :: "(u32 \<Rightarrow> u32) \<Rightarrow> bool" where
  "loader_pm pm \<longleftrightarrow> (\<forall>i < 1024. dir_entry pm 0x100000 i = boot_pde i) \<and>
     (\<forall>a. 0x101000 \<le> unat a \<longrightarrow> unat a < 0x101400 \<longrightarrow> unat a mod 4 = 0 \<longrightarrow> pm a = of_nat ((unat a - 0x101000) div 4 * 0x1000 + 7))"

definition rest_absent :: "(u32 \<Rightarrow> u32) \<Rightarrow> bool" where
  "rest_absent pm \<longleftrightarrow> (\<forall>a. 0x101400 \<le> unat a \<longrightarrow> unat a < 0x200000 \<longrightarrow> unat a mod 4 = 0 \<longrightarrow> \<not> present (pm a))"

lemma boot_loader: "loader_pm boot_pm" "rest_absent boot_pm"
  by (simp_all add: loader_pm_def rest_absent_def boot_dir_entry) (simp_all add: boot_pm_def present_def)

text \<open>Outside the first 4 MiB and the window such a directory maps only low memory.\<close>

lemma loader_mapped:
  assumes "loader_pm pm" "rest_absent pm" "mappable w" "mmu pm 0x100000 w = Some p"
  shows "unat (PDE_IDX w) = 768 \<and> unat (PTE_IDX w) < 256" "unat p < 0x100000"
proof -
  let ?i = "unat (PDE_IDX w)" and ?k = "unat (PTE_IDX w)" and ?e = "pte_at pm 0x100000 w"
  have i: "?i < 1024" "?k < 1024" by (rule PDE_IDX_less)+
  have pde: "pm (pde_at 0x100000 w) = boot_pde ?i" using assms(1) i(1) by (simp add: pde_at_entry loader_pm_def)
  have pr: "present (boot_pde ?i)" "present (pm ?e)" and p: "p = page_of (pm ?e) + (w AND 0xfff)"
    using assms(4) pde by (auto simp: mmu_def split: if_splits)
  have ne: "?i \<noteq> 0" "?i \<noteq> 1023"
    using assms(3) word_unat_eq_iff [of "PDE_IDX w" 1023] by (auto simp: mappable_def unat_eq_0)
  have range: "768 \<le> ?i" using pr(1) boot_pde_unat [OF i(1)] ne by (auto simp: present_odd split: if_splits)
  have k4: "unat (PTE_IDX w * 4) = 4 * ?k" using i(2) by (simp add: unat_word_ariths)
  have at: "unat ?e = unat (page_of (boot_pde ?i)) + 4 * ?k"
    unfolding pte_at_def pde
    using boot_pde_frame [OF i(1)] i k4 ne range by (simp add: unat_word_ariths)
  have fr: "unat (page_of (boot_pde ?i)) = (if ?i = 768 then 0x101000 else 0x102000 + (?i - 769) * 0x1000)"
    using boot_pde_frame [OF i(1)] i(1) ne range by auto
  have "unat ?e mod 4 = 0" "unat ?e < 0x200000" using at fr i ne range by (auto simp: mod_eq_0_iff_dvd)
  then have "unat ?e < 0x101400" using assms(2) pr(2) unfolding rest_absent_def by (metis not_less)
  then show k: "?i = 768 \<and> ?k < 256" using at fr i ne range by (auto split: if_splits)
  have "pm ?e = of_nat (?k * 0x1000 + 7)"
    using assms(1) at fr k \<open>unat ?e mod 4 = 0\<close> \<open>unat ?e < 0x101400\<close> by (auto simp: loader_pm_def)
  moreover have "unat (of_nat (?k * 0x1000 + 7) :: u32) = ?k * 0x1000 + 7"
    by (rule unat_of_nat32) (use k in simp)
  ultimately have e: "unat (page_of (pm ?e)) = ?k * 0x1000"
    by (simp add: unat_page_of del: of_nat_add of_nat_mult)
  have "w AND 0xfff = take_bit 12 w" by (simp add: take_bit_eq_mask mask_eq_exp_minus_1)
  then have off: "unat (w AND 0xfff) < 0x1000" by (simp add: unsigned_take_bit_eq take_bit_nat_def)
  show "unat p < 0x100000" using e off k unfolding p by (simp add: unat_word_ariths)
qed

lemmas boot_mmu_low = loader_mapped(2) [OF boot_loader]

subsection \<open>Properties\<close>

text \<open>C23: the recursive mapping is right. Under a well-formed directory the address computed by
  \<open>pde_ptr\<close> translates to the directory entry of \<open>v\<close>, the one computed by \<open>pte_ptr\<close> to the page
  table entry of \<open>v\<close> whenever the directory entry is present, and \<open>addr_v2p\<close> computes the
  translation the processor does.\<close>

theorem recursive_mapping:
  assumes "dir_wf (pmem s) (page_of (cr3 s))" "mmu (pmem s) (page_of (cr3 s)) v = Some p"
  shows "mmu (pmem s) (page_of (cr3 s)) (pde_ptr v) = Some (pde_at (page_of (cr3 s)) v) \<and>
    mmu (pmem s) (page_of (cr3 s)) (pte_ptr v) = Some (pte_at (pmem s) (page_of (cr3 s)) v) \<and>
    addr_v2p v s = Some p"
proof -
  have "present (pmem s (pde_at (page_of (cr3 s)) v))"
    using assms(2) by (auto simp: mmu_def split: if_splits)
  then show ?thesis
    using mmu_pde_ptr [OF assms(1)] mmu_pte_ptr [OF assms(1)] addr_v2p_mmu [OF assms] by simp
qed

theorem recursive_mapping_witness:
  "let s = \<lparr>eflags = 0, outs = [], screen = [], idt = [], idt_table = [], intr_name = [], idtr = 0, prev_of = \<lambda>_. 0, next_of = \<lambda>_. 0, pmem = boot_pm, cr3 = 0x100000\<rparr>
   in mmu (pmem s) (page_of (cr3 s)) (pde_ptr 0xc0001234) = Some (pde_at (page_of (cr3 s)) 0xc0001234) \<and>
      mmu (pmem s) (page_of (cr3 s)) (pte_ptr 0xc0001234) =
        Some (pte_at (pmem s) (page_of (cr3 s)) 0xc0001234) \<and>
      addr_v2p 0xc0001234 s = Some 0x1234"
  unfolding Let_def
proof (rule recursive_mapping)
  let ?s = "\<lparr>eflags = 0, outs = [], screen = [], idt = [], idt_table = [], intr_name = [], idtr = 0, prev_of = \<lambda>_. 0, next_of = \<lambda>_. 0, pmem = boot_pm, cr3 = 0x100000\<rparr>"
  have "page_of (0x100000 :: u32) = 0x100000" by (simp add: page_of_def)
  then show "dir_wf (pmem ?s) (page_of (cr3 ?s))" by (simp add: boot_dir_wf)
  show "mmu (pmem ?s) (page_of (cr3 ?s)) 0xc0001234 = Some 0x1234"
    by (simp add: mmu_def pde_at_def pte_at_def PDE_IDX_def PTE_IDX_def page_of_def boot_pm_def
        boot_pde_def present_def PG_P_1_def)
qed

text \<open>\<open>page_table_pte_remove\<close> unmaps exactly one page. Where the page of \<open>v\<close> has a table, the
  call returns, every address of the page faults afterwards, every other page outside the first
  4 MiB keeps its translation, and the directory stays well formed.\<close>

theorem pte_remove_unmaps:
  assumes "dir_wf (pmem s) (page_of (cr3 s))" "mappable v"
    "present (pmem s (pde_at (page_of (cr3 s)) v))" "PDE_IDX w \<noteq> 0"
  shows "\<exists>s'. page_table_pte_remove v s = Some s' \<and> dir_wf (pmem s') (page_of (cr3 s)) \<and>
    cr3 s' = cr3 s \<and>
    mmu (pmem s') (page_of (cr3 s)) w =
      (if page_of w = page_of v then None else mmu (pmem s) (page_of (cr3 s)) w)"
proof -
  let ?d = "page_of (cr3 s)" and ?L = "pte_at (pmem s) (page_of (cr3 s)) v"
  let ?e = "pmem s ?L AND NOT PG_P_1"
  have np: "\<not> present ?e"
    by (simp add: present_def and.assoc)
  have "page_table_pte_remove v s = Some (s\<lparr>pmem := (pmem s)(?L := ?e)\<rparr>)"
    using mmu_pte_ptr [OF assms(1), of v] assms(3) by (simp add: page_table_pte_remove_def load32_def store32_def)
  then show ?thesis
    using mmu_set_pte [OF assms(1-3), where e = ?e] assms(4) np by simp
qed

theorem pte_remove_unmaps_witness:
  "let s = \<lparr>eflags = 0, outs = [], screen = [], idt = [], idt_table = [], intr_name = [], idtr = 0, prev_of = \<lambda>_. 0, next_of = \<lambda>_. 0, pmem = boot_pm, cr3 = 0x100000\<rparr>
   in \<exists>s'. page_table_pte_remove 0xc0001000 s = Some s' \<and> dir_wf (pmem s') (page_of (cr3 s)) \<and>
        cr3 s' = cr3 s \<and>
        mmu (pmem s') (page_of (cr3 s)) 0xc0001234 =
          (if page_of 0xc0001234 = page_of 0xc0001000 then None
           else mmu (pmem s) (page_of (cr3 s)) 0xc0001234)"
  unfolding Let_def
proof (rule pte_remove_unmaps)
  let ?s = "\<lparr>eflags = 0, outs = [], screen = [], idt = [], idt_table = [], intr_name = [], idtr = 0, prev_of = \<lambda>_. 0, next_of = \<lambda>_. 0, pmem = boot_pm, cr3 = 0x100000\<rparr>"
  have "page_of (0x100000 :: u32) = 0x100000" by (simp add: page_of_def)
  then show "dir_wf (pmem ?s) (page_of (cr3 ?s))" by (simp add: boot_dir_wf)
  show "present (pmem ?s (pde_at (page_of (cr3 ?s)) 0xc0001000))"
    by (simp add: pde_at_def PDE_IDX_def page_of_def boot_pm_def boot_pde_def present_def PG_P_1_def)
  show "mappable 0xc0001000" by (simp add: mappable_def PDE_IDX_def)
  show "PDE_IDX 0xc0001234 \<noteq> 0" by (simp add: PDE_IDX_def)
qed

end
