(* ===== verification/Thread.thy ===== *)
theory Thread
  imports Paging
begin

text \<open>
  The scheduler: \<^verbatim>\<open>thread/thread.c\<close> without the creation and the end of threads, with
  \<open>page_dir_activate\<close> and \<open>process_activate\<close> of \<^verbatim>\<open>userprog/process.c\<close> and \<open>update_tss_esp\<close> of
  \<^verbatim>\<open>userprog/tss.c\<close>.

  \<open>kstate\<close> adds to the memory and the list links of the lower theories the stack pointer, the
  task structures by address (\<open>tcb\<close>), and the global variables of the scheduler. The two list
  heads are link-time addresses; \<open>general_tag\<close> and \<open>all_list_tag\<close> are the addresses of the list
  elements inside a task structure. The lists themselves are the pointer lists of \<open>Klist\<close>.

  \<open>running_thread\<close> is read off the stack pointer, as in the code. \<open>switch_to\<close> saves the stack
  pointer of the old thread and loads that of the new one; the four registers it pushes and pops
  on the way are not modelled, nor is the movement of the stack pointer inside a page. A call that
  ends in \<open>schedule\<close> is modelled up to the switch: \<open>thread_block\<close> and \<open>thread_yield\<close> return the
  saved interrupt status, which the thread hands to \<open>intr_set_status\<close> when it runs again.

  \<open>sched_inv\<close> is the invariant of the ready queue; the lemmas show that every operation returns
  and keeps it.
\<close>

unbundle bit_operations_syntax

datatype task_status =
  TASK_RUNNING | TASK_READY | TASK_BLOCKED | TASK_WAITING | TASK_HANGING | TASK_DIED

record task_struct =
  self_kstack :: addr
  pid :: u16
  status :: task_status
  name :: string
  priority :: u8
  ticks :: u8
  elapsed_ticks :: u32
  fd_table :: "u32 list"
  pgdir :: addr
  cwd_inode_nr :: u32
  parent_pid :: u16
  exit_status :: u8
  stack_magic :: u32

record kstate = pg_state +
  esp :: u32
  tcb :: "addr \<Rightarrow> task_struct"
  main_thread :: addr
  idle_thread :: addr
  thread_ready_list :: addr
  thread_all_list :: addr
  thread_tag :: addr
  tss_esp0 :: u32

definition general_tag :: "addr \<Rightarrow> addr" where
  "general_tag p = p + 68"

definition all_list_tag :: "addr \<Rightarrow> addr" where
  "all_list_tag p = p + 76"

text \<open>\<open>elem2entry\<close> for the two members.\<close>

definition general_tag_entry :: "addr \<Rightarrow> addr" where
  "general_tag_entry e = e - 68"

definition all_list_tag_entry :: "addr \<Rightarrow> addr" where
  "all_list_tag_entry e = e - 76"

definition rd_task :: "addr \<Rightarrow> 'a kstate_scheme \<Rightarrow> task_struct option" where
  "rd_task p s = (if p = NULL then None else Some (tcb s p))"

definition wr_task :: "addr \<Rightarrow> (task_struct \<Rightarrow> task_struct) \<Rightarrow> 'a kstate_scheme \<Rightarrow> 'a kstate_scheme option" where
  "wr_task p f s = (if p = NULL then None else Some (s\<lparr>tcb := (tcb s)(p := f (tcb s p))\<rparr>))"

definition running_thread :: "'a kstate_scheme \<Rightarrow> addr" where
  "running_thread s = esp s AND 0xfffff000"

definition update_tss_esp :: "addr \<Rightarrow> 'a kstate_scheme \<Rightarrow> 'a kstate_scheme" where
  "update_tss_esp pthread s = s\<lparr>tss_esp0 := pthread + PG_SIZE\<rparr>"

definition page_dir_activate :: "addr \<Rightarrow> 'a kstate_scheme \<Rightarrow> 'a kstate_scheme option" where
  "page_dir_activate p_thread s = do {
     t \<leftarrow> rd_task p_thread s;
     pagedir_phy_addr \<leftarrow> (if pgdir t \<noteq> NULL then addr_v2p (pgdir t) s else Some 0x100000);
     Some (s\<lparr>cr3 := pagedir_phy_addr\<rparr>)
   }"

definition process_activate :: "addr \<Rightarrow> 'a kstate_scheme \<Rightarrow> 'a kstate_scheme option" where
  "process_activate p_thread s = do {
     _ \<leftarrow> ASSERT (p_thread \<noteq> NULL);
     s \<leftarrow> page_dir_activate p_thread s;
     t \<leftarrow> rd_task p_thread s;
     Some (if pgdir t \<noteq> NULL then update_tss_esp p_thread s else s)
   }"

definition switch_to :: "addr \<Rightarrow> addr \<Rightarrow> 'a kstate_scheme \<Rightarrow> 'a kstate_scheme option" where
  "switch_to cur nxt s = do {
     s \<leftarrow> wr_task cur (\<lambda>t. t\<lparr>self_kstack := esp s\<rparr>) s;
     t \<leftarrow> rd_task nxt s;
     Some (s\<lparr>esp := self_kstack t\<rparr>)
   }"

definition is_blocked :: "task_status \<Rightarrow> bool" where
  "is_blocked st \<longleftrightarrow> st = TASK_BLOCKED \<or> st = TASK_WAITING \<or> st = TASK_HANGING"

definition thread_unblock :: "addr \<Rightarrow> 'a kstate_scheme \<Rightarrow> 'a kstate_scheme option" where
  "thread_unblock pthread s =
     (let (old_status, s) = intr_disable s in do {
        t \<leftarrow> rd_task pthread s;
        _ \<leftarrow> ASSERT (is_blocked (status t));
        s \<leftarrow> (if status t \<noteq> TASK_READY then do {
            found \<leftarrow> elem_find (thread_ready_list s) (general_tag pthread) s;
            _ \<leftarrow> ASSERT (\<not> found);
            s \<leftarrow> list_push (thread_ready_list s) (general_tag pthread) s;
            wr_task pthread (\<lambda>t. t\<lparr>status := TASK_READY\<rparr>) s
          } else Some s);
        Some (snd (intr_set_status old_status s))
      })"

text \<open>\<open>schedule\<close> in three parts: a thread whose time slice ended goes back to the queue; the idle
  thread is woken when the queue is empty; the head of the queue is switched in.\<close>

definition schedule_requeue :: "addr \<Rightarrow> 'a kstate_scheme \<Rightarrow> 'a kstate_scheme option" where
  "schedule_requeue cur s = do {
     t \<leftarrow> rd_task cur s;
     if status t = TASK_RUNNING then do {
       found \<leftarrow> elem_find (thread_ready_list s) (general_tag cur) s;
       _ \<leftarrow> ASSERT (\<not> found);
       s \<leftarrow> list_append (thread_ready_list s) (general_tag cur) s;
       wr_task cur (\<lambda>t. t\<lparr>ticks := priority t, status := TASK_READY\<rparr>) s
     } else Some s
   }"

definition schedule_wake_idle :: "'a kstate_scheme \<Rightarrow> 'a kstate_scheme option" where
  "schedule_wake_idle s = do {
     empty \<leftarrow> list_empty (thread_ready_list s) s;
     if empty then thread_unblock (idle_thread s) s else Some s
   }"

definition schedule_dispatch :: "addr \<Rightarrow> 'a kstate_scheme \<Rightarrow> 'a kstate_scheme option" where
  "schedule_dispatch cur s = do {
     empty \<leftarrow> list_empty (thread_ready_list s) s;
     _ \<leftarrow> ASSERT (\<not> empty);
     let s = s\<lparr>thread_tag := NULL\<rparr>;
     (tag, s) \<leftarrow> list_pop (thread_ready_list s) s;
     let s = s\<lparr>thread_tag := tag\<rparr>;
     let nxt = general_tag_entry (thread_tag s);
     s \<leftarrow> wr_task nxt (\<lambda>t. t\<lparr>status := TASK_RUNNING\<rparr>) s;
     s \<leftarrow> process_activate nxt s;
     switch_to cur nxt s
   }"

definition schedule :: "'a kstate_scheme \<Rightarrow> 'a kstate_scheme option" where
  "schedule s = do {
     _ \<leftarrow> ASSERT (intr_get_status s = INTR_OFF);
     let cur = running_thread s;
     s \<leftarrow> schedule_requeue cur s;
     s \<leftarrow> schedule_wake_idle s;
     schedule_dispatch cur s
   }"

definition thread_yield :: "'a kstate_scheme \<Rightarrow> (intr_status \<times> 'a kstate_scheme) option" where
  "thread_yield s =
     (let cur = running_thread s; (old_status, s) = intr_disable s in do {
        found \<leftarrow> elem_find (thread_ready_list s) (general_tag cur) s;
        _ \<leftarrow> ASSERT (\<not> found);
        s \<leftarrow> list_append (thread_ready_list s) (general_tag cur) s;
        s \<leftarrow> wr_task cur (\<lambda>t. t\<lparr>status := TASK_READY\<rparr>) s;
        s \<leftarrow> schedule s;
        Some (old_status, s)
      })"

definition thread_block :: "task_status \<Rightarrow> 'a kstate_scheme \<Rightarrow> (intr_status \<times> 'a kstate_scheme) option" where
  "thread_block stat s = do {
     _ \<leftarrow> ASSERT (is_blocked stat);
     let (old_status, s) = intr_disable s in do {
       s \<leftarrow> wr_task (running_thread s) (\<lambda>t. t\<lparr>status := stat\<rparr>) s;
       s \<leftarrow> schedule s;
       Some (old_status, s)
     }
   }"

text \<open>What a thread does first when it is switched in again inside \<open>thread_block\<close> or
  \<open>thread_yield\<close>, and when it is switched in for the first time.\<close>

definition resume_intr :: "intr_status \<Rightarrow> 'a kstate_scheme \<Rightarrow> 'a kstate_scheme" where
  "resume_intr old_status s = snd (intr_set_status old_status s)"

definition kernel_thread :: "'a kstate_scheme \<Rightarrow> 'a kstate_scheme" where
  "kernel_thread s = snd (intr_enable s)"

text \<open>A pass of the endless loop of \<open>idle\<close>: up to the switch, and after it, where \<open>hlt\<close> waits for the next interrupt.\<close>

definition idle_pass :: "'a kstate_scheme \<Rightarrow> (intr_status \<times> 'a kstate_scheme) option" where
  "idle_pass s = thread_block TASK_BLOCKED s"

definition idle_resume :: "intr_status \<Rightarrow> 'a kstate_scheme \<Rightarrow> 'a kstate_scheme" where
  "idle_resume old_status s = (let s = resume_intr old_status s in s\<lparr>eflags := eflags s OR EFLAGS_IF\<rparr>)"

subsection \<open>The invariant\<close>

text \<open>
  \<open>T\<close> is the set of the addresses of live task structures and \<open>dirs p\<close> the page directory the
  processor uses for thread \<open>p\<close>. The page directory of a user process lies in kernel memory, so
  its address translates to the same frame under the directory of every thread.
\<close>

definition tasks_ok :: "(addr \<Rightarrow> u32) \<Rightarrow> addr set \<Rightarrow> 'a kstate_scheme \<Rightarrow> bool" where
  "tasks_ok dirs T s \<longleftrightarrow> (\<forall>p \<in> T.
     p \<noteq> NULL \<and> page_of p = p \<and> linkable (thread_ready_list s) (general_tag p) \<and>
     (p \<noteq> running_thread s \<longrightarrow> page_of (self_kstack (tcb s p)) = p) \<and>
     (if pgdir (tcb s p) = NULL then dirs p = 0x100000
      else \<forall>q \<in> T. addr_v2p (pgdir (tcb s p)) (s\<lparr>cr3 := dirs q\<rparr>) = Some (dirs p)))"

definition ready_queue :: "'a kstate_scheme \<Rightarrow> addr list \<Rightarrow> bool" where
  "ready_queue s rl \<longleftrightarrow> dlist s (thread_ready_list s) (map general_tag rl)"

definition sched_inv :: "(addr \<Rightarrow> u32) \<Rightarrow> addr set \<Rightarrow> addr list \<Rightarrow> 'a kstate_scheme \<Rightarrow> bool" where
  "sched_inv dirs T rl s \<longleftrightarrow>
     tasks_ok dirs T s \<and> ready_queue s rl \<and> set rl \<subseteq> T \<and>
     running_thread s \<in> T \<and> idle_thread s \<in> T \<and> cr3 s = dirs (running_thread s) \<and>
     (\<forall>p \<in> set rl. status (tcb s p) = TASK_READY) \<and>
     (idle_thread s \<in> set rl \<or> is_blocked (status (tcb s (idle_thread s))) \<or>
      idle_thread s = running_thread s \<and> status (tcb s (idle_thread s)) = TASK_RUNNING)"

text \<open>The choice \<open>schedule\<close> makes: the new head and the rest of the queue.\<close>

definition pick_next :: "'a kstate_scheme \<Rightarrow> addr list \<Rightarrow> addr \<times> addr list" where
  "pick_next s rl =
     (let cur = running_thread s;
          q = (if status (tcb s cur) = TASK_RUNNING then rl @ [cur] else rl)
      in case q of [] \<Rightarrow> (idle_thread s, []) | p # q' \<Rightarrow> (p, q'))"

subsection \<open>Lemmas\<close>

lemma running_thread_page: "running_thread s = page_of (esp s)"
  by (simp add: running_thread_def page_of_def)

lemma general_tag_entry_tag [simp]: "general_tag_entry (general_tag p) = p"
  by (simp add: general_tag_entry_def general_tag_def)

lemma all_list_tag_entry_tag [simp]: "all_list_tag_entry (all_list_tag p) = p"
  by (simp add: all_list_tag_entry_def all_list_tag_def)

lemma general_tag_inj [simp]: "general_tag p = general_tag q \<longleftrightarrow> p = q"
  by (simp add: general_tag_def)

lemma all_list_tag_inj [simp]: "all_list_tag p = all_list_tag q \<longleftrightarrow> p = q"
  by (simp add: all_list_tag_def)

lemma dlist_kstate_update [simp]:
  "dlist (s\<lparr>tcb := t\<rparr>) p xs = dlist s p xs"
  "dlist (s\<lparr>esp := e\<rparr>) p xs = dlist s p xs"
  "dlist (s\<lparr>thread_tag := g\<rparr>) p xs = dlist s p xs"
  "dlist (s\<lparr>tss_esp0 := e\<rparr>) p xs = dlist s p xs"
  "dlist (s\<lparr>idle_thread := a\<rparr>) p xs = dlist s p xs"
  "dlist (s\<lparr>main_thread := a\<rparr>) p xs = dlist s p xs"
  by (rule dlist_cong; simp)+

lemma dlist_low_update [simp]:
  "dlist (h\<lparr>cr3 := c\<rparr>) p xs = dlist h p xs"
  "dlist (h\<lparr>pmem := m\<rparr>) p xs = dlist h p xs"
  by (rule dlist_cong; simp)+

lemma dlist_eflags_update [simp]: "dlist (h\<lparr>eflags := e\<rparr>) p xs = dlist h p xs"
  by (rule dlist_cong) simp_all

text \<open>What the scheduler never changes, and what only the switch changes.\<close>

definition same_env :: "'a kstate_scheme \<Rightarrow> 'a kstate_scheme \<Rightarrow> bool" where
  "same_env s s' \<longleftrightarrow>
     outs s' = outs s \<and> eflags s' = eflags s \<and> pmem s' = pmem s \<and> main_thread s' = main_thread s \<and>
     idle_thread s' = idle_thread s \<and> thread_ready_list s' = thread_ready_list s \<and>
     thread_all_list s' = thread_all_list s \<and> kstate.more s' = kstate.more s"

definition same_cpu :: "'a kstate_scheme \<Rightarrow> 'a kstate_scheme \<Rightarrow> bool" where
  "same_cpu s s' \<longleftrightarrow> esp s' = esp s \<and> cr3 s' = cr3 s \<and> tss_esp0 s' = tss_esp0 s \<and> thread_tag s' = thread_tag s"

definition tag_nodes :: "'a kstate_scheme \<Rightarrow> addr set \<Rightarrow> addr set" where
  "tag_nodes s P = {list_head (thread_ready_list s), list_tail (thread_ready_list s)} \<union> general_tag ` P"

lemma same_env_trans: "same_env s s' \<Longrightarrow> same_env s' s'' \<Longrightarrow> same_env s s''"
  by (simp add: same_env_def)

lemma same_cpu_trans: "same_cpu s s' \<Longrightarrow> same_cpu s' s'' \<Longrightarrow> same_cpu s s''"
  by (simp add: same_cpu_def)

lemma same_env_refl [simp]: "same_env s s" and same_cpu_refl [simp]: "same_cpu s s"
  by (simp_all add: same_env_def same_cpu_def)

lemma tag_nodes_same: "same_env s s' \<Longrightarrow> tag_nodes s' P = tag_nodes s P"
  by (simp add: tag_nodes_def same_env_def)

lemma tag_nodes_mono: "P \<subseteq> Q \<Longrightarrow> tag_nodes s P \<subseteq> tag_nodes s Q"
  by (auto simp: tag_nodes_def)

lemma nodes_tag_nodes: "set (nodes (thread_ready_list s) (map general_tag rl)) = tag_nodes s (set rl)"
  by (auto simp: nodes_def tag_nodes_def)

subsection \<open>The ready queue\<close>

lemma ready_queue_transfer:
  assumes "ready_queue s rl" "next_of s' = next_of s" "prev_of s' = prev_of s"
    "thread_ready_list s' = thread_ready_list s"
  shows "ready_queue s' rl"
  using assms dlist_cong [of s' s] by (simp add: ready_queue_def)

lemma ready_queue_update [simp]:
  "ready_queue (s\<lparr>tcb := t\<rparr>) rl = ready_queue s rl"
  "ready_queue (s\<lparr>esp := e\<rparr>) rl = ready_queue s rl"
  "ready_queue (s\<lparr>thread_tag := g\<rparr>) rl = ready_queue s rl"
  "ready_queue (s\<lparr>tss_esp0 := e\<rparr>) rl = ready_queue s rl"
  by (simp_all add: ready_queue_def)

lemma ready_queue_low_update [simp]:
  "ready_queue (s\<lparr>cr3 := c\<rparr>) rl = ready_queue s rl"
  "ready_queue (s\<lparr>pmem := m\<rparr>) rl = ready_queue s rl"
  "ready_queue (s\<lparr>eflags := e\<rparr>) rl = ready_queue s rl"
  by (simp_all add: ready_queue_def)

lemma ready_queue_empty: "ready_queue s rl \<Longrightarrow> list_empty (thread_ready_list s) s = Some (rl = [])"
  using dlist_empty unfolding ready_queue_def by fastforce

lemma ready_queue_find: "ready_queue s rl \<Longrightarrow> elem_find (thread_ready_list s) (general_tag p) s = Some (p \<in> set rl)"
  using dlist_elem_find [of s "thread_ready_list s" "map general_tag rl" "general_tag p"]
  unfolding ready_queue_def by (auto simp: image_iff)

lemma ready_queue_distinct: "ready_queue s rl \<Longrightarrow> distinct rl"
  unfolding ready_queue_def dlist_def nodes_def by (auto simp: distinct_map)

text \<open>A list operation changes the links of its own list and nothing else of the state.\<close>

lemma only_links_same_state:
  assumes "only_links (set (nodes (thread_ready_list s) (map general_tag rl))) s s'"
  shows "same_env s s' \<and> same_cpu s s' \<and> tcb s' = tcb s \<and> links_same (tag_nodes s (set rl)) s s'"
proof -
  obtain n v where "s' = s\<lparr>next_of := n, prev_of := v\<rparr>" using only_links_update [OF assms] by blast
  then show ?thesis
    using only_links_same [OF assms] by (simp add: same_env_def same_cpu_def nodes_tag_nodes)
qed

lemma ready_queue_append:
  assumes "ready_queue s rl" "linkable (thread_ready_list s) (general_tag p)" "p \<notin> set rl"
  shows "\<exists>s'. list_append (thread_ready_list s) (general_tag p) s = Some s' \<and> ready_queue s' (rl @ [p]) \<and>
    same_env s s' \<and> same_cpu s s' \<and> tcb s' = tcb s \<and> links_same (tag_nodes s (insert p (set rl))) s s'"
proof -
  have "general_tag p \<notin> set (map general_tag rl)" using assms(3) by auto
  then obtain s' where s': "list_append (thread_ready_list s) (general_tag p) s = Some s'"
      "dlist s' (thread_ready_list s) (map general_tag (rl @ [p]))"
      "only_links (set (nodes (thread_ready_list s) (map general_tag (rl @ [p])))) s s'"
    using dlist_append assms(1,2) unfolding ready_queue_def by fastforce
  then show ?thesis
    using only_links_same_state [OF s'(3)] by (auto simp: ready_queue_def same_env_def)
qed

lemma ready_queue_push:
  assumes "ready_queue s rl" "linkable (thread_ready_list s) (general_tag p)" "p \<notin> set rl"
  shows "\<exists>s'. list_push (thread_ready_list s) (general_tag p) s = Some s' \<and> ready_queue s' (p # rl) \<and>
    same_env s s' \<and> same_cpu s s' \<and> tcb s' = tcb s \<and> links_same (tag_nodes s (insert p (set rl))) s s'"
proof -
  have "general_tag p \<notin> set (map general_tag rl)" using assms(3) by auto
  then obtain s' where s': "list_push (thread_ready_list s) (general_tag p) s = Some s'"
      "dlist s' (thread_ready_list s) (map general_tag (p # rl))"
      "only_links (set (nodes (thread_ready_list s) (map general_tag (p # rl)))) s s'"
    using dlist_push assms(1,2) unfolding ready_queue_def by fastforce
  then show ?thesis
    using only_links_same_state [OF s'(3)] by (auto simp: ready_queue_def same_env_def)
qed

lemma ready_queue_pop:
  assumes "ready_queue s (p # rl)"
  shows "\<exists>s'. list_pop (thread_ready_list s) s = Some (general_tag p, s') \<and> ready_queue s' rl \<and>
    same_env s s' \<and> same_cpu s s' \<and> tcb s' = tcb s \<and> links_same (tag_nodes s (insert p (set rl))) s s'"
proof -
  obtain s' where s': "list_pop (thread_ready_list s) s = Some (general_tag p, s')"
      "dlist s' (thread_ready_list s) (map general_tag rl)"
      "only_links (set (nodes (thread_ready_list s) (map general_tag (p # rl)))) s s'"
    using dlist_pop [of s "thread_ready_list s" "general_tag p" "map general_tag rl"] assms
    unfolding ready_queue_def by auto
  then show ?thesis
    using only_links_same_state [OF s'(3)] by (auto simp: ready_queue_def same_env_def)
qed

text \<open>Making a blocked thread ready puts it at the head of the queue.\<close>

lemma thread_unblock_queue:
  assumes q: "ready_queue s rl" and p: "p \<noteq> NULL" "linkable (thread_ready_list s) (general_tag p)"
    and b: "is_blocked (status (tcb s p))" "p \<notin> set rl"
  shows "\<exists>s'. thread_unblock p s = Some s' \<and> ready_queue s' (p # rl) \<and>
    tcb s' = (tcb s)(p := (tcb s p)\<lparr>status := TASK_READY\<rparr>) \<and>
    same_env s s' \<and> same_cpu s s' \<and> links_same (tag_nodes s (insert p (set rl))) s s'"
proof -
  let ?d = "s\<lparr>eflags := eflags s AND NOT EFLAGS_IF\<rparr>"
  have q': "ready_queue ?d rl" using q by simp
  obtain d' where d': "list_push (thread_ready_list ?d) (general_tag p) ?d = Some d'" "ready_queue d' (p # rl)"
      "same_env ?d d'" "same_cpu ?d d'" "tcb d' = tcb ?d" "links_same (tag_nodes ?d (insert p (set rl))) ?d d'"
    using ready_queue_push [OF q', of p] p(2) b(2) by auto
  let ?s' = "d'\<lparr>tcb := (tcb s)(p := (tcb s p)\<lparr>status := TASK_READY\<rparr>), eflags := eflags s\<rparr>"
  have "\<not> status (tcb s p) = TASK_READY" "eflags d' = eflags s AND NOT EFLAGS_IF"
    using b(1) d'(3) by (auto simp: is_blocked_def same_env_def)
  then have "thread_unblock p s = Some ?s'"
    using d'(1,5) b p(1) ready_queue_find [OF q', of p]
    by (simp add: thread_unblock_def intr_disable_eq rd_task_def wr_task_def intr_restore_eq)
  moreover have "same_env s ?s'" "same_cpu s ?s'" "links_same (tag_nodes s (insert p (set rl))) s ?s'"
    using d'(3,4,6) by (simp_all add: same_env_def same_cpu_def links_same_def tag_nodes_def)
  ultimately show ?thesis using d'(2) by auto
qed

subsection \<open>The three parts of \<open>schedule\<close>\<close>

definition slice_over :: "task_struct \<Rightarrow> task_struct" where
  "slice_over t = t\<lparr>ticks := priority t, status := TASK_READY\<rparr>"

definition requeue :: "'a kstate_scheme \<Rightarrow> addr list \<Rightarrow> addr list" where
  "requeue s rl = (if status (tcb s (running_thread s)) = TASK_RUNNING then rl @ [running_thread s] else rl)"

definition requeue_tcb :: "'a kstate_scheme \<Rightarrow> addr \<Rightarrow> task_struct" where
  "requeue_tcb s =
     (let cur = running_thread s in
      if status (tcb s cur) = TASK_RUNNING then (tcb s)(cur := slice_over (tcb s cur)) else tcb s)"

text \<open>The task structures after \<open>schedule\<close> chose \<open>nxt\<close>.\<close>

definition switched_tcb :: "'a kstate_scheme \<Rightarrow> addr \<Rightarrow> addr \<Rightarrow> task_struct" where
  "switched_tcb s nxt =
     (let cur = running_thread s;
          t1 = requeue_tcb s;
          t2 = t1(nxt := (t1 nxt)\<lparr>status := TASK_RUNNING\<rparr>)
      in t2(cur := (t2 cur)\<lparr>self_kstack := esp s\<rparr>))"

lemma schedule_requeue_queue:
  assumes inv: "sched_inv dirs T rl s"
  shows "\<exists>s'. schedule_requeue (running_thread s) s = Some s' \<and> ready_queue s' (requeue s rl) \<and>
    tcb s' = requeue_tcb s \<and> same_env s s' \<and> same_cpu s s' \<and>
    links_same (tag_nodes s (set (requeue s rl))) s s'"
proof (cases "status (tcb s (running_thread s)) = TASK_RUNNING")
  case True
  let ?cur = "running_thread s"
  have cur: "?cur \<notin> set rl" "linkable (thread_ready_list s) (general_tag ?cur)" "?cur \<noteq> NULL"
    and q: "ready_queue s rl"
    using inv True by (auto simp: sched_inv_def tasks_ok_def)
  obtain s1 where s1: "list_append (thread_ready_list s) (general_tag ?cur) s = Some s1"
      "ready_queue s1 (rl @ [?cur])" "same_env s s1" "same_cpu s s1" "tcb s1 = tcb s"
      "links_same (tag_nodes s (insert ?cur (set rl))) s s1"
    using ready_queue_append [OF q cur(2,1)] by blast
  then show ?thesis
    using True cur ready_queue_find [OF q, of ?cur]
    by (auto simp: schedule_requeue_def rd_task_def requeue_def requeue_tcb_def wr_task_def slice_over_def
        Let_def same_env_def same_cpu_def links_same_def)
next
  case False
  have "running_thread s \<noteq> NULL" "ready_queue s rl"
    using inv by (auto simp: sched_inv_def tasks_ok_def)
  then show ?thesis
    using False by (simp add: schedule_requeue_def rd_task_def requeue_def requeue_tcb_def)
qed

lemma schedule_wake_idle_queue:
  assumes q: "ready_queue s q"
    and idle: "q = [] \<Longrightarrow> is_blocked (status (tcb s (idle_thread s))) \<and> idle_thread s \<noteq> NULL \<and>
      linkable (thread_ready_list s) (general_tag (idle_thread s))"
  shows "\<exists>s'. schedule_wake_idle s = Some s' \<and>
    ready_queue s' (if q = [] then [idle_thread s] else q) \<and>
    tcb s' = (if q = [] then (tcb s)(idle_thread s := (tcb s (idle_thread s))\<lparr>status := TASK_READY\<rparr>)
      else tcb s) \<and>
    same_env s s' \<and> same_cpu s s' \<and>
    links_same (tag_nodes s (set (if q = [] then [idle_thread s] else q))) s s'"
  using thread_unblock_queue [of s "[]" "idle_thread s"] idle q ready_queue_empty [OF q]
  by (cases "q = []") (auto simp: schedule_wake_idle_def)

lemma process_activate_eq:
  assumes "tasks_ok dirs T s" "p \<in> T" "q \<in> T" "cr3 s' = dirs q"
    "pmem s' = pmem s" "pgdir (tcb s' p) = pgdir (tcb s p)"
  shows "process_activate p s' = Some (s'\<lparr>cr3 := dirs p,
      tss_esp0 := if pgdir (tcb s p) = NULL then tss_esp0 s' else p + PG_SIZE\<rparr>)"
proof -
  have p: "p \<noteq> NULL" "pgdir (tcb s p) = NULL \<Longrightarrow> dirs p = 0x100000"
      "pgdir (tcb s p) \<noteq> NULL \<Longrightarrow> addr_v2p (pgdir (tcb s p)) (s\<lparr>cr3 := dirs q\<rparr>) = Some (dirs p)"
    using assms(1-3) unfolding tasks_ok_def by (auto split: if_splits)
  have "addr_v2p x s' = addr_v2p x (s\<lparr>cr3 := dirs q\<rparr>)" for x
    using assms(4,5) by (simp add: addr_v2p_def load32_def)
  then show ?thesis
    using p assms(6)
    by (simp add: process_activate_def page_dir_activate_def rd_task_def update_tss_esp_def)
qed

lemma schedule_dispatch_queue:
  assumes tok: "tasks_ok dirs T s0" and T: "nxt \<in> T" "p \<in> T" and cur: "cur \<noteq> NULL"
    and q: "ready_queue s (nxt # rl)" and c3: "cr3 s = dirs p" and same: "same_env s0 s"
    and pg: "pgdir (tcb s nxt) = pgdir (tcb s0 nxt)"
  shows "\<exists>s'. schedule_dispatch cur s = Some s' \<and> ready_queue s' rl \<and> same_env s s' \<and>
    thread_tag s' = general_tag nxt \<and> cr3 s' = dirs nxt \<and>
    tss_esp0 s' = (if pgdir (tcb s nxt) = NULL then tss_esp0 s else nxt + PG_SIZE) \<and>
    tcb s' = (let t = (tcb s)(nxt := (tcb s nxt)\<lparr>status := TASK_RUNNING\<rparr>)
              in t(cur := (t cur)\<lparr>self_kstack := esp s\<rparr>)) \<and>
    esp s' = (if nxt = cur then esp s else self_kstack (tcb s nxt)) \<and>
    links_same (tag_nodes s (insert nxt (set rl))) s s'"
proof -
  let ?s = "s\<lparr>thread_tag := NULL\<rparr>"
  obtain s1 where s1: "list_pop (thread_ready_list ?s) ?s = Some (general_tag nxt, s1)" "ready_queue s1 rl"
      "same_env ?s s1" "same_cpu ?s s1" "tcb s1 = tcb ?s" "links_same (tag_nodes ?s (insert nxt (set rl))) ?s s1"
    using ready_queue_pop [of ?s nxt rl] q by auto
  let ?s3 = "s1\<lparr>thread_tag := general_tag nxt, tcb := (tcb s)(nxt := (tcb s nxt)\<lparr>status := TASK_RUNNING\<rparr>)\<rparr>"
  have "process_activate nxt ?s3 = Some (?s3\<lparr>cr3 := dirs nxt,
      tss_esp0 := if pgdir (tcb s0 nxt) = NULL then tss_esp0 ?s3 else nxt + PG_SIZE\<rparr>)"
    using s1(3,4) same c3 pg by (intro process_activate_eq [OF tok T]) (simp_all add: same_env_def same_cpu_def)
  moreover have "nxt \<noteq> NULL" using tok T(1) by (auto simp: tasks_ok_def)
  ultimately show ?thesis
    using s1 cur ready_queue_empty [OF q] pg
    by (auto simp: schedule_dispatch_def wr_task_def rd_task_def switch_to_def Let_def links_same_def
        same_env_def same_cpu_def tag_nodes_def)
qed

lemma schedule_result:
  assumes inv: "sched_inv dirs T rl s" and off: "intr_get_status s = INTR_OFF"
    and pick: "pick_next s rl = (nxt, rl')"
  shows "nxt \<in> T \<and> (\<exists>s'. schedule s = Some s' \<and> ready_queue s' rl' \<and> same_env s s' \<and>
    thread_tag s' = general_tag nxt \<and> cr3 s' = dirs nxt \<and>
    tss_esp0 s' = (if pgdir (tcb s nxt) = NULL then tss_esp0 s else nxt + PG_SIZE) \<and>
    tcb s' = switched_tcb s nxt \<and>
    esp s' = (if nxt = running_thread s then esp s else self_kstack (tcb s nxt)) \<and>
    links_same (tag_nodes s (set (nxt # rl'))) s s')"
proof -
  let ?cur = "running_thread s" and ?q = "requeue s rl"
  let ?N = "tag_nodes s (set (nxt # rl'))"
  have T: "?cur \<in> T" "idle_thread s \<in> T" "set rl \<subseteq> T" and tok: "tasks_ok dirs T s"
    and c3: "cr3 s = dirs ?cur"
    using inv by (auto simp: sched_inv_def)
  have nq: "nxt # rl' = (if ?q = [] then [idle_thread s] else ?q)"
    using pick by (auto simp: pick_next_def requeue_def Let_def split: if_splits list.splits)
  have qs: "set ?q \<subseteq> insert ?cur (set rl)" by (auto simp: requeue_def)
  have "set (nxt # rl') \<subseteq> T" unfolding nq using T qs by auto
  then have nT: "nxt \<in> T" by simp
  have cur: "?cur \<noteq> NULL" using tok T(1) by (auto simp: tasks_ok_def)
  obtain s1 where s1: "schedule_requeue ?cur s = Some s1" "ready_queue s1 ?q" "tcb s1 = requeue_tcb s"
    "same_env s s1" "same_cpu s s1" "links_same (tag_nodes s (set ?q)) s s1"
    using schedule_requeue_queue [OF inv] by blast
  have idle_eq: "idle_thread s1 = idle_thread s" using s1(4) by (simp add: same_env_def)
  have idle: "is_blocked (status (tcb s1 (idle_thread s1))) \<and> idle_thread s1 \<noteq> NULL \<and>
      linkable (thread_ready_list s1) (general_tag (idle_thread s1))" if "?q = []"
    using inv that s1(3,4) tok T(2)
    by (auto simp: sched_inv_def requeue_def requeue_tcb_def Let_def same_env_def tasks_ok_def split: if_splits)
  obtain s2 where s2: "schedule_wake_idle s1 = Some s2" "ready_queue s2 (nxt # rl')"
    "tcb s2 = (if ?q = [] then (tcb s1)(idle_thread s1 := (tcb s1 (idle_thread s1))\<lparr>status := TASK_READY\<rparr>)
      else tcb s1)"
    "same_env s1 s2" "same_cpu s1 s2" "links_same (tag_nodes s1 (set (nxt # rl'))) s1 s2"
    using schedule_wake_idle_queue [OF s1(2) idle] unfolding idle_eq nq by blast
  have t2: "(tcb s2)(nxt := (tcb s2 nxt)\<lparr>status := TASK_RUNNING\<rparr>) =
      (requeue_tcb s)(nxt := (requeue_tcb s nxt)\<lparr>status := TASK_RUNNING\<rparr>)"
    using s2(3) s1(3) nq idle_eq by (auto split: if_splits)
  have pg: "pgdir (tcb s2 nxt) = pgdir (tcb s nxt)" "self_kstack (tcb s2 nxt) = self_kstack (tcb s nxt)"
    using s2(3) s1(3) by (auto simp: requeue_tcb_def slice_over_def Let_def)
  have env: "same_env s s2" "same_cpu s s2"
    using same_env_trans [OF s1(4) s2(4)] same_cpu_trans [OF s1(5) s2(5)] by auto
  obtain s3 where s3: "schedule_dispatch ?cur s2 = Some s3" "ready_queue s3 rl'" "same_env s2 s3"
    "thread_tag s3 = general_tag nxt" "cr3 s3 = dirs nxt"
    "tss_esp0 s3 = (if pgdir (tcb s2 nxt) = NULL then tss_esp0 s2 else nxt + PG_SIZE)"
    "tcb s3 = (let t = (tcb s2)(nxt := (tcb s2 nxt)\<lparr>status := TASK_RUNNING\<rparr>)
              in t(?cur := (t ?cur)\<lparr>self_kstack := esp s2\<rparr>))"
    "esp s3 = (if nxt = ?cur then esp s2 else self_kstack (tcb s2 nxt))"
    "links_same (tag_nodes s2 (insert nxt (set rl'))) s2 s3"
    using schedule_dispatch_queue [OF tok nT T(1) cur s2(2) _ env(1) pg(1)] env(2) c3
    by (auto simp: same_cpu_def)
  have "set ?q \<subseteq> set (nxt # rl')" unfolding nq by auto
  then have links: "links_same ?N s s1" "links_same ?N s1 s2" "links_same ?N s2 s3"
    using s1(6) s2(6) s3(9) tag_nodes_same [OF s1(4)] tag_nodes_same [OF env(1)]
    by (auto elim!: links_same_mono intro!: tag_nodes_mono)
  have links: "links_same ?N s s3"
    using links_same_trans [OF links_same_trans [OF links(1,2)] links(3)] by simp
  have "schedule s = Some s3" using off s1(1) s2(1) s3(1) by (simp add: schedule_def Let_def)
  moreover have "tcb s3 = switched_tcb s nxt"
    using s3(7) t2 env(2) by (simp add: switched_tcb_def Let_def same_cpu_def)
  ultimately show ?thesis
    using nT s3 env pg links same_env_trans [OF env(1) s3(3)] by (auto simp: same_cpu_def)
qed

subsection \<open>The invariant is kept\<close>

lemma running_thread_cong: "esp s' = esp s \<Longrightarrow> running_thread s' = running_thread s"
  by (simp add: running_thread_def)

text \<open>The part of a task structure by which processes and their parents find each other.\<close>

definition kin :: "task_struct \<Rightarrow> u16 \<times> u16 \<times> u8 \<times> addr" where
  "kin t = (pid t, parent_pid t, exit_status t, pgdir t)"

lemma kin_update [simp]: "kin (t\<lparr>status := v\<rparr>) = kin t" "kin (t\<lparr>self_kstack := k\<rparr>) = kin t"
  by (simp_all add: kin_def)

lemma switched_tcb_kin: "kin (switched_tcb s nxt p) = kin (tcb s p)"
  by (simp add: switched_tcb_def requeue_tcb_def slice_over_def Let_def kin_def)

lemma switched_tcb_fields:
  "pgdir (switched_tcb s nxt p) = pgdir (tcb s p)"
  "self_kstack (switched_tcb s nxt p) = (if p = running_thread s then esp s else self_kstack (tcb s p))"
  "status (switched_tcb s nxt p) =
    (if p = nxt then TASK_RUNNING
     else if p = running_thread s \<and> status (tcb s p) = TASK_RUNNING then TASK_READY else status (tcb s p))"
  by (auto simp: switched_tcb_def requeue_tcb_def slice_over_def Let_def)

lemma schedule_inv [wf]:
  assumes inv: "sched_inv dirs T rl s" and off: "intr_get_status s = INTR_OFF"
    and pick: "pick_next s rl = (nxt, rl')"
  shows "\<exists>s'. schedule s = Some s' \<and> sched_inv dirs T rl' s' \<and> running_thread s' = nxt \<and>
    tcb s' = switched_tcb s nxt \<and> same_env s s' \<and>
    links_same (tag_nodes s (set (nxt # rl'))) s s'"
proof -
  let ?cur = "running_thread s"
  obtain s' where s': "schedule s = Some s'" "ready_queue s' rl'" "same_env s s'" "cr3 s' = dirs nxt"
    "tcb s' = switched_tcb s nxt" "esp s' = (if nxt = ?cur then esp s else self_kstack (tcb s nxt))"
    "links_same (tag_nodes s (set (nxt # rl'))) s s'" and nT: "nxt \<in> T"
    using schedule_result [OF assms] by blast
  have tok: "tasks_ok dirs T s" and rl: "set rl \<subseteq> T" "?cur \<in> T" "idle_thread s \<in> T"
      "\<forall>p \<in> set rl. status (tcb s p) = TASK_READY"
    using inv by (auto simp: sched_inv_def)
  have run: "running_thread s' = nxt"
    using s'(6) tok nT by (auto simp: running_thread_page tasks_ok_def)
  have q: "nxt # rl' = (if requeue s rl = [] then [idle_thread s] else requeue s rl)"
    using pick by (auto simp: pick_next_def requeue_def Let_def split: if_splits list.splits)
  have dist: "distinct (nxt # rl')"
  proof (cases "requeue s rl = []")
    case False
    have "distinct (requeue s rl)"
      using schedule_requeue_queue [OF inv] ready_queue_distinct by blast
    then show ?thesis using q False by simp
  qed (use q in simp)
  have mem: "p = ?cur \<and> status (tcb s p) = TASK_RUNNING \<or> p \<in> set rl" if "p \<in> set rl'" for p
  proof -
    have "p \<in> set (requeue s rl)" using that q by (auto split: if_splits) (metis list.set_intros(2))
    then show ?thesis by (auto simp: requeue_def split: if_splits)
  qed
  have "tasks_ok dirs T s'"
    using tok s'(3,5) run unfolding tasks_ok_def same_env_def
    by (auto simp: switched_tcb_fields running_thread_page addr_v2p_def load32_def)
  moreover have "\<forall>p \<in> set rl'. status (tcb s' p) = TASK_READY"
    using mem dist rl(4) by (auto simp: s'(5) switched_tcb_fields)
  moreover have "idle_thread s' \<in> set rl' \<or> is_blocked (status (tcb s' (idle_thread s'))) \<or>
      idle_thread s' = running_thread s' \<and> status (tcb s' (idle_thread s')) = TASK_RUNNING"
  proof -
    have id: "idle_thread s' = idle_thread s" using s'(3) by (simp add: same_env_def)
    have st: "idle_thread s \<in> set rl \<or> is_blocked (status (tcb s (idle_thread s))) \<or>
        idle_thread s = ?cur \<and> status (tcb s (idle_thread s)) = TASK_RUNNING"
      using inv by (simp add: sched_inv_def)
    have "idle_thread s \<in> set (nxt # rl')" if "idle_thread s \<in> set rl \<or>
        idle_thread s = ?cur \<and> status (tcb s (idle_thread s)) = TASK_RUNNING"
      unfolding q using that by (auto simp: requeue_def)
    then show ?thesis
      using st run unfolding id s'(5) switched_tcb_fields by (auto simp: is_blocked_def)
  qed
  ultimately show ?thesis
    using s' run nT mem rl by (auto simp: sched_inv_def same_env_def)
qed

text \<open>All that the invariant depends on.\<close>

definition sched_view :: "'a kstate_scheme \<Rightarrow>
    (addr \<Rightarrow> addr) \<times> (addr \<Rightarrow> addr) \<times> (u32 \<Rightarrow> u32) \<times> u32 \<times> u32 \<times> (addr \<Rightarrow> task_struct) \<times> addr \<times> addr" where
  "sched_view s =
     (next_of s, prev_of s, pmem s, cr3 s, esp s, tcb s, idle_thread s, thread_ready_list s)"

lemma sched_inv_view:
  assumes "sched_view s' = sched_view s"
  shows "sched_inv dirs T rl s' = sched_inv dirs T rl s"
proof -
  have v: "next_of s' = next_of s" "prev_of s' = prev_of s" "pmem s' = pmem s" "cr3 s' = cr3 s" "esp s' = esp s"
      "tcb s' = tcb s" "idle_thread s' = idle_thread s" "thread_ready_list s' = thread_ready_list s"
    using assms by (simp_all add: sched_view_def)
  have "ready_queue s' rl = ready_queue s rl"
    unfolding ready_queue_def v(8) by (rule dlist_cong [OF v(1,2)])
  then show ?thesis
    by (simp add: sched_inv_def tasks_ok_def running_thread_def addr_v2p_def load32_def v)
qed

lemma sched_inv_eflags [simp]: "sched_inv dirs T rl (s\<lparr>eflags := e\<rparr>) = sched_inv dirs T rl s"
  by (simp add: sched_inv_def tasks_ok_def running_thread_def addr_v2p_def load32_def)

text \<open>A status change of the running thread alone.\<close>

lemma sched_inv_set_status:
  assumes "sched_inv dirs T rl s" "running_thread s \<notin> set rl" "st \<noteq> TASK_DIED" "is_blocked st"
  shows "sched_inv dirs T rl (s\<lparr>tcb := (tcb s)(running_thread s := (tcb s (running_thread s))\<lparr>status := st\<rparr>)\<rparr>)"
  using assms by (auto simp: sched_inv_def tasks_ok_def running_thread_def addr_v2p_def load32_def)

lemma thread_block_inv [wf]:
  assumes inv: "sched_inv dirs T rl s" and st: "is_blocked st" and cur: "running_thread s \<notin> set rl"
    and nxt: "nxt = (case rl of [] \<Rightarrow> idle_thread s | p # _ \<Rightarrow> p)"
  shows "\<exists>s'. thread_block st s = Some (intr_get_status s, s') \<and> sched_inv dirs T (tl rl) s' \<and>
    running_thread s' = nxt \<and> intr_get_status s' = INTR_OFF \<and> (\<forall>p. kin (tcb s' p) = kin (tcb s p)) \<and>
    (\<forall>p. status (tcb s' p) = (if p = nxt then TASK_RUNNING else if p = running_thread s then st else status (tcb s p))) \<and>
    same_env (s\<lparr>eflags := eflags s AND NOT EFLAGS_IF\<rparr>) s' \<and>
    links_same (tag_nodes s (set (nxt # tl rl))) s s'"
proof -
  let ?cur = "running_thread s"
  let ?d = "s\<lparr>eflags := eflags s AND NOT EFLAGS_IF, tcb := (tcb s)(?cur := (tcb s ?cur)\<lparr>status := st\<rparr>)\<rparr>"
  have st': "st \<noteq> TASK_DIED" "st \<noteq> TASK_RUNNING" using st by (auto simp: is_blocked_def)
  have run: "running_thread ?d = ?cur" by (simp add: running_thread_def)
  have inv': "sched_inv dirs T rl ?d"
    using sched_inv_set_status [of dirs T rl "s\<lparr>eflags := eflags s AND NOT EFLAGS_IF\<rparr>" st] inv cur st st'
    by (simp add: running_thread_def)
  have off: "intr_get_status ?d = INTR_OFF" by (simp add: intr_get_status_bit bit_simps)
  have pick: "pick_next ?d rl = (nxt, tl rl)"
    using nxt st' by (simp add: pick_next_def run split: list.splits)
  obtain s' where s': "schedule ?d = Some s'" "sched_inv dirs T (tl rl) s'" "running_thread s' = nxt"
      "tcb s' = switched_tcb ?d nxt" "same_env ?d s'"
      "links_same (tag_nodes ?d (set (nxt # tl rl))) ?d s'"
    using schedule_inv [OF inv' off pick] by blast
  have "?cur \<noteq> NULL" using inv by (auto simp: sched_inv_def tasks_ok_def)
  then have "thread_block st s = Some (intr_get_status s, s')"
    using s'(1) st by (simp add: thread_block_def intr_disable_eq wr_task_def running_thread_def)
  moreover have "intr_get_status s' = INTR_OFF" using s'(5) off by (simp add: same_env_def intr_get_status_def)
  moreover have "\<forall>p. status (tcb s' p) =
      (if p = nxt then TASK_RUNNING else if p = ?cur then st else status (tcb s p))"
    unfolding s'(4) switched_tcb_fields run using st' by auto
  moreover have "\<forall>p. kin (tcb s' p) = kin (tcb s p)" unfolding s'(4) switched_tcb_kin by simp
  ultimately show ?thesis
    using s'(2,3,5,6) by (auto simp: same_env_def links_same_def tag_nodes_def run)
qed

lemma thread_unblock_inv [wf]:
  assumes inv: "sched_inv dirs T rl s" and p: "p \<in> T" "is_blocked (status (tcb s p))"
  shows "\<exists>s'. thread_unblock p s = Some s' \<and> sched_inv dirs T (p # rl) s' \<and>
    tcb s' = (tcb s)(p := (tcb s p)\<lparr>status := TASK_READY\<rparr>) \<and>
    same_env s s' \<and> same_cpu s s' \<and> links_same (tag_nodes s (insert p (set rl))) s s'"
proof -
  have q: "ready_queue s rl" "p \<noteq> NULL" "linkable (thread_ready_list s) (general_tag p)"
    using inv p(1) by (auto simp: sched_inv_def tasks_ok_def)
  have "p \<notin> set rl" using inv p(2) by (auto simp: sched_inv_def is_blocked_def)
  then obtain s' where s': "thread_unblock p s = Some s'" "ready_queue s' (p # rl)"
      "tcb s' = (tcb s)(p := (tcb s p)\<lparr>status := TASK_READY\<rparr>)" "same_env s s'" "same_cpu s s'"
      "links_same (tag_nodes s (insert p (set rl))) s s'"
    using thread_unblock_queue [OF q(1-3) p(2)] by blast
  have "running_thread s' = running_thread s" using s'(5) by (simp add: same_cpu_def running_thread_def)
  then have "sched_inv dirs T (p # rl) s'"
    using inv p(1) s'(2-5)
    by (auto simp: sched_inv_def tasks_ok_def same_env_def same_cpu_def addr_v2p_def load32_def)
  then show ?thesis using s' by blast
qed

lemma thread_yield_inv [wf]:
  assumes inv: "sched_inv dirs T rl s" and cur: "status (tcb s (running_thread s)) = TASK_RUNNING"
  shows "\<exists>s'. thread_yield s = Some (intr_get_status s, s') \<and>
    sched_inv dirs T (tl (rl @ [running_thread s])) s' \<and>
    running_thread s' = hd (rl @ [running_thread s]) \<and> intr_get_status s' = INTR_OFF \<and>
    same_env (s\<lparr>eflags := eflags s AND NOT EFLAGS_IF\<rparr>) s' \<and>
    links_same (tag_nodes s (insert (running_thread s) (set rl))) s s'"
proof -
  let ?cur = "running_thread s" and ?d = "s\<lparr>eflags := eflags s AND NOT EFLAGS_IF\<rparr>"
  have cn: "?cur \<notin> set rl" "?cur \<noteq> NULL" "linkable (thread_ready_list s) (general_tag ?cur)"
    using inv cur by (auto simp: sched_inv_def tasks_ok_def)
  have q: "ready_queue ?d rl" using inv by (simp add: sched_inv_def)
  obtain d1 where d1: "list_append (thread_ready_list ?d) (general_tag ?cur) ?d = Some d1" "ready_queue d1 (rl @ [?cur])"
      "same_env ?d d1" "same_cpu ?d d1" "tcb d1 = tcb ?d" "links_same (tag_nodes ?d (insert ?cur (set rl))) ?d d1"
    using ready_queue_append [OF q, of ?cur] cn by auto
  let ?d2 = "d1\<lparr>tcb := (tcb s)(?cur := (tcb s ?cur)\<lparr>status := TASK_READY\<rparr>)\<rparr>"
  have run: "running_thread ?d2 = ?cur" using d1(4) by (simp add: same_cpu_def running_thread_def)
  have inv2: "sched_inv dirs T (rl @ [?cur]) ?d2"
    using inv d1(2-5) run cn
    by (auto simp: sched_inv_def tasks_ok_def same_env_def same_cpu_def addr_v2p_def load32_def running_thread_def)
  have off: "intr_get_status ?d2 = INTR_OFF"
    using d1(3) by (simp add: same_env_def intr_get_status_bit bit_simps)
  have pick: "pick_next ?d2 (rl @ [?cur]) = (hd (rl @ [?cur]), tl (rl @ [?cur]))"
    by (cases rl) (simp_all add: pick_next_def run Let_def)
  obtain s' where s': "schedule ?d2 = Some s'" "sched_inv dirs T (tl (rl @ [?cur])) s'"
      "running_thread s' = hd (rl @ [?cur])" "same_env ?d2 s'"
      "links_same (tag_nodes ?d2 (set (hd (rl @ [?cur]) # tl (rl @ [?cur])))) ?d2 s'"
    using schedule_inv [OF inv2 off pick] by blast
  have "thread_yield s = Some (intr_get_status s, s')"
    using d1(1,5) s'(1) cn ready_queue_find [OF q, of ?cur]
    by (simp add: thread_yield_def intr_disable_eq wr_task_def Let_def)
  moreover have "intr_get_status s' = INTR_OFF" using s'(4) off by (simp add: same_env_def intr_get_status_def)
  moreover have "links_same (tag_nodes s (insert ?cur (set rl))) s s'"
    using d1(3,6) s'(5) by (cases rl) (auto simp: links_same_def tag_nodes_def same_env_def)
  ultimately show ?thesis
    using s'(2,3,4) d1(3) by (auto simp: same_env_def)
qed

subsection \<open>The interface of the scheduler\<close>

text \<open>
  What semaphores and I/O queues rely on: a thread that blocks gives the processor to the head of
  the ready queue, a thread that is woken becomes the head.
\<close>

locale scheduler =
  fixes inv :: "'p list \<Rightarrow> 's \<Rightarrow> bool"
    and cur :: "'s \<Rightarrow> 'p"
    and waiting :: "'p \<Rightarrow> 's \<Rightarrow> bool"
    and block :: "'s \<Rightarrow> ('i \<times> 's) option"
    and unblock :: "'p \<Rightarrow> 's \<Rightarrow> 's option"
  assumes block: "inv (p # rl) s \<Longrightarrow> cur s \<notin> set (p # rl) \<Longrightarrow>
      \<exists>i s'. block s = Some (i, s') \<and> inv rl s' \<and> cur s' = p \<and> (cur s \<noteq> p \<longrightarrow> waiting (cur s) s')"
    and unblock: "inv rl s \<Longrightarrow> waiting p s \<Longrightarrow>
      \<exists>s'. unblock p s = Some s' \<and> inv (p # rl) s' \<and> cur s' = cur s \<and> \<not> waiting p s' \<and>
        (\<forall>q. q \<noteq> p \<longrightarrow> waiting q s' = waiting q s)"
begin

text \<open>The running thread wakes \<open>p\<close> and then blocks itself: \<open>p\<close> runs, and the caller waits.\<close>

lemma hand_over:
  assumes "inv rl s" "waiting p s" "cur s \<noteq> p" "cur s \<notin> set rl"
  shows "\<exists>s1 i s2. unblock p s = Some s1 \<and> block s1 = Some (i, s2) \<and> cur s2 = p \<and> inv rl s2 \<and>
    waiting (cur s) s2"
proof -
  obtain s1 where s1: "unblock p s = Some s1" "inv (p # rl) s1" "cur s1 = cur s"
    using unblock [OF assms(1,2)] by blast
  have "cur s1 \<notin> set (p # rl)" using s1(3) assms(3,4) by simp
  then show ?thesis using block [OF s1(2)] s1 assms(3) by auto
qed

end

interpretation sched: scheduler "sched_inv dirs T" running_thread
  "\<lambda>p s. p \<in> T \<and> is_blocked (status (tcb s p))" "thread_block TASK_BLOCKED" thread_unblock
  for dirs :: "addr \<Rightarrow> u32" and T :: "addr set"
proof (unfold_locales, goal_cases)
  case (1 p rl s)
  then show ?case
    using thread_block_inv [OF 1(1), of TASK_BLOCKED p] by (auto simp: is_blocked_def sched_inv_def)
next
  case (2 rl s p)
  then show ?case
    using thread_unblock_inv [OF 2(1), of p] by (auto simp: is_blocked_def same_cpu_def running_thread_def)
qed

text \<open>Time slices: \<open>n\<close> calls of \<open>schedule\<close>, each by the thread that is then running.\<close>

primrec slices :: "nat \<Rightarrow> 'a kstate_scheme \<Rightarrow> 'a kstate_scheme option" where
  "slices 0 s = Some s"
| "slices (Suc n) s = do { s \<leftarrow> schedule s; slices n s }"

lemma slices_rotate:
  assumes "sched_inv dirs T rl s" "intr_get_status s = INTR_OFF"
    "status (tcb s (running_thread s)) = TASK_RUNNING" "k < length rl"
  shows "\<exists>s'. slices (Suc k) s = Some s' \<and> running_thread s' = rl ! k"
  using assms
proof (induction k arbitrary: s rl)
  case (0 s rl)
  then obtain p rl' where rl: "rl = p # rl'" by (cases rl) auto
  then have pick: "pick_next s rl = (p, rl' @ [running_thread s])"
    using 0(3) by (simp add: pick_next_def Let_def)
  show ?case using schedule_inv [OF 0(1,2) pick] rl by auto
next
  case (Suc k s rl)
  then obtain p rl' where rl: "rl = p # rl'" by (cases rl) auto
  then have pick: "pick_next s rl = (p, rl' @ [running_thread s])"
    using Suc.prems(3) by (simp add: pick_next_def Let_def)
  obtain s1 where s1: "schedule s = Some s1" "sched_inv dirs T (rl' @ [running_thread s]) s1"
      "running_thread s1 = p" "tcb s1 = switched_tcb s p" "same_env s s1"
    using schedule_inv [OF Suc.prems(1,2) pick] by blast
  have "intr_get_status s1 = INTR_OFF" using s1(5) Suc.prems(2) by (simp add: same_env_def intr_get_status_def)
  moreover have "status (tcb s1 (running_thread s1)) = TASK_RUNNING"
    by (simp add: s1(3,4) switched_tcb_fields)
  ultimately obtain s' where "slices (Suc k) s1 = Some s'" "running_thread s' = (rl' @ [running_thread s]) ! k"
    using Suc.IH [OF s1(2)] Suc.prems(4) rl by auto
  then show ?case using s1(1) rl Suc.prems(4) by (auto simp: nth_append)
qed

subsection \<open>A small system\<close>

text \<open>Three kernel threads at 0xc009e000 (main, running), 0xc0100000 (idle) and 0xc0101000; the
  ready list is at 0xc0009000. Both lists are linked by the list operations themselves.\<close>

definition demo_task :: "addr \<Rightarrow> task_status \<Rightarrow> task_struct" where
  "demo_task p st =
     \<lparr>self_kstack = p + 0x800, pid = 1, status = st, name = ''demo'', priority = 31, ticks = 31,
      elapsed_ticks = 0, fd_table = [0, 1, 2, -1, -1, -1, -1, -1], pgdir = NULL, cwd_inode_nr = 0,
      parent_pid = -1, exit_status = 0, stack_magic = 0x19870916\<rparr>"

definition demo_state :: "(addr \<Rightarrow> addr) \<Rightarrow> (addr \<Rightarrow> addr) \<Rightarrow> (addr \<Rightarrow> task_status) \<Rightarrow> kstate" where
  "demo_state p n st =
     \<lparr>eflags = 0x2, outs = [], screen = [], idt = [], idt_table = [], intr_name = [], idtr = 0, prev_of = p, next_of = n, pmem = boot_pm, cr3 = 0x100000,
      esp = 0xc009e800, tcb = (\<lambda>a. demo_task a (st a)), main_thread = 0xc009e000,
      idle_thread = 0xc0100000, thread_ready_list = 0xc0009000, thread_all_list = 0xc0009100,
      thread_tag = NULL, tss_esp0 = 0\<rparr>"

text \<open>Main runs, the other two are ready.\<close>

definition demo_ready :: kstate where
  "demo_ready = demo_state
     ((\<lambda>_. 0)(0xc0101044 := 0xc0009000, 0xc0100044 := 0xc0101044, 0xc0009008 := 0xc0100044))
     ((\<lambda>_. 0)(0xc0009000 := 0xc0101044, 0xc0101044 := 0xc0100044, 0xc0100044 := 0xc0009008))
     ((\<lambda>_. TASK_READY)(0xc009e000 := TASK_RUNNING))"

text \<open>Main runs, the other two are blocked.\<close>

definition demo_blocked :: kstate where
  "demo_blocked = demo_state
     ((\<lambda>_. 0)(0xc0009008 := 0xc0009000)) ((\<lambda>_. 0)(0xc0009000 := 0xc0009008))
     ((\<lambda>_. TASK_BLOCKED)(0xc009e000 := TASK_RUNNING))"

lemmas demo_defs = demo_state_def demo_task_def sched_inv_def tasks_ok_def ready_queue_def dlist_def nodes_def
  list_head_def list_tail_def linkable_def running_thread_def page_of_def general_tag_def

lemma demo_ready_inv:
  "sched_inv (\<lambda>_. 0x100000) {0xc009e000, 0xc0100000, 0xc0101000} [0xc0101000, 0xc0100000] demo_ready"
  by (simp add: demo_ready_def demo_defs)

lemma demo_blocked_inv:
  "sched_inv (\<lambda>_. 0x100000) {0xc009e000, 0xc0100000, 0xc0101000} [] demo_blocked"
  by (simp add: demo_blocked_def demo_defs is_blocked_def)

lemma demo_off: "intr_get_status demo_ready = INTR_OFF" "intr_get_status demo_blocked = INTR_OFF"
  by (simp_all add: intr_get_status_def demo_ready_def demo_blocked_def demo_state_def EFLAGS_IF_def)

subsection \<open>Properties\<close>

text \<open>C8: \<open>schedule\<close> never stops the kernel and picks the right thread. From a state that satisfies
  the scheduler invariant with interrupts off, whatever the status of the running thread, all its
  assertions hold and it returns with the invariant: a running thread goes to the end of the ready
  queue, the head of the queue (the idle thread when the queue is empty) becomes the running
  thread, and the page directory register holds the directory of that thread.\<close>

theorem schedule_correct:
  assumes "sched_inv dirs T rl s" "intr_get_status s = INTR_OFF" "pick_next s rl = (nxt, rl')"
  shows "\<exists>s'. schedule s = Some s' \<and> sched_inv dirs T rl' s' \<and> running_thread s' = nxt \<and>
    status (tcb s' nxt) = TASK_RUNNING \<and> cr3 s' = dirs nxt"
proof -
  obtain s' where "schedule s = Some s'" "sched_inv dirs T rl' s'" "running_thread s' = nxt"
      "tcb s' = switched_tcb s nxt"
    using schedule_inv [OF assms] by blast
  then show ?thesis by (auto simp: switched_tcb_fields sched_inv_def)
qed

theorem schedule_correct_witness:
  "\<exists>s'. schedule demo_ready = Some s' \<and>
    sched_inv (\<lambda>_. 0x100000) {0xc009e000, 0xc0100000, 0xc0101000} [0xc0100000, 0xc009e000] s' \<and>
    running_thread s' = 0xc0101000 \<and> status (tcb s' 0xc0101000) = TASK_RUNNING \<and> cr3 s' = (\<lambda>_. 0x100000) (0xc0101000 :: addr)"
  by (rule schedule_correct [OF demo_ready_inv demo_off(1)])
    (simp add: pick_next_def demo_ready_def demo_state_def demo_task_def running_thread_def)

text \<open>C9: round robin. With interrupts off, after \<open>k + 1\<close> time slices the thread at position \<open>k\<close> of
  the ready queue is running; no call stops the kernel on the way, so every ready thread runs
  after a number of slices bounded by its position.\<close>

theorem round_robin:
  assumes "sched_inv dirs T rl s" "intr_get_status s = INTR_OFF"
    "status (tcb s (running_thread s)) = TASK_RUNNING" "k < length rl"
  shows "\<exists>s'. slices (Suc k) s = Some s' \<and> running_thread s' = rl ! k"
  by (rule slices_rotate [OF assms])

theorem round_robin_witness:
  "\<exists>s'. slices (Suc 1) demo_ready = Some s' \<and> running_thread s' = [0xc0101000, 0xc0100000] ! 1"
  by (rule round_robin [OF demo_ready_inv demo_off(1)])
    (simp_all add: demo_ready_def demo_state_def demo_task_def running_thread_def)

text \<open>a thread that is woken is served first. When the running thread unblocks \<open>p\<close> and then
  blocks, both calls return, \<open>p\<close> is the running thread even if other threads were ready before,
  the ready queue is as before, and the caller is blocked.\<close>

theorem unblock_then_block:
  assumes "sched_inv dirs T rl s" "p \<in> T" "is_blocked (status (tcb s p))"
    "running_thread s \<noteq> p" "running_thread s \<notin> set rl"
  shows "\<exists>s1 i s2. thread_unblock p s = Some s1 \<and> thread_block TASK_BLOCKED s1 = Some (i, s2) \<and>
    running_thread s2 = p \<and> sched_inv dirs T rl s2 \<and> is_blocked (status (tcb s2 (running_thread s)))"
  using sched.hand_over [of dirs T rl s p] assms by blast

theorem unblock_then_block_witness:
  "\<exists>s1 i s2. thread_unblock 0xc0101000 demo_blocked = Some s1 \<and>
    thread_block TASK_BLOCKED s1 = Some (i, s2) \<and> running_thread s2 = 0xc0101000 \<and>
    sched_inv (\<lambda>_. 0x100000) {0xc009e000, 0xc0100000, 0xc0101000} [] s2 \<and>
    is_blocked (status (tcb s2 (running_thread demo_blocked)))"
  by (rule unblock_then_block [OF demo_blocked_inv])
    (simp_all add: demo_blocked_def demo_state_def demo_task_def running_thread_def is_blocked_def)

end
