(* ===== verification/Sync.thy ===== *)
theory Sync
  imports Thread
begin

text \<open>
  Semaphores and locks (\<^verbatim>\<open>thread/sync.c\<close>).

  A semaphore at address \<open>p\<close> has its value in \<open>sema_value\<close> and its list of waiters eight bytes
  further in memory; a lock has its holder, its semaphore and its repeat counter. The list of
  waiters links the same \<open>general_tag\<close> as the ready queue does, so a thread may be in one of them
  only.

  \<open>sema_down\<close> is modelled up to the point where the caller sleeps: the result \<open>Slept i\<close> says that
  the processor was given away inside \<open>thread_block\<close>, which will restore the status \<open>i\<close>, and the
  second component is the status saved by \<open>sema_down\<close> itself. \<open>sema_down_resume\<close> is what the
  thread does when it runs again: the rest of \<open>thread_block\<close> and another turn of the loop.

  The second half is the interleaving of any number of threads that use one lock. \<open>lock_exec\<close> runs one
  statement of \<open>lock_acquire\<close> or \<open>lock_release\<close> by the running thread, or a preemption, or a
  thread blocking and being woken for another reason; \<open>lock_inv\<close> is kept by all of them, and
  under it no assertion of the code fails.
\<close>

unbundle bit_operations_syntax

record sync_state = kstate +
  sema_value :: "addr \<Rightarrow> u8"
  lock_holder :: "addr \<Rightarrow> addr"
  lock_repeat :: "addr \<Rightarrow> u32"

definition sema_waiters :: "addr \<Rightarrow> addr" where
  "sema_waiters psema = psema + 4"

definition lock_sema :: "addr \<Rightarrow> addr" where
  "lock_sema plock = plock + 4"

definition set_value :: "addr \<Rightarrow> u8 \<Rightarrow> 'a sync_state_scheme \<Rightarrow> 'a sync_state_scheme" where
  "set_value psema v s = s\<lparr>sema_value := (sema_value s)(psema := v)\<rparr>"

definition set_holder :: "addr \<Rightarrow> addr \<Rightarrow> 'a sync_state_scheme \<Rightarrow> 'a sync_state_scheme" where
  "set_holder plock h s = s\<lparr>lock_holder := (lock_holder s)(plock := h)\<rparr>"

definition set_repeat :: "addr \<Rightarrow> u32 \<Rightarrow> 'a sync_state_scheme \<Rightarrow> 'a sync_state_scheme" where
  "set_repeat plock n s = s\<lparr>lock_repeat := (lock_repeat s)(plock := n)\<rparr>"

definition sema_init :: "addr \<Rightarrow> u8 \<Rightarrow> 'a sync_state_scheme \<Rightarrow> 'a sync_state_scheme option" where
  "sema_init psema v s = list_init (sema_waiters psema) (set_value psema v s)"

definition lock_init :: "addr \<Rightarrow> 'a sync_state_scheme \<Rightarrow> 'a sync_state_scheme option" where
  "lock_init plock s = sema_init (lock_sema plock) 1 (set_repeat plock 0 (set_holder plock NULL s))"

datatype wait = Got | Slept intr_status

text \<open>One turn of the loop of \<open>sema_down\<close> and the decrement after it.\<close>

definition sema_down_turn :: "addr \<Rightarrow> 'a sync_state_scheme \<Rightarrow> (wait \<times> 'a sync_state_scheme) option" where
  "sema_down_turn psema s =
     (if sema_value s psema = 0 then do {
        found \<leftarrow> elem_find (sema_waiters psema) (general_tag (running_thread s)) s;
        _ \<leftarrow> ASSERT (\<not> found);
        s \<leftarrow> list_append (sema_waiters psema) (general_tag (running_thread s)) s;
        (i, s) \<leftarrow> thread_block TASK_BLOCKED s;
        Some (Slept i, s)
      } else do {
        let s = set_value psema (sema_value s psema - 1) s;
        _ \<leftarrow> ASSERT (sema_value s psema = 0);
        Some (Got, s)
      })"

definition sema_down_end :: "intr_status \<Rightarrow> wait \<times> 'a sync_state_scheme \<Rightarrow> (wait \<times> 'a sync_state_scheme) option" where
  "sema_down_end old_status ws =
     (case ws of (Got, s) \<Rightarrow> Some (Got, snd (intr_set_status old_status s)) | (Slept i, s) \<Rightarrow> Some (Slept i, s))"

definition sema_down :: "addr \<Rightarrow> 'a sync_state_scheme \<Rightarrow> (intr_status \<times> wait \<times> 'a sync_state_scheme) option" where
  "sema_down psema s =
     (let (old_status, s) = intr_disable s in do {
        ws \<leftarrow> sema_down_turn psema s;
        ws \<leftarrow> sema_down_end old_status ws;
        Some (old_status, ws)
      })"

definition sema_down_resume ::
    "addr \<Rightarrow> intr_status \<Rightarrow> intr_status \<Rightarrow> 'a sync_state_scheme \<Rightarrow> (wait \<times> 'a sync_state_scheme) option" where
  "sema_down_resume psema i old_status s = do {
     ws \<leftarrow> sema_down_turn psema (resume_intr i s);
     sema_down_end old_status ws
   }"

definition sema_up :: "addr \<Rightarrow> 'a sync_state_scheme \<Rightarrow> 'a sync_state_scheme option" where
  "sema_up psema s =
     (let (old_status, s) = intr_disable s in do {
        _ \<leftarrow> ASSERT (sema_value s psema = 0);
        empty \<leftarrow> list_empty (sema_waiters psema) s;
        s \<leftarrow> (if \<not> empty then do {
            (tag, s) \<leftarrow> list_pop (sema_waiters psema) s;
            thread_unblock (general_tag_entry tag) s
          } else Some s);
        let s = set_value psema (sema_value s psema + 1) s;
        _ \<leftarrow> ASSERT (sema_value s psema = 1);
        Some (snd (intr_set_status old_status s))
      })"

text \<open>\<open>lock_acquire\<close> after \<open>sema_down\<close> returned, then the whole function.\<close>

definition acquire_own :: "addr \<Rightarrow> 'a sync_state_scheme \<Rightarrow> 'a sync_state_scheme" where
  "acquire_own plock s = set_holder plock (running_thread s) s"

definition acquire_count :: "addr \<Rightarrow> 'a sync_state_scheme \<Rightarrow> 'a sync_state_scheme option" where
  "acquire_count plock s = do {
     _ \<leftarrow> ASSERT (lock_repeat s plock = 0);
     Some (set_repeat plock 1 s)
   }"

definition lock_acquire :: "addr \<Rightarrow> 'a sync_state_scheme \<Rightarrow> (wait \<times> 'a sync_state_scheme) option" where
  "lock_acquire plock s =
     (if lock_holder s plock \<noteq> running_thread s then do {
        (_, w, s) \<leftarrow> sema_down (lock_sema plock) s;
        case w of
          Got \<Rightarrow> do { s \<leftarrow> acquire_count plock (acquire_own plock s); Some (Got, s) }
        | Slept i \<Rightarrow> Some (Slept i, s)
      } else Some (Got, set_repeat plock (lock_repeat s plock + 1) s))"

text \<open>\<open>lock_release\<close>: the checks decide between a nested release (\<open>False\<close>) and the last one.\<close>

definition release_check :: "addr \<Rightarrow> 'a sync_state_scheme \<Rightarrow> (bool \<times> 'a sync_state_scheme) option" where
  "release_check plock s = do {
     _ \<leftarrow> ASSERT (lock_holder s plock = running_thread s);
     if lock_repeat s plock > 1 then Some (False, set_repeat plock (lock_repeat s plock - 1) s)
     else do {
       _ \<leftarrow> ASSERT (lock_repeat s plock = 1);
       Some (True, s)
     }
   }"

definition lock_release :: "addr \<Rightarrow> 'a sync_state_scheme \<Rightarrow> 'a sync_state_scheme option" where
  "lock_release plock s = do {
     (last, s) \<leftarrow> release_check plock s;
     if last then sema_up (lock_sema plock) (set_repeat plock 0 (set_holder plock NULL s))
     else Some s
   }"

subsection \<open>Interleavings\<close>

text \<open>
  Where a thread is in the code of the lock, and how it lost the processor. The statements of
  \<open>lock_acquire\<close> and \<open>lock_release\<close> outside the semaphore run with interrupts as the caller left
  them, so a thread can be preempted between any two of them.
\<close>

datatype lock_pc = Out | Acq_down | Acq_sleep intr_status | Acq_own | Acq_count | Inside
  | Rel_holder | Rel_repeat | Rel_up

datatype susp = Awake | Preempted | In_sema intr_status | In_block intr_status

fun in_block :: "susp \<Rightarrow> bool" where
  "in_block (In_block i) = True" | "in_block _ = False"

record cfg =
  kst :: sync_state
  pc :: "addr \<Rightarrow> lock_pc"
  susp :: "addr \<Rightarrow> susp"

datatype lock_op = Call_acquire | Call_release | Statement | Preempt | Resume
  | Block task_status | Unblock addr

definition cfg_cur :: "cfg \<Rightarrow> addr" where
  "cfg_cur c = running_thread (kst c)"

text \<open>What the running thread may do. A nested acquisition must not overflow the counter.\<close>

fun lock_enabled :: "addr \<Rightarrow> addr set \<Rightarrow> lock_op \<Rightarrow> cfg \<Rightarrow> bool" where
  "lock_enabled L T Call_acquire c \<longleftrightarrow> susp c (cfg_cur c) = Awake \<and> cfg_cur c \<noteq> idle_thread (kst c) \<and>
     (pc c (cfg_cur c) = Out \<or> pc c (cfg_cur c) = Inside \<and> lock_repeat (kst c) L \<noteq> -1)"
| "lock_enabled L T Call_release c \<longleftrightarrow> susp c (cfg_cur c) = Awake \<and> pc c (cfg_cur c) = Inside"
| "lock_enabled L T Statement c \<longleftrightarrow> susp c (cfg_cur c) = Awake \<and>
     pc c (cfg_cur c) \<in> {Acq_down, Acq_own, Acq_count, Rel_holder, Rel_repeat, Rel_up}"
| "lock_enabled L T Preempt c \<longleftrightarrow> susp c (cfg_cur c) = Awake \<and> intr_get_status (kst c) = INTR_ON"
| "lock_enabled L T Resume c \<longleftrightarrow> susp c (cfg_cur c) \<noteq> Awake"
| "lock_enabled L T (Block st) c \<longleftrightarrow> susp c (cfg_cur c) = Awake \<and> (pc c (cfg_cur c) = Out \<or> pc c (cfg_cur c) = Inside) \<and> is_blocked st"
| "lock_enabled L T (Unblock p) c \<longleftrightarrow> susp c (cfg_cur c) = Awake \<and> p \<in> T \<and> p \<noteq> idle_thread (kst c) \<and>
     is_blocked (status (tcb (kst c) p)) \<and> in_block (susp c p)"

definition after_down :: "intr_status \<Rightarrow> addr \<Rightarrow> wait \<times> sync_state \<Rightarrow> cfg \<Rightarrow> cfg" where
  "after_down old me ws c =
     (case ws of
        (Got, s) \<Rightarrow> c\<lparr>kst := s, pc := (pc c)(me := Acq_own), susp := (susp c)(me := Awake)\<rparr>
      | (Slept i, s) \<Rightarrow> c\<lparr>kst := s, pc := (pc c)(me := Acq_sleep old), susp := (susp c)(me := In_sema i)\<rparr>)"

text \<open>The timer interrupt: the gate turns interrupts off, the thread finds them on when it resumes.\<close>

definition preempt :: "sync_state \<Rightarrow> sync_state option" where
  "preempt s = schedule (cli s)"

fun lock_statement :: "addr \<Rightarrow> lock_pc \<Rightarrow> cfg \<Rightarrow> cfg option" where
  "lock_statement L Acq_down c = do {
     (old, ws) \<leftarrow> sema_down (lock_sema L) (kst c);
     Some (after_down old (cfg_cur c) ws c)
   }"
| "lock_statement L Acq_own c = Some (c\<lparr>kst := acquire_own L (kst c), pc := (pc c)(cfg_cur c := Acq_count)\<rparr>)"
| "lock_statement L Acq_count c = do {
     s \<leftarrow> acquire_count L (kst c);
     Some (c\<lparr>kst := s, pc := (pc c)(cfg_cur c := Inside)\<rparr>)
   }"
| "lock_statement L Rel_holder c = Some (c\<lparr>kst := set_holder L NULL (kst c), pc := (pc c)(cfg_cur c := Rel_repeat)\<rparr>)"
| "lock_statement L Rel_repeat c = Some (c\<lparr>kst := set_repeat L 0 (kst c), pc := (pc c)(cfg_cur c := Rel_up)\<rparr>)"
| "lock_statement L Rel_up c = do {
     s \<leftarrow> sema_up (lock_sema L) (kst c);
     Some (c\<lparr>kst := s, pc := (pc c)(cfg_cur c := Out)\<rparr>)
   }"
| "lock_statement L _ c = None"

fun lock_exec :: "addr \<Rightarrow> lock_op \<Rightarrow> cfg \<Rightarrow> cfg option" where
  "lock_exec L Call_acquire c =
     (if lock_holder (kst c) L \<noteq> cfg_cur c then Some (c\<lparr>pc := (pc c)(cfg_cur c := Acq_down)\<rparr>)
      else Some (c\<lparr>kst := set_repeat L (lock_repeat (kst c) L + 1) (kst c)\<rparr>))"
| "lock_exec L Call_release c = do {
     (last, s) \<leftarrow> release_check L (kst c);
     Some (c\<lparr>kst := s, pc := (pc c)(cfg_cur c := if last then Rel_holder else Inside)\<rparr>)
   }"
| "lock_exec L Statement c = lock_statement L (pc c (cfg_cur c)) c"
| "lock_exec L Preempt c = do {
     s \<leftarrow> preempt (kst c);
     Some (c\<lparr>kst := s, susp := (susp c)(cfg_cur c := Preempted)\<rparr>)
   }"
| "lock_exec L Resume c =
     (case susp c (cfg_cur c) of
        Awake \<Rightarrow> None
      | Preempted \<Rightarrow> Some (c\<lparr>kst := sti (kst c), susp := (susp c)(cfg_cur c := Awake)\<rparr>)
      | In_block i \<Rightarrow> Some (c\<lparr>kst := resume_intr i (kst c), susp := (susp c)(cfg_cur c := Awake)\<rparr>)
      | In_sema i \<Rightarrow>
          (case pc c (cfg_cur c) of
             Acq_sleep old \<Rightarrow> do {
               ws \<leftarrow> sema_down_resume (lock_sema L) i old (kst c);
               Some (after_down old (cfg_cur c) ws c)
             }
           | _ \<Rightarrow> None))"
| "lock_exec L (Block st) c = do {
     (i, s) \<leftarrow> thread_block st (kst c);
     Some (c\<lparr>kst := s, susp := (susp c)(cfg_cur c := In_block i)\<rparr>)
   }"
| "lock_exec L (Unblock p) c = do {
     s \<leftarrow> thread_unblock p (kst c);
     Some (c\<lparr>kst := s\<rparr>)
   }"

inductive lock_reachable :: "addr \<Rightarrow> addr set \<Rightarrow> cfg \<Rightarrow> cfg \<Rightarrow> bool" for L T c0 where
  start: "lock_reachable L T c0 c0"
| step: "lock_reachable L T c0 c \<Longrightarrow> lock_enabled L T act c \<Longrightarrow> lock_exec L act c = Some c' \<Longrightarrow> lock_reachable L T c0 c'"

text \<open>A run as a list of operations, each of them allowed where it is made.\<close>

fun run_ops :: "addr \<Rightarrow> addr set \<Rightarrow> lock_op list \<Rightarrow> cfg \<Rightarrow> cfg option" where
  "run_ops L T [] c = Some c"
| "run_ops L T (act # acts) c =
     (if lock_enabled L T act c then do { c \<leftarrow> lock_exec L act c; run_ops L T acts c } else None)"

text \<open>The start: nobody is in the code of the lock, and all but the running thread lost the
  processor in a timer interrupt or before they ran first.\<close>

definition start_cfg :: "sync_state \<Rightarrow> cfg" where
  "start_cfg s =
     \<lparr>kst = s, pc = (\<lambda>_. Out), susp = (\<lambda>p. if p = running_thread s then Awake else Preempted)\<rparr>"

text \<open>A thread owns the semaphore of the lock from its \<open>sema_down\<close> to its \<open>sema_up\<close>.\<close>

definition owns :: "cfg \<Rightarrow> addr \<Rightarrow> bool" where
  "owns c p \<longleftrightarrow> pc c p \<in> {Acq_own, Acq_count, Inside, Rel_holder, Rel_repeat, Rel_up}"

subsection \<open>Queues\<close>

text \<open>The ready queue \<open>rl\<close> and the waiters \<open>ws\<close> of the lock, linked through the same elements.\<close>

definition waiters_apart :: "addr \<Rightarrow> addr set \<Rightarrow> 'a kstate_scheme \<Rightarrow> bool" where
  "waiters_apart W T s \<longleftrightarrow> (\<forall>p \<in> T. linkable W (general_tag p)) \<and>
     {list_head W, list_tail W} \<inter> {list_head (thread_ready_list s), list_tail (thread_ready_list s)} = {}"

definition queues_ok ::
    "(addr \<Rightarrow> u32) \<Rightarrow> addr set \<Rightarrow> addr \<Rightarrow> addr list \<Rightarrow> addr list \<Rightarrow> 'a kstate_scheme \<Rightarrow> bool" where
  "queues_ok dirs T W rl ws s \<longleftrightarrow>
     sched_inv dirs T rl s \<and> dlist s W (map general_tag ws) \<and> waiters_apart W T s \<and> set ws \<subseteq> T \<and>
     (\<forall>p \<in> set ws. status (tcb s p) = TASK_BLOCKED) \<and> idle_thread s \<notin> set ws \<and>
     status (tcb s (running_thread s)) = TASK_RUNNING"

lemma same_env_sync:
  assumes "same_env s s'"
  shows "sema_value s' = sema_value s" "lock_holder s' = lock_holder s" "lock_repeat s' = lock_repeat s"
proof -
  have m: "kstate.more s' = kstate.more s" using assms by (simp add: same_env_def)
  show "sema_value s' = sema_value s" "lock_holder s' = lock_holder s" "lock_repeat s' = lock_repeat s"
    using m by (cases s; cases s'; simp)+
qed

lemma nodes_apart:
  assumes "waiters_apart W T s" "tasks_ok dirs T s" "set ws \<subseteq> T" "P \<subseteq> T" "set ws \<inter> P = {}"
  shows "set (nodes W (map general_tag ws)) \<inter> tag_nodes s P = {}"
proof (rule equals0I)
  have w: "linkable W (general_tag p)" if "p \<in> T" for p
    using assms(1) that by (auto simp: waiters_apart_def)
  have r: "linkable (thread_ready_list s) (general_tag p)" if "p \<in> T" for p
    using assms(2) that by (auto simp: tasks_ok_def)
  have h: "{list_head W, list_tail W} \<inter> {list_head (thread_ready_list s), list_tail (thread_ready_list s)} = {}"
    using assms(1) by (simp add: waiters_apart_def)
  fix x assume "x \<in> set (nodes W (map general_tag ws)) \<inter> tag_nodes s P"
  then consider "x \<in> {list_head W, list_tail W}" "x \<in> {list_head (thread_ready_list s), list_tail (thread_ready_list s)}"
    | p where "x \<in> {list_head W, list_tail W}" "x = general_tag p" "p \<in> T"
    | p where "x \<in> {list_head (thread_ready_list s), list_tail (thread_ready_list s)}" "x = general_tag p" "p \<in> T"
    | p q where "general_tag p = general_tag q" "p \<in> set ws" "q \<in> P"
    using assms(3,4) by (fastforce simp: nodes_def tag_nodes_def)
  then show False
  proof cases
    case 1
    then show ?thesis using h by blast
  next
    case (2 p)
    then show ?thesis using w [of p] by (auto simp: linkable_def)
  next
    case (3 p)
    then show ?thesis using r [of p] by (auto simp: linkable_def)
  next
    case (4 p q)
    then show ?thesis using assms(5) by auto
  qed
qed

lemma waiters_frame:
  assumes "dlist s W (map general_tag ws)" "waiters_apart W T s" "links_same (tag_nodes s P) s s'"
    "P \<subseteq> T" "set ws \<inter> P = {}" "tasks_ok dirs T s" "set ws \<subseteq> T"
  shows "dlist s' W (map general_tag ws)"
  using dlist_links_same [OF assms(1,3) nodes_apart [OF assms(2,6,7,4,5)]] .

text \<open>An operation on the list of waiters keeps the scheduler's invariant.\<close>

lemma sched_inv_waiters:
  assumes inv: "sched_inv dirs T rl s" and l: "only_links (set (nodes W (map general_tag ws))) s s'"
    and ap: "waiters_apart W T s" and ws: "set ws \<subseteq> T" "set ws \<inter> set rl = {}"
  shows "sched_inv dirs T rl s'" "same_env s s'" "same_cpu s s'" "tcb s' = tcb s"
proof -
  obtain n v where s': "s' = s\<lparr>next_of := n, prev_of := v\<rparr>" using only_links_update [OF l] by blast
  show same: "same_env s s'" "same_cpu s s'" "tcb s' = tcb s"
    by (simp_all add: s' same_env_def same_cpu_def)
  have tok: "tasks_ok dirs T s" and q: "ready_queue s rl" and rl: "set rl \<subseteq> T"
    using inv by (auto simp: sched_inv_def)
  have "set (nodes (thread_ready_list s) (map general_tag rl)) \<inter> set (nodes W (map general_tag ws)) = {}"
    unfolding nodes_tag_nodes using nodes_apart [OF ap tok ws(1) rl ws(2)] by blast
  then have "ready_queue s' rl"
    using dlist_links_same [OF _ only_links_same [OF l]] q same(1) unfolding ready_queue_def same_env_def by auto
  then show "sched_inv dirs T rl s'"
    using inv same by (auto simp: sched_inv_def tasks_ok_def same_env_def same_cpu_def running_thread_def
        addr_v2p_def load32_def)
qed

lemma waiters_apart_cong: "same_env s s' \<Longrightarrow> waiters_apart W T s' = waiters_apart W T s"
  by (simp add: waiters_apart_def same_env_def)

lemma queues_ok_eflags [simp]: "queues_ok dirs T W rl ws (s\<lparr>eflags := e\<rparr>) = queues_ok dirs T W rl ws s"
  by (simp add: queues_ok_def waiters_apart_def running_thread_def)

lemma queues_ok_parts:
  assumes "queues_ok dirs T W rl ws s"
  shows "running_thread s \<in> T" "idle_thread s \<in> T" "set rl \<subseteq> T" "set ws \<inter> set rl = {}"
    "running_thread s \<notin> set rl" "running_thread s \<notin> set ws" "tasks_ok dirs T s" "sched_inv dirs T rl s"
  using assms by (auto simp: queues_ok_def sched_inv_def)

text \<open>The time slice of the running thread ends.\<close>

lemma queues_preempt:
  assumes q: "queues_ok dirs T W rl ws s" and off: "intr_get_status s = INTR_OFF"
  shows "\<exists>s'. schedule s = Some s' \<and> queues_ok dirs T W (tl (rl @ [running_thread s])) ws s' \<and>
    running_thread s' = hd (rl @ [running_thread s]) \<and> same_env s s'"
proof -
  let ?nxt = "hd (rl @ [running_thread s])" and ?rl = "tl (rl @ [running_thread s])"
  note qs = queues_ok_parts [OF q]
  have pick: "pick_next s rl = (?nxt, ?rl)"
    using q by (cases rl) (simp_all add: pick_next_def queues_ok_def Let_def)
  obtain s' where s': "schedule s = Some s'" "sched_inv dirs T ?rl s'" "running_thread s' = ?nxt"
      "tcb s' = switched_tcb s ?nxt" "same_env s s'" "links_same (tag_nodes s (set (?nxt # ?rl))) s s'"
    using schedule_inv [OF qs(8) off pick] by blast
  have set: "set (?nxt # ?rl) = insert (running_thread s) (set rl)" by (cases rl) auto
  have P: "set (?nxt # ?rl) \<subseteq> T" "set ws \<inter> set (?nxt # ?rl) = {}"
    unfolding set using qs by auto
  have "dlist s' W (map general_tag ws)"
    using waiters_frame [OF _ _ s'(6) P qs(7)] q by (auto simp: queues_ok_def)
  moreover have "p \<noteq> ?nxt" if "p \<in> set ws" for p
    using that P(2) by (meson disjoint_iff list.set_intros(1))
  then have "\<forall>p \<in> set ws. status (tcb s' p) = TASK_BLOCKED"
    using q qs(6) unfolding s'(4) switched_tcb_fields by (auto simp: queues_ok_def)
  ultimately show ?thesis
    using s' q waiters_apart_cong [OF s'(5)]
    by (auto simp: queues_ok_def same_env_def switched_tcb_fields)
qed

text \<open>The running thread blocks for some reason other than the lock.\<close>

lemma queues_block:
  assumes q: "queues_ok dirs T W rl ws s" and st: "is_blocked st"
  shows "\<exists>s' nxt. thread_block st s = Some (intr_get_status s, s') \<and> queues_ok dirs T W (tl rl) ws s' \<and>
    running_thread s' = nxt \<and> nxt = (case rl of [] \<Rightarrow> idle_thread s | p # _ \<Rightarrow> p) \<and>
    intr_get_status s' = INTR_OFF \<and> same_env (s\<lparr>eflags := eflags s AND NOT EFLAGS_IF\<rparr>) s'"
proof -
  let ?nxt = "case rl of [] \<Rightarrow> idle_thread s | p # _ \<Rightarrow> p"
  note qs = queues_ok_parts [OF q]
  obtain s' where s': "thread_block st s = Some (intr_get_status s, s')" "sched_inv dirs T (tl rl) s'"
      "running_thread s' = ?nxt" "intr_get_status s' = INTR_OFF"
      "\<forall>p. status (tcb s' p) = (if p = ?nxt then TASK_RUNNING else if p = running_thread s then st else status (tcb s p))"
      "same_env (s\<lparr>eflags := eflags s AND NOT EFLAGS_IF\<rparr>) s'" "links_same (tag_nodes s (set (?nxt # tl rl))) s s'"
    using thread_block_inv [OF qs(8) st qs(5) refl] by blast
  have set: "set (?nxt # tl rl) \<subseteq> insert (idle_thread s) (set rl)" by (cases rl) auto
  have idle: "idle_thread s \<notin> set ws" using q by (simp add: queues_ok_def)
  have P: "set (?nxt # tl rl) \<subseteq> T" "set ws \<inter> set (?nxt # tl rl) = {}"
    using set qs idle by blast+
  have "dlist s' W (map general_tag ws)"
    using waiters_frame [OF _ _ s'(7) P qs(7)] q by (auto simp: queues_ok_def)
  moreover have "p \<noteq> ?nxt" if "p \<in> set ws" for p
    using that P(2) by (meson disjoint_iff list.set_intros(1))
  then have "\<forall>p \<in> set ws. status (tcb s' p) = TASK_BLOCKED"
    using q qs(6) unfolding s'(5) [rule_format] by (auto simp: queues_ok_def)
  moreover have "waiters_apart W T s'" using q s'(6) by (simp add: queues_ok_def waiters_apart_def same_env_def)
  ultimately have "queues_ok dirs T W (tl rl) ws s'"
    using s' q by (auto simp: queues_ok_def same_env_def)
  then show ?thesis using s' by auto
qed

text \<open>The running thread joins the waiters and blocks.\<close>

lemma queues_sleep:
  assumes q: "queues_ok dirs T W rl ws s" and idle: "running_thread s \<noteq> idle_thread s"
  shows "\<exists>s1 s' nxt. elem_find W (general_tag (running_thread s)) s = Some False \<and>
    list_append W (general_tag (running_thread s)) s = Some s1 \<and> running_thread s1 = running_thread s \<and>
    thread_block TASK_BLOCKED s1 = Some (intr_get_status s, s') \<and>
    queues_ok dirs T W (tl rl) (ws @ [running_thread s]) s' \<and>
    running_thread s' = nxt \<and> nxt = (case rl of [] \<Rightarrow> idle_thread s | p # _ \<Rightarrow> p) \<and>
    intr_get_status s' = INTR_OFF \<and> same_env (s\<lparr>eflags := eflags s AND NOT EFLAGS_IF\<rparr>) s'"
proof -
  let ?cur = "running_thread s" and ?nxt = "case rl of [] \<Rightarrow> idle_thread s | p # _ \<Rightarrow> p"
  note qs = queues_ok_parts [OF q]
  have d: "dlist s W (map general_tag ws)" and ap: "waiters_apart W T s" and ws: "set ws \<subseteq> T"
      "idle_thread s \<notin> set ws" "\<forall>p \<in> set ws. status (tcb s p) = TASK_BLOCKED"
    using q by (auto simp: queues_ok_def)
  have new: "general_tag ?cur \<notin> set (map general_tag ws)" using qs(6) by auto
  moreover have "linkable W (general_tag ?cur)" using ap qs(1) by (simp add: waiters_apart_def)
  ultimately obtain s1 where s1: "list_append W (general_tag ?cur) s = Some s1"
      "dlist s1 W (map general_tag (ws @ [?cur]))" "only_links (set (nodes W (map general_tag (ws @ [?cur])))) s s1"
    using dlist_append [OF d] by auto
  have ws1: "set (ws @ [?cur]) \<subseteq> T" "set (ws @ [?cur]) \<inter> set rl = {}" using ws qs by auto
  note inv1 = sched_inv_waiters [OF qs(8) s1(3) ap ws1]
  have run1: "running_thread s1 = ?cur" "idle_thread s1 = idle_thread s" "intr_get_status s1 = intr_get_status s"
    using inv1 by (simp_all add: same_cpu_def same_env_def running_thread_def intr_get_status_def)
  have cur1: "running_thread s1 \<notin> set rl" using run1 qs(5) by simp
  have blk: "is_blocked TASK_BLOCKED" by (simp add: is_blocked_def)
  obtain s' where s': "thread_block TASK_BLOCKED s1 = Some (intr_get_status s1, s')" "sched_inv dirs T (tl rl) s'"
      "running_thread s' = ?nxt" "intr_get_status s' = INTR_OFF"
      "\<forall>p. status (tcb s' p) = (if p = ?nxt then TASK_RUNNING else if p = ?cur then TASK_BLOCKED else status (tcb s p))"
      "same_env (s1\<lparr>eflags := eflags s1 AND NOT EFLAGS_IF\<rparr>) s'" "links_same (tag_nodes s1 (set (?nxt # tl rl))) s1 s'"
    using thread_block_inv [OF inv1(1) blk cur1 refl] unfolding run1 inv1(4) by blast
  have env: "same_env (s\<lparr>eflags := eflags s AND NOT EFLAGS_IF\<rparr>) s'"
    using inv1(2) s'(6) by (simp add: same_env_def)
  have "set (?nxt # tl rl) \<subseteq> insert (idle_thread s) (set rl)" by (cases rl) auto
  then have P: "set (?nxt # tl rl) \<subseteq> T" "set (ws @ [?cur]) \<inter> set (?nxt # tl rl) = {}"
    using qs idle ws by auto
  have "waiters_apart W T s1" "tasks_ok dirs T s1" using ap inv1(1,2) waiters_apart_cong by (auto simp: sched_inv_def)
  then have "dlist s' W (map general_tag (ws @ [?cur]))"
    using waiters_frame [OF s1(2) _ s'(7) P _ ws1(1)] by blast
  moreover have "p \<noteq> ?nxt" if "p \<in> set (ws @ [?cur])" for p
    using that P(2) by (meson disjoint_iff list.set_intros(1))
  then have "\<forall>p \<in> set (ws @ [?cur]). status (tcb s' p) = TASK_BLOCKED"
    using ws(3) unfolding s'(5) [rule_format] by auto
  moreover have "waiters_apart W T s'" using ap env by (simp add: waiters_apart_def same_env_def)
  ultimately have "queues_ok dirs T W (tl rl) (ws @ [?cur]) s'"
    using s' ws1(1) ws(2) idle env by (auto simp: queues_ok_def same_env_def)
  moreover have "elem_find W (general_tag ?cur) s = Some False" using dlist_elem_find [OF d] new by simp
  ultimately show ?thesis using s1(1) run1 s' env by auto
qed

text \<open>The first waiter is taken off the list and made ready.\<close>

lemma queues_wake:
  assumes q: "queues_ok dirs T W rl (p # ws) s"
  shows "\<exists>s1 s'. list_pop W s = Some (general_tag p, s1) \<and> thread_unblock p s1 = Some s' \<and>
    queues_ok dirs T W (p # rl) ws s' \<and> running_thread s' = running_thread s \<and> same_env s s'"
proof -
  note qs = queues_ok_parts [OF q]
  have d: "dlist s W (map general_tag (p # ws))" and ap: "waiters_apart W T s" and ws: "set (p # ws) \<subseteq> T"
      "idle_thread s \<notin> set (p # ws)" "\<forall>p \<in> set (p # ws). status (tcb s p) = TASK_BLOCKED"
    using q by (auto simp: queues_ok_def)
  have dist: "p \<notin> set ws" using d by (auto simp: dlist_def nodes_def)
  obtain s1 where s1: "list_pop W s = Some (general_tag p, s1)" "dlist s1 W (map general_tag ws)"
      "only_links (set (nodes W (map general_tag (p # ws)))) s s1"
    using dlist_pop [of s W "general_tag p" "map general_tag ws"] d by auto
  note inv1 = sched_inv_waiters [OF qs(8) s1(3) ap ws(1) qs(4)]
  have pT: "p \<in> T" "is_blocked (status (tcb s1 p))" using ws inv1(4) by (auto simp: is_blocked_def)
  obtain s' where s': "thread_unblock p s1 = Some s'" "sched_inv dirs T (p # rl) s'"
      "tcb s' = (tcb s1)(p := (tcb s1 p)\<lparr>status := TASK_READY\<rparr>)" "same_env s1 s'" "same_cpu s1 s'"
      "links_same (tag_nodes s1 (insert p (set rl))) s1 s'"
    using thread_unblock_inv [OF inv1(1) pT] by blast
  have env: "same_env s s'" and run: "running_thread s' = running_thread s"
    using same_env_trans [OF inv1(2) s'(4)] same_cpu_trans [OF inv1(3) s'(5)]
    by (simp_all add: same_cpu_def running_thread_def)
  have "waiters_apart W T s1" "tasks_ok dirs T s1" using ap inv1(1,2) waiters_apart_cong by (auto simp: sched_inv_def)
  then have "dlist s' W (map general_tag ws)"
    using waiters_frame [OF s1(2) _ s'(6)] pT(1) qs(3,4) dist ws(1) by auto
  moreover have "\<forall>q \<in> set ws. status (tcb s' q) = TASK_BLOCKED"
    using dist ws(3) by (auto simp: s'(3) inv1(4))
  moreover have "status (tcb s' (running_thread s')) = TASK_RUNNING"
    using q qs(6) run by (auto simp: s'(3) inv1(4) queues_ok_def)
  ultimately have "queues_ok dirs T W (p # rl) ws s'"
    using s'(2) ws env ap waiters_apart_cong [OF env] by (auto simp: queues_ok_def same_env_def)
  then show ?thesis using s1(1) s'(1) run env by blast
qed

text \<open>A thread that waits for something else is made ready.\<close>

lemma queues_unblock:
  assumes q: "queues_ok dirs T W rl ws s" and p: "p \<in> T" "is_blocked (status (tcb s p))" "p \<notin> set ws"
  shows "\<exists>s'. thread_unblock p s = Some s' \<and> queues_ok dirs T W (p # rl) ws s' \<and>
    running_thread s' = running_thread s \<and> same_env s s'"
proof -
  note qs = queues_ok_parts [OF q]
  obtain s' where s': "thread_unblock p s = Some s'" "sched_inv dirs T (p # rl) s'"
      "tcb s' = (tcb s)(p := (tcb s p)\<lparr>status := TASK_READY\<rparr>)" "same_env s s'" "same_cpu s s'"
      "links_same (tag_nodes s (insert p (set rl))) s s'"
    using thread_unblock_inv [OF qs(8) p(1,2)] by blast
  have run: "running_thread s' = running_thread s" using s'(5) by (simp add: same_cpu_def running_thread_def)
  have "dlist s' W (map general_tag ws)"
    using waiters_frame [OF _ _ s'(6) _ _ qs(7)] q qs(3,4) p by (auto simp: queues_ok_def)
  moreover have "running_thread s \<noteq> p" using q p(2) by (auto simp: queues_ok_def is_blocked_def)
  ultimately have "queues_ok dirs T W (p # rl) ws s'"
    using q s' run p waiters_apart_cong [OF s'(4)] by (auto simp: queues_ok_def same_env_def)
  then show ?thesis using s'(1,4) run by blast
qed

subsection \<open>The semaphore operations\<close>

lemma queues_ok_view:
  assumes v: "sched_view s' = sched_view s"
  shows "queues_ok dirs T W rl ws s' = queues_ok dirs T W rl ws s"
proof -
  have "dlist s' W (map general_tag ws) = dlist s W (map general_tag ws)"
    by (rule dlist_cong) (use v in \<open>simp_all add: sched_view_def\<close>)
  then show ?thesis
    using sched_inv_view [OF v] v
    by (simp add: queues_ok_def waiters_apart_def running_thread_def sched_view_def)
qed

lemma queues_ok_sync [simp]:
  "queues_ok dirs T W rl ws (set_value p v s) = queues_ok dirs T W rl ws s"
  "queues_ok dirs T W rl ws (set_holder p h s) = queues_ok dirs T W rl ws s"
  "queues_ok dirs T W rl ws (set_repeat p r s) = queues_ok dirs T W rl ws s"
  by (rule queues_ok_view, simp add: sched_view_def set_value_def set_holder_def set_repeat_def)+

lemma sync_update [simp]:
  "queues_ok dirs T W rl ws (s\<lparr>sema_value := v\<rparr>) = queues_ok dirs T W rl ws s"
  "running_thread (s\<lparr>sema_value := v\<rparr>) = running_thread s"
  by (rule queues_ok_view, simp add: sched_view_def) (simp add: running_thread_def)

lemma running_sync [simp]:
  "running_thread (set_value p v s) = running_thread s"
  "running_thread (set_holder p h s) = running_thread s"
  "running_thread (set_repeat p r s) = running_thread s"
  "running_thread (t\<lparr>eflags := e\<rparr>) = running_thread t"
  by (simp_all add: running_thread_def set_value_def set_holder_def set_repeat_def)

text \<open>The data of the lock that an operation leaves alone.\<close>

definition lock_data :: "addr \<Rightarrow> 'a sync_state_scheme \<Rightarrow> u8 \<times> addr \<times> u32" where
  "lock_data L s = (sema_value s (lock_sema L), lock_holder s L, lock_repeat s L)"

lemma lock_data_same_env: "same_env s s' \<Longrightarrow> lock_data L s' = lock_data L s"
  by (simp add: lock_data_def same_env_sync)

abbreviation lock_waiters :: "addr \<Rightarrow> addr" where
  "lock_waiters L \<equiv> sema_waiters (lock_sema L)"

lemma sema_down_turn_zero:
  assumes q: "queues_ok dirs T (sema_waiters p) rl ws s" and idle: "running_thread s \<noteq> idle_thread s"
    and v: "sema_value s p = 0" and off: "intr_get_status s = INTR_OFF"
  shows "\<exists>s'. sema_down_turn p s = Some (Slept INTR_OFF, s') \<and>
    queues_ok dirs T (sema_waiters p) (tl rl) (ws @ [running_thread s]) s' \<and>
    running_thread s' = (case rl of [] \<Rightarrow> idle_thread s | p # _ \<Rightarrow> p) \<and>
    intr_get_status s' = INTR_OFF \<and> same_env s s'"
proof -
  obtain s1 s' where s': "elem_find (sema_waiters p) (general_tag (running_thread s)) s = Some False"
    "list_append (sema_waiters p) (general_tag (running_thread s)) s = Some s1"
    "running_thread s1 = running_thread s" "thread_block TASK_BLOCKED s1 = Some (intr_get_status s, s')"
    "queues_ok dirs T (sema_waiters p) (tl rl) (ws @ [running_thread s]) s'"
    "running_thread s' = (case rl of [] \<Rightarrow> idle_thread s | p # _ \<Rightarrow> p)" "intr_get_status s' = INTR_OFF"
    "same_env (s\<lparr>eflags := eflags s AND NOT EFLAGS_IF\<rparr>) s'"
    using queues_sleep [OF q idle] by blast
  have "eflags s AND NOT EFLAGS_IF = eflags s"
    using off by (intro eflags_cli_off) (auto simp: intr_get_status_bit split: if_splits)
  then have "same_env s s'" using s'(8) by (simp add: same_env_def)
  then show ?thesis using s' v off by (simp add: sema_down_turn_def)
qed

lemma sema_down_turn_one: "sema_value s p = 1 \<Longrightarrow> sema_down_turn p s = Some (Got, set_value p 0 s)"
  by (simp add: sema_down_turn_def set_value_def)

lemma sema_down_got:
  assumes "sema_value s p = 1"
  shows "sema_down p s = Some (intr_get_status s, Got, set_value p 0 s)"
proof -
  have "snd (intr_set_status (intr_get_status s)
      (set_value p 0 (s\<lparr>eflags := eflags s AND NOT EFLAGS_IF\<rparr>))) = set_value p 0 s"
    by (subst intr_restore_eq) (simp_all add: set_value_def)
  then show ?thesis
    using assms sema_down_turn_one [of "s\<lparr>eflags := eflags s AND NOT EFLAGS_IF\<rparr>" p]
    by (simp add: sema_down_def intr_disable_eq sema_down_end_def)
qed

lemma sema_down_sleep:
  assumes q: "queues_ok dirs T (sema_waiters p) rl ws s" and idle: "running_thread s \<noteq> idle_thread s"
    and v: "sema_value s p = 0"
  shows "\<exists>s'. sema_down p s = Some (intr_get_status s, Slept INTR_OFF, s') \<and>
    queues_ok dirs T (sema_waiters p) (tl rl) (ws @ [running_thread s]) s' \<and>
    running_thread s' = (case rl of [] \<Rightarrow> idle_thread s | p # _ \<Rightarrow> p) \<and>
    intr_get_status s' = INTR_OFF \<and> idle_thread s' = idle_thread s \<and>
    sema_value s' = sema_value s \<and> lock_holder s' = lock_holder s \<and> lock_repeat s' = lock_repeat s"
proof -
  let ?d = "s\<lparr>eflags := eflags s AND NOT EFLAGS_IF\<rparr>"
  have "intr_get_status ?d = INTR_OFF" by (simp add: intr_get_status_bit bit_simps)
  then obtain s' where s': "sema_down_turn p ?d = Some (Slept INTR_OFF, s')"
    "queues_ok dirs T (sema_waiters p) (tl rl) (ws @ [running_thread ?d]) s'"
    "running_thread s' = (case rl of [] \<Rightarrow> idle_thread ?d | p # _ \<Rightarrow> p)" "intr_get_status s' = INTR_OFF" "same_env ?d s'"
    using sema_down_turn_zero [of dirs T p rl ws ?d] q idle v by auto
  then show ?thesis
    using same_env_sync [OF s'(5)]
    by (simp add: sema_down_def intr_disable_eq sema_down_end_def same_env_def split: list.split)
qed

lemma sema_up_queues:
  assumes q: "queues_ok dirs T (sema_waiters p) rl ws s" and v: "sema_value s p = 0"
  shows "\<exists>s'. sema_up p s = Some s' \<and>
    queues_ok dirs T (sema_waiters p) (case ws of [] \<Rightarrow> rl | w # _ \<Rightarrow> w # rl) (tl ws) s' \<and>
    running_thread s' = running_thread s \<and> eflags s' = eflags s \<and> idle_thread s' = idle_thread s \<and>
    sema_value s' = (sema_value s)(p := 1) \<and> lock_holder s' = lock_holder s \<and> lock_repeat s' = lock_repeat s"
proof -
  let ?d = "s\<lparr>eflags := eflags s AND NOT EFLAGS_IF\<rparr>"
  have q': "queues_ok dirs T (sema_waiters p) rl ws ?d" using q by simp
  have e: "list_empty (sema_waiters p) ?d = Some (ws = [])"
    using dlist_empty [of ?d "sema_waiters p" "map general_tag ws"] q' by (simp add: queues_ok_def)
  obtain d' where d': "(if ws \<noteq> [] then do { (tag, s) \<leftarrow> list_pop (sema_waiters p) ?d;
        thread_unblock (general_tag_entry tag) s } else Some ?d) = Some d'"
      "queues_ok dirs T (sema_waiters p) (case ws of [] \<Rightarrow> rl | w # _ \<Rightarrow> w # rl) (tl ws) d'"
      "running_thread d' = running_thread s" "same_env ?d d'"
  proof (cases ws)
    case Nil
    then show thesis using that [of ?d] q' by simp
  next
    case (Cons w ws')
    then show thesis using queues_wake [of dirs T "sema_waiters p" rl w ws' ?d] q' that by auto
  qed
  note same = same_env_sync [OF d'(4)]
  have "snd (intr_set_status (intr_get_status s) (set_value p 1 d')) = (set_value p 1 d')\<lparr>eflags := eflags s\<rparr>"
    using d'(4) by (intro intr_restore_eq) (simp add: set_value_def same_env_def)
  then have "sema_up p s = Some ((set_value p 1 d')\<lparr>eflags := eflags s\<rparr>)"
    using v e d'(1) same by (auto simp: sema_up_def intr_disable_eq set_value_def split: if_splits)
  then show ?thesis
    using d'(2-4) same by (auto simp: set_value_def same_env_def)
qed

subsection \<open>The invariant of the interleavings\<close>

fun owning :: "lock_pc \<Rightarrow> bool" where
  "owning Out = False" | "owning Acq_down = False" | "owning (Acq_sleep _) = False" | "owning _ = True"

fun asleep :: "lock_pc \<Rightarrow> bool" where
  "asleep (Acq_sleep _) = True" | "asleep _ = False"

text \<open>The data of the lock when the owner \<open>o\<close> is at a given statement.\<close>

fun owner_data :: "lock_pc \<Rightarrow> addr \<Rightarrow> addr \<Rightarrow> u32 \<Rightarrow> bool" where
  "owner_data Acq_own me h r \<longleftrightarrow> h = NULL \<and> r = 0"
| "owner_data Acq_count me h r \<longleftrightarrow> h = me \<and> r = 0"
| "owner_data Inside me h r \<longleftrightarrow> h = me \<and> r \<noteq> 0"
| "owner_data Rel_holder me h r \<longleftrightarrow> h = me \<and> r = 1"
| "owner_data Rel_repeat me h r \<longleftrightarrow> h = NULL"
| "owner_data Rel_up me h r \<longleftrightarrow> h = NULL \<and> r = 0"
| "owner_data _ me h r \<longleftrightarrow> False"

text \<open>
  \<open>own_ok\<close>: at most one thread owns the semaphore, \<open>ow\<close> says which; the value, the holder and the
  counter follow. \<open>sleep_ok\<close>: whoever sleeps in \<open>sema_down\<close> is among the waiters or is runnable.
  \<open>wake_ok\<close>: when the semaphore is free and threads wait, one that slept is awake (no lost wake-up).
\<close>

definition own_ok :: "addr set \<Rightarrow> (addr \<Rightarrow> lock_pc) \<Rightarrow> addr option \<Rightarrow> u8 \<times> addr \<times> u32 \<Rightarrow> bool" where
  "own_ok T pcs ow d \<longleftrightarrow>
     (\<forall>p \<in> T. owning (pcs p) \<longleftrightarrow> ow = Some p) \<and>
     (case ow of None \<Rightarrow> d = (1, NULL, 0)
      | Some p \<Rightarrow> p \<in> T \<and> (\<exists>h r. d = (0, h, r) \<and> owner_data (pcs p) p h r))"

definition sleep_ok ::
    "addr set \<Rightarrow> addr \<Rightarrow> addr \<Rightarrow> addr list \<Rightarrow> addr list \<Rightarrow> (addr \<Rightarrow> lock_pc) \<Rightarrow> (addr \<Rightarrow> susp) \<Rightarrow> bool" where
  "sleep_ok T idle me rl ws pcs sus \<longleftrightarrow>
     (\<forall>p \<in> T. p \<noteq> me \<longrightarrow> sus p \<noteq> Awake) \<and>
     (\<forall>p \<in> T. asleep (pcs p) \<longleftrightarrow> sus p = In_sema INTR_OFF) \<and>
     (\<forall>p \<in> T. sus p \<noteq> In_sema INTR_ON) \<and>
     (\<forall>p \<in> set ws. asleep (pcs p)) \<and>
     (\<forall>p \<in> T. asleep (pcs p) \<longrightarrow> p \<in> set ws \<or> p \<in> set rl \<or> p = me) \<and>
     pcs idle = Out"

definition wake_ok :: "addr set \<Rightarrow> addr list \<Rightarrow> addr option \<Rightarrow> (addr \<Rightarrow> lock_pc) \<Rightarrow> bool" where
  "wake_ok T ws ow pcs \<longleftrightarrow> (ow = None \<and> ws \<noteq> [] \<longrightarrow> (\<exists>p \<in> T. p \<notin> set ws \<and> asleep (pcs p)))"

definition lock_ctrl :: "addr \<Rightarrow> addr set \<Rightarrow> addr list \<Rightarrow> addr list \<Rightarrow> addr option \<Rightarrow> cfg \<Rightarrow> bool" where
  "lock_ctrl L T rl ws ow c \<longleftrightarrow>
     own_ok T (pc c) ow (lock_data L (kst c)) \<and>
     sleep_ok T (idle_thread (kst c)) (cfg_cur c) rl ws (pc c) (susp c) \<and>
     wake_ok T ws ow (pc c)"

definition lock_inv :: "(addr \<Rightarrow> u32) \<Rightarrow> addr set \<Rightarrow> addr \<Rightarrow> cfg \<Rightarrow> bool" where
  "lock_inv dirs T L c \<longleftrightarrow>
     (\<exists>rl ws ow. queues_ok dirs T (lock_waiters L) rl ws (kst c) \<and> lock_ctrl L T rl ws ow c)"

lemma lock_invI:
  assumes "queues_ok dirs T (lock_waiters L) rl ws (kst c)" "own_ok T (pc c) ow (lock_data L (kst c))"
    "sleep_ok T (idle_thread (kst c)) (cfg_cur c) rl ws (pc c) (susp c)" "wake_ok T ws ow (pc c)"
  shows "lock_inv dirs T L c"
  using assms unfolding lock_inv_def lock_ctrl_def by blast

lemma lock_invE:
  assumes "lock_inv dirs T L c"
  obtains rl ws ow where "queues_ok dirs T (lock_waiters L) rl ws (kst c)"
    "own_ok T (pc c) ow (lock_data L (kst c))"
    "sleep_ok T (idle_thread (kst c)) (cfg_cur c) rl ws (pc c) (susp c)" "wake_ok T ws ow (pc c)"
  using assms unfolding lock_inv_def lock_ctrl_def by blast

lemma lock_inv_cur:
  assumes "queues_ok dirs T (lock_waiters L) rl ws (kst c)"
  shows "cfg_cur c \<in> T" "cfg_cur c \<notin> set ws" "cfg_cur c \<notin> set rl" "NULL \<notin> T" "idle_thread (kst c) \<in> T"
    "cfg_cur c \<noteq> NULL" "set ws \<subseteq> T"
proof -
  show "set ws \<subseteq> T" using assms by (simp add: queues_ok_def)
qed (use queues_ok_parts [OF assms] in \<open>auto simp: cfg_cur_def tasks_ok_def\<close>)

lemma lock_data_update [simp]:
  "lock_data L (set_value (lock_sema L) v s) = (v, snd (lock_data L s))"
  "lock_data L (set_holder L h s) = (fst (lock_data L s), h, snd (snd (lock_data L s)))"
  "lock_data L (set_repeat L r s) = (fst (lock_data L s), fst (snd (lock_data L s)), r)"
  "lock_data L (s\<lparr>eflags := e\<rparr>) = lock_data L s"
  by (simp_all add: lock_data_def set_value_def set_holder_def set_repeat_def)

lemma idle_update [simp]:
  "idle_thread (set_value p v s) = idle_thread s" "idle_thread (set_holder p h s) = idle_thread s"
  "idle_thread (set_repeat p r s) = idle_thread s"
  by (simp_all add: set_value_def set_holder_def set_repeat_def)

text \<open>Moves of the running thread between statements that are not in \<open>sema_down\<close>.\<close>

lemma sleep_ok_move:
  assumes "sleep_ok T idle me rl ws pcs sus" "me \<in> T" "sus me = Awake" "\<not> asleep l" "me \<noteq> idle"
  shows "sleep_ok T idle me rl ws (pcs(me := l)) sus"
  using assms by (auto simp: sleep_ok_def)

lemma wake_ok_move:
  assumes "wake_ok T ws ow pcs" "\<not> asleep (pcs me)"
  shows "wake_ok T ws ow (pcs(me := l))"
  using assms by (auto simp: wake_ok_def)

lemma own_ok_move:
  assumes "own_ok T pcs (Some me) d" "owner_data l me h r" "owning l"
  shows "own_ok T (pcs(me := l)) (Some me) (0, h, r)"
  using assms by (auto simp: own_ok_def)

lemma own_ok_owner:
  assumes "own_ok T pcs ow d" "me \<in> T" "owning (pcs me)"
  shows "ow = Some me" "fst d = 0" "owner_data (pcs me) me (fst (snd d)) (snd (snd d))"
  using assms by (auto simp: own_ok_def)

lemma awake_not_asleep:
  assumes "sleep_ok T idle me rl ws pcs sus" "me \<in> T" "sus me = Awake"
  shows "\<not> asleep (pcs me)"
  using assms by (auto simp: sleep_ok_def)

lemma exec_call_acquire:
  assumes "lock_inv dirs T L c" "lock_enabled L T Call_acquire c"
  shows "\<exists>c'. lock_exec L Call_acquire c = Some c' \<and> lock_inv dirs T L c'"
proof -
  obtain rl ws ow where q: "queues_ok dirs T (lock_waiters L) rl ws (kst c)"
    and own: "own_ok T (pc c) ow (lock_data L (kst c))"
    and slp: "sleep_ok T (idle_thread (kst c)) (cfg_cur c) rl ws (pc c) (susp c)" and wk: "wake_ok T ws ow (pc c)"
    using assms(1) by (auto simp: lock_inv_def lock_ctrl_def)
  note T = lock_inv_cur [OF q]
  have aw: "susp c (cfg_cur c) = Awake" "cfg_cur c \<noteq> idle_thread (kst c)" using assms(2) by auto
  show ?thesis
  proof (cases "pc c (cfg_cur c) = Inside")
    case True
    then have o: "ow = Some (cfg_cur c)" "lock_data L (kst c) = (0, cfg_cur c, lock_repeat (kst c) L)"
      using own_ok_owner [OF own T(1)] by (auto simp: lock_data_def)
    have "lock_repeat (kst c) L + 1 \<noteq> 0" using True assms(2) by (simp add: eq_neg_iff_add_eq_0)
    then have "own_ok T (pc c) ow (0, cfg_cur c, lock_repeat (kst c) L + 1)"
      using own o True by (auto simp: own_ok_def)
    then have "lock_inv dirs T L (c\<lparr>kst := set_repeat L (lock_repeat (kst c) L + 1) (kst c)\<rparr>)"
      by (intro lock_invI [of _ _ _ rl ws _ ow]) (use q slp wk o in \<open>simp_all add: cfg_cur_def\<close>)
    moreover have "lock_holder (kst c) L = cfg_cur c" using o(2) by (simp add: lock_data_def)
    ultimately show ?thesis by simp
  next
    case False
    then have out: "pc c (cfg_cur c) = Out" using assms(2) by auto
    have "lock_holder (kst c) L \<noteq> cfg_cur c"
    proof (cases ow)
      case (Some p)
      then have "p \<noteq> cfg_cur c" "owner_data (pc c p) p (lock_holder (kst c) L) (lock_repeat (kst c) L)"
        using own out T(1) by (auto simp: own_ok_def lock_data_def)
      then show ?thesis using T(6) by (cases "pc c p") auto
    qed (use own T(6) in \<open>auto simp: own_ok_def lock_data_def\<close>)
    moreover have "own_ok T ((pc c)(cfg_cur c := Acq_down)) ow (lock_data L (kst c))"
      using own out T(1) by (auto simp: own_ok_def split: option.splits)
    moreover have "wake_ok T ws ow ((pc c)(cfg_cur c := Acq_down))" using wake_ok_move [OF wk] out by simp
    moreover have "sleep_ok T (idle_thread (kst c)) (cfg_cur c) rl ws ((pc c)(cfg_cur c := Acq_down)) (susp c)"
      using sleep_ok_move [OF slp T(1) aw(1) _ aw(2)] by simp
    ultimately have "lock_inv dirs T L (c\<lparr>pc := (pc c)(cfg_cur c := Acq_down)\<rparr>)"
      by (intro lock_invI [of _ _ _ rl ws _ ow]) (use q in \<open>simp_all add: cfg_cur_def\<close>)
    then show ?thesis using \<open>lock_holder (kst c) L \<noteq> cfg_cur c\<close> by simp
  qed
qed

text \<open>The owner moves to another statement and changes the data accordingly.\<close>

lemma owner_step:
  assumes inv: "lock_inv dirs T L c" and aw: "susp c (cfg_cur c) = Awake" and me: "owning (pc c (cfg_cur c))"
    and new: "owning l" "owner_data l (cfg_cur c) h r"
    and s': "\<And>rl ws. queues_ok dirs T (lock_waiters L) rl ws (kst c) \<Longrightarrow> queues_ok dirs T (lock_waiters L) rl ws s'"
      "running_thread s' = cfg_cur c" "idle_thread s' = idle_thread (kst c)" "lock_data L s' = (0, h, r)"
  shows "lock_inv dirs T L (c\<lparr>kst := s', pc := (pc c)(cfg_cur c := l)\<rparr>)"
proof -
  obtain rl ws ow where c: "queues_ok dirs T (lock_waiters L) rl ws (kst c)"
    "own_ok T (pc c) ow (lock_data L (kst c))"
    "sleep_ok T (idle_thread (kst c)) (cfg_cur c) rl ws (pc c) (susp c)" "wake_ok T ws ow (pc c)"
    using lock_invE [OF inv] by blast
  note T = lock_inv_cur [OF c(1)]
  have o: "ow = Some (cfg_cur c)" using own_ok_owner [OF c(2) T(1) me] by simp
  have na: "\<not> asleep l" using new(1) by (cases l) auto
  have ni: "cfg_cur c \<noteq> idle_thread (kst c)" using c(3) me by (auto simp: sleep_ok_def)
  have na': "\<not> asleep (pc c (cfg_cur c))" using me by (cases "pc c (cfg_cur c)") auto
  show ?thesis
    by (rule lock_invI [of _ _ _ rl ws _ ow])
      (use s' own_ok_move [OF c(2) [unfolded o] new(2,1)] sleep_ok_move [OF c(3) T(1) aw na ni]
        wake_ok_move [OF c(4) na', of l] c(1) o in \<open>simp_all add: cfg_cur_def\<close>)
qed

lemma exec_call_release:
  assumes inv: "lock_inv dirs T L c" and en: "lock_enabled L T Call_release c"
  shows "\<exists>c'. lock_exec L Call_release c = Some c' \<and> lock_inv dirs T L c'"
proof -
  obtain rl ws ow where c: "queues_ok dirs T (lock_waiters L) rl ws (kst c)"
    "own_ok T (pc c) ow (lock_data L (kst c))"
    using lock_invE [OF inv] by blast
  have i: "pc c (cfg_cur c) = Inside" and aw: "susp c (cfg_cur c) = Awake" using en by auto
  have d: "lock_data L (kst c) = (0, cfg_cur c, lock_repeat (kst c) L)" "lock_repeat (kst c) L \<noteq> 0"
    using own_ok_owner [OF c(2) lock_inv_cur(1) [OF c(1)]] i by (auto simp: lock_data_def)
  have h: "lock_holder (kst c) L = running_thread (kst c)" using d(1) by (simp add: lock_data_def cfg_cur_def)
  show ?thesis
  proof (cases "lock_repeat (kst c) L > 1")
    case True
    then have "lock_repeat (kst c) L - 1 \<noteq> 0" by auto
    then have "lock_inv dirs T L (c\<lparr>kst := set_repeat L (lock_repeat (kst c) L - 1) (kst c),
        pc := (pc c)(cfg_cur c := Inside)\<rparr>)"
      by (intro owner_step [OF inv aw]) (use i d in \<open>simp_all add: cfg_cur_def\<close>)
    then show ?thesis using True h by (simp add: release_check_def)
  next
    case False
    then have one: "lock_repeat (kst c) L = 1" using d(2) by (simp add: not_less word_le_nat_alt word_unat_eq_iff)
    then have "lock_inv dirs T L (c\<lparr>kst := kst c, pc := (pc c)(cfg_cur c := Rel_holder)\<rparr>)"
      by (intro owner_step [OF inv aw]) (use i d in \<open>simp_all add: cfg_cur_def\<close>)
    then show ?thesis using h one by (simp add: release_check_def)
  qed
qed

lemma exec_owner_statement:
  assumes inv: "lock_inv dirs T L c" and aw: "susp c (cfg_cur c) = Awake"
    and l: "pc c (cfg_cur c) \<in> {Acq_own, Acq_count, Rel_holder, Rel_repeat}"
  shows "\<exists>c'. lock_exec L Statement c = Some c' \<and> lock_inv dirs T L c'"
proof -
  obtain rl ws ow where c: "queues_ok dirs T (lock_waiters L) rl ws (kst c)"
    "own_ok T (pc c) ow (lock_data L (kst c))"
    using lock_invE [OF inv] by blast
  have o: "owning (pc c (cfg_cur c))" using l by auto
  note d = own_ok_owner [OF c(2) lock_inv_cur(1) [OF c(1)] o]
  consider "pc c (cfg_cur c) = Acq_own" | "pc c (cfg_cur c) = Acq_count" | "pc c (cfg_cur c) = Rel_holder"
    | "pc c (cfg_cur c) = Rel_repeat" using l by auto
  then show ?thesis
  proof cases
    case 1
    have "lock_inv dirs T L (c\<lparr>kst := set_holder L (cfg_cur c) (kst c), pc := (pc c)(cfg_cur c := Acq_count)\<rparr>)"
      by (intro owner_step [OF inv aw o]) (use d 1 in \<open>auto simp: cfg_cur_def\<close>)
    then show ?thesis using 1 by (simp add: acquire_own_def cfg_cur_def)
  next
    case 2
    have "lock_inv dirs T L (c\<lparr>kst := set_repeat L 1 (kst c), pc := (pc c)(cfg_cur c := Inside)\<rparr>)"
      by (intro owner_step [OF inv aw o]) (use d 2 in \<open>auto simp: cfg_cur_def\<close>)
    moreover have "lock_repeat (kst c) L = 0" using d(3) 2 by (simp add: lock_data_def)
    ultimately show ?thesis using 2 by (simp add: acquire_count_def)
  next
    case 3
    have "lock_inv dirs T L (c\<lparr>kst := set_holder L NULL (kst c), pc := (pc c)(cfg_cur c := Rel_repeat)\<rparr>)"
      by (intro owner_step [OF inv aw o]) (use d 3 in \<open>auto simp: cfg_cur_def\<close>)
    then show ?thesis using 3 by simp
  next
    case 4
    have "lock_inv dirs T L (c\<lparr>kst := set_repeat L 0 (kst c), pc := (pc c)(cfg_cur c := Rel_up)\<rparr>)"
      by (intro owner_step [OF inv aw o]) (use d 4 in \<open>auto simp: cfg_cur_def\<close>)
    then show ?thesis using 4 by simp
  qed
qed

lemma exec_up:
  assumes inv: "lock_inv dirs T L c" and aw: "susp c (cfg_cur c) = Awake" and l: "pc c (cfg_cur c) = Rel_up"
  shows "\<exists>c'. lock_exec L Statement c = Some c' \<and> lock_inv dirs T L c'"
proof -
  obtain rl ws ow where c: "queues_ok dirs T (lock_waiters L) rl ws (kst c)"
    "own_ok T (pc c) ow (lock_data L (kst c))"
    "sleep_ok T (idle_thread (kst c)) (cfg_cur c) rl ws (pc c) (susp c)" "wake_ok T ws ow (pc c)"
    using lock_invE [OF inv] by blast
  note T = lock_inv_cur [OF c(1)]
  have o: "ow = Some (cfg_cur c)" "lock_data L (kst c) = (0, NULL, 0)"
    using own_ok_owner [OF c(2) T(1)] l by (auto simp: lock_data_def)
  let ?rl = "case ws of [] \<Rightarrow> rl | w # _ \<Rightarrow> w # rl"
  obtain s' where s': "sema_up (lock_sema L) (kst c) = Some s'" "queues_ok dirs T (lock_waiters L) ?rl (tl ws) s'"
    "running_thread s' = running_thread (kst c)" "idle_thread s' = idle_thread (kst c)"
    "sema_value s' = (sema_value (kst c))(lock_sema L := 1)" "lock_holder s' = lock_holder (kst c)"
    "lock_repeat s' = lock_repeat (kst c)"
    using sema_up_queues [OF c(1)] o(2) by (auto simp: lock_data_def)
  let ?pc = "(pc c)(cfg_cur c := Out)"
  have "own_ok T ?pc None (lock_data L s')"
    using c(2) o s'(5-7) by (auto simp: own_ok_def lock_data_def)
  moreover have "sleep_ok T (idle_thread (kst c)) (cfg_cur c) ?rl (tl ws) ?pc (susp c)"
    using c(3) T aw l by (cases ws) (auto simp: sleep_ok_def)
  moreover have "wake_ok T (tl ws) None ?pc"
  proof (cases ws)
    case (Cons w ws')
    have "w \<notin> set ws'" using c(1) Cons by (auto simp: queues_ok_def dlist_def nodes_def)
    moreover have "asleep (?pc w)" "w \<in> T" using c(3) T Cons by (auto simp: sleep_ok_def)
    ultimately show ?thesis
      using Cons unfolding wake_ok_def by (metis list.sel(3))
  qed (simp add: wake_ok_def)
  ultimately have "lock_inv dirs T L (c\<lparr>kst := s', pc := ?pc\<rparr>)"
    by (intro lock_invI [of _ _ _ ?rl "tl ws" _ None]) (use s'(2-4) in \<open>simp_all add: cfg_cur_def\<close>)
  then show ?thesis using s'(1) l by simp
qed

text \<open>After a turn of the loop of \<open>sema_down\<close>: the semaphore was taken, or the thread sleeps.\<close>

lemma down_got:
  assumes c: "queues_ok dirs T (lock_waiters L) rl ws (kst c)" "own_ok T (pc c) None (lock_data L (kst c))"
    "sleep_ok T (idle_thread (kst c)) (cfg_cur c) rl ws (pc c) (susp c)"
    and me: "cfg_cur c \<noteq> idle_thread (kst c)"
    and s': "queues_ok dirs T (lock_waiters L) rl ws s'" "running_thread s' = cfg_cur c"
      "idle_thread s' = idle_thread (kst c)" "lock_data L s' = (0, NULL, 0)"
  shows "lock_inv dirs T L (after_down old (cfg_cur c) (Got, s') c)"
proof -
  note T = lock_inv_cur [OF c(1)]
  have "own_ok T ((pc c)(cfg_cur c := Acq_own)) (Some (cfg_cur c)) (0, NULL, 0)"
    using c(2) T(1) by (auto simp: own_ok_def)
  moreover have "sleep_ok T (idle_thread (kst c)) (cfg_cur c) rl ws ((pc c)(cfg_cur c := Acq_own))
      ((susp c)(cfg_cur c := Awake))"
    using c(3) T(1,2) me by (auto simp: sleep_ok_def)
  ultimately show ?thesis
    by (intro lock_invI [of _ _ _ rl ws _ "Some (cfg_cur c)"])
      (use s' in \<open>simp_all add: after_down_def cfg_cur_def wake_ok_def\<close>)
qed

lemma down_slept:
  assumes c: "queues_ok dirs T (lock_waiters L) rl ws (kst c)" "own_ok T (pc c) (Some p) (lock_data L (kst c))"
    "sleep_ok T (idle_thread (kst c)) (cfg_cur c) rl ws (pc c) (susp c)"
    and me: "cfg_cur c \<noteq> idle_thread (kst c)" "\<not> owning (pc c (cfg_cur c))"
    and s': "queues_ok dirs T (lock_waiters L) (tl rl) (ws @ [cfg_cur c]) s'"
      "running_thread s' = (case rl of [] \<Rightarrow> idle_thread (kst c) | p # _ \<Rightarrow> p)"
      "idle_thread s' = idle_thread (kst c)" "lock_data L s' = lock_data L (kst c)"
  shows "lock_inv dirs T L (after_down old (cfg_cur c) (Slept INTR_OFF, s') c)"
proof -
  note T = lock_inv_cur [OF c(1)]
  let ?nxt = "case rl of [] \<Rightarrow> idle_thread (kst c) | p # _ \<Rightarrow> p"
  let ?pc = "(pc c)(cfg_cur c := Acq_sleep old)" and ?susp = "(susp c)(cfg_cur c := In_sema INTR_OFF)"
  have "own_ok T ?pc (Some p) (lock_data L (kst c))"
    using c(2) me(2) by (auto simp: own_ok_def)
  moreover have "sleep_ok T (idle_thread (kst c)) ?nxt (tl rl) (ws @ [cfg_cur c]) ?pc ?susp"
    using c(3) T me(1) by (cases rl) (auto simp: sleep_ok_def)
  ultimately show ?thesis
    by (intro lock_invI [of _ _ _ "tl rl" "ws @ [cfg_cur c]" _ "Some p"])
      (use s' in \<open>simp_all add: after_down_def cfg_cur_def wake_ok_def\<close>)
qed

lemma exec_down:
  assumes inv: "lock_inv dirs T L c" and aw: "susp c (cfg_cur c) = Awake" and l: "pc c (cfg_cur c) = Acq_down"
  shows "\<exists>c'. lock_exec L Statement c = Some c' \<and> lock_inv dirs T L c'"
proof -
  obtain rl ws ow where c: "queues_ok dirs T (lock_waiters L) rl ws (kst c)"
    "own_ok T (pc c) ow (lock_data L (kst c))"
    "sleep_ok T (idle_thread (kst c)) (cfg_cur c) rl ws (pc c) (susp c)"
    using lock_invE [OF inv] by blast
  have me: "cfg_cur c \<noteq> idle_thread (kst c)" "\<not> owning (pc c (cfg_cur c))" using c(3) l by (auto simp: sleep_ok_def)
  show ?thesis
  proof (cases ow)
    case None
    then have d: "lock_data L (kst c) = (1, NULL, 0)" using c(2) by (simp add: own_ok_def)
    then have "sema_down (lock_sema L) (kst c) = Some (intr_get_status (kst c), Got, set_value (lock_sema L) 0 (kst c))"
      by (intro sema_down_got) (simp add: lock_data_def)
    moreover have "lock_inv dirs T L (after_down (intr_get_status (kst c)) (cfg_cur c) (Got, set_value (lock_sema L) 0 (kst c)) c)"
      by (rule down_got [OF c(1) _ c(3) me(1)]) (use c d None in \<open>simp_all add: cfg_cur_def\<close>)
    ultimately show ?thesis using l by simp
  next
    case (Some p)
    then have "sema_value (kst c) (lock_sema L) = 0" using c(2) by (auto simp: own_ok_def lock_data_def)
    then obtain s' where s': "sema_down (lock_sema L) (kst c) = Some (intr_get_status (kst c), Slept INTR_OFF, s')"
      "queues_ok dirs T (lock_waiters L) (tl rl) (ws @ [cfg_cur c]) s'"
      "running_thread s' = (case rl of [] \<Rightarrow> idle_thread (kst c) | p # _ \<Rightarrow> p)"
      "idle_thread s' = idle_thread (kst c)" "lock_data L s' = lock_data L (kst c)"
      using sema_down_sleep [OF c(1)] me(1) by (auto simp: cfg_cur_def lock_data_def)
    then show ?thesis
      using down_slept [OF c(1) c(2) [unfolded Some] c(3) me s'(2-5)] l by simp
  qed
qed

lemma intr_set_status_eflags: "\<exists>e. snd (intr_set_status st c) = c\<lparr>eflags := e\<rparr>"
proof -
  have "c = c\<lparr>eflags := eflags c\<rparr>" by simp
  then show ?thesis
    unfolding intr_set_status_def intr_enable_def intr_disable_def sti_def cli_def by (auto; metis)
qed

lemma exec_resume_sema:
  assumes inv: "lock_inv dirs T L c" and slp: "susp c (cfg_cur c) = In_sema i"
  shows "\<exists>c'. lock_exec L Resume c = Some c' \<and> lock_inv dirs T L c'"
proof -
  obtain rl ws ow where c: "queues_ok dirs T (lock_waiters L) rl ws (kst c)"
    "own_ok T (pc c) ow (lock_data L (kst c))"
    "sleep_ok T (idle_thread (kst c)) (cfg_cur c) rl ws (pc c) (susp c)"
    using lock_invE [OF inv] by blast
  note T = lock_inv_cur [OF c(1)]
  have i: "i = INTR_OFF" "asleep (pc c (cfg_cur c))"
    using c(3) T(1) slp by (cases i; auto simp: sleep_ok_def)+
  then obtain old where l: "pc c (cfg_cur c) = Acq_sleep old" by (cases "pc c (cfg_cur c)") auto
  have me: "cfg_cur c \<noteq> idle_thread (kst c)" "\<not> owning (pc c (cfg_cur c))" using c(3) l by (auto simp: sleep_ok_def)
  let ?d = "(kst c)\<lparr>eflags := eflags (kst c) AND NOT EFLAGS_IF\<rparr>"
  have d: "resume_intr i (kst c) = ?d" by (simp add: i resume_intr_def intr_set_status_def intr_disable_eq)
  have off: "intr_get_status ?d = INTR_OFF" by (simp add: intr_get_status_bit bit_simps)
  have ex: "lock_exec L Resume c = do {
      ws \<leftarrow> sema_down_resume (lock_sema L) i old (kst c); Some (after_down old (cfg_cur c) ws c) }"
    by (simp add: slp l)
  show ?thesis
  proof (cases ow)
    case None
    then have ld: "lock_data L (kst c) = (1, NULL, 0)" using c(2) by (simp add: own_ok_def)
    obtain e where e: "snd (intr_set_status old (set_value (lock_sema L) 0 ?d)) = (set_value (lock_sema L) 0 ?d)\<lparr>eflags := e\<rparr>"
      using intr_set_status_eflags by blast
    have "sema_down_resume (lock_sema L) i old (kst c) = Some (Got, (set_value (lock_sema L) 0 ?d)\<lparr>eflags := e\<rparr>)"
      using sema_down_turn_one [of ?d "lock_sema L"] ld e
      by (simp add: sema_down_resume_def d sema_down_end_def lock_data_def)
    moreover have "lock_inv dirs T L (after_down old (cfg_cur c) (Got, (set_value (lock_sema L) 0 ?d)\<lparr>eflags := e\<rparr>) c)"
      by (rule down_got [OF c(1) _ c(3) me(1)]) (use c ld None in \<open>simp_all add: cfg_cur_def\<close>)
    ultimately show ?thesis unfolding ex by simp
  next
    case (Some p)
    then have "sema_value ?d (lock_sema L) = 0" using c(2) by (auto simp: own_ok_def lock_data_def)
    then obtain s' where s': "sema_down_turn (lock_sema L) ?d = Some (Slept INTR_OFF, s')"
      "queues_ok dirs T (lock_waiters L) (tl rl) (ws @ [running_thread ?d]) s'"
      "running_thread s' = (case rl of [] \<Rightarrow> idle_thread ?d | p # _ \<Rightarrow> p)" "same_env ?d s'"
      using sema_down_turn_zero [of dirs T "lock_sema L" rl ws ?d] c(1) me(1) off by (auto simp: cfg_cur_def)
    have "sema_down_resume (lock_sema L) i old (kst c) = Some (Slept INTR_OFF, s')"
      using s'(1) by (simp add: sema_down_resume_def d sema_down_end_def)
    moreover have "lock_inv dirs T L (after_down old (cfg_cur c) (Slept INTR_OFF, s') c)"
      by (rule down_slept [OF c(1) c(2) [unfolded Some] c(3) me])
        (use s' lock_data_same_env [OF s'(4)] in \<open>simp_all add: cfg_cur_def same_env_def split: list.split\<close>)
    ultimately show ?thesis unfolding ex by simp
  qed
qed

lemma exec_resume_other:
  assumes inv: "lock_inv dirs T L c" and su: "susp c (cfg_cur c) = Preempted \<or> susp c (cfg_cur c) = In_block i"
  shows "\<exists>c'. lock_exec L Resume c = Some c' \<and> lock_inv dirs T L c'"
proof -
  obtain rl ws ow where c: "queues_ok dirs T (lock_waiters L) rl ws (kst c)"
    "own_ok T (pc c) ow (lock_data L (kst c))"
    "sleep_ok T (idle_thread (kst c)) (cfg_cur c) rl ws (pc c) (susp c)" "wake_ok T ws ow (pc c)"
    using lock_invE [OF inv] by blast
  have s: "sleep_ok T (idle_thread (kst c)) (cfg_cur c) rl ws (pc c) ((susp c)(cfg_cur c := Awake))"
    using c(3) su lock_inv_cur [OF c(1)] by (auto simp: sleep_ok_def)
  have "lock_inv dirs T L (c\<lparr>kst := (kst c)\<lparr>eflags := e\<rparr>, susp := (susp c)(cfg_cur c := Awake)\<rparr>)" for e
    by (rule lock_invI [of _ _ _ rl ws _ ow]) (use c s in \<open>simp_all add: cfg_cur_def\<close>)
  moreover obtain e where "resume_intr i (kst c) = (kst c)\<lparr>eflags := e\<rparr>"
    using intr_set_status_eflags unfolding resume_intr_def by blast
  ultimately show ?thesis using su by (auto simp: sti_def)
qed

lemma exec_preempt:
  assumes inv: "lock_inv dirs T L c" and en: "lock_enabled L T Preempt c"
  shows "\<exists>c'. lock_exec L Preempt c = Some c' \<and> lock_inv dirs T L c'"
proof -
  obtain rl ws ow where c: "queues_ok dirs T (lock_waiters L) rl ws (kst c)"
    "own_ok T (pc c) ow (lock_data L (kst c))"
    "sleep_ok T (idle_thread (kst c)) (cfg_cur c) rl ws (pc c) (susp c)" "wake_ok T ws ow (pc c)"
    using lock_invE [OF inv] by blast
  note T = lock_inv_cur [OF c(1)]
  let ?d = "cli (kst c)" and ?q = "rl @ [cfg_cur c]"
  have d: "queues_ok dirs T (lock_waiters L) rl ws ?d" "intr_get_status ?d = INTR_OFF" "running_thread ?d = cfg_cur c"
    using c(1) by (simp_all add: cli_def intr_get_status_bit bit_simps cfg_cur_def)
  obtain s' where s': "schedule ?d = Some s'" "queues_ok dirs T (lock_waiters L) (tl ?q) ws s'"
      "running_thread s' = hd ?q" "same_env ?d s'"
    using queues_preempt [OF d(1,2)] d(3) by auto
  have "sleep_ok T (idle_thread (kst c)) (hd ?q) (tl ?q) ws (pc c) ((susp c)(cfg_cur c := Preempted))"
    using c(3) T(1) en by (cases rl) (auto simp: sleep_ok_def)
  moreover have "idle_thread s' = idle_thread (kst c)" "lock_data L s' = lock_data L (kst c)"
    using s'(4) lock_data_same_env [OF s'(4), of L] by (simp_all add: same_env_def cli_def)
  ultimately have "lock_inv dirs T L (c\<lparr>kst := s', susp := (susp c)(cfg_cur c := Preempted)\<rparr>)"
    by (intro lock_invI [of _ _ _ "tl ?q" ws _ ow]) (use s' c in \<open>simp_all add: cfg_cur_def\<close>)
  then show ?thesis using s'(1) by (simp add: preempt_def)
qed

lemma exec_block:
  assumes inv: "lock_inv dirs T L c" and en: "lock_enabled L T (Block st) c"
  shows "\<exists>c'. lock_exec L (Block st) c = Some c' \<and> lock_inv dirs T L c'"
proof -
  obtain rl ws ow where c: "queues_ok dirs T (lock_waiters L) rl ws (kst c)"
    "own_ok T (pc c) ow (lock_data L (kst c))"
    "sleep_ok T (idle_thread (kst c)) (cfg_cur c) rl ws (pc c) (susp c)" "wake_ok T ws ow (pc c)"
    using lock_invE [OF inv] by blast
  note T = lock_inv_cur [OF c(1)]
  let ?nxt = "case rl of [] \<Rightarrow> idle_thread (kst c) | p # _ \<Rightarrow> p" and ?i = "intr_get_status (kst c)"
  have st: "is_blocked st" using en by simp
  obtain s' where s': "thread_block st (kst c) = Some (?i, s')" "queues_ok dirs T (lock_waiters L) (tl rl) ws s'"
      "running_thread s' = ?nxt" "same_env ((kst c)\<lparr>eflags := eflags (kst c) AND NOT EFLAGS_IF\<rparr>) s'"
    using queues_block [OF c(1) st] by blast
  have "sleep_ok T (idle_thread (kst c)) ?nxt (tl rl) ws (pc c) ((susp c)(cfg_cur c := In_block ?i))"
    using c(3) T(1) en by (cases rl) (auto simp: sleep_ok_def)
  moreover have "idle_thread s' = idle_thread (kst c)" "lock_data L s' = lock_data L (kst c)"
    using s'(4) lock_data_same_env [OF s'(4), of L] by (simp_all add: same_env_def)
  ultimately have "lock_inv dirs T L (c\<lparr>kst := s', susp := (susp c)(cfg_cur c := In_block ?i)\<rparr>)"
    by (intro lock_invI [of _ _ _ "tl rl" ws _ ow]) (use s' c in \<open>simp_all add: cfg_cur_def\<close>)
  then show ?thesis using s'(1) by simp
qed

lemma exec_unblock:
  assumes inv: "lock_inv dirs T L c" and en: "lock_enabled L T (Unblock p) c"
  shows "\<exists>c'. lock_exec L (Unblock p) c = Some c' \<and> lock_inv dirs T L c'"
proof -
  obtain rl ws ow where c: "queues_ok dirs T (lock_waiters L) rl ws (kst c)"
    "own_ok T (pc c) ow (lock_data L (kst c))"
    "sleep_ok T (idle_thread (kst c)) (cfg_cur c) rl ws (pc c) (susp c)" "wake_ok T ws ow (pc c)"
    using lock_invE [OF inv] by blast
  have p: "p \<in> T" "is_blocked (status (tcb (kst c) p))" "p \<notin> set ws"
    using en c(3) by (auto simp: sleep_ok_def elim!: in_block.elims)
  obtain s' where s': "thread_unblock p (kst c) = Some s'" "queues_ok dirs T (lock_waiters L) (p # rl) ws s'"
      "running_thread s' = running_thread (kst c)" "same_env (kst c) s'"
    using queues_unblock [OF c(1) p] by blast
  have "sleep_ok T (idle_thread (kst c)) (cfg_cur c) (p # rl) ws (pc c) (susp c)"
    using c(3) by (auto simp: sleep_ok_def)
  moreover have "idle_thread s' = idle_thread (kst c)" "lock_data L s' = lock_data L (kst c)"
    using s'(4) lock_data_same_env [OF s'(4), of L] by (simp_all add: same_env_def)
  ultimately have "lock_inv dirs T L (c\<lparr>kst := s'\<rparr>)"
    by (intro lock_invI [of _ _ _ "p # rl" ws _ ow]) (use s' c in \<open>simp_all add: cfg_cur_def\<close>)
  then show ?thesis using s'(1) by simp
qed

lemma exec_inv [wf]:
  assumes "lock_inv dirs T L c" "lock_enabled L T act c"
  shows "\<exists>c'. lock_exec L act c = Some c' \<and> lock_inv dirs T L c'"
proof (cases act)
  case Statement
  then have "susp c (cfg_cur c) = Awake" "pc c (cfg_cur c) \<in> {Acq_down, Acq_own, Acq_count, Rel_holder, Rel_repeat, Rel_up}"
    using assms(2) by auto
  then show ?thesis
    using exec_owner_statement [OF assms(1)] exec_up [OF assms(1)] exec_down [OF assms(1)] Statement by blast
next
  case Resume
  then show ?thesis
    using assms(2) exec_resume_sema [OF assms(1)] exec_resume_other [OF assms(1)]
    by (cases "susp c (cfg_cur c)") (auto simp del: lock_exec.simps)
qed (use assms exec_call_acquire exec_call_release exec_preempt exec_block exec_unblock in \<open>simp_all del: lock_exec.simps lock_enabled.simps\<close>)

lemma reachable_inv:
  assumes "lock_reachable L T c0 c" "lock_inv dirs T L c0"
  shows "lock_inv dirs T L c"
  using assms
proof (induction rule: lock_reachable.induct)
  case (step c act c')
  then show ?case using exec_inv [of dirs T L c act] by auto
qed

lemma run_ops_reachable:
  assumes "lock_reachable L T c0 c" "run_ops L T acts c = Some c'"
  shows "lock_reachable L T c0 c'"
  using assms
proof (induction acts arbitrary: c)
  case (Cons act acts)
  then obtain c1 where "lock_enabled L T act c" "lock_exec L act c = Some c1" "run_ops L T acts c1 = Some c'"
    by (auto simp: Option.bind_eq_Some_conv split: if_splits)
  then show ?case using Cons.IH [of c1] lock_reachable.step [OF Cons.prems(1)] by blast
qed simp

text \<open>\<open>lock_init\<close> establishes the invariant.\<close>

lemma lock_init_inv:
  assumes inv: "sched_inv dirs T rl s" and run: "status (tcb s (running_thread s)) = TASK_RUNNING"
    and ap: "waiters_apart (lock_waiters L) T s" and i: "lock_init L s = Some s'"
  shows "lock_inv dirs T L (start_cfg s')"
proof -
  let ?W = "lock_waiters L" and ?s = "set_value (lock_sema L) 1 (set_repeat L 0 (set_holder L NULL s))"
  have li: "list_init ?W ?s = Some s'" using i by (simp add: lock_init_def sema_init_def)
  then have s': "s' = ?s\<lparr>next_of := (next_of s)(list_head ?W := list_tail ?W, list_tail ?W := NULL),
      prev_of := (prev_of s)(list_head ?W := NULL, list_tail ?W := list_head ?W)\<rparr>"
      and nz: "list_head ?W \<noteq> NULL" "list_tail ?W \<noteq> NULL"
    by (auto simp: list_init_def wr_prev_def wr_next_def set_value_def set_repeat_def set_holder_def
        split: if_splits)
  have d: "dlist s' ?W (map general_tag [])"
    using list_init_dlist [OF nz, of ?s] li by simp
  have ls: "links_same (set (nodes ?W (map general_tag []))) s s'"
    by (auto simp: s' links_same_def nodes_def set_value_def set_repeat_def set_holder_def)
  have p: "tasks_ok dirs T s" "set rl \<subseteq> T" "ready_queue s rl" using inv by (auto simp: sched_inv_def)
  have "set (nodes (thread_ready_list s) (map general_tag rl)) \<inter> set (nodes ?W (map general_tag [])) = {}"
    unfolding nodes_tag_nodes using nodes_apart [OF ap p(1) _ p(2), of "[]"] by auto
  then have "dlist s' (thread_ready_list s) (map general_tag rl)"
    using dlist_links_same [OF _ ls] p(3) by (simp add: ready_queue_def)
  moreover have f: "tcb s' = tcb s" "esp s' = esp s" "pmem s' = pmem s" "cr3 s' = cr3 s"
      "idle_thread s' = idle_thread s" "thread_ready_list s' = thread_ready_list s"
    by (simp_all add: s' set_value_def set_repeat_def set_holder_def)
  moreover have "addr_v2p x (s'\<lparr>cr3 := y\<rparr>) = addr_v2p x (s\<lparr>cr3 := y\<rparr>)" for x y
    by (simp add: addr_v2p_def load32_def f)
  then have "tasks_ok dirs T s'"
    using p(1) by (simp add: tasks_ok_def f running_thread_def)
  ultimately have "queues_ok dirs T ?W rl [] s'"
    using inv run ap d by (simp add: queues_ok_def sched_inv_def ready_queue_def running_thread_def waiters_apart_def)
  moreover have "lock_data L s' = (1, NULL, 0)"
    by (simp add: s' lock_data_def set_value_def set_repeat_def set_holder_def)
  ultimately show ?thesis
    by (intro lock_invI [of _ _ _ rl "[]" _ None])
      (simp_all add: start_cfg_def own_ok_def sleep_ok_def wake_ok_def cfg_cur_def)
qed

lemma owns_owning: "owns c p = owning (pc c p)"
  by (cases "pc c p") (simp_all add: owns_def)

subsection \<open>The lock without contention\<close>

text \<open>
  A lock nobody holds and nobody waits for. The sequential components bracket their critical
  sections with it: \<open>take_lock\<close> and \<open>drop_lock\<close> are what the two calls then amount to.
\<close>

definition lock_free :: "addr \<Rightarrow> 'a sync_state_scheme \<Rightarrow> bool" where
  "lock_free L s \<longleftrightarrow> sema_value s (lock_sema L) = 1 \<and> lock_holder s L = NULL \<and> lock_repeat s L = 0"

definition lock_idle :: "addr \<Rightarrow> 'a sync_state_scheme \<Rightarrow> bool" where
  "lock_idle L s \<longleftrightarrow> lock_free L s \<and> list_empty (lock_waiters L) s = Some True"

definition take_lock :: "addr \<Rightarrow> 'a sync_state_scheme \<Rightarrow> 'a sync_state_scheme" where
  "take_lock L s = set_repeat L 1 (set_holder L (running_thread s) (set_value (lock_sema L) 0 s))"

definition drop_lock :: "addr \<Rightarrow> 'a sync_state_scheme \<Rightarrow> 'a sync_state_scheme" where
  "drop_lock L s = set_value (lock_sema L) 1 (set_repeat L 0 (set_holder L NULL s))"

lemma lock_acquire_free:
  assumes "lock_free L s" "running_thread s \<noteq> NULL"
  shows "lock_acquire L s = Some (Got, take_lock L s)"
  using assms sema_down_got [of s "lock_sema L"]
  by (auto simp: lock_acquire_def lock_free_def acquire_count_def acquire_own_def set_value_def set_holder_def
      take_lock_def)

lemma sema_up_alone:
  assumes "sema_value s p = 0" "list_empty (sema_waiters p) s = Some True"
  shows "sema_up p s = Some (set_value p 1 s)"
proof -
  have "list_empty (sema_waiters p) (s\<lparr>eflags := eflags s AND NOT EFLAGS_IF\<rparr>) = Some True"
    using assms(2) by (simp add: list_empty_def rd_next_def split: if_splits)
  moreover have "snd (intr_set_status (intr_get_status s)
      (set_value p 1 (s\<lparr>eflags := eflags s AND NOT EFLAGS_IF\<rparr>))) = set_value p 1 s"
    by (subst intr_restore_eq) (simp_all add: set_value_def)
  ultimately show ?thesis
    using assms(1) by (simp add: sema_up_def intr_disable_eq) (simp add: set_value_def)
qed

lemma lock_release_alone:
  assumes "lock_holder s L = running_thread s" "lock_repeat s L = 1" "sema_value s (lock_sema L) = 0"
    "list_empty (lock_waiters L) s = Some True"
  shows "lock_release L s = Some (drop_lock L s)"
proof -
  let ?s = "set_repeat L 0 (set_holder L NULL s)"
  have "sema_value ?s (lock_sema L) = 0" "list_empty (lock_waiters L) ?s = Some True"
    using assms(3,4) by (simp_all add: set_repeat_def set_holder_def list_empty_def rd_next_def split: if_splits)
  then show ?thesis
    using assms(1,2) sema_up_alone [of ?s "lock_sema L"] by (simp add: lock_release_def release_check_def drop_lock_def)
qed

lemma drop_take_lock:
  assumes "lock_free L s"
  shows "drop_lock L (take_lock L s) = s"
proof -
  have "(sema_value s)(lock_sema L := 1) = sema_value s" "(lock_holder s)(L := NULL) = lock_holder s"
    "(lock_repeat s)(L := 0) = lock_repeat s"
    using assms by (auto simp: lock_free_def)
  then show ?thesis
    by (simp add: drop_lock_def take_lock_def set_value_def set_holder_def set_repeat_def)
qed

subsection \<open>A contended lock\<close>

text \<open>Main runs with interrupts on, two more threads are ready, idle is blocked. In \<open>demo_run\<close>
  main takes the lock and is preempted, the other two try it and go to sleep, main releases it.\<close>

definition demo_sync :: sync_state where
  "demo_sync = kstate.extend ((demo_state
     ((\<lambda>_. 0)(0xc0101044 := 0xc0009000, 0xc0102044 := 0xc0101044, 0xc0009008 := 0xc0102044))
     ((\<lambda>_. 0)(0xc0009000 := 0xc0101044, 0xc0101044 := 0xc0102044, 0xc0102044 := 0xc0009008))
     ((\<lambda>_. TASK_READY)(0xc009e000 := TASK_RUNNING, 0xc0100000 := TASK_BLOCKED)))\<lparr>eflags := 0x202\<rparr>)
     (sync_state.fields (\<lambda>_. 0) (\<lambda>_. 0) (\<lambda>_. 0))"

definition demo_tasks :: "addr set" where
  "demo_tasks = {0xc009e000, 0xc0100000, 0xc0101000, 0xc0102000}"

definition demo_run :: "lock_op list" where
  "demo_run =
     [Call_acquire, Statement, Statement, Statement, Preempt, Resume, Call_acquire, Statement,
      Resume, Call_acquire, Statement, Resume, Call_release, Statement, Statement, Statement]"

definition demo_init :: sync_state where
  "demo_init = the (lock_init 0xc0009200 demo_sync)"

definition demo_cfg :: "nat \<Rightarrow> cfg" where
  "demo_cfg n = the (run_ops 0xc0009200 demo_tasks (take n demo_run) (start_cfg demo_init))"

lemma demo_sync_start:
  "sched_inv (\<lambda>_. 0x100000) demo_tasks [0xc0101000, 0xc0102000] demo_sync"
  "status (tcb demo_sync (running_thread demo_sync)) = TASK_RUNNING"
  "waiters_apart (lock_waiters 0xc0009200) demo_tasks demo_sync"
  "lock_init 0xc0009200 demo_sync = Some demo_init"
proof -
  show "sched_inv (\<lambda>_. 0x100000) demo_tasks [0xc0101000, 0xc0102000] demo_sync"
    by (simp add: demo_sync_def demo_tasks_def demo_defs kstate.defs sync_state.defs is_blocked_def)
  show "status (tcb demo_sync (running_thread demo_sync)) = TASK_RUNNING"
    by (simp add: demo_sync_def demo_defs kstate.defs sync_state.defs)
  show "waiters_apart (lock_waiters 0xc0009200) demo_tasks demo_sync"
    by (simp add: demo_sync_def demo_tasks_def demo_defs kstate.defs sync_state.defs waiters_apart_def
        sema_waiters_def lock_sema_def)
  have "lock_init 0xc0009200 demo_sync \<noteq> None" by code_simp
  then show "lock_init 0xc0009200 demo_sync = Some demo_init" by (auto simp: demo_init_def)
qed

lemma demo_reachable:
  assumes "run_ops 0xc0009200 demo_tasks (take n demo_run) (start_cfg demo_init) \<noteq> None"
  shows "lock_reachable 0xc0009200 demo_tasks (start_cfg demo_init) (demo_cfg n)"
  using run_ops_reachable [OF lock_reachable.start] assms by (auto simp: demo_cfg_def)

subsection \<open>Properties\<close>

text \<open>C1: mutual exclusion. However the threads that use a lock are interleaved, preempted, blocked
  and woken, at most one of them is between the end of its \<open>sema_down\<close> and its \<open>sema_up\<close>, so at
  most one is inside the critical section.\<close>

theorem lock_mutual_exclusion:
  assumes "sched_inv dirs T rl s" "status (tcb s (running_thread s)) = TASK_RUNNING"
    "waiters_apart (lock_waiters L) T s" "lock_init L s = Some s'" "lock_reachable L T (start_cfg s') c"
  shows "card {p \<in> T. owns c p} \<le> 1"
proof -
  have "lock_inv dirs T L c" using reachable_inv [OF assms(5) lock_init_inv [OF assms(1-4)]] .
  then obtain ow where "\<forall>p \<in> T. owns c p \<longleftrightarrow> ow = Some p"
    by (rule lock_invE) (auto simp: own_ok_def owns_owning)
  then have "{p \<in> T. owns c p} \<subseteq> set_option ow" by auto
  then have "card {p \<in> T. owns c p} \<le> card (set_option ow)" by (rule card_mono [rotated]) simp
  also have "card (set_option ow) \<le> 1" by (cases ow) auto
  finally show ?thesis .
qed

theorem lock_mutual_exclusion_witness: "card {p \<in> demo_tasks. owns (demo_cfg 11) p} \<le> 1"
proof (rule lock_mutual_exclusion [OF demo_sync_start demo_reachable])
  show "run_ops 0xc0009200 demo_tasks (take 11 demo_run) (start_cfg demo_init) \<noteq> None" by code_simp
qed

text \<open>C2: the lock never stops the kernel and no statement of it goes wrong. In every reachable
  state every statement of \<open>lock_acquire\<close> and \<open>lock_release\<close>, every preemption, and every blocking
  or waking for another reason returns: none of the assertions in \<open>sync.c\<close>, \<open>thread_block\<close>,
  \<open>thread_unblock\<close> and \<open>schedule\<close> fails.\<close>

theorem lock_never_panics:
  assumes "sched_inv dirs T rl s" "status (tcb s (running_thread s)) = TASK_RUNNING"
    "waiters_apart (lock_waiters L) T s" "lock_init L s = Some s'" "lock_reachable L T (start_cfg s') c"
    "lock_enabled L T act c"
  shows "\<exists>c'. lock_exec L act c = Some c'"
  using exec_inv [OF reachable_inv [OF assms(5) lock_init_inv [OF assms(1-4)]] assms(6)] by blast

theorem lock_never_panics_witness: "\<exists>c'. lock_exec 0xc0009200 Statement (demo_cfg 15) = Some c'"
proof (rule lock_never_panics [OF demo_sync_start demo_reachable])
  show "run_ops 0xc0009200 demo_tasks (take 15 demo_run) (start_cfg demo_init) \<noteq> None" by code_simp
  show "lock_enabled 0xc0009200 demo_tasks Statement (demo_cfg 15)" by code_simp
qed

text \<open>C3: no wake-up is lost. In every reachable state in which the lock is free while threads are
  in its list of waiters, some thread that had gone to sleep for the lock is running or ready.\<close>

theorem lock_no_lost_wakeup:
  assumes "sched_inv dirs T rl s" "status (tcb s (running_thread s)) = TASK_RUNNING"
    "waiters_apart (lock_waiters L) T s" "lock_init L s = Some s'" "lock_reachable L T (start_cfg s') c"
    "sema_value (kst c) (lock_sema L) = 1" "list_empty (lock_waiters L) (kst c) = Some False"
  shows "\<exists>p \<in> T. asleep (pc c p) \<and> (p = cfg_cur c \<or> status (tcb (kst c) p) = TASK_READY)"
proof -
  have "lock_inv dirs T L c" using reachable_inv [OF assms(5) lock_init_inv [OF assms(1-4)]] .
  then obtain rl ws ow where c: "queues_ok dirs T (lock_waiters L) rl ws (kst c)"
    "own_ok T (pc c) ow (lock_data L (kst c))"
    "sleep_ok T (idle_thread (kst c)) (cfg_cur c) rl ws (pc c) (susp c)" "wake_ok T ws ow (pc c)"
    by (rule lock_invE)
  have "ws \<noteq> []" using dlist_empty [of "kst c" "lock_waiters L" "map general_tag ws"] c(1) assms(7)
    by (auto simp: queues_ok_def)
  moreover have "ow = None" using c(2) assms(6) by (cases ow) (auto simp: own_ok_def lock_data_def)
  ultimately obtain p where "p \<in> T" "p \<notin> set ws" "asleep (pc c p)" using c(4) by (auto simp: wake_ok_def)
  moreover from this have "p \<in> set rl \<or> p = cfg_cur c" using c(3) by (auto simp: sleep_ok_def)
  ultimately show ?thesis using c(1) by (auto simp: queues_ok_def sched_inv_def)
qed

theorem lock_no_lost_wakeup_witness:
  "\<exists>p \<in> demo_tasks. asleep (pc (demo_cfg 16) p) \<and>
    (p = cfg_cur (demo_cfg 16) \<or> status (tcb (kst (demo_cfg 16)) p) = TASK_READY)"
proof (rule lock_no_lost_wakeup [OF demo_sync_start demo_reachable])
  show "run_ops 0xc0009200 demo_tasks (take 16 demo_run) (start_cfg demo_init) \<noteq> None" by code_simp
  show "sema_value (kst (demo_cfg 16)) (lock_sema 0xc0009200) = 1" by code_simp
  show "list_empty (lock_waiters 0xc0009200) (kst (demo_cfg 16)) = Some False" by code_simp
qed

end
