(* ===== verification/Ioqueue.thy ===== *)
theory Ioqueue
  imports Sync
begin

text \<open>
  The ring buffer of \<^verbatim>\<open>device/ioqueue.c\<close>.

  A queue keeps 2048 bytes, a write position \<open>head\<close>, a read position \<open>tail\<close> and at most one
  waiting producer and consumer. The positions are only ever 0 or a result of \<open>next_pos\<close>, so
  they are natural numbers. A call that has to wait ends with \<open>Waits i\<close> (the caller sleeps in
  \<open>ioq_wait\<close>, or in the lock of the queue); \<open>ioq_getchar_resume\<close> and \<open>ioq_putchar_resume\<close> are
  what a thread does when it is woken in \<open>ioq_wait\<close>.

  \<open>ioq_list\<close> reads the buffer as the sequence of its bytes; the queue holds 2047 bytes at most. The
  locale \<open>byte_fifo\<close> states the contract that pipes and the keyboard use.
\<close>

definition bufsize :: nat where
  "bufsize = 2048"

record ioqueue =
  producer :: addr
  consumer :: addr
  buf :: "u8 list"
  head :: nat
  tail :: nat

record ioq_state = sync_state +
  ioqs :: "addr \<Rightarrow> ioqueue"

text \<open>The lock is the first member of the structure.\<close>

definition ioq_lock :: "addr \<Rightarrow> addr" where
  "ioq_lock ioq = ioq"

definition upd_ioq :: "addr \<Rightarrow> (ioqueue \<Rightarrow> ioqueue) \<Rightarrow> 'a ioq_state_scheme \<Rightarrow> 'a ioq_state_scheme" where
  "upd_ioq ioq f s = s\<lparr>ioqs := (ioqs s)(ioq := f (ioqs s ioq))\<rparr>"

definition ioqueue_init :: "addr \<Rightarrow> 'a ioq_state_scheme \<Rightarrow> 'a ioq_state_scheme option" where
  "ioqueue_init ioq s = do {
     s \<leftarrow> lock_init (ioq_lock ioq) s;
     Some (upd_ioq ioq (\<lambda>q. q\<lparr>producer := NULL, consumer := NULL, head := 0, tail := 0\<rparr>) s)
   }"

definition next_pos :: "nat \<Rightarrow> nat" where
  "next_pos pos = (pos + 1) mod bufsize"

definition ioq_full :: "addr \<Rightarrow> 'a ioq_state_scheme \<Rightarrow> bool option" where
  "ioq_full ioq s = do {
     _ \<leftarrow> ASSERT (intr_get_status s = INTR_OFF);
     Some (next_pos (head (ioqs s ioq)) = tail (ioqs s ioq))
   }"

definition ioq_empty :: "addr \<Rightarrow> 'a ioq_state_scheme \<Rightarrow> bool option" where
  "ioq_empty ioq s = do {
     _ \<leftarrow> ASSERT (intr_get_status s = INTR_OFF);
     Some (head (ioqs s ioq) = tail (ioqs s ioq))
   }"

text \<open>\<open>ioq_wait\<close> and \<open>wakeup\<close> take the address of the field; here one function per field.\<close>

definition ioq_wait_consumer :: "addr \<Rightarrow> 'a ioq_state_scheme \<Rightarrow> (intr_status \<times> 'a ioq_state_scheme) option" where
  "ioq_wait_consumer ioq s = do {
     _ \<leftarrow> ASSERT (consumer (ioqs s ioq) = NULL);
     thread_block TASK_BLOCKED (upd_ioq ioq (\<lambda>q. q\<lparr>consumer := running_thread s\<rparr>) s)
   }"

definition ioq_wait_producer :: "addr \<Rightarrow> 'a ioq_state_scheme \<Rightarrow> (intr_status \<times> 'a ioq_state_scheme) option" where
  "ioq_wait_producer ioq s = do {
     _ \<leftarrow> ASSERT (producer (ioqs s ioq) = NULL);
     thread_block TASK_BLOCKED (upd_ioq ioq (\<lambda>q. q\<lparr>producer := running_thread s\<rparr>) s)
   }"

definition wakeup_consumer :: "addr \<Rightarrow> 'a ioq_state_scheme \<Rightarrow> 'a ioq_state_scheme option" where
  "wakeup_consumer ioq s = do {
     _ \<leftarrow> ASSERT (consumer (ioqs s ioq) \<noteq> NULL);
     s \<leftarrow> thread_unblock (consumer (ioqs s ioq)) s;
     Some (upd_ioq ioq (\<lambda>q. q\<lparr>consumer := NULL\<rparr>) s)
   }"

definition wakeup_producer :: "addr \<Rightarrow> 'a ioq_state_scheme \<Rightarrow> 'a ioq_state_scheme option" where
  "wakeup_producer ioq s = do {
     _ \<leftarrow> ASSERT (producer (ioqs s ioq) \<noteq> NULL);
     s \<leftarrow> thread_unblock (producer (ioqs s ioq)) s;
     Some (upd_ioq ioq (\<lambda>q. q\<lparr>producer := NULL\<rparr>) s)
   }"

datatype 'a blocking = Returns 'a | Waits intr_status

text \<open>One turn of the waiting loop, then the transfer of the byte.\<close>

definition ioq_take :: "addr \<Rightarrow> 'a ioq_state_scheme \<Rightarrow> (u8 \<times> 'a ioq_state_scheme) option" where
  "ioq_take ioq s = do {
     byte \<leftarrow> get_at (buf (ioqs s ioq)) (tail (ioqs s ioq));
     let s = upd_ioq ioq (\<lambda>q. q\<lparr>tail := next_pos (tail q)\<rparr>) s;
     s \<leftarrow> (if producer (ioqs s ioq) \<noteq> NULL then wakeup_producer ioq s else Some s);
     Some (byte, s)
   }"

definition ioq_getchar_turn :: "addr \<Rightarrow> 'a ioq_state_scheme \<Rightarrow> (u8 blocking \<times> 'a ioq_state_scheme) option" where
  "ioq_getchar_turn ioq s = do {
     empty \<leftarrow> ioq_empty ioq s;
     if empty then do {
       (w, s) \<leftarrow> lock_acquire (ioq_lock ioq) s;
       case w of
         Slept i \<Rightarrow> Some (Waits i, s)
       | Got \<Rightarrow> do { (i, s) \<leftarrow> ioq_wait_consumer ioq s; Some (Waits i, s) }
     } else do {
       (byte, s) \<leftarrow> ioq_take ioq s;
       Some (Returns byte, s)
     }
   }"

definition ioq_getchar :: "addr \<Rightarrow> 'a ioq_state_scheme \<Rightarrow> (u8 blocking \<times> 'a ioq_state_scheme) option" where
  "ioq_getchar ioq s = do {
     _ \<leftarrow> ASSERT (intr_get_status s = INTR_OFF);
     ioq_getchar_turn ioq s
   }"

definition ioq_getchar_resume ::
    "addr \<Rightarrow> intr_status \<Rightarrow> 'a ioq_state_scheme \<Rightarrow> (u8 blocking \<times> 'a ioq_state_scheme) option" where
  "ioq_getchar_resume ioq i s = do {
     s \<leftarrow> lock_release (ioq_lock ioq) (resume_intr i s);
     ioq_getchar_turn ioq s
   }"

definition ioq_give :: "addr \<Rightarrow> u8 \<Rightarrow> 'a ioq_state_scheme \<Rightarrow> 'a ioq_state_scheme option" where
  "ioq_give ioq byte s = do {
     b \<leftarrow> set_at (buf (ioqs s ioq)) (head (ioqs s ioq)) byte;
     let s = upd_ioq ioq (\<lambda>q. q\<lparr>buf := b, head := next_pos (head q)\<rparr>) s;
     if consumer (ioqs s ioq) \<noteq> NULL then wakeup_consumer ioq s else Some s
   }"

definition ioq_putchar_turn :: "addr \<Rightarrow> u8 \<Rightarrow> 'a ioq_state_scheme \<Rightarrow> (unit blocking \<times> 'a ioq_state_scheme) option" where
  "ioq_putchar_turn ioq byte s = do {
     full \<leftarrow> ioq_full ioq s;
     if full then do {
       (w, s) \<leftarrow> lock_acquire (ioq_lock ioq) s;
       case w of
         Slept i \<Rightarrow> Some (Waits i, s)
       | Got \<Rightarrow> do { (i, s) \<leftarrow> ioq_wait_producer ioq s; Some (Waits i, s) }
     } else do {
       s \<leftarrow> ioq_give ioq byte s;
       Some (Returns (), s)
     }
   }"

definition ioq_putchar :: "addr \<Rightarrow> u8 \<Rightarrow> 'a ioq_state_scheme \<Rightarrow> (unit blocking \<times> 'a ioq_state_scheme) option" where
  "ioq_putchar ioq byte s = do {
     _ \<leftarrow> ASSERT (intr_get_status s = INTR_OFF);
     ioq_putchar_turn ioq byte s
   }"

definition ioq_putchar_resume ::
    "addr \<Rightarrow> u8 \<Rightarrow> intr_status \<Rightarrow> 'a ioq_state_scheme \<Rightarrow> (unit blocking \<times> 'a ioq_state_scheme) option" where
  "ioq_putchar_resume ioq byte i s = do {
     s \<leftarrow> lock_release (ioq_lock ioq) (resume_intr i s);
     ioq_putchar_turn ioq byte s
   }"

definition ioq_length :: "addr \<Rightarrow> 'a ioq_state_scheme \<Rightarrow> nat" where
  "ioq_length ioq s =
     (let q = ioqs s ioq in
      if head q \<ge> tail q then head q - tail q else bufsize - (tail q - head q))"

subsection \<open>The queue as a sequence of bytes\<close>

definition q_wf :: "ioqueue \<Rightarrow> bool" where
  "q_wf q \<longleftrightarrow> length (buf q) = bufsize \<and> head q < bufsize \<and> tail q < bufsize"

definition q_length :: "ioqueue \<Rightarrow> nat" where
  "q_length q = (head q + bufsize - tail q) mod bufsize"

definition q_list :: "ioqueue \<Rightarrow> u8 list" where
  "q_list q = map (\<lambda>i. buf q ! ((tail q + i) mod bufsize)) [0..<q_length q]"

lemma length_q_list [simp]: "length (q_list q) = q_length q"
  by (simp add: q_list_def)

lemma next_pos_less [simp]: "next_pos p < bufsize"
  by (simp add: next_pos_def bufsize_def)

lemma q_length_less: "q_length q < bufsize"
  by (simp add: q_length_def bufsize_def)

lemma next_pos_eq: "p < bufsize \<Longrightarrow> next_pos p = (if p + 1 = bufsize then 0 else p + 1)"
  by (auto simp: next_pos_def)

lemma mod_bufsize: "a < bufsize \<Longrightarrow> b < bufsize \<Longrightarrow>
    (a + b) mod bufsize = (if a + b < bufsize then a + b else a + b - bufsize)"
  by (auto simp: le_mod_geq)

lemma q_length_eq:
  assumes "q_wf q"
  shows "q_length q = (if tail q \<le> head q then head q - tail q else head q + bufsize - tail q)"
proof (cases "tail q \<le> head q")
  case True
  then have eq: "head q + bufsize - tail q = (head q - tail q) + bufsize" by simp
  have "head q - tail q < bufsize" using assms by (simp add: q_wf_def less_imp_diff_less)
  then show ?thesis using True unfolding q_length_def eq by (simp only: mod_add_self2 mod_less if_True)
next
  case False
  then have "head q + bufsize - tail q < bufsize" using assms by (auto simp: q_wf_def)
  then show ?thesis using False by (simp add: q_length_def)
qed

lemma q_full_iff: "q_wf q \<Longrightarrow> next_pos (head q) = tail q \<longleftrightarrow> q_length q = bufsize - 1"
  by (auto simp: q_length_eq next_pos_eq q_wf_def)

lemma q_empty_iff: "q_wf q \<Longrightarrow> head q = tail q \<longleftrightarrow> q_length q = 0"
  by (auto simp: q_length_eq q_wf_def)

lemma ioq_length_q: "q_wf (ioqs s ioq) \<Longrightarrow> ioq_length ioq s = q_length (ioqs s ioq)"
  by (auto simp: q_length_eq q_wf_def ioq_length_def Let_def)

lemma q_wf_put: "q_wf q \<Longrightarrow> q_wf (q\<lparr>buf := (buf q)[i := b], head := next_pos (head q)\<rparr>)"
  by (simp add: q_wf_def)

lemma q_wf_take: "q_wf q \<Longrightarrow> q_wf (q\<lparr>tail := next_pos (tail q)\<rparr>)"
  by (simp add: q_wf_def)

lemma q_length_put:
  assumes "q_wf q" "q_length q < bufsize - 1"
  shows "q_length (q\<lparr>buf := (buf q)[i := b], head := next_pos (head q)\<rparr>) = Suc (q_length q)"
  using assms q_wf_put [OF assms(1), of i b]
  by (auto simp: q_length_eq next_pos_eq q_wf_def split: if_splits)

lemma q_length_take:
  assumes "q_wf q" "q_length q = Suc n"
  shows "q_length (q\<lparr>tail := next_pos (tail q)\<rparr>) = n"
  using assms q_wf_take [OF assms(1)]
  by (auto simp: q_length_eq next_pos_eq q_wf_def split: if_splits)

lemma q_pos_head:
  assumes "q_wf q" "i < q_length q"
  shows "(tail q + i) mod bufsize \<noteq> head q"
  using assms mod_bufsize [of "tail q" i] q_length_less [of q]
  by (auto simp: q_length_eq q_wf_def split: if_splits)

lemma q_pos_end: "q_wf q \<Longrightarrow> (tail q + q_length q) mod bufsize = head q"
  using mod_bufsize [of "tail q" "q_length q"] q_length_less [of q]
  by (auto simp: q_length_eq q_wf_def split: if_splits)

lemma q_list_put:
  assumes "q_wf q" "q_length q < bufsize - 1"
  shows "q_list (q\<lparr>buf := (buf q)[head q := b], head := next_pos (head q)\<rparr>) = q_list q @ [b]"
proof (rule nth_equalityI)
  let ?q' = "q\<lparr>buf := (buf q)[head q := b], head := next_pos (head q)\<rparr>"
  show "length (q_list ?q') = length (q_list q @ [b])" using q_length_put [OF assms, of "head q" b] by simp
  fix i assume "i < length (q_list ?q')"
  then have i: "i < Suc (q_length q)" using q_length_put [OF assms, of "head q" b] by simp
  have h: "head q < length (buf q)" using assms(1) by (simp add: q_wf_def)
  show "q_list ?q' ! i = (q_list q @ [b]) ! i"
  proof (cases "i < q_length q")
    case True
    then show ?thesis
      using q_pos_head [OF assms(1) True] q_length_put [OF assms, of "head q" b]
      by (simp add: q_list_def nth_append nth_list_update_neq)
  next
    case False
    then have "i = q_length q" using i by simp
    then show ?thesis
      using q_pos_end [OF assms(1)] q_length_put [OF assms, of "head q" b] h
      by (simp add: q_list_def nth_append)
  qed
qed

lemma q_list_take:
  assumes "q_wf q" "q_length q = Suc n"
  shows "q_list q = buf q ! tail q # q_list (q\<lparr>tail := next_pos (tail q)\<rparr>)"
proof (rule nth_equalityI)
  let ?q' = "q\<lparr>tail := next_pos (tail q)\<rparr>"
  show "length (q_list q) = length (buf q ! tail q # q_list ?q')" using q_length_take [OF assms] assms(2) by simp
  fix i assume "i < length (q_list q)"
  then have i: "i < Suc n" using assms(2) by simp
  have t: "tail q < bufsize" using assms(1) by (simp add: q_wf_def)
  show "q_list q ! i = (buf q ! tail q # q_list ?q') ! i"
  proof (cases i)
    case 0
    then show ?thesis using assms(2) t by (simp add: q_list_def del: upt_Suc)
  next
    case (Suc j)
    have "(next_pos (tail q) + j) mod bufsize = (tail q + i) mod bufsize"
      unfolding next_pos_def Suc by (simp add: mod_add_left_eq)
    then show ?thesis
      using Suc i q_length_take [OF assms] assms(2) by (simp add: q_list_def del: upt_Suc)
  qed
qed

subsection \<open>The operations\<close>

lemma q_list_Nil: "q_list q = [] \<longleftrightarrow> q_length q = 0"
  by (simp add: q_list_def)

lemma running_upd_ioq [simp]: "running_thread (upd_ioq ioq f s) = running_thread s"
  by (simp add: running_thread_def upd_ioq_def)

lemma ioqs_upd_ioq [simp]: "ioqs (upd_ioq ioq f s) = (ioqs s)(ioq := f (ioqs s ioq))"
  by (simp add: upd_ioq_def)

lemma low_upd_ioq [simp]:
  "idle_thread (upd_ioq ioq f s) = idle_thread s" "eflags (upd_ioq ioq f s) = eflags s" "tcb (upd_ioq ioq f s) = tcb s"
  "intr_get_status (upd_ioq ioq f s) = intr_get_status s"
  by (simp_all add: upd_ioq_def intr_get_status_def)

lemma sched_inv_upd_ioq [simp]: "sched_inv dirs T rl (upd_ioq ioq f s) = sched_inv dirs T rl s"
  by (rule sched_inv_view) (simp add: upd_ioq_def sched_view_def)

lemma same_env_ioqs:
  "same_env s s' \<Longrightarrow> ioqs s' = ioqs s" "same_env s s' \<Longrightarrow> ioq_state.more s' = ioq_state.more s"
  by (cases s; cases s'; simp add: same_env_def)+

lemma more_upd_ioq [simp]: "ioq_state.more (upd_ioq ioq f s) = ioq_state.more s"
  by (simp add: upd_ioq_def)

text \<open>A thread registered as waiting is blocked, and no thread waits as both.\<close>

definition waiter_ok :: "addr set \<Rightarrow> 'a ioq_state_scheme \<Rightarrow> addr \<Rightarrow> bool" where
  "waiter_ok T s p \<longleftrightarrow> p \<noteq> NULL \<longrightarrow> p \<in> T \<and> is_blocked (status (tcb s p))"

definition ioq_inv :: "(addr \<Rightarrow> u32) \<Rightarrow> addr set \<Rightarrow> addr \<Rightarrow> addr list \<Rightarrow> 'a ioq_state_scheme \<Rightarrow> bool" where
  "ioq_inv dirs T ioq rl s \<longleftrightarrow>
     sched_inv dirs T rl s \<and> intr_get_status s = INTR_OFF \<and> q_wf (ioqs s ioq) \<and>
     waiter_ok T s (consumer (ioqs s ioq)) \<and> waiter_ok T s (producer (ioqs s ioq)) \<and>
     (consumer (ioqs s ioq) \<noteq> NULL \<longrightarrow> consumer (ioqs s ioq) \<noteq> producer (ioqs s ioq))"

definition ioq_list :: "addr \<Rightarrow> 'a ioq_state_scheme \<Rightarrow> u8 list" where
  "ioq_list ioq s = q_list (ioqs s ioq)"

text \<open>The ready queue once a possible waiter was woken.\<close>

definition woken :: "addr \<Rightarrow> addr list \<Rightarrow> addr list" where
  "woken p rl = (if p = NULL then rl else p # rl)"

lemma unblock_frame:
  assumes "sched_inv dirs T rl s" "p \<in> T" "is_blocked (status (tcb s p))"
  shows "\<exists>s'. thread_unblock p s = Some s' \<and> sched_inv dirs T (p # rl) s' \<and> ioqs s' = ioqs s \<and>
    running_thread s' = running_thread s \<and> intr_get_status s' = intr_get_status s \<and>
    (\<forall>q. q \<noteq> p \<longrightarrow> tcb s' q = tcb s q) \<and> status (tcb s' p) = TASK_READY \<and>
    ioq_state.more s' = ioq_state.more s"
proof -
  obtain s' where s': "thread_unblock p s = Some s'" "sched_inv dirs T (p # rl) s'"
    "tcb s' = (tcb s)(p := (tcb s p)\<lparr>status := TASK_READY\<rparr>)" "same_env s s'" "same_cpu s s'"
    using thread_unblock_inv [OF assms] by blast
  have "ioqs s' = ioqs s" "ioq_state.more s' = ioq_state.more s" using s'(4) by (rule same_env_ioqs)+
  moreover have "running_thread s' = running_thread s" "intr_get_status s' = intr_get_status s"
    using s'(4,5) by (simp_all add: same_cpu_def same_env_def running_thread_def intr_get_status_def)
  ultimately show ?thesis using s'(1-3) by simp
qed

lemma wakeup_consumer_ok:
  assumes "ioq_inv dirs T ioq rl s" "consumer (ioqs s ioq) = p" "p \<noteq> NULL"
  shows "\<exists>s'. wakeup_consumer ioq s = Some s' \<and> ioq_inv dirs T ioq (p # rl) s' \<and>
    ioqs s' = (ioqs s)(ioq := (ioqs s ioq)\<lparr>consumer := NULL\<rparr>) \<and> running_thread s' = running_thread s \<and>
    ioq_state.more s' = ioq_state.more s"
proof -
  obtain s' where "thread_unblock p s = Some s'" "sched_inv dirs T (p # rl) s'" "ioqs s' = ioqs s"
    "running_thread s' = running_thread s" "intr_get_status s' = intr_get_status s"
    "\<forall>q. q \<noteq> p \<longrightarrow> tcb s' q = tcb s q" "ioq_state.more s' = ioq_state.more s"
    using unblock_frame [of dirs T rl s p] assms by (auto simp: ioq_inv_def waiter_ok_def)
  then show ?thesis
    using assms by (auto simp: wakeup_consumer_def ioq_inv_def waiter_ok_def q_wf_def)
qed

lemma wakeup_producer_ok:
  assumes "ioq_inv dirs T ioq rl s" "producer (ioqs s ioq) = p" "p \<noteq> NULL"
  shows "\<exists>s'. wakeup_producer ioq s = Some s' \<and> ioq_inv dirs T ioq (p # rl) s' \<and>
    ioqs s' = (ioqs s)(ioq := (ioqs s ioq)\<lparr>producer := NULL\<rparr>) \<and> running_thread s' = running_thread s \<and>
    ioq_state.more s' = ioq_state.more s"
proof -
  obtain s' where "thread_unblock p s = Some s'" "sched_inv dirs T (p # rl) s'" "ioqs s' = ioqs s"
    "running_thread s' = running_thread s" "intr_get_status s' = intr_get_status s"
    "\<forall>q. q \<noteq> p \<longrightarrow> tcb s' q = tcb s q" "ioq_state.more s' = ioq_state.more s"
    using unblock_frame [of dirs T rl s p] assms by (auto simp: ioq_inv_def waiter_ok_def)
  then show ?thesis
    using assms by (auto simp: wakeup_producer_def ioq_inv_def waiter_ok_def q_wf_def)
qed

lemma q_list_waiters [simp]:
  "q_list (q\<lparr>consumer := p\<rparr>) = q_list q" "q_list (q\<lparr>producer := p\<rparr>) = q_list q"
  by (simp_all add: q_list_def q_length_def)

text \<open>Writing a byte when there is room, reading one when there is one.\<close>

lemma ioq_putchar_ok:
  assumes inv: "ioq_inv dirs T ioq rl s" and room: "length (ioq_list ioq s) < bufsize - 1"
  shows "\<exists>s'. ioq_putchar ioq b s = Some (Returns (), s') \<and>
    ioq_inv dirs T ioq (woken (consumer (ioqs s ioq)) rl) s' \<and>
    ioq_list ioq s' = ioq_list ioq s @ [b] \<and> consumer (ioqs s' ioq) = NULL \<and>
    producer (ioqs s' ioq) = producer (ioqs s ioq) \<and> running_thread s' = running_thread s \<and>
    ioq_state.more s' = ioq_state.more s"
proof -
  let ?q = "ioqs s ioq"
  let ?q1 = "?q\<lparr>buf := (buf ?q)[head ?q := b], head := next_pos (head ?q)\<rparr>"
  let ?s1 = "upd_ioq ioq (\<lambda>q. q\<lparr>buf := (buf ?q)[head ?q := b], head := next_pos (head q)\<rparr>) s"
  have wf: "q_wf ?q" and len: "q_length ?q < bufsize - 1" using inv room by (simp_all add: ioq_inv_def ioq_list_def)
  have inv1: "ioq_inv dirs T ioq rl ?s1"
    using inv q_wf_put [OF wf, of "head ?q" b] by (simp add: ioq_inv_def waiter_ok_def)
  have lst: "q_list ?q1 = q_list ?q @ [b]" using q_list_put [OF wf len] .
  have give: "ioq_putchar ioq b s = (if consumer ?q \<noteq> NULL then wakeup_consumer ioq ?s1 else Some ?s1)
      \<bind> (\<lambda>s. Some (Returns (), s))"
    using inv wf len q_full_iff [OF wf]
    by (simp add: ioq_putchar_def ioq_putchar_turn_def ioq_full_def ioq_give_def ioq_inv_def q_wf_def Let_def)
  show ?thesis
  proof (cases "consumer ?q = NULL")
    case True
    then show ?thesis using give inv1 lst by (simp add: ioq_list_def woken_def)
  next
    case False
    then obtain s' where "wakeup_consumer ioq ?s1 = Some s'" "ioq_inv dirs T ioq (consumer ?q # rl) s'"
      "ioqs s' = (ioqs ?s1)(ioq := (ioqs ?s1 ioq)\<lparr>consumer := NULL\<rparr>)" "running_thread s' = running_thread ?s1"
      "ioq_state.more s' = ioq_state.more ?s1"
      using wakeup_consumer_ok [OF inv1, of "consumer ?q"] by auto
    then show ?thesis using False give lst by (simp add: ioq_list_def woken_def)
  qed
qed

lemma ioq_getchar_ok:
  assumes inv: "ioq_inv dirs T ioq rl s" and some: "ioq_list ioq s = b # bs"
  shows "\<exists>s'. ioq_getchar ioq s = Some (Returns b, s') \<and>
    ioq_inv dirs T ioq (woken (producer (ioqs s ioq)) rl) s' \<and>
    ioq_list ioq s' = bs \<and> producer (ioqs s' ioq) = NULL \<and>
    consumer (ioqs s' ioq) = consumer (ioqs s ioq) \<and> running_thread s' = running_thread s \<and>
    ioq_state.more s' = ioq_state.more s"
proof -
  let ?q = "ioqs s ioq"
  let ?s1 = "upd_ioq ioq (\<lambda>q. q\<lparr>tail := next_pos (tail q)\<rparr>) s"
  have wf: "q_wf ?q" using inv by (simp add: ioq_inv_def)
  obtain n where len: "q_length ?q = Suc n"
    using some length_q_list [of ?q] by (cases "q_length ?q") (auto simp: ioq_list_def)
  have inv1: "ioq_inv dirs T ioq rl ?s1"
    using inv q_wf_take [OF wf] by (simp add: ioq_inv_def waiter_ok_def)
  have lst: "buf ?q ! tail ?q = b" "q_list (?q\<lparr>tail := next_pos (tail ?q)\<rparr>) = bs"
    using q_list_take [OF wf len] some by (simp_all add: ioq_list_def)
  have take: "ioq_getchar ioq s = (if producer ?q \<noteq> NULL then wakeup_producer ioq ?s1 else Some ?s1)
      \<bind> (\<lambda>s. Some (Returns b, s))"
    using inv wf len q_empty_iff [OF wf] lst(1)
    by (simp add: ioq_getchar_def ioq_getchar_turn_def ioq_empty_def ioq_take_def ioq_inv_def q_wf_def Let_def)
  show ?thesis
  proof (cases "producer ?q = NULL")
    case True
    then show ?thesis using take inv1 lst by (simp add: ioq_list_def woken_def)
  next
    case False
    then obtain s' where "wakeup_producer ioq ?s1 = Some s'" "ioq_inv dirs T ioq (producer ?q # rl) s'"
      "ioqs s' = (ioqs ?s1)(ioq := (ioqs ?s1 ioq)\<lparr>producer := NULL\<rparr>)" "running_thread s' = running_thread ?s1"
      "ioq_state.more s' = ioq_state.more ?s1"
      using wakeup_producer_ok [OF inv1, of "producer ?q"] by auto
    then show ?thesis using False take lst by (simp add: ioq_list_def woken_def)
  qed
qed

subsection \<open>The contract\<close>

text \<open>Writing a sequence of bytes, reading \<open>n\<close> bytes.\<close>

primrec put_all :: "('b \<Rightarrow> 's \<Rightarrow> 's option) \<Rightarrow> 'b list \<Rightarrow> 's \<Rightarrow> 's option" where
  "put_all put [] s = Some s"
| "put_all put (b # bs) s = put b s \<bind> put_all put bs"

primrec get_n :: "('s \<Rightarrow> ('b \<times> 's) option) \<Rightarrow> nat \<Rightarrow> 's \<Rightarrow> ('b list \<times> 's) option" where
  "get_n get 0 s = Some ([], s)"
| "get_n get (Suc n) s = do { (b, s) \<leftarrow> get s; (bs, s) \<leftarrow> get_n get n s; Some (b # bs, s) }"

text \<open>
  What a writer and a reader of a byte stream rely on: a bounded first-in first-out queue whose
  operations return as long as there is room, or data.
\<close>

locale byte_fifo =
  fixes inv :: "'s \<Rightarrow> bool"
    and contents :: "'s \<Rightarrow> 'b list"
    and cap :: nat
    and put :: "'b \<Rightarrow> 's \<Rightarrow> 's option"
    and get :: "'s \<Rightarrow> ('b \<times> 's) option"
  assumes put: "inv s \<Longrightarrow> length (contents s) < cap \<Longrightarrow>
      \<exists>s'. put b s = Some s' \<and> inv s' \<and> contents s' = contents s @ [b]"
    and get: "inv s \<Longrightarrow> contents s = b # bs \<Longrightarrow> \<exists>s'. get s = Some (b, s') \<and> inv s' \<and> contents s' = bs"
begin

lemma put_all:
  "inv s \<Longrightarrow> length (contents s) + length bs \<le> cap \<Longrightarrow>
    \<exists>s'. put_all put bs s = Some s' \<and> inv s' \<and> contents s' = contents s @ bs"
proof (induction bs arbitrary: s)
  case (Cons b bs s)
  then obtain s1 where "put b s = Some s1" "inv s1" "contents s1 = contents s @ [b]"
    using put [of s b] by auto
  then show ?case using Cons.IH [of s1] Cons.prems(2) by auto
qed simp

lemma get_n:
  "inv s \<Longrightarrow> contents s = bs @ cs \<Longrightarrow>
    \<exists>s'. get_n get (length bs) s = Some (bs, s') \<and> inv s' \<and> contents s' = cs"
proof (induction bs arbitrary: s)
  case (Cons b bs s)
  then obtain s1 where "get s = Some (b, s1)" "inv s1" "contents s1 = bs @ cs"
    using get [of s b "bs @ cs"] by auto
  then show ?case using Cons.IH [of s1] by auto
qed simp

text \<open>What was written comes out in the order it was written, after what was there already.\<close>

lemma round_trip:
  assumes "inv s" "length (contents s) + length bs \<le> cap"
  shows "\<exists>s1 s2. put_all put bs s = Some s1 \<and>
    get_n get (length (contents s) + length bs) s1 = Some (contents s @ bs, s2) \<and> inv s2 \<and> contents s2 = []"
proof -
  obtain s1 where s1: "put_all put bs s = Some s1" "inv s1" "contents s1 = contents s @ bs"
    using put_all [OF assms] by blast
  then show ?thesis using get_n [of s1 "contents s @ bs" "[]"] by auto
qed

end

text \<open>The calls that return without waiting.\<close>

definition putchar_now :: "addr \<Rightarrow> u8 \<Rightarrow> 'a ioq_state_scheme \<Rightarrow> 'a ioq_state_scheme option" where
  "putchar_now ioq b s = (case ioq_putchar ioq b s of Some (Returns _, s') \<Rightarrow> Some s' | _ \<Rightarrow> None)"

definition getchar_now :: "addr \<Rightarrow> 'a ioq_state_scheme \<Rightarrow> (u8 \<times> 'a ioq_state_scheme) option" where
  "getchar_now ioq s = (case ioq_getchar ioq s of Some (Returns b, s') \<Rightarrow> Some (b, s') | _ \<Rightarrow> None)"

interpretation ioq: byte_fifo "\<lambda>s. \<exists>rl. ioq_inv dirs T ioq rl s" "ioq_list ioq" "bufsize - 1"
  "putchar_now ioq" "getchar_now ioq" for dirs :: "addr \<Rightarrow> u32" and T :: "addr set" and ioq :: addr
proof (unfold_locales, goal_cases)
  case (1 s b)
  then obtain rl where "ioq_inv dirs T ioq rl s" by blast
  from ioq_putchar_ok [OF this 1(2), of b] show ?case by (auto simp: putchar_now_def)
next
  case (2 s b bs)
  then obtain rl where "ioq_inv dirs T ioq rl s" by blast
  from ioq_getchar_ok [OF this 2(2)] show ?case by (auto simp: getchar_now_def)
qed

subsection \<open>Waiting\<close>

lemma sched_inv_sync [simp]:
  "sched_inv dirs T rl (set_value p v s) = sched_inv dirs T rl s"
  "sched_inv dirs T rl (set_holder p h s) = sched_inv dirs T rl s"
  "sched_inv dirs T rl (set_repeat p r s) = sched_inv dirs T rl s"
  by (rule sched_inv_view, simp add: sched_view_def set_value_def set_holder_def set_repeat_def)+

lemma ioqs_sync [simp]:
  "ioqs (set_value p v s) = ioqs s" "ioqs (set_holder p h s) = ioqs s" "ioqs (set_repeat p r s) = ioqs s"
  "tcb (set_value p v t) = tcb t" "tcb (set_holder p h t) = tcb t" "tcb (set_repeat p r t) = tcb t"
  "idle_thread (set_value p v t) = idle_thread t" "idle_thread (set_holder p h t) = idle_thread t"
  "idle_thread (set_repeat p r t) = idle_thread t"
  "intr_get_status (set_value p v t) = intr_get_status t" "intr_get_status (set_holder p h t) = intr_get_status t"
  "intr_get_status (set_repeat p r t) = intr_get_status t"
  by (simp_all add: set_value_def set_holder_def set_repeat_def intr_get_status_def)

lemma take_lock_simps [simp]:
  "running_thread (take_lock L s) = running_thread s" "idle_thread (take_lock L s) = idle_thread s"
  "tcb (take_lock L s) = tcb s" "ioqs (take_lock L t) = ioqs t"
  "intr_get_status (take_lock L s) = intr_get_status s" "sched_inv dirs T rl (take_lock L s) = sched_inv dirs T rl s"
  "lock_holder (take_lock L s) L = running_thread s"
  by (simp_all add: take_lock_def) (simp add: set_value_def set_holder_def set_repeat_def)

lemma ioq_getchar_sleep:
  assumes inv: "ioq_inv dirs T ioq rl s" and empty: "ioq_list ioq s = []" and none: "consumer (ioqs s ioq) = NULL"
    and free: "lock_free (ioq_lock ioq) s" and cur: "running_thread s \<notin> set rl"
    and other: "running_thread s \<noteq> idle_thread s" "running_thread s \<noteq> producer (ioqs s ioq)"
    and nxt: "nxt = (case rl of [] \<Rightarrow> idle_thread s | p # _ \<Rightarrow> p)" "nxt \<noteq> producer (ioqs s ioq)"
  shows "\<exists>s'. ioq_getchar ioq s = Some (Waits INTR_OFF, s') \<and> ioq_inv dirs T ioq (tl rl) s' \<and>
    running_thread s' = nxt \<and> consumer (ioqs s' ioq) = running_thread s \<and> ioq_list ioq s' = [] \<and>
    lock_holder s' (ioq_lock ioq) = running_thread s"
proof -
  let ?cur = "running_thread s"
  let ?s1 = "take_lock (ioq_lock ioq) s"
  let ?s2 = "upd_ioq ioq (\<lambda>q. q\<lparr>consumer := ?cur\<rparr>) ?s1"
  have sched: "sched_inv dirs T rl ?s2" using inv by (simp add: ioq_inv_def)
  have cur0: "?cur \<noteq> NULL" "?cur \<in> T" using inv by (auto simp: ioq_inv_def sched_inv_def tasks_ok_def)
  have off: "intr_get_status s = INTR_OFF" and wf: "q_wf (ioqs s ioq)" using inv by (simp_all add: ioq_inv_def)
  have run2: "running_thread ?s2 = ?cur" by simp
  have nb: "is_blocked TASK_BLOCKED" by (simp add: is_blocked_def)
  have cur2: "running_thread ?s2 \<notin> set rl" using cur by simp
  have nxt2: "nxt = (case rl of [] \<Rightarrow> idle_thread ?s2 | p # _ \<Rightarrow> p)" using nxt(1) by (simp cong: list.case_cong)
  obtain s' where s': "thread_block TASK_BLOCKED ?s2 = Some (intr_get_status ?s2, s')" "sched_inv dirs T (tl rl) s'"
      "running_thread s' = nxt" "intr_get_status s' = INTR_OFF"
      "\<forall>p. status (tcb s' p) = (if p = nxt then TASK_RUNNING else if p = ?cur then TASK_BLOCKED else status (tcb ?s2 p))"
      "same_env (?s2\<lparr>eflags := eflags ?s2 AND NOT EFLAGS_IF\<rparr>) s'"
    using thread_block_inv [OF sched nb cur2 nxt2] unfolding run2 by blast
  have q': "ioqs s' = ioqs ?s2" "lock_holder s' = lock_holder ?s2"
    using same_env_ioqs(1) [OF s'(6)] same_env_sync [OF s'(6)] by simp_all
  have ne: "nxt \<noteq> ?cur" using nxt(1) cur other(1) by (auto split: list.splits)
  have "ioq_getchar ioq s = Some (Waits INTR_OFF, s')"
    using off wf empty q_empty_iff [OF wf] none s'(1) lock_acquire_free [OF free cur0(1)]
    by (simp add: ioq_getchar_def ioq_getchar_turn_def ioq_empty_def ioq_list_def q_list_Nil ioq_wait_consumer_def)
  moreover have "ioq_inv dirs T ioq (tl rl) s'"
    using inv s'(2-5) q'(1) none other(2) nxt(2) ne cur0
    by (auto simp: ioq_inv_def waiter_ok_def is_blocked_def q_wf_def)
  moreover have "lock_holder s' (ioq_lock ioq) = ?cur"
    using q'(2) by (simp add: upd_ioq_def)
  ultimately show ?thesis using s'(3) q'(1) empty by (simp add: ioq_list_def)
qed

lemma ioq_putchar_sleep:
  assumes inv: "ioq_inv dirs T ioq rl s" and full: "length (ioq_list ioq s) = bufsize - 1" and none: "producer (ioqs s ioq) = NULL"
    and free: "lock_free (ioq_lock ioq) s" and cur: "running_thread s \<notin> set rl"
    and other: "running_thread s \<noteq> idle_thread s" "consumer (ioqs s ioq) = NULL"
    and nxt: "nxt = (case rl of [] \<Rightarrow> idle_thread s | p # _ \<Rightarrow> p)"
  shows "\<exists>s'. ioq_putchar ioq b s = Some (Waits INTR_OFF, s') \<and> ioq_inv dirs T ioq (tl rl) s' \<and>
    running_thread s' = nxt \<and> producer (ioqs s' ioq) = running_thread s \<and> ioq_list ioq s' = ioq_list ioq s \<and>
    status (tcb s' (running_thread s)) = TASK_BLOCKED"
proof -
  let ?cur = "running_thread s"
  let ?s1 = "take_lock (ioq_lock ioq) s"
  let ?s2 = "upd_ioq ioq (\<lambda>q. q\<lparr>producer := ?cur\<rparr>) ?s1"
  have sched: "sched_inv dirs T rl ?s2" using inv by (simp add: ioq_inv_def)
  have cur0: "?cur \<noteq> NULL" "?cur \<in> T" using inv by (auto simp: ioq_inv_def sched_inv_def tasks_ok_def)
  have off: "intr_get_status s = INTR_OFF" and wf: "q_wf (ioqs s ioq)" using inv by (simp_all add: ioq_inv_def)
  have run2: "running_thread ?s2 = ?cur" by simp
  have nb: "is_blocked TASK_BLOCKED" by (simp add: is_blocked_def)
  have cur2: "running_thread ?s2 \<notin> set rl" using cur by simp
  have nxt2: "nxt = (case rl of [] \<Rightarrow> idle_thread ?s2 | p # _ \<Rightarrow> p)" using nxt(1) by (simp cong: list.case_cong)
  obtain s' where s': "thread_block TASK_BLOCKED ?s2 = Some (intr_get_status ?s2, s')" "sched_inv dirs T (tl rl) s'"
      "running_thread s' = nxt" "intr_get_status s' = INTR_OFF"
      "\<forall>p. status (tcb s' p) = (if p = nxt then TASK_RUNNING else if p = ?cur then TASK_BLOCKED else status (tcb ?s2 p))"
      "same_env (?s2\<lparr>eflags := eflags ?s2 AND NOT EFLAGS_IF\<rparr>) s'"
    using thread_block_inv [OF sched nb cur2 nxt2] unfolding run2 by blast
  have q': "ioqs s' = ioqs ?s2" using same_env_ioqs(1) [OF s'(6)] by simp
  have ne: "nxt \<noteq> ?cur" using nxt(1) cur other(1) by (auto split: list.splits)
  have "ioq_putchar ioq b s = Some (Waits INTR_OFF, s')"
    using off wf full q_full_iff [OF wf] none s'(1) lock_acquire_free [OF free cur0(1)]
    by (simp add: ioq_putchar_def ioq_putchar_turn_def ioq_full_def ioq_list_def ioq_wait_producer_def)
  moreover have "ioq_inv dirs T ioq (tl rl) s'"
    using inv s'(2-5) q' none other(2) ne cur0
    by (auto simp: ioq_inv_def waiter_ok_def is_blocked_def q_wf_def)
  moreover have "status (tcb s' ?cur) = TASK_BLOCKED" using s'(5) ne by simp
  moreover have "ioq_list ioq s' = ioq_list ioq s" using q' by (simp add: ioq_list_def q_list_def q_length_def)
  ultimately show ?thesis using s'(3) q' by auto
qed

subsection \<open>A small system\<close>

text \<open>The threads of \<open>demo_sync\<close> and an empty queue at 0xc0009400, its positions at the end of the
  buffer; \<open>demo_sleeper\<close> is the state after the main thread tried to read.\<close>

definition demo_q :: ioqueue where
  "demo_q = \<lparr>producer = NULL, consumer = NULL, buf = replicate bufsize 0, head = 2046, tail = 2046\<rparr>"

definition demo_ioq :: ioq_state where
  "demo_ioq = sync_state.extend (demo_sync\<lparr>eflags := 0x2, sema_value := \<lambda>_. 1\<rparr>) (ioq_state.fields (\<lambda>_. demo_q))"

lemma demo_ioq_view: "sched_view demo_ioq = sched_view (demo_sync\<lparr>eflags := 0x2\<rparr>)"
  by (simp add: demo_ioq_def sched_view_def sync_state.defs ioq_state.defs)

lemma demo_ioq_inv: "ioq_inv (\<lambda>_. 0x100000) demo_tasks 0xc0009400 [0xc0101000, 0xc0102000] demo_ioq"
proof -
  have "sched_inv (\<lambda>_. 0x100000) demo_tasks [0xc0101000, 0xc0102000] demo_ioq"
    using demo_sync_start(1) sched_inv_view [OF demo_ioq_view] by simp
  then show ?thesis
    by (simp add: ioq_inv_def demo_ioq_def demo_q_def q_wf_def waiter_ok_def sync_state.defs ioq_state.defs
        intr_get_status_bit bufsize_def)
qed

subsection \<open>Properties\<close>

text \<open>C24: the ring buffer is a byte stream. From every state in which the interrupts are off and
  the queue has room, writing \<open>bs\<close> with \<open>ioq_putchar\<close> returns without waiting, and as many
  calls of \<open>ioq_getchar\<close> return what was in the queue followed by \<open>bs\<close>, in that order, and leave
  the queue empty; a thread registered as waiting on the other side is woken on the way.\<close>

theorem ioq_round_trip:
  assumes "ioq_inv dirs T ioq rl s" "ioq_length ioq s + length bs \<le> 2047"
  shows "\<exists>s1 s2. put_all (putchar_now ioq) bs s = Some s1 \<and>
    get_n (getchar_now ioq) (ioq_length ioq s + length bs) s1 = Some (ioq_list ioq s @ bs, s2) \<and>
    ioq_length ioq s1 = ioq_length ioq s + length bs \<and> ioq_length ioq s2 = 0"
proof -
  have len: "ioq_length ioq t = length (ioq_list ioq t)" if "ioq_inv dirs T ioq rl t" for rl and t :: "'a ioq_state_scheme"
    using that ioq_length_q [of t ioq] by (simp add: ioq_inv_def ioq_list_def)
  have cap: "length (ioq_list ioq s) + length bs \<le> bufsize - 1"
    using assms(2) len [OF assms(1)] by (simp add: bufsize_def)
  obtain s1 where s1: "put_all (putchar_now ioq) bs s = Some s1" "\<exists>rl. ioq_inv dirs T ioq rl s1"
      "ioq_list ioq s1 = ioq_list ioq s @ bs"
    using ioq.put_all [OF exI [where P = "\<lambda>rl. ioq_inv dirs T ioq rl s", OF assms(1)] cap] by blast
  obtain s2 where "get_n (getchar_now ioq) (length (ioq_list ioq s @ bs)) s1 = Some (ioq_list ioq s @ bs, s2)"
      "\<exists>rl. ioq_inv dirs T ioq rl s2" "ioq_list ioq s2 = []"
    using ioq.get_n [OF s1(2), of "ioq_list ioq s @ bs" "[]"] s1(3) by auto
  then show ?thesis using s1 len assms(1) by auto
qed

theorem ioq_round_trip_witness:
  "\<exists>s1 s2. put_all (putchar_now 0xc0009400) [7, 8, 9] demo_ioq = Some s1 \<and>
    get_n (getchar_now 0xc0009400) (ioq_length 0xc0009400 demo_ioq + length [7 :: u8, 8, 9]) s1 =
      Some (ioq_list 0xc0009400 demo_ioq @ [7, 8, 9], s2) \<and>
    ioq_length 0xc0009400 s1 = ioq_length 0xc0009400 demo_ioq + length [7 :: u8, 8, 9] \<and> ioq_length 0xc0009400 s2 = 0"
  by (rule ioq_round_trip [OF demo_ioq_inv])
    (simp add: ioq_length_def demo_ioq_def demo_q_def sync_state.defs ioq_state.defs)

text \<open>reading from an empty queue puts the reader to sleep. \<open>ioq_getchar\<close> on an empty queue
  registers the caller as the waiting consumer, which then owns the queue's lock and is blocked, and
  hands the processor to the head of the ready queue (the idle thread when it is empty).\<close>

theorem ioq_getchar_empty_sleeps:
  assumes "ioq_inv dirs T ioq rl s" "ioq_length ioq s = 0" "consumer (ioqs s ioq) = NULL"
    "producer (ioqs s ioq) = NULL" "lock_free (ioq_lock ioq) s" "running_thread s \<notin> set rl"
    "running_thread s \<noteq> idle_thread s"
  shows "\<exists>s'. ioq_getchar ioq s = Some (Waits INTR_OFF, s') \<and> ioq_inv dirs T ioq (tl rl) s' \<and>
    running_thread s' = (case rl of [] \<Rightarrow> idle_thread s | p # _ \<Rightarrow> p) \<and>
    consumer (ioqs s' ioq) = running_thread s \<and> ioq_length ioq s' = 0 \<and>
    lock_holder s' (ioq_lock ioq) = running_thread s"
proof -
  have "running_thread s \<in> T" "idle_thread s \<in> T" "set rl \<subseteq> T" "NULL \<notin> T"
    using assms(1) by (auto simp: ioq_inv_def sched_inv_def tasks_ok_def)
  then have ne: "running_thread s \<noteq> producer (ioqs s ioq)"
      "(case rl of [] \<Rightarrow> idle_thread s | p # _ \<Rightarrow> p) \<noteq> producer (ioqs s ioq)"
    using assms(4) by (auto split: list.split)
  have "ioq_list ioq s = []"
    using assms(1,2) ioq_length_q [of s ioq] by (simp add: ioq_inv_def ioq_list_def q_list_Nil)
  from ioq_getchar_sleep [OF assms(1) this assms(3,5,6,7) ne(1) refl ne(2)]
  show ?thesis using ioq_length_q by (fastforce simp: ioq_inv_def ioq_list_def q_list_Nil)
qed

theorem ioq_getchar_empty_sleeps_witness:
  "\<exists>s'. ioq_getchar 0xc0009400 demo_ioq = Some (Waits INTR_OFF, s') \<and>
    ioq_inv (\<lambda>_. 0x100000) demo_tasks 0xc0009400 (tl [0xc0101000, 0xc0102000]) s' \<and>
    running_thread s' = (case [0xc0101000, 0xc0102000] of [] \<Rightarrow> idle_thread demo_ioq | p # _ \<Rightarrow> p) \<and>
    consumer (ioqs s' 0xc0009400) = running_thread demo_ioq \<and> ioq_length 0xc0009400 s' = 0 \<and>
    lock_holder s' (ioq_lock 0xc0009400) = running_thread demo_ioq"
  by (rule ioq_getchar_empty_sleeps [OF demo_ioq_inv])
    (simp_all add: ioq_length_def demo_ioq_def demo_q_def sync_state.defs ioq_state.defs lock_free_def
      demo_sync_def demo_state_def kstate.defs running_thread_def)

text \<open>a byte wakes the reader. When a thread is registered as the waiting consumer,
  \<open>ioq_putchar\<close> on a queue with room appends the byte, clears the registration and puts that thread
  at the head of the ready queue; the writer goes on running.\<close>

theorem ioq_putchar_wakes:
  assumes "ioq_inv dirs T ioq rl s" "consumer (ioqs s ioq) = p" "p \<noteq> NULL" "ioq_length ioq s < 2047"
  shows "\<exists>s'. ioq_putchar ioq b s = Some (Returns (), s') \<and> ioq_inv dirs T ioq (p # rl) s' \<and>
    ioq_list ioq s' = ioq_list ioq s @ [b] \<and> consumer (ioqs s' ioq) = NULL \<and>
    running_thread s' = running_thread s"
proof -
  have "length (ioq_list ioq s) < bufsize - 1"
    using assms(1,4) ioq_length_q [of s ioq] by (simp add: ioq_inv_def ioq_list_def bufsize_def)
  from ioq_putchar_ok [OF assms(1) this] show ?thesis using assms(2,3) by (auto simp: woken_def)
qed

theorem ioq_putchar_wakes_witness:
  "\<exists>s1 s2. ioq_getchar 0xc0009400 demo_ioq = Some (Waits INTR_OFF, s1) \<and>
    ioq_putchar 0xc0009400 65 s1 = Some (Returns (), s2) \<and>
    ioq_inv (\<lambda>_. 0x100000) demo_tasks 0xc0009400 [0xc009e000, 0xc0102000] s2 \<and> ioq_list 0xc0009400 s2 = [65]"
proof -
  have start: "ioq_list 0xc0009400 demo_ioq = []" "consumer (ioqs demo_ioq 0xc0009400) = NULL"
    "lock_free (ioq_lock 0xc0009400) demo_ioq" "running_thread demo_ioq \<notin> set [0xc0101000, 0xc0102000]"
    "running_thread demo_ioq \<noteq> idle_thread demo_ioq" "running_thread demo_ioq \<noteq> producer (ioqs demo_ioq 0xc0009400)"
    "(0xc0101000 :: addr) \<noteq> producer (ioqs demo_ioq 0xc0009400)" "running_thread demo_ioq = 0xc009e000"
    by (simp_all add: ioq_list_def q_list_Nil q_length_def demo_ioq_def demo_q_def sync_state.defs ioq_state.defs
        lock_free_def demo_sync_def demo_state_def kstate.defs running_thread_def)
  obtain s1 where s1: "ioq_getchar 0xc0009400 demo_ioq = Some (Waits INTR_OFF, s1)"
    "ioq_inv (\<lambda>_. 0x100000) demo_tasks 0xc0009400 [0xc0102000] s1" "consumer (ioqs s1 0xc0009400) = 0xc009e000"
    "ioq_list 0xc0009400 s1 = []"
    using ioq_getchar_sleep [OF demo_ioq_inv start(1-6) _ start(7)] start(8) by auto
  have "ioq_length 0xc0009400 s1 < 2047"
    using s1(2,4) ioq_length_q [of s1 "0xc0009400"] by (simp add: ioq_inv_def ioq_list_def q_list_Nil)
  from ioq_putchar_wakes [OF s1(2,3) _ this, of 65] show ?thesis using s1(1,4) by auto
qed

end
