(* ===== verification/Timer.thy ===== *)
theory Timer
  imports Ioqueue
begin

text \<open>
  The clock: \<^verbatim>\<open>device/timer.c\<close>.

  \<open>dev_state\<close> adds the tick counter of the kernel. \<open>timer_init\<close> works on the descriptor state of \<open>Interrupt\<close>, the handler
  on \<open>dev_state\<close>.
  The handler runs with interrupts off; when the time slice is used up it ends in \<open>schedule\<close>.

  The lemmas show how long a thread keeps the processor and how long \<open>mtime_sleep\<close> sleeps.
\<close>

unbundle bit_operations_syntax

record dev_state = ioq_state +
  total_ticks :: u32

subsection \<open>The programmable interval timer\<close>

definition IRQ0_FREQUENCY :: u32 where "IRQ0_FREQUENCY = 100"
definition INPUT_FREQUENCY :: u32 where "INPUT_FREQUENCY = 1193180"
definition COUNTER0_VALUE :: u32 where "COUNTER0_VALUE = INPUT_FREQUENCY div IRQ0_FREQUENCY"
definition CONTRER0_PORT :: u8 where "CONTRER0_PORT = 0x40"
definition COUNTER0_NO :: u8 where "COUNTER0_NO = 0"
definition COUNTER_MODE :: u8 where "COUNTER_MODE = 2"
definition READ_WRITE_LATCH :: u8 where "READ_WRITE_LATCH = 3"
definition PIT_CONTROL_PORT :: u16 where "PIT_CONTROL_PORT = 0x43"
definition mil_seconds_per_intr :: u32 where "mil_seconds_per_intr = 1000 div IRQ0_FREQUENCY"

text \<open>The cast binds tighter than the shift: the second byte is \<open>((uint8_t)counter_value) >> 8\<close>.\<close>

definition frequency_set :: "u8 \<Rightarrow> u8 \<Rightarrow> u8 \<Rightarrow> u8 \<Rightarrow> u16 \<Rightarrow> 'a cpu_scheme \<Rightarrow> 'a cpu_scheme" where
  "frequency_set counter_port counter_no rwl counter_mode counter_value c =
     (let c = outb PIT_CONTROL_PORT
                (ucast (push_bit 6 (ucast counter_no :: u32) OR push_bit 4 (ucast rwl :: u32) OR
                        push_bit 1 (ucast counter_mode :: u32))) c;
          c = outb (ucast counter_port) (ucast counter_value) c
      in outb (ucast counter_port) (ucast (drop_bit 8 (ucast (ucast counter_value :: u8) :: u32))) c)"

definition timer_init :: "addr \<Rightarrow> 'a idt_state_scheme \<Rightarrow> 'a idt_state_scheme option" where
  "timer_init handler c = do {
     let c = put_str (lit ''timer_init start\<newline>'') c;
     let c = frequency_set CONTRER0_PORT COUNTER0_NO READ_WRITE_LATCH COUNTER_MODE (ucast COUNTER0_VALUE) c;
     c \<leftarrow> register_handler 0x20 handler c;
     Some (put_str (lit ''timer_init done\<newline>'') c)
   }"

subsection \<open>The interrupt handler\<close>

definition intr_timer_handler :: "'a dev_state_scheme \<Rightarrow> 'a dev_state_scheme option" where
  "intr_timer_handler s = do {
     let cur_thread = running_thread s;
     t \<leftarrow> rd_task cur_thread s;
     _ \<leftarrow> ASSERT (stack_magic t = 0x19870916);
     s \<leftarrow> wr_task cur_thread (\<lambda>t. t\<lparr>elapsed_ticks := elapsed_ticks t + 1\<rparr>) s;
     let s = s\<lparr>total_ticks := total_ticks s + 1\<rparr>;
     t \<leftarrow> rd_task cur_thread s;
     if ticks t = 0 then schedule s
     else wr_task cur_thread (\<lambda>t. t\<lparr>ticks := ticks t - 1\<rparr>) s
   }"

primrec timer_interrupts :: "nat \<Rightarrow> 'a dev_state_scheme \<Rightarrow> 'a dev_state_scheme option" where
  "timer_interrupts 0 s = Some s"
| "timer_interrupts (Suc n) s = do { s \<leftarrow> intr_timer_handler s; timer_interrupts n s }"

subsection \<open>Sleeping\<close>

text \<open>One turn of the loop of \<open>ticks_to_sleep\<close>, and what the thread does when it runs again.\<close>

definition sleep_turn :: "u32 \<Rightarrow> u32 \<Rightarrow> 'a dev_state_scheme \<Rightarrow> (unit blocking \<times> 'a dev_state_scheme) option" where
  "sleep_turn start_tick sleep_ticks s =
     (if total_ticks s - start_tick < sleep_ticks then do {
        (i, s) \<leftarrow> thread_yield s;
        Some (Waits i, s)
      } else Some (Returns (), s))"

definition sleep_resume ::
    "u32 \<Rightarrow> u32 \<Rightarrow> intr_status \<Rightarrow> 'a dev_state_scheme \<Rightarrow> (unit blocking \<times> 'a dev_state_scheme) option" where
  "sleep_resume start_tick sleep_ticks i s = sleep_turn start_tick sleep_ticks (resume_intr i s)"

definition ticks_to_sleep :: "u32 \<Rightarrow> 'a dev_state_scheme \<Rightarrow> (unit blocking \<times> 'a dev_state_scheme) option" where
  "ticks_to_sleep sleep_ticks s = sleep_turn (total_ticks s) sleep_ticks s"

definition mtime_sleep :: "u32 \<Rightarrow> 'a dev_state_scheme \<Rightarrow> (unit blocking \<times> 'a dev_state_scheme) option" where
  "mtime_sleep m_seconds s = do {
     let sleep_ticks = DIV_ROUND_UP m_seconds mil_seconds_per_intr;
     _ \<leftarrow> ASSERT (sleep_ticks > 0);
     ticks_to_sleep sleep_ticks s
   }"

subsection \<open>Lemmas\<close>

text \<open>What the handler does to the running thread.\<close>

definition tick_task :: "task_struct \<Rightarrow> task_struct" where
  "tick_task t = t\<lparr>elapsed_ticks := elapsed_ticks t + 1\<rparr>"

definition ticked :: "'a dev_state_scheme \<Rightarrow> 'a dev_state_scheme" where
  "ticked s = s\<lparr>tcb := (tcb s)(running_thread s := tick_task (tcb s (running_thread s))),
     total_ticks := total_ticks s + 1\<rparr>"

lemma running_ticked [simp]: "running_thread (ticked s) = running_thread s"
  by (simp add: ticked_def running_thread_def)

lemma sched_inv_task_update:
  assumes "sched_inv dirs T rl s"
    "\<And>t. status (f t) = status t" "\<And>t. pgdir (f t) = pgdir t" "\<And>t. self_kstack (f t) = self_kstack t"
  shows "sched_inv dirs T rl (s\<lparr>tcb := (tcb s)(p := f (tcb s p))\<rparr>)"
  using assms(1) by (auto simp: sched_inv_def tasks_ok_def running_thread_def addr_v2p_def load32_def assms(2-4))

lemma sched_inv_total_ticks [simp]: "sched_inv dirs T rl (s\<lparr>total_ticks := n\<rparr>) = sched_inv dirs T rl s"
  by (rule sched_inv_view) (simp add: sched_view_def)

lemma sched_inv_ticked: "sched_inv dirs T rl s \<Longrightarrow> sched_inv dirs T rl (ticked s)"
  unfolding ticked_def sched_inv_total_ticks
  by (rule sched_inv_task_update) (simp_all add: tick_task_def)

lemma handler_eq:
  assumes "running_thread s \<noteq> NULL" "stack_magic (tcb s (running_thread s)) = 0x19870916"
  shows "intr_timer_handler s =
    (if ticks (tcb s (running_thread s)) = 0 then schedule (ticked s)
     else Some ((ticked s)\<lparr>tcb := (tcb (ticked s))(running_thread s :=
       (tcb (ticked s) (running_thread s))\<lparr>ticks := ticks (tcb s (running_thread s)) - 1\<rparr>)\<rparr>))"
  using assms by (simp add: intr_timer_handler_def rd_task_def wr_task_def ticked_def tick_task_def Let_def)

lemma handler_slice:
  assumes inv: "sched_inv dirs T rl s" and magic: "stack_magic (tcb s (running_thread s)) = 0x19870916"
    and left: "ticks (tcb s (running_thread s)) \<noteq> 0"
  shows "\<exists>s'. intr_timer_handler s = Some s' \<and> sched_inv dirs T rl s' \<and> running_thread s' = running_thread s \<and>
    stack_magic (tcb s' (running_thread s)) = 0x19870916 \<and>
    ticks (tcb s' (running_thread s)) = ticks (tcb s (running_thread s)) - 1 \<and>
    status (tcb s' (running_thread s)) = status (tcb s (running_thread s)) \<and> eflags s' = eflags s \<and>
    idle_thread s' = idle_thread s \<and> total_ticks s' = total_ticks s + 1"
proof -
  let ?p = "running_thread s"
  let ?f = "\<lambda>t. t\<lparr>ticks := ticks (tcb s ?p) - 1\<rparr>"
  let ?s' = "(ticked s)\<lparr>tcb := (tcb (ticked s))(?p := ?f (tcb (ticked s) ?p))\<rparr>"
  have "?p \<noteq> NULL" using inv by (auto simp: sched_inv_def tasks_ok_def)
  then have "intr_timer_handler s = Some ?s'" using handler_eq [of s] magic left by simp
  moreover have "sched_inv dirs T rl ?s'"
    by (rule sched_inv_task_update [OF sched_inv_ticked [OF inv], of ?f]) simp_all
  ultimately show ?thesis
    using magic by (simp add: ticked_def tick_task_def running_thread_def)
qed

lemma pick_next_ticked: "pick_next (ticked s) rl = pick_next s rl"
  by (simp add: pick_next_def ticked_def tick_task_def running_thread_def Let_def cong: list.case_cong)

lemma timer_slice:
  assumes "sched_inv dirs T rl s" "intr_get_status s = INTR_OFF"
    "stack_magic (tcb s (running_thread s)) = 0x19870916" "unat (ticks (tcb s (running_thread s))) = n"
    "pick_next s rl = (nxt, rl')"
  shows "(\<exists>s'. timer_interrupts n s = Some s' \<and> running_thread s' = running_thread s \<and>
      total_ticks s' = total_ticks s + of_nat n) \<and>
    (\<exists>s'. timer_interrupts (Suc n) s = Some s' \<and> running_thread s' = nxt \<and> sched_inv dirs T rl' s')"
  using assms
proof (induction n arbitrary: s)
  case (0 s)
  have "running_thread s \<noteq> NULL" using 0(1) by (auto simp: sched_inv_def tasks_ok_def)
  then have eq: "intr_timer_handler s = schedule (ticked s)"
    using 0(3,4) handler_eq [of s] by (simp add: unat_eq_0)
  have "intr_get_status (ticked s) = INTR_OFF" using 0(2) by (simp add: ticked_def intr_get_status_def)
  with schedule_inv [OF sched_inv_ticked [OF 0(1)], of nxt rl'] show ?case
    using 0(5) eq by (auto simp: pick_next_ticked)
next
  case (Suc n s)
  have pos: "ticks (tcb s (running_thread s)) \<noteq> 0" using Suc.prems(4) by auto
  then have n: "unat (ticks (tcb s (running_thread s)) - 1) = n"
    using Suc.prems(4) by (simp add: unat_minus_one)
  obtain s' where s': "intr_timer_handler s = Some s'" "sched_inv dirs T rl s'"
      "running_thread s' = running_thread s" "stack_magic (tcb s' (running_thread s)) = 0x19870916"
      "ticks (tcb s' (running_thread s)) = ticks (tcb s (running_thread s)) - 1"
      "status (tcb s' (running_thread s)) = status (tcb s (running_thread s))" "eflags s' = eflags s"
      "idle_thread s' = idle_thread s" "total_ticks s' = total_ticks s + 1"
    using handler_slice [OF Suc.prems(1,3) pos] by blast
  have "pick_next s' rl = (nxt, rl')" using Suc.prems(5) s'(3,6,8) by (simp add: pick_next_def Let_def cong: list.case_cong)
  moreover have "intr_get_status s' = INTR_OFF" using Suc.prems(2) s'(7) by (simp add: intr_get_status_def)
  ultimately show ?case
    using Suc.IH [of s'] s' n by (auto simp: algebra_simps)
qed

lemma div_round_up:
  fixes m k :: u32
  assumes "0 < k" "unat m + unat k - 1 < 2 ^ 32"
  shows "unat (DIV_ROUND_UP m k) = (unat m + unat k - 1) div unat k"
proof -
  have "unat (m + k - 1) = unat m + unat k - 1"
  proof -
    have k: "0 < unat k" using assms(1) by (simp add: word_less_nat_alt)
    have "m + k - 1 = of_nat (unat m + unat k - 1)" using k by (simp add: of_nat_diff)
    also have "unat (\<dots> :: u32) = (unat m + unat k - 1) mod 2 ^ 32" by (simp add: unat_of_nat)
    finally show ?thesis using assms(2) by simp
  qed
  then show ?thesis by (simp add: DIV_ROUND_UP_def unat_div_distrib)
qed

subsection \<open>Properties\<close>

text \<open>C26: a thread keeps the processor for its time slice. With \<open>k\<close> ticks left, the running thread
  is still running after \<open>k\<close> timer interrupts, each of which is counted, and the next one hands the
  processor to the head of the ready queue and puts the thread at its end.\<close>

theorem timer_time_slice:
  assumes "sched_inv dirs T (p # rl) s" "intr_get_status s = INTR_OFF"
    "status (tcb s (running_thread s)) = TASK_RUNNING"
    "stack_magic (tcb s (running_thread s)) = 0x19870916"
  shows "(\<exists>s'. timer_interrupts (unat (ticks (tcb s (running_thread s)))) s = Some s' \<and>
      running_thread s' = running_thread s \<and> total_ticks s' = total_ticks s + ucast (ticks (tcb s (running_thread s)))) \<and>
    (\<exists>s'. timer_interrupts (Suc (unat (ticks (tcb s (running_thread s))))) s = Some s' \<and>
      running_thread s' = p \<and> sched_inv dirs T (rl @ [running_thread s]) s')"
proof -
  have "pick_next s (p # rl) = (p, rl @ [running_thread s])"
    using assms(3) by (simp add: pick_next_def Let_def)
  from timer_slice [OF assms(1,2,4) refl this] show ?thesis by simp
qed

definition demo_dev :: dev_state where
  "demo_dev = ioq_state.extend demo_ioq (dev_state.fields 0)"

lemma demo_dev_inv: "sched_inv (\<lambda>_. 0x100000) demo_tasks [0xc0101000, 0xc0102000] demo_dev"
proof -
  have "sched_view demo_dev = sched_view demo_ioq"
    by (simp add: demo_dev_def sched_view_def ioq_state.defs dev_state.defs)
  then show ?thesis using demo_ioq_inv sched_inv_view [of demo_dev demo_ioq] by (simp add: ioq_inv_def)
qed

lemma demo_dev_start:
  "intr_get_status demo_dev = INTR_OFF" "running_thread demo_dev = 0xc009e000"
  "tcb demo_dev 0xc009e000 = demo_task 0xc009e000 TASK_RUNNING"
  by (simp_all add: demo_dev_def demo_ioq_def demo_sync_def demo_state_def kstate.defs sync_state.defs
      ioq_state.defs dev_state.defs intr_get_status_bit running_thread_def)

theorem timer_time_slice_witness:
  "\<exists>s'. timer_interrupts (Suc 31) demo_dev = Some s' \<and> running_thread s' = 0xc0101000"
  using timer_time_slice [OF demo_dev_inv demo_dev_start(1)] unfolding demo_dev_start
  by (auto simp add: demo_task_def simp del: timer_interrupts.simps)

text \<open>\<open>mtime_sleep\<close> sleeps long enough and no longer. A thread woken in \<open>mtime_sleep\<close> leaves it
  exactly when the ticks since the call, at 10 milliseconds each, cover the requested time.\<close>

theorem mtime_sleep_duration:
  assumes "unat m < 2 ^ 32 - 9"
  shows "(\<exists>s'. sleep_resume start_tick (DIV_ROUND_UP m mil_seconds_per_intr) i s = Some (Returns (), s')) \<longleftrightarrow>
    unat m \<le> 10 * unat (total_ticks s - start_tick)"
proof -
  have ten: "mil_seconds_per_intr = 10" by (simp add: mil_seconds_per_intr_def IRQ0_FREQUENCY_def)
  have n: "unat (DIV_ROUND_UP m mil_seconds_per_intr) = (unat m + 9) div 10"
    using div_round_up [of 10 m] assms by (simp add: ten)
  have tk: "total_ticks (resume_intr i s) = total_ticks s"
    by (simp add: resume_intr_def intr_set_status_def intr_enable_def intr_disable_def sti_def cli_def)
  have "(\<exists>s'. sleep_resume start_tick (DIV_ROUND_UP m mil_seconds_per_intr) i s = Some (Returns (), s')) \<longleftrightarrow>
      \<not> total_ticks s - start_tick < DIV_ROUND_UP m mil_seconds_per_intr"
    by (auto simp: sleep_resume_def sleep_turn_def tk split: bind_splits)
  also have "\<dots> \<longleftrightarrow> (unat m + 9) div 10 \<le> unat (total_ticks s - start_tick)"
    by (simp add: word_less_nat_alt n not_less)
  also have "\<dots> \<longleftrightarrow> unat m \<le> 10 * unat (total_ticks s - start_tick)" by linarith
  finally show ?thesis .
qed

theorem mtime_sleep_duration_witness:
  "\<exists>s'. sleep_resume 0 (DIV_ROUND_UP 25 mil_seconds_per_intr) INTR_ON (demo_dev\<lparr>total_ticks := 3\<rparr>) = Some (Returns (), s')"
  by (subst mtime_sleep_duration) simp_all

text \<open>the clock is not programmed for 100 interrupts a second. \<open>timer_init\<close> sends the mode and
  the low byte of the divisor 11931, but the high byte it sends is always 0, so the counter is
  loaded with 155.\<close>

theorem timer_init_divisor:
  "COUNTER0_VALUE = 11931 \<and>
   outs (frequency_set CONTRER0_PORT COUNTER0_NO READ_WRITE_LATCH COUNTER_MODE (ucast COUNTER0_VALUE) c) =
     outs c @ [(0x43, 0x34), (0x40, 155), (0x40, 0)]"
  by (simp add: frequency_set_def outb_def Let_def PIT_CONTROL_PORT_def CONTRER0_PORT_def COUNTER0_NO_def
      READ_WRITE_LATCH_def COUNTER_MODE_def COUNTER0_VALUE_def INPUT_FREQUENCY_def IRQ0_FREQUENCY_def)

end
