(* ===== verification/Keyboard.thy ===== *)
theory Keyboard
  imports Timer
begin

text \<open>
  The keyboard driver: \<^verbatim>\<open>device/keyboard.c\<close>.

  \<open>kbd_state\<close> adds the five flags of the driver and the address of its queue \<open>kbd_buf\<close>. The byte
  that \<open>inb\<close> reads from the controller is an argument of the handler. The handler is split at its
  early returns: \<open>kbd_break\<close> for the release of a key, \<open>kbd_make\<close> for a press (\<open>kbd_char\<close> when
  the key has a character, \<open>kbd_press\<close> when it is a modifier). Characters are ASCII codes.

  The specification is \<open>typed\<close> (the character of a key press under the current modifiers) and
  \<open>key_events\<close> (the presses and releases a sequence of scan codes stands for).
\<close>

unbundle bit_operations_syntax

record kbd_state = dev_state +
  kbd_buf :: addr
  ctrl_status :: bool
  shift_status :: bool
  alt_status :: bool
  caps_lock_status :: bool
  ext_scancode :: bool

definition shift_l_make :: u16 where "shift_l_make = 0x2a"
definition shift_r_make :: u16 where "shift_r_make = 0x36"
definition alt_l_make :: u16 where "alt_l_make = 0x38"
definition alt_r_make :: u16 where "alt_r_make = 0xe038"
definition ctrl_l_make :: u16 where "ctrl_l_make = 0x1d"
definition ctrl_r_make :: u16 where "ctrl_r_make = 0xe01d"
definition caps_lock_make :: u16 where "caps_lock_make = 0x3a"

lemmas make_codes = shift_l_make_def shift_r_make_def alt_l_make_def alt_r_make_def ctrl_l_make_def
  ctrl_r_make_def caps_lock_make_def

definition keymap :: "(u8 \<times> u8) list" where
  "keymap =
     [(0, 0), (27, 27), (49, 33), (50, 64), (51, 35), (52, 36), (53, 37), (54, 94), (55, 38),
      (56, 42), (57, 40), (48, 41), (45, 95), (61, 43), (8, 8), (9, 9), (113, 81), (119, 87),
      (101, 69), (114, 82), (116, 84), (121, 89), (117, 85), (105, 73), (111, 79), (112, 80),
      (91, 123), (93, 125), (13, 13), (0, 0), (97, 65), (115, 83), (100, 68), (102, 70),
      (103, 71), (104, 72), (106, 74), (107, 75), (108, 76), (59, 58), (39, 34), (96, 126),
      (0, 0), (92, 124), (122, 90), (120, 88), (99, 67), (118, 86), (98, 66), (110, 78),
      (109, 77), (44, 60), (46, 62), (47, 63), (0, 0), (42, 42), (0, 0), (32, 32), (0, 0)]"

definition kbd_break :: "u16 \<Rightarrow> 'a kbd_state_scheme \<Rightarrow> 'a kbd_state_scheme" where
  "kbd_break scancode s =
     (let make_code = scancode AND 0xff7f in
      if make_code = ctrl_l_make \<or> make_code = ctrl_r_make then s\<lparr>ctrl_status := False\<rparr>
      else if make_code = shift_l_make \<or> make_code = shift_r_make then s\<lparr>shift_status := False\<rparr>
      else if make_code = alt_l_make \<or> make_code = alt_r_make then s\<lparr>alt_status := False\<rparr>
      else s)"

definition two_char_key :: "u16 \<Rightarrow> bool" where
  "two_char_key scancode \<longleftrightarrow>
     scancode < 0x0e \<or> scancode = 0x29 \<or> scancode = 0x1a \<or> scancode = 0x1b \<or> scancode = 0x2b \<or>
     scancode = 0x27 \<or> scancode = 0x28 \<or> scancode = 0x33 \<or> scancode = 0x34 \<or> scancode = 0x35"

definition use_shift :: "u16 \<Rightarrow> bool \<Rightarrow> bool \<Rightarrow> bool" where
  "use_shift scancode shift_down_last caps_lock_last =
     (if two_char_key scancode then (if shift_down_last then True else False)
      else if shift_down_last \<and> caps_lock_last then False
      else if shift_down_last \<or> caps_lock_last then True
      else False)"

definition kbd_char :: "u8 \<Rightarrow> 'a kbd_state_scheme \<Rightarrow> (unit blocking \<times> 'a kbd_state_scheme) option" where
  "kbd_char cur_char s =
     (let cur_char = (if ctrl_status s \<and> cur_char = 108 \<or> ctrl_status s \<and> cur_char = 117
                      then cur_char - 97 else cur_char)
      in do {
        full \<leftarrow> ioq_full (kbd_buf s) s;
        if \<not> full then ioq_putchar (kbd_buf s) cur_char s else Some (Returns (), s)
      })"

definition kbd_press :: "u16 \<Rightarrow> 'a kbd_state_scheme \<Rightarrow> 'a kbd_state_scheme" where
  "kbd_press scancode s =
     (if scancode = ctrl_l_make \<or> scancode = ctrl_r_make then s\<lparr>ctrl_status := True\<rparr>
      else if scancode = shift_l_make \<or> scancode = shift_r_make then s\<lparr>shift_status := True\<rparr>
      else if scancode = alt_l_make \<or> scancode = alt_r_make then s\<lparr>alt_status := True\<rparr>
      else if scancode = caps_lock_make then s\<lparr>caps_lock_status := \<not> caps_lock_status s\<rparr>
      else s)"

definition kbd_make :: "u16 \<Rightarrow> 'a kbd_state_scheme \<Rightarrow> (unit blocking \<times> 'a kbd_state_scheme) option" where
  "kbd_make scancode s =
     (let shift = use_shift scancode (shift_status s) (caps_lock_status s);
          scancode = scancode AND 0x00ff;
          index = (ucast scancode :: u8)
      in do {
        row \<leftarrow> get_at keymap (unat index);
        let cur_char = (if shift then snd row else fst row);
        if cur_char \<noteq> 0 then kbd_char cur_char s else Some (Returns (), kbd_press scancode s)
      })"

definition intr_keyboard_handler :: "u8 \<Rightarrow> 'a kbd_state_scheme \<Rightarrow> (unit blocking \<times> 'a kbd_state_scheme) option" where
  "intr_keyboard_handler code s =
     (let scancode = (ucast code :: u16) in
      if scancode = 0xe0 then Some (Returns (), s\<lparr>ext_scancode := True\<rparr>)
      else
        let (scancode, s) = (if ext_scancode s then (0xe000 OR scancode, s\<lparr>ext_scancode := False\<rparr>)
                             else (scancode, s))
        in
        if scancode AND 0x0080 \<noteq> 0 then Some (Returns (), kbd_break scancode s)
        else if scancode > 0 \<and> scancode < 0x3b \<or> scancode = alt_r_make \<or> scancode = ctrl_r_make
        then kbd_make scancode s
        else Some (Returns (), put_str (lit ''unknown key\<newline>'') s))"

definition keyboard_init :: "addr \<Rightarrow> 'a kbd_state_scheme \<Rightarrow> 'a kbd_state_scheme option" where
  "keyboard_init handler s = do {
     let s = put_str (lit ''keyboard init start\<newline>'') s;
     s \<leftarrow> ioqueue_init (kbd_buf s) s;
     s \<leftarrow> register_handler 0x21 handler s;
     Some (put_str (lit ''keyboard init done\<newline>'') s)
   }"

text \<open>A sequence of keyboard interrupts.\<close>

primrec kbd_run :: "u8 list \<Rightarrow> 'a kbd_state_scheme \<Rightarrow> 'a kbd_state_scheme option" where
  "kbd_run [] s = Some s"
| "kbd_run (c # cs) s = do { (w, s) \<leftarrow> intr_keyboard_handler c s; kbd_run cs s }"

subsection \<open>What the keys mean\<close>

text \<open>Letters follow shift and caps lock, the other keys shift alone; control turns \<open>l\<close> and \<open>u\<close>
  into the codes 11 and 20.\<close>

definition is_letter :: "u8 \<Rightarrow> bool" where
  "is_letter c \<longleftrightarrow> 97 \<le> c \<and> c \<le> 122"

definition key_char :: "bool \<Rightarrow> bool \<Rightarrow> u8 \<Rightarrow> u8" where
  "key_char shift caps code =
     (case keymap ! unat code of (plain, shifted) \<Rightarrow>
        if is_letter plain then (if shift \<noteq> caps then plain - 32 else plain)
        else if shift then shifted else plain)"

definition typed :: "'a kbd_state_scheme \<Rightarrow> u8 \<Rightarrow> u8 list" where
  "typed s code =
     (if ext_scancode s \<or> code = 0 \<or> code \<ge> 0x3b then []
      else let c = key_char (shift_status s) (caps_lock_status s) code in
        if c = 0 then []
        else if ctrl_status s \<and> c = 108 then [11]
        else if ctrl_status s \<and> c = 117 then [20]
        else [c])"

text \<open>The events behind a sequence of scan codes: prefix byte, release or press, key number.\<close>

datatype key_event = Press bool u8 | Release bool u8

fun key_events :: "bool \<Rightarrow> u8 list \<Rightarrow> key_event list" where
  "key_events ext [] = []"
| "key_events ext (c # cs) =
     (if c = 0xe0 then key_events True cs
      else (if c \<ge> 0x80 then Release ext (c - 0x80) else Press ext c) # key_events False cs)"

definition is_shift_key :: "bool \<Rightarrow> u8 \<Rightarrow> bool" where
  "is_shift_key ext k \<longleftrightarrow> \<not> ext \<and> (k = 0x2a \<or> k = 0x36)"

definition is_ctrl_key :: "u8 \<Rightarrow> bool" where
  "is_ctrl_key k \<longleftrightarrow> k = 0x1d"

definition is_caps_key :: "bool \<Rightarrow> u8 \<Rightarrow> bool" where
  "is_caps_key ext k \<longleftrightarrow> \<not> ext \<and> k = 0x3a"

fun shift_after :: "bool \<Rightarrow> key_event list \<Rightarrow> bool" where
  "shift_after b [] = b"
| "shift_after b (Press e k # es) = shift_after (if is_shift_key e k then True else b) es"
| "shift_after b (Release e k # es) = shift_after (if is_shift_key e k then False else b) es"

fun ctrl_after :: "bool \<Rightarrow> key_event list \<Rightarrow> bool" where
  "ctrl_after b [] = b"
| "ctrl_after b (Press e k # es) = ctrl_after (if is_ctrl_key k then True else b) es"
| "ctrl_after b (Release e k # es) = ctrl_after (if is_ctrl_key k then False else b) es"

fun caps_presses :: "key_event list \<Rightarrow> nat" where
  "caps_presses [] = 0"
| "caps_presses (Press e k # es) = (if is_caps_key e k then 1 else 0) + caps_presses es"
| "caps_presses (Release e k # es) = caps_presses es"

subsection \<open>Scan codes\<close>

lemma u8_cases: "(\<And>n. n < 256 \<Longrightarrow> P (of_nat n)) \<Longrightarrow> P c" for c :: u8
proof -
  assume "\<And>n. n < 256 \<Longrightarrow> P (of_nat n)"
  moreover have "unat c < 256" using unsigned_less [of c] by simp
  ultimately have "P (of_nat (unat c))" by blast
  then show ?thesis by simp
qed

definition ext_scan :: "bool \<Rightarrow> u8 \<Rightarrow> u16" where
  "ext_scan ext c = (if ext then 0xe000 OR ucast c else ucast c)"

lemma high_bit:
  "0x80 \<le> c \<longleftrightarrow> bit c 7" "0x80 \<le> c \<Longrightarrow> c AND 0x7f = c - 0x80" for c :: u8
proof -
  have "list_all (\<lambda>n. (0x80 \<le> (of_nat n :: u8)) = bit (of_nat n :: u8) 7 \<and>
      (0x80 \<le> (of_nat n :: u8) \<longrightarrow> (of_nat n :: u8) AND 0x7f = of_nat n - 0x80)) [0..<256]"
    by code_simp
  then have "(0x80 \<le> c) = bit c 7 \<and> (0x80 \<le> c \<longrightarrow> c AND 0x7f = c - 0x80)"
    by - (rule u8_cases, simp add: list_all_iff)
  then show "0x80 \<le> c \<longleftrightarrow> bit c 7" "0x80 \<le> c \<Longrightarrow> c AND 0x7f = c - 0x80" by blast+
qed

lemma bit_prefixed: "bit (push_bit 8 (ucast h) OR ucast c :: u16) n \<longleftrightarrow> (if n < 8 then bit c n else n < 16 \<and> bit h (n - 8))"
  for h c :: u8
  using bit_imp_le_length [of c n] by (auto simp: bit_or_iff bit_push_bit_iff bit_ucast_iff)

lemma bit_scan: "bit (ext_scan e c) n \<longleftrightarrow> (if n < 8 then bit c n else n < 16 \<and> e \<and> bit (0xe0 :: u8) (n - 8))"
proof (cases e)
  case True
  have "ext_scan e c = push_bit 8 (ucast (0xe0 :: u8)) OR ucast c" using True by (simp add: ext_scan_def)
  then show ?thesis using True by (simp only: bit_prefixed simp_thms)
next
  case False
  then show ?thesis using bit_imp_le_length [of c n] by (auto simp: ext_scan_def bit_ucast_iff)
qed

lemma bit_cleared: "bit (w AND NOT (push_bit k 1)) n \<longleftrightarrow> bit w n \<and> n \<noteq> k" for w :: "'a::len word"
  using bit_imp_le_length [of w n] by (auto simp: bit_simps)

lemma scan_inj [simp]: "ext_scan e c = ext_scan e' c' \<longleftrightarrow> e = e' \<and> c = c'"
proof
  assume eq: "ext_scan e c = ext_scan e' c'"
  have "bit c n = bit c' n" if "n < 8" for n
    using arg_cong [OF eq, of "\<lambda>w. bit w n"] that by (simp add: bit_scan)
  moreover have "e = e'"
    using arg_cong [OF eq, of "\<lambda>w. bit w 15"] by (simp add: bit_scan)
  ultimately show "e = e' \<and> c = c'" by (auto intro: bit_word_eqI)
qed simp

lemma scan_codes:
  "shift_l_make = ext_scan False 0x2a" "shift_r_make = ext_scan False 0x36" "alt_l_make = ext_scan False 0x38"
  "alt_r_make = ext_scan True 0x38" "ctrl_l_make = ext_scan False 0x1d" "ctrl_r_make = ext_scan True 0x1d"
  "caps_lock_make = ext_scan False 0x3a"
  by (simp_all add: make_codes ext_scan_def)

lemma scan_release: "0x80 \<le> c \<Longrightarrow> ext_scan e c AND 0xff7f = ext_scan e (c - 0x80)"
proof -
  assume c: "0x80 \<le> c"
  have m: "(0xff7f :: u16) = NOT (push_bit 7 1)" "(0x7f :: u8) = NOT (push_bit 7 1)" by simp_all
  have "ext_scan e c AND 0xff7f = ext_scan e (c AND 0x7f)"
    unfolding m by (rule bit_word_eqI, unfold bit_scan bit_cleared, auto)
  then show ?thesis using high_bit(2) [OF c] by simp
qed

lemma scan_key: "ext_scan e c AND 0x00ff = ucast c"
proof -
  have m: "(0xff :: u16) = mask 8" by (simp add: mask_eq_exp_minus_1)
  show ?thesis
    unfolding m using bit_imp_le_length [of c]
    by (intro bit_word_eqI) (auto simp: bit_scan bit_and_iff bit_mask_iff bit_ucast_iff)
qed

lemma scan_range: "0 < ext_scan e c \<and> ext_scan e c < 0x3b \<longleftrightarrow> \<not> e \<and> 0 < c \<and> c < 0x3b"
proof (cases e)
  case True
  have "\<not> ext_scan e c < 0x3b"
  proof
    assume "ext_scan e c < 0x3b"
    then have "uint (ext_scan e c) < 0x3b" by (simp add: word_less_def)
    moreover have "uint (0xe000 :: u16) \<le> uint (0xe000 :: u16) OR uint (ucast c :: u16)" by (rule or_greater_eq) simp
    ultimately show False using True by (simp add: ext_scan_def unsigned_or_eq)
  qed
  then show ?thesis using True by simp
next
  case False
  have "unat (ucast c :: u16) = unat c"
  proof -
    have "unat c < 2 ^ 16" using unsigned_less [of c, where 'a = nat] by simp
    then show ?thesis by (simp add: unsigned_ucast_eq take_bit_nat_eq_self)
  qed
  then show ?thesis using False by (simp add: ext_scan_def word_less_nat_alt word_gt_0)
qed

lemma scan_facts:
  "(ext_scan e c AND 0x0080 \<noteq> 0) = (0x80 \<le> c)"
  "0x80 \<le> c \<Longrightarrow> (ext_scan e c AND 0xff7f = ctrl_l_make \<or> ext_scan e c AND 0xff7f = ctrl_r_make) = is_ctrl_key (c - 0x80)"
  "0x80 \<le> c \<Longrightarrow> (ext_scan e c AND 0xff7f = shift_l_make \<or> ext_scan e c AND 0xff7f = shift_r_make) = is_shift_key e (c - 0x80)"
  "(ext_scan e c > 0 \<and> ext_scan e c < 0x3b \<or> ext_scan e c = alt_r_make \<or> ext_scan e c = ctrl_r_make) =
     (if e then c = 0x38 \<or> c = 0x1d else 0 < c \<and> c < 0x3b)"
  "ext_scan e c AND 0x00ff = ucast c" "ucast (ucast c :: u16) = c" "(ucast c :: u16) = 0xe0 \<longleftrightarrow> c = 0xe0"
proof -
  have "(0x80 :: u16) = push_bit 7 1" by simp
  then show "(ext_scan e c AND 0x0080 \<noteq> 0) = (0x80 \<le> c)"
    using word_and_1_shift [of "ext_scan e c" 7] by (simp add: bit_scan high_bit)
  show "0x80 \<le> c \<Longrightarrow> (ext_scan e c AND 0xff7f = ctrl_l_make \<or> ext_scan e c AND 0xff7f = ctrl_r_make) = is_ctrl_key (c - 0x80)"
    "0x80 \<le> c \<Longrightarrow> (ext_scan e c AND 0xff7f = shift_l_make \<or> ext_scan e c AND 0xff7f = shift_r_make) = is_shift_key e (c - 0x80)"
    by (auto simp: scan_release scan_codes is_ctrl_key_def is_shift_key_def)
  show "(ext_scan e c > 0 \<and> ext_scan e c < 0x3b \<or> ext_scan e c = alt_r_make \<or> ext_scan e c = ctrl_r_make) =
     (if e then c = 0x38 \<or> c = 0x1d else 0 < c \<and> c < 0x3b)"
    using scan_range [of e c] by (auto simp: scan_codes)
  show "ext_scan e c AND 0x00ff = ucast c" by (rule scan_key)
  show "ucast (ucast c :: u16) = c" by (rule bit_word_eqI) (simp add: bit_ucast_iff)
  have "(0xe0 :: u16) = ext_scan False 0xe0" "ucast c = ext_scan False c" by (simp_all add: ext_scan_def)
  then show "(ucast c :: u16) = 0xe0 \<longleftrightarrow> c = 0xe0" by (simp only: scan_inj simp_thms)
qed

lemma key_char_ok:
  assumes "c < 0x3b" "row = keymap ! unat c"
  shows "(if use_shift (ucast c) sh cl then snd row else fst row) = key_char sh cl c"
proof -
  have all: "list_all (\<lambda>n. list_all (\<lambda>(sh, cl). let c = of_nat n; row = keymap ! n in
      (if use_shift (ucast c) sh cl then snd row else fst row) = key_char sh cl c)
      [(True, True), (True, False), (False, True), (False, False)]) [0..<59]"
    by code_simp
  have n: "unat c \<in> set [0..<59]" using assms(1) by (simp add: word_less_nat_alt)
  have "let row = keymap ! unat c in (if use_shift (ucast c) sh cl then snd row else fst row) = key_char sh cl c"
    using bspec [OF all [unfolded list_all_iff [of _ "[0..<59]"]] n] by (cases sh; cases cl) (simp_all add: Let_def)
  then show ?thesis by (simp only: assms(2) Let_def)
qed

lemma ext_off: "(if ext_scancode s then s\<lparr>ext_scancode := False\<rparr> else s) = s\<lparr>ext_scancode := False\<rparr>"
  by (cases s) simp

text \<open>The handler by kind of scan code.\<close>

lemma handler_prefix: "intr_keyboard_handler 0xe0 s = Some (Returns (), s\<lparr>ext_scancode := True\<rparr>)"
  by (simp add: intr_keyboard_handler_def)

lemma handler_scan:
  assumes "c \<noteq> 0xe0"
  shows "intr_keyboard_handler c s =
    (let e = ext_scancode s; s = s\<lparr>ext_scancode := False\<rparr> in
     if 0x80 \<le> c then Some (Returns (), kbd_break (ext_scan e c) s)
     else if (if e then c = 0x38 \<or> c = 0x1d else 0 < c \<and> c < 0x3b) then kbd_make (ext_scan e c) s
     else Some (Returns (), put_str (lit ''unknown key\<newline>'') s))"
proof -
  have eq: "(if ext_scancode s then (0xe000 OR ucast c :: u16, s\<lparr>ext_scancode := False\<rparr>) else (ucast c, s)) =
      (ext_scan (ext_scancode s) c, s\<lparr>ext_scancode := False\<rparr>)"
    using ext_off [of s] by (auto simp: ext_scan_def)
  show ?thesis
  proof (cases "0x80 \<le> c")
    case True
    then show ?thesis
      by (simp only: intr_keyboard_handler_def Let_def eq prod.case scan_facts(7) scan_facts(1) assms if_False if_True)
  next
    case False
    then show ?thesis
      by (simp only: intr_keyboard_handler_def Let_def eq prod.case scan_facts(7) scan_facts(1) assms False
          scan_facts(4) if_False)
  qed
qed

text \<open>The effect on the modifiers and on the queue.\<close>

definition mods :: "'a kbd_state_scheme \<Rightarrow> bool \<times> bool \<times> bool \<times> bool" where
  "mods s = (ext_scancode s, shift_status s, ctrl_status s, caps_lock_status s)"

fun mods_step :: "bool \<times> bool \<times> bool \<times> bool \<Rightarrow> u8 \<Rightarrow> bool \<times> bool \<times> bool \<times> bool" where
  "mods_step (e, sh, ct, ca) c =
     (if c = 0xe0 then (True, sh, ct, ca)
      else if 0x80 \<le> c then
        (False, (if is_shift_key e (c - 0x80) then False else sh), (if is_ctrl_key (c - 0x80) then False else ct), ca)
      else
        (False, (if is_shift_key e c then True else sh), (if is_ctrl_key c then True else ct),
         (if is_caps_key e c then \<not> ca else ca)))"

definition kbd_ok :: "(addr \<Rightarrow> u32) \<Rightarrow> addr set \<Rightarrow> addr list \<Rightarrow> 'a kbd_state_scheme \<Rightarrow> bool" where
  "kbd_ok dirs T rl s \<longleftrightarrow> ioq_inv dirs T (kbd_buf s) rl s"

definition kbd_list :: "'a kbd_state_scheme \<Rightarrow> u8 list" where
  "kbd_list s = ioq_list (kbd_buf s) s"

text \<open>Changing flags and printing do not touch the queue.\<close>

lemma kbd_view:
  assumes "sched_view s' = sched_view s" "eflags s' = eflags s" "ioqs s' = ioqs s" "kbd_buf s' = kbd_buf s"
  shows "kbd_ok dirs T rl s' = kbd_ok dirs T rl s" "kbd_list s' = kbd_list s"
proof -
  have "tcb s' = tcb s" using assms(1) by (simp add: sched_view_def)
  moreover have "sched_inv dirs T rl s' = sched_inv dirs T rl s" using sched_inv_view [OF assms(1)] .
  ultimately show "kbd_ok dirs T rl s' = kbd_ok dirs T rl s" "kbd_list s' = kbd_list s"
    using assms(2-4) by (simp_all add: kbd_ok_def kbd_list_def ioq_inv_def ioq_list_def waiter_ok_def intr_get_status_def)
qed

lemma kbd_flags [simp]:
  "kbd_ok dirs T rl (s\<lparr>ext_scancode := b\<rparr>) = kbd_ok dirs T rl s" "kbd_list (s\<lparr>ext_scancode := b\<rparr>) = kbd_list s"
  "kbd_ok dirs T rl (kbd_break sc s) = kbd_ok dirs T rl s" "kbd_list (kbd_break sc s) = kbd_list s"
  "kbd_ok dirs T rl (kbd_press sc s) = kbd_ok dirs T rl s" "kbd_list (kbd_press sc s) = kbd_list s"
  "kbd_ok dirs T rl (put_str cs s) = kbd_ok dirs T rl s" "kbd_list (put_str cs s) = kbd_list s"
  by ((rule kbd_view; simp add: sched_view_def kbd_break_def kbd_press_def put_str_screen Let_def); fail)+

lemma more_mods: "ioq_state.more s' = ioq_state.more s \<Longrightarrow> mods s' = mods s \<and> kbd_buf s' = kbd_buf s"
  by (cases s; cases s') (simp add: mods_def)

lemma kbd_char_ok:
  assumes "kbd_ok dirs T rl s"
  shows "\<exists>s' rl'. kbd_char c s = Some (Returns (), s') \<and> kbd_ok dirs T rl' s' \<and> mods s' = mods s \<and>
    kbd_list s' = kbd_list s @ (if length (kbd_list s) < 2047
      then [if ctrl_status s \<and> (c = 108 \<or> c = 117) then c - 97 else c] else [])"
proof -
  let ?c = "if ctrl_status s \<and> (c = 108 \<or> c = 117) then c - 97 else c"
  let ?q = "ioqs s (kbd_buf s)"
  have inv: "ioq_inv dirs T (kbd_buf s) rl s" using assms by (simp add: kbd_ok_def)
  then have wf: "q_wf ?q" and off: "intr_get_status s = INTR_OFF" by (simp_all add: ioq_inv_def)
  have full: "ioq_full (kbd_buf s) s = Some (length (kbd_list s) = 2047)"
    using q_full_iff [OF wf] off by (simp add: ioq_full_def kbd_list_def ioq_list_def bufsize_def)
  have eq: "kbd_char c s = (if length (kbd_list s) = 2047 then Some (Returns (), s) else ioq_putchar (kbd_buf s) ?c s)"
    unfolding kbd_char_def Let_def full by (auto intro: arg_cong [of _ _ "\<lambda>c. ioq_putchar (kbd_buf s) c s"])
  have len: "length (kbd_list s) < 2048" using q_length_less [of ?q] by (simp add: kbd_list_def ioq_list_def bufsize_def)
  show ?thesis
  proof (cases "length (kbd_list s) = 2047")
    case True
    then show ?thesis using eq assms by auto
  next
    case False
    then have "length (ioq_list (kbd_buf s) s) < bufsize - 1" using len by (simp add: kbd_list_def bufsize_def)
    from ioq_putchar_ok [OF inv this, of ?c] obtain s' where s':
      "ioq_putchar (kbd_buf s) ?c s = Some (Returns (), s')"
      "ioq_inv dirs T (kbd_buf s) (woken (consumer ?q) rl) s'"
      "ioq_list (kbd_buf s) s' = ioq_list (kbd_buf s) s @ [?c]" "ioq_state.more s' = ioq_state.more s"
      by blast
    show ?thesis
      using s'(1-3) more_mods [OF s'(4)] eq False len by (auto simp: kbd_ok_def kbd_list_def)
  qed
qed

lemma mods_break:
  assumes "0x80 \<le> c" "mods s = (e', sh, ct, ca)"
  shows "mods (kbd_break (ext_scan e c) s) =
    (e', (if is_shift_key e (c - 0x80) then False else sh), (if is_ctrl_key (c - 0x80) then False else ct), ca)"
proof -
  have "is_shift_key e (c - 0x80) \<Longrightarrow> \<not> is_ctrl_key (c - 0x80)" by (auto simp: is_shift_key_def is_ctrl_key_def)
  then show ?thesis
    using scan_facts(2,3) [OF assms(1), of e] assms(2) unfolding kbd_break_def Let_def
    by (auto simp: mods_def)
qed

lemma mods_press:
  assumes "mods s = (e', sh, ct, ca)"
  shows "mods (kbd_press (ucast c) s) =
    (e', (if is_shift_key False c then True else sh), (if is_ctrl_key c then True else ct),
     (if is_caps_key False c then \<not> ca else ca))"
proof -
  have eqs: "(ucast c :: u16) = ucast k \<longleftrightarrow> c = k" for k :: u8
    using scan_facts(6) [of c] scan_facts(6) [of k] by metis
  have big: "(ucast c :: u16) \<noteq> 0xe01d"
  proof
    assume "(ucast c :: u16) = 0xe01d"
    moreover have "ext_scan False c AND 0xff = ucast c" by (rule scan_facts(5))
    ultimately show False by (simp add: ext_scan_def)
  qed
  show ?thesis
    using assms eqs [of "0x1d"] eqs [of "0x2a"] eqs [of "0x36"] eqs [of "0x38"] eqs [of "0x3a"] big
    by (auto simp: kbd_press_def make_codes mods_def is_shift_key_def is_ctrl_key_def is_caps_key_def)
qed

lemma kbd_make_ok:
  assumes "kbd_ok dirs T rl s" "ext_scancode s = False"
    and code: "if e then c = 0x38 \<or> c = 0x1d else 0 < c \<and> c < 0x3b"
  shows "\<exists>s' rl'. kbd_make (ext_scan e c) s = Some (Returns (), s') \<and> kbd_ok dirs T rl' s' \<and>
    mods s' = mods_step (e, shift_status s, ctrl_status s, caps_lock_status s) c \<and>
    kbd_list s' = kbd_list s @ (if length (kbd_list s) < 2047 then typed (s\<lparr>ext_scancode := e\<rparr>) c else [])"
proof -
  let ?row = "keymap ! unat c"
  let ?sh = "use_shift (ext_scan e c) (shift_status s) (caps_lock_status s)"
  let ?ch = "if ?sh then snd ?row else fst ?row"
  have c: "c < 0x3b" using code by (auto split: if_splits)
  then have small: "\<not> 0x80 \<le> c" "c \<noteq> 0xe0" "unat c < length keymap"
    by (auto simp: word_le_nat_alt word_less_nat_alt keymap_def)
  have key: "?ch = (if e then 0 else key_char (shift_status s) (caps_lock_status s) c)"
  proof (cases e)
    case True
    then have "?row = (0, 0)" using code by (auto simp: keymap_def)
    then show ?thesis using True by simp
  next
    case False
    then show ?thesis using key_char_ok [OF c refl] by (simp add: ext_scan_def)
  qed
  have eq: "kbd_make (ext_scan e c) s = (if ?ch \<noteq> 0 then kbd_char ?ch s else Some (Returns (), kbd_press (ucast c) s))"
    using small(3) by (simp add: kbd_make_def Let_def scan_facts(5,6))
  have m: "mods s = (False, shift_status s, ctrl_status s, caps_lock_status s)" using assms(2) by (simp add: mods_def)
  show ?thesis
  proof (cases "?ch = 0")
    case True
    have "mods_step (e, shift_status s, ctrl_status s, caps_lock_status s) c =
        mods_step (False, shift_status s, ctrl_status s, caps_lock_status s) c"
      using code small by (auto simp: is_shift_key_def is_caps_key_def)
    then have "mods (kbd_press (ucast c) s) = mods_step (e, shift_status s, ctrl_status s, caps_lock_status s) c"
      using mods_press [OF m, of c] small by simp
    moreover have "typed (s\<lparr>ext_scancode := e\<rparr>) c = []" using True key by (simp add: typed_def Let_def split: if_splits)
    ultimately show ?thesis using True eq assms(1) by auto
  next
    case False
    then have e: "\<not> e" and k: "?ch = key_char (shift_status s) (caps_lock_status s) c"
      using key by (auto split: if_splits)
    obtain s' rl' where s': "kbd_char ?ch s = Some (Returns (), s')" "kbd_ok dirs T rl' s'" "mods s' = mods s"
      "kbd_list s' = kbd_list s @ (if length (kbd_list s) < 2047
        then [if ctrl_status s \<and> (?ch = 108 \<or> ?ch = 117) then ?ch - 97 else ?ch] else [])"
      using kbd_char_ok [OF assms(1), of ?ch] by blast
    have nokey: "\<not> is_shift_key False c" "\<not> is_ctrl_key c" "\<not> is_caps_key False c"
      using False k by (auto simp: is_shift_key_def is_ctrl_key_def is_caps_key_def key_char_def keymap_def is_letter_def)
    have "mods s' = mods_step (e, shift_status s, ctrl_status s, caps_lock_status s) c"
      using s'(3) m e nokey small by simp
    moreover have "typed (s\<lparr>ext_scancode := e\<rparr>) c = [if ctrl_status s \<and> (?ch = 108 \<or> ?ch = 117) then ?ch - 97 else ?ch]"
    proof -
      have "c \<noteq> 0" "\<not> 0x3b \<le> c" using c code e by auto
      then show ?thesis unfolding k using False k e by (auto simp: typed_def Let_def)
    qed
    ultimately show ?thesis using s'(1,2,4) eq False by auto
  qed
qed

lemma handler_ok:
  assumes "kbd_ok dirs T rl s"
  shows "\<exists>s' rl'. intr_keyboard_handler c s = Some (Returns (), s') \<and> kbd_ok dirs T rl' s' \<and>
    mods s' = mods_step (mods s) c \<and>
    kbd_list s' = kbd_list s @ (if length (kbd_list s) < 2047 then typed s c else [])"
proof (cases "c = 0xe0")
  case True
  then show ?thesis using assms handler_prefix [of s] by (auto simp: mods_def typed_def)
next
  case False
  let ?e = "ext_scancode s" and ?s = "s\<lparr>ext_scancode := False\<rparr>"
  let ?make = "if ?e then c = 0x38 \<or> c = 0x1d else 0 < c \<and> c < 0x3b"
  note h = handler_scan [OF False, of s, unfolded Let_def]
  have ok: "kbd_ok dirs T rl ?s" and m: "mods ?s = (False, shift_status s, ctrl_status s, caps_lock_status s)"
    using assms by (simp_all add: mods_def)
  consider (up) "0x80 \<le> c" | (make) "\<not> 0x80 \<le> c" "?make" | (other) "\<not> 0x80 \<le> c" "\<not> ?make" by blast
  then show ?thesis
  proof cases
    case up
    then have "typed s c = []" by (auto simp: typed_def word_le_nat_alt)
    then show ?thesis
      using h up mods_break [OF up m, of ?e] ok False by (auto simp: mods_def)
  next
    case make
    have s: "?s\<lparr>ext_scancode := ?e\<rparr> = s" by simp
    have "intr_keyboard_handler c s = kbd_make (ext_scan ?e c) ?s"
      by (rule h [unfolded if_not_P [OF make(1)] if_P [OF make(2)]])
    moreover have "mods s = (?e, shift_status ?s, ctrl_status ?s, caps_lock_status ?s)" by (simp add: mods_def)
    moreover have "ext_scancode ?s = False" by simp
    ultimately show ?thesis
      using kbd_make_ok [OF ok \<open>ext_scancode ?s = False\<close> make(2)] by (simp only: s kbd_flags)
  next
    case other
    then have "typed s c = []" "mods_step (mods s) c = (False, shift_status s, ctrl_status s, caps_lock_status s)"
      using False by (auto simp: typed_def mods_def is_shift_key_def is_ctrl_key_def is_caps_key_def word_gt_0 split: if_splits)
    moreover have "mods (put_str cs ?s) = mods ?s" for cs by (simp add: put_str_screen mods_def)
    ultimately show ?thesis
      using h [unfolded if_not_P [OF other(1)] if_not_P [OF other(2)]] ok m by auto
  qed
qed

lemma kbd_run_ok:
  assumes "kbd_ok dirs T rl s"
  shows "\<exists>s' rl'. kbd_run cs s = Some s' \<and> kbd_ok dirs T rl' s' \<and> mods s' = foldl mods_step (mods s) cs"
  using assms
proof (induction cs arbitrary: s rl)
  case (Cons c cs s rl)
  then obtain s1 rl1 where "intr_keyboard_handler c s = Some (Returns (), s1)" "kbd_ok dirs T rl1 s1"
    "mods s1 = mods_step (mods s) c"
    using handler_ok [OF Cons.prems, of c] by blast
  then show ?case using Cons.IH [of rl1 s1] by auto
qed auto

lemma mods_events:
  "foldl mods_step (e, sh, ct, ca) cs = (e', sh', ct', ca') \<Longrightarrow>
    sh' = shift_after sh (key_events e cs) \<and> ct' = ctrl_after ct (key_events e cs) \<and>
    ca' = (ca \<noteq> odd (caps_presses (key_events e cs)))"
proof (induction cs arbitrary: e sh ct ca)
  case (Cons c cs)
  obtain e1 sh1 ct1 ca1 where m: "mods_step (e, sh, ct, ca) c = (e1, sh1, ct1, ca1)" by (metis prod_cases4)
  from Cons.IH [of e1 sh1 ct1 ca1] Cons.prems m show ?case
    by (auto split: if_splits)
qed simp

subsection \<open>Properties\<close>

text \<open>C25: what a key press does. Whatever byte arrives from the keyboard, the interrupt handler
  returns without waiting and appends to the keyboard queue exactly the character that the key
  means under the current modifiers: nothing for releases, prefixes, modifiers and unknown keys;
  letters follow shift and caps lock, the other keys shift; control-l and control-u give the codes
  11 and 20; and when the queue is full the character is dropped.\<close>

theorem keyboard_types:
  assumes "ioq_inv dirs T (kbd_buf s) rl s"
  shows "\<exists>s' rl'. intr_keyboard_handler c s = Some (Returns (), s') \<and> ioq_inv dirs T (kbd_buf s') rl' s' \<and>
    ioq_list (kbd_buf s') s' = ioq_list (kbd_buf s) s @
      (if length (ioq_list (kbd_buf s) s) < 2047 then typed s c else [])"
  using handler_ok [of dirs T rl s c] assms unfolding kbd_ok_def kbd_list_def by blast

text \<open>The system of \<open>demo_dev\<close> with the keyboard queue at 0xc0009400, shift held down.\<close>

definition demo_kbd :: kbd_state where
  "demo_kbd = dev_state.extend demo_dev (kbd_state.fields 0xc0009400 False True False False False)"

lemma demo_kbd_inv: "ioq_inv (\<lambda>_. 0x100000) demo_tasks (kbd_buf demo_kbd) [0xc0101000, 0xc0102000] demo_kbd"
proof -
  have "sched_view demo_kbd = sched_view demo_dev"
    by (simp add: demo_kbd_def sched_view_def kbd_state.defs dev_state.defs)
  then have "sched_inv (\<lambda>_. 0x100000) demo_tasks [0xc0101000, 0xc0102000] demo_kbd"
    using demo_dev_inv sched_inv_view [of demo_kbd demo_dev] by simp
  moreover have "eflags demo_kbd = eflags demo_ioq" "ioqs demo_kbd = ioqs demo_ioq" "tcb demo_kbd = tcb demo_ioq"
    "kbd_buf demo_kbd = 0xc0009400"
    by (simp_all add: demo_kbd_def demo_dev_def kbd_state.defs dev_state.defs ioq_state.defs)
  ultimately show ?thesis
    using demo_ioq_inv by (simp add: ioq_inv_def waiter_ok_def intr_get_status_def)
qed

theorem keyboard_types_witness:
  "\<exists>s' rl'. intr_keyboard_handler 0x1e demo_kbd = Some (Returns (), s') \<and>
    ioq_inv (\<lambda>_. 0x100000) demo_tasks (kbd_buf s') rl' s' \<and> ioq_list (kbd_buf s') s' = [65]"
proof -
  have "ioq_list (kbd_buf demo_kbd) demo_kbd = []"
    by (simp add: demo_kbd_def demo_dev_def demo_ioq_def demo_q_def kbd_state.defs dev_state.defs ioq_state.defs
        sync_state.defs ioq_list_def q_list_Nil q_length_def)
  moreover have "typed demo_kbd 0x1e = [65]" by code_simp
  ultimately show ?thesis using keyboard_types [OF demo_kbd_inv, of "0x1e"] by simp
qed

text \<open>the modifiers follow the keys. After any sequence of scan codes every interrupt has
  returned; shift and control are down exactly when the last event of such a key was a press, and
  caps lock has been toggled once for every press of its key.\<close>

theorem keyboard_modifiers:
  assumes "ioq_inv dirs T (kbd_buf s) rl s"
  shows "\<exists>s'. kbd_run codes s = Some s' \<and>
    shift_status s' = shift_after (shift_status s) (key_events (ext_scancode s) codes) \<and>
    ctrl_status s' = ctrl_after (ctrl_status s) (key_events (ext_scancode s) codes) \<and>
    caps_lock_status s' = (caps_lock_status s \<noteq> odd (caps_presses (key_events (ext_scancode s) codes)))"
proof -
  obtain s' where s': "kbd_run codes s = Some s'" "mods s' = foldl mods_step (mods s) codes"
    using kbd_run_ok [of dirs T rl s codes] assms unfolding kbd_ok_def by blast
  then have "foldl mods_step (ext_scancode s, shift_status s, ctrl_status s, caps_lock_status s) codes =
      (ext_scancode s', shift_status s', ctrl_status s', caps_lock_status s')"
    by (simp add: mods_def)
  from mods_events [OF this] show ?thesis using s'(1) by blast
qed

theorem keyboard_modifiers_witness:
  "\<exists>s'. kbd_run [0x3a, 0xba, 0xe0, 0x1d, 0xaa] demo_kbd = Some s' \<and> \<not> shift_status s' \<and> ctrl_status s' \<and>
    caps_lock_status s'"
proof -
  have "\<not> shift_after (shift_status demo_kbd) (key_events (ext_scancode demo_kbd) [0x3a, 0xba, 0xe0, 0x1d, 0xaa])"
    "ctrl_after (ctrl_status demo_kbd) (key_events (ext_scancode demo_kbd) [0x3a, 0xba, 0xe0, 0x1d, 0xaa])"
    "caps_lock_status demo_kbd \<noteq> odd (caps_presses (key_events (ext_scancode demo_kbd) [0x3a, 0xba, 0xe0, 0x1d, 0xaa]))"
    by code_simp+
  then show ?thesis using keyboard_modifiers [OF demo_kbd_inv, of "[0x3a, 0xba, 0xe0, 0x1d, 0xaa]"] by metis
qed

end
