(* ===== verification/Bitmap.thy ===== *)
theory Bitmap
  imports Prelude
begin

text \<open>
  The bitmap (\<^verbatim>\<open>lib/kernel/bitmap.c\<close>).

  \<open>bits\<close> is the memory from the pointer \<open>bits\<close> on, as a list of bytes. It may be longer than
  \<open>btmp_bytes_len\<close>: in this kernel the bitmaps of the two physical pools and of the kernel
  address pool lie one behind the other, and \<open>bitmap_scan\<close> reads one byte past the end, so the
  model keeps what follows. Reading past the end of \<open>bits\<close> does not return. Bit numbers are
  natural numbers: the largest bitmap has 96 KiB, far from the 32-bit limits.

  \<open>first_fit\<close> is the reference search; \<open>bitmap_scan_first_fit\<close> shows that the scan with its two
  phases (whole bytes, then single bits, then runs) computes it. The locale \<open>bit_pool\<close> states
  what the page, pid, inode and block allocators rely on.
\<close>

unbundle bit_operations_syntax

record bitmap =
  btmp_bytes_len :: nat
  bits :: "u8 list"

definition BITMAP_MASK :: u8 where
  "BITMAP_MASK = 1"

definition bitmap_init :: "bitmap \<Rightarrow> bitmap option" where
  "bitmap_init btmp =
     (if btmp_bytes_len btmp \<le> length (bits btmp)
      then Some (btmp\<lparr>bits := replicate (btmp_bytes_len btmp) 0 @ drop (btmp_bytes_len btmp) (bits btmp)\<rparr>)
      else None)"

definition bitmap_scan_test :: "bitmap \<Rightarrow> nat \<Rightarrow> bool option" where
  "bitmap_scan_test btmp bit_idx = do {
     b \<leftarrow> get_at (bits btmp) (bit_idx div 8);
     Some (b AND push_bit (bit_idx mod 8) BITMAP_MASK \<noteq> 0)
   }"

text \<open>First loop of \<open>bitmap_scan\<close>: skip the bytes that are 0xff.\<close>

function scan_byte :: "bitmap \<Rightarrow> nat \<Rightarrow> nat option" where
  "scan_byte btmp idx_byte = do {
     b \<leftarrow> get_at (bits btmp) idx_byte;
     if 0xff = b \<and> idx_byte < btmp_bytes_len btmp then scan_byte btmp (idx_byte + 1)
     else Some idx_byte
   }"
  by pat_completeness auto
termination
  by (relation "measure (\<lambda>(btmp, i). length (bits btmp) - i)") (auto simp: get_at_eq_Some)

text \<open>Second loop: the first clear bit of a byte.\<close>

function scan_bit :: "u8 \<Rightarrow> nat \<Rightarrow> nat" where
  "scan_bit b idx_bit =
     (if push_bit idx_bit BITMAP_MASK AND b \<noteq> 0 then scan_bit b (idx_bit + 1) else idx_bit)"
  by pat_completeness auto
termination
  by (relation "measure (\<lambda>(b, i). 8 - i)")
    (auto simp: BITMAP_MASK_def and.commute word_and_exp)

text \<open>Third loop: count consecutive clear bits until there are \<open>cnt\<close>.\<close>

primrec scan_run :: "bitmap \<Rightarrow> nat \<Rightarrow> nat \<Rightarrow> nat \<Rightarrow> nat \<Rightarrow> int option" where
  "scan_run btmp cnt 0 next_bit count = Some (-1)"
| "scan_run btmp cnt (Suc bit_left) next_bit count = do {
     t \<leftarrow> bitmap_scan_test btmp next_bit;
     let count = (if \<not> t then count + 1 else 0) in
     if count = cnt then Some (int next_bit - int cnt + 1)
     else scan_run btmp cnt bit_left (next_bit + 1) count
   }"

definition bitmap_scan :: "bitmap \<Rightarrow> nat \<Rightarrow> int option" where
  "bitmap_scan btmp cnt = do {
     idx_byte \<leftarrow> scan_byte btmp 0;
     _ \<leftarrow> ASSERT (idx_byte < btmp_bytes_len btmp);
     if idx_byte = btmp_bytes_len btmp then Some (-1)
     else do {
       b \<leftarrow> get_at (bits btmp) idx_byte;
       let idx_bit = scan_bit b 0;
           bit_idx_start = idx_byte * 8 + idx_bit in
       if cnt = 1 then Some (int bit_idx_start)
       else scan_run btmp cnt (btmp_bytes_len btmp * 8 - bit_idx_start) (bit_idx_start + 1) 1
     }
   }"

definition bitmap_set :: "bitmap \<Rightarrow> nat \<Rightarrow> int \<Rightarrow> bitmap option" where
  "bitmap_set btmp bit_idx value = do {
     _ \<leftarrow> ASSERT (value = 0 \<or> value = 1);
     b \<leftarrow> get_at (bits btmp) (bit_idx div 8);
     let m = push_bit (bit_idx mod 8) BITMAP_MASK in
     Some (btmp\<lparr>bits := (bits btmp)[bit_idx div 8 := if value = 1 then b OR m else b AND NOT m]\<rparr>)
   }"

subsection \<open>Abstraction\<close>

text \<open>Bit \<open>i\<close>, the number of bits, well-formedness, and a run of \<open>cnt\<close> clear bits at \<open>s\<close>.\<close>

definition bm_bit :: "bitmap \<Rightarrow> nat \<Rightarrow> bool" where
  "bm_bit btmp i = bit (bits btmp ! (i div 8)) (i mod 8)"

definition bm_size :: "bitmap \<Rightarrow> nat" where
  "bm_size btmp = 8 * btmp_bytes_len btmp"

definition bm_wf :: "bitmap \<Rightarrow> bool" where
  "bm_wf btmp \<longleftrightarrow> btmp_bytes_len btmp \<le> length (bits btmp)"

definition run_at :: "bitmap \<Rightarrow> nat \<Rightarrow> nat \<Rightarrow> bool" where
  "run_at btmp cnt s \<longleftrightarrow> (\<forall>j \<in> set [s..<s + cnt]. \<not> bm_bit btmp j)"

text \<open>The least start of a run of \<open>cnt\<close> clear bits among the first \<open>limit\<close> bits, or -1.\<close>

definition first_fit :: "bitmap \<Rightarrow> nat \<Rightarrow> nat \<Rightarrow> int" where
  "first_fit btmp cnt limit =
     (case find (run_at btmp cnt) [0..<limit + 1 - cnt] of Some s \<Rightarrow> int s | None \<Rightarrow> -1)"

subsection \<open>Lemmas\<close>

declare scan_byte.simps [simp del] scan_bit.simps [simp del]

lemma bitmap_scan_test_bit:
  "i < 8 * length (bits btmp) \<Longrightarrow> bitmap_scan_test btmp i = Some (bm_bit btmp i)"
  by (simp add: bitmap_scan_test_def bm_bit_def BITMAP_MASK_def word_and_exp)

lemma bitmap_set_Some:
  assumes "i < 8 * length (bits btmp)" "v = 0 \<or> v = 1"
  shows "\<exists>b'. bitmap_set btmp i v = Some b' \<and> btmp_bytes_len b' = btmp_bytes_len btmp \<and>
    length (bits b') = length (bits btmp) \<and> (\<forall>j. bm_bit b' j = (if j = i then v = 1 else bm_bit btmp j))"
proof -
  have i: "i div 8 < length (bits btmp)" using assms(1) by simp
  have "j = i" if "j div 8 = i div 8" "j mod 8 = i mod 8" for j
    using that by (metis mult_div_mod_eq)
  then show ?thesis
    using i assms(2)
    by (auto simp: bitmap_set_def bm_bit_def BITMAP_MASK_def Let_def nth_list_update bit_simps)
qed

lemma scan_bit_clear: "b \<noteq> 0xff \<Longrightarrow> scan_bit b 0 < 8 \<and> \<not> bit b (scan_bit b 0) \<and> (\<forall>k < scan_bit b 0. bit b k)"
proof -
  have step: "\<forall>k < n. bit b k \<Longrightarrow> n \<le> 8 \<Longrightarrow> b \<noteq> 0xff \<Longrightarrow>
      scan_bit b n < 8 \<and> \<not> bit b (scan_bit b n) \<and> (\<forall>k < scan_bit b n. bit b k)" for n
  proof (induction b n rule: scan_bit.induct)
    case (1 b n)
    have n8: "n < 8"
    proof (rule ccontr)
      assume "\<not> n < 8"
      then have "\<forall>k < 8. bit b k" using "1.prems" by simp
      then have "b = - 1" by (intro bit_word_eqI) simp
      then show False using "1.prems" by simp
    qed
    show ?case
    proof (cases "bit b n")
      case True
      then have c: "push_bit n BITMAP_MASK AND b \<noteq> 0"
        using n8 by (simp add: BITMAP_MASK_def and.commute word_and_exp)
      have "\<forall>k < n + 1. bit b k" using "1.prems" True by (auto simp: less_Suc_eq)
      then have "scan_bit b (n + 1) < 8 \<and> \<not> bit b (scan_bit b (n + 1)) \<and>
          (\<forall>k < scan_bit b (n + 1). bit b k)"
        using "1.IH" [OF c] "1.prems" n8 by simp
      then show ?thesis using c by (simp add: scan_bit.simps [of b n])
    next
      case False
      then have "push_bit n BITMAP_MASK AND b = 0"
        by (simp add: BITMAP_MASK_def and.commute word_and_exp)
      then show ?thesis using False n8 "1.prems" by (simp add: scan_bit.simps [of b n])
    qed
  qed
  then show "b \<noteq> 0xff \<Longrightarrow> ?thesis" using step [of 0] by simp
qed

lemma scan_byte_spec:
  assumes "bm_wf btmp" "i \<le> btmp_bytes_len btmp" "\<exists>k < btmp_bytes_len btmp. i \<le> k \<and> bits btmp ! k \<noteq> 0xff"
  shows "\<exists>k. scan_byte btmp i = Some k \<and> i \<le> k \<and> k < btmp_bytes_len btmp \<and> bits btmp ! k \<noteq> 0xff \<and>
    (\<forall>j. i \<le> j \<and> j < k \<longrightarrow> bits btmp ! j = 0xff)"
  using assms
proof (induction btmp i rule: scan_byte.induct)
  case (1 btmp i)
  then have il: "i < btmp_bytes_len btmp" "i < length (bits btmp)"
    by (auto simp: bm_wf_def)
  show ?case
  proof (cases "bits btmp ! i = 0xff")
    case True
    then obtain k where "scan_byte btmp (i + 1) = Some k" "i + 1 \<le> k" "k < btmp_bytes_len btmp"
      "bits btmp ! k \<noteq> 0xff" "\<forall>j. i + 1 \<le> j \<and> j < k \<longrightarrow> bits btmp ! j = 0xff"
      using "1.IH" [of "bits btmp ! i"] "1.prems" il
      by (metis Suc_eq_plus1 Suc_leI get_at_in le_neq_implies_less)
    then show ?thesis
      using True il by (auto simp: scan_byte.simps [of btmp i]) (metis Suc_leI le_neq_implies_less)
  next
    case False
    then show ?thesis using il by (auto simp: scan_byte.simps [of btmp i])
  qed
qed

lemma scan_byte_full:
  assumes "\<forall>k < btmp_bytes_len btmp. bits btmp ! k = 0xff" "scan_byte btmp i = Some k"
    "i \<le> btmp_bytes_len btmp"
  shows "k = btmp_bytes_len btmp"
  using assms
proof (induction btmp i arbitrary: k rule: scan_byte.induct)
  case (1 btmp i)
  from "1.prems"(2) have il: "i < length (bits btmp)"
    and run: "(if 0xff = bits btmp ! i \<and> i < btmp_bytes_len btmp then scan_byte btmp (i + 1)
      else Some i) = Some k"
    unfolding scan_byte.simps [of btmp i] by (auto simp: Option.bind_eq_Some_conv get_at_eq_Some)
  show ?case
  proof (cases "i < btmp_bytes_len btmp")
    case True
    then have "bits btmp ! i = 0xff" using "1.prems"(1) by simp
    then have "scan_byte btmp (i + 1) = Some k" using run True by simp
    then show ?thesis
      using "1.IH" [OF get_at_in [OF il] _ "1.prems"(1)] \<open>bits btmp ! i = 0xff\<close> True by simp
  next
    case False
    then show ?thesis using run "1.prems"(3) by simp
  qed
qed

text \<open>The loop invariant of the third loop: any run still to be found starts at \<open>next_bit - count\<close> or later.\<close>

lemma find_upt:
  "find P [0..<n] = (if \<exists>s < n. P s then Some (LEAST s. P s) else None)"
proof (cases "\<exists>s < n. P s")
  case True
  then obtain s where s: "s < n" "P s" by blast
  then have l: "P (LEAST s. P s)" "(LEAST s. P s) < n"
    using LeastI [of P s] Least_le [of P s] by (auto intro: le_less_trans)
  define m where "m = (LEAST s. P s)"
  have "\<forall>j < m. \<not> P j"
    unfolding m_def by (blast dest: not_less_Least)
  then have "find P [0..<n] = Some m"
    unfolding find_Some_iff using l by (intro exI [of _ m]) (simp flip: m_def)
  then have "find P [0..<n] = Some (LEAST s. P s)"
    by (simp only: m_def)
  then show ?thesis using True by simp
next
  case False
  then show ?thesis by (auto simp: find_None_iff)
qed

lemma first_fit_eqI:
  assumes "run_at btmp cnt s" "s + cnt \<le> limit" "\<And>k. k < s \<Longrightarrow> \<not> run_at btmp cnt k"
  shows "first_fit btmp cnt limit = int s"
proof -
  have "(LEAST s. run_at btmp cnt s) = s"
    using assms(1,3) by (intro Least_equality) (auto intro: leI)
  moreover have "\<exists>s < limit + 1 - cnt. run_at btmp cnt s"
    using assms(1,2) by (intro exI [of _ s]) simp
  ultimately show ?thesis by (simp only: first_fit_def find_upt if_True option.case)
qed

lemma first_fit_noneI:
  assumes "\<And>s. run_at btmp cnt s \<Longrightarrow> limit < s + cnt"
  shows "first_fit btmp cnt limit = -1"
proof -
  have "\<not> (\<exists>s < limit + 1 - cnt. run_at btmp cnt s)"
    using assms by fastforce
  then show ?thesis by (simp add: first_fit_def find_upt)
qed

lemma scan_run_first_fit:
  assumes "next_bit + left \<le> 8 * length (bits btmp)" "count < cnt" "count \<le> next_bit"
    and "\<forall>j. next_bit - count \<le> j \<and> j < next_bit \<longrightarrow> \<not> bm_bit btmp j"
    and "\<forall>s. run_at btmp cnt s \<longrightarrow> next_bit - count \<le> s"
  shows "scan_run btmp cnt left next_bit count = Some (first_fit btmp cnt (next_bit + left))"
  using assms
proof (induction left arbitrary: next_bit count)
  case 0
  then have "next_bit < s + cnt" if "run_at btmp cnt s" for s
    using that by fastforce
  then show ?case by (simp add: first_fit_noneI)
next
  case (Suc left)
  have t: "bitmap_scan_test btmp next_bit = Some (bm_bit btmp next_bit)"
    using Suc.prems(1) by (simp add: bitmap_scan_test_bit)
  show ?case
  proof (cases "bm_bit btmp next_bit")
    case True
    have late: "next_bit + 1 \<le> s" if r: "run_at btmp cnt s" for s
    proof (rule ccontr)
      assume "\<not> next_bit + 1 \<le> s"
      moreover have "next_bit < s + cnt" using Suc.prems(2,3,5) r by fastforce
      ultimately have "next_bit \<in> set [s..<s + cnt]" by simp
      then show False using r True by (auto simp: run_at_def)
    qed
    then have "scan_run btmp cnt left (next_bit + 1) 0 = Some (first_fit btmp cnt (next_bit + 1 + left))"
      using Suc.prems by (intro Suc.IH) auto
    then show ?thesis using True t Suc.prems(2) by simp
  next
    case False
    have clear: "\<not> bm_bit btmp j" if "next_bit - count \<le> j" "j < next_bit + 1" for j
      using that Suc.prems(4) False by (cases "j = next_bit") auto
    show ?thesis
    proof (cases "count + 1 = cnt")
      case True
      have "run_at btmp cnt (next_bit - count)"
        using clear True Suc.prems(3) by (auto simp: run_at_def)
      then have "first_fit btmp cnt (next_bit + Suc left) = int (next_bit - count)"
        using True Suc.prems(3,5) by (intro first_fit_eqI) fastforce+
      then show ?thesis using True False t Suc.prems(3) by (auto simp: of_nat_diff)
    next
      case ne: False
      have "scan_run btmp cnt left (next_bit + 1) (count + 1) =
          Some (first_fit btmp cnt (next_bit + 1 + left))"
        using Suc.prems clear ne by (intro Suc.IH) auto
      then show ?thesis using False ne t by simp
    qed
  qed
qed

lemma byte_full_iff: "b = 0xff \<longleftrightarrow> (\<forall>k < 8. bit b k)" for b :: u8
proof
  assume "b = 0xff"
  then have "b = - 1" by simp
  then show "\<forall>k < 8. bit b k" by simp
next
  assume "\<forall>k < 8. bit b k"
  then have "b = - 1" by (intro bit_word_eqI) simp
  then show "b = 0xff" by simp
qed

lemma bm_bit_byte: "k < 8 \<Longrightarrow> bm_bit btmp (8 * i + k) = bit (bits btmp ! i) k"
  by (simp add: bm_bit_def)

lemma clear_bit_iff_byte:
  "(\<exists>i < bm_size btmp. \<not> bm_bit btmp i) \<longleftrightarrow> (\<exists>k < btmp_bytes_len btmp. bits btmp ! k \<noteq> 0xff)"
proof
  assume "\<exists>i < bm_size btmp. \<not> bm_bit btmp i"
  then obtain i where i: "i < bm_size btmp" "\<not> bit (bits btmp ! (i div 8)) (i mod 8)"
    by (auto simp: bm_bit_def)
  then have "bits btmp ! (i div 8) \<noteq> 0xff" "i div 8 < btmp_bytes_len btmp"
    unfolding byte_full_iff by (auto simp: bm_size_def intro!: exI [of _ "i mod 8"])
  then show "\<exists>k < btmp_bytes_len btmp. bits btmp ! k \<noteq> 0xff" by blast
next
  assume "\<exists>k < btmp_bytes_len btmp. bits btmp ! k \<noteq> 0xff"
  then obtain k j where "k < btmp_bytes_len btmp" "j < 8" "\<not> bit (bits btmp ! k) j"
    unfolding byte_full_iff by auto
  then show "\<exists>i < bm_size btmp. \<not> bm_bit btmp i"
    by (intro exI [of _ "8 * k + j"]) (simp add: bm_bit_byte bm_size_def)
qed

text \<open>The first two loops find the least clear bit.\<close>

lemma scan_start:
  assumes "bm_wf btmp" "\<exists>i < bm_size btmp. \<not> bm_bit btmp i"
  obtains k where "scan_byte btmp 0 = Some k" "k < btmp_bytes_len btmp"
    "scan_bit (bits btmp ! k) 0 < 8" "\<not> bm_bit btmp (k * 8 + scan_bit (bits btmp ! k) 0)"
    "\<And>j. j < k * 8 + scan_bit (bits btmp ! k) 0 \<Longrightarrow> bm_bit btmp j"
proof -
  obtain k where k: "scan_byte btmp 0 = Some k" "k < btmp_bytes_len btmp" "bits btmp ! k \<noteq> 0xff"
    "\<forall>j < k. bits btmp ! j = 0xff"
    using scan_byte_spec [of btmp 0] assms unfolding clear_bit_iff_byte by auto
  define i where "i = scan_bit (bits btmp ! k) 0"
  have i: "i < 8" "\<not> bit (bits btmp ! k) i" "\<forall>j < i. bit (bits btmp ! k) j"
    using scan_bit_clear [OF k(3)] by (simp_all add: i_def)
  have "bm_bit btmp j" if "j < k * 8 + i" for j
  proof (cases "j div 8 = k")
    case True
    then have "j mod 8 < i" using that by presburger
    then show ?thesis using i(3) True by (simp add: bm_bit_def)
  next
    case False
    then have "j div 8 < k" using that i(1) by (simp add: div_less_iff_less_mult)
    then show ?thesis using k(4) byte_full_iff by (simp add: bm_bit_def)
  qed
  moreover have "\<not> bm_bit btmp (k * 8 + i)"
    using bm_bit_byte [OF i(1), of btmp k] i(2) by (simp add: mult.commute)
  ultimately show ?thesis using that [of k] k(1,2) i(1) by (simp add: i_def)
qed

lemma bitmap_scan_fit:
  assumes wf: "bm_wf btmp" and free: "\<exists>i < bm_size btmp. \<not> bm_bit btmp i" and cnt: "1 \<le> cnt"
    and guard: "cnt = 1 \<or> btmp_bytes_len btmp < length (bits btmp)"
  shows "bitmap_scan btmp cnt =
    Some (first_fit btmp cnt (if cnt = 1 then bm_size btmp else bm_size btmp + 1))"
proof -
  obtain k where k: "scan_byte btmp 0 = Some k" "k < btmp_bytes_len btmp"
    "scan_bit (bits btmp ! k) 0 < 8" "\<not> bm_bit btmp (k * 8 + scan_bit (bits btmp ! k) 0)"
    and before: "\<And>j. j < k * 8 + scan_bit (bits btmp ! k) 0 \<Longrightarrow> bm_bit btmp j"
    by (rule scan_start [OF wf free]) blast
  define s where "s = k * 8 + scan_bit (bits btmp ! k) 0"
  have s: "s < bm_size btmp" "\<not> bm_bit btmp s" "\<And>j. j < s \<Longrightarrow> bm_bit btmp j"
    using k before by (simp_all add: s_def bm_size_def)
  have late: "s \<le> r" if "run_at btmp cnt r" for r
    using that s(3) [of r] cnt by (cases "r < s") (auto simp: run_at_def)
  have run: "bitmap_scan btmp cnt = (if cnt = 1 then Some (int s)
      else scan_run btmp cnt (btmp_bytes_len btmp * 8 - s) (s + 1) 1)"
    using k(1,2) wf by (simp add: bitmap_scan_def bm_wf_def s_def Let_def)
  show ?thesis
  proof (cases "cnt = 1")
    case True
    then have "first_fit btmp cnt (bm_size btmp) = int s"
      using s late by (intro first_fit_eqI) (auto simp: run_at_def)
    then show ?thesis using run True by simp
  next
    case False
    have lim: "s + 1 + (btmp_bytes_len btmp * 8 - s) = bm_size btmp + 1"
      using s(1) by (simp add: bm_size_def)
    have "scan_run btmp cnt (btmp_bytes_len btmp * 8 - s) (s + 1) 1 =
        Some (first_fit btmp cnt (s + 1 + (btmp_bytes_len btmp * 8 - s)))"
    proof (rule scan_run_first_fit)
      show "s + 1 + (btmp_bytes_len btmp * 8 - s) \<le> 8 * length (bits btmp)"
        using guard False lim by (simp add: bm_size_def)
      show "\<forall>j. s + 1 - 1 \<le> j \<and> j < s + 1 \<longrightarrow> \<not> bm_bit btmp j"
        using s(2) by (auto simp: less_Suc_eq)
    qed (use s late cnt False in auto)
    then show ?thesis using run False lim by simp
  qed
qed

lemma bitmap_scan_full:
  assumes "\<forall>i < bm_size btmp. bm_bit btmp i"
  shows "bitmap_scan btmp cnt = None"
proof (cases "scan_byte btmp 0")
  case None
  then show ?thesis by (simp add: bitmap_scan_def)
next
  case (Some k)
  have "\<forall>k < btmp_bytes_len btmp. bits btmp ! k = 0xff"
    using clear_bit_iff_byte [of btmp] assms by blast
  then have "k = btmp_bytes_len btmp"
    using scan_byte_full Some by blast
  then show ?thesis using Some by (simp add: bitmap_scan_def)
qed

subsection \<open>The allocator interface\<close>

text \<open>
  Pages, pids, inodes and blocks are all taken the same way: scan for one clear bit, then set it.
  \<open>bit_alloc\<close> is that shape for any scan and set operations, \<open>bitmap_set_run\<close> the loop that marks
  consecutive bits.
\<close>

definition bit_alloc ::
    "('b \<Rightarrow> nat \<Rightarrow> int option) \<Rightarrow> ('b \<Rightarrow> nat \<Rightarrow> int \<Rightarrow> 'b option) \<Rightarrow> 'b \<Rightarrow> (int \<times> 'b) option" where
  "bit_alloc scan put b = do {
     i \<leftarrow> scan b 1;
     if i = -1 then Some (-1, b)
     else do { b \<leftarrow> put b (nat i) 1; Some (i, b) }
   }"

primrec bitmap_set_run :: "bitmap \<Rightarrow> nat \<Rightarrow> nat \<Rightarrow> int \<Rightarrow> bitmap option" where
  "bitmap_set_run btmp s 0 v = Some btmp"
| "bitmap_set_run btmp s (Suc n) v = do { btmp \<leftarrow> bitmap_set btmp s v; bitmap_set_run btmp (s + 1) n v }"

locale bit_pool =
  fixes ok :: "'b \<Rightarrow> bool"
    and size :: "'b \<Rightarrow> nat"
    and test :: "'b \<Rightarrow> nat \<Rightarrow> bool"
    and scan :: "'b \<Rightarrow> nat \<Rightarrow> int option"
    and put :: "'b \<Rightarrow> nat \<Rightarrow> int \<Rightarrow> 'b option"
  assumes scan_free: "ok b \<Longrightarrow> \<exists>i < size b. \<not> test b i \<Longrightarrow>
      \<exists>s < size b. scan b 1 = Some (int s) \<and> \<not> test b s \<and> (\<forall>j < s. test b j)"
    and scan_full: "\<forall>i < size b. test b i \<Longrightarrow> scan b 1 = None"
    and put: "ok b \<Longrightarrow> i < size b \<Longrightarrow> v = 0 \<or> v = 1 \<Longrightarrow>
      \<exists>b'. put b i v = Some b' \<and> ok b' \<and> size b' = size b \<and>
        (\<forall>j. test b' j = (if j = i then v = 1 else test b j))"
begin

lemma alloc_free:
  assumes "ok b" "\<exists>i < size b. \<not> test b i"
  shows "\<exists>s b'. bit_alloc scan put b = Some (int s, b') \<and> s < size b \<and> \<not> test b s \<and>
    (\<forall>j < s. test b j) \<and> ok b' \<and> size b' = size b \<and> test b' = (test b)(s := True)"
proof -
  obtain s where s: "s < size b" "scan b 1 = Some (int s)" "\<not> test b s" "\<forall>j < s. test b j"
    using scan_free [OF assms] by blast
  obtain b' where "put b s 1 = Some b'" "ok b'" "size b' = size b"
    "\<forall>j. test b' j = (if j = s then (1 :: int) = 1 else test b j)"
    using put [OF assms(1) s(1), of 1] by blast
  then show ?thesis using s by (auto simp: bit_alloc_def fun_eq_iff)
qed

lemma alloc_full: "\<forall>i < size b. test b i \<Longrightarrow> bit_alloc scan put b = None"
  using scan_full [of b] by (simp add: bit_alloc_def)

text \<open>Whatever is returned was free and is now taken, and nothing else changed.\<close>

lemma alloc_result:
  assumes "ok b" "bit_alloc scan put b = Some (i, b')"
  shows "0 \<le> i \<and> nat i < size b \<and> \<not> test b (nat i) \<and> ok b' \<and> size b' = size b \<and>
    test b' = (test b)(nat i := True)"
proof -
  have "\<exists>i < size b. \<not> test b i" using alloc_full assms(2) by fastforce
  then show ?thesis using alloc_free [OF assms(1)] assms(2) by auto
qed

text \<open>Two allocations never hand out the same number.\<close>

lemma alloc_distinct:
  assumes "ok b" "bit_alloc scan put b = Some (i, b1)" "bit_alloc scan put b1 = Some (j, b2)"
  shows "i \<noteq> j"
  using alloc_result [OF assms(1,2)] alloc_result [of b1 j b2] assms(3) by auto

text \<open>Giving the number back restores the pool.\<close>

lemma alloc_put_back:
  assumes "ok b" "bit_alloc scan put b = Some (i, b1)"
  shows "\<exists>b2. put b1 (nat i) 0 = Some b2 \<and> ok b2 \<and> size b2 = size b \<and> test b2 = test b"
  using alloc_result [OF assms] put [of b1 "nat i" 0] by (auto simp: fun_eq_iff)

end

interpretation bm: bit_pool bm_wf bm_size bm_bit bitmap_scan bitmap_set
proof (unfold_locales, goal_cases)
  case (1 b)
  then obtain k where k: "scan_byte b 0 = Some k" "k < btmp_bytes_len b"
    "scan_bit (bits b ! k) 0 < 8" "\<not> bm_bit b (k * 8 + scan_bit (bits b ! k) 0)"
    "\<And>j. j < k * 8 + scan_bit (bits b ! k) 0 \<Longrightarrow> bm_bit b j"
    by (rule scan_start) blast
  then show ?case
    using 1(1) by (intro exI [of _ "k * 8 + scan_bit (bits b ! k) 0"])
      (auto simp: bitmap_scan_def bm_wf_def bm_size_def)
next
  case (2 b)
  then show ?case by (rule bitmap_scan_full)
next
  case (3 b i v)
  then show ?case
    using bitmap_set_Some [of i b v] by (fastforce simp: bm_wf_def bm_size_def)
qed

lemma bitmap_set_run_Some:
  assumes "bm_wf btmp" "s + n \<le> bm_size btmp" "v = 0 \<or> v = 1"
  shows "\<exists>b'. bitmap_set_run btmp s n v = Some b' \<and> bm_wf b' \<and> bm_size b' = bm_size btmp \<and>
    (\<forall>j. bm_bit b' j = (if s \<le> j \<and> j < s + n then v = 1 else bm_bit btmp j))"
  using assms
proof (induction n arbitrary: btmp s)
  case 0
  then show ?case by auto
next
  case (Suc n)
  obtain b1 where b1: "bitmap_set btmp s v = Some b1" "bm_wf b1" "bm_size b1 = bm_size btmp"
    "\<forall>j. bm_bit b1 j = (if j = s then v = 1 else bm_bit btmp j)"
    using bm.put [of btmp s v] Suc.prems by auto
  obtain b' where "bitmap_set_run b1 (s + 1) n v = Some b'" "bm_wf b'" "bm_size b' = bm_size b1"
    "\<forall>j. bm_bit b' j = (if s + 1 \<le> j \<and> j < s + 1 + n then v = 1 else bm_bit b1 j)"
    using Suc.IH [of b1 "s + 1"] b1 Suc.prems by auto
  then show ?case using b1 by auto
qed

lemma bitmap_init_Some:
  assumes "bm_wf btmp"
  shows "\<exists>b'. bitmap_init btmp = Some b' \<and> bm_wf b' \<and> bm_size b' = bm_size btmp \<and>
    (\<forall>i < bm_size b'. \<not> bm_bit b' i)"
  using assms by (auto simp: bitmap_init_def bm_wf_def bm_size_def bm_bit_def nth_append)

subsection \<open>Properties\<close>

text \<open>C7: \<open>bitmap_scan\<close> is first fit. On a bitmap with a clear bit, its byte, bit and run loops
  return, and the result is the least start of \<open>cnt\<close> clear bits, or -1 when there is none. For
  runs of more than one bit the loop also tests the bit just past the end of the bitmap, so the
  searched range is one bit larger than the bitmap.\<close>

theorem bitmap_scan_first_fit:
  assumes "bm_wf btmp" "\<exists>i < bm_size btmp. \<not> bm_bit btmp i" "1 \<le> cnt"
    and "cnt = 1 \<or> btmp_bytes_len btmp < length (bits btmp)"
  shows "bitmap_scan btmp cnt =
    Some (first_fit btmp cnt (if cnt = 1 then bm_size btmp else bm_size btmp + 1))"
  by (rule bitmap_scan_fit [OF assms])

theorem bitmap_scan_first_fit_witness:
  "bitmap_scan \<lparr>btmp_bytes_len = 2, bits = [0xff, 0x3f, 0xfe]\<rparr> 3 =
   Some (first_fit \<lparr>btmp_bytes_len = 2, bits = [0xff, 0x3f, 0xfe]\<rparr> 3
     (if 3 = (1 :: nat) then bm_size \<lparr>btmp_bytes_len = 2, bits = [0xff, 0x3f, 0xfe]\<rparr>
      else bm_size \<lparr>btmp_bytes_len = 2, bits = [0xff, 0x3f, 0xfe]\<rparr> + 1))"
  by (rule bitmap_scan_first_fit)
    (auto simp: bm_wf_def bm_size_def bm_bit_def intro!: exI [of _ 14])

text \<open>taking one bit and giving it back. An allocation that returns hands out a number that
  was free and in range and marks just this number; a second allocation returns another number;
  clearing the bit restores the bitmap.\<close>

theorem bitmap_alloc:
  assumes "bm_wf b" "bit_alloc bitmap_scan bitmap_set b = Some (i, b1)"
    "bit_alloc bitmap_scan bitmap_set b1 = Some (j, b2)"
  shows "0 \<le> i \<and> nat i < bm_size b \<and> \<not> bm_bit b (nat i) \<and> bm_bit b1 = (bm_bit b)(nat i := True) \<and>
    i \<noteq> j \<and> (\<exists>b3. bitmap_set b1 (nat i) 0 = Some b3 \<and> bm_bit b3 = bm_bit b)"
  using bm.alloc_result [OF assms(1,2)] bm.alloc_distinct [OF assms] bm.alloc_put_back [OF assms(1,2)]
  by auto

theorem bitmap_alloc_witness:
  "0 \<le> (8 :: int) \<and> nat 8 < bm_size \<lparr>btmp_bytes_len = 2, bits = [0xff, 0x06]\<rparr> \<and>
   \<not> bm_bit \<lparr>btmp_bytes_len = 2, bits = [0xff, 0x06]\<rparr> (nat 8) \<and>
   bm_bit \<lparr>btmp_bytes_len = 2, bits = [0xff, 0x07]\<rparr> =
     (bm_bit \<lparr>btmp_bytes_len = 2, bits = [0xff, 0x06]\<rparr>)(nat 8 := True) \<and>
   (8 :: int) \<noteq> 11 \<and>
   (\<exists>b3. bitmap_set \<lparr>btmp_bytes_len = 2, bits = [0xff, 0x07]\<rparr> (nat 8) 0 = Some b3 \<and>
      bm_bit b3 = bm_bit \<lparr>btmp_bytes_len = 2, bits = [0xff, 0x06]\<rparr>)"
proof (rule bitmap_alloc)
  show "bm_wf \<lparr>btmp_bytes_len = 2, bits = [0xff, 0x06]\<rparr>" by (simp add: bm_wf_def)
  show "bit_alloc bitmap_scan bitmap_set \<lparr>btmp_bytes_len = 2, bits = [0xff, 0x06]\<rparr> =
      Some (8, \<lparr>btmp_bytes_len = 2, bits = [0xff, 0x07]\<rparr>)"
    by code_simp
  show "bit_alloc bitmap_scan bitmap_set \<lparr>btmp_bytes_len = 2, bits = [0xff, 0x07]\<rparr> =
      Some (11, \<lparr>btmp_bytes_len = 2, bits = [0xff, 0x0f]\<rparr>)"
    by code_simp
qed

text \<open>on a full bitmap \<open>bitmap_scan\<close> never returns: its \<open>ASSERT\<close> stops the kernel before the
  branch that would return -1, so no caller ever sees the out-of-memory result.\<close>

theorem bitmap_scan_exhausted:
  assumes "\<forall>i < bm_size btmp. bm_bit btmp i"
  shows "bitmap_scan btmp cnt = None"
  by (rule bitmap_scan_full [OF assms])

theorem bitmap_scan_exhausted_witness:
  "bitmap_scan \<lparr>btmp_bytes_len = 1, bits = [0xff, 0]\<rparr> 1 = None"
proof (rule bitmap_scan_exhausted)
  show "\<forall>i < bm_size \<lparr>btmp_bytes_len = 1, bits = [0xff, 0]\<rparr>.
      bm_bit \<lparr>btmp_bytes_len = 1, bits = [0xff, 0]\<rparr> i"
    using byte_full_iff [of "0xff"] by (simp add: bm_size_def bm_bit_def)
qed

end
