(* ===== verification/Memory.thy ===== *)
theory Memory
  imports Keyboard Bitmap
begin

text \<open>
  Memory management: \<^verbatim>\<open>kernel/memory.c\<close>.

  \<open>mem_state\<close> adds the two physical pools, the kernel's virtual address pool, the virtual address
  pool of every process (by the address of its task structure) and the typed view of the heap:
  the block descriptors and the arena headers by address. The free blocks are nodes of the pointer
  lists of \<open>Klist\<close>; the page tables and the contents of pages are words of \<open>pmem\<close>, reached
  through the memory management unit. The bytes of the bitmaps belong to the pool records.

  A pool argument is the \<open>pool_flags\<close> value that selects it. The locks of the pools are taken with
  \<open>lock_now\<close>: a caller that finds the lock taken sleeps and is not followed further here, which is
  the subject of \<open>Sync\<close>.
\<close>

unbundle bit_operations_syntax

definition MEM_BITMAP_BASE :: addr where "MEM_BITMAP_BASE = 0xc009a000"
definition K_HEAP_START :: addr where "K_HEAP_START = 0xc0100000"
definition DESC_CNT :: nat where "DESC_CNT = 7"

datatype pool_flags = PF_KERNEL | PF_USER

record pool =
  pool_bitmap :: bitmap
  phy_addr_start :: u32
  pool_size :: u32
  pool_lock :: addr

record virtual_addr =
  vaddr_bitmap :: bitmap
  vaddr_start :: u32

record mem_block_desc =
  block_size :: u32
  blocks_per_arena :: u32

record arena =
  desc :: addr
  cnt :: u32
  large :: bool

record mem_state = kbd_state +
  kernel_pool :: pool
  user_pool :: pool
  kernel_vaddr :: virtual_addr
  userprog_vaddr :: "addr \<Rightarrow> virtual_addr"
  k_block_descs :: addr
  block_descs :: "addr \<Rightarrow> mem_block_desc"
  arenas :: "addr \<Rightarrow> arena"

text \<open>Addresses inside the structures: \<open>free_list\<close> in a descriptor, descriptor \<open>i\<close> of an array, the
  descriptors of a process in its task structure; \<open>sizeof(struct arena)\<close> is 12.\<close>

definition free_list :: "addr \<Rightarrow> addr" where "free_list d = d + 8"
definition desc_at :: "addr \<Rightarrow> nat \<Rightarrow> addr" where "desc_at descs i = descs + of_nat (24 * i)"
definition u_block_desc :: "addr \<Rightarrow> addr" where "u_block_desc p = p + 100"
definition sizeof_arena :: u32 where "sizeof_arena = 12"

definition mem_pool :: "pool_flags \<Rightarrow> 'a mem_state_scheme \<Rightarrow> pool" where
  "mem_pool pf s = (case pf of PF_KERNEL \<Rightarrow> kernel_pool s | PF_USER \<Rightarrow> user_pool s)"

definition set_pool_bitmap :: "pool_flags \<Rightarrow> bitmap \<Rightarrow> 'a mem_state_scheme \<Rightarrow> 'a mem_state_scheme" where
  "set_pool_bitmap pf b s =
     (case pf of PF_KERNEL \<Rightarrow> s\<lparr>kernel_pool := (kernel_pool s)\<lparr>pool_bitmap := b\<rparr>\<rparr>
      | PF_USER \<Rightarrow> s\<lparr>user_pool := (user_pool s)\<lparr>pool_bitmap := b\<rparr>\<rparr>)"

definition vaddr_pool :: "pool_flags \<Rightarrow> 'a mem_state_scheme \<Rightarrow> virtual_addr" where
  "vaddr_pool pf s =
     (case pf of PF_KERNEL \<Rightarrow> kernel_vaddr s | PF_USER \<Rightarrow> userprog_vaddr s (running_thread s))"

definition set_vaddr_bitmap :: "pool_flags \<Rightarrow> bitmap \<Rightarrow> 'a mem_state_scheme \<Rightarrow> 'a mem_state_scheme" where
  "set_vaddr_bitmap pf b s =
     (case pf of PF_KERNEL \<Rightarrow> s\<lparr>kernel_vaddr := (kernel_vaddr s)\<lparr>vaddr_bitmap := b\<rparr>\<rparr>
      | PF_USER \<Rightarrow> s\<lparr>userprog_vaddr := (userprog_vaddr s)(running_thread s :=
          (userprog_vaddr s (running_thread s))\<lparr>vaddr_bitmap := b\<rparr>)\<rparr>)"

definition lock_now :: "addr \<Rightarrow> 'a sync_state_scheme \<Rightarrow> 'a sync_state_scheme option" where
  "lock_now L s = do {
     (w, s) \<leftarrow> lock_acquire L s;
     case w of Got \<Rightarrow> Some s | Slept _ \<Rightarrow> None
   }"

subsection \<open>Pages\<close>

definition vaddr_get :: "pool_flags \<Rightarrow> u32 \<Rightarrow> 'a mem_state_scheme \<Rightarrow> (addr \<times> 'a mem_state_scheme) option" where
  "vaddr_get pf pg_cnt s = do {
     let va = vaddr_pool pf s;
     bit_idx_start \<leftarrow> bitmap_scan (vaddr_bitmap va) (unat pg_cnt);
     if bit_idx_start = -1 then Some (NULL, s)
     else do {
       b \<leftarrow> bitmap_set_run (vaddr_bitmap va) (nat bit_idx_start) (unat pg_cnt) 1;
       let start = vaddr_start va + of_int bit_idx_start * PG_SIZE;
       _ \<leftarrow> ASSERT (pf = PF_USER \<longrightarrow> start < 0xc0000000 - PG_SIZE);
       Some (start, set_vaddr_bitmap pf b s)
     }
   }"

definition vaddr_remove :: "pool_flags \<Rightarrow> addr \<Rightarrow> u32 \<Rightarrow> 'a mem_state_scheme \<Rightarrow> 'a mem_state_scheme option" where
  "vaddr_remove pf vaddr pg_cnt s = do {
     let va = vaddr_pool pf s;
     let bit_idx_start = unat ((vaddr - vaddr_start va) div PG_SIZE);
     b \<leftarrow> bitmap_set_run (vaddr_bitmap va) bit_idx_start (unat pg_cnt) 0;
     Some (set_vaddr_bitmap pf b s)
   }"

definition palloc :: "pool_flags \<Rightarrow> 'a mem_state_scheme \<Rightarrow> (u32 \<times> 'a mem_state_scheme) option" where
  "palloc pf s = do {
     let m_pool = mem_pool pf s;
     bit_idx \<leftarrow> bitmap_scan (pool_bitmap m_pool) 1;
     if bit_idx = -1 then Some (NULL, s)
     else do {
       b \<leftarrow> bitmap_set (pool_bitmap m_pool) (nat bit_idx) 1;
       Some (of_int bit_idx * PG_SIZE + phy_addr_start m_pool, set_pool_bitmap pf b s)
     }
   }"

definition page_table_add :: "addr \<Rightarrow> u32 \<Rightarrow> 'a mem_state_scheme \<Rightarrow> 'a mem_state_scheme option" where
  "page_table_add vaddr page_phyaddr s = do {
     pde \<leftarrow> load32 (pde_ptr vaddr) s;
     if pde AND 0x00000001 \<noteq> 0 then do {
       pte \<leftarrow> load32 (pte_ptr vaddr) s;
       _ \<leftarrow> ASSERT (\<not> pte AND 0x00000001 \<noteq> 0);
       if \<not> pte AND 0x00000001 \<noteq> 0 then
         store32 (pte_ptr vaddr) (page_phyaddr OR PG_US_U OR PG_RW_W OR PG_P_1) s
       else None
     } else do {
       (pde_phyaddr, s) \<leftarrow> palloc PF_KERNEL s;
       s \<leftarrow> store32 (pde_ptr vaddr) (pde_phyaddr OR PG_US_U OR PG_RW_W OR PG_P_1) s;
       s \<leftarrow> memset_page (pte_ptr vaddr AND 0xfffff000) s;
       pte \<leftarrow> load32 (pte_ptr vaddr) s;
       _ \<leftarrow> ASSERT (\<not> pte AND 0x00000001 \<noteq> 0);
       store32 (pte_ptr vaddr) (page_phyaddr OR PG_US_U OR PG_RW_W OR PG_P_1) s
     }
   }"

text \<open>The loop of \<open>malloc_page\<close>: \<open>False\<close> when the pool has no frame left.\<close>

primrec map_pages :: "nat \<Rightarrow> pool_flags \<Rightarrow> addr \<Rightarrow> 'a mem_state_scheme \<Rightarrow> (bool \<times> 'a mem_state_scheme) option" where
  "map_pages 0 pf vaddr s = Some (True, s)"
| "map_pages (Suc n) pf vaddr s = do {
     (page_phyaddr, s) \<leftarrow> palloc pf s;
     if page_phyaddr = NULL then Some (False, s)
     else do {
       s \<leftarrow> page_table_add vaddr page_phyaddr s;
       map_pages n pf (vaddr + PG_SIZE) s
     }
   }"

definition malloc_page :: "pool_flags \<Rightarrow> u32 \<Rightarrow> 'a mem_state_scheme \<Rightarrow> (addr \<times> 'a mem_state_scheme) option" where
  "malloc_page pf pg_cnt s = do {
     _ \<leftarrow> ASSERT (pg_cnt > 0 \<and> pg_cnt < 3840);
     (start, s) \<leftarrow> vaddr_get pf pg_cnt s;
     if start = NULL then Some (NULL, s)
     else do {
       (ok, s) \<leftarrow> map_pages (unat pg_cnt) pf start s;
       Some (if ok then start else NULL, s)
     }
   }"

text \<open>\<open>memset(vaddr, 0, n * PG_SIZE)\<close>, and \<open>memset(vaddr, 0, 4 * n)\<close> on words.\<close>

primrec memset_pages :: "nat \<Rightarrow> addr \<Rightarrow> 'a pg_state_scheme \<Rightarrow> 'a pg_state_scheme option" where
  "memset_pages 0 vaddr s = Some s"
| "memset_pages (Suc n) vaddr s = do { s \<leftarrow> memset_page vaddr s; memset_pages n (vaddr + PG_SIZE) s }"

primrec memset_words :: "nat \<Rightarrow> addr \<Rightarrow> 'a pg_state_scheme \<Rightarrow> 'a pg_state_scheme option" where
  "memset_words 0 vaddr s = Some s"
| "memset_words (Suc n) vaddr s = do { s \<leftarrow> store32 vaddr 0 s; memset_words n (vaddr + 4) s }"

definition get_pages :: "pool_flags \<Rightarrow> u32 \<Rightarrow> 'a mem_state_scheme \<Rightarrow> (addr \<times> 'a mem_state_scheme) option" where
  "get_pages pf pg_cnt s = do {
     let L = pool_lock (mem_pool pf s);
     s \<leftarrow> lock_now L s;
     (vaddr, s) \<leftarrow> malloc_page pf pg_cnt s;
     s \<leftarrow> (if vaddr \<noteq> NULL then memset_pages (unat pg_cnt) vaddr s else Some s);
     s \<leftarrow> lock_release L s;
     Some (vaddr, s)
   }"

definition get_kernel_pages :: "u32 \<Rightarrow> 'a mem_state_scheme \<Rightarrow> (addr \<times> 'a mem_state_scheme) option" where
  "get_kernel_pages pg_cnt s = get_pages PF_KERNEL pg_cnt s"

definition get_user_pages :: "u32 \<Rightarrow> 'a mem_state_scheme \<Rightarrow> (addr \<times> 'a mem_state_scheme) option" where
  "get_user_pages pg_cnt s = get_pages PF_USER pg_cnt s"

text \<open>The end of \<open>get_a_page\<close> and the whole of \<open>get_a_page_without_opvaddrbitmap\<close> after the lock.\<close>

definition install_page :: "pool_flags \<Rightarrow> addr \<Rightarrow> 'a mem_state_scheme \<Rightarrow> (addr \<times> 'a mem_state_scheme) option" where
  "install_page pf vaddr s = do {
     let L = pool_lock (mem_pool pf s);
     (page_phyaddr, s) \<leftarrow> palloc pf s;
     if page_phyaddr = NULL then do { s \<leftarrow> lock_release L s; Some (NULL, s) }
     else do {
       s \<leftarrow> page_table_add vaddr page_phyaddr s;
       s \<leftarrow> lock_release L s;
       Some (vaddr, s)
     }
   }"

definition get_a_page :: "pool_flags \<Rightarrow> addr \<Rightarrow> 'a mem_state_scheme \<Rightarrow> (addr \<times> 'a mem_state_scheme) option" where
  "get_a_page pf vaddr s = do {
     s \<leftarrow> lock_now (pool_lock (mem_pool pf s)) s;
     t \<leftarrow> rd_task (running_thread s) s;
     let va = vaddr_pool pf s;
     let bit_idx = unat ((vaddr - vaddr_start va) div PG_SIZE);
     s \<leftarrow> (if pgdir t \<noteq> NULL \<and> pf = PF_USER then do {
         b \<leftarrow> bitmap_set (vaddr_bitmap va) bit_idx 1;
         Some (set_vaddr_bitmap pf b s)
       } else if pgdir t = NULL \<and> pf = PF_KERNEL then do {
         _ \<leftarrow> ASSERT (bit_idx > 0);
         b \<leftarrow> bitmap_set (vaddr_bitmap va) bit_idx 1;
         Some (set_vaddr_bitmap pf b s)
       } else None);
     install_page pf vaddr s
   }"

definition get_a_page_without_opvaddrbitmap ::
    "pool_flags \<Rightarrow> addr \<Rightarrow> 'a mem_state_scheme \<Rightarrow> (addr \<times> 'a mem_state_scheme) option" where
  "get_a_page_without_opvaddrbitmap pf vaddr s = do {
     s \<leftarrow> lock_now (pool_lock (mem_pool pf s)) s;
     install_page pf vaddr s
   }"

definition pfree :: "u32 \<Rightarrow> 'a mem_state_scheme \<Rightarrow> 'a mem_state_scheme option" where
  "pfree pg_phy_addr s = do {
     let pf = (if pg_phy_addr \<ge> phy_addr_start (user_pool s) then PF_USER else PF_KERNEL);
     let bit_idx = unat ((pg_phy_addr - phy_addr_start (mem_pool pf s)) div PG_SIZE);
     b \<leftarrow> bitmap_set (pool_bitmap (mem_pool pf s)) bit_idx 0;
     Some (set_pool_bitmap pf b s)
   }"

definition free_a_phy_page :: "u32 \<Rightarrow> 'a mem_state_scheme \<Rightarrow> 'a mem_state_scheme option" where
  "free_a_phy_page pg_phy_addr s = do {
     let pf = (if pg_phy_addr \<ge> phy_addr_start (user_pool s) then PF_USER else PF_KERNEL);
     let bit_idx = unat ((pg_phy_addr - phy_addr_start (mem_pool pf s)) div PG_SIZE);
     b \<leftarrow> bitmap_set (pool_bitmap (mem_pool pf s)) bit_idx 0;
     Some (set_pool_bitmap pf b s)
   }"

text \<open>The two loops of \<open>mfree_page\<close> differ in the pool the frame must belong to.\<close>

definition in_pool :: "pool_flags \<Rightarrow> u32 \<Rightarrow> 'a mem_state_scheme \<Rightarrow> bool" where
  "in_pool pf p s =
     (case pf of PF_USER \<Rightarrow> p \<ge> phy_addr_start (user_pool s)
      | PF_KERNEL \<Rightarrow> p \<ge> phy_addr_start (kernel_pool s) \<and> p < phy_addr_start (user_pool s))"

primrec unmap_pages :: "nat \<Rightarrow> pool_flags \<Rightarrow> addr \<Rightarrow> 'a mem_state_scheme \<Rightarrow> 'a mem_state_scheme option" where
  "unmap_pages 0 own vaddr s = Some s"
| "unmap_pages (Suc n) own vaddr s = do {
     pg_phy_addr \<leftarrow> addr_v2p vaddr s;
     _ \<leftarrow> ASSERT (pg_phy_addr mod PG_SIZE = 0 \<and> in_pool own pg_phy_addr s);
     s \<leftarrow> pfree pg_phy_addr s;
     s \<leftarrow> page_table_pte_remove vaddr s;
     unmap_pages n own (vaddr + PG_SIZE) s
   }"

definition mfree_page :: "pool_flags \<Rightarrow> addr \<Rightarrow> u32 \<Rightarrow> 'a mem_state_scheme \<Rightarrow> 'a mem_state_scheme option" where
  "mfree_page pf vaddr pg_cnt s = do {
     _ \<leftarrow> ASSERT (pg_cnt \<ge> 1 \<and> vaddr mod PG_SIZE = 0);
     pg_phy_addr \<leftarrow> addr_v2p vaddr s;
     _ \<leftarrow> ASSERT (pg_phy_addr mod PG_SIZE = 0 \<and> pg_phy_addr \<ge> 0x102000);
     let own = (if pg_phy_addr \<ge> phy_addr_start (user_pool s) then PF_USER else PF_KERNEL);
     s \<leftarrow> unmap_pages (unat pg_cnt) own vaddr s;
     vaddr_remove pf vaddr pg_cnt s
   }"

subsection \<open>Initialisation\<close>

text \<open>The bitmaps of the two pools and of the kernel's addresses lie one behind the other from \<open>MEM_BITMAP_BASE\<close> on: \<open>mem\<close> is the
  memory there. A line with a name and a number is printed by \<open>put_pair\<close>.\<close>

definition put_pair :: "u8 list \<Rightarrow> u32 \<Rightarrow> 'a cpu_scheme \<Rightarrow> 'a cpu_scheme" where
  "put_pair label num s = put_str (lit ''\<newline>'') (put_int num (put_str label s))"

definition mem_pool_init ::
    "u32 \<Rightarrow> u8 list \<Rightarrow> addr \<Rightarrow> addr \<Rightarrow> 'a mem_state_scheme \<Rightarrow> 'a mem_state_scheme option" where
  "mem_pool_init all_mem mem klock ulock s = do {
     let s = put_str (lit ''mem_pool_init start\<newline>'') s;
     let page_table_size = PG_SIZE * 256;
     let used_mem = page_table_size + 0x100000;
     let free_mem = all_mem - used_mem;
     let all_free_pages = (ucast (free_mem div PG_SIZE) :: u16);
     let kernel_free_pages = all_free_pages div 2;
     let user_free_pages = all_free_pages - kernel_free_pages;
     let kbm_length = (ucast (kernel_free_pages div 8) :: u32);
     let ubm_length = (ucast (user_free_pages div 8) :: u32);
     let kp_start = used_mem;
     let up_start = kp_start + ucast kernel_free_pages * PG_SIZE;
     let s = put_pair (lit ''kernel_pool_bitmap_start:'') MEM_BITMAP_BASE s;
     let s = put_pair (lit ''kernel_pool_phy_addr_start:'') kp_start s;
     let s = put_pair (lit ''user_pool_bitmap_start:'') (MEM_BITMAP_BASE + kbm_length) s;
     let s = put_pair (lit ''user_pool_phy_addr_start:'') up_start s;
     kb \<leftarrow> bitmap_init \<lparr>btmp_bytes_len = unat kbm_length, bits = mem\<rparr>;
     ub \<leftarrow> bitmap_init \<lparr>btmp_bytes_len = unat ubm_length, bits = drop (unat kbm_length) mem\<rparr>;
     s \<leftarrow> lock_init klock s;
     s \<leftarrow> lock_init ulock s;
     vb \<leftarrow> bitmap_init \<lparr>btmp_bytes_len = unat kbm_length, bits = drop (unat (kbm_length + ubm_length)) mem\<rparr>;
     Some (put_str (lit ''mem_pool_init done\<newline>'')
        (s\<lparr>kernel_pool := \<lparr>pool_bitmap = kb, phy_addr_start = kp_start,
             pool_size = ucast kernel_free_pages * PG_SIZE, pool_lock = klock\<rparr>,
           user_pool := \<lparr>pool_bitmap = ub, phy_addr_start = up_start,
             pool_size = ucast user_free_pages * PG_SIZE, pool_lock = ulock\<rparr>,
           kernel_vaddr := \<lparr>vaddr_bitmap = vb, vaddr_start = K_HEAP_START\<rparr>\<rparr>))
   }"

text \<open>The loop of \<open>block_desc_init\<close> from descriptor \<open>i\<close> on; the size doubles in a 16-bit variable.\<close>

primrec block_desc_loop :: "nat \<Rightarrow> addr \<Rightarrow> u16 \<Rightarrow> 'a mem_state_scheme \<Rightarrow> 'a mem_state_scheme option" where
  "block_desc_loop 0 d sz s = Some s"
| "block_desc_loop (Suc n) d sz s = do {
     let s = s\<lparr>block_descs := (block_descs s)(d :=
               \<lparr>block_size = ucast sz, blocks_per_arena = (PG_SIZE - sizeof_arena) div ucast sz\<rparr>)\<rparr>;
     s \<leftarrow> list_init (free_list d) s;
     block_desc_loop n (d + 24) (sz * 2) s
   }"

definition block_desc_init :: "addr \<Rightarrow> 'a mem_state_scheme \<Rightarrow> 'a mem_state_scheme option" where
  "block_desc_init desc_array s = block_desc_loop DESC_CNT desc_array 16 s"

definition mem_init :: "u8 list \<Rightarrow> addr \<Rightarrow> addr \<Rightarrow> 'a mem_state_scheme \<Rightarrow> 'a mem_state_scheme option" where
  "mem_init mem klock ulock s = do {
     let s = put_str (lit ''mem_init start\<newline>'') s;
     mem_bytes_total \<leftarrow> load32 0xb00 s;
     let s = put_pair (lit ''mem_bytes_total: 0x'') mem_bytes_total s;
     s \<leftarrow> mem_pool_init mem_bytes_total mem klock ulock s;
     s \<leftarrow> block_desc_init (k_block_descs s) s;
     Some (put_str (lit ''mem_init done\<newline>'') s)
   }"

subsection \<open>Blocks\<close>

definition arena2block :: "addr \<Rightarrow> u32 \<Rightarrow> 'a mem_state_scheme \<Rightarrow> addr" where
  "arena2block a idx s = a + sizeof_arena + idx * block_size (block_descs s (desc (arenas s a)))"

definition block2arena :: "addr \<Rightarrow> addr" where
  "block2arena b = b AND 0xfffff000"

definition upd_arena :: "addr \<Rightarrow> (arena \<Rightarrow> arena) \<Rightarrow> 'a mem_state_scheme \<Rightarrow> 'a mem_state_scheme" where
  "upd_arena a f s = s\<lparr>arenas := (arenas s)(a := f (arenas s a))\<rparr>"

text \<open>The search for the smallest descriptor that fits, and the splitting of a new arena.\<close>

primrec find_desc :: "nat \<Rightarrow> nat \<Rightarrow> addr \<Rightarrow> u32 \<Rightarrow> 'a mem_state_scheme \<Rightarrow> nat" where
  "find_desc 0 i descs sz s = i"
| "find_desc (Suc n) i descs sz s =
     (if sz \<le> block_size (block_descs s (desc_at descs i)) then i else find_desc n (i + 1) descs sz s)"

primrec split_arena :: "nat \<Rightarrow> u32 \<Rightarrow> addr \<Rightarrow> 'a mem_state_scheme \<Rightarrow> 'a mem_state_scheme option" where
  "split_arena 0 block_idx a s = Some s"
| "split_arena (Suc n) block_idx a s = do {
     let b = arena2block a block_idx s;
     let fl = free_list (desc (arenas s a));
     found \<leftarrow> elem_find fl b s;
     _ \<leftarrow> ASSERT (\<not> found);
     s \<leftarrow> list_append fl b s;
     split_arena n (block_idx + 1) a s
   }"

definition new_arena :: "pool_flags \<Rightarrow> addr \<Rightarrow> 'a mem_state_scheme \<Rightarrow> (bool \<times> 'a mem_state_scheme) option" where
  "new_arena PF d s = do {
     (a, s) \<leftarrow> malloc_page PF 1 s;
     if a = NULL then Some (False, s)
     else do {
       s \<leftarrow> memset_pages 1 a s;
       let s = upd_arena a (\<lambda>_. \<lparr>desc = d, cnt = blocks_per_arena (block_descs s d), large = False\<rparr>) s;
       let (old_status, s) = intr_disable s;
       s \<leftarrow> split_arena (unat (blocks_per_arena (block_descs s d))) 0 a s;
       Some (True, snd (intr_set_status old_status s))
     }
   }"

definition malloc_large ::
    "pool_flags \<Rightarrow> u32 \<Rightarrow> 'a mem_state_scheme \<Rightarrow> (addr \<times> 'a mem_state_scheme) option" where
  "malloc_large PF sz s = do {
     let page_cnt = DIV_ROUND_UP (sz + sizeof_arena) PG_SIZE;
     (a, s) \<leftarrow> malloc_page PF page_cnt s;
     if a \<noteq> NULL then do {
       s \<leftarrow> memset_pages (unat page_cnt) a s;
       let s = upd_arena a (\<lambda>_. \<lparr>desc = NULL, cnt = page_cnt, large = True\<rparr>) s;
       Some (a + sizeof_arena, s)
     } else Some (NULL, s)
   }"

definition malloc_small ::
    "pool_flags \<Rightarrow> addr \<Rightarrow> u32 \<Rightarrow> 'a mem_state_scheme \<Rightarrow> (addr \<times> 'a mem_state_scheme) option" where
  "malloc_small PF descs sz s = do {
     let desc_idx = find_desc DESC_CNT 0 descs sz s;
     _ \<leftarrow> ASSERT (desc_idx < DESC_CNT);
     let d = desc_at descs desc_idx;
     empty \<leftarrow> list_empty (free_list d) s;
     (ok, s) \<leftarrow> (if empty then new_arena PF d s else Some (True, s));
     if \<not> ok then Some (NULL, s)
     else do {
       (b, s) \<leftarrow> list_pop (free_list d) s;
       s \<leftarrow> memset_words (unat (block_size (block_descs s d)) div 4) b s;
       let a = block2arena b;
       Some (b, upd_arena a (\<lambda>r. r\<lparr>cnt := cnt r - 1\<rparr>) s)
     }
   }"

definition sys_malloc :: "u32 \<Rightarrow> 'a mem_state_scheme \<Rightarrow> (addr \<times> 'a mem_state_scheme) option" where
  "sys_malloc sz s = do {
     t \<leftarrow> rd_task (running_thread s) s;
     let PF = (if pgdir t = NULL then PF_KERNEL else PF_USER);
     let descs = (if pgdir t = NULL then k_block_descs s else u_block_desc (running_thread s));
     if \<not> (sz > 0 \<and> sz < pool_size (mem_pool PF s)) then Some (NULL, s)
     else do {
       let L = pool_lock (mem_pool PF s);
       s \<leftarrow> lock_now L s;
       (p, s) \<leftarrow> (if sz > 1024 then malloc_large PF sz s else malloc_small PF descs sz s);
       s \<leftarrow> lock_release L s;
       Some (p, s)
     }
   }"

primrec drop_arena :: "nat \<Rightarrow> u32 \<Rightarrow> addr \<Rightarrow> 'a mem_state_scheme \<Rightarrow> 'a mem_state_scheme option" where
  "drop_arena 0 block_idx a s = Some s"
| "drop_arena (Suc n) block_idx a s = do {
     let b = arena2block a block_idx s;
     found \<leftarrow> elem_find (free_list (desc (arenas s a))) b s;
     _ \<leftarrow> ASSERT found;
     s \<leftarrow> list_remove b s;
     drop_arena n (block_idx + 1) a s
   }"

definition free_block :: "pool_flags \<Rightarrow> addr \<Rightarrow> addr \<Rightarrow> 'a mem_state_scheme \<Rightarrow> 'a mem_state_scheme option" where
  "free_block PF a b s = do {
     s \<leftarrow> list_append (free_list (desc (arenas s a))) b s;
     let s = upd_arena a (\<lambda>r. r\<lparr>cnt := cnt r + 1\<rparr>) s;
     let n = blocks_per_arena (block_descs s (desc (arenas s a)));
     if cnt (arenas s a) = n then do {
       s \<leftarrow> drop_arena (unat n) 0 a s;
       mfree_page PF a 1 s
     } else Some s
   }"

definition sys_free :: "addr \<Rightarrow> 'a mem_state_scheme \<Rightarrow> 'a mem_state_scheme option" where
  "sys_free ptr s = do {
     _ \<leftarrow> ASSERT (ptr \<noteq> NULL);
     t \<leftarrow> rd_task (running_thread s) s;
     _ \<leftarrow> ASSERT (pgdir t = NULL \<longrightarrow> ptr \<ge> K_HEAP_START);
     let PF = (if pgdir t = NULL then PF_KERNEL else PF_USER);
     let L = pool_lock (mem_pool PF s);
     s \<leftarrow> lock_now L s;
     let a = block2arena ptr;
     s \<leftarrow> (if desc (arenas s a) = NULL \<and> large (arenas s a) then mfree_page PF a (cnt (arenas s a)) s
          else free_block PF a ptr s);
     lock_release L s
   }"

end
