(* ===== verification/Memory_Pages.thy ===== *)
theory Memory_Pages
  imports Memory
begin

text \<open>
  The page allocator: what \<open>malloc_page\<close> and \<open>mfree_page\<close> do to the translation of addresses.

  \<open>xlat\<close> is the translation under the current page directory. \<open>mem_inv\<close> ties the bitmaps of the
  physical pools to the page tables: a frame that is free in its pool is neither a page table of
  the current directory nor the target of a mapping, and no two pages share a frame of a pool.
  \<open>va_inv\<close> says the same of a virtual pool:
  a page that is free there is not mapped. The lemmas follow the calls from the bottom up
  (\<open>palloc\<close>, \<open>page_table_add\<close>, the loop of \<open>malloc_page\<close>, the loop of \<open>mfree_page\<close>).
\<close>

unbundle bit_operations_syntax

abbreviation xlat :: "'a pg_state_scheme \<Rightarrow> u32 \<Rightarrow> u32 option" where
  "xlat s v \<equiv> mmu (pmem s) (page_of (cr3 s)) v"

definition frame :: "pool_flags \<Rightarrow> nat \<Rightarrow> 'a mem_state_scheme \<Rightarrow> u32" where
  "frame pf i s = of_nat i * PG_SIZE + phy_addr_start (mem_pool pf s)"

definition pool_bits :: "pool_flags \<Rightarrow> 'a mem_state_scheme \<Rightarrow> bitmap" where
  "pool_bits pf s = pool_bitmap (mem_pool pf s)"

definition pool_ok :: "pool_flags \<Rightarrow> 'a mem_state_scheme \<Rightarrow> bool" where
  "pool_ok pf s \<longleftrightarrow> bm_wf (pool_bits pf s) \<and>
     page_of (phy_addr_start (mem_pool pf s)) = phy_addr_start (mem_pool pf s) \<and>
     0x102000 \<le> unat (phy_addr_start (mem_pool pf s)) \<and>
     unat (phy_addr_start (mem_pool pf s)) + 4096 * bm_size (pool_bits pf s) \<le> 2 ^ 32"

definition free_idx :: "pool_flags \<Rightarrow> 'a mem_state_scheme \<Rightarrow> nat set" where
  "free_idx pf s = {i. i < bm_size (pool_bits pf s) \<and> \<not> bm_bit (pool_bits pf s) i}"

definition pools_ok :: "'a mem_state_scheme \<Rightarrow> bool" where
  "pools_ok s \<longleftrightarrow> pool_ok PF_KERNEL s \<and> pool_ok PF_USER s \<and>
     unat (phy_addr_start (kernel_pool s)) + 4096 * bm_size (pool_bits PF_KERNEL s)
       \<le> unat (phy_addr_start (user_pool s))"

definition unused_frame :: "'a mem_state_scheme \<Rightarrow> u32 \<Rightarrow> bool" where
  "unused_frame s f \<longleftrightarrow> fresh_frame (pmem s) (page_of (cr3 s)) f \<and>
     (\<forall>w p. mappable w \<longrightarrow> xlat s w = Some p \<longrightarrow> page_of p \<noteq> f)"

text \<open>A frame of a pool that is mapped is no page table and is mapped at one page only.\<close>

definition exclusive :: "'a mem_state_scheme \<Rightarrow> bool" where
  "exclusive s \<longleftrightarrow> (\<forall>pf i w p. i < bm_size (pool_bits pf s) \<longrightarrow> mappable w \<longrightarrow> xlat s w = Some p \<longrightarrow>
     page_of p = frame pf i s \<longrightarrow>
     fresh_frame (pmem s) (page_of (cr3 s)) (page_of p) \<and>
     (\<forall>w' p'. mappable w' \<longrightarrow> xlat s w' = Some p' \<longrightarrow> page_of p' = page_of p \<longrightarrow> page_of w' = page_of w))"

definition mem_inv :: "'a mem_state_scheme \<Rightarrow> bool" where
  "mem_inv s \<longleftrightarrow> pools_ok s \<and> dir_wf (pmem s) (page_of (cr3 s)) \<and> exclusive s \<and>
     (\<forall>pf. \<forall>i \<in> free_idx pf s. unused_frame s (frame pf i s))"

subsection \<open>Arithmetic of pages\<close>

lemma unat_page_offset:
  assumes "unat v + n * 4096 < 2 ^ 32"
  shows "unat (v + of_nat n * PG_SIZE) = unat v + n * 4096"
proof -
  have eq: "v + of_nat n * PG_SIZE = of_nat (unat v + n * 4096)" by (simp add: PG_SIZE_def)
  show ?thesis unfolding eq by (rule unat_of_nat32) (use assms in simp)
qed

lemma page_aligned: "page_of v = v \<longleftrightarrow> unat v mod 4096 = 0"
  using unat_page_of [of v] by (metis dvd_eq_mod_eq_0 dvd_div_mult_self dvd_triv_right word_unat_eq_iff)

lemma page_of_offset:
  assumes "page_of v = v" "unat v + n * 4096 < 2 ^ 32"
  shows "page_of (v + of_nat n * PG_SIZE) = v + of_nat n * PG_SIZE"
  using assms unfolding page_aligned unat_page_offset [OF assms(2)] by presburger

lemma page_offset_inj:
  assumes "unat v + m * 4096 < 2 ^ 32" "unat v + n * 4096 < 2 ^ 32"
  shows "v + of_nat m * PG_SIZE = v + of_nat n * PG_SIZE \<longleftrightarrow> m = n"
  using unat_page_offset [OF assms(1)] unat_page_offset [OF assms(2)] by (auto simp: word_unat_eq_iff)

lemma page_of_off: "page_of f = f \<Longrightarrow> page_of (f + (w AND 0xfff)) = f"
proof -
  assume "page_of f = f"
  then have lo: "bit f n \<Longrightarrow> 12 \<le> n" for n using bit_page_of [of f n] by simp
  have "f + (w AND 0xfff) = f OR (w AND 0xfff)"
    by (rule add_disj) (use lo in \<open>force simp: bit_offset\<close>)
  then show ?thesis
    using lo by (intro bit_word_eqI) (auto simp: bit_page_of bit_or_iff bit_offset)
qed

subsection \<open>State updates\<close>

lemma pool_update [simp]:
  "pmem (set_pool_bitmap pf b s) = pmem s" "cr3 (set_pool_bitmap pf b s) = cr3 s"
  "pool_bits pf' (set_pool_bitmap pf b s) = (if pf' = pf then b else pool_bits pf' s)"
  "phy_addr_start (mem_pool pf' (set_pool_bitmap pf b s)) = phy_addr_start (mem_pool pf' s)"
  "frame pf' i (set_pool_bitmap pf b s) = frame pf' i s"
  "running_thread (set_pool_bitmap pf b s) = running_thread s"
  "vaddr_pool pf' (set_pool_bitmap pf b s) = vaddr_pool pf' s"
  by (cases pf; cases pf'; simp add: set_pool_bitmap_def pool_bits_def mem_pool_def frame_def
      running_thread_def vaddr_pool_def)+

lemma vaddr_update [simp]:
  "pmem (set_vaddr_bitmap pf b s) = pmem s" "cr3 (set_vaddr_bitmap pf b s) = cr3 s"
  "mem_pool pf' (set_vaddr_bitmap pf b s) = mem_pool pf' s"
  "pool_bits pf' (set_vaddr_bitmap pf b s) = pool_bits pf' s"
  "frame pf' i (set_vaddr_bitmap pf b s) = frame pf' i s"
  "running_thread (set_vaddr_bitmap pf b s) = running_thread s"
  "vaddr_pool pf (set_vaddr_bitmap pf b s) = (vaddr_pool pf s)\<lparr>vaddr_bitmap := b\<rparr>"
  by (cases pf; cases pf'; simp add: set_vaddr_bitmap_def pool_bits_def mem_pool_def frame_def
      running_thread_def vaddr_pool_def)+

lemma pmem_update [simp]:
  "mem_pool pf (s\<lparr>pmem := m\<rparr>) = mem_pool pf s" "pool_bits pf (s\<lparr>pmem := m\<rparr>) = pool_bits pf s"
  "frame pf i (s\<lparr>pmem := m\<rparr>) = frame pf i s" "vaddr_pool pf (s\<lparr>pmem := m\<rparr>) = vaddr_pool pf s"
  by (cases pf; simp add: mem_pool_def pool_bits_def frame_def vaddr_pool_def running_thread_def)+

text \<open>The three fields the page allocator changes besides a virtual pool.\<close>

definition with_pages :: "(u32 \<Rightarrow> u32) \<Rightarrow> bitmap \<Rightarrow> bitmap \<Rightarrow> 'a mem_state_scheme \<Rightarrow> 'a mem_state_scheme" where
  "with_pages pm kb ub s = s\<lparr>pmem := pm, kernel_pool := (kernel_pool s)\<lparr>pool_bitmap := kb\<rparr>,
     user_pool := (user_pool s)\<lparr>pool_bitmap := ub\<rparr>\<rparr>"

lemma with_pages_with_pages [simp]: "with_pages pm' kb' ub' (with_pages pm kb ub s) = with_pages pm' kb' ub' s"
  by (simp add: with_pages_def)

lemma with_pages_simps [simp]:
  "pmem (with_pages pm kb ub s) = pm" "cr3 (with_pages pm kb ub s) = cr3 s"
  "pool_bits PF_KERNEL (with_pages pm kb ub s) = kb" "pool_bits PF_USER (with_pages pm kb ub s) = ub"
  "phy_addr_start (mem_pool pf (with_pages pm kb ub s)) = phy_addr_start (mem_pool pf s)"
  "frame pf i (with_pages pm kb ub s) = frame pf i s"
  "running_thread (with_pages pm kb ub s) = running_thread s"
  "vaddr_pool pf (with_pages pm kb ub s) = vaddr_pool pf s"
  "set_vaddr_bitmap pf b (with_pages pm kb ub s) = with_pages pm kb ub (set_vaddr_bitmap pf b s)"
  by (cases pf; simp add: with_pages_def pool_bits_def mem_pool_def frame_def running_thread_def
      vaddr_pool_def set_vaddr_bitmap_def)+

lemma set_pool_with_pages:
  "set_pool_bitmap pf b s = with_pages (pmem s) (if pf = PF_KERNEL then b else pool_bits PF_KERNEL s)
     (if pf = PF_USER then b else pool_bits PF_USER s) s"
  "s\<lparr>pmem := pm\<rparr> = with_pages pm (pool_bits PF_KERNEL s) (pool_bits PF_USER s) s"
  by (cases pf; simp add: set_pool_bitmap_def with_pages_def pool_bits_def mem_pool_def)+

definition same_but_pages :: "'a mem_state_scheme \<Rightarrow> 'a mem_state_scheme \<Rightarrow> bool" where
  "same_but_pages s s' \<longleftrightarrow> (\<exists>pm kb ub. s' = with_pages pm kb ub s \<and>
     bm_size kb = bm_size (pool_bits PF_KERNEL s) \<and> bm_size ub = bm_size (pool_bits PF_USER s))"

lemma same_but_pages_trans: "same_but_pages s s' \<Longrightarrow> same_but_pages s' s'' \<Longrightarrow> same_but_pages s s''"
  unfolding same_but_pages_def by (metis with_pages_simps(3,4) with_pages_with_pages)

lemma same_but_pages_set_pool:
  "bm_size b = bm_size (pool_bits pf s) \<Longrightarrow> same_but_pages s (set_pool_bitmap pf b s)"
  unfolding same_but_pages_def set_pool_with_pages(1) by (cases pf) auto

lemma pmem_same_but_pages [simp]: "same_but_pages (s\<lparr>pmem := pm\<rparr>) s' = same_but_pages s s'"
  unfolding same_but_pages_def set_pool_with_pages(2) by simp

lemma same_but_pages_refl [simp]: "same_but_pages s s"
  unfolding same_but_pages_def
  by (rule exI [of _ "pmem s"], rule exI [of _ "pool_bits PF_KERNEL s"], rule exI [of _ "pool_bits PF_USER s"])
    (simp add: with_pages_def pool_bits_def mem_pool_def)

lemma same_but_pages_pmem [simp]: "same_but_pages s (s\<lparr>pmem := pm\<rparr>)"
  unfolding same_but_pages_def set_pool_with_pages(2) by blast

lemma same_but_pagesD:
  assumes "same_but_pages s s'"
  shows "cr3 s' = cr3 s" "frame pf i s' = frame pf i s" "running_thread s' = running_thread s"
    "vaddr_pool pf s' = vaddr_pool pf s" "phy_addr_start (mem_pool pf s') = phy_addr_start (mem_pool pf s)"
    "bm_size (pool_bits pf s') = bm_size (pool_bits pf s)"
  using assms by (cases pf; auto simp: same_but_pages_def)+

subsection \<open>Frames\<close>

lemma frame_facts:
  assumes "pool_ok pf s" "i < bm_size (pool_bits pf s)"
  shows "unat (frame pf i s) = unat (phy_addr_start (mem_pool pf s)) + i * 4096"
    "page_of (frame pf i s) = frame pf i s" "frame pf i s \<noteq> NULL"
proof -
  have lim: "unat (phy_addr_start (mem_pool pf s)) + i * 4096 < 2 ^ 32"
    using assms by (auto simp: pool_ok_def)
  show u: "unat (frame pf i s) = unat (phy_addr_start (mem_pool pf s)) + i * 4096"
    using unat_page_offset [OF lim] by (simp add: frame_def add.commute)
  show "page_of (frame pf i s) = frame pf i s"
    using page_of_offset [OF _ lim] assms(1) by (simp add: pool_ok_def frame_def add.commute)
  show "frame pf i s \<noteq> NULL" using u assms(1) by (auto simp: pool_ok_def)
qed

lemma frame_inj:
  assumes "pool_ok pf s" "i < bm_size (pool_bits pf s)" "j < bm_size (pool_bits pf s)" "frame pf i s = frame pf j s"
  shows "i = j"
  using frame_facts(1) [OF assms(1,2)] frame_facts(1) [OF assms(1,3)] unfolding assms(4) by linarith

lemma frame_pools:
  assumes "pools_ok s" "i < bm_size (pool_bits pf s)" "j < bm_size (pool_bits pf' s)" "frame pf i s = frame pf' j s"
  shows "pf = pf' \<and> i = j"
proof -
  have k: "pool_ok PF_KERNEL s" "pool_ok PF_USER s" using assms(1) by (simp_all add: pools_ok_def)
  have ne: "frame PF_KERNEL a s \<noteq> frame PF_USER b s"
    if "a < bm_size (pool_bits PF_KERNEL s)" "b < bm_size (pool_bits PF_USER s)" for a b
  proof -
    have "unat (frame PF_KERNEL a s) < unat (frame PF_USER b s)"
      using frame_facts(1) [OF k(1) that(1)] frame_facts(1) [OF k(2) that(2)] assms(1) that(1)
      by (simp add: pools_ok_def mem_pool_def)
    then show ?thesis by auto
  qed
  show ?thesis
  proof (cases "pf = pf'")
    case True
    then show ?thesis using frame_inj [of pf s i j] k assms(2-4) by (cases pf) auto
  next
    case False
    then show ?thesis using ne assms(2-4) by (cases pf; cases pf') (auto, metis)
  qed
qed

lemma palloc_ok:
  assumes "pool_ok pf s" "free_idx pf s \<noteq> {}"
  shows "\<exists>i b. palloc pf s = Some (frame pf i s, set_pool_bitmap pf b s) \<and> i \<in> free_idx pf s \<and>
    bm_wf b \<and> bm_size b = bm_size (pool_bits pf s) \<and> bm_bit b = (bm_bit (pool_bits pf s))(i := True)"
proof -
  have wf: "bm_wf (pool_bits pf s)" using assms(1) by (simp add: pool_ok_def)
  obtain i where i: "i < bm_size (pool_bits pf s)" "bitmap_scan (pool_bits pf s) 1 = Some (int i)"
      "\<not> bm_bit (pool_bits pf s) i"
    using bm.scan_free [OF wf] assms(2) by (auto simp: free_idx_def)
  obtain b where b: "bitmap_set (pool_bits pf s) i 1 = Some b" "bm_wf b" "bm_size b = bm_size (pool_bits pf s)"
      "\<forall>j. bm_bit b j = (if j = i then (1 :: int) = 1 else bm_bit (pool_bits pf s) j)"
    using bm.put [OF wf i(1), of 1] by auto
  have "palloc pf s = Some (frame pf i s, set_pool_bitmap pf b s)"
    using i(2) b(1) by (simp add: palloc_def pool_bits_def frame_def Let_def)
  moreover have "bm_bit b = (bm_bit (pool_bits pf s))(i := True)" using b(4) by auto
  ultimately show ?thesis using i b(2,3) by (auto simp: free_idx_def)
qed

lemma free_idx_taken:
  assumes "bm_size b = bm_size (pool_bits pf s)" "bm_bit b = (bm_bit (pool_bits pf s))(i := True)"
  shows "free_idx pf' (set_pool_bitmap pf b s) = (if pf' = pf then free_idx pf s - {i} else free_idx pf' s)"
  using assms by (auto simp: free_idx_def)

lemma finite_free_idx [simp]: "finite (free_idx pf s)"
  by (simp add: free_idx_def)

subsection \<open>Adding a mapping\<close>

abbreviation user_entry :: "u32 \<Rightarrow> u32" where
  "user_entry f \<equiv> f OR PG_US_U OR PG_RW_W OR PG_P_1"

lemma present_bit: "e AND 1 \<noteq> 0 \<longleftrightarrow> present e"
  by (simp add: present_def PG_P_1_def)

lemma load_pde: "dir_wf (pmem s) (page_of (cr3 s)) \<Longrightarrow>
    load32 (pde_ptr v) s = Some (pmem s (pde_at (page_of (cr3 s)) v))"
  by (simp add: load32_def mmu_pde_ptr)

lemma page_table_add_present:
  assumes wf: "dir_wf (pmem s) (page_of (cr3 s))" and pr: "present (pmem s (pde_at (page_of (cr3 s)) v))"
    and un: "xlat s v = None"
  shows "page_table_add v f s = Some (s\<lparr>pmem := (pmem s)(pte_at (pmem s) (page_of (cr3 s)) v := user_entry f)\<rparr>)"
proof -
  have "mmu (pmem s) (page_of (cr3 s)) (pte_ptr v) = Some (pte_at (pmem s) (page_of (cr3 s)) v)"
    using mmu_pte_ptr [OF wf, of v] pr by simp
  moreover have "\<not> present (pmem s (pte_at (pmem s) (page_of (cr3 s)) v))" using un pr by (simp add: mmu_def split: if_splits)
  ultimately show ?thesis
    using pr unfolding page_table_add_def load_pde [OF wf]
    by (simp add: load32_def store32_def present_bit)
qed

lemma page_of_idx: "PDE_IDX (page_of v) = PDE_IDX v" "PTE_IDX (page_of v) = PTE_IDX v" "page_of v AND 0xfff = 0"
proof -
  show "PDE_IDX (page_of v) = PDE_IDX v" "PTE_IDX (page_of v) = PTE_IDX v"
    using same_page_iff [of "page_of v" v] by simp_all
  show "page_of v AND 0xfff = 0"
    by (rule bit_word_eqI) (auto simp: bit_offset bit_page_of)
qed

text \<open>The entry of a new table is reachable as soon as the directory entry is written.\<close>

lemma mmu_new_pte:
  assumes wf: "dir_wf pm dir" and v: "mappable v" and f: "page_of f = f"
  shows "mmu (pm(pde_at dir v := user_entry f)) dir (page_of (pte_ptr v)) = Some f"
proof -
  let ?pm = "pm(pde_at dir v := user_entry f)"
  have ne: "pde_at dir v \<noteq> dir + 1023 * 4"
  proof
    assume "pde_at dir v = dir + 1023 * 4"
    then have "page_of dir + PDE_IDX v * 4 = page_of dir + 1023 * 4" using dir_wf_self(3) [OF wf] by (simp add: pde_at_def)
    then have "PDE_IDX v = 1023"
      using entry_inject [of "PDE_IDX v" 1023 dir dir] table_index_of_nat [of 1023] by simp
    then show False using v by (simp add: mappable_def)
  qed
  have d: "pde_at dir (page_of (pte_ptr v)) = dir + 1023 * 4" by (simp add: pde_at_def page_of_idx pte_ptr_parts)
  have t: "pte_at ?pm dir (page_of (pte_ptr v)) = pde_at dir v"
    using ne dir_wf_self(2) [OF wf] by (simp add: pte_at_def d page_of_idx pte_ptr_parts) (simp add: pde_at_def)
  show ?thesis
    using ne dir_wf_self(1) [OF wf] present_7 [of f] page_of_7 [OF f] unfolding mmu_def d t
    by (simp add: page_of_idx)
qed

lemma page_table_add_new:
  assumes wf: "dir_wf (pmem s) (page_of (cr3 s))" and v: "mappable v"
    and ab: "\<not> present (pmem s (pde_at (page_of (cr3 s)) v))"
    and al: "palloc PF_KERNEL s = Some (g, s1)" "pmem s1 = pmem s" "cr3 s1 = cr3 s"
    and fr: "fresh_frame (pmem s) (page_of (cr3 s)) g"
  defines "pm \<equiv> new_table (pmem s) (page_of (cr3 s)) v g"
  shows "page_table_add v f s = Some (s1\<lparr>pmem := pm(pte_at pm (page_of (cr3 s)) v := user_entry f)\<rparr>)"
proof -
  let ?dir = "page_of (cr3 s)"
  have g: "page_of g = g" using fr by (simp add: fresh_frame_def)
  have st: "store32 (pde_ptr v) (user_entry g) s1 = Some (s1\<lparr>pmem := (pmem s)(pde_at ?dir v := user_entry g)\<rparr>)"
    by (simp add: store32_def al(2,3) mmu_pde_ptr [OF wf])
  have ms: "memset_page (pte_ptr v AND 0xfffff000) (s1\<lparr>pmem := (pmem s)(pde_at ?dir v := user_entry g)\<rparr>) = Some (s1\<lparr>pmem := pm\<rparr>)"
    using mmu_new_pte [OF wf v g] g unfolding page_of_def [symmetric]
    by (simp add: memset_page_def al(3) pm_def new_table_def)
  have pt: "mmu pm ?dir (pte_ptr v) = Some (pte_at pm ?dir v)"
    using mmu_pte_ptr [OF mmu_new_table(1) [OF wf v ab fr], of v] mmu_new_table(2) [OF wf v ab fr] present_7
    by (simp add: pm_def)
  have "load32 (pte_ptr v) (s1\<lparr>pmem := pm\<rparr>) = Some 0"
    using pt mmu_new_table(3) [OF wf v ab fr] by (simp add: load32_def al(3) pm_def)
  moreover have "store32 (pte_ptr v) (user_entry f) (s1\<lparr>pmem := pm\<rparr>) =
      Some (s1\<lparr>pmem := pm(pte_at pm ?dir v := user_entry f)\<rparr>)"
    using pt by (simp add: store32_def al(3))
  moreover have "\<not> present 0" by (simp add: present_def)
  ultimately show ?thesis
    using ab unfolding page_table_add_def load_pde [OF wf] by (simp add: present_bit al(1) st ms)
qed

text \<open>The effect seen through the translation.\<close>

definition mapped_at :: "'a pg_state_scheme \<Rightarrow> 'a pg_state_scheme \<Rightarrow> u32 \<Rightarrow> u32 \<Rightarrow> bool" where
  "mapped_at s s' v f \<longleftrightarrow> (\<forall>w. mappable w \<longrightarrow>
     xlat s' w = (if page_of w = page_of v then Some (f + (w AND 0xfff)) else xlat s w))"

definition not_free :: "u32 \<Rightarrow> 'a mem_state_scheme \<Rightarrow> bool" where
  "not_free f s \<longleftrightarrow> (\<forall>pf. \<forall>i \<in> free_idx pf s. frame pf i s \<noteq> f)"

lemma mapped_mem_inv:
  assumes inv: "mem_inv s" and m: "mapped_at s s' v f"
    and f: "page_of f = f" "not_free f s" "unused_frame s f" "f \<notin> G"
    and wf: "dir_wf (pmem s') (page_of (cr3 s'))" and ok: "pools_ok s'"
    and sub: "\<And>pf. free_idx pf s' \<subseteq> free_idx pf s" and fr: "\<And>pf i. frame pf i s' = frame pf i s"
    and sz: "\<And>pf. bm_size (pool_bits pf s') = bm_size (pool_bits pf s)"
    and fresh: "\<And>x. fresh_frame (pmem s) (page_of (cr3 s)) x \<Longrightarrow> x \<notin> G \<Longrightarrow>
      fresh_frame (pmem s') (page_of (cr3 s')) x"
    and G: "\<And>g. g \<in> G \<Longrightarrow> unused_frame s g \<and> not_free g s'"
  shows "mem_inv s'"
proof -
  have to_f: "page_of p \<noteq> f" if "mappable w" "xlat s w = Some p" for w p
    using f(3) that by (auto simp: unused_frame_def)
  have cases_w: "page_of w = page_of v \<and> page_of p = f \<or> page_of w \<noteq> page_of v \<and> xlat s w = Some p"
    if "mappable w" "xlat s' w = Some p" for w p
    using m that page_of_off [OF f(1), of w] by (auto simp: mapped_at_def split: if_splits)
  have unused: "unused_frame s' (frame pf i s)" if i: "i \<in> free_idx pf s'" for pf i
  proof -
    have i0: "i \<in> free_idx pf s" using i sub by blast
    then have u: "unused_frame s (frame pf i s)" using inv by (simp add: mem_inv_def)
    have "frame pf i s \<notin> G" using G i by (fastforce simp: not_free_def fr)
    moreover have "frame pf i s \<noteq> f" using f(2) i0 by (auto simp: not_free_def)
    ultimately show ?thesis using u fresh cases_w by (fastforce simp: unused_frame_def)
  qed
  have "exclusive s'"
    unfolding exclusive_def
  proof (intro allI impI)
    fix pf i w p assume i: "i < bm_size (pool_bits pf s')" and w: "mappable w" "xlat s' w = Some p"
      and p: "page_of p = frame pf i s'"
    show "fresh_frame (pmem s') (page_of (cr3 s')) (page_of p) \<and>
      (\<forall>w' p'. mappable w' \<longrightarrow> xlat s' w' = Some p' \<longrightarrow> page_of p' = page_of p \<longrightarrow> page_of w' = page_of w)"
    proof (cases "page_of w = page_of v")
      case True
      then show ?thesis
        using cases_w [OF w] f(3,4) fresh cases_w to_f by (metis unused_frame_def)
    next
      case False
      then have old: "xlat s w = Some p" using cases_w [OF w] by blast
      then have ex: "fresh_frame (pmem s) (page_of (cr3 s)) (page_of p)"
          "\<And>w' p'. mappable w' \<Longrightarrow> xlat s w' = Some p' \<Longrightarrow> page_of p' = page_of p \<Longrightarrow> page_of w' = page_of w"
        using inv i w(1) p unfolding mem_inv_def exclusive_def sz fr by blast+
      have "page_of p \<notin> G" using G w(1) old by (auto simp: unused_frame_def)
      then show ?thesis using ex fresh cases_w to_f [OF w(1) old] by metis
    qed
  qed
  then show ?thesis using wf ok unused by (simp add: mem_inv_def fr)
qed

text \<open>\<open>page_table_add\<close> maps the page and nothing else, with a new table when one is missing.\<close>

definition page_added :: "addr \<Rightarrow> u32 \<Rightarrow> 'a mem_state_scheme \<Rightarrow> 'a mem_state_scheme \<Rightarrow> bool" where
  "page_added v f s s' \<longleftrightarrow> mem_inv s' \<and> mapped_at s s' v f \<and>
     same_but_pages s s' \<and> free_idx PF_USER s' = free_idx PF_USER s \<and>
     (\<exists>I. finite I \<and> card I \<le> 1 \<and> free_idx PF_KERNEL s' = free_idx PF_KERNEL s - I)"

lemma page_table_add_ok_present:
  assumes inv: "mem_inv s" and v: "mappable v" "xlat s v = None"
    and f: "page_of f = f" "not_free f s" "unused_frame s f" and True: "present (pmem s (pde_at (page_of (cr3 s)) v))"
  shows "\<exists>s'. page_table_add v f s = Some s' \<and> page_added v f s s'"
proof -
  let ?dir = "page_of (cr3 s)"
  let ?pm = "(pmem s)(pte_at (pmem s) ?dir v := user_entry f)"
  let ?b = "pool_bits PF_KERNEL s"
  let ?s' = "set_pool_bitmap PF_KERNEL ?b (s\<lparr>pmem := ?pm\<rparr>)"
  have wf: "dir_wf (pmem s) ?dir" and ok: "pools_ok s" using inv by (simp_all add: mem_inv_def)
  have same: "?s' = s\<lparr>pmem := ?pm\<rparr>" by (simp add: set_pool_bitmap_def pool_bits_def mem_pool_def)
  have wf': "dir_wf ?pm ?dir" by (rule mmu_set_pte(1) [OF wf v(1) True])
  have m: "mapped_at s ?s' v f"
    using mmu_set_pte(2) [OF wf v(1) True] present_7 page_of_7 [OF f(1)] by (simp add: mapped_at_def mappable_def)
  have idx: "free_idx pf ?s' = free_idx pf s" for pf by (auto simp: free_idx_def)
  have fresh: "fresh_frame ?pm ?dir x" if x: "fresh_frame (pmem s) ?dir x" for x
  proof -
    have "dir_entry ?pm ?dir k = dir_entry (pmem s) ?dir k" if "k < 1024" for k
    proof -
      have "page_of (?dir + of_nat k * 4) = ?dir" using page_of_entry [OF table_index_of_nat [OF that], of "cr3 s"] by simp
      moreover have "page_of (pte_at (pmem s) ?dir v) \<noteq> ?dir"
        using frame_not_dir [OF wf v(1) True] by (simp add: page_of_pte_at)
      ultimately show ?thesis by (auto simp: dir_entry_def)
    qed
    then show ?thesis using x by (simp add: fresh_frame_def)
  qed
  have ok': "pools_ok ?s'" using ok by (simp add: pools_ok_def pool_ok_def same mem_pool_def)
  have "mem_inv ?s'"
    by (rule mapped_mem_inv [OF inv m f, of "{}"]) (use wf' idx fresh ok' in simp_all)
  then have "page_added v f s ?s'"
    using m idx same_but_pages_set_pool [of ?b PF_KERNEL "s\<lparr>pmem := ?pm\<rparr>"] unfolding page_added_def
    by (intro conjI exI [of _ "{}"]) (simp_all add: pmem_same_but_pages)
  then show ?thesis using page_table_add_present [OF wf True v(2), of f] by (simp add: same)
qed

lemma page_table_add_ok_new:
  assumes inv: "mem_inv s" and v: "mappable v" "xlat s v = None"
    and f: "page_of f = f" "not_free f s" "unused_frame s f" and False: "\<not> present (pmem s (pde_at (page_of (cr3 s)) v))"
    and room: "free_idx PF_KERNEL s \<noteq> {}"
  shows "\<exists>s'. page_table_add v f s = Some s' \<and> page_added v f s s'"
proof -
  let ?dir = "page_of (cr3 s)"
  have wf: "dir_wf (pmem s) ?dir" and ok: "pools_ok s" using inv by (simp_all add: mem_inv_def)
  obtain i b where i: "palloc PF_KERNEL s = Some (frame PF_KERNEL i s, set_pool_bitmap PF_KERNEL b s)"
      "i \<in> free_idx PF_KERNEL s" "bm_wf b" "bm_size b = bm_size (pool_bits PF_KERNEL s)"
      "bm_bit b = (bm_bit (pool_bits PF_KERNEL s))(i := True)"
    using palloc_ok [of PF_KERNEL s] ok room by (auto simp: pools_ok_def)
  let ?g = "frame PF_KERNEL i s"
  let ?nt = "new_table (pmem s) ?dir v ?g"
  let ?pm = "?nt(pte_at ?nt ?dir v := user_entry f)"
  let ?s' = "set_pool_bitmap PF_KERNEL b (s\<lparr>pmem := ?pm\<rparr>)"
  have fr: "fresh_frame (pmem s) ?dir ?g" using inv i(2) by (simp add: mem_inv_def unused_frame_def)
  have g: "page_of ?g = ?g" using fr by (simp add: fresh_frame_def)
  note nt = mmu_new_table [OF wf v(1) False fr]
  have pr: "present (?nt (pde_at ?dir v))" using nt(2) present_7 by simp
  have wf': "dir_wf ?pm ?dir" by (rule mmu_set_pte(1) [OF nt(1) v(1) pr])
  have m: "mapped_at s ?s' v f"
    using mmu_set_pte(2) [OF nt(1) v(1) pr] nt(4) present_7 page_of_7 [OF f(1)]
    by (simp add: mapped_at_def mappable_def)
  have idx: "free_idx pf ?s' = (if pf = PF_KERNEL then free_idx pf s - {i} else free_idx pf s)" for pf
    using i(4,5) by (auto simp: free_idx_def)
  have sz: "j < bm_size (pool_bits pf s)" if "j \<in> free_idx pf s" for j pf using that by (simp add: free_idx_def)
  have fresh: "fresh_frame ?pm ?dir x" if x: "fresh_frame (pmem s) ?dir x" "x \<noteq> ?g" for x
  proof -
    have "dir_entry ?pm ?dir k = (if k = unat (PDE_IDX v) then user_entry ?g else dir_entry (pmem s) ?dir k)" if "k < 1024" for k
    proof -
      have "page_of (?dir + of_nat k * 4) = ?dir" using page_of_entry [OF table_index_of_nat [OF that], of "cr3 s"] by simp
      moreover have "page_of (pte_at ?nt ?dir v) \<noteq> ?dir"
        using frame_not_dir [OF nt(1) v(1) pr] by (simp add: page_of_pte_at)
      ultimately have "dir_entry ?pm ?dir k = dir_entry ?nt ?dir k" by (auto simp: dir_entry_def)
      then show ?thesis using dir_entry_new_table [OF wf fr that] by simp
    qed
    then show ?thesis using x page_of_7 [OF g] by (auto simp: fresh_frame_def)
  qed
  have ok': "pools_ok ?s'" using ok i(3,4) by (auto simp: pools_ok_def pool_ok_def set_pool_bitmap_def mem_pool_def pool_bits_def)
  have nf: "not_free ?g ?s'"
  proof -
    have "frame pf j s \<noteq> ?g" if "j \<in> free_idx pf ?s'" for pf j
      using frame_pools [OF ok sz sz [OF i(2)]] that idx by (metis Diff_iff insertI1)
    then show ?thesis by (simp add: not_free_def)
  qed
  have gf: "f \<noteq> ?g" using f(2) i(2) by (auto simp: not_free_def)
  have gu: "unused_frame s ?g" using inv i(2) by (simp add: mem_inv_def)
  have "mem_inv ?s'"
    by (rule mapped_mem_inv [OF inv m f, of "{?g}"])
      (use wf' idx fresh ok' gf gu nf i(4) in \<open>auto split: if_splits\<close>)
  moreover have "page_table_add v f s = Some ?s'"
    using page_table_add_new [OF wf v(1) False i(1) _ _ fr, of f] by (simp add: set_pool_bitmap_def)
  ultimately show ?thesis
    using m idx i(4) same_but_pages_set_pool [of b PF_KERNEL "s\<lparr>pmem := ?pm\<rparr>"] unfolding page_added_def
    by (intro exI [of _ ?s'] conjI exI [of _ "{i}"]) (simp_all add: pmem_same_but_pages)
qed

lemmas page_table_add_ok = page_table_add_ok_present page_table_add_ok_new

text \<open>The loop of \<open>malloc_page\<close>. A step takes one frame of the pool and at most one more for a table.\<close>

definition page :: "addr \<Rightarrow> nat \<Rightarrow> addr" where
  "page v i = v + of_nat i * PG_SIZE"

definition page_range :: "addr \<Rightarrow> nat \<Rightarrow> bool" where
  "page_range v n \<longleftrightarrow> page_of v = v \<and> unat v + n * 4096 < 2 ^ 32 \<and> (\<forall>i < n. mappable (page v i))"

definition pages_added :: "addr \<Rightarrow> u32 list \<Rightarrow> 'a mem_state_scheme \<Rightarrow> 'a mem_state_scheme \<Rightarrow> bool" where
  "pages_added v fs s s' \<longleftrightarrow>
     (\<forall>i w. i < length fs \<longrightarrow> page_of w = page v i \<longrightarrow> xlat s' w = Some (fs ! i + (w AND 0xfff))) \<and>
     (\<forall>w. mappable w \<longrightarrow> page_of w \<notin> page v ` {..<length fs} \<longrightarrow> xlat s' w = xlat s w)"

lemma page_0 [simp]: "page v 0 = v"
  by (simp add: page_def)

lemma page_Suc: "page (v + PG_SIZE) i = page v (Suc i)"
  by (simp add: page_def algebra_simps)

lemma page_rangeD:
  assumes "page_range v n" "i < n" "j < n"
  shows "page_of (page v i) = page v i" "mappable (page v i)" "page v i = page v j \<longleftrightarrow> i = j"
    "unat (page v i) = unat v + i * 4096"
proof -
  have lim: "unat v + k * 4096 < 2 ^ 32" if "k < n" for k using assms(1) that by (simp add: page_range_def)
  show "page_of (page v i) = page v i" "mappable (page v i)"
    using page_of_offset [OF _ lim [OF assms(2)]] assms(1,2) by (simp_all add: page_range_def page_def)
  show "page v i = page v j \<longleftrightarrow> i = j"
    using page_offset_inj [OF lim [OF assms(2)] lim [OF assms(3)]] by (simp add: page_def)
  show "unat (page v i) = unat v + i * 4096" using unat_page_offset [OF lim [OF assms(2)]] by (simp add: page_def)
qed

lemma page_range_Suc:
  assumes "page_range v (Suc n)"
  shows "page_range (v + PG_SIZE) n"
proof -
  have lim: "unat v + 1 * 4096 < 2 ^ 32" "page_of v = v" using assms by (simp_all add: page_range_def)
  have "unat (v + PG_SIZE) = unat v + 4096" using unat_page_offset [OF lim(1)] by simp
  moreover have "page_of (v + PG_SIZE) = v + PG_SIZE" using page_of_offset [OF lim(2,1)] by simp
  ultimately show ?thesis using assms by (simp add: page_range_def page_Suc)
qed

lemma pages_added_Cons:
  assumes "mapped_at s s1 v f" "mappable v" "page_of v = v" "pages_added (v + PG_SIZE) fs s1 s'"
    "page_range v (Suc n)" "length fs = n"
  shows "pages_added v (f # fs) s s'"
  unfolding pages_added_def
proof (intro conjI allI impI)
  note D = page_rangeD [OF assms(5)]
  fix i w assume i: "i < length (f # fs)" and w: "page_of w = page v i"
  have mw: "mappable w"
    using D(2) [of i 0] i w assms(6) page_of_idx(1) [of w] page_of_idx(1) [of "page v i"] by (simp add: mappable_def)
  show "xlat s' w = Some ((f # fs) ! i + (w AND 0xfff))"
  proof (cases i)
    case 0
    have "page_of w \<notin> page (v + PG_SIZE) ` {..<n}"
      using w 0 D(3) [of 0] assms(6) by (auto simp: page_Suc)
    then show ?thesis using assms(1,3,4,6) mw w 0 by (simp add: pages_added_def mapped_at_def)
  next
    case (Suc j)
    then show ?thesis using assms(4) i w by (simp add: pages_added_def page_Suc)
  qed
next
  fix w assume w: "mappable w" "page_of w \<notin> page v ` {..<length (f # fs)}"
  have "page v 0 \<in> page v ` {..<length (f # fs)}" by (intro imageI) simp
  then have "page_of w \<noteq> v" using w(2) by auto
  moreover have "page_of w \<notin> page (v + PG_SIZE) ` {..<length fs}"
    using w(2) by (auto simp: page_Suc image_iff)
  ultimately show "xlat s' w = xlat s w" using assms(1,3,4) w(1) by (simp add: pages_added_def mapped_at_def)
qed

lemma mem_inv_palloc:
  assumes "mem_inv s" "bm_wf b" "bm_size b = bm_size (pool_bits pf s)"
    "bm_bit b = (bm_bit (pool_bits pf s))(i := True)" "i \<in> free_idx pf s"
  shows "mem_inv (set_pool_bitmap pf b s)" "not_free (frame pf i s) (set_pool_bitmap pf b s)"
proof -
  note idx = free_idx_taken [OF assms(3,4)]
  have ok: "pools_ok s" using assms(1) by (simp add: mem_inv_def)
  have ok': "pools_ok (set_pool_bitmap pf b s)"
    using ok assms(2,3) by (cases pf) (auto simp: pools_ok_def pool_ok_def set_pool_bitmap_def mem_pool_def pool_bits_def)
  have ex: "exclusive s" using assms(1) by (simp add: mem_inv_def)
  have sz: "bm_size (pool_bits pf' (set_pool_bitmap pf b s)) = bm_size (pool_bits pf' s)" for pf'
    using assms(3) by simp
  have "exclusive (set_pool_bitmap pf b s)" using ex unfolding exclusive_def sz pool_update(1,2,5) .
  then show "mem_inv (set_pool_bitmap pf b s)"
    using assms(1) idx ok' by (auto simp: mem_inv_def unused_frame_def split: if_splits)
  show "not_free (frame pf i s) (set_pool_bitmap pf b s)"
    unfolding not_free_def idx
  proof (intro allI ballI)
    fix pf' j assume j: "j \<in> (if pf' = pf then free_idx pf s - {i} else free_idx pf' s)"
    then have "j < bm_size (pool_bits pf' s)" "i < bm_size (pool_bits pf s)" "\<not> (pf' = pf \<and> j = i)"
      using assms(5) by (auto simp: free_idx_def split: if_splits)
    then show "frame pf' j (set_pool_bitmap pf b s) \<noteq> frame pf i s"
      using frame_pools [OF ok, of j pf' i pf] by auto
  qed
qed

lemma map_step:
  assumes inv: "mem_inv s" and v: "mappable v" "xlat s v = None"
    and room: "2 \<le> card (free_idx PF_KERNEL s)" "1 \<le> card (free_idx pf s)"
  shows "\<exists>s1 s2 i. palloc pf s = Some (frame pf i s, s1) \<and> i \<in> free_idx pf s \<and> frame pf i s \<noteq> NULL \<and>
    page_table_add v (frame pf i s) s1 = Some s2 \<and> mem_inv s2 \<and> mapped_at s s2 v (frame pf i s) \<and>
    same_but_pages s s2 \<and> not_free (frame pf i s) s2 \<and> (\<forall>pf'. free_idx pf' s2 \<subseteq> free_idx pf' s) \<and>
    card (free_idx PF_KERNEL s) \<le> card (free_idx PF_KERNEL s2) + 2 \<and>
    card (free_idx pf s) \<le> card (free_idx pf s2) + (if pf = PF_KERNEL then 2 else 1)"
proof -
  have ok: "pool_ok pf s" using inv by (cases pf) (simp_all add: mem_inv_def pools_ok_def)
  have ne: "free_idx pf s \<noteq> {}" using room(2) by auto
  obtain i b where i: "palloc pf s = Some (frame pf i s, set_pool_bitmap pf b s)" "i \<in> free_idx pf s" "bm_wf b"
      "bm_size b = bm_size (pool_bits pf s)" "bm_bit b = (bm_bit (pool_bits pf s))(i := True)"
    using palloc_ok [OF ok ne] by blast
  let ?s1 = "set_pool_bitmap pf b s" and ?f = "frame pf i s"
  have f: "page_of ?f = ?f" "?f \<noteq> NULL" using frame_facts(2,3) [OF ok] i(2) by (simp_all add: free_idx_def)
  note inv1 = mem_inv_palloc [OF inv i(3-5,2)] and idx = free_idx_taken [OF i(4,5)]
  have "free_idx PF_KERNEL ?s1 \<noteq> {}"
  proof -
    have "card (free_idx PF_KERNEL s) - 1 \<le> card (free_idx PF_KERNEL ?s1)"
      using card_Diff_singleton [of i "free_idx PF_KERNEL s"] i(2) by (auto simp: idx)
    then show ?thesis using room(1) by auto
  qed
  moreover have "xlat ?s1 v = None" using v(2) by simp
  moreover have un: "unused_frame ?s1 ?f" using inv i(2) by (simp add: mem_inv_def unused_frame_def)
  ultimately obtain s2 where s2: "page_table_add v ?f ?s1 = Some s2" "page_added v ?f ?s1 s2"
    using page_table_add_ok [OF inv1(1) v(1) _ f(1) inv1(2) un] by blast
  obtain I where I: "finite I" "card I \<le> 1" "free_idx PF_KERNEL s2 = free_idx PF_KERNEL ?s1 - I"
    using s2(2) by (auto simp: page_added_def)
  have same: "same_but_pages s s2"
    using same_but_pages_trans [OF same_but_pages_set_pool [OF i(4)]] s2(2) by (simp add: page_added_def)
  have user: "free_idx PF_USER s2 = free_idx PF_USER ?s1" using s2(2) by (simp add: page_added_def)
  have sub: "free_idx pf' s2 \<subseteq> free_idx pf' ?s1" for pf' using I(3) user by (cases pf') auto
  have nf: "not_free ?f s2"
    using inv1(2) sub same_but_pagesD(2) [OF same] unfolding not_free_def by fastforce
  have m: "mapped_at s s2 v ?f" "mem_inv s2" using s2(2) by (simp_all add: page_added_def mapped_at_def)
  have sub': "\<forall>pf'. free_idx pf' s2 \<subseteq> free_idx pf' s"
  proof
    show "free_idx pf' s2 \<subseteq> free_idx pf' s" for pf' using sub [of pf'] idx [of pf'] by (auto split: if_splits)
  qed
  have k: "card (free_idx PF_KERNEL ?s1) \<le> card (free_idx PF_KERNEL s2) + 1"
    using I diff_card_le_card_Diff [OF I(1), of "free_idx PF_KERNEL ?s1"] by simp
  have one: "card (free_idx pf' s) \<le> card (free_idx pf' ?s1) + (if pf' = pf then 1 else 0)" for pf'
    using card_Diff_singleton [of i "free_idx pf s"] i(2) by (auto simp: idx)
  have c: "card (free_idx PF_KERNEL s) \<le> card (free_idx PF_KERNEL s2) + 2"
    "card (free_idx pf s) \<le> card (free_idx pf s2) + (if pf = PF_KERNEL then 2 else 1)"
    using k user one [of PF_KERNEL] one [of PF_USER] by (cases pf; simp)+
  show ?thesis
    by (rule exI [where x = ?s1], rule exI [where x = s2], rule exI [where x = i])
      (intro conjI; fact i(1,2) f(2) s2(1) m same nf sub' c)
qed

lemma map_pages_ok:
  assumes "mem_inv s" "page_range v n" "\<forall>i < n. xlat s (page v i) = None"
    "2 * n \<le> card (free_idx PF_KERNEL s)" "n \<le> card (free_idx pf s)"
  shows "\<exists>s' fs. map_pages n pf v s = Some (True, s') \<and> mem_inv s' \<and> same_but_pages s s' \<and>
    length fs = n \<and> distinct fs \<and> set fs \<subseteq> (\<lambda>i. frame pf i s) ` free_idx pf s \<and> pages_added v fs s s' \<and>
    (\<forall>pf'. free_idx pf' s' \<subseteq> free_idx pf' s) \<and> (\<forall>f \<in> set fs. not_free f s')"
  using assms
proof (induction n arbitrary: v s)
  case (0 v s)
  then show ?case by (auto simp: pages_added_def)
next
  case (Suc n v s)
  have v: "mappable v" "xlat s v = None" "page_of v = v"
    using Suc.prems(2,3) page_rangeD [OF Suc.prems(2), of 0 0] by (auto dest: spec [of _ 0])
  obtain s1 s2 i where st: "palloc pf s = Some (frame pf i s, s1)" "i \<in> free_idx pf s" "frame pf i s \<noteq> NULL"
      "page_table_add v (frame pf i s) s1 = Some s2" "mem_inv s2" "mapped_at s s2 v (frame pf i s)"
      "same_but_pages s s2" "not_free (frame pf i s) s2" "\<forall>pf'. free_idx pf' s2 \<subseteq> free_idx pf' s"
      "card (free_idx PF_KERNEL s) \<le> card (free_idx PF_KERNEL s2) + 2"
      "card (free_idx pf s) \<le> card (free_idx pf s2) + (if pf = PF_KERNEL then 2 else 1)"
    using map_step [OF Suc.prems(1) v(1,2), of pf] Suc.prems(4,5) by auto
  let ?f = "frame pf i s"
  note D = page_rangeD [OF Suc.prems(2)]
  have un: "xlat s2 (page (v + PG_SIZE) j) = None" if "j < n" for j
    using st(6) D(1,2) [of "Suc j" 0] D(3) [of "Suc j" 0] v(3) Suc.prems(3) that
    by (simp add: mapped_at_def page_Suc)
  obtain s' fs where ih: "map_pages n pf (v + PG_SIZE) s2 = Some (True, s')" "mem_inv s'" "same_but_pages s2 s'"
      "length fs = n" "distinct fs" "set fs \<subseteq> (\<lambda>i. frame pf i s2) ` free_idx pf s2" "pages_added (v + PG_SIZE) fs s2 s'"
      "\<forall>pf'. free_idx pf' s' \<subseteq> free_idx pf' s2" "\<forall>f \<in> set fs. not_free f s'"
    using Suc.IH [OF st(5) page_range_Suc [OF Suc.prems(2)]] un Suc.prems(4,5) st(10,11) by (auto split: if_splits)
  have fr: "frame pf j s2 = frame pf j s" for pf j using same_but_pagesD(2) [OF st(7)] .
  have new: "?f \<notin> set fs"
  proof
    assume "?f \<in> set fs"
    then obtain j where "j \<in> free_idx pf s2" "?f = frame pf j s2" using ih(6) by blast
    then show False using st(8) by (auto simp: not_free_def)
  qed
  have added: "pages_added v (?f # fs) s s'"
    by (rule pages_added_Cons [OF st(6) v(1,3) ih(7) Suc.prems(2)]) (simp add: ih(4))
  have nf: "not_free ?f s'"
    using st(8) ih(8) same_but_pagesD(2) [OF ih(3)] unfolding not_free_def by fastforce
  have "set (?f # fs) \<subseteq> (\<lambda>i. frame pf i s) ` free_idx pf s"
  proof -
    have "set fs \<subseteq> (\<lambda>i. frame pf i s) ` free_idx pf s2" using ih(6) by (simp add: fr)
    then show ?thesis using st(2,9) by (auto dest!: spec [of _ pf])
  qed
  then show ?case
    using st(1,3,4) ih(1,2,4,5,9) same_but_pages_trans [OF st(7) ih(3)] new added nf st(9) ih(8)
    by (intro exI [of _ s'] exI [of _ "?f # fs"]) (auto, blast)
qed

subsection \<open>Virtual pages\<close>

lemma bitmap_set_length: "bitmap_set b i v = Some b' \<Longrightarrow>
    length (bits b') = length (bits b) \<and> btmp_bytes_len b' = btmp_bytes_len b"
  by (auto simp: bitmap_set_def Let_def split: bind_splits if_splits)

lemma bitmap_set_run_length: "bitmap_set_run b i n v = Some b' \<Longrightarrow>
    length (bits b') = length (bits b) \<and> btmp_bytes_len b' = btmp_bytes_len b"
  by (induction n arbitrary: b i) (auto split: bind_splits dest: bitmap_set_length)

definition va_bits :: "pool_flags \<Rightarrow> 'a mem_state_scheme \<Rightarrow> bitmap" where
  "va_bits pf s = vaddr_bitmap (vaddr_pool pf s)"

definition va_page :: "pool_flags \<Rightarrow> nat \<Rightarrow> 'a mem_state_scheme \<Rightarrow> addr" where
  "va_page pf i s = page (vaddr_start (vaddr_pool pf s)) i"

text \<open>The pages of a virtual pool are aligned, lie between 4 MiB and the window of the page tables,
  those of a process below the kernel; a page that is free in the pool is not mapped. The scan
  for several pages reads a byte behind the bitmap.\<close>

definition va_inv :: "pool_flags \<Rightarrow> 'a mem_state_scheme \<Rightarrow> bool" where
  "va_inv pf s \<longleftrightarrow> bm_wf (va_bits pf s) \<and> btmp_bytes_len (va_bits pf s) < length (bits (va_bits pf s)) \<and>
     page_of (vaddr_start (vaddr_pool pf s)) = vaddr_start (vaddr_pool pf s) \<and>
     0x400000 \<le> unat (vaddr_start (vaddr_pool pf s)) \<and>
     unat (vaddr_start (vaddr_pool pf s)) + 4096 * bm_size (va_bits pf s) \<le>
       (case pf of PF_KERNEL \<Rightarrow> 0xffc00000 | PF_USER \<Rightarrow> 0xbffff000) \<and>
     (\<forall>i < bm_size (va_bits pf s). \<not> bm_bit (va_bits pf s) i \<longrightarrow> xlat s (va_page pf i s) = None)"

lemma PDE_IDX_unat: "unat (PDE_IDX v) = unat v div 2 ^ 22"
proof -
  have "PDE_IDX v = drop_bit 22 v"
    by (rule bit_word_eqI) (auto simp: bit_PDE_IDX bit_drop_bit_eq add.commute dest: bit_imp_le_length)
  then show ?thesis by (simp add: drop_bit_eq_div unat_div_distrib)
qed

lemma PTE_IDX_unat: "unat (PTE_IDX v) = unat v div 2 ^ 12 mod 2 ^ 10"
proof -
  have "PTE_IDX v = take_bit 10 (drop_bit 12 v)"
    by (rule bit_word_eqI) (auto simp: bit_PTE_IDX bit_take_bit_iff bit_drop_bit_eq add.commute)
  then show ?thesis by (simp add: unsigned_take_bit_eq take_bit_eq_mod drop_bit_eq_div unat_div_distrib unat_mod_distrib)
qed

lemma mappable_range: "0x400000 \<le> unat v \<Longrightarrow> unat v < 0xffc00000 \<Longrightarrow> mappable v"
  unfolding mappable_def word_unat_eq_iff PDE_IDX_unat by simp linarith

lemma va_range:
  assumes "va_inv pf s" "i + n \<le> bm_size (va_bits pf s)"
  shows "page_range (va_page pf i s) n" "k < n \<Longrightarrow> page (va_page pf i s) k = va_page pf (i + k) s"
    "unat (va_page pf i s) = unat (vaddr_start (vaddr_pool pf s)) + i * 4096"
proof -
  let ?b = "vaddr_start (vaddr_pool pf s)"
  have lim: "unat ?b + (i + n) * 4096 \<le> 0xffc00000" "0x400000 \<le> unat ?b" "page_of ?b = ?b"
    using assms by (cases pf; simp add: va_inv_def)+
  show comp: "page (va_page pf i s) k = va_page pf (i + k) s" if "k < n" for k
    by (simp add: va_page_def page_def algebra_simps)
  have u: "unat (va_page pf j s) = unat ?b + j * 4096" if "j \<le> i + n" for j
    using unat_page_offset [of ?b j] lim(1) that by (simp add: va_page_def page_def)
  show "unat (va_page pf i s) = unat ?b + i * 4096" using u by simp
  have "mappable (va_page pf (i + k) s)" if "k < n" for k
    by (rule mappable_range) (use u [of "i + k"] lim that in simp_all)
  moreover have "page_of (va_page pf i s) = va_page pf i s"
    using page_of_offset [of ?b i] lim by (simp add: va_page_def page_def)
  ultimately show "page_range (va_page pf i s) n"
    using u [of i] lim(1) comp by (simp add: page_range_def)
qed

definition va_run :: "pool_flags \<Rightarrow> nat \<Rightarrow> 'a mem_state_scheme \<Rightarrow> nat \<Rightarrow> bool" where
  "va_run pf n s i \<longleftrightarrow> i + n \<le> bm_size (va_bits pf s) \<and> run_at (va_bits pf s) n i"

lemma vaddr_get_ok:
  assumes inv: "va_inv pf s" and run: "va_run pf (unat n) s k" and n: "0 < n"
  shows "\<exists>i b. vaddr_get pf n s = Some (va_page pf i s, set_vaddr_bitmap pf b s) \<and> va_run pf (unat n) s i \<and>
    bm_wf b \<and> bm_size b = bm_size (va_bits pf s) \<and> length (bits b) = length (bits (va_bits pf s)) \<and>
    btmp_bytes_len b = btmp_bytes_len (va_bits pf s) \<and>
    (\<forall>j. bm_bit b j = (if i \<le> j \<and> j < i + unat n then True else bm_bit (va_bits pf s) j))"
proof -
  let ?b = "va_bits pf s" and ?n = "unat n"
  have wf: "bm_wf ?b" and guard: "btmp_bytes_len ?b < length (bits ?b)" using inv by (simp_all add: va_inv_def)
  have n0: "0 < ?n" using n by (simp add: unat_gt_0)
  have ex: "\<exists>i. va_run pf ?n s i" using run by blast
  define i where "i = (LEAST i. va_run pf ?n s i)"
  have i: "va_run pf ?n s i" unfolding i_def using ex by (rule LeastI_ex)
  have least: "\<not> run_at ?b ?n j" if "j < i" for j
    using not_less_Least [of j "va_run pf ?n s"] that i by (auto simp: i_def va_run_def)
  have free: "\<exists>j < bm_size ?b. \<not> bm_bit ?b j" using i n0 by (auto simp: va_run_def run_at_def intro!: exI [of _ i])
  have ff: "first_fit ?b ?n (if ?n = 1 then bm_size ?b else bm_size ?b + 1) = int i"
    by (rule first_fit_eqI) (use i least in \<open>auto simp: va_run_def\<close>)
  have scan: "bitmap_scan ?b ?n = Some (int i)"
    using bitmap_scan_fit [OF wf free, of ?n] guard n0 ff by simp
  obtain b where b: "bitmap_set_run ?b i ?n 1 = Some b" "bm_wf b" "bm_size b = bm_size ?b"
      "\<forall>j. bm_bit b j = (if i \<le> j \<and> j < i + ?n then (1 :: int) = 1 else bm_bit ?b j)"
    using bitmap_set_run_Some [OF wf, of i ?n 1] i by (auto simp: va_run_def)
  have len: "length (bits b) = length (bits ?b)" "btmp_bytes_len b = btmp_bytes_len ?b"
    using bitmap_set_run_length [OF b(1)] by simp_all
  have "pf = PF_USER \<longrightarrow> va_page pf i s < 0xc0000000 - PG_SIZE"
    using va_range(3) [OF inv, of i ?n] i inv n0
    by (auto simp: va_inv_def va_run_def word_less_nat_alt PG_SIZE_def)
  then have "vaddr_get pf n s = Some (va_page pf i s, set_vaddr_bitmap pf b s)"
    using scan b(1) unfolding vaddr_get_def va_bits_def Let_def
    by (simp add: va_page_def page_def)
  then show ?thesis using i b(2-4) len by (intro exI [of _ i] exI [of _ b]) simp
qed

lemma mem_inv_vaddr [simp]: "mem_inv (set_vaddr_bitmap pf b s) = mem_inv s"
proof -
  have "kernel_pool (set_vaddr_bitmap pf b s) = kernel_pool s" "user_pool (set_vaddr_bitmap pf b s) = user_pool s"
    by (cases pf; simp add: set_vaddr_bitmap_def)+
  then show ?thesis
    by (simp add: mem_inv_def pools_ok_def pool_ok_def exclusive_def unused_frame_def free_idx_def)
qed

text \<open>What an allocation of \<open>n\<close> pages at \<open>v\<close> gives: frames \<open>fs\<close> that were free, one for each page,
  and a virtual pool in which the pages are taken.\<close>

definition allocated ::
    "pool_flags \<Rightarrow> addr \<Rightarrow> u32 list \<Rightarrow> 'a mem_state_scheme \<Rightarrow> 'a mem_state_scheme \<Rightarrow> bool" where
  "allocated pf v fs s s' \<longleftrightarrow> v \<noteq> NULL \<and> page_range v (length fs) \<and>
     distinct fs \<and> set fs \<subseteq> (\<lambda>i. frame pf i s) ` free_idx pf s \<and> (\<forall>f \<in> set fs. not_free f s') \<and>
     (\<forall>i < length fs. xlat s (page v i) = None) \<and> pages_added v fs s s'"

lemma va_run_free:
  assumes "va_inv pf s" "va_run pf n s i" "k < n"
  shows "xlat s (page (va_page pf i s) k) = None"
proof -
  have "i + k < bm_size (va_bits pf s)" "\<not> bm_bit (va_bits pf s) (i + k)"
    using assms(2,3) by (auto simp: va_run_def run_at_def)
  then show ?thesis using va_range(2) [OF assms(1), of i n k] assms by (auto simp: va_run_def va_inv_def)
qed

lemma va_inv_after:
  assumes va: "va_inv pf s" and run: "va_run pf n s i" and b: "bm_wf b" "bm_size b = bm_size (va_bits pf s)"
      "length (bits b) = length (bits (va_bits pf s))" "btmp_bytes_len b = btmp_bytes_len (va_bits pf s)"
      "\<forall>j. bm_bit b j = (if i \<le> j \<and> j < i + n then True else bm_bit (va_bits pf s) j)"
    and ad: "pages_added (va_page pf i s) fs (set_vaddr_bitmap pf b s) s'" and len: "length fs = n"
    and vp: "vaddr_pool pf s' = (vaddr_pool pf s)\<lparr>vaddr_bitmap := b\<rparr>"
  shows "va_inv pf s'"
proof -
  have vb: "va_bits pf s' = b" and st: "vaddr_start (vaddr_pool pf s') = vaddr_start (vaddr_pool pf s)"
    using vp by (simp_all add: va_bits_def)
  have pg: "va_page pf j s' = va_page pf j s" for j by (simp add: va_page_def st)
  note D = page_rangeD [OF va_range(1) [OF va, of 0 "bm_size (va_bits pf s)"]]
  have base: "page (va_page pf 0 s) j = va_page pf j s" for j by (simp add: va_page_def page_def)
  have "xlat s' (va_page pf j s) = None" if j: "j < bm_size b" "\<not> bm_bit b j" for j
  proof -
    have out: "\<not> (i \<le> j \<and> j < i + n)" "\<not> bm_bit (va_bits pf s) j" using b(5) j(2) by (auto split: if_splits)
    have j': "j < bm_size (va_bits pf s)" using j(1) b(2) by simp
    have "va_page pf j s \<notin> page (va_page pf i s) ` {..<length fs}"
    proof
      assume "va_page pf j s \<in> page (va_page pf i s) ` {..<length fs}"
      then obtain k where k: "k < n" "va_page pf j s = va_page pf (i + k) s"
        using va_range(2) [OF va, of i n] run len by (auto simp: va_run_def)
      then have "j = i + k" using D(3) [of j "i + k"] j' run by (simp add: base va_run_def)
      then show False using out k(1) by simp
    qed
    then have "xlat s' (va_page pf j s) = xlat s (va_page pf j s)"
      using ad D(1,2) [of j j] j' by (simp add: pages_added_def base)
    then show ?thesis using va out(2) j' by (simp add: va_inv_def)
  qed
  then show ?thesis using va b(1-4) by (simp add: va_inv_def vb st pg)
qed

lemma malloc_page_ok:
  assumes inv: "mem_inv s" and va: "va_inv pf s" and run: "va_run pf (unat n) s k" and n: "0 < n" "n < 3840"
    and room: "2 * unat n \<le> card (free_idx PF_KERNEL s)" "unat n \<le> card (free_idx pf s)"
  shows "\<exists>i b s' fs. malloc_page pf n s = Some (va_page pf i s, s') \<and> va_run pf (unat n) s i \<and>
    allocated pf (va_page pf i s) fs s s' \<and> length fs = unat n \<and> mem_inv s' \<and> va_inv pf s' \<and>
    same_but_pages (set_vaddr_bitmap pf b s) s' \<and> va_bits pf s' = b \<and> bm_wf b \<and> bm_size b = bm_size (va_bits pf s) \<and>
    (\<forall>j. bm_bit b j = (if i \<le> j \<and> j < i + unat n then True else bm_bit (va_bits pf s) j))"
proof -
  obtain i b where i: "vaddr_get pf n s = Some (va_page pf i s, set_vaddr_bitmap pf b s)" "va_run pf (unat n) s i"
      "bm_wf b" "bm_size b = bm_size (va_bits pf s)" "length (bits b) = length (bits (va_bits pf s))"
      "btmp_bytes_len b = btmp_bytes_len (va_bits pf s)"
      "\<forall>j. bm_bit b j = (if i \<le> j \<and> j < i + unat n then True else bm_bit (va_bits pf s) j)"
    using vaddr_get_ok [OF va run n(1)] by blast
  let ?s1 = "set_vaddr_bitmap pf b s" and ?v = "va_page pf i s"
  have fi: "free_idx pf' ?s1 = free_idx pf' s" for pf' by (simp add: free_idx_def)
  have inv1: "mem_inv ?s1" using inv by simp
  note R = va_range [OF va, of i "unat n"]
  have rng: "page_range ?v (unat n)" using R(1) i(2) by (simp add: va_run_def)
  have un: "\<forall>k < unat n. xlat ?s1 (page ?v k) = None" using va_run_free [OF va i(2)] by simp
  have room1: "2 * unat n \<le> card (free_idx PF_KERNEL ?s1)" "unat n \<le> card (free_idx pf ?s1)"
    using room by (simp_all add: fi)
  obtain s' fs where s': "map_pages (unat n) pf ?v ?s1 = Some (True, s')" "mem_inv s'" "same_but_pages ?s1 s'"
      "length fs = unat n" "distinct fs" "set fs \<subseteq> (\<lambda>i. frame pf i ?s1) ` free_idx pf ?s1" "pages_added ?v fs ?s1 s'"
      "\<forall>pf'. free_idx pf' s' \<subseteq> free_idx pf' ?s1" "\<forall>f \<in> set fs. not_free f s'"
    using map_pages_ok [OF inv1 rng un room1] by blast
  have v0: "?v \<noteq> NULL" using R(3) va i(2) by (auto simp: va_inv_def va_run_def)
  have "malloc_page pf n s = Some (?v, s')"
    using i(1) s'(1) n v0 by (simp add: malloc_page_def)
  moreover have "allocated pf ?v fs s s'"
    using v0 rng s'(4-7,9) un by (simp add: allocated_def fi pages_added_def)
  moreover have vb: "va_bits pf s' = b" and vp: "vaddr_pool pf s' = (vaddr_pool pf s)\<lparr>vaddr_bitmap := b\<rparr>"
    using same_but_pagesD(4) [OF s'(3)] by (simp_all add: va_bits_def)
  moreover have "va_inv pf s'"
    by (rule va_inv_after [OF va i(2-7) s'(7,4) vp]) 
  ultimately show ?thesis using i(2-4,7) s'(2,3,4) by blast
qed

subsection \<open>Giving pages back\<close>

definition unmapped_at :: "'a pg_state_scheme \<Rightarrow> 'a pg_state_scheme \<Rightarrow> u32 \<Rightarrow> bool" where
  "unmapped_at s s' v \<longleftrightarrow> (\<forall>w. mappable w \<longrightarrow> xlat s' w = (if page_of w = page_of v then None else xlat s w))"

lemma pte_remove_ok:
  assumes wf: "dir_wf (pmem s) (page_of (cr3 s))" and v: "mappable v" "xlat s v = Some p"
  shows "\<exists>e. page_table_pte_remove v s = Some (s\<lparr>pmem := (pmem s)(pte_at (pmem s) (page_of (cr3 s)) v := e)\<rparr>) \<and>
    unmapped_at s (s\<lparr>pmem := (pmem s)(pte_at (pmem s) (page_of (cr3 s)) v := e)\<rparr>) v \<and>
    dir_wf ((pmem s)(pte_at (pmem s) (page_of (cr3 s)) v := e)) (page_of (cr3 s)) \<and>
    (\<forall>x. fresh_frame (pmem s) (page_of (cr3 s)) x \<longrightarrow>
      fresh_frame ((pmem s)(pte_at (pmem s) (page_of (cr3 s)) v := e)) (page_of (cr3 s)) x)"
proof -
  let ?dir = "page_of (cr3 s)" and ?at = "pte_at (pmem s) (page_of (cr3 s)) v"
  let ?e = "pmem s ?at AND NOT PG_P_1"
  have pr: "present (pmem s (pde_at ?dir v))" using v(2) by (simp add: mmu_def split: if_splits)
  have at: "mmu (pmem s) ?dir (pte_ptr v) = Some ?at" using mmu_pte_ptr [OF wf, of v] pr by simp
  have ne: "\<not> present ?e" by (simp add: present_def PG_P_1_def and.assoc)
  have eq: "page_table_pte_remove v s = Some (s\<lparr>pmem := (pmem s)(?at := ?e)\<rparr>)"
    using at by (simp add: page_table_pte_remove_def load32_def store32_def)
  have un: "unmapped_at s (s\<lparr>pmem := (pmem s)(?at := ?e)\<rparr>) v"
    using mmu_set_pte(2) [OF wf v(1) pr, of _ ?e] ne by (simp add: unmapped_at_def mappable_def)
  have "dir_entry ((pmem s)(?at := ?e)) ?dir k = dir_entry (pmem s) ?dir k" if "k < 1024" for k
  proof -
    have "page_of (?dir + of_nat k * 4) = ?dir" using page_of_entry [OF table_index_of_nat [OF that], of "cr3 s"] by simp
    moreover have "page_of ?at \<noteq> ?dir" using frame_not_dir [OF wf v(1) pr] by (simp add: page_of_pte_at)
    ultimately show ?thesis by (auto simp: dir_entry_def)
  qed
  then have "\<forall>x. fresh_frame (pmem s) ?dir x \<longrightarrow> fresh_frame ((pmem s)(?at := ?e)) ?dir x"
    by (simp add: fresh_frame_def)
  then show ?thesis using eq un mmu_set_pte(1) [OF wf v(1) pr, of ?e] by blast
qed

lemma pfree_ok:
  assumes ok: "pools_ok s" and i: "i < bm_size (pool_bits pf s)"
  shows "\<exists>b. pfree (frame pf i s) s = Some (set_pool_bitmap pf b s) \<and> bm_wf b \<and>
    bm_size b = bm_size (pool_bits pf s) \<and> bm_bit b = (bm_bit (pool_bits pf s))(i := False)"
    and "in_pool pf (frame pf i s) s" "frame pf i s mod PG_SIZE = 0" "frame pf i s \<ge> 0x102000"
proof -
  have pk: "pool_ok pf s" using ok by (cases pf) (simp_all add: pools_ok_def)
  note u = frame_facts [OF pk i]
  have "unat (frame pf i s mod PG_SIZE) = 0"
    using u(1,2) page_aligned [of "frame pf i s"] by (simp add: unat_mod_distrib PG_SIZE_def)
  then show "frame pf i s mod PG_SIZE = 0" by (simp add: unat_eq_0)
  show "frame pf i s \<ge> 0x102000" using u(1) pk by (simp add: word_le_nat_alt pool_ok_def)
  have side: "(frame pf i s \<ge> phy_addr_start (user_pool s)) = (pf = PF_USER)"
    using u(1) i ok by (cases pf) (auto simp: word_le_nat_alt pools_ok_def mem_pool_def)
  show "in_pool pf (frame pf i s) s"
    using side u(1) by (cases pf) (auto simp: in_pool_def word_le_nat_alt word_less_nat_alt mem_pool_def)
  have idx: "unat ((frame pf i s - phy_addr_start (mem_pool pf s)) div PG_SIZE) = i"
  proof -
    have "unat (of_nat i * PG_SIZE :: u32) = i * 4096"
      using unat_page_offset [of 0 i] u(1) unsigned_less [of "frame pf i s", where 'a = nat] by simp
    then show ?thesis by (simp add: frame_def unat_div_distrib PG_SIZE_def)
  qed
  have wf: "bm_wf (pool_bits pf s)" using pk by (simp add: pool_ok_def)
  obtain b where b: "bitmap_set (pool_bits pf s) i 0 = Some b" "bm_wf b" "bm_size b = bm_size (pool_bits pf s)"
      "\<forall>j. bm_bit b j = (if j = i then (0 :: int) = 1 else bm_bit (pool_bits pf s) j)"
    using bm.put [OF wf i, of 0] by auto
  have "pfree (frame pf i s) s = Some (set_pool_bitmap pf b s)"
    using side idx b(1) by (cases pf) (simp_all add: pfree_def pool_bits_def)
  then show "\<exists>b. pfree (frame pf i s) s = Some (set_pool_bitmap pf b s) \<and> bm_wf b \<and>
      bm_size b = bm_size (pool_bits pf s) \<and> bm_bit b = (bm_bit (pool_bits pf s))(i := False)"
    using b by (intro exI [of _ b]) (auto simp: fun_eq_iff)
qed

text \<open>One turn of the loop of \<open>mfree_page\<close>.\<close>

lemma unmap_mem_inv:
  assumes inv: "mem_inv s" and un: "unmapped_at s s' v" and v: "mappable v" "xlat s v = Some (frame pf i s)"
    and i: "i < bm_size (pool_bits pf s)" and fr: "\<And>pf i. frame pf i s' = frame pf i s"
    and sz: "\<And>pf. bm_size (pool_bits pf s') = bm_size (pool_bits pf s)"
    and idx: "\<And>pf'. free_idx pf' s' \<subseteq> free_idx pf' s \<union> (if pf' = pf then {i} else {})"
    and ok: "pools_ok s'" and wf: "dir_wf (pmem s') (page_of (cr3 s'))"
    and fresh: "\<And>x. fresh_frame (pmem s) (page_of (cr3 s)) x \<Longrightarrow> fresh_frame (pmem s') (page_of (cr3 s')) x"
  shows "mem_inv s'"
proof -
  have pk: "pool_ok pf s" using inv by (cases pf) (simp_all add: mem_inv_def pools_ok_def)
  have f: "page_of (frame pf i s) = frame pf i s" using frame_facts(2) [OF pk i] .
  have ex: "exclusive s" using inv by (simp add: mem_inv_def)
  have old: "page_of w \<noteq> page_of v \<and> xlat s w = Some p" if "mappable w" "xlat s' w = Some p" for w p
    using un that by (auto simp: unmapped_at_def split: if_splits)
  have sole: "fresh_frame (pmem s) (page_of (cr3 s)) (frame pf i s)"
      "\<And>w p. mappable w \<Longrightarrow> xlat s w = Some p \<Longrightarrow> page_of p = frame pf i s \<Longrightarrow> page_of w = page_of v"
    using ex i v f unfolding exclusive_def by metis+
  have "exclusive s'"
    using ex fresh old unfolding exclusive_def sz fr by blast
  moreover have "unused_frame s' (frame pf' j s)" if j: "j \<in> free_idx pf' s'" for pf' j
  proof (cases "pf' = pf \<and> j = i")
    case True
    then show ?thesis using sole fresh old by (metis unused_frame_def)
  next
    case False
    then have "j \<in> free_idx pf' s" using j idx [of pf'] by (auto split: if_splits)
    then have "unused_frame s (frame pf' j s)" using inv by (simp add: mem_inv_def)
    then show ?thesis using fresh old unfolding unused_frame_def by blast
  qed
  ultimately show ?thesis using ok wf by (simp add: mem_inv_def fr)
qed

lemma unmap_step:
  assumes inv: "mem_inv s" and v: "mappable v" "xlat s v = Some (frame pf i s)" and i: "i < bm_size (pool_bits pf s)"
  shows "\<exists>s1 s2. pfree (frame pf i s) s = Some s1 \<and> page_table_pte_remove v s1 = Some s2 \<and> mem_inv s2 \<and>
    same_but_pages s s2 \<and> unmapped_at s s2 v \<and>
    (\<forall>pf'. free_idx pf' s2 = free_idx pf' s \<union> (if pf' = pf then {i} else {}))"
proof -
  have ok: "pools_ok s" and wf: "dir_wf (pmem s) (page_of (cr3 s))" using inv by (simp_all add: mem_inv_def)
  obtain b where b: "pfree (frame pf i s) s = Some (set_pool_bitmap pf b s)" "bm_wf b"
      "bm_size b = bm_size (pool_bits pf s)" "bm_bit b = (bm_bit (pool_bits pf s))(i := False)"
    using pfree_ok(1) [OF ok i] by blast
  let ?s1 = "set_pool_bitmap pf b s"
  have "dir_wf (pmem ?s1) (page_of (cr3 ?s1))" "xlat ?s1 v = Some (frame pf i s)" using wf v(2) by simp_all
  from pte_remove_ok [OF this(1) v(1) this(2)] obtain pm where pm:
    "page_table_pte_remove v ?s1 = Some (?s1\<lparr>pmem := pm\<rparr>)" "unmapped_at ?s1 (?s1\<lparr>pmem := pm\<rparr>) v"
    "dir_wf pm (page_of (cr3 s))" "\<And>x. fresh_frame (pmem s) (page_of (cr3 s)) x \<Longrightarrow> fresh_frame pm (page_of (cr3 s)) x"
    by auto
  let ?s2 = "?s1\<lparr>pmem := pm\<rparr>"
  have idx: "free_idx pf' ?s2 = free_idx pf' s \<union> (if pf' = pf then {i} else {})" for pf'
    using b(3,4) i by (auto simp: free_idx_def)
  have un: "unmapped_at s ?s2 v" using pm(2) by (simp add: unmapped_at_def)
  have ok2: "pools_ok ?s2"
    using ok b(2,3) by (cases pf) (auto simp: pools_ok_def pool_ok_def set_pool_bitmap_def mem_pool_def pool_bits_def)
  have "mem_inv ?s2"
    by (rule unmap_mem_inv [OF inv un v i]) (use idx ok2 pm(3,4) b(3) in auto)
  moreover have "same_but_pages s ?s2"
    using same_but_pages_trans [OF same_but_pages_set_pool [OF b(3)], of ?s2] same_but_pages_pmem by blast
  ultimately show ?thesis using b(1) pm(1) un idx by blast
qed

lemma unmap_pages_ok:
  assumes "mem_inv s" "page_range v (length js)" "\<forall>k < length js. xlat s (page v k) = Some (frame pf (js ! k) s)"
    "\<forall>j \<in> set js. j < bm_size (pool_bits pf s)"
  shows "\<exists>s'. unmap_pages (length js) pf v s = Some s' \<and> mem_inv s' \<and> same_but_pages s s' \<and>
    (\<forall>w. mappable w \<longrightarrow> xlat s' w = (if page_of w \<in> page v ` {..<length js} then None else xlat s w)) \<and>
    (\<forall>pf'. free_idx pf' s' = free_idx pf' s \<union> (if pf' = pf then set js else {}))"
  using assms
proof (induction js arbitrary: v s)
  case Nil
  then show ?case using same_but_pages_refl by auto
next
  case (Cons j js v s)
  note D = page_rangeD [OF Cons.prems(2)]
  have v: "mappable v" "page_of v = v" "xlat s v = Some (frame pf j s)" "j < bm_size (pool_bits pf s)"
    using D [of 0 0] Cons.prems(3,4) by (auto dest: spec [of _ 0])
  have wf: "dir_wf (pmem s) (page_of (cr3 s))" and ok: "pools_ok s" using Cons.prems(1) by (simp_all add: mem_inv_def)
  obtain s1 s2 where st: "pfree (frame pf j s) s = Some s1" "page_table_pte_remove v s1 = Some s2" "mem_inv s2"
      "same_but_pages s s2" "unmapped_at s s2 v" "\<forall>pf'. free_idx pf' s2 = free_idx pf' s \<union> (if pf' = pf then {j} else {})"
    using unmap_step [OF Cons.prems(1) v(1,3,4)] by blast
  have fr: "frame pf k s2 = frame pf k s" "bm_size (pool_bits pf s2) = bm_size (pool_bits pf s)" for pf k
    using same_but_pagesD(2,6) [OF st(4)] by simp_all
  have nxt: "xlat s2 (page (v + PG_SIZE) k) = Some (frame pf (js ! k) s2)" if "k < length js" for k
    using st(5) D(1,2) [of "Suc k" 0] D(3) [of "Suc k" 0] v(2) Cons.prems(3) that
    by (auto simp: unmapped_at_def page_Suc fr dest: spec [of _ "Suc k"])
  obtain s' where ih: "unmap_pages (length js) pf (v + PG_SIZE) s2 = Some s'" "mem_inv s'" "same_but_pages s2 s'"
      "\<forall>w. mappable w \<longrightarrow> xlat s' w = (if page_of w \<in> page (v + PG_SIZE) ` {..<length js} then None else xlat s2 w)"
      "\<forall>pf'. free_idx pf' s' = free_idx pf' s2 \<union> (if pf' = pf then set js else {})"
    using Cons.IH [OF st(3), of "v + PG_SIZE"] page_range_Suc [of v "length js"] Cons.prems(2,4) nxt by (auto simp: fr)
  have rng: "page v ` {..<length (j # js)} = insert v (page (v + PG_SIZE) ` {..<length js})"
    by (auto simp: page_Suc lessThan_Suc_eq_insert_0 image_image simp del: lessThan_Suc)
  have "unmap_pages (length (j # js)) pf v s = Some s'"
    using st(1,2) ih(1) pfree_ok(2,3) [OF ok v(4)] addr_v2p_mmu [OF wf v(3)] by simp
  moreover have "\<forall>w. mappable w \<longrightarrow> xlat s' w = (if page_of w \<in> page v ` {..<length (j # js)} then None else xlat s w)"
    unfolding rng using ih(4) st(5) v(2) by (auto simp: unmapped_at_def)
  moreover have "\<forall>pf'. free_idx pf' s' = free_idx pf' s \<union> (if pf' = pf then set (j # js) else {})"
    using ih(5) st(6) by auto
  ultimately show ?case using ih(2) same_but_pages_trans [OF st(4) ih(3)] by blast
qed

lemma vaddr_remove_ok:
  assumes va: "bm_wf (va_bits pf s)" "i + unat n \<le> bm_size (va_bits pf s)"
    and u: "unat (va_page pf i s) = unat (vaddr_start (vaddr_pool pf s)) + i * 4096"
  shows "\<exists>b. vaddr_remove pf (va_page pf i s) n s = Some (set_vaddr_bitmap pf b s) \<and> bm_wf b \<and>
    bm_size b = bm_size (va_bits pf s) \<and> length (bits b) = length (bits (va_bits pf s)) \<and>
    btmp_bytes_len b = btmp_bytes_len (va_bits pf s) \<and>
    (\<forall>j. bm_bit b j = (if i \<le> j \<and> j < i + unat n then False else bm_bit (va_bits pf s) j))"
proof -
  let ?st = "vaddr_start (vaddr_pool pf s)"
  have "unat (of_nat i * PG_SIZE :: u32) = i * 4096"
    using unat_page_offset [of 0 i] u unsigned_less [of "va_page pf i s", where 'a = nat] by simp
  then have idx: "unat ((va_page pf i s - ?st) div PG_SIZE) = i"
    by (simp add: va_page_def page_def unat_div_distrib PG_SIZE_def)
  obtain b where b: "bitmap_set_run (va_bits pf s) i (unat n) 0 = Some b" "bm_wf b" "bm_size b = bm_size (va_bits pf s)"
      "\<forall>j. bm_bit b j = (if i \<le> j \<and> j < i + unat n then (0 :: int) = 1 else bm_bit (va_bits pf s) j)"
    using bitmap_set_run_Some [OF va, of 0] by auto
  then show ?thesis
    using idx bitmap_set_run_length [OF b(1)]
    by (intro exI [of _ b]) (simp add: vaddr_remove_def va_bits_def Let_def)
qed

lemma mfree_page_ok:
  assumes inv: "mem_inv s" and n: "length js = unat n" "n \<ge> 1"
    and v: "v = va_page pf i s" "page_range v (unat n)" "\<forall>k < unat n. xlat s (page v k) = Some (frame own (js ! k) s)"
    and js: "\<forall>j \<in> set js. j < bm_size (pool_bits own s)"
    and va: "bm_wf (va_bits pf s)" "i + unat n \<le> bm_size (va_bits pf s)"
      "unat (va_page pf i s) = unat (vaddr_start (vaddr_pool pf s)) + i * 4096"
  shows "\<exists>s1 b. mfree_page pf v n s = Some (set_vaddr_bitmap pf b s1) \<and> mem_inv s1 \<and> same_but_pages s s1 \<and>
    (\<forall>w. mappable w \<longrightarrow> xlat s1 w = (if page_of w \<in> page v ` {..<unat n} then None else xlat s w)) \<and>
    (\<forall>pf'. free_idx pf' s1 = free_idx pf' s \<union> (if pf' = own then set js else {})) \<and>
    bm_wf b \<and> bm_size b = bm_size (va_bits pf s) \<and> length (bits b) = length (bits (va_bits pf s)) \<and>
    btmp_bytes_len b = btmp_bytes_len (va_bits pf s) \<and>
    (\<forall>j. bm_bit b j = (if i \<le> j \<and> j < i + unat n then False else bm_bit (va_bits pf s) j))"
proof -
  have ok: "pools_ok s" and wf: "dir_wf (pmem s) (page_of (cr3 s))" using inv by (simp_all add: mem_inv_def)
  have n0: "0 < unat n" using n(2) by (simp add: word_le_nat_alt)
  have j0: "js ! 0 < bm_size (pool_bits own s)" using js n n0 by simp
  have x0: "xlat s v = Some (frame own (js ! 0) s)" using v(3) n0 by (auto dest: spec [of _ 0])
  obtain s1 where s1: "unmap_pages (length js) own v s = Some s1" "mem_inv s1" "same_but_pages s s1"
      "\<forall>w. mappable w \<longrightarrow> xlat s1 w = (if page_of w \<in> page v ` {..<length js} then None else xlat s w)"
      "\<forall>pf'. free_idx pf' s1 = free_idx pf' s \<union> (if pf' = own then set js else {})"
    using unmap_pages_ok [OF inv, of v js own] v(2,3) js n(1) by auto
  note same = same_but_pagesD [OF s1(3)]
  have vb: "va_bits pf s1 = va_bits pf s" and vp: "va_page pf i s1 = v"
    using same(4) v(1) by (simp_all add: va_bits_def va_page_def)
  obtain b where b: "vaddr_remove pf v n s1 = Some (set_vaddr_bitmap pf b s1)" "bm_wf b"
      "bm_size b = bm_size (va_bits pf s)" "length (bits b) = length (bits (va_bits pf s))"
      "btmp_bytes_len b = btmp_bytes_len (va_bits pf s)"
      "\<forall>j. bm_bit b j = (if i \<le> j \<and> j < i + unat n then False else bm_bit (va_bits pf s) j)"
    using vaddr_remove_ok [of pf s1 i n] va v(1) same(4) unfolding vb vp by auto
  have "in_pool own (frame own (js ! 0) s) s" using pfree_ok(2) [OF ok j0] .
  then have own: "(if frame own (js ! 0) s \<ge> phy_addr_start (user_pool s) then PF_USER else PF_KERNEL) = own"
    by (cases own) (auto simp: in_pool_def)
  have al: "v mod PG_SIZE = 0"
  proof -
    have "unat (v mod PG_SIZE) = 0"
      using v(2) page_aligned [of v] by (simp add: unat_mod_distrib PG_SIZE_def page_range_def)
    then show ?thesis by (simp add: unat_eq_0)
  qed
  have "mfree_page pf v n s = Some (set_vaddr_bitmap pf b s1)"
    using n(2) al addr_v2p_mmu [OF wf x0] pfree_ok(3,4) [OF ok j0] own s1(1) b(1) n(1)
    by (simp add: mfree_page_def Let_def)
  then show ?thesis using s1(2-5) b(2-6) unfolding n(1) by blast
qed

lemma allocated_frames:
  assumes "allocated pf v fs s s'"
  shows "\<exists>js. length js = length fs \<and> set js \<subseteq> free_idx pf s \<and> fs = map (\<lambda>j. frame pf j s) js"
proof -
  have "\<forall>f \<in> set fs. \<exists>j. j \<in> free_idx pf s \<and> f = frame pf j s" using assms by (auto simp: allocated_def)
  then obtain g where g: "\<And>f. f \<in> set fs \<Longrightarrow> g f \<in> free_idx pf s \<and> f = frame pf (g f) s" by metis
  then have "map (\<lambda>j. frame pf j s) (map g fs) = fs" by (simp add: map_idI)
  then show ?thesis using g by (intro exI [of _ "map g fs"]) auto
qed

lemma allocated_pages:
  assumes "allocated pf v fs s s'" "k < length fs" "\<forall>f \<in> set fs. page_of f = f"
  shows "xlat s' (page v k) = Some (fs ! k)"
proof -
  have rng: "page_range v (length fs)" using assms(1) by (simp add: allocated_def)
  have pg: "page_of (page v k) = page v k" using page_rangeD(1) [OF rng assms(2,2)] .
  have "page v k AND 0xfff = 0" using page_of_idx(3) [of "page v k"] by (simp add: pg)
  then show ?thesis using assms(1,2) pg by (simp add: allocated_def pages_added_def)
qed

lemma allocated_aligned:
  assumes "allocated pf v fs s s'" "mem_inv s"
  shows "\<forall>f \<in> set fs. page_of f = f"
proof
  fix f assume "f \<in> set fs"
  then obtain j where "j < bm_size (pool_bits pf s)" "f = frame pf j s"
    using assms(1) by (auto simp: allocated_def free_idx_def)
  moreover have "pool_ok pf s" using assms(2) by (cases pf) (simp_all add: mem_inv_def pools_ok_def)
  ultimately show "page_of f = f" using frame_facts(2) by blast
qed

lemma xlat_page: "page_of w = page_of v \<Longrightarrow> xlat s w = None \<longleftrightarrow> xlat s v = None"
  by (simp add: same_page_iff mmu_def pde_at_def pte_at_def)

subsection \<open>The page tables of the loader\<close>

lemma page_of_boot [simp]: "page_of (0x100000 :: u32) = 0x100000"
  by (simp add: page_of_def)

definition loader_tables :: "'a pg_state_scheme \<Rightarrow> bool" where
  "loader_tables s \<longleftrightarrow> cr3 s = 0x100000 \<and> loader_pm (pmem s)"

definition stray_free :: "'a pg_state_scheme \<Rightarrow> bool" where
  "stray_free s \<longleftrightarrow> loader_tables s \<and> rest_absent (pmem s)"

lemma loader_pm_upd:
  assumes "loader_pm pm" "unat x < 0x100000 \<or> 0x101400 \<le> unat x"
  shows "loader_pm (pm(x := y))"
proof -
  have "dir_entry (pm(x := y)) 0x100000 i = dir_entry pm 0x100000 i" if i: "i < 1024" for i
  proof -
    have "unat (of_nat i * 4 :: u32) = i * 4" using i by (simp add: unat_word_ariths)
    then have "unat (0x100000 + of_nat i * 4 :: u32) = 0x100000 + i * 4" using i by (simp add: unat_word_ariths)
    then have "0x100000 + of_nat i * 4 \<noteq> x" using assms(2) i by auto
    then show ?thesis by (simp add: dir_entry_def)
  qed
  then show ?thesis using assms by (auto simp: loader_pm_def)
qed

lemma loader_dir: "loader_tables s \<Longrightarrow> i < 1024 \<Longrightarrow> dir_entry (pmem s) 0x100000 i = boot_pde i"
  by (simp add: loader_tables_def loader_pm_def)

lemma loader_low:
  assumes "stray_free s" "mappable w" "xlat s w = Some p"
  shows "unat (page_of p) < 0x200000"
  using loader_mapped(2) [of "pmem s" w p] assms unat_page_of [of p] by (simp add: stray_free_def loader_tables_def)

lemma loader_fresh:
  assumes "loader_tables s" "0x200000 \<le> unat f" "page_of f = f"
  shows "fresh_frame (pmem s) 0x100000 f"
  unfolding fresh_frame_def
proof (intro conjI allI impI)
  fix i assume i: "i < (1024 :: nat)"
  have "unat (page_of (boot_pde i)) < 0x200000" unfolding boot_pde_frame [OF i] using i by auto
  then show "page_of (dir_entry (pmem s) 0x100000 i) \<noteq> f" using assms(2) by (auto simp: loader_dir [OF assms(1) i])
qed (rule assms(3))

lemma loader_wf: "loader_tables s \<Longrightarrow> dir_wf (pmem s) 0x100000"
  using boot_dir_wf unfolding dir_wf_def by (simp add: loader_dir boot_dir_entry)

lemma loader_mem_inv:
  assumes "stray_free s" "pools_ok s" "0x200000 \<le> unat (phy_addr_start (kernel_pool s))"
  shows "mem_inv s"
proof -
  have tab: "loader_tables s" and c: "page_of (cr3 s) = 0x100000" using assms(1) by (simp_all add: stray_free_def loader_tables_def)
  have fr: "0x200000 \<le> unat (frame pf i s)" "page_of (frame pf i s) = frame pf i s" if "i < bm_size (pool_bits pf s)" for pf i
  proof -
    have ok: "pool_ok pf s" using assms(2) by (cases pf) (simp_all add: pools_ok_def)
    have "0x200000 \<le> unat (phy_addr_start (mem_pool pf s))"
      using assms(2,3) by (cases pf) (auto simp: pools_ok_def mem_pool_def)
    then show "0x200000 \<le> unat (frame pf i s)" using frame_facts(1) [OF ok that] by simp
    show "page_of (frame pf i s) = frame pf i s" by (rule frame_facts(2) [OF ok that])
  qed
  have low: "page_of p \<noteq> frame pf i s" if "i < bm_size (pool_bits pf s)" "mappable w" "xlat s w = Some p" for pf i w p
    using fr(1) [OF that(1)] loader_low [OF assms(1) that(2,3)] by auto
  have "exclusive s" unfolding exclusive_def using low by blast
  moreover have "unused_frame s (frame pf i s)" if "i \<in> free_idx pf s" for pf i
  proof -
    have b: "i < bm_size (pool_bits pf s)" using that by (simp add: free_idx_def)
    show ?thesis
      using loader_fresh [OF tab fr [OF b]] low [OF b] by (simp add: unused_frame_def c)
  qed
  ultimately show ?thesis using assms(2) loader_wf [OF tab] by (simp add: mem_inv_def c)
qed

subsection \<open>A small memory\<close>

text \<open>The boot page tables and pools of 16 kernel frames from 2 MiB on and 8 user frames behind them;
  the virtual pool has 16 pages.\<close>

definition demo_mem :: mem_state where
  "demo_mem = kbd_state.extend demo_kbd (mem_state.fields
     \<lparr>pool_bitmap = \<lparr>btmp_bytes_len = 2, bits = [0x01, 0, 0]\<rparr>, phy_addr_start = 0x200000,
       pool_size = 0x10000, pool_lock = 0xc0009500\<rparr>
     \<lparr>pool_bitmap = \<lparr>btmp_bytes_len = 1, bits = [0, 0]\<rparr>, phy_addr_start = 0x210000,
       pool_size = 0x8000, pool_lock = 0xc0009600\<rparr>
     \<lparr>vaddr_bitmap = \<lparr>btmp_bytes_len = 2, bits = [0x01, 0, 0]\<rparr>, vaddr_start = K_HEAP_START\<rparr>
     (\<lambda>_. \<lparr>vaddr_bitmap = \<lparr>btmp_bytes_len = 1, bits = [0, 0]\<rparr>, vaddr_start = 0x8048000\<rparr>)
     0xc0009700 (\<lambda>_. \<lparr>block_size = 16, blocks_per_arena = 255\<rparr>) (\<lambda>_. \<lparr>desc = NULL, cnt = 0, large = False\<rparr>))"

lemmas demo_mem_defs = demo_mem_def demo_kbd_def kbd_state.defs mem_state.defs dev_state.defs mem_pool_def pool_bits_def va_bits_def vaddr_pool_def

lemma demo_mem_fields [simp]:
  "pmem demo_mem = boot_pm" "cr3 demo_mem = 0x100000"
  "pool_bits PF_KERNEL demo_mem = \<lparr>btmp_bytes_len = 2, bits = [0x01, 0, 0]\<rparr>"
  "pool_bits PF_USER demo_mem = \<lparr>btmp_bytes_len = 1, bits = [0, 0]\<rparr>"
  "phy_addr_start (mem_pool PF_KERNEL demo_mem) = 0x200000" "phy_addr_start (mem_pool PF_USER demo_mem) = 0x210000"
  "phy_addr_start (kernel_pool demo_mem) = 0x200000" "phy_addr_start (user_pool demo_mem) = 0x210000"
  "vaddr_pool PF_KERNEL demo_mem = \<lparr>vaddr_bitmap = \<lparr>btmp_bytes_len = 2, bits = [0x01, 0, 0]\<rparr>, vaddr_start = K_HEAP_START\<rparr>"
  by (simp_all add: demo_mem_defs demo_dev_def demo_ioq_def demo_sync_def demo_state_def kstate.defs
      sync_state.defs ioq_state.defs)

lemma demo_mem_inv: "mem_inv demo_mem"
  by (rule loader_mem_inv)
    (simp_all add: stray_free_def loader_tables_def boot_loader pools_ok_def pool_ok_def bm_wf_def bm_size_def page_of_def)

lemma demo_va_inv: "va_inv PF_KERNEL demo_mem"
proof -
  have "xlat demo_mem (va_page PF_KERNEL i demo_mem) = None" if "i < 16" for i
  proof -
    have u: "unat (va_page PF_KERNEL i demo_mem) = 0xc0100000 + i * 4096"
      using unat_page_offset [of K_HEAP_START i] that by (simp add: va_page_def page_def K_HEAP_START_def)
    have "PDE_IDX (va_page PF_KERNEL i demo_mem) = 768" by (simp add: word_unat_eq_iff PDE_IDX_unat u) (use that in linarith)
    moreover have "unat (PTE_IDX (va_page PF_KERNEL i demo_mem)) = 256 + i"
    proof -
      have "(0xc0100000 + i * 4096) div 2 ^ 12 mod 2 ^ 10 = ((256 + i) + 768 * 1024) mod 1024" by simp
      also have "\<dots> = (256 + i) mod 1024" by (rule mod_mult_self1)
      finally show ?thesis using that by (simp add: PTE_IDX_unat u)
    qed
    ultimately show ?thesis using that by (simp add: boot_unmapped)
  qed
  then show ?thesis
    by (simp add: va_inv_def va_bits_def bm_wf_def bm_size_def K_HEAP_START_def page_of_def)
qed

lemma demo_va_run: "va_run PF_KERNEL 3 demo_mem 1"
  by (simp add: va_run_def va_bits_def bm_size_def run_at_def bm_bit_def upt_rec)

lemma demo_free: "card (free_idx PF_KERNEL demo_mem) = 15"
proof -
  let ?b = "\<lparr>btmp_bytes_len = 2, bits = [0x01, 0, 0]\<rparr>"
  have "free_idx PF_KERNEL demo_mem = set (filter (\<lambda>i. \<not> bm_bit ?b i) [0..<16])"
    by (auto simp: free_idx_def bm_size_def)
  moreover have "filter (\<lambda>i. \<not> bm_bit ?b i) [0..<16] = [1..<16]" by code_simp
  ultimately show ?thesis by simp
qed

subsection \<open>Properties\<close>

text \<open>\<open>page_table_add\<close> maps one page. In a state that satisfies the invariant, adding a mapping
  for a page that has none to a frame nobody uses returns, the page translates to the frame, every
  other page keeps its translation and the invariant holds again; when the page has no table yet,
  one is taken from the kernel pool, entered and cleared first.\<close>

theorem page_table_add_maps:
  assumes "mem_inv s" "mappable v" "xlat s v = None" "page_of f = f" "not_free f s" "unused_frame s f"
    "present (pmem s (pde_at (page_of (cr3 s)) v)) \<or> free_idx PF_KERNEL s \<noteq> {}"
  shows "\<exists>s'. page_table_add v f s = Some s' \<and> mem_inv s' \<and>
    (\<forall>w. mappable w \<longrightarrow> xlat s' w = (if page_of w = page_of v then Some (f + (w AND 0xfff)) else xlat s w))"
  using page_table_add_ok [OF assms(1-6)] assms(7) unfolding page_added_def mapped_at_def by blast

theorem page_table_add_maps_witness:
  "\<exists>s'. page_table_add 0x8048000 0x200000 demo_mem = Some s' \<and> mem_inv s' \<and>
    xlat s' 0x8048123 = Some 0x200123"
proof -
  have un: "xlat demo_mem 0x8048000 = None"
    by (simp add: mmu_def pde_at_def PDE_IDX_def boot_pm_def boot_pde_def present_def)
  have fr: "0x200000 = frame PF_KERNEL 0 demo_mem" by (simp add: frame_def)
  have nf: "not_free 0x200000 demo_mem"
    unfolding not_free_def fr
  proof (intro allI ballI notI)
    fix pf i assume i: "i \<in> free_idx pf demo_mem" and eq: "frame pf i demo_mem = frame PF_KERNEL 0 demo_mem"
    have "pf = PF_KERNEL \<and> i = 0"
      using frame_pools [of demo_mem i pf 0 PF_KERNEL] i eq demo_mem_inv by (simp add: mem_inv_def free_idx_def bm_size_def)
    then show False using i by (simp add: free_idx_def bm_bit_def)
  qed
  have uf: "unused_frame demo_mem 0x200000"
    unfolding unused_frame_def
  proof (intro conjI allI impI notI)
    show "fresh_frame (pmem demo_mem) (page_of (cr3 demo_mem)) 0x200000"
      using loader_fresh [of demo_mem "0x200000"] by (simp add: page_of_def loader_tables_def boot_loader)
    fix w p assume "mappable w" "xlat demo_mem w = Some p" and p: "page_of p = 0x200000"
    then have "unat p < 0x100000" using boot_mmu_low by simp
    then have "unat (page_of p) < 0x200000" unfolding unat_page_of by simp
    then show False using p by simp
  qed
  have free: "free_idx PF_KERNEL demo_mem \<noteq> {}" using demo_free by force
  have map: "mappable 0x8048000" "mappable 0x8048123" by (simp_all add: mappable_def PDE_IDX_def)
  have "page_of (0x8048123 :: u32) = page_of 0x8048000" "page_of (0x200000 :: u32) = 0x200000" by (simp_all add: page_of_def)
  then show ?thesis
    using page_table_add_maps [OF demo_mem_inv map(1) un _ nf uf] free map(2) by fastforce
qed

text \<open>C28: \<open>malloc_page\<close> hands out fresh pages. When the virtual pool has a run of \<open>n\<close> free pages and
  the physical pools have frames left (two kernel frames per page at worst, for page tables), the
  call returns the address of \<open>n\<close> pages that had no mapping; each is now mapped to a frame that was
  free, no two to the same frame; no other page changes its translation; the frames and the pages
  are marked as taken and the invariants of the physical and the virtual pool hold again.\<close>

theorem malloc_page_maps:
  assumes "mem_inv s" "va_inv pf s" "va_run pf (unat n) s k" "0 < n" "n < 3840"
    "2 * unat n \<le> card (free_idx PF_KERNEL s)" "unat n \<le> card (free_idx pf s)"
  shows "\<exists>v fs s'. malloc_page pf n s = Some (v, s') \<and> v \<noteq> NULL \<and> length fs = unat n \<and> distinct fs \<and>
    set fs \<subseteq> (\<lambda>i. frame pf i s) ` free_idx pf s \<and> (\<forall>f \<in> set fs. not_free f s') \<and>
    (\<forall>i < unat n. xlat s (page v i) = None \<and> xlat s' (page v i) = Some (fs ! i)) \<and>
    (\<forall>w. mappable w \<and> page_of w \<notin> page v ` {..<unat n} \<longrightarrow> xlat s' w = xlat s w) \<and>
    mem_inv s' \<and> va_inv pf s'"
proof -
  obtain i b s' fs where r: "malloc_page pf n s = Some (va_page pf i s, s')" "allocated pf (va_page pf i s) fs s s'"
      "length fs = unat n" "mem_inv s'" "va_inv pf s'"
    using malloc_page_ok [OF assms] by blast
  note pages = allocated_pages [OF r(2) _ allocated_aligned [OF r(2) assms(1)]]
  show ?thesis
    by (rule exI [of _ "va_page pf i s"], rule exI [of _ fs], rule exI [of _ s'])
      (use r pages in \<open>auto simp: allocated_def pages_added_def\<close>)
qed

theorem malloc_page_maps_witness:
  "\<exists>v fs s'. malloc_page PF_KERNEL 3 demo_mem = Some (v, s') \<and> v \<noteq> NULL \<and> length fs = 3 \<and> distinct fs \<and>
    xlat s' (page v 2) = Some (fs ! 2) \<and> mem_inv s'"
proof -
  have three: "unat (3 :: u32) = 3" by simp
  from malloc_page_maps [OF demo_mem_inv demo_va_inv, of 3 1, unfolded three, OF demo_va_run]
  obtain v fs s' where "malloc_page PF_KERNEL 3 demo_mem = Some (v, s')" "v \<noteq> NULL" "length fs = 3" "distinct fs"
      "\<forall>i < 3. xlat demo_mem (page v i) = None \<and> xlat s' (page v i) = Some (fs ! i)" "mem_inv s'"
    using demo_free by auto
  then show ?thesis by auto
qed

text \<open>C29: pages given back are as before. Freeing with \<open>mfree_page\<close> what \<open>malloc_page\<close> returned
  succeeds; every page has the translation it had before the allocation, the virtual pool is the
  same bit for bit, and all frames the pages had are free again.\<close>

theorem malloc_mfree_round_trip:
  assumes "mem_inv s" "va_inv pf s" "va_run pf (unat n) s k" "0 < n" "n < 3840"
    "2 * unat n \<le> card (free_idx PF_KERNEL s)" "unat n \<le> card (free_idx pf s)"
  shows "\<exists>v s1 s2. malloc_page pf n s = Some (v, s1) \<and> mfree_page pf v n s1 = Some s2 \<and> mem_inv s2 \<and>
    (\<forall>w. mappable w \<longrightarrow> xlat s2 w = xlat s w) \<and> bm_bit (va_bits pf s2) = bm_bit (va_bits pf s) \<and>
    (\<forall>i < unat n. \<exists>j \<in> free_idx pf s2. xlat s1 (page v i) = Some (frame pf j s2))"
proof -
  obtain i b s1 fs where r: "malloc_page pf n s = Some (va_page pf i s, s1)" "va_run pf (unat n) s i"
      "allocated pf (va_page pf i s) fs s s1" "length fs = unat n" "mem_inv s1" "va_inv pf s1"
      "same_but_pages (set_vaddr_bitmap pf b s) s1" "va_bits pf s1 = b" "bm_wf b" "bm_size b = bm_size (va_bits pf s)"
      "\<forall>j. bm_bit b j = (if i \<le> j \<and> j < i + unat n then True else bm_bit (va_bits pf s) j)"
    using malloc_page_ok [OF assms] by blast
  let ?v = "va_page pf i s"
  obtain js where js: "length js = length fs" "set js \<subseteq> free_idx pf s" "fs = map (\<lambda>j. frame pf j s) js"
    using allocated_frames [OF r(3)] by blast
  note pages = allocated_pages [OF r(3) _ allocated_aligned [OF r(3) assms(1)]]
  note same = same_but_pagesD [OF r(7)]
  have fr: "frame pf j s1 = frame pf j s" "bm_size (pool_bits pf s1) = bm_size (pool_bits pf s)" for j
    using same(2,6) by simp_all
  have vs: "vaddr_start (vaddr_pool pf s1) = vaddr_start (vaddr_pool pf s)" and vp: "va_page pf i s1 = ?v"
    using same(4) by (simp_all add: va_page_def)
  have len: "length js = unat n" "n \<ge> 1" "page_range ?v (unat n)" "\<forall>j \<in> set js. j < bm_size (pool_bits pf s1)"
    using js(1,2) r(3,4) assms(4) fr(2) by (auto simp: allocated_def free_idx_def word_le_nat_alt word_less_nat_alt)
  have mp: "\<forall>k < unat n. xlat s1 (page ?v k) = Some (frame pf (js ! k) s1)"
  proof (intro allI impI)
    fix k assume k: "k < unat n"
    then have "fs ! k = frame pf (js ! k) s" using js(1) r(4) unfolding js(3) by simp
    then show "xlat s1 (page ?v k) = Some (frame pf (js ! k) s1)" using pages [of k] k r(4) fr(1) by simp
  qed
  have wb: "bm_wf (va_bits pf s1)" "i + unat n \<le> bm_size (va_bits pf s1)"
      "unat (va_page pf i s1) = unat (vaddr_start (vaddr_pool pf s1)) + i * 4096"
    using r(2,8-10) va_range(3) [OF assms(2), of i "unat n"] by (simp_all add: va_run_def vp vs)
  obtain s2 b2 where f: "mfree_page pf ?v n s1 = Some (set_vaddr_bitmap pf b2 s2)" "mem_inv s2" "same_but_pages s1 s2"
      "\<forall>w. mappable w \<longrightarrow> xlat s2 w = (if page_of w \<in> page ?v ` {..<unat n} then None else xlat s1 w)"
      "\<forall>pf'. free_idx pf' s2 = free_idx pf' s1 \<union> (if pf' = pf then set js else {})"
      "\<forall>j. bm_bit b2 j = (if i \<le> j \<and> j < i + unat n then False else bm_bit b j)"
    using mfree_page_ok [OF r(5) len(1) len(2) vp [symmetric] len(3) mp len(4) wb] unfolding r(8) by blast
  have "xlat s2 w = xlat s w" if w: "mappable w" for w
  proof (cases "page_of w \<in> page ?v ` {..<unat n}")
    case True
    then obtain k where "k < length fs" "page_of w = page ?v k" using r(4) by auto
    then have "xlat s w = None" using r(3) xlat_page [of w "page ?v k" s]
      page_rangeD(1) [of ?v "length fs" k k] by (auto simp: allocated_def)
    then show ?thesis using f(4) w True by simp
  next
    case False
    then show ?thesis using f(4) w r(3,4) by (simp add: allocated_def pages_added_def)
  qed
  moreover have "bm_bit b2 = bm_bit (va_bits pf s)"
    using f(6) r(2,11) by (auto simp: fun_eq_iff va_run_def run_at_def)
  moreover have "\<exists>j \<in> free_idx pf s2. xlat s1 (page ?v i) = Some (frame pf j s2)" if "i < unat n" for i
  proof (rule bexI [of _ "js ! i"])
    show "xlat s1 (page ?v i) = Some (frame pf (js ! i) s2)" using mp that same_but_pagesD(2) [OF f(3)] by simp
    show "js ! i \<in> free_idx pf s2" using f(5) that len(1) by simp
  qed
  ultimately show ?thesis
    using r(1) f(1,2)
    by - (rule exI [of _ ?v], rule exI [of _ s1], rule exI [of _ "set_vaddr_bitmap pf b2 s2"],
      simp add: va_bits_def free_idx_def)
qed

theorem malloc_mfree_round_trip_witness:
  "\<exists>v s1 s2. malloc_page PF_KERNEL 3 demo_mem = Some (v, s1) \<and> mfree_page PF_KERNEL v 3 s1 = Some s2 \<and>
    mem_inv s2 \<and> xlat s2 0xc0101000 = None \<and> bm_bit (va_bits PF_KERNEL s2) = bm_bit (va_bits PF_KERNEL demo_mem)"
proof -
  have three: "unat (3 :: u32) = 3" by simp
  have "xlat demo_mem 0xc0101000 = None" by (simp add: boot_unmapped PDE_IDX_def PTE_IDX_def)
  moreover have "mappable 0xc0101000" by (simp add: mappable_def PDE_IDX_def)
  ultimately show ?thesis
    using malloc_mfree_round_trip [OF demo_mem_inv demo_va_inv, of 3 1, unfolded three, OF demo_va_run] demo_free
    by auto
qed

end
