(* ===== verification/Task.thy ===== *)
theory Task
  imports Memory_Pages Stdio
begin

text \<open>
  Creation and destruction of threads and processes: the life cycle part of \<^verbatim>\<open>thread/thread.c\<close>,
  \<^verbatim>\<open>userprog/process.c\<close>, \<^verbatim>\<open>userprog/tss.c\<close> and \<^verbatim>\<open>device/console.c\<close>.

  \<open>task_state\<close> adds the pool of process identifiers, the task state segment, the registers \<open>gdtr\<close> and
  \<open>tr\<close> and, for every process, the address of the bytes of its virtual address bitmap. Stack
  frames that the code prepares (\<open>thread_stack\<close>, \<open>intr_stack\<close>) are stored word by word through the memory
  management unit. Addresses of functions are link-time constants, collected in \<open>symbols\<close>. The pool of
  identifiers is taken with \<open>lock_now\<close>, as the memory pools are.
\<close>

unbundle bit_operations_syntax

record symbols =
  kernel_thread_sym :: addr
  start_process_sym :: addr
  idle_sym :: addr
  init_sym :: addr
  intr_exit_sym :: addr
  console_lock_sym :: addr
  tss_sym :: addr

subsection \<open>Console\<close>

definition console_init :: "addr \<Rightarrow> 'a dev_state_scheme \<Rightarrow> 'a dev_state_scheme option" where
  "console_init console_lock s = lock_init console_lock s"

definition console_acquire :: "addr \<Rightarrow> 'a dev_state_scheme \<Rightarrow> 'a dev_state_scheme option" where
  "console_acquire console_lock s = lock_now console_lock s"

definition console_release :: "addr \<Rightarrow> 'a dev_state_scheme \<Rightarrow> 'a dev_state_scheme option" where
  "console_release console_lock s = lock_release console_lock s"

definition console_put_str :: "addr \<Rightarrow> u8 list \<Rightarrow> 'a dev_state_scheme \<Rightarrow> 'a dev_state_scheme option" where
  "console_put_str console_lock str s = do {
     s \<leftarrow> console_acquire console_lock s;
     let s = put_str str s;
     console_release console_lock s
   }"

definition console_put_char :: "addr \<Rightarrow> u8 \<Rightarrow> 'a dev_state_scheme \<Rightarrow> 'a dev_state_scheme option" where
  "console_put_char console_lock char_asci s = do {
     s \<leftarrow> console_acquire console_lock s;
     let s = put_char char_asci s;
     console_release console_lock s
   }"

definition console_put_int :: "addr \<Rightarrow> u32 \<Rightarrow> 'a dev_state_scheme \<Rightarrow> 'a dev_state_scheme option" where
  "console_put_int console_lock num s = do {
     s \<leftarrow> console_acquire console_lock s;
     let s = put_int num s;
     console_release console_lock s
   }"

subsection \<open>Segments\<close>

record gdt_desc =
  limit_low_word :: u16
  base_low_word :: u16
  base_mid_byte :: u8
  attr_low_byte :: u8
  limit_high_attr_high :: u8
  base_high_byte :: u8

definition make_gdt_desc :: "addr \<Rightarrow> u32 \<Rightarrow> u8 \<Rightarrow> u8 \<Rightarrow> gdt_desc" where
  "make_gdt_desc desc_addr limit attr_low attr_high =
     \<lparr>limit_low_word = ucast (limit AND 0x0000ffff),
      base_low_word = ucast (desc_addr AND 0x0000ffff),
      base_mid_byte = ucast (drop_bit 16 (desc_addr AND 0x00ff0000)),
      attr_low_byte = attr_low,
      limit_high_attr_high = ucast (drop_bit 16 (limit AND 0x000f0000) + ucast attr_high),
      base_high_byte = ucast (drop_bit 24 desc_addr)\<rparr>"

definition GDT_ATTR_HIGH :: u8 where "GDT_ATTR_HIGH = push_bit 7 1 + push_bit 6 1 + push_bit 5 0 + push_bit 4 0"
definition GDT_CODE_ATTR_LOW_DPL3 :: u8 where "GDT_CODE_ATTR_LOW_DPL3 = push_bit 7 1 + push_bit 5 3 + push_bit 4 1 + 8"
definition GDT_DATA_ATTR_LOW_DPL3 :: u8 where "GDT_DATA_ATTR_LOW_DPL3 = push_bit 7 1 + push_bit 5 3 + push_bit 4 1 + 2"
definition TSS_ATTR_HIGH :: u8 where "TSS_ATTR_HIGH = push_bit 7 1 + push_bit 6 0 + push_bit 5 0 + push_bit 4 0 + 0"
definition TSS_ATTR_LOW :: u8 where "TSS_ATTR_LOW = push_bit 7 1 + push_bit 5 0 + push_bit 4 0 + 9"
definition SELECTOR_K_STACK :: u32 where "SELECTOR_K_STACK = push_bit 3 2 + push_bit 2 0 + 0"
definition SELECTOR_TSS :: u16 where "SELECTOR_TSS = push_bit 3 4 + push_bit 2 0 + 0"
definition SELECTOR_U_CODE :: u32 where "SELECTOR_U_CODE = push_bit 3 5 + push_bit 2 0 + 3"
definition SELECTOR_U_DATA :: u32 where "SELECTOR_U_DATA = push_bit 3 6 + push_bit 2 0 + 3"
definition EFLAGS_MBS :: u32 where "EFLAGS_MBS = push_bit 1 1"
definition EFLAGS_IF_1 :: u32 where "EFLAGS_IF_1 = push_bit 9 1"
definition EFLAGS_IOPL_0 :: u32 where "EFLAGS_IOPL_0 = push_bit 12 0"

text \<open>The 27 words of \<open>struct tss\<close>; \<open>esp0\<close>, the second, is \<open>tss_esp0\<close> of the state, and of the others only \<open>ss0\<close> and
  \<open>io_base\<close> are ever set.\<close>

record tss_struct =
  tss_ss0 :: u32
  tss_io_base :: u32
  tss_rest :: "u32 list"

record task_state = mem_state +
  pid_bitmap :: bitmap
  pid_start :: u32
  pid_lock :: addr
  user_bits :: "addr \<Rightarrow> addr"
  tss :: tss_struct
  gdtr :: u64
  tr :: u16

text \<open>A descriptor as the two words it occupies in memory.\<close>

definition gdt_lo :: "gdt_desc \<Rightarrow> u32" where
  "gdt_lo d = ucast (limit_low_word d) + push_bit 16 (ucast (base_low_word d))"

definition gdt_hi :: "gdt_desc \<Rightarrow> u32" where
  "gdt_hi d = ucast (base_mid_byte d) + push_bit 8 (ucast (attr_low_byte d)) +
     push_bit 16 (ucast (limit_high_attr_high d)) + push_bit 24 (ucast (base_high_byte d))"

definition put_gdt :: "addr \<Rightarrow> gdt_desc \<Rightarrow> 'a pg_state_scheme \<Rightarrow> 'a pg_state_scheme option" where
  "put_gdt v d s = do { s \<leftarrow> store32 v (gdt_lo d) s; store32 (v + 4) (gdt_hi d) s }"

definition tss_init :: "symbols \<Rightarrow> 'a task_state_scheme \<Rightarrow> 'a task_state_scheme option" where
  "tss_init sy s = do {
     let s = put_str (lit ''tss_init start\<newline>'') s;
     let tss_size = 108;
     let s = s\<lparr>tss_esp0 := 0, tss := \<lparr>tss_ss0 = SELECTOR_K_STACK, tss_io_base = tss_size, tss_rest = replicate 24 0\<rparr>\<rparr>;
     s \<leftarrow> put_gdt 0xc0000920 (make_gdt_desc (tss_sym sy) (tss_size - 1) TSS_ATTR_LOW TSS_ATTR_HIGH) s;
     s \<leftarrow> put_gdt 0xc0000928 (make_gdt_desc 0 0xfffff GDT_CODE_ATTR_LOW_DPL3 GDT_ATTR_HIGH) s;
     s \<leftarrow> put_gdt 0xc0000930 (make_gdt_desc 0 0xfffff GDT_DATA_ATTR_LOW_DPL3 GDT_ATTR_HIGH) s;
     Some (put_str (lit ''tss_init and ltr done\<newline>'')
       (s\<lparr>gdtr := (8 * 7 - 1) OR push_bit 16 0xc0000900, tr := SELECTOR_TSS\<rparr>))
   }"

subsection \<open>Process identifiers\<close>

definition pid_pool_init :: "'a task_state_scheme \<Rightarrow> 'a task_state_scheme option" where
  "pid_pool_init s = do {
     b \<leftarrow> bitmap_init \<lparr>btmp_bytes_len = 128, bits = replicate 128 0\<rparr>;
     lock_init (pid_lock s) (s\<lparr>pid_start := 1, pid_bitmap := b\<rparr>)
   }"

definition allocate_pid :: "'a task_state_scheme \<Rightarrow> (u16 \<times> 'a task_state_scheme) option" where
  "allocate_pid s = do {
     s \<leftarrow> lock_now (pid_lock s) s;
     bit_idx \<leftarrow> bitmap_scan (pid_bitmap s) 1;
     b \<leftarrow> (if bit_idx < 0 then None else bitmap_set (pid_bitmap s) (nat bit_idx) 1);
     s \<leftarrow> lock_release (pid_lock s) (s\<lparr>pid_bitmap := b\<rparr>);
     Some (ucast (of_int bit_idx + pid_start s), s)
   }"

definition release_pid :: "u16 \<Rightarrow> 'a task_state_scheme \<Rightarrow> 'a task_state_scheme option" where
  "release_pid p s = do {
     s \<leftarrow> lock_now (pid_lock s) s;
     let bit_idx = scast p - pid_start s;
     b \<leftarrow> bitmap_set (pid_bitmap s) (unat bit_idx) 0;
     lock_release (pid_lock s) (s\<lparr>pid_bitmap := b\<rparr>)
   }"

definition fork_pid :: "'a task_state_scheme \<Rightarrow> (u16 \<times> 'a task_state_scheme) option" where
  "fork_pid s = allocate_pid s"

subsection \<open>Threads\<close>

text \<open>Stores of words, one after the other.\<close>

primrec store_words :: "(addr \<times> u32) list \<Rightarrow> 'a pg_state_scheme \<Rightarrow> 'a pg_state_scheme option" where
  "store_words [] s = Some s"
| "store_words (w # ws) s = do { s \<leftarrow> store32 (fst w) (snd w) s; store_words ws s }"

text \<open>\<open>self_kstack\<close> has type \<open>uint32_t*\<close>, so subtracting \<open>sizeof(struct intr_stack)\<close> = 76 and
  \<open>sizeof(struct thread_stack)\<close> = 32 moves it by four times as many bytes.\<close>

definition thread_create :: "symbols \<Rightarrow> addr \<Rightarrow> addr \<Rightarrow> u32 \<Rightarrow> 'a kstate_scheme \<Rightarrow> 'a kstate_scheme option" where
  "thread_create sy pthread function func_arg s = do {
     s \<leftarrow> wr_task pthread (\<lambda>t. t\<lparr>self_kstack := self_kstack t - 4 * 76\<rparr>) s;
     s \<leftarrow> wr_task pthread (\<lambda>t. t\<lparr>self_kstack := self_kstack t - 4 * 32\<rparr>) s;
     t \<leftarrow> rd_task pthread s;
     let k = self_kstack t;
     store_words [(k + 16, kernel_thread_sym sy), (k + 24, function), (k + 28, func_arg),
       (k, 0), (k + 4, 0), (k + 12, 0), (k + 8, 0)] s
   }"

text \<open>\<open>memset(pthread, 0, sizeof(*pthread))\<close> on the typed view: the task structure, the links inside it, its
  virtual address pool and its block descriptors.\<close>

definition zero_task :: task_struct where
  "zero_task = \<lparr>self_kstack = NULL, pid = 0, status = TASK_RUNNING, name = [], priority = 0, ticks = 0,
     elapsed_ticks = 0, fd_table = replicate 8 0, pgdir = NULL, cwd_inode_nr = 0, parent_pid = 0,
     exit_status = 0, stack_magic = 0\<rparr>"

definition clear_links :: "addr list \<Rightarrow> 'a list_heap_scheme \<Rightarrow> 'a list_heap_scheme" where
  "clear_links as s =
     s\<lparr>prev_of := (\<lambda>a. if a \<in> set as then NULL else prev_of s a),
       next_of := (\<lambda>a. if a \<in> set as then NULL else next_of s a)\<rparr>"

definition desc_links :: "addr \<Rightarrow> addr list" where
  "desc_links descs = concat (map (\<lambda>i. let l = free_list (desc_at descs i) in [list_head l, list_tail l]) [0..<DESC_CNT])"

definition clear_task :: "addr \<Rightarrow> 'a task_state_scheme \<Rightarrow> 'a task_state_scheme option" where
  "clear_task p s = do {
     _ \<leftarrow> ASSERT (p \<noteq> NULL);
     let s = clear_links ([general_tag p, all_list_tag p] @ desc_links (u_block_desc p)) s;
     Some (s\<lparr>tcb := (tcb s)(p := zero_task),
       userprog_vaddr := (userprog_vaddr s)(p := \<lparr>vaddr_bitmap = \<lparr>btmp_bytes_len = 0, bits = []\<rparr>, vaddr_start = 0\<rparr>),
       user_bits := (user_bits s)(p := NULL),
       block_descs := (\<lambda>d. if d \<in> desc_at (u_block_desc p) ` {..<DESC_CNT}
         then \<lparr>block_size = 0, blocks_per_arena = 0\<rparr> else block_descs s d)\<rparr>)
   }"

definition init_thread :: "addr \<Rightarrow> string \<Rightarrow> u32 \<Rightarrow> 'a task_state_scheme \<Rightarrow> 'a task_state_scheme option" where
  "init_thread pthread nm prio s = do {
     s \<leftarrow> clear_task pthread s;
     (p, s) \<leftarrow> allocate_pid s;
     _ \<leftarrow> ASSERT (length nm < 16);
     wr_task pthread (\<lambda>t. t\<lparr>pid := p, name := nm,
       status := (if pthread = main_thread s then TASK_RUNNING else TASK_READY),
       self_kstack := pthread + PG_SIZE, priority := ucast prio, ticks := ucast prio, elapsed_ticks := 0,
       pgdir := NULL, fd_table := [0, 1, 2] @ replicate 5 (-1), cwd_inode_nr := 0, stack_magic := 0x19870916\<rparr>) s
   }"

text \<open>Putting a new task on the two queues, each time checking that it is not there.\<close>

definition enqueue_task :: "addr \<Rightarrow> 'a kstate_scheme \<Rightarrow> 'a kstate_scheme option" where
  "enqueue_task p s = do {
     found \<leftarrow> elem_find (thread_ready_list s) (general_tag p) s;
     _ \<leftarrow> ASSERT (\<not> found);
     s \<leftarrow> list_append (thread_ready_list s) (general_tag p) s;
     found \<leftarrow> elem_find (thread_all_list s) (all_list_tag p) s;
     _ \<leftarrow> ASSERT (\<not> found);
     list_append (thread_all_list s) (all_list_tag p) s
   }"

definition thread_start ::
    "symbols \<Rightarrow> string \<Rightarrow> u32 \<Rightarrow> addr \<Rightarrow> u32 \<Rightarrow> 'a task_state_scheme \<Rightarrow> (addr \<times> 'a task_state_scheme) option" where
  "thread_start sy nm prio function func_arg s = do {
     (p, s) \<leftarrow> get_kernel_pages 1 s;
     s \<leftarrow> init_thread p nm prio s;
     s \<leftarrow> thread_create sy p function func_arg s;
     s \<leftarrow> enqueue_task p s;
     Some (p, s)
   }"

definition make_main_thread :: "'a task_state_scheme \<Rightarrow> 'a task_state_scheme option" where
  "make_main_thread s = do {
     let s = s\<lparr>main_thread := running_thread s\<rparr>;
     s \<leftarrow> init_thread (main_thread s) ''main'' 31 s;
     found \<leftarrow> elem_find (thread_all_list s) (all_list_tag (main_thread s)) s;
     _ \<leftarrow> ASSERT (\<not> found);
     list_append (thread_all_list s) (all_list_tag (main_thread s)) s
   }"

text \<open>\<open>pid_check\<close> compares a sign-extended \<open>pid_t\<close> with an \<open>int32_t\<close>.\<close>

definition pid_check :: "addr \<Rightarrow> u32 \<Rightarrow> 'a kstate_scheme \<Rightarrow> (bool \<times> 'a kstate_scheme) option" where
  "pid_check pelem p s = do {
     t \<leftarrow> rd_task (all_list_tag_entry pelem) s;
     Some (scast (pid t) = p, s)
   }"

definition pid2thread :: "u32 \<Rightarrow> 'a kstate_scheme \<Rightarrow> (addr \<times> 'a kstate_scheme) option" where
  "pid2thread p s = do {
     (pelem, s) \<leftarrow> list_traversal (thread_all_list s) pid_check p s;
     Some (if pelem = NULL then NULL else all_list_tag_entry pelem, s)
   }"

text \<open>\<open>thread_exit\<close> up to the optional call of \<open>schedule\<close>, which does not come back.\<close>

definition thread_reap :: "addr \<Rightarrow> 'a task_state_scheme \<Rightarrow> 'a task_state_scheme option" where
  "thread_reap thread_over s = do {
     let s = snd (intr_disable s);
     s \<leftarrow> wr_task thread_over (\<lambda>t. t\<lparr>status := TASK_DIED\<rparr>) s;
     found \<leftarrow> elem_find (thread_ready_list s) (general_tag thread_over) s;
     s \<leftarrow> (if found then list_remove (general_tag thread_over) s else Some s);
     t \<leftarrow> rd_task thread_over s;
     s \<leftarrow> (if pgdir t \<noteq> NULL then mfree_page PF_KERNEL (pgdir t) 1 s else Some s);
     s \<leftarrow> list_remove (all_list_tag thread_over) s;
     s \<leftarrow> (if thread_over \<noteq> main_thread s then mfree_page PF_KERNEL thread_over 1 s else Some s);
     t \<leftarrow> rd_task thread_over s;
     release_pid (pid t) s
   }"

definition thread_exit :: "addr \<Rightarrow> bool \<Rightarrow> 'a task_state_scheme \<Rightarrow> 'a task_state_scheme option" where
  "thread_exit thread_over need_schedule s = do {
     s \<leftarrow> thread_reap thread_over s;
     if need_schedule then schedule s else Some s
   }"

subsection \<open>Processes\<close>

definition default_prio :: u32 where "default_prio = 31"
definition USER_STACK3_VADDR :: addr where "USER_STACK3_VADDR = 0xc0000000 - 0x1000"
definition USER_VADDR_START :: addr where "USER_VADDR_START = 0x8048000"

text \<open>\<open>start_process\<close> ends with a jump to \<open>intr_exit\<close> with the stack pointer at the prepared frame.\<close>

definition start_process :: "addr \<Rightarrow> 'a task_state_scheme \<Rightarrow> 'a task_state_scheme option" where
  "start_process function s = do {
     let cur = running_thread s;
     s \<leftarrow> wr_task cur (\<lambda>t. t\<lparr>self_kstack := self_kstack t + 4 * 32\<rparr>) s;
     t \<leftarrow> rd_task cur s;
     let k = self_kstack t;
     s \<leftarrow> store_words [(k + 16, 0), (k + 12, 0), (k + 8, 0), (k + 4, 0),
       (k + 32, 0), (k + 28, 0), (k + 24, 0), (k + 20, 0), (k + 36, 0),
       (k + 40, SELECTOR_U_DATA), (k + 44, SELECTOR_U_DATA), (k + 48, SELECTOR_U_DATA),
       (k + 56, function), (k + 60, SELECTOR_U_CODE),
       (k + 64, EFLAGS_IOPL_0 OR EFLAGS_MBS OR EFLAGS_IF_1)] s;
     (stack, s) \<leftarrow> get_a_page PF_USER USER_STACK3_VADDR s;
     s \<leftarrow> store_words [(k + 68, stack + PG_SIZE), (k + 72, SELECTOR_U_DATA)] s;
     Some (s\<lparr>esp := k\<rparr>)
   }"

text \<open>\<open>memcpy\<close> of \<open>n\<close> words, read and written through the memory management unit.\<close>

primrec copy_words :: "nat \<Rightarrow> addr \<Rightarrow> addr \<Rightarrow> 'a pg_state_scheme \<Rightarrow> 'a pg_state_scheme option" where
  "copy_words 0 dst src s = Some s"
| "copy_words (Suc n) dst src s = do {
     w \<leftarrow> load32 src s;
     s \<leftarrow> store32 dst w s;
     copy_words n (dst + 4) (src + 4) s
   }"

definition create_page_dir :: "symbols \<Rightarrow> 'a mem_state_scheme \<Rightarrow> (addr \<times> 'a mem_state_scheme) option" where
  "create_page_dir sy s = do {
     (page_dir_vaddr, s) \<leftarrow> get_kernel_pages 1 s;
     if page_dir_vaddr = NULL then do {
       s \<leftarrow> console_put_str (console_lock_sym sy) (map char_code ''create_page_dir: get_kernel_pages failed!'') s;
       Some (NULL, s)
     } else do {
       s \<leftarrow> copy_words 256 (page_dir_vaddr + 0x300 * 4) (0xfffff000 + 0x300 * 4) s;
       new_page_dir_phy_addr \<leftarrow> addr_v2p page_dir_vaddr s;
       s \<leftarrow> store32 (page_dir_vaddr + 4 * 1023) (new_page_dir_phy_addr OR PG_US_U OR PG_RW_W OR PG_P_1) s;
       Some (page_dir_vaddr, s)
     }
   }"

definition user_bitmap_bytes :: u32 where
  "user_bitmap_bytes = (0xc0000000 - USER_VADDR_START) div PG_SIZE div 8"

definition create_user_vaddr_bitmap :: "addr \<Rightarrow> 'a task_state_scheme \<Rightarrow> 'a task_state_scheme option" where
  "create_user_vaddr_bitmap user_prog s = do {
     let bitmap_pg_cnt = DIV_ROUND_UP user_bitmap_bytes PG_SIZE;
     (p, s) \<leftarrow> get_kernel_pages bitmap_pg_cnt s;
     _ \<leftarrow> ASSERT (p \<noteq> NULL);
     b \<leftarrow> bitmap_init \<lparr>btmp_bytes_len = unat user_bitmap_bytes, bits = replicate (unat (bitmap_pg_cnt * PG_SIZE)) 0\<rparr>;
     Some (s\<lparr>user_bits := (user_bits s)(user_prog := p),
       userprog_vaddr := (userprog_vaddr s)(user_prog := \<lparr>vaddr_bitmap = b, vaddr_start = USER_VADDR_START\<rparr>)\<rparr>)
   }"

definition process_execute :: "symbols \<Rightarrow> addr \<Rightarrow> string \<Rightarrow> 'a task_state_scheme \<Rightarrow> 'a task_state_scheme option" where
  "process_execute sy filename nm s = do {
     (p, s) \<leftarrow> get_kernel_pages 1 s;
     s \<leftarrow> init_thread p nm default_prio s;
     s \<leftarrow> create_user_vaddr_bitmap p s;
     s \<leftarrow> thread_create sy p (start_process_sym sy) filename s;
     (dir, s) \<leftarrow> create_page_dir sy s;
     s \<leftarrow> wr_task p (\<lambda>t. t\<lparr>pgdir := dir\<rparr>) s;
     s \<leftarrow> block_desc_init (u_block_desc p) s;
     let (old_status, s) = intr_disable s;
     s \<leftarrow> enqueue_task p s;
     Some (snd (intr_set_status old_status s))
   }"

definition thread_init :: "symbols \<Rightarrow> 'a task_state_scheme \<Rightarrow> 'a task_state_scheme option" where
  "thread_init sy s = do {
     let s = put_str (lit ''thread_init start\<newline>'') s;
     s \<leftarrow> list_init (thread_ready_list s) s;
     s \<leftarrow> list_init (thread_all_list s) s;
     s \<leftarrow> pid_pool_init s;
     s \<leftarrow> process_execute sy (init_sym sy) ''init'' s;
     s \<leftarrow> make_main_thread s;
     (p, s) \<leftarrow> thread_start sy ''idle'' 10 (idle_sym sy) NULL s;
     Some (put_str (lit ''thread_init done\<newline>'') (s\<lparr>idle_thread := p\<rparr>))
   }"

subsection \<open>The pool of identifiers\<close>

lemma ucast_of_nat_32_16: "ucast (of_nat k :: u32) = (of_nat k :: u16)"
  by (simp add: word_eq_iff_unsigned [where 'a = nat] unsigned_ucast_eq unsigned_of_nat)

lemma scast_of_nat_16_32:
  assumes "k < 32768"
  shows "scast (of_nat k :: u16) = (of_nat k :: u32)"
proof -
  have "sint (of_nat k :: u16) = int k"
    using assms by (simp add: signed_of_nat signed_take_bit_int_eq_self)
  then have "scast (of_nat k :: u16) = (of_int (int k) :: u32)" by (simp only: scast_eq)
  then show ?thesis by simp
qed

lemma lock_now_free: "lock_free L s \<Longrightarrow> running_thread s \<noteq> NULL \<Longrightarrow> lock_now L s = Some (take_lock L s)"
  by (simp add: lock_now_def lock_acquire_free)

text \<open>Unlocking a lock that was idle before it was taken gives the state before; a change in between stays.\<close>

lemma release_taken:
  assumes "lock_idle L s"
  shows "lock_release L (take_lock L s) = Some s"
proof -
  have "list_empty (lock_waiters L) (take_lock L s) = Some True"
    using assms list_empty_cong [of "take_lock L s" s]
    by (simp add: lock_idle_def take_lock_def set_repeat_def set_holder_def set_value_def)
  then have "lock_release L (take_lock L s) = Some (drop_lock L (take_lock L s))"
    by (intro lock_release_alone) (simp_all add: take_lock_def set_repeat_def set_holder_def set_value_def running_thread_def)
  then show ?thesis using assms by (simp add: drop_take_lock lock_idle_def)
qed

lemma locked_pid_update:
  assumes "lock_idle L s"
  shows "lock_release L ((take_lock L s)\<lparr>pid_bitmap := b\<rparr>) = Some (s\<lparr>pid_bitmap := b\<rparr>)"
proof -
  let ?s = "s\<lparr>pid_bitmap := b\<rparr>"
  have "(take_lock L s)\<lparr>pid_bitmap := b\<rparr> = take_lock L ?s"
    by (simp add: take_lock_def set_repeat_def set_holder_def set_value_def running_thread_def)
  moreover have "lock_idle L ?s"
    using assms list_empty_cong [of ?s s] by (simp add: lock_idle_def lock_free_def)
  ultimately show ?thesis using release_taken [of L ?s] by simp
qed

lemma pid_take_lock [simp]: "pid_bitmap (take_lock L s) = pid_bitmap s" "pid_start (take_lock L s) = pid_start s"
  "pid_lock (take_lock L s) = pid_lock s"
  by (simp_all add: take_lock_def set_repeat_def set_holder_def set_value_def)

definition pid_pool_ok :: "'a task_state_scheme \<Rightarrow> bool" where
  "pid_pool_ok s \<longleftrightarrow> bm_wf (pid_bitmap s) \<and> bm_size (pid_bitmap s) = 1024 \<and> pid_start s = 1 \<and>
     lock_idle (pid_lock s) s \<and> running_thread s \<noteq> NULL"

lemma pid_pool_ok_update:
  assumes "pid_pool_ok s" "bm_wf b" "bm_size b = 1024"
  shows "pid_pool_ok (s\<lparr>pid_bitmap := b\<rparr>)"
  using assms list_empty_cong [of "s\<lparr>pid_bitmap := b\<rparr>" s]
  by (simp add: pid_pool_ok_def lock_idle_def lock_free_def running_thread_def)

lemma allocate_pid_ok:
  assumes "pid_pool_ok s" "i < 1024" "\<not> bm_bit (pid_bitmap s) i"
  shows "\<exists>j b. allocate_pid s = Some (of_nat (j + 1), s\<lparr>pid_bitmap := b\<rparr>) \<and> j < 1024 \<and> \<not> bm_bit (pid_bitmap s) j \<and>
    (\<forall>k < j. bm_bit (pid_bitmap s) k) \<and> bm_wf b \<and> bm_size b = 1024 \<and> bm_bit b = (bm_bit (pid_bitmap s))(j := True)"
proof -
  note ok = assms(1) [unfolded pid_pool_ok_def]
  obtain j b where j: "bit_alloc bitmap_scan bitmap_set (pid_bitmap s) = Some (int j, b)" "j < 1024"
      "\<not> bm_bit (pid_bitmap s) j" "\<forall>k < j. bm_bit (pid_bitmap s) k" "bm_wf b" "bm_size b = 1024"
      "bm_bit b = (bm_bit (pid_bitmap s))(j := True)"
    using bm.alloc_free [of "pid_bitmap s"] ok assms(2,3) by auto
  then have sc: "bitmap_scan (pid_bitmap s) 1 = Some (int j)" "bitmap_set (pid_bitmap s) j 1 = Some b"
    by (auto simp: bit_alloc_def bind_eq_Some_conv split: if_splits)
  have "lock_now (pid_lock s) s = Some (take_lock (pid_lock s) s)"
    using ok by (intro lock_now_free) (simp_all add: lock_idle_def)
  moreover have "ucast (of_int (int j) + 1 :: u32) = (of_nat (j + 1) :: u16)"
  proof -
    have "(of_int (int j) + 1 :: u32) = of_nat (j + 1)" by simp
    then show ?thesis by (simp only: ucast_of_nat_32_16)
  qed
  ultimately have "allocate_pid s = Some (of_nat (j + 1), s\<lparr>pid_bitmap := b\<rparr>)"
    using ok sc by (simp add: allocate_pid_def locked_pid_update)
  with j(2-) show ?thesis by blast
qed

lemma release_pid_ok:
  assumes "pid_pool_ok s" "j < 1024"
  shows "\<exists>b. release_pid (of_nat (j + 1)) s = Some (s\<lparr>pid_bitmap := b\<rparr>) \<and> bm_wf b \<and> bm_size b = 1024 \<and>
    bm_bit b = (bm_bit (pid_bitmap s))(j := False)"
proof -
  note ok = assms(1) [unfolded pid_pool_ok_def]
  obtain b where b: "bitmap_set (pid_bitmap s) j 0 = Some b" "bm_wf b" "bm_size b = 1024"
      "\<forall>k. bm_bit b k = (if k = j then (0 :: int) = 1 else bm_bit (pid_bitmap s) k)"
    using bm.put [of "pid_bitmap s" j 0] ok assms(2) by auto
  have l: "lock_now (pid_lock s) s = Some (take_lock (pid_lock s) s)"
    using ok by (intro lock_now_free) (simp_all add: lock_idle_def)
  have "scast (of_nat (j + 1) :: u16) - 1 = (of_nat j :: u32)"
  proof -
    have "scast (of_nat (j + 1) :: u16) = (of_nat (j + 1) :: u32)"
      using assms(2) by (intro scast_of_nat_16_32) simp
    then show ?thesis by simp
  qed
  then have "unat (scast (of_nat (j + 1) :: u16) - 1 :: u32) = j" using assms(2) by (simp only: unat_of_nat32)
  then have "release_pid (of_nat (j + 1)) s = Some (s\<lparr>pid_bitmap := b\<rparr>)"
    using ok b(1) l by (simp add: release_pid_def locked_pid_update)
  moreover have "bm_bit b = (bm_bit (pid_bitmap s))(j := False)" using b(4) by (simp add: fun_eq_iff)
  ultimately show ?thesis using b(2,3) by blast
qed

text \<open>A state with a fresh pool of identifiers, its lock idle.\<close>

definition demo_task :: task_state where
  "demo_task = (mem_state.extend demo_mem (task_state.fields
     \<lparr>btmp_bytes_len = 128, bits = replicate 128 0\<rparr> 1 0xc000a000 (\<lambda>_. NULL)
     \<lparr>tss_ss0 = 0, tss_io_base = 0, tss_rest = []\<rparr> 0 0))
     \<lparr>next_of := (\<lambda>_. list_tail (lock_waiters 0xc000a000)), sema_value := (\<lambda>_. 1),
      lock_holder := (\<lambda>_. NULL), lock_repeat := (\<lambda>_. 0), esp := 0xc009f000\<rparr>"

lemma demo_pid_pool: "pid_pool_ok demo_task" "\<not> bm_bit (pid_bitmap demo_task) 0"
proof -
  have "list_head (lock_waiters 0xc000a000) \<noteq> NULL" by (simp add: list_head_def sema_waiters_def lock_sema_def)
  then show "pid_pool_ok demo_task"
    by (simp add: pid_pool_ok_def demo_task_def mem_state.defs task_state.defs bm_wf_def bm_size_def lock_idle_def
        lock_free_def list_empty_def rd_next_def running_thread_def)
  show "\<not> bm_bit (pid_bitmap demo_task) 0"
    by (simp add: demo_task_def mem_state.defs task_state.defs bm_bit_def)
qed

text \<open>C38: process identifiers are unique and come back. When an identifier is free, \<open>allocate_pid\<close> returns the least one between 1
  and 1024 that is free; a second call before its release returns a different one; \<open>release_pid\<close> restores the pool.\<close>

theorem pid_unique:
  assumes "pid_pool_ok s" "i < 1024" "\<not> bm_bit (pid_bitmap s) i"
  shows "\<exists>j s1 s2. allocate_pid s = Some (of_nat (j + 1), s1) \<and> j < 1024 \<and> \<not> bm_bit (pid_bitmap s) j \<and>
    (\<forall>k < j. bm_bit (pid_bitmap s) k) \<and> (\<forall>p s'. allocate_pid s1 = Some (p, s') \<longrightarrow> p \<noteq> of_nat (j + 1)) \<and>
    release_pid (of_nat (j + 1)) s1 = Some s2 \<and> bm_bit (pid_bitmap s2) = bm_bit (pid_bitmap s) \<and> pid_pool_ok s2"
proof -
  obtain j b where j: "allocate_pid s = Some (of_nat (j + 1), s\<lparr>pid_bitmap := b\<rparr>)" "j < 1024" "\<not> bm_bit (pid_bitmap s) j"
      "bm_wf b" "bm_size b = 1024" "bm_bit b = (bm_bit (pid_bitmap s))(j := True)" "\<forall>k < j. bm_bit (pid_bitmap s) k"
    using allocate_pid_ok [OF assms] by blast
  let ?s1 = "s\<lparr>pid_bitmap := b\<rparr>"
  have ok1: "pid_pool_ok ?s1" by (rule pid_pool_ok_update [OF assms(1) j(4,5)])
  have "p \<noteq> of_nat (j + 1)" if "allocate_pid ?s1 = Some (p, s')" for p s'
  proof (cases "\<exists>k < 1024. \<not> bm_bit b k")
    case True
    then obtain k where "k < 1024" "\<not> bm_bit (pid_bitmap ?s1) k" by auto
    from allocate_pid_ok [OF ok1 this] that obtain k where k: "p = of_nat (k + 1)" "k < 1024" "\<not> bm_bit b k" by auto
    have "k \<noteq> j" using k(3) j(6) by auto
    moreover have "unat (of_nat (m + 1) :: u16) = m + 1" if "m < 1024" for m
      using that by (simp add: unsigned_of_nat take_bit_nat_eq_self del: of_nat_Suc)
    ultimately show ?thesis using k(1,2) j(2) by (metis add_right_cancel)
  next
    case False
    then have "bitmap_scan b 1 = None" using bm.scan_full [of b] j(5) by auto
    moreover have "lock_now (pid_lock ?s1) ?s1 = Some (take_lock (pid_lock ?s1) ?s1)"
      using ok1 by (intro lock_now_free) (simp_all add: pid_pool_ok_def lock_idle_def)
    ultimately show ?thesis using that by (simp add: allocate_pid_def)
  qed
  moreover obtain b2 where b2: "release_pid (of_nat (j + 1)) ?s1 = Some (?s1\<lparr>pid_bitmap := b2\<rparr>)" "bm_wf b2" "bm_size b2 = 1024"
      "bm_bit b2 = (bm_bit b)(j := False)"
    using release_pid_ok [OF ok1 j(2)] by auto
  moreover have "bm_bit b2 = bm_bit (pid_bitmap s)" using b2(4) j(3,6) by (auto simp: fun_eq_iff)
  moreover have "pid_pool_ok (?s1\<lparr>pid_bitmap := b2\<rparr>)" by (rule pid_pool_ok_update [OF ok1 b2(2,3)])
  moreover have "pid_bitmap (?s1\<lparr>pid_bitmap := b2\<rparr>) = b2" by simp
  ultimately show ?thesis using j(1-3,7) by metis
qed

theorem pid_unique_witness:
  "\<exists>s1 s2. allocate_pid demo_task = Some (1, s1) \<and> release_pid 1 s1 = Some s2 \<and> pid_pool_ok s2"
  using pid_unique [OF demo_pid_pool(1) _ demo_pid_pool(2)] demo_pid_pool(2) by (metis add_0 of_nat_1 zero_less_numeral gr0I)

end
