(* ===== verification/Page_Data.thy ===== *)
theory Page_Data
  imports Task
begin

text \<open>
  The contents of pages. Writing to a frame that is neither the page directory nor a page table
  changes no translation (\<open>data_frame\<close>), so the invariant of \<open>Memory_Pages\<close> survives; with it
  \<open>get_pages\<close> is followed through its lock (\<open>get_pages_ok\<close>) and the page directory of a new process is shown to share the kernel half of
  the current one (\<open>create_page_dir_shares\<close>).
\<close>

unbundle bit_operations_syntax

subsection \<open>Writing data\<close>

lemma data_frame:
  assumes wf: "dir_wf pm dir" and fr: "fresh_frame pm dir f" and eq: "\<And>a. page_of a \<noteq> f \<Longrightarrow> pm' a = pm a"
  shows "i < 1024 \<Longrightarrow> dir_entry pm' dir i = dir_entry pm dir i" "mmu pm' dir w = mmu pm dir w"
    "dir_wf pm' dir" "fresh_frame pm' dir g = fresh_frame pm dir g"
proof -
  have dd: "page_of dir = dir" and df: "dir \<noteq> f"
    using wf fr by (auto simp: dir_wf_def fresh_frame_def)
  have e: "dir_entry pm' dir i = dir_entry pm dir i" if "i < 1024" for i
  proof -
    have "page_of (dir + of_nat i * 4) = dir"
      using page_of_entry [OF table_index_of_nat [OF that], of dir] dd by simp
    then show ?thesis using eq df by (simp add: dir_entry_def)
  qed
  then show "i < 1024 \<Longrightarrow> dir_entry pm' dir i = dir_entry pm dir i" .
  have p: "pm' (pde_at dir w) = pm (pde_at dir w)" using e [OF PDE_IDX_less(1)] by (simp add: pde_at_entry)
  have "pm' (pte_at pm dir w) = pm (pte_at pm dir w)" if "present (pm (pde_at dir w))"
  proof (rule eq)
    show "page_of (pte_at pm dir w) \<noteq> f"
      using fr that PDE_IDX_less(1) [of w] by (simp add: page_of_pte_at fresh_frame_def pde_at_entry)
  qed
  moreover have "pte_at pm' dir w = pte_at pm dir w" by (simp add: pte_at_def p)
  ultimately show "mmu pm' dir w = mmu pm dir w"
    by (cases "present (pm (pde_at dir w))") (simp_all add: mmu_def p)
  show "dir_wf pm' dir" using wf e by (simp add: dir_wf_def)
  show "fresh_frame pm' dir g = fresh_frame pm dir g" using e by (simp add: fresh_frame_def)
qed

lemma mem_inv_data:
  assumes inv: "mem_inv s" and fr: "fresh_frame (pmem s) (page_of (cr3 s)) f"
    and eq: "\<And>a. page_of a \<noteq> f \<Longrightarrow> pm' a = pmem s a"
  shows "mem_inv (s\<lparr>pmem := pm'\<rparr>)" "xlat (s\<lparr>pmem := pm'\<rparr>) w = xlat s w"
proof -
  have wf: "dir_wf (pmem s) (page_of (cr3 s))" using inv by (simp add: mem_inv_def)
  note D = data_frame [OF wf fr eq]
  show x: "xlat (s\<lparr>pmem := pm'\<rparr>) w = xlat s w" for w using D(2) by simp
  let ?s = "s\<lparr>pmem := pm'\<rparr>"
  have pl: "pool_bits pf ?s = pool_bits pf s" "frame pf i ?s = frame pf i s" "mem_pool pf ?s = mem_pool pf s"
    "free_idx pf ?s = free_idx pf s" for pf i
    by (simp_all add: free_idx_def)
  have "pools_ok ?s" using inv by (simp add: mem_inv_def pools_ok_def pool_ok_def)
  moreover have "dir_wf (pmem ?s) (page_of (cr3 ?s))" using D(3) by simp
  moreover have e: "mmu (pmem ?s) (page_of (cr3 ?s)) = mmu (pmem s) (page_of (cr3 s))"
      "fresh_frame (pmem ?s) (page_of (cr3 ?s)) = fresh_frame (pmem s) (page_of (cr3 s))"
    using D(2,4) by (simp_all add: fun_eq_iff)
  have "exclusive ?s = exclusive s" by (simp only: exclusive_def pl e)
  moreover have "unused_frame ?s g = unused_frame s g" for g by (simp only: unused_frame_def e)
  then have "(\<forall>pf. \<forall>i \<in> free_idx pf ?s. unused_frame ?s (frame pf i ?s)) =
      (\<forall>pf. \<forall>i \<in> free_idx pf s. unused_frame s (frame pf i s))" by (simp only: pl)
  ultimately show "mem_inv ?s" using inv unfolding mem_inv_def by blast
qed

lemma pmem_free_idx: "free_idx pf (s\<lparr>pmem := pm\<rparr>) = free_idx pf s"
  by (simp add: free_idx_def)

lemma va_inv_data:
  assumes "\<And>w. xlat (s\<lparr>pmem := pm'\<rparr>) w = xlat s w"
  shows "va_inv pf (s\<lparr>pmem := pm'\<rparr>) = va_inv pf s"
proof -
  have "vaddr_pool pf (s\<lparr>pmem := pm'\<rparr>) = vaddr_pool pf s"
    by (simp add: vaddr_pool_def running_thread_def split: pool_flags.split)
  then show ?thesis using assms by (simp add: va_inv_def va_bits_def va_page_def)
qed

text \<open>A page of the pool that is mapped can be cleared; \<open>fs\<close> are the frames of consecutive pages.\<close>

definition zero_frames :: "u32 set \<Rightarrow> (u32 \<Rightarrow> u32) \<Rightarrow> (u32 \<Rightarrow> u32)" where
  "zero_frames F pm = (\<lambda>a. if page_of a \<in> F then 0 else pm a)"

lemma zero_frames_simps:
  "zero_frames {} pm = pm" "zero_frames F (zero_frame f pm) = zero_frames (insert f F) pm"
  by (auto simp: zero_frames_def zero_frame_def)

lemma memset_pages_ok:
  assumes "mem_inv s" "\<forall>i < length fs. xlat s (page v i) = Some (fs ! i) \<and> fresh_frame (pmem s) (page_of (cr3 s)) (fs ! i)"
  shows "memset_pages (length fs) v s = Some (s\<lparr>pmem := zero_frames (set fs) (pmem s)\<rparr>) \<and>
    mem_inv (s\<lparr>pmem := zero_frames (set fs) (pmem s)\<rparr>) \<and>
    (\<forall>w. xlat (s\<lparr>pmem := zero_frames (set fs) (pmem s)\<rparr>) w = xlat s w)"
  using assms
proof (induction fs arbitrary: v s)
  case Nil
  then show ?case by (simp add: zero_frames_simps)
next
  case (Cons f fs)
  let ?pm = "zero_frame f (pmem s)" and ?dir = "page_of (cr3 s)"
  have f: "xlat s v = Some f" "fresh_frame (pmem s) ?dir f" "page_of f = f"
    using Cons.prems(2) [rule_format, of 0] by (simp_all add: fresh_frame_def)
  have z: "\<And>a. page_of a \<noteq> f \<Longrightarrow> ?pm a = pmem s a" by (simp add: zero_frame_def)
  have wf: "dir_wf (pmem s) ?dir" using Cons.prems(1) by (simp add: mem_inv_def)
  note D = data_frame [OF wf f(2) z] and M = mem_inv_data [OF Cons.prems(1) f(2) z]
  have "\<forall>i < length fs. xlat (s\<lparr>pmem := ?pm\<rparr>) (page (v + PG_SIZE) i) = Some (fs ! i) \<and>
      fresh_frame (pmem (s\<lparr>pmem := ?pm\<rparr>)) (page_of (cr3 (s\<lparr>pmem := ?pm\<rparr>))) (fs ! i)"
  proof (intro allI impI)
    fix i assume "i < length fs"
    then show "xlat (s\<lparr>pmem := ?pm\<rparr>) (page (v + PG_SIZE) i) = Some (fs ! i) \<and>
      fresh_frame (pmem (s\<lparr>pmem := ?pm\<rparr>)) (page_of (cr3 (s\<lparr>pmem := ?pm\<rparr>))) (fs ! i)"
      using Cons.prems(2) [rule_format, of "Suc i"] D(2,4) by (simp add: page_Suc)
  qed
  from Cons.IH [OF M(1) this] have
    "memset_pages (length fs) (v + PG_SIZE) (s\<lparr>pmem := ?pm\<rparr>) = Some (s\<lparr>pmem := zero_frames (set (f # fs)) (pmem s)\<rparr>)"
    "mem_inv (s\<lparr>pmem := zero_frames (set (f # fs)) (pmem s)\<rparr>)"
    "\<forall>w. xlat (s\<lparr>pmem := zero_frames (set (f # fs)) (pmem s)\<rparr>) w = xlat s w"
    using D(2) by (simp_all add: zero_frames_simps)
  moreover have "memset_page v s = Some (s\<lparr>pmem := ?pm\<rparr>)" using f by (simp add: memset_page_def)
  ultimately show ?case by simp
qed

subsection \<open>Giving back a page\<close>

text \<open>A page of a virtual pool that is mapped to a frame of the physical pool of the same name, as the page allocator hands it out.\<close>

definition owned_page :: "pool_flags \<Rightarrow> addr \<Rightarrow> 'a mem_state_scheme \<Rightarrow> bool" where
  "owned_page pf v s \<longleftrightarrow> page_range v 1 \<and> bm_wf (va_bits pf s) \<and>
     (\<exists>i < bm_size (va_bits pf s). unat v = unat (vaddr_start (vaddr_pool pf s)) + i * 4096) \<and>
     (\<exists>j < bm_size (pool_bits pf s). xlat s v = Some (frame pf j s))"

text \<open>Such a page is given back: only the page tables and the bitmaps change, the page has no translation and its frame is free, every other page is
  as it was.\<close>

definition page_freed :: "pool_flags \<Rightarrow> addr \<Rightarrow> 'a mem_state_scheme \<Rightarrow> 'a mem_state_scheme \<Rightarrow> bool" where
  "page_freed pf v s s' \<longleftrightarrow> mem_inv s' \<and> (\<exists>pm kb ub b. s' = with_pages pm kb ub (set_vaddr_bitmap pf b s)) \<and>
     (\<forall>w. mappable w \<longrightarrow> xlat s' w = (if page_of w = v then None else xlat s w)) \<and>
     (\<exists>j \<in> free_idx pf s'. xlat s v = Some (frame pf j s)) \<and> (\<forall>w. owned_page pf w s \<longrightarrow> w \<noteq> v \<longrightarrow> owned_page pf w s')"

lemma mem_cong:
  assumes "pmem s' = pmem s" "cr3 s' = cr3 s" "kernel_pool s' = kernel_pool s" "user_pool s' = user_pool s"
  shows "mem_inv s' = mem_inv s" "vaddr_pool pf s' = vaddr_pool pf s \<Longrightarrow> owned_page pf v s' = owned_page pf v s"
proof -
  have f: "mem_pool pf s' = mem_pool pf s" for pf using assms(3,4) by (cases pf) (simp_all add: mem_pool_def)
  then have g: "pool_bits pf s' = pool_bits pf s" "frame pf i s' = frame pf i s" "free_idx pf s' = free_idx pf s" for pf i
    by (simp_all add: pool_bits_def frame_def free_idx_def)
  show "mem_inv s' = mem_inv s" unfolding mem_inv_def pools_ok_def pool_ok_def exclusive_def unused_frame_def f g assms ..
  show "owned_page pf v s' = owned_page pf v s" if "vaddr_pool pf s' = vaddr_pool pf s"
    unfolding owned_page_def va_bits_def g that assms ..
qed

lemma mfree_owned:
  assumes "mem_inv s" "owned_page pf v s"
  shows "\<exists>s'. mfree_page pf v 1 s = Some s' \<and> page_freed pf v s s'"
proof -
  obtain i j where v: "page_range v 1" "bm_wf (va_bits pf s)" "i < bm_size (va_bits pf s)"
      "unat v = unat (vaddr_start (vaddr_pool pf s)) + i * 4096" "j < bm_size (pool_bits pf s)" "xlat s v = Some (frame pf j s)"
    using assms(2) by (auto simp: owned_page_def)
  have u: "unat (va_page pf i s) = unat (vaddr_start (vaddr_pool pf s)) + i * 4096"
    using unat_page_offset [of "vaddr_start (vaddr_pool pf s)" i] v(4) unsigned_less [of v, where 'a = nat] by (simp add: va_page_def page_def)
  then have vp: "v = va_page pf i s" using v(4) by (simp add: word_unat_eq_iff)
  have pg: "page v ` {..<unat (1 :: u32)} = {v}" by auto
  obtain s1 b where m: "mfree_page pf v 1 s = Some (set_vaddr_bitmap pf b s1)" "mem_inv s1" "same_but_pages s s1"
      "\<forall>w. mappable w \<longrightarrow> xlat s1 w = (if page_of w = v then None else xlat s w)"
      "\<forall>pf'. free_idx pf' s1 = free_idx pf' s \<union> (if pf' = pf then {j} else {})"
      "bm_wf b" "bm_size b = bm_size (va_bits pf s)"
    using mfree_page_ok [OF assms(1), of "[j]" 1 v pf i pf] v(1,2,3,5,6) u vp unfolding pg by auto
  let ?s' = "set_vaddr_bitmap pf b s1"
  obtain pm kb ub where e: "s1 = with_pages pm kb ub s" using m(3) by (auto simp: same_but_pages_def)
  note same = same_but_pagesD [OF m(3)]
  have "owned_page pf w ?s'" if w: "owned_page pf w s" "w \<noteq> v" for w
  proof -
    have "mappable w" "page_of w = w" using w(1) by (auto simp: owned_page_def page_range_def)
    then have "xlat ?s' w = xlat s w" using m(4) w(2) by simp
    then show ?thesis using w(1) m(6,7) same(2,4,6) unfolding owned_page_def va_bits_def by simp
  qed
  moreover have "?s' = with_pages pm kb ub (set_vaddr_bitmap pf b s)" by (simp add: e)
  moreover have "j \<in> free_idx pf ?s'" using m(5) by (simp add: free_idx_def)
  moreover have "mem_inv ?s'" "\<forall>w. mappable w \<longrightarrow> xlat ?s' w = (if page_of w = v then None else xlat s w)" using m(2,4) by simp_all
  ultimately have "page_freed pf v s ?s'" using v(6) unfolding page_freed_def by blast
  then show ?thesis using m(1) by blast
qed

lemma owned_fresh:
  assumes "mem_inv s" "owned_page pf v s" "xlat s v = Some f"
  shows "fresh_frame (pmem s) (page_of (cr3 s)) f"
proof -
  obtain j where j: "j < bm_size (pool_bits pf s)" "f = frame pf j s" using assms(2,3) by (auto simp: owned_page_def)
  have "pool_ok pf s" using assms(1) by (cases pf) (simp_all add: mem_inv_def pools_ok_def)
  then have al: "page_of f = f" using frame_facts(2) j by blast
  have "mappable v" using assms(2) by (simp add: owned_page_def page_range_def)
  then show ?thesis using assms(1,3) j al unfolding mem_inv_def exclusive_def by metis
qed

text \<open>The rest of the state stays.\<close>

lemma page_freedD:
  assumes "page_freed pf v s s'"
  shows "next_of s' = next_of s" "prev_of s' = prev_of s" "tcb s' = tcb s" "esp s' = esp s" "eflags s' = eflags s"
    "main_thread s' = main_thread s" "thread_all_list s' = thread_all_list s" "arenas s' = arenas s" "block_descs s' = block_descs s"
    "mem_state.more s' = mem_state.more s" "sema_value s' = sema_value s" "lock_holder s' = lock_holder s" "lock_repeat s' = lock_repeat s"
    "cr3 s' = cr3 s"
proof -
  obtain pm kb ub b where "s' = with_pages pm kb ub (set_vaddr_bitmap pf b s)" using assms by (auto simp: page_freed_def)
  then show "next_of s' = next_of s" "prev_of s' = prev_of s" "tcb s' = tcb s" "esp s' = esp s" "eflags s' = eflags s"
    "main_thread s' = main_thread s" "thread_all_list s' = thread_all_list s" "arenas s' = arenas s" "block_descs s' = block_descs s"
    "mem_state.more s' = mem_state.more s" "sema_value s' = sema_value s" "lock_holder s' = lock_holder s" "lock_repeat s' = lock_repeat s"
    "cr3 s' = cr3 s"
    by (cases pf; simp add: with_pages_def set_vaddr_bitmap_def)+
qed

subsection \<open>Pages under the lock\<close>

lemma take_lock_mem [simp]:
  "mem_inv (take_lock L s) = mem_inv s" "va_inv pf (take_lock L s) = va_inv pf s"
  "va_run pf n (take_lock L s) k = va_run pf n s k" "free_idx pf (take_lock L s) = free_idx pf s"
  "va_page pf i (take_lock L s) = va_page pf i s" "va_bits pf (take_lock L s) = va_bits pf s"
  "pool_lock (mem_pool pf (take_lock L s)) = pool_lock (mem_pool pf s)"
  "xlat (take_lock L s) w = xlat s w" "frame pf i (take_lock L s) = frame pf i s"
  "pool_bits pf (take_lock L s) = pool_bits pf s" "pmem (take_lock L s) = pmem s"
  "cr3 (take_lock L s) = cr3 s"
proof -
  let ?t = "take_lock L s"
  have f: "pmem ?t = pmem s" "cr3 ?t = cr3 s" "mem_pool pf ?t = mem_pool pf s" "vaddr_pool pf ?t = vaddr_pool pf s"
    "kernel_pool ?t = kernel_pool s" "user_pool ?t = user_pool s" for pf
    by (simp_all add: take_lock_def set_repeat_def set_holder_def set_value_def mem_pool_def vaddr_pool_def
        running_thread_def split: pool_flags.split)
  show "mem_inv ?t = mem_inv s" "va_inv pf ?t = va_inv pf s"
    "va_run pf n ?t k = va_run pf n s k" "free_idx pf ?t = free_idx pf s"
    "va_page pf i ?t = va_page pf i s" "va_bits pf ?t = va_bits pf s"
    "pool_lock (mem_pool pf ?t) = pool_lock (mem_pool pf s)"
    "xlat ?t w = xlat s w" "frame pf i ?t = frame pf i s" "pool_bits pf ?t = pool_bits pf s" "pmem ?t = pmem s"
    "cr3 ?t = cr3 s"
    by (simp_all add: mem_inv_def pools_ok_def pool_ok_def exclusive_def unused_frame_def free_idx_def pool_bits_def
        frame_def va_inv_def va_run_def va_bits_def va_page_def f)
qed

text \<open>Releasing the lock after pages were handed out.\<close>

lemma with_pages_take_lock:
  "with_pages pm kb ub (set_vaddr_bitmap pf b (take_lock L s)) = take_lock L (with_pages pm kb ub (set_vaddr_bitmap pf b s))"
  by (cases pf; simp add: with_pages_def set_vaddr_bitmap_def take_lock_def set_repeat_def set_holder_def set_value_def
      running_thread_def)

lemma lock_idle_pages: "lock_idle L (with_pages pm kb ub (set_vaddr_bitmap pf b s)) = lock_idle L s"
proof -
  let ?s = "with_pages pm kb ub (set_vaddr_bitmap pf b s)"
  have "next_of ?s = next_of s" "lock_free L ?s = lock_free L s"
    by (cases pf; simp add: with_pages_def set_vaddr_bitmap_def lock_free_def)+
  then show ?thesis using list_empty_cong [of ?s s] by (simp add: lock_idle_def)
qed

text \<open>A state in which \<open>n\<close> pages of a pool can be had.\<close>

definition can_alloc :: "pool_flags \<Rightarrow> nat \<Rightarrow> 'a mem_state_scheme \<Rightarrow> bool" where
  "can_alloc pf n s \<longleftrightarrow> mem_inv s \<and> va_inv pf s \<and> (\<exists>k. va_run pf n s k) \<and> 0 < n \<and> n < 3840 \<and>
     2 * n \<le> card (free_idx PF_KERNEL s) \<and> n \<le> card (free_idx pf s) \<and>
     lock_idle (pool_lock (mem_pool pf s)) s \<and> running_thread s \<noteq> NULL"

lemma get_pages_ok:
  assumes "can_alloc pf (unat n) s"
  shows "\<exists>i b s' fs. get_pages pf n s = Some (va_page pf i s, s') \<and> va_run pf (unat n) s i \<and>
    allocated pf (va_page pf i s) fs s s' \<and> length fs = unat n \<and> mem_inv s' \<and> va_inv pf s' \<and>
    same_but_pages (set_vaddr_bitmap pf b s) s' \<and> (\<forall>a. page_of a \<in> set fs \<longrightarrow> pmem s' a = 0)"
proof -
  note A = assms [unfolded can_alloc_def]
  let ?L = "pool_lock (mem_pool pf s)" and ?t = "take_lock (pool_lock (mem_pool pf s)) s"
  obtain k where k: "va_run pf (unat n) s k" using A by blast
  have n: "0 < n" "n < 3840" using A by (auto simp: word_less_nat_alt)
  have "\<exists>i b t fs. malloc_page pf n ?t = Some (va_page pf i ?t, t) \<and> va_run pf (unat n) ?t i \<and>
    allocated pf (va_page pf i ?t) fs ?t t \<and> length fs = unat n \<and> mem_inv t \<and> va_inv pf t \<and>
    same_but_pages (set_vaddr_bitmap pf b ?t) t \<and> va_bits pf t = b \<and> bm_wf b \<and> bm_size b = bm_size (va_bits pf ?t) \<and>
    (\<forall>j. bm_bit b j = (if i \<le> j \<and> j < i + unat n then True else bm_bit (va_bits pf ?t) j))"
    using A k n by (intro malloc_page_ok) simp_all
  then obtain i b t fs where m: "malloc_page pf n ?t = Some (va_page pf i s, t)" "va_run pf (unat n) s i"
      "allocated pf (va_page pf i s) fs ?t t" "length fs = unat n" "mem_inv t" "va_inv pf t"
      "same_but_pages (set_vaddr_bitmap pf b ?t) t"
    by auto
  let ?v = "va_page pf i s"
  have al: "\<forall>f \<in> set fs. page_of f = f" by (rule allocated_aligned [OF m(3)]) (use A in simp)
  have pg: "\<forall>j < length fs. xlat t (page ?v j) = Some (fs ! j) \<and> fresh_frame (pmem t) (page_of (cr3 t)) (fs ! j)"
  proof (intro allI impI conjI)
    fix j assume j: "j < length fs"
    show x: "xlat t (page ?v j) = Some (fs ! j)" by (rule allocated_pages [OF m(3) j al])
    have "set fs \<subseteq> (\<lambda>x. frame pf x s) ` free_idx pf s" using m(3) by (simp add: allocated_def)
    then obtain q where q: "q \<in> free_idx pf s" "fs ! j = frame pf q s" using nth_mem [OF j] by blast
    have "q < bm_size (pool_bits pf t)" "frame pf q t = fs ! j"
      using same_but_pagesD(2,6) [OF m(7), of pf] q by (auto simp: free_idx_def)
    moreover have "mappable (page ?v j)" using m(3) j by (auto simp: allocated_def page_range_def)
    moreover have "page_of (fs ! j) = fs ! j" using al j by simp
    ultimately show "fresh_frame (pmem t) (page_of (cr3 t)) (fs ! j)"
      using m(5) x unfolding mem_inv_def exclusive_def by metis
  qed
  let ?pm = "zero_frames (set fs) (pmem t)" and ?u = "t\<lparr>pmem := zero_frames (set fs) (pmem t)\<rparr>"
  have z: "memset_pages (unat n) ?v t = Some ?u" "mem_inv ?u" "\<And>w. xlat ?u w = xlat t w"
    using memset_pages_ok [OF m(5) pg] m(4) by auto
  obtain pm kb ub where u: "?u = with_pages pm kb ub (set_vaddr_bitmap pf b ?t)"
      "bm_size kb = bm_size (pool_bits PF_KERNEL s)" "bm_size ub = bm_size (pool_bits PF_USER s)"
  proof -
    obtain pm kb ub where t: "t = with_pages pm kb ub (set_vaddr_bitmap pf b ?t)"
        "bm_size kb = bm_size (pool_bits PF_KERNEL (set_vaddr_bitmap pf b ?t))"
        "bm_size ub = bm_size (pool_bits PF_USER (set_vaddr_bitmap pf b ?t))"
      using m(7) unfolding same_but_pages_def by blast
    have "?u = with_pages ?pm kb ub (set_vaddr_bitmap pf b ?t)" by (subst (1) t(1)) (simp add: with_pages_def)
    then show ?thesis using t(2,3) that by simp
  qed
  let ?s' = "with_pages pm kb ub (set_vaddr_bitmap pf b s)"
  have us: "?u = take_lock ?L ?s'" unfolding u(1) with_pages_take_lock ..
  have "lock_release ?L ?u = Some ?s'"
    unfolding us using A by (intro release_taken) (simp add: lock_idle_pages)
  moreover have "lock_now ?L s = Some ?t" using A by (intro lock_now_free) (simp_all add: lock_idle_def)
  moreover have "?v \<noteq> NULL" using m(3) by (simp add: allocated_def)
  ultimately have "get_pages pf n s = Some (?v, ?s')"
    using m(1) z(1) by (simp add: get_pages_def Let_def)
  moreover have x: "xlat ?s' w = xlat t w" for w using z(3) [of w] unfolding us by simp
  have "not_free f ?s'" if "not_free f t" for f
  proof -
    have "free_idx pf' ?s' = free_idx pf' t" "frame pf' i' ?s' = frame pf' i' t" for pf' i'
      using arg_cong [OF us, of "free_idx pf'"] arg_cong [OF us, of "frame pf' i'"]
      by (simp_all only: take_lock_mem pmem_free_idx pmem_update)
    with that show ?thesis by (simp add: not_free_def)
  qed
  moreover have "mem_inv ?s'" "va_inv pf ?s'"
    using z(2,3) m(6) va_inv_data [of ?pm t pf] unfolding us by simp_all
  moreover have "same_but_pages (set_vaddr_bitmap pf b s) ?s'"
    using u(2,3) unfolding same_but_pages_def by (intro exI [of _ pm] exI [of _ kb] exI [of _ ub]) simp
  moreover have "pmem ?s' a = 0" if "page_of a \<in> set fs" for a
  proof -
    have "pmem ?s' = ?pm" using arg_cong [OF us, of pmem] by simp
    with that show ?thesis by (simp add: zero_frames_def)
  qed
  moreover have "allocated pf ?v fs s ?s'"
    using m(3) calculation(2) x by (simp add: allocated_def pages_added_def)
  ultimately show ?thesis using m(2,4) by blast
qed

subsection \<open>A new page directory\<close>

lemma entry_offset: "table_index i \<Longrightarrow> (page_of x + i * 4) AND 0xfff = i * 4"
  unfolding entry_or unfolding mult4
proof (rule bit_word_eqI)
  fix n assume "table_index i"
  then show "bit ((page_of x OR push_bit 2 i) AND 0xfff) n = bit (push_bit 2 i) n"
    using table_index_bit [of i "n - 2"] by (auto simp: bit_offset bit_or_iff bit_page_of bit_push_bit_iff)
qed

lemma mmu_dir_word:
  assumes "dir_wf pm dir" "i < 1024"
  shows "mmu pm dir (0xfffff000 + of_nat i * 4) = Some (dir + of_nat i * 4)"
proof -
  let ?v = "push_bit 22 (of_nat i) :: u32"
  have "PDE_IDX ?v = of_nat i"
  proof (rule bit_word_eqI)
    fix n assume "n < LENGTH(32)"
    show "bit (PDE_IDX ?v) n = bit (of_nat i :: u32) n"
      using table_index_bit [OF table_index_of_nat [OF assms(2)], of n] by (auto simp: bit_PDE_IDX bit_push_bit_iff)
  qed
  then show ?thesis using mmu_pde_ptr [OF assms(1), of ?v] by (simp add: pde_ptr_def pde_at_def)
qed

text \<open>The frame \<open>f\<close> of a data page at \<open>v\<close> after the directory entries from \<open>j\<close> to \<open>j + n\<close> were copied into it.\<close>

definition dir_copied :: "u32 \<Rightarrow> u32 \<Rightarrow> nat \<Rightarrow> nat \<Rightarrow> (u32 \<Rightarrow> u32) \<Rightarrow> (u32 \<Rightarrow> u32)" where
  "dir_copied dir f j n pm = (\<lambda>a. if a \<in> (\<lambda>k. f + of_nat k * 4) ` {j..<j + n}
     then dir_entry pm dir (unat ((a - f) div 4)) else pm a)"

lemma dir_copied_word:
  assumes "page_of f = f" "k < 1024" "j + n \<le> 1024"
  shows "dir_copied dir f j n pm (f + of_nat k * 4) =
    (if j \<le> k \<and> k < j + n then dir_entry pm dir k else pm (f + of_nat k * 4))"
proof -
  have inj: "f + of_nat k * 4 = f + of_nat m * 4 \<longleftrightarrow> k = m" if "m < 1024" for m
  proof
    assume "f + of_nat k * 4 = f + of_nat m * 4"
    then have "(of_nat k :: u32) = of_nat m"
      using entry_inject [OF table_index_of_nat [OF assms(2)] table_index_of_nat [OF that], of f f] assms(1) by simp
    then have "unat (of_nat k :: u32) = unat (of_nat m :: u32)" by simp
    then show "k = m" using assms(2) that by simp
  qed simp
  have "unat (of_nat k * 4 :: u32) = k * 4"
    using assms(2) by (simp add: unat_word_ariths)
  then have d: "unat ((of_nat k * 4 :: u32) div 4) = k" by (simp add: unat_div_distrib)
  have "f + of_nat k * 4 \<in> (\<lambda>k. f + of_nat k * 4) ` {j..<j + n} \<longleftrightarrow> j \<le> k \<and> k < j + n"
  proof
    assume "f + of_nat k * 4 \<in> (\<lambda>k. f + of_nat k * 4) ` {j..<j + n}"
    then obtain m where "f + of_nat k * 4 = f + of_nat m * 4" "j \<le> m" "m < j + n" by auto
    then show "j \<le> k \<and> k < j + n" using inj [of m] assms(3) by simp
  qed auto
  then show ?thesis by (simp add: dir_copied_def d)
qed

lemma dir_copied_other: "page_of f = f \<Longrightarrow> j + n \<le> 1024 \<Longrightarrow> page_of a \<noteq> f \<Longrightarrow> dir_copied dir f j n pm a = pm a"
proof -
  assume f: "page_of f = f" "j + n \<le> 1024" and a: "page_of a \<noteq> f"
  have "page_of (f + of_nat k * 4) = f" if "k < j + n" for k
    using page_of_entry [OF table_index_of_nat, of k f] that f by simp
  then have "a \<notin> (\<lambda>k. f + of_nat k * 4) ` {j..<j + n}" using a by auto
  then show ?thesis by (simp add: dir_copied_def)
qed

lemma copy_dir_ok:
  assumes "dir_wf (pmem s) (page_of (cr3 s))" "fresh_frame (pmem s) (page_of (cr3 s)) f" "page_of v = v"
    "\<And>w. page_of w = v \<Longrightarrow> xlat s w = Some (f + (w AND 0xfff))" "j + n \<le> 1024"
  shows "copy_words n (v + of_nat j * 4) (0xfffff000 + of_nat j * 4) s =
    Some (s\<lparr>pmem := dir_copied (page_of (cr3 s)) f j n (pmem s)\<rparr>)"
  using assms
proof (induction n arbitrary: j s)
  case 0
  have "dir_copied (page_of (cr3 s)) f j 0 (pmem s) = pmem s" by (simp add: dir_copied_def)
  then show ?case by simp
next
  case (Suc n)
  let ?dir = "page_of (cr3 s)" and ?e = "dir_entry (pmem s) (page_of (cr3 s)) j"
  have j: "j < 1024" using Suc.prems(5) by simp
  have f: "page_of f = f" using Suc.prems(2) by (simp add: fresh_frame_def)
  have ld: "load32 (0xfffff000 + of_nat j * 4) s = Some ?e"
    using mmu_dir_word [OF Suc.prems(1) j] by (simp add: load32_def dir_entry_def)
  have "page_of (v + of_nat j * 4) = v" "(v + of_nat j * 4) AND 0xfff = of_nat j * 4"
    using page_of_entry [OF table_index_of_nat [OF j], of v] entry_offset [OF table_index_of_nat [OF j], of v] Suc.prems(3)
    by simp_all
  then have x: "xlat s (v + of_nat j * 4) = Some (f + of_nat j * 4)" using Suc.prems(4) by simp
  define pm where "pm = (pmem s)(f + of_nat j * 4 := ?e)"
  let ?pm = pm and ?t = "s\<lparr>pmem := pm\<rparr>"
  have st: "store32 (v + of_nat j * 4) ?e s = Some ?t" using x by (simp add: store32_def pm_def)
  have pf: "page_of (f + of_nat j * 4) = f" using page_of_entry [OF table_index_of_nat [OF j], of f] f by simp
  then have eq: "\<And>a. page_of a \<noteq> f \<Longrightarrow> ?pm a = pmem s a" by (auto simp: pm_def)
  note D = data_frame [OF Suc.prems(1,2) eq]
  have "copy_words n (v + of_nat (Suc j) * 4) (0xfffff000 + of_nat (Suc j) * 4) ?t =
      Some (?t\<lparr>pmem := dir_copied ?dir f (Suc j) n ?pm\<rparr>)"
    using Suc.IH [of ?t "Suc j"] D(2-4) Suc.prems by simp
  moreover have "dir_copied ?dir f (Suc j) n ?pm = dir_copied ?dir f j (Suc n) (pmem s)"
  proof
    fix a
    show "dir_copied ?dir f (Suc j) n ?pm a = dir_copied ?dir f j (Suc n) (pmem s) a"
    proof (cases "a \<in> (\<lambda>k. f + of_nat k * 4) ` {j..<j + Suc n}")
      case True
      then obtain k where k: "a = f + of_nat k * 4" "j \<le> k" "k < j + Suc n" by auto
      have "?pm (f + of_nat j * 4) = ?e" by (simp add: pm_def)
      then show ?thesis
        using k dir_copied_word [OF f, of k "Suc j" n ?dir ?pm] dir_copied_word [OF f, of k j "Suc n" ?dir "pmem s"]
          Suc.prems(5) D(1) by (cases "k = j") auto
    next
      case False
      then have "a \<noteq> f + of_nat j * 4" "a \<notin> (\<lambda>k. f + of_nat k * 4) ` {Suc j..<Suc j + n}" by auto
      with False show ?thesis by (simp add: dir_copied_def pm_def)
    qed
  qed
  ultimately show ?case using ld st by (simp add: algebra_simps)
qed

text \<open>A frame \<open>f\<close> that holds the kernel half of the directory \<open>dir\<close>, nothing below it, and itself in the last entry.\<close>

definition kernel_half :: "(u32 \<Rightarrow> u32) \<Rightarrow> u32 \<Rightarrow> u32 \<Rightarrow> bool" where
  "kernel_half pm dir f \<longleftrightarrow> page_of f = f \<and> dir_entry pm f 1023 = user_entry f \<and>
     (\<forall>i < 768. dir_entry pm f i = 0) \<and> (\<forall>i. 768 \<le> i \<and> i < 1023 \<longrightarrow> dir_entry pm f i = dir_entry pm dir i)"

lemma not_present_0 [simp]: "\<not> present 0"
  by (simp add: present_def)

lemma kernel_half_dir_wf:
  assumes wf: "dir_wf pm dir" and fr: "fresh_frame pm dir f" and kh: "kernel_half pm dir f"
  shows "dir_wf pm f"
proof -
  have f: "page_of f = f" and l: "dir_entry pm f 1023 = user_entry f" using kh by (auto simp: kernel_half_def)
  have e: "768 \<le> i \<and> (i < 1023 \<longrightarrow> dir_entry pm f i = dir_entry pm dir i)" if "present (dir_entry pm f i)" "i < 1024" for i
    using kh that by (cases "i < 768") (auto simp: kernel_half_def)
  have "i = j" if ij: "i < 1024" "j < 1024" "present (dir_entry pm f i)" "present (dir_entry pm f j)"
      "page_of (dir_entry pm f i) = page_of (dir_entry pm f j)" for i j
  proof -
    have c: "i < 1023 \<or> i = 1023" "j < 1023 \<or> j = 1023" using ij(1,2) by auto
    have nf: "page_of (dir_entry pm f k) \<noteq> f" if "k < 1023" "present (dir_entry pm f k)" for k
      using e [of k] fr that by (auto simp: fresh_frame_def)
    have pf: "page_of (dir_entry pm f 1023) = f" by (simp add: l page_of_7 [OF f])
    consider "i = 1023" "j = 1023" | "i = 1023" "j < 1023" | "i < 1023" "j = 1023" | "i < 1023" "j < 1023" using c by auto
    then show ?thesis
    proof cases
      case 4
      then show ?thesis using e [OF ij(3,1)] e [OF ij(4,2)] wf ij by (auto simp: dir_wf_def)
    qed (use nf [of i] nf [of j] ij pf in simp_all)
  qed
  then show ?thesis using f l present_7 [of f] page_of_7 [OF f] by (auto simp: dir_wf_def)
qed

lemma kernel_half_mmu:
  assumes "kernel_half pm dir f"
  shows "768 \<le> unat (PDE_IDX w) \<Longrightarrow> unat (PDE_IDX w) < 1023 \<Longrightarrow> mmu pm f w = mmu pm dir w"
    "unat (PDE_IDX w) < 768 \<Longrightarrow> mmu pm f w = None"
proof -
  show "mmu pm f w = mmu pm dir w" if "768 \<le> unat (PDE_IDX w)" "unat (PDE_IDX w) < 1023"
  proof -
    have "pm (pde_at f w) = pm (pde_at dir w)" using assms that by (simp add: pde_at_entry kernel_half_def)
    then show ?thesis by (simp add: mmu_def pte_at_def)
  qed
  show "mmu pm f w = None" if "unat (PDE_IDX w) < 768"
  proof -
    have "pm (pde_at f w) = 0" using assms that by (simp add: pde_at_entry kernel_half_def)
    then show ?thesis by (simp add: mmu_def)
  qed
qed

text \<open>Filling a cleared data page with the kernel half of the directory.\<close>

lemma fill_dir_ok:
  assumes inv: "mem_inv s" and fr: "fresh_frame (pmem s) (page_of (cr3 s)) f" and v: "page_of v = v"
    and x: "\<And>w. page_of w = v \<Longrightarrow> xlat s w = Some (f + (w AND 0xfff))"
    and z: "\<And>a. page_of a = f \<Longrightarrow> pmem s a = 0"
  shows "\<exists>pm. do { s \<leftarrow> copy_words 256 (v + 0x300 * 4) (0xfffff000 + 0x300 * 4) s;
      p \<leftarrow> addr_v2p v s; store32 (v + 4 * 1023) (p OR PG_US_U OR PG_RW_W OR PG_P_1) s } = Some (s\<lparr>pmem := pm\<rparr>) \<and>
    (\<forall>a. page_of a \<noteq> f \<longrightarrow> pm a = pmem s a) \<and> kernel_half pm (page_of (cr3 s)) f"
proof -
  let ?dir = "page_of (cr3 s)"
  have wf: "dir_wf (pmem s) ?dir" using inv by (simp add: mem_inv_def)
  have f: "page_of f = f" using fr by (simp add: fresh_frame_def)
  define pm1 where "pm1 = dir_copied ?dir f 768 256 (pmem s)"
  have c: "copy_words 256 (v + 0x300 * 4) (0xfffff000 + 0x300 * 4) s = Some (s\<lparr>pmem := pm1\<rparr>)"
    using copy_dir_ok [OF wf fr v x, of 768 256] by (simp add: pm1_def)
  have o1: "\<And>a. page_of a \<noteq> f \<Longrightarrow> pm1 a = pmem s a" using dir_copied_other [OF f, of 768 256] by (simp add: pm1_def)
  note D = data_frame [OF wf fr o1]
  have x1: "mmu pm1 ?dir w = Some (f + (w AND 0xfff))" if "page_of w = v" for w using D(2) x that by simp
  have "v AND 0xfff = 0" using page_of_idx(3) [of v] v by simp
  then have "addr_v2p v (s\<lparr>pmem := pm1\<rparr>) = Some f" using addr_v2p_mmu [of "s\<lparr>pmem := pm1\<rparr>" v f] D(3) x1 [OF v] by simp
  moreover have t: "table_index 1023" using table_index_of_nat [of 1023] by simp
  have "mmu pm1 ?dir (v + 4 * 1023) = Some (f + 1023 * 4)"
    using x1 [of "v + 1023 * 4"] page_of_entry [OF t, of v] entry_offset [OF t, of v] v by simp
  moreover define pm where "pm = pm1(f + 1023 * 4 := user_entry f)"
  ultimately have r: "do { s \<leftarrow> copy_words 256 (v + 0x300 * 4) (0xfffff000 + 0x300 * 4) s;
      p \<leftarrow> addr_v2p v s; store32 (v + 4 * 1023) (p OR PG_US_U OR PG_RW_W OR PG_P_1) s } = Some (s\<lparr>pmem := pm\<rparr>)"
    using c by (simp add: store32_def)
  have l: "page_of (f + 1023 * 4) = f" using page_of_entry [OF t, of f] f by simp
  have o: "pm a = pmem s a" if "page_of a \<noteq> f" for a using that o1 l by (auto simp: pm_def)
  have w: "dir_entry pm f i = (if i = 1023 then user_entry f else if i < 768 then 0 else dir_entry pm ?dir i)" if i: "i < 1024" for i
  proof -
    have "f + of_nat i * 4 = f + 1023 * 4 \<longleftrightarrow> i = 1023"
    proof
      assume "f + of_nat i * 4 = f + 1023 * 4"
      then have "(of_nat i :: u32) = 1023"
        using entry_inject [OF table_index_of_nat [OF i] t, of f f] f by simp
      then have "unat (of_nat i :: u32) = 1023" by simp
      then show "i = 1023" using i by simp
    qed simp
    moreover have "page_of (f + of_nat i * 4) = f" using page_of_entry [OF table_index_of_nat [OF i], of f] f by simp
    then have "pmem s (f + of_nat i * 4) = 0" by (rule z)
    moreover have "dir_entry pm ?dir i = dir_entry (pmem s) ?dir i" by (rule data_frame(1) [OF wf fr o i])
    ultimately show ?thesis
      using dir_copied_word [OF f i, of 768 256 ?dir "pmem s"] i by (auto simp: dir_entry_def pm_def pm1_def)
  qed
  then have "kernel_half pm ?dir f" using f by (simp add: kernel_half_def)
  with r o show ?thesis by blast
qed

text \<open>The frame of a page that was just handed out is no page table.\<close>

lemma allocated_fresh:
  assumes "allocated pf v fs s s'" "mem_inv s" "mem_inv s'" "j < length fs"
    "\<And>i. frame pf i s' = frame pf i s" "bm_size (pool_bits pf s') = bm_size (pool_bits pf s)"
  shows "fresh_frame (pmem s') (page_of (cr3 s')) (fs ! j)"
proof -
  have al: "\<forall>f \<in> set fs. page_of f = f" by (rule allocated_aligned [OF assms(1,2)])
  have "set fs \<subseteq> (\<lambda>x. frame pf x s) ` free_idx pf s" using assms(1) by (simp add: allocated_def)
  then obtain q where "q \<in> free_idx pf s" "fs ! j = frame pf q s" using nth_mem [OF assms(4)] by blast
  then have "q < bm_size (pool_bits pf s')" "frame pf q s' = fs ! j" using assms(5,6) by (auto simp: free_idx_def)
  moreover have "mappable (page v j)" using assms(1,4) by (auto simp: allocated_def page_range_def)
  moreover have "page_of (fs ! j) = fs ! j" using al assms(4) by simp
  ultimately show ?thesis
    using assms(3) allocated_pages [OF assms(1,4) al] unfolding mem_inv_def exclusive_def by metis
qed

text \<open>C37: a new process shares the kernel's address space. When a kernel page can be had, \<open>create_page_dir\<close> returns
  the address of a page directory (at frame \<open>f\<close>) that is well formed, translates every kernel address outside the window of the page tables
  as the current directory does and no user address at all; the current address space changes only at the new page,
  and the invariant of the memory holds again.\<close>

theorem create_page_dir_shares:
  assumes "can_alloc PF_KERNEL 1 s"
  shows "\<exists>v f s'. create_page_dir sy s = Some (v, s') \<and> v \<noteq> NULL \<and> xlat s' v = Some f \<and> mem_inv s' \<and> dir_wf (pmem s') f \<and>
    (\<forall>w. 768 \<le> unat (PDE_IDX w) \<and> unat (PDE_IDX w) < 1023 \<longrightarrow> mmu (pmem s') f w = xlat s' w) \<and>
    (\<forall>w. unat (PDE_IDX w) < 768 \<longrightarrow> mmu (pmem s') f w = None) \<and>
    (\<forall>w. mappable w \<and> page_of w \<noteq> v \<longrightarrow> xlat s' w = xlat s w)"
proof -
  obtain i b s1 fs where g: "get_pages PF_KERNEL 1 s = Some (va_page PF_KERNEL i s, s1)"
      "allocated PF_KERNEL (va_page PF_KERNEL i s) fs s s1" "length fs = 1" "mem_inv s1"
      "same_but_pages (set_vaddr_bitmap PF_KERNEL b s) s1" "\<forall>a. page_of a \<in> set fs \<longrightarrow> pmem s1 a = 0"
    using get_pages_ok [of PF_KERNEL 1 s] assms by auto
  let ?v = "va_page PF_KERNEL i s" and ?dir = "page_of (cr3 s1)"
  obtain f where fs: "fs = [f]" using g(3) by (cases fs) auto
  have inv: "mem_inv s" using assms by (simp add: can_alloc_def)
  have v: "?v \<noteq> NULL" "page_of ?v = ?v" using g(2) by (auto simp: allocated_def page_range_def)
  have "fresh_frame (pmem s1) ?dir (fs ! 0)"
    using same_but_pagesD(2,6) [OF g(5), of PF_KERNEL] by (intro allocated_fresh [OF g(2) inv g(4)]) (simp_all add: fs)
  then have fr: "fresh_frame (pmem s1) ?dir f" by (simp add: fs)
  have x: "xlat s1 w = Some (f + (w AND 0xfff))" if "page_of w = ?v" for w
    using g(2) that by (simp add: allocated_def pages_added_def fs)
  have "\<And>a. page_of a = f \<Longrightarrow> pmem s1 a = 0" using g(6) fs by simp
  from fill_dir_ok [OF g(4) fr v(2) x this] obtain pm where
    pm: "do { s \<leftarrow> copy_words 256 (?v + 0x300 * 4) (0xfffff000 + 0x300 * 4) s1;
      p \<leftarrow> addr_v2p ?v s; store32 (?v + 4 * 1023) (p OR PG_US_U OR PG_RW_W OR PG_P_1) s } = Some (s1\<lparr>pmem := pm\<rparr>)"
      "\<And>a. page_of a \<noteq> f \<Longrightarrow> pm a = pmem s1 a" "kernel_half pm ?dir f"
    by blast
  let ?s = "s1\<lparr>pmem := pm\<rparr>"
  have "create_page_dir sy s = Some (?v, ?s)"
    using g(1) pm(1) v(1) by (auto simp: create_page_dir_def get_kernel_pages_def bind_eq_Some_conv)
  moreover have wf: "dir_wf (pmem s1) ?dir" using g(4) by (simp add: mem_inv_def)
  note D = data_frame [OF wf fr pm(2)] and M = mem_inv_data [OF g(4) fr pm(2)]
  have "dir_wf pm f" using kernel_half_dir_wf [OF D(3) _ pm(3)] D(4) fr by simp
  moreover have "xlat ?s ?v = Some f" using M(2) x [OF v(2)] page_of_idx(3) [of ?v] v(2) by simp
  moreover have "xlat ?s w = xlat s w" if "mappable w" "page_of w \<noteq> ?v" for w
    using M(2) g(2) that by (auto simp: allocated_def pages_added_def fs lessThan_Suc)
  moreover have "mmu pm f w = xlat ?s w" if "768 \<le> unat (PDE_IDX w)" "unat (PDE_IDX w) < 1023" for w
    using kernel_half_mmu(1) [OF pm(3) that] by simp
  ultimately show ?thesis using v(1) M(1) kernel_half_mmu(2) [OF pm(3)]
    by (intro exI [of _ ?v] exI [of _ f] exI [of _ ?s]) simp
qed

definition demo_symbols :: symbols where
  "demo_symbols = \<lparr>kernel_thread_sym = 0xc0001500, start_process_sym = 0xc0001600, idle_sym = 0xc0001700,
     init_sym = 0xc0001800, intr_exit_sym = 0xc0001900, console_lock_sym = 0xc0009800, tss_sym = 0xc0009900\<rparr>"

text \<open>The demonstration memory with the lock of the kernel pool free.\<close>

definition idle_mem :: mem_state where
  "idle_mem = demo_mem\<lparr>next_of := \<lambda>_. list_tail (lock_waiters 0xc0009500), sema_value := \<lambda>_. 1,
     lock_holder := \<lambda>_. NULL, lock_repeat := \<lambda>_. 0, esp := 0xc009f000\<rparr>"

lemma idle_mem_fields:
  "pmem idle_mem = pmem demo_mem" "cr3 idle_mem = cr3 demo_mem" "mem_pool pf idle_mem = mem_pool pf demo_mem"
  "vaddr_pool PF_KERNEL idle_mem = vaddr_pool PF_KERNEL demo_mem"
  "kernel_pool idle_mem = kernel_pool demo_mem" "user_pool idle_mem = user_pool demo_mem"
  by (simp_all add: idle_mem_def mem_pool_def vaddr_pool_def split: pool_flags.split)

lemma can_alloc_idle: "can_alloc PF_KERNEL 1 idle_mem"
proof -
  note f = idle_mem_fields
  have g: "pool_bits pf idle_mem = pool_bits pf demo_mem" "va_bits PF_KERNEL idle_mem = va_bits PF_KERNEL demo_mem"
    "frame pf i idle_mem = frame pf i demo_mem" "free_idx pf idle_mem = free_idx pf demo_mem"
    "xlat idle_mem w = xlat demo_mem w" "va_page PF_KERNEL i idle_mem = va_page PF_KERNEL i demo_mem" for pf i w
    by (simp_all add: f pool_bits_def va_bits_def frame_def free_idx_def va_page_def)
  have "mem_inv idle_mem"
    using demo_mem_inv unfolding mem_inv_def pools_ok_def pool_ok_def exclusive_def unused_frame_def f g .
  moreover have "va_inv PF_KERNEL idle_mem" using demo_va_inv unfolding va_inv_def f g .
  moreover have "va_run PF_KERNEL 1 idle_mem 1"
    using demo_va_run unfolding va_run_def f g run_at_def by auto
  moreover have "2 * 1 \<le> card (free_idx PF_KERNEL idle_mem)" unfolding g demo_free by simp
  moreover have "pool_lock (mem_pool PF_KERNEL idle_mem) = 0xc0009500" by (simp add: f demo_mem_defs)
  moreover have "lock_idle 0xc0009500 idle_mem"
    by (simp add: lock_idle_def lock_free_def list_empty_def rd_next_def idle_mem_def list_head_def sema_waiters_def
        lock_sema_def)
  moreover have "running_thread idle_mem \<noteq> NULL" by (simp add: running_thread_def idle_mem_def)
  ultimately show ?thesis unfolding can_alloc_def by auto
qed

theorem create_page_dir_shares_witness:
  "\<exists>v f s'. create_page_dir demo_symbols idle_mem = Some (v, s') \<and> v \<noteq> NULL \<and> xlat s' v = Some f \<and>
    mmu (pmem s') f 0x8048000 = None \<and> mmu (pmem s') f 0xc0000000 = xlat s' 0xc0000000"
proof -
  have "unat (PDE_IDX (0x8048000 :: u32)) = 32" "unat (PDE_IDX (0xc0000000 :: u32)) = 768"
    by (simp_all add: PDE_IDX_unat)
  then show ?thesis using create_page_dir_shares [OF can_alloc_idle, of demo_symbols] by fastforce
qed

subsection \<open>Two pages of the kernel\<close>

text \<open>The small memory with two pages of the kernel heap mapped to the first two frames of the pool.\<close>

definition heap_pm :: "u32 \<Rightarrow> u32" where
  "heap_pm = boot_pm(0x101400 := 0x200007, 0x101404 := 0x201007)"

definition demo_heap :: mem_state where
  "demo_heap = demo_mem\<lparr>pmem := heap_pm, kernel_pool := (kernel_pool demo_mem)\<lparr>pool_bitmap := \<lparr>btmp_bytes_len = 2, bits = [0x03, 0, 0]\<rparr>\<rparr>,
     kernel_vaddr := \<lparr>vaddr_bitmap = \<lparr>btmp_bytes_len = 2, bits = [0x03, 0, 0]\<rparr>, vaddr_start = K_HEAP_START\<rparr>\<rparr>"

lemma demo_heap_fields:
  "pmem demo_heap = heap_pm" "cr3 demo_heap = 0x100000"
  "pool_bits PF_KERNEL demo_heap = \<lparr>btmp_bytes_len = 2, bits = [0x03, 0, 0]\<rparr>"
  "pool_bits PF_USER demo_heap = \<lparr>btmp_bytes_len = 1, bits = [0, 0]\<rparr>"
  "phy_addr_start (mem_pool PF_KERNEL demo_heap) = 0x200000" "phy_addr_start (mem_pool PF_USER demo_heap) = 0x210000"
  "phy_addr_start (kernel_pool demo_heap) = 0x200000" "phy_addr_start (user_pool demo_heap) = 0x210000"
  "vaddr_pool PF_KERNEL demo_heap = \<lparr>vaddr_bitmap = \<lparr>btmp_bytes_len = 2, bits = [0x03, 0, 0]\<rparr>, vaddr_start = K_HEAP_START\<rparr>"
  using demo_mem_fields by (simp_all add: demo_heap_def pool_bits_def mem_pool_def vaddr_pool_def)

lemma free_idx_pmem [simp]: "free_idx pf (s\<lparr>pmem := pm\<rparr>) = free_idx pf s"
  by (simp add: free_idx_def)

lemma demo_heap_taken:
  assumes "j < 2"
  shows "not_free (frame PF_KERNEL j demo_heap) (demo_heap\<lparr>pmem := pm\<rparr>)" "pools_ok demo_heap"
proof -
  show ok: "pools_ok demo_heap"
    by (simp add: pools_ok_def pool_ok_def demo_heap_fields bm_wf_def bm_size_def page_of_def)
  show "not_free (frame PF_KERNEL j demo_heap) (demo_heap\<lparr>pmem := pm\<rparr>)"
    unfolding not_free_def free_idx_pmem pmem_update
  proof (intro allI ballI notI)
    fix pf i assume i: "i \<in> free_idx pf demo_heap" and eq: "frame pf i demo_heap = frame PF_KERNEL j demo_heap"
    have "pf = PF_KERNEL \<and> i = j"
      using frame_pools [OF ok _ _ eq] i assms by (simp add: free_idx_def bm_size_def demo_heap_fields)
    moreover have "j = 0 \<or> j = 1" using assms by linarith
    ultimately show False using i by (auto simp: free_idx_def bm_bit_def demo_heap_fields)
  qed
qed

lemma demo_heap_inv: "mem_inv demo_heap"
proof -
  let ?s0 = "demo_heap\<lparr>pmem := boot_pm\<rparr>" and ?s1 = "demo_heap\<lparr>pmem := boot_pm(0x101400 := 0x200007)\<rparr>"
  have c: "page_of (cr3 ?s0) = 0x100000" "page_of (cr3 ?s1) = 0x100000" by (simp_all add: demo_heap_fields)
  have sf: "stray_free ?s0" by (simp add: stray_free_def loader_tables_def boot_loader demo_heap_fields)
  have t1: "loader_tables ?s1" using boot_loader(1) by (auto simp: loader_tables_def demo_heap_fields intro: loader_pm_upd)
  have inv0: "mem_inv ?s0"
    using demo_heap_taken(2) [of 0] by (intro loader_mem_inv [OF sf]) (simp_all add: pools_ok_def pool_ok_def demo_heap_fields)
  have fr: "frame PF_KERNEL 0 demo_heap = 0x200000" "frame PF_KERNEL 1 demo_heap = 0x201000" by (simp_all add: frame_def demo_heap_fields PG_SIZE_def)
  have un: "unused_frame ?s0 f" if "0x200000 \<le> unat f" "page_of f = f" for f
    using loader_fresh [of ?s0 f] loader_low [OF sf] that sf unfolding unused_frame_def c stray_free_def by fastforce
  have e0: "xlat ?s0 0xc0100000 = None" "xlat ?s0 0xc0101000 = None" by (simp_all add: demo_heap_fields boot_unmapped PDE_IDX_def PTE_IDX_def)
  have pr: "present (pmem ?s0 (pde_at (page_of (cr3 ?s0)) v))" "present (pmem ?s1 (pde_at (page_of (cr3 ?s1)) v))"
    "pte_at (pmem ?s0) (page_of (cr3 ?s0)) v = 0x101000 + PTE_IDX v * 4" "pte_at (pmem ?s1) (page_of (cr3 ?s1)) v = 0x101000 + PTE_IDX v * 4"
    if "PDE_IDX v = 768" for v
    unfolding c pde_at_def pte_at_def that by (simp_all add: boot_pm_def boot_pde_def present_def page_of_def PG_P_1_def)
  have i: "PDE_IDX (0xc0100000 :: u32) = 768" "PDE_IDX (0xc0101000 :: u32) = 768" "PTE_IDX (0xc0100000 :: u32) = 256"
    "PTE_IDX (0xc0101000 :: u32) = 257" "mappable 0xc0100000" "mappable 0xc0101000"
    by (simp_all add: PDE_IDX_def PTE_IDX_def mappable_def)
  have wf: "dir_wf (pmem ?s0) (page_of (cr3 ?s0))" "dir_wf (pmem ?s1) (page_of (cr3 ?s1))"
    using loader_wf sf t1 unfolding c stray_free_def by blast+
  have add0: "page_table_add 0xc0100000 0x200000 ?s0 = Some ?s1"
    using page_table_add_present [OF wf(1) pr(1) [OF i(1)] e0(1), of "0x200000"] unfolding pr(3) [OF i(1)] i(3) by (simp add: PG_US_U_def PG_RW_W_def PG_P_1_def)
  have "page_added 0xc0100000 0x200000 ?s0 ?s1"
    using page_table_add_ok_present [OF inv0 i(5) e0(1), of "0x200000"] pr(1) [OF i(1)] demo_heap_taken(1) [of 0 boot_pm] un [of "0x200000"] fr
    by (simp add: add0 page_of_def)
  then have p1: "mem_inv ?s1" "mapped_at ?s0 ?s1 0xc0100000 0x200000" by (simp_all add: page_added_def)
  then have e1: "xlat ?s1 0xc0101000 = None" using e0(2) i(6) by (simp add: mapped_at_def page_of_def)
  have un1: "unused_frame ?s1 0x201000"
    unfolding unused_frame_def c
  proof (intro conjI allI impI notI)
    show "fresh_frame (pmem ?s1) 0x100000 0x201000" by (rule loader_fresh [OF t1]) (simp_all add: page_of_def)
    fix w p assume w: "mappable w" "mmu (pmem ?s1) 0x100000 w = Some p" "page_of p = 0x201000"
    then have "xlat ?s1 w = Some p" using c(2) by simp
    then have "(if page_of w = 0xc0100000 then Some (0x200000 + (w AND 0xfff)) else xlat ?s0 w) = Some p"
      using p1(2) w(1) by (simp add: mapped_at_def page_of_def)
    then show False using loader_low [OF sf w(1)] w(3) page_of_off [of "0x200000" w] by (auto split: if_splits simp: page_of_def)
  qed
  have add1: "page_table_add 0xc0101000 0x201000 ?s1 = Some demo_heap"
    using page_table_add_present [OF wf(2) pr(2) [OF i(2)] e1, of "0x201000"] unfolding pr(4) [OF i(2)] i(4) by (simp add: PG_US_U_def PG_RW_W_def PG_P_1_def heap_pm_def demo_heap_def)
  have "page_added 0xc0101000 0x201000 ?s1 demo_heap"
    using page_table_add_ok_present [OF p1(1) i(6) e1, of "0x201000"] pr(2) [OF i(2)] demo_heap_taken(1) [of 1] un1 fr
    by (simp add: add1 page_of_def)
  then show ?thesis by (simp add: page_added_def)
qed

lemma demo_heap_owned: "owned_page PF_KERNEL 0xc0100000 demo_heap" "owned_page PF_KERNEL 0xc0101000 demo_heap"
proof -
  have m: "xlat demo_heap 0xc0100000 = Some 0x200000" "xlat demo_heap 0xc0101000 = Some 0x201000"
    by (simp_all add: demo_heap_fields heap_pm_def mmu_def pde_at_def pte_at_def PDE_IDX_def PTE_IDX_def boot_pm_def boot_pde_def
        present_def page_of_def PG_P_1_def)
  have fr: "frame PF_KERNEL 0 demo_heap = 0x200000" "frame PF_KERNEL 1 demo_heap = 0x201000" by (simp_all add: frame_def demo_heap_fields PG_SIZE_def)
  have r: "page_range 0xc0100000 1" "page_range 0xc0101000 1" by (simp_all add: page_range_def page_of_def mappable_def PDE_IDX_def)
  note f = demo_heap_fields va_bits_def bm_wf_def bm_size_def K_HEAP_START_def
  show "owned_page PF_KERNEL 0xc0100000 demo_heap"
    using r(1) unfolding owned_page_def m fr(1) [symmetric] by (auto simp: f intro!: exI [of _ 0])
  show "owned_page PF_KERNEL 0xc0101000 demo_heap"
    using r(2) unfolding owned_page_def m fr(2) [symmetric] by (auto simp: f intro!: exI [of _ 1])
qed

end
