(* ===== verification/Path.thy ===== *)
theory Path
  imports Prelude
begin

text \<open>
  Path names: \<open>path_parse\<close> and \<open>path_depth_cnt\<close> of \<^verbatim>\<open>fs/fs.c\<close>, \<open>wash_path\<close> and \<open>make_clear_abs_path\<close> of
  \<^verbatim>\<open>shell/buildin_cmd.c\<close>.

  A pointer into a constant string is the list of the characters from there to the terminator, so
  that \<open>*p = 0\<close> is \<open>p = []\<close>. A character array that is written is the list of its bytes, of fixed
  length; storing past its end does not return. \<open>str_of\<close> reads the string an array holds and
  \<open>arr_strcat\<close> is \<open>strcat\<close> on an array (theory \<open>Cstring\<close> treats the functions on memory).

  The reference is \<open>path_names\<close>, the list of the non-empty components of a path, and \<open>resolve\<close>, which
  removes \<open>.\<close> and \<open>..\<close> from it.
\<close>

definition MAX_FILE_NAME_LEN :: nat where "MAX_FILE_NAME_LEN = 16"
definition MAX_PATH_LEN :: nat where "MAX_PATH_LEN = 512"

abbreviation slash :: u8 where "slash \<equiv> 47"
abbreviation dot :: u8 where "dot \<equiv> 46"

subsection \<open>Strings in arrays\<close>

definition str_of :: "u8 list \<Rightarrow> u8 list option" where
  "str_of a = (if 0 \<in> set a then Some (takeWhile (\<lambda>c. c \<noteq> 0) a) else None)"

primrec write_at :: "u8 list \<Rightarrow> nat \<Rightarrow> u8 list \<Rightarrow> u8 list option" where
  "write_at [] i a = Some a"
| "write_at (c # cs) i a = do { a \<leftarrow> set_at a i c; write_at cs (i + 1) a }"

definition arr_strcat :: "u8 list \<Rightarrow> u8 list \<Rightarrow> u8 list option" where
  "arr_strcat a xs = do { s \<leftarrow> str_of a; write_at (xs @ [0]) (length s) a }"

text \<open>\<open>strrchr(s, ch)\<close> as an index.\<close>

definition last_index :: "u8 list \<Rightarrow> u8 \<Rightarrow> nat option" where
  "last_index s ch =
     (if ch \<in> set s then Some (length s - 1 - length (takeWhile (\<lambda>c. c \<noteq> ch) (rev s))) else None)"

subsection \<open>The functions\<close>

primrec copy_name :: "u8 list \<Rightarrow> nat \<Rightarrow> u8 list \<Rightarrow> (u8 list \<times> u8 list) option" where
  "copy_name [] i name_store = Some ([], name_store)"
| "copy_name (c # cs) i name_store =
     (if c = slash then Some (c # cs, name_store)
      else do { name_store \<leftarrow> set_at name_store i c; copy_name cs (i + 1) name_store })"

definition path_parse :: "u8 list \<Rightarrow> u8 list \<Rightarrow> (u8 list option \<times> u8 list) option" where
  "path_parse pathname name_store = do {
     let pathname = (case pathname of [] \<Rightarrow> []
                      | c # cs \<Rightarrow> if c = slash then dropWhile (\<lambda>c. c = slash) cs else pathname);
     (pathname, name_store) \<leftarrow> copy_name pathname 0 name_store;
     Some (if pathname = [] then None else Some pathname, name_store)
   }"

text \<open>\<open>path_parse\<close> on the rest of the path, if there is one, into a cleared name.\<close>

definition next_name :: "u8 list option \<Rightarrow> (u8 list option \<times> u8 list) option" where
  "next_name p = (case p of None \<Rightarrow> Some (None, replicate MAX_FILE_NAME_LEN 0)
                   | Some q \<Rightarrow> path_parse q (replicate MAX_FILE_NAME_LEN 0))"

partial_function (option) depth_loop :: "u8 list option \<Rightarrow> u8 list \<Rightarrow> u32 \<Rightarrow> u32 option" where
  "depth_loop p nm depth = do {
     c \<leftarrow> get_at nm 0;
     if c = 0 then Some depth
     else do {
       (p, nm) \<leftarrow> next_name p;
       depth_loop p nm (depth + 1)
     }
   }"

text \<open>The local array \<open>name\<close> is not initialised; \<open>name0\<close> is what it happens to hold.\<close>

definition path_depth_cnt :: "u8 list \<Rightarrow> u8 list \<Rightarrow> u32 option" where
  "path_depth_cnt name0 pathname = do {
     (p, nm) \<leftarrow> path_parse pathname name0;
     depth_loop p nm 0
   }"

definition wash_dotdot :: "u8 list \<Rightarrow> u8 list option" where
  "wash_dotdot new_abs_path = do {
     s \<leftarrow> str_of new_abs_path;
     slash_ptr \<leftarrow> last_index s slash;
     if slash_ptr \<noteq> 0 then set_at new_abs_path slash_ptr 0
     else set_at new_abs_path (slash_ptr + 1) 0
   }"

definition wash_name :: "u8 list \<Rightarrow> u8 list \<Rightarrow> u8 list option" where
  "wash_name nm new_abs_path = do {
     n \<leftarrow> str_of nm;
     if n = [dot, dot] then wash_dotdot new_abs_path
     else if n \<noteq> [dot] then do {
       s \<leftarrow> str_of new_abs_path;
       new_abs_path \<leftarrow> (if s \<noteq> [slash] then arr_strcat new_abs_path [slash] else Some new_abs_path);
       arr_strcat new_abs_path n
     } else Some new_abs_path
   }"

partial_function (option) wash_loop :: "u8 list option \<Rightarrow> u8 list \<Rightarrow> u8 list \<Rightarrow> u8 list option" where
  "wash_loop sub_path nm new_abs_path = do {
     c \<leftarrow> get_at nm 0;
     if c = 0 then Some new_abs_path
     else do {
       new_abs_path \<leftarrow> wash_name nm new_abs_path;
       (sub_path, nm) \<leftarrow> next_name sub_path;
       wash_loop sub_path nm new_abs_path
     }
   }"

definition wash_path :: "u8 list \<Rightarrow> u8 list \<Rightarrow> u8 list option" where
  "wash_path old_abs_path new_abs_path = do {
     _ \<leftarrow> ASSERT (old_abs_path \<noteq> [] \<and> hd old_abs_path = slash);
     (sub_path, nm) \<leftarrow> path_parse old_abs_path (replicate MAX_FILE_NAME_LEN 0);
     c \<leftarrow> get_at nm 0;
     if c = 0 then do {
       new_abs_path \<leftarrow> set_at new_abs_path 0 slash;
       set_at new_abs_path 1 0
     } else do {
       new_abs_path \<leftarrow> set_at new_abs_path 0 0;
       new_abs_path \<leftarrow> arr_strcat new_abs_path [slash];
       wash_loop sub_path nm new_abs_path
     }
   }"

text \<open>The system call \<open>getcwd\<close> is a parameter: the string it stores, or \<open>None\<close> when it fails.\<close>

definition make_clear_abs_path :: "u8 list option \<Rightarrow> u8 list \<Rightarrow> u8 list \<Rightarrow> u8 list option" where
  "make_clear_abs_path getcwd path final_path = do {
     let abs_path = replicate MAX_PATH_LEN 0;
     abs_path \<leftarrow>
       (if path \<noteq> [] \<and> hd path = slash then Some abs_path
        else case getcwd of None \<Rightarrow> Some abs_path
          | Some cwd \<Rightarrow> do {
              abs_path \<leftarrow> arr_strcat abs_path cwd;
              if cwd \<noteq> [slash] then arr_strcat abs_path [slash] else Some abs_path
            });
     abs_path \<leftarrow> arr_strcat abs_path path;
     s \<leftarrow> str_of abs_path;
     wash_path s final_path
   }"

subsection \<open>The components of a path\<close>

function path_names :: "u8 list \<Rightarrow> u8 list list" where
  "path_names p =
     (let q = dropWhile (\<lambda>c. c = slash) p in
      if q = [] then [] else takeWhile (\<lambda>c. c \<noteq> slash) q # path_names (dropWhile (\<lambda>c. c \<noteq> slash) q))"
  by auto

lemma next_component_shorter:
  "dropWhile (\<lambda>c. c = slash) p \<noteq> [] \<Longrightarrow>
   length (dropWhile (\<lambda>c. c \<noteq> slash) (dropWhile (\<lambda>c. c = slash) p)) < length p"
proof -
  assume ne: "dropWhile (\<lambda>c. c = slash) p \<noteq> []"
  let ?q = "dropWhile (\<lambda>c. c = slash) p"
  have "hd ?q \<noteq> slash" using hd_dropWhile [OF ne] .
  with ne have "length (dropWhile (\<lambda>c. c \<noteq> slash) ?q) < length ?q"
    by (cases ?q) (auto simp: le_imp_less_Suc length_dropWhile_le)
  also have "\<dots> \<le> length p" by (rule length_dropWhile_le)
  finally show ?thesis .
qed

termination path_names
  by (relation "measure length") (use next_component_shorter in auto)

declare path_names.simps [simp del]

text \<open>The component a call of \<open>path_parse\<close> extracts, and what follows it.\<close>

definition first_name :: "u8 list \<Rightarrow> u8 list" where
  "first_name p = takeWhile (\<lambda>c. c \<noteq> slash) (dropWhile (\<lambda>c. c = slash) p)"

definition rest_path :: "u8 list \<Rightarrow> u8 list" where
  "rest_path p = dropWhile (\<lambda>c. c \<noteq> slash) (dropWhile (\<lambda>c. c = slash) p)"

lemma first_name_Nil: "first_name p = [] \<longleftrightarrow> dropWhile (\<lambda>c. c = slash) p = []"
proof -
  let ?q = "dropWhile (\<lambda>c. c = slash) p"
  have "takeWhile (\<lambda>c. c \<noteq> slash) ?q = [] \<longleftrightarrow> ?q = []"
  proof (cases "?q = []")
    case False
    then show ?thesis using hd_dropWhile [OF False] by (simp only: takeWhile_eq_Nil_iff) simp
  qed (simp only: takeWhile.simps)
  then show ?thesis unfolding first_name_def .
qed

lemma path_names_rec:
  "path_names p = (if first_name p = [] then [] else first_name p # path_names (rest_path p))"
  unfolding first_name_Nil unfolding first_name_def rest_path_def
  by (subst path_names.simps) (simp only: Let_def)

lemma path_names_Nil [simp]: "path_names [] = []"
  by (subst path_names_rec) (simp add: first_name_def)

lemma rest_path_shorter: "first_name p \<noteq> [] \<Longrightarrow> length (rest_path p) < length p"
  unfolding rest_path_def by (rule next_component_shorter) (simp add: first_name_Nil)

lemma set_rest_path: "set (rest_path p) \<subseteq> set p"
  unfolding rest_path_def by (blast dest: set_dropWhileD)

lemma set_first_name: "set (first_name p) \<subseteq> set p"
  unfolding first_name_def by (blast dest: set_takeWhileD set_dropWhileD)

lemma copy_name_eq:
  "i + length (takeWhile (\<lambda>c. c \<noteq> slash) p) \<le> length a \<Longrightarrow>
   copy_name p i a = Some (dropWhile (\<lambda>c. c \<noteq> slash) p,
     take i a @ takeWhile (\<lambda>c. c \<noteq> slash) p @ drop (i + length (takeWhile (\<lambda>c. c \<noteq> slash) p)) a)"
proof (induction p arbitrary: i a)
  case (Cons c cs)
  have "take (Suc i) (a[i := c]) = take i a @ [c]" if "i < length a"
    using that by (simp add: take_Suc_conv_app_nth)
  with Cons show ?case by (auto simp: drop_update_cancel)
qed simp

lemma path_parse_eq:
  assumes "length (first_name p) \<le> length a"
  shows "path_parse p a =
    Some (if rest_path p = [] then None else Some (rest_path p), first_name p @ drop (length (first_name p)) a)"
proof -
  have "(case p of [] \<Rightarrow> [] | c # cs \<Rightarrow> if c = slash then dropWhile (\<lambda>c. c = slash) cs else p) =
      dropWhile (\<lambda>c. c = slash) p"
    by (cases p) auto
  then show ?thesis using assms
    unfolding path_parse_def first_name_def rest_path_def Let_def
    by (simp only: copy_name_eq add_0 take_0 append_Nil bind.bind_lunit prod.case)
qed

definition names_opt :: "u8 list option \<Rightarrow> u8 list list" where
  "names_opt p = (case p of None \<Rightarrow> [] | Some q \<Rightarrow> path_names q)"

definition pad :: "u8 list \<Rightarrow> u8 list" where
  "pad n = n @ replicate (MAX_FILE_NAME_LEN - length n) 0"

lemma names_nonempty: "n \<in> set (path_names p) \<Longrightarrow> n \<noteq> [] \<and> slash \<notin> set n \<and> set n \<subseteq> set p"
proof (induction p rule: path_names.induct)
  case (1 p)
  show ?case
  proof (cases "first_name p = []")
    case True
    with "1.prems" show ?thesis by (subst (asm) path_names_rec) simp
  next
    case False
    have "slash \<notin> set (first_name p)" unfolding first_name_def by (auto dest: set_takeWhileD)
    moreover have "n = first_name p \<or> n \<in> set (path_names (rest_path p))"
      using "1.prems" False by (subst (asm) path_names_rec) simp
    moreover have "n \<in> set (path_names (rest_path p)) \<Longrightarrow> n \<noteq> [] \<and> slash \<notin> set n \<and> set n \<subseteq> set (rest_path p)"
      using "1.IH" [OF refl] False unfolding first_name_Nil rest_path_def by blast
    ultimately show ?thesis using False set_first_name [of p] set_rest_path [of p] by (elim disjE) auto
  qed
qed

lemma path_parse_names:
  assumes "\<forall>n \<in> set (path_names q). length n \<le> MAX_FILE_NAME_LEN"
  shows "\<exists>p'. path_parse q (replicate MAX_FILE_NAME_LEN 0) =
      Some (p', pad (case path_names q of [] \<Rightarrow> [] | n # _ \<Rightarrow> n)) \<and> names_opt p' = tl (path_names q)"
proof (cases "first_name q = []")
  case True
  then have "rest_path q = []" unfolding rest_path_def first_name_Nil by (simp only: dropWhile.simps)
  with True show ?thesis using path_parse_eq [of q "replicate MAX_FILE_NAME_LEN 0"] path_names_rec [of q]
    by (simp add: pad_def names_opt_def)
next
  case False
  then have n: "path_names q = first_name q # path_names (rest_path q)" using path_names_rec by simp
  with assms have "length (first_name q) \<le> MAX_FILE_NAME_LEN" by simp
  with n show ?thesis using path_parse_eq [of q "replicate MAX_FILE_NAME_LEN 0"]
    by (auto simp: pad_def names_opt_def)
qed

lemma next_name_ok:
  assumes "\<forall>n \<in> set (names_opt p). length n \<le> MAX_FILE_NAME_LEN"
  shows "\<exists>p'. next_name p = Some (p', pad (case names_opt p of [] \<Rightarrow> [] | n # _ \<Rightarrow> n)) \<and>
    names_opt p' = tl (names_opt p)"
  using assms path_parse_names
  by (cases p) (auto simp: next_name_def names_opt_def pad_def)

lemma pad_0: "get_at (pad n) 0 = Some (if n = [] then 0 else hd n)"
  by (cases n) (auto simp: pad_def get_at_def MAX_FILE_NAME_LEN_def)

definition name_ok :: "u8 list \<Rightarrow> bool" where
  "name_ok n \<longleftrightarrow> n \<noteq> [] \<and> 0 \<notin> set n \<and> slash \<notin> set n \<and> length n < MAX_FILE_NAME_LEN"

lemma depth_loop_eq:
  assumes "names_opt p = ns" "\<forall>n \<in> set ns. n \<noteq> [] \<and> 0 \<notin> set n \<and> length n \<le> MAX_FILE_NAME_LEN"
    "get_at nm 0 = Some c" "c \<noteq> 0"
  shows "depth_loop p nm d = Some (d + 1 + of_nat (length ns))"
  using assms
proof (induction ns arbitrary: p nm c d)
  case Nil
  then obtain p' where "next_name p = Some (p', pad [])" using next_name_ok [of p] by auto
  with Nil show ?case
    by (subst depth_loop.simps) (simp add: depth_loop.simps [of p' "pad []"] pad_0)
next
  case (Cons n ns)
  then obtain p' where p': "next_name p = Some (p', pad n)" "names_opt p' = ns" using next_name_ok [of p] by auto
  have "hd n \<noteq> 0" using Cons.prems(2) by (cases n) auto
  then have "depth_loop p' (pad n) (d + 1) = Some (d + 1 + 1 + of_nat (length ns))"
    using Cons.prems(2) by (intro Cons.IH [OF p'(2), of _ "hd n"]) (auto simp: pad_0)
  with Cons.prems p' show ?case by (subst depth_loop.simps) (simp add: add.assoc)
qed

subsection \<open>Resolved paths\<close>

fun resolve :: "u8 list list \<Rightarrow> u8 list list \<Rightarrow> u8 list list" where
  "resolve acc [] = acc"
| "resolve acc (n # ns) =
     resolve (if n = [dot, dot] then butlast acc else if n = [dot] then acc else acc @ [n]) ns"

definition render :: "u8 list list \<Rightarrow> u8 list" where
  "render ns = (if ns = [] then [slash] else concat (map (\<lambda>n. slash # n) ns))"

definition weight :: "u8 list list \<Rightarrow> nat" where
  "weight ns = sum_list (map (\<lambda>n. Suc (length n)) ns)"

lemma weight_simps [simp]: "weight [] = 0" "weight (n # ns) = Suc (length n) + weight ns"
  "weight (ms @ ns) = weight ms + weight ns"
  by (simp_all add: weight_def)

lemma length_render: "ns \<noteq> [] \<Longrightarrow> length (render ns) = weight ns"
  by (simp add: render_def weight_def length_concat o_def)

lemma str_of_iff: "str_of a = Some s \<longleftrightarrow> (\<exists>r. a = s @ 0 # r) \<and> 0 \<notin> set s"
proof
  assume "str_of a = Some s"
  then have z: "0 \<in> set a" "s = takeWhile (\<lambda>c. c \<noteq> 0) a" by (auto simp: str_of_def split: if_splits)
  define r where "r = dropWhile (\<lambda>c. c \<noteq> 0) a"
  have "r \<noteq> []" "a = s @ r" using z by (auto simp: r_def)
  moreover from this(1) have "hd r = 0" unfolding r_def by (metis (mono_tags, lifting) hd_dropWhile)
  ultimately have "a = s @ 0 # tl r" by (cases r) auto
  moreover have "0 \<notin> set s" using z(2) by (auto dest: set_takeWhileD)
  ultimately show "(\<exists>r. a = s @ 0 # r) \<and> 0 \<notin> set s" by blast
next
  assume "(\<exists>r. a = s @ 0 # r) \<and> 0 \<notin> set s"
  then show "str_of a = Some s" by (auto simp: str_of_def takeWhile_append)
qed

lemma str_of_pad: "name_ok n \<Longrightarrow> str_of (pad n) = Some n"
  unfolding str_of_iff pad_def name_ok_def
  by (cases "MAX_FILE_NAME_LEN - length n") auto

lemma write_at_eq: "i + length cs \<le> length a \<Longrightarrow> write_at cs i a = Some (take i a @ cs @ drop (i + length cs) a)"
proof (induction cs arbitrary: i a)
  case (Cons c cs)
  have "take (Suc i) (a[i := c]) = take i a @ [c]" if "i < length a"
    using that by (simp add: take_Suc_conv_app_nth)
  with Cons show ?case by (auto simp: drop_update_cancel)
qed simp

lemma arr_strcat_ok:
  assumes "str_of a = Some s" "length s + length xs < length a" "0 \<notin> set xs"
  shows "\<exists>a'. arr_strcat a xs = Some a' \<and> length a' = length a \<and> str_of a' = Some (s @ xs)"
proof -
  obtain r where a: "a = s @ 0 # r" "0 \<notin> set s" using assms(1) by (auto simp: str_of_iff)
  have "arr_strcat a xs = Some (take (length s) a @ (xs @ [0]) @ drop (length s + length (xs @ [0])) a)"
    using assms by (simp only: arr_strcat_def bind.bind_lunit) (simp add: write_at_eq)
  moreover have "str_of (take (length s) a @ (xs @ [0]) @ drop (length s + length (xs @ [0])) a) = Some (s @ xs)"
    using a assms(3) by (simp add: str_of_iff)
  ultimately show ?thesis using assms(2) by simp
qed

lemma set_at_str:
  assumes "str_of a = Some (xs @ ys)" "ys \<noteq> []"
  shows "\<exists>a'. set_at a (length xs) 0 = Some a' \<and> length a' = length a \<and> str_of a' = Some xs"
proof -
  obtain r where a: "a = (xs @ ys) @ 0 # r" "0 \<notin> set (xs @ ys)" using assms(1) by (auto simp: str_of_iff)
  obtain y zs where y: "ys = y # zs" using assms(2) by (cases ys) auto
  have "set_at a (length xs) 0 = Some (xs @ 0 # zs @ 0 # r)" by (simp add: a(1) y set_at_def)
  moreover have "str_of (xs @ 0 # zs @ 0 # r) = Some xs" using a(2) by (auto simp: str_of_iff)
  ultimately show ?thesis by (simp add: a(1) y)
qed

lemma last_index_append: "slash \<notin> set n \<Longrightarrow> last_index (xs @ slash # n) slash = Some (length xs)"
proof -
  assume n: "slash \<notin> set n"
  then have "takeWhile (\<lambda>c. c \<noteq> slash) (rev n @ slash # rev xs) = rev n"
    by (subst takeWhile_append2) auto
  then show ?thesis by (simp add: last_index_def)
qed

lemma render_snoc: "render (ns @ [n]) = (if ns = [] then [] else render ns) @ slash # n"
  by (simp add: render_def)

text \<open>One step of the loop of \<open>wash_path\<close> on the array that holds the components \<open>acc\<close>.\<close>

definition washed :: "nat \<Rightarrow> u8 list list \<Rightarrow> u8 list \<Rightarrow> bool" where
  "washed k acc a \<longleftrightarrow> length a = k \<and> str_of a = Some (render acc) \<and> (\<forall>n \<in> set acc. name_ok n)"

lemma wash_dotdot_ok:
  assumes "washed k acc a" "2 \<le> k"
  shows "\<exists>a'. wash_dotdot a = Some a' \<and> washed k (butlast acc) a'"
proof (cases acc rule: rev_cases)
  case Nil
  then have s: "str_of a = Some [slash]" "length a = k" using assms(1) by (auto simp: washed_def render_def)
  then obtain r where a: "a = [slash] @ 0 # r" by (auto simp: str_of_iff)
  have "last_index [slash] slash = Some 0" using last_index_append [of "[]" "[]"] by simp
  then have "wash_dotdot a = Some a" using s a by (simp add: wash_dotdot_def set_at_def)
  with assms(1) Nil show ?thesis by simp
next
  case (snoc ns n)
  then have n: "name_ok n" "\<forall>n \<in> set ns. name_ok n" "length a = k"
      "str_of a = Some ((if ns = [] then [] else render ns) @ slash # n)"
    using assms(1) by (auto simp: washed_def render_snoc)
  have li: "last_index ((if ns = [] then [] else render ns) @ slash # n) slash =
      Some (length (if ns = [] then [] else render ns))"
    using n(1) by (intro last_index_append) (simp add: name_ok_def)
  show ?thesis
  proof (cases "ns = []")
    case True
    then obtain a' where "set_at a 1 0 = Some a'" "length a' = length a" "str_of a' = Some [slash]"
      using set_at_str [of a "[slash]" n] n(1,4) by (auto simp: name_ok_def)
    then show ?thesis using True li n snoc by (auto simp: wash_dotdot_def washed_def render_def)
  next
    case False
    then obtain a' where "set_at a (length (render ns)) 0 = Some a'" "length a' = length a" "str_of a' = Some (render ns)"
      using set_at_str [of a "render ns" "slash # n"] n(4) by auto
    moreover have "length (render ns) \<noteq> 0" using False by (cases ns) (auto simp: render_def)
    ultimately show ?thesis using False li n snoc by (auto simp: wash_dotdot_def washed_def)
  qed
qed

lemma wash_push_ok:
  assumes "washed k acc a" "name_ok n" "weight acc + Suc (length n) < k"
  shows "\<exists>a'. do { s \<leftarrow> str_of a;
      a \<leftarrow> (if s \<noteq> [slash] then arr_strcat a [slash] else Some a); arr_strcat a n } = Some a' \<and>
    washed k (acc @ [n]) a'"
proof (cases "acc = []")
  case True
  then have s: "str_of a = Some [slash]" "length a = k" using assms(1) by (auto simp: washed_def render_def)
  obtain a' where "arr_strcat a n = Some a'" "length a' = length a" "str_of a' = Some ([slash] @ n)"
    using arr_strcat_ok [OF s(1), of n] s(2) assms(2,3) True by (auto simp: name_ok_def)
  with s True assms show ?thesis by (auto simp: washed_def render_def)
next
  case False
  then have s: "str_of a = Some (render acc)" "length a = k" "render acc \<noteq> [slash]"
    using assms(1) by (auto simp: washed_def render_def name_ok_def neq_Nil_conv)
  have l: "length (render acc) = weight acc" by (rule length_render [OF False])
  obtain a1 where a1: "arr_strcat a [slash] = Some a1" "length a1 = length a" "str_of a1 = Some (render acc @ [slash])"
    using arr_strcat_ok [OF s(1), of "[slash]"] s(2) assms(3) l by auto
  obtain a2 where "arr_strcat a1 n = Some a2" "length a2 = length a1" "str_of a2 = Some ((render acc @ [slash]) @ n)"
    using arr_strcat_ok [OF a1(3), of n] a1(2) s(2) assms(2,3) l by (auto simp: name_ok_def)
  with a1 s False assms show ?thesis by (auto simp: washed_def render_snoc)
qed

lemma wash_name_ok:
  assumes "washed k acc a" "name_ok n" "weight acc + Suc (length n) < k" "2 \<le> k"
  shows "\<exists>a'. wash_name (pad n) a = Some a' \<and>
    washed k (if n = [dot, dot] then butlast acc else if n = [dot] then acc else acc @ [n]) a'"
  using wash_dotdot_ok [OF assms(1,4)] wash_push_ok [OF assms(1-3)] assms(1)
  by (cases "n = [dot, dot] \<or> n = [dot]") (auto simp: wash_name_def str_of_pad [OF assms(2)])

lemma weight_butlast: "weight (butlast acc) \<le> weight acc"
  by (cases acc rule: rev_cases) auto

lemma wash_loop_ok:
  assumes "names_opt p = ns" "name_ok n" "\<forall>n \<in> set ns. name_ok n" "washed k acc a"
    "weight acc + weight (n # ns) < k" "2 \<le> k"
  shows "\<exists>a'. wash_loop p (pad n) a = Some a' \<and> washed k (resolve acc (n # ns)) a'"
  using assms(1-5)
proof (induction ns arbitrary: p n acc a)
  case Nil
  then obtain a' where a': "wash_name (pad n) a = Some a'" "washed k (resolve acc [n]) a'"
    using wash_name_ok [of k acc a n] assms(6) by auto
  obtain p' where "next_name p = Some (p', pad [])" using Nil.prems(1) next_name_ok [of p] by auto
  moreover have "hd n \<noteq> 0" "n \<noteq> []" using Nil.prems(2) by (cases n, auto simp: name_ok_def)+
  ultimately show ?case using a'
    by (subst wash_loop.simps) (simp add: pad_0 wash_loop.simps [of p' "pad []"])
next
  case (Cons m ns)
  let ?acc = "if n = [dot, dot] then butlast acc else if n = [dot] then acc else acc @ [n]"
  obtain a' where a': "wash_name (pad n) a = Some a'" "washed k ?acc a'"
    using wash_name_ok [of k acc a n] Cons.prems assms(6) by auto
  obtain p' where p': "next_name p = Some (p', pad m)" "names_opt p' = ns"
    using Cons.prems(1,3) next_name_ok [of p] by (auto simp: name_ok_def less_imp_le)
  have "weight ?acc + weight (m # ns) < k"
    using Cons.prems(5) weight_butlast [of acc] by auto
  then obtain a'' where "wash_loop p' (pad m) a' = Some a''" "washed k (resolve ?acc (m # ns)) a''"
    using Cons.IH [OF p'(2) _ _ a'(2)] Cons.prems(3) by auto
  moreover have "hd n \<noteq> 0" "n \<noteq> []" using Cons.prems(2) by (cases n, auto simp: name_ok_def)+
  ultimately show ?case using a'(1) p'(1) by (subst wash_loop.simps) (simp add: pad_0)
qed

lemma path_names_component:
  assumes "name_ok n" "r = [] \<or> hd r = slash"
  shows "path_names (slash # n @ r) = n # path_names r"
proof -
  obtain c cs where n: "n = c # cs" "c \<noteq> slash" "slash \<notin> set cs" using assms(1) by (cases n) (auto simp: name_ok_def)
  have d: "dropWhile (\<lambda>c. c = slash) (slash # n @ r) = n @ r" using n by simp
  have "takeWhile (\<lambda>c. c \<noteq> slash) (n @ r) = n" "dropWhile (\<lambda>c. c \<noteq> slash) (n @ r) = r"
    using n assms(2) by (cases r, auto simp: takeWhile_append dropWhile_append)+
  then have "first_name (slash # n @ r) = n" "rest_path (slash # n @ r) = r"
    unfolding first_name_def rest_path_def d .
  then show ?thesis using path_names_rec [of "slash # n @ r"] n(1) by simp
qed

lemma path_names_concat: "\<forall>n \<in> set ns. name_ok n \<Longrightarrow> path_names (concat (map (\<lambda>n. slash # n) ns)) = ns"
proof (induction ns)
  case (Cons n ns)
  have "concat (map (\<lambda>n. slash # n) ns) = [] \<or> hd (concat (map (\<lambda>n. slash # n) ns)) = slash"
    by (cases ns) auto
  with Cons path_names_component [of n "concat (map (\<lambda>n. slash # n) ns)"] show ?case by simp
qed simp

lemma path_names_render: "\<forall>n \<in> set ns. name_ok n \<Longrightarrow> path_names (render ns) = ns"
proof (cases "ns = []")
  case True
  have "first_name [slash] = []" by (simp add: first_name_def)
  then show ?thesis using True path_names_rec [of "[slash]"] by (simp add: render_def)
qed (simp add: render_def path_names_concat)

lemma weight_path_names: "weight (path_names (slash # p)) \<le> Suc (length p)"
proof -
  have "weight (path_names q) \<le> length q" if "q = [] \<or> hd q = slash" for q
    using that
  proof (induction "length q" arbitrary: q rule: less_induct)
    case less
    show ?case
    proof (cases "first_name q = []")
      case True
      then show ?thesis using path_names_rec [of q] by simp
    next
      case False
      let ?r = "dropWhile (\<lambda>c. c = slash) q"
      have ne: "q \<noteq> []" using False by (auto simp: first_name_def)
      then have "hd q = slash" using less.prems by simp
      then have "length ?r < length q" using ne by (cases q) (auto simp: le_imp_less_Suc length_dropWhile_le)
      moreover have "length (first_name q) + length (rest_path q) = length ?r"
        unfolding first_name_def rest_path_def by (metis length_append takeWhile_dropWhile_id)
      moreover have "rest_path q = [] \<or> hd (rest_path q) = slash"
        unfolding rest_path_def by (metis (mono_tags, lifting) hd_dropWhile)
      then have "weight (path_names (rest_path q)) \<le> length (rest_path q)"
        using less.hyps [of "rest_path q"] rest_path_shorter [OF False] by blast
      ultimately show ?thesis using False path_names_rec [of q] by simp
    qed
  qed
  from this [of "slash # p"] show ?thesis by simp
qed

lemma resolve_names:
  "\<forall>n \<in> set acc. n \<noteq> [dot] \<and> n \<noteq> [dot, dot] \<Longrightarrow>
   n \<in> set (resolve acc ns) \<Longrightarrow> n \<noteq> [dot] \<and> n \<noteq> [dot, dot]"
proof (induction ns arbitrary: acc)
  case (Cons m ns)
  have "\<forall>n \<in> set (if m = [dot, dot] then butlast acc else if m = [dot] then acc else acc @ [m]).
      n \<noteq> [dot] \<and> n \<noteq> [dot, dot]"
    using Cons.prems(1) by (auto dest: in_set_butlastD)
  then show ?case by (rule Cons.IH) (rule Cons.prems(2) [unfolded resolve.simps])
qed (unfold resolve.simps, blast)

text \<open>C34: \<open>wash_path\<close> stores the absolute path with \<open>.\<close> and \<open>..\<close> removed. For an absolute path that fits the buffer and
  whose names have at most 15 characters the call returns; the buffer holds the path that leads
  through exactly the resolved components, none of which is \<open>.\<close> or \<open>..\<close>.\<close>

theorem wash_path_resolves:
  assumes "0 \<notin> set p" "\<forall>n \<in> set (path_names (slash # p)). length n < MAX_FILE_NAME_LEN"
    "Suc (length p) < length a" "2 \<le> length a"
  shows "\<exists>a' out. wash_path (slash # p) a = Some a' \<and> length a' = length a \<and> str_of a' = Some out \<and>
    out = render (resolve [] (path_names (slash # p))) \<and>
    path_names out = resolve [] (path_names (slash # p)) \<and>
    [dot] \<notin> set (path_names out) \<and> [dot, dot] \<notin> set (path_names out)"
proof -
  let ?ns = "path_names (slash # p)"
  have ok: "\<forall>n \<in> set ?ns. name_ok n"
    unfolding name_ok_def
  proof
    fix n assume "n \<in> set ?ns"
    with assms(1,2) names_nonempty [of n "slash # p"]
    show "n \<noteq> [] \<and> 0 \<notin> set n \<and> slash \<notin> set n \<and> length n < MAX_FILE_NAME_LEN" by auto
  qed
  obtain q where q: "path_parse (slash # p) (replicate MAX_FILE_NAME_LEN 0) =
      Some (q, pad (case ?ns of [] \<Rightarrow> [] | n # _ \<Rightarrow> n))" "names_opt q = tl ?ns"
    using path_parse_names [of "slash # p"] assms(2) by (auto simp: less_imp_le)
  obtain x y r where a: "a = x # y # r" using assms(4) by (cases a; cases "tl a") auto
  have "\<exists>a'. wash_path (slash # p) a = Some a' \<and> washed (length a) (resolve [] ?ns) a'"
  proof (cases ?ns)
    case Nil
    have "str_of (slash # 0 # r) = Some [slash]" by (simp add: str_of_def)
    with Nil q a show ?thesis
      by (simp add: wash_path_def pad_0 washed_def render_def set_at_def)
  next
    case (Cons n ns)
    have "str_of (0 # y # r) = Some []" by (simp add: str_of_def)
    then obtain a1 where a1: "arr_strcat (0 # y # r) [slash] = Some a1" "length a1 = length a" "str_of a1 = Some [slash]"
      using arr_strcat_ok [of "0 # y # r" "[]" "[slash]"] a by auto
    have "weight ?ns < length a" using weight_path_names [of p] assms(3) by simp
    then obtain a' where "wash_loop q (pad n) a1 = Some a'" "washed (length a) (resolve [] ?ns) a'"
      using wash_loop_ok [of q ns n "length a" "[]" a1] q(2) Cons ok a1 assms(4)
      by (auto simp: washed_def render_def)
    moreover have "hd n \<noteq> 0" "n \<noteq> []" using ok Cons by (cases n, auto simp: name_ok_def)+
    ultimately show ?thesis using Cons q a a1(1) by (simp add: wash_path_def pad_0 set_at_def)
  qed
  then obtain a' where a': "wash_path (slash # p) a = Some a'" "washed (length a) (resolve [] ?ns) a'" by blast
  then have "path_names (render (resolve [] ?ns)) = resolve [] ?ns"
    by (intro path_names_render) (simp add: washed_def)
  with a' show ?thesis using resolve_names [of "[]"] by (fastforce simp: washed_def)
qed

theorem wash_path_resolves_witness:
  "\<exists>a' out. wash_path [slash, 97, slash, dot, dot, slash, dot, slash, 98] (replicate 512 0) = Some a' \<and>
     str_of a' = Some out \<and> path_names out = [[98]]"
proof -
  have n: "path_names (slash # [97, slash, dot, dot, slash, dot, slash, 98]) = [[97], [dot, dot], [dot], [98]]"
    by (simp add: path_names.simps)
  from wash_path_resolves [of "[97, slash, dot, dot, slash, dot, slash, 98]" "replicate 512 0"]
  show ?thesis unfolding n by (simp add: MAX_FILE_NAME_LEN_def) blast
qed

text \<open>\<open>path_depth_cnt\<close> counts the components of a path. When the path has no component the result depends on what
  the uninitialised local array \<open>name0\<close> holds: 0 if its first byte is 0, and 1 otherwise.\<close>

theorem path_depth_cnt_names:
  assumes "0 \<notin> set p" "\<forall>n \<in> set (path_names p). length n \<le> MAX_FILE_NAME_LEN" "length name0 = MAX_FILE_NAME_LEN"
  shows "path_depth_cnt name0 p =
    Some (if path_names p = [] \<and> name0 ! 0 \<noteq> 0 then 1 else of_nat (length (path_names p)))"
proof (cases "first_name p = []")
  case True
  then have "rest_path p = []" unfolding rest_path_def first_name_Nil by (simp only: dropWhile.simps)
  moreover have "path_names p = []" using True path_names_rec [of p] by simp
  moreover have "get_at name0 0 = Some (name0 ! 0)" using assms(3) by (simp add: MAX_FILE_NAME_LEN_def)
  moreover have "depth_loop None name0 0 = Some 1" if "name0 ! 0 \<noteq> 0"
    using that calculation(3) depth_loop_eq [of None "[]" name0 "name0 ! 0" 0] by (simp add: names_opt_def)
  ultimately show ?thesis
    using True path_parse_eq [of p name0] depth_loop.simps [of None name0 0] by (simp add: path_depth_cnt_def)
next
  case False
  let ?n = "first_name p" and ?r = "rest_path p"
  have ns: "path_names p = ?n # path_names ?r" using False path_names_rec [of p] by simp
  have "0 \<notin> set ?n" using set_first_name [of p] assms(1) by auto
  then have h: "get_at (?n @ xs) 0 = Some (hd ?n)" "hd ?n \<noteq> 0" for xs
    using False by (cases ?n, auto simp: get_at_def)+
  have "\<forall>n \<in> set (path_names ?r). n \<noteq> [] \<and> 0 \<notin> set n \<and> length n \<le> MAX_FILE_NAME_LEN"
    using assms(1,2) names_nonempty [of _ ?r] set_rest_path [of p] ns by fastforce
  then have "depth_loop (if ?r = [] then None else Some ?r) (?n @ drop (length ?n) name0) 0 =
      Some (0 + 1 + of_nat (length (path_names ?r)))"
    by (intro depth_loop_eq [OF _ _ h]) (simp_all add: names_opt_def)
  with ns assms show ?thesis using path_parse_eq [of p name0] by (simp add: path_depth_cnt_def)
qed

theorem path_depth_cnt_names_witness:
  "path_depth_cnt (replicate 16 65) [slash, 97, slash, 98] = Some 2"
proof -
  have n: "path_names [slash, 97, slash, 98] = [[97], [98]]" by (simp add: path_names.simps)
  show ?thesis
    using path_depth_cnt_names [of "[slash, 97, slash, 98]" "replicate 16 65"]
    unfolding n by (simp add: MAX_FILE_NAME_LEN_def)
qed

end
