(* ===== verification/Ide.thy ===== *)
theory Ide
  imports Page_Data Path
begin

text \<open>
  The disk driver, \<^verbatim>\<open>device/ide.c\<close>, and \<open>printk\<close> of \<^verbatim>\<open>lib/kernel/stdio-kernel.c\<close>.

  The structures of the driver lie at fixed addresses: \<open>channels\<close> is an array of 1632-byte channels, each with two
  784-byte disks, each with twelve 64-byte partitions (four primary ones, eight logical ones behind them). Their
  fields are typed heaps, \<open>chans\<close>, \<open>disks\<close> and \<open>parts\<close>; locks, semaphores and list nodes inside them are
  addresses. The disks themselves are the device at the other end of the ports: \<open>platter\<close> has the sectors
  of the master and the slave behind a base port, and what a transfer means is determined by the bytes last written
  to the ports of the channel, as the ATA interface documents it for 28-bit addresses. Successive reads of the status register
  return the bytes of \<open>ata_status\<close>, the last one from then on.

  A buffer argument is the list of its bytes; \<open>ide_read\<close> returns the bytes it stores. The interrupt that ends a
  command arrives before the thread waits for it; the other order is the sleep of \<open>Sync\<close>. A thread that sleeps
  10 milliseconds in \<open>busy_wait\<close> continues after its sleep.
\<close>

unbundle bit_operations_syntax

record super_block =
  magic :: u32
  sb_sec_cnt :: u32
  inode_cnt :: u32
  part_lba_base :: u32
  block_bitmap_lba :: u32
  block_bitmap_sects :: u32
  inode_bitmap_lba :: u32
  inode_bitmap_sects :: u32
  inode_table_lba :: u32
  inode_table_sects :: u32
  data_start_lba :: u32
  root_inode_no :: u32
  dir_entry_size :: u32

record partition =
  start_lba :: u32
  sec_cnt :: u32
  my_disk :: addr
  part_name :: "u8 list"
  sb :: "super_block option"
  block_bitmap :: bitmap
  inode_bitmap :: bitmap

record disk =
  disk_name :: "u8 list"
  my_channel :: addr
  dev_no :: u8

record ide_channel =
  channel_name :: "u8 list"
  port_base :: u16
  irq_no :: u8
  expecting_intr :: bool

record ide_state = task_state +
  console_lock :: addr
  channels :: addr
  channel_cnt :: u8
  partition_list :: addr
  ext_lba_base :: u32
  p_no :: u8
  l_no :: u8
  chans :: "addr \<Rightarrow> ide_channel"
  disks :: "addr \<Rightarrow> disk"
  parts :: "addr \<Rightarrow> partition"
  platter :: "u16 \<Rightarrow> bool \<Rightarrow> u32 \<Rightarrow> u8 list"
  ata_ident :: "u16 \<Rightarrow> bool \<Rightarrow> u8 list"
  ata_status :: "u16 \<Rightarrow> u8 list"

definition channel_at :: "nat \<Rightarrow> 'a ide_state_scheme \<Rightarrow> addr" where
  "channel_at i s = channels s + of_nat i * 1632"

definition ch_lock :: "addr \<Rightarrow> addr" where "ch_lock channel = channel + 12"
definition disk_done :: "addr \<Rightarrow> addr" where "disk_done channel = channel + 44"
definition device_at :: "addr \<Rightarrow> nat \<Rightarrow> addr" where "device_at channel i = channel + 64 + of_nat i * 784"
definition prim_part :: "addr \<Rightarrow> nat \<Rightarrow> addr" where "prim_part dk i = dk + 16 + of_nat i * 64"
definition logic_part :: "addr \<Rightarrow> nat \<Rightarrow> addr" where "logic_part dk i = dk + 272 + of_nat i * 64"
definition part_tag :: "addr \<Rightarrow> addr" where "part_tag part = part + 12"
definition part_tag_entry :: "addr \<Rightarrow> addr" where "part_tag_entry elem = elem - 12"
definition open_inodes :: "addr \<Rightarrow> addr" where "open_inodes part = part + 48"

definition upd_chan :: "addr \<Rightarrow> (ide_channel \<Rightarrow> ide_channel) \<Rightarrow> 'a ide_state_scheme \<Rightarrow> 'a ide_state_scheme" where
  "upd_chan a f s = s\<lparr>chans := (chans s)(a := f (chans s a))\<rparr>"

definition upd_part :: "addr \<Rightarrow> (partition \<Rightarrow> partition) \<Rightarrow> 'a ide_state_scheme \<Rightarrow> 'a ide_state_scheme" where
  "upd_part a f s = s\<lparr>parts := (parts s)(a := f (parts s a))\<rparr>"

text \<open>The buffer of \<open>printk\<close> has 1024 bytes; the text is that of \<open>vsprintf\<close>.\<close>

definition printk :: "string \<Rightarrow> fmt_arg list \<Rightarrow> 'a ide_state_scheme \<Rightarrow> 'a ide_state_scheme option" where
  "printk fmt args s = do {
     t \<leftarrow> format (lit fmt) args;
     _ \<leftarrow> ASSERT (length t < 1024);
     console_put_str (console_lock s) t s
   }"

text \<open>\<open>sprintf\<close> into a zeroed array of \<open>n\<close> bytes.\<close>

definition sprintf_arr :: "nat \<Rightarrow> string \<Rightarrow> fmt_arg list \<Rightarrow> u8 list option" where
  "sprintf_arr n fmt args = do {
     t \<leftarrow> format (lit fmt) args;
     _ \<leftarrow> ASSERT (length t < n);
     Some t
   }"

subsection \<open>The device\<close>

definition BIT_STAT_BSY :: u8 where "BIT_STAT_BSY = 0x80"
definition BIT_STAT_DRQ :: u8 where "BIT_STAT_DRQ = 0x8"
definition BIT_DEV_MBS :: u8 where "BIT_DEV_MBS = 0xa0"
definition BIT_DEV_LBA :: u8 where "BIT_DEV_LBA = 0x40"
definition BIT_DEV_DEV :: u8 where "BIT_DEV_DEV = 0x10"
definition CMD_IDENTIFY :: u8 where "CMD_IDENTIFY = 0xec"
definition CMD_READ_SECTOR :: u8 where "CMD_READ_SECTOR = 0x20"
definition CMD_WRITE_SECTOR :: u8 where "CMD_WRITE_SECTOR = 0x30"
definition max_lba :: u32 where "max_lba = 80 * 1024 * 1024 div 512 - 1"

text \<open>The byte last written to a port, and the registers of a channel with base port \<open>b\<close>.\<close>

definition port_reg :: "u16 \<Rightarrow> 'a cpu_scheme \<Rightarrow> u8" where
  "port_reg p s = (case List.find (\<lambda>(q, _). q = p) (rev (outs s)) of Some (_, v) \<Rightarrow> v | None \<Rightarrow> 0)"

definition ata_lba :: "u16 \<Rightarrow> 'a cpu_scheme \<Rightarrow> u32" where
  "ata_lba b s = ucast (port_reg (b + 3) s) OR push_bit 8 (ucast (port_reg (b + 4) s)) OR
     push_bit 16 (ucast (port_reg (b + 5) s)) OR push_bit 24 (ucast (port_reg (b + 6) s AND 0xf))"

definition ata_slave :: "u16 \<Rightarrow> 'a cpu_scheme \<Rightarrow> bool" where
  "ata_slave b s = bit (port_reg (b + 6) s) 4"

definition ata_cnt :: "u16 \<Rightarrow> 'a cpu_scheme \<Rightarrow> nat" where
  "ata_cnt b s = (if port_reg (b + 2) s = 0 then 256 else unat (port_reg (b + 2) s))"

definition sectors :: "u16 \<Rightarrow> bool \<Rightarrow> u32 \<Rightarrow> nat \<Rightarrow> 'a ide_state_scheme \<Rightarrow> u8 list" where
  "sectors b d lba n s = concat (map (\<lambda>i. platter s b d (lba + of_nat i)) [0..<n])"

text \<open>\<open>word_cnt\<close> words from the data port: what the command has made available.\<close>

definition insw :: "u16 \<Rightarrow> nat \<Rightarrow> 'a ide_state_scheme \<Rightarrow> u8 list option" where
  "insw b word_cnt s =
     (let xs = (if port_reg (b + 7) s = CMD_READ_SECTOR then sectors b (ata_slave b s) (ata_lba b s) (ata_cnt b s) s
                else if port_reg (b + 7) s = CMD_IDENTIFY then ata_ident s b (ata_slave b s) else [])
      in if 2 * word_cnt \<le> length xs then Some (take (2 * word_cnt) xs) else None)"

type_synonym platters = "u16 \<Rightarrow> bool \<Rightarrow> u32 \<Rightarrow> u8 list"

definition store_at :: "u16 \<Rightarrow> bool \<Rightarrow> u32 \<Rightarrow> u8 list \<Rightarrow> platters \<Rightarrow> platters" where
  "store_at b d lba xs pl = (\<lambda>b' d' l.
     if b' = b \<and> d' = d \<and> 512 * unat (l - lba) < length xs then take 512 (drop (512 * unat (l - lba)) xs)
     else pl b' d' l)"

definition put_sectors :: "u16 \<Rightarrow> bool \<Rightarrow> u32 \<Rightarrow> u8 list \<Rightarrow> 'a ide_state_scheme \<Rightarrow> 'a ide_state_scheme" where
  "put_sectors b d lba xs s = s\<lparr>platter := store_at b d lba xs (platter s)\<rparr>"

definition outsw :: "u16 \<Rightarrow> u8 list \<Rightarrow> 'a ide_state_scheme \<Rightarrow> 'a ide_state_scheme option" where
  "outsw b xs s =
     (if port_reg (b + 7) s = CMD_WRITE_SECTOR \<and> length xs = 512 * ata_cnt b s
      then Some (put_sectors b (ata_slave b s) (ata_lba b s) xs s) else None)"

definition rd_status :: "u16 \<Rightarrow> 'a ide_state_scheme \<Rightarrow> u8 \<times> 'a ide_state_scheme" where
  "rd_status b s =
     (case ata_status s b of [] \<Rightarrow> (0, s) | [v] \<Rightarrow> (v, s)
      | v # vs \<Rightarrow> (v, s\<lparr>ata_status := (ata_status s)(b := vs)\<rparr>))"

subsection \<open>Transfers\<close>

definition select_disk :: "addr \<Rightarrow> 'a ide_state_scheme \<Rightarrow> 'a ide_state_scheme" where
  "select_disk dk s =
     (let reg_device = BIT_DEV_MBS OR BIT_DEV_LBA;
          reg_device = (if dev_no (disks s dk) = 1 then reg_device OR BIT_DEV_DEV else reg_device)
      in outb (port_base (chans s (my_channel (disks s dk))) + 6) reg_device s)"

definition select_sector :: "addr \<Rightarrow> u32 \<Rightarrow> u8 \<Rightarrow> 'a ide_state_scheme \<Rightarrow> 'a ide_state_scheme option" where
  "select_sector dk lba nsec s = do {
     _ \<leftarrow> ASSERT (lba \<le> max_lba);
     let b = port_base (chans s (my_channel (disks s dk)));
     let s = outb (b + 2) nsec s;
     let s = outb (b + 3) (ucast lba) s;
     let s = outb (b + 4) (ucast (drop_bit 8 lba)) s;
     let s = outb (b + 5) (ucast (drop_bit 16 lba)) s;
     Some (outb (b + 6) (BIT_DEV_MBS OR BIT_DEV_LBA OR (if dev_no (disks s dk) = 1 then BIT_DEV_DEV else 0) OR
       ucast (drop_bit 24 lba)) s)
   }"

definition cmd_out :: "addr \<Rightarrow> u8 \<Rightarrow> 'a ide_state_scheme \<Rightarrow> 'a ide_state_scheme" where
  "cmd_out channel cmd s =
     (let s = upd_chan channel (\<lambda>c. c\<lparr>expecting_intr := True\<rparr>) s
      in outb (port_base (chans s channel) + 7) cmd s)"

definition size_in_byte :: "u8 \<Rightarrow> nat" where
  "size_in_byte nsec = (if nsec = 0 then 256 * 512 else unat nsec * 512)"

definition read_from_sector :: "addr \<Rightarrow> u8 \<Rightarrow> 'a ide_state_scheme \<Rightarrow> u8 list option" where
  "read_from_sector dk nsec s =
     insw (port_base (chans s (my_channel (disks s dk)))) (size_in_byte nsec div 2) s"

definition write2sector :: "addr \<Rightarrow> u8 list \<Rightarrow> u8 \<Rightarrow> 'a ide_state_scheme \<Rightarrow> 'a ide_state_scheme option" where
  "write2sector dk bf nsec s = do {
     _ \<leftarrow> ASSERT (size_in_byte nsec \<le> length bf);
     outsw (port_base (chans s (my_channel (disks s dk)))) (take (2 * (size_in_byte nsec div 2)) bf) s
   }"

text \<open>\<open>time_limit -= 10 >= 0\<close> subtracts the truth value of the comparison, 1, and ends the loop at 0: the argument is the number of
  turns left.\<close>

primrec busy_loop :: "nat \<Rightarrow> u16 \<Rightarrow> 'a ide_state_scheme \<Rightarrow> bool \<times> 'a ide_state_scheme" where
  "busy_loop 0 b s = (False, s)"
| "busy_loop (Suc n) b s =
     (let (v, s) = rd_status b s in
      if v AND BIT_STAT_BSY = 0 then (let (v, s) = rd_status b s in (v AND BIT_STAT_DRQ \<noteq> 0, s))
      else busy_loop n b s)"

definition busy_wait :: "addr \<Rightarrow> 'a ide_state_scheme \<Rightarrow> bool \<times> 'a ide_state_scheme" where
  "busy_wait dk s = busy_loop (30 * 1000 - 1) (port_base (chans s (my_channel (disks s dk))) + 7) s"

definition intr_hd_handler :: "u8 \<Rightarrow> 'a ide_state_scheme \<Rightarrow> 'a ide_state_scheme option" where
  "intr_hd_handler irq s = do {
     _ \<leftarrow> ASSERT (irq = 0x2e \<or> irq = 0x2f);
     let channel = channel_at (unat (irq - 0x2e)) s;
     _ \<leftarrow> ASSERT (irq_no (chans s channel) = irq);
     if expecting_intr (chans s channel) then do {
       let s = upd_chan channel (\<lambda>c. c\<lparr>expecting_intr := False\<rparr>) s;
       s \<leftarrow> sema_up (disk_done channel) s;
       Some (snd (rd_status (port_base (chans s channel) + 7) s))
     } else Some s
   }"

text \<open>The end of a command: its interrupt, then \<open>sema_down(&channel->disk_done)\<close>.\<close>

definition disk_wait :: "addr \<Rightarrow> 'a ide_state_scheme \<Rightarrow> 'a ide_state_scheme option" where
  "disk_wait channel s = do {
     s \<leftarrow> intr_hd_handler (irq_no (chans s channel)) s;
     (_, w, s) \<leftarrow> sema_down (disk_done channel) s;
     case w of Got \<Rightarrow> Some s | Slept _ \<Rightarrow> None
   }"

definition secs_op :: "u32 \<Rightarrow> u32 \<Rightarrow> u32" where
  "secs_op secs_done nsec = (if secs_done + 256 \<le> nsec then 256 else nsec - secs_done)"

partial_function (option) read_loop ::
    "addr \<Rightarrow> u32 \<Rightarrow> u32 \<Rightarrow> u32 \<Rightarrow> u8 list \<Rightarrow> 'a ide_state_scheme \<Rightarrow> (u8 list \<times> 'a ide_state_scheme) option" where
  "read_loop dk lba secs_done nsec bf s =
     (if secs_done < nsec then do {
        let op = secs_op secs_done nsec;
        s \<leftarrow> select_sector dk (lba + secs_done) (ucast op) s;
        let s = cmd_out (my_channel (disks s dk)) CMD_READ_SECTOR s;
        s \<leftarrow> disk_wait (my_channel (disks s dk)) s;
        let (ready, s) = busy_wait dk s;
        _ \<leftarrow> ASSERT ready;
        xs \<leftarrow> read_from_sector dk (ucast op) s;
        read_loop dk lba (secs_done + op) nsec (bf @ xs) s
      } else Some (bf, s))"

definition ide_read :: "addr \<Rightarrow> u32 \<Rightarrow> u32 \<Rightarrow> 'a ide_state_scheme \<Rightarrow> (u8 list \<times> 'a ide_state_scheme) option" where
  "ide_read dk lba nsec s = do {
     _ \<leftarrow> ASSERT (lba \<le> max_lba);
     _ \<leftarrow> ASSERT (nsec > 0);
     let L = ch_lock (my_channel (disks s dk));
     s \<leftarrow> lock_now L s;
     let s = select_disk dk s;
     (bf, s) \<leftarrow> read_loop dk lba 0 nsec [] s;
     s \<leftarrow> lock_release L s;
     Some (bf, s)
   }"

partial_function (option) write_loop ::
    "addr \<Rightarrow> u32 \<Rightarrow> u32 \<Rightarrow> u32 \<Rightarrow> u8 list \<Rightarrow> 'a ide_state_scheme \<Rightarrow> 'a ide_state_scheme option" where
  "write_loop dk lba secs_done nsec bf s =
     (if secs_done < nsec then do {
        let op = secs_op secs_done nsec;
        s \<leftarrow> select_sector dk (lba + secs_done) (ucast op) s;
        let s = cmd_out (my_channel (disks s dk)) CMD_WRITE_SECTOR s;
        let (ready, s) = busy_wait dk s;
        _ \<leftarrow> ASSERT ready;
        s \<leftarrow> write2sector dk (drop (unat secs_done * 512) bf) (ucast op) s;
        s \<leftarrow> disk_wait (my_channel (disks s dk)) s;
        write_loop dk lba (secs_done + op) nsec bf s
      } else Some s)"

definition ide_write :: "addr \<Rightarrow> u32 \<Rightarrow> u8 list \<Rightarrow> u32 \<Rightarrow> 'a ide_state_scheme \<Rightarrow> 'a ide_state_scheme option" where
  "ide_write dk lba bf nsec s = do {
     _ \<leftarrow> ASSERT (lba \<le> max_lba);
     _ \<leftarrow> ASSERT (nsec > 0);
     let L = ch_lock (my_channel (disks s dk));
     s \<leftarrow> lock_now L s;
     let s = select_disk dk s;
     s \<leftarrow> write_loop dk lba 0 nsec bf s;
     lock_release L s
   }"

subsection \<open>Disks and partitions\<close>

text \<open>A little-endian word inside a list of bytes.\<close>

definition le32 :: "u8 list \<Rightarrow> nat \<Rightarrow> u32" where
  "le32 xs i = ucast (xs ! i) OR push_bit 8 (ucast (xs ! (i + 1))) OR push_bit 16 (ucast (xs ! (i + 2))) OR
     push_bit 24 (ucast (xs ! (i + 3)))"

text \<open>\<open>idx\<close> is a byte: for \<open>len\<close> above 255 the loop would not end. The first argument is what is left at \<open>dst\<close>.\<close>

partial_function (option) swap_loop :: "u8 list \<Rightarrow> u8 \<Rightarrow> u32 \<Rightarrow> u8 list \<Rightarrow> u8 list option" where
  "swap_loop dst idx len bf =
     (if ucast idx < len then do {
        a \<leftarrow> get_at dst 0;
        bf \<leftarrow> set_at bf (unat idx + 1) a;
        b \<leftarrow> get_at dst 1;
        bf \<leftarrow> set_at bf (unat idx) b;
        swap_loop (drop 2 dst) (idx + 2) len bf
      } else set_at bf (unat idx) 0)"

definition swap_pairs_bytes :: "u8 list \<Rightarrow> u8 list \<Rightarrow> u32 \<Rightarrow> u8 list option" where
  "swap_pairs_bytes dst bf len = swap_loop dst 0 len bf"

text \<open>The local buffer of \<open>identify_disk\<close> starts with unknown bytes \<open>garbage\<close>.\<close>

definition identify_disk :: "u8 list \<Rightarrow> addr \<Rightarrow> 'a ide_state_scheme \<Rightarrow> 'a ide_state_scheme option" where
  "identify_disk garbage dk s = do {
     let s = select_disk dk s;
     let s = cmd_out (my_channel (disks s dk)) CMD_IDENTIFY s;
     s \<leftarrow> disk_wait (my_channel (disks s dk)) s;
     let (ready, s) = busy_wait dk s;
     _ \<leftarrow> ASSERT ready;
     id_info \<leftarrow> read_from_sector dk 1 s;
     bf \<leftarrow> swap_pairs_bytes (drop 20 id_info) garbage 20;
     sn \<leftarrow> str_of bf;
     s \<leftarrow> printk ''    disk %s info:\<newline>     SN: %s\<newline>'' [AStr (disk_name (disks s dk)), AStr sn] s;
     bf \<leftarrow> swap_pairs_bytes (drop 54 id_info) (replicate 64 0) 40;
     md \<leftarrow> str_of bf;
     s \<leftarrow> printk ''    MODULE: %s\<newline>'' [AStr md] s;
     let sectors = le32 id_info 120;
     s \<leftarrow> printk ''    SECTORS: %d\<newline>'' [AInt sectors] s;
     printk ''    CAPACITY: %dMB\<newline>'' [AInt (sectors * 512 div 1024 div 1024)] s
   }"

definition add_part :: "addr \<Rightarrow> addr \<Rightarrow> u32 \<Rightarrow> u32 \<Rightarrow> u32 \<Rightarrow> 'a ide_state_scheme \<Rightarrow> 'a ide_state_scheme option" where
  "add_part dk part start n number s = do {
     let s = upd_part part (\<lambda>p. p\<lparr>start_lba := start, sec_cnt := n, my_disk := dk\<rparr>) s;
     s \<leftarrow> list_append (partition_list s) (part_tag part) s;
     nm \<leftarrow> sprintf_arr 8 ''%s%d'' [AStr (disk_name (disks s dk)), AInt number];
     Some (upd_part part (\<lambda>p. p\<lparr>part_name := nm\<rparr>) s)
   }"

text \<open>The loop over the partition table in the bytes \<open>bs\<close>; \<open>recur\<close> is the recursive call. The result tells whether the
  loop was left by \<open>return\<close>.\<close>

primrec scan_entries ::
    "(u32 \<Rightarrow> 'a ide_state_scheme \<Rightarrow> 'a ide_state_scheme option) \<Rightarrow> addr \<Rightarrow> u32 \<Rightarrow> u8 list \<Rightarrow> nat list \<Rightarrow>
     'a ide_state_scheme \<Rightarrow> (bool \<times> 'a ide_state_scheme) option" where
  "scan_entries recur dk ext_lba bs [] s = Some (False, s)"
| "scan_entries recur dk ext_lba bs (i # is) s = do {
     let p = 446 + 16 * i;
     let fs_type = bs ! (p + 4);
     let p_start_lba = le32 bs (p + 8);
     let p_sec_cnt = le32 bs (p + 12);
     if fs_type = 5 then do {
       s \<leftarrow> (if ext_lba_base s \<noteq> 0 then recur (p_start_lba + ext_lba_base s) s
            else recur p_start_lba (s\<lparr>ext_lba_base := p_start_lba\<rparr>));
       scan_entries recur dk ext_lba bs is s
     } else if fs_type \<noteq> 0 then
       if ext_lba = 0 then do {
         s \<leftarrow> add_part dk (prim_part dk (unat (p_no s))) (ext_lba + p_start_lba) p_sec_cnt (ucast (p_no s) + 1) s;
         let s = s\<lparr>p_no := p_no s + 1\<rparr>;
         _ \<leftarrow> ASSERT (p_no s < 4);
         scan_entries recur dk ext_lba bs is s
       } else do {
         s \<leftarrow> add_part dk (logic_part dk (unat (l_no s))) (ext_lba + p_start_lba) p_sec_cnt (ucast (l_no s) + 5) s;
         let s = s\<lparr>l_no := l_no s + 1\<rparr>;
         if l_no s \<ge> 8 then Some (True, s) else scan_entries recur dk ext_lba bs is s
       }
     else scan_entries recur dk ext_lba bs is s
   }"

text \<open>A chain of extended partitions may be arbitrarily long: \<open>depth\<close> bounds the nested calls, which the kernel
  stack has room for.\<close>

primrec partition_scan :: "nat \<Rightarrow> addr \<Rightarrow> u32 \<Rightarrow> 'a ide_state_scheme \<Rightarrow> 'a ide_state_scheme option" where
  "partition_scan 0 dk ext_lba s = None"
| "partition_scan (Suc depth) dk ext_lba s = do {
     (bs, s) \<leftarrow> sys_malloc 512 s;
     _ \<leftarrow> ASSERT (bs \<noteq> NULL);
     (xs, s) \<leftarrow> ide_read dk ext_lba 1 s;
     (returned, s) \<leftarrow> scan_entries (partition_scan depth dk) dk ext_lba xs [0..<4] s;
     if returned then Some s else sys_free bs s
   }"

definition partition_info :: "addr \<Rightarrow> u32 \<Rightarrow> 'a ide_state_scheme \<Rightarrow> (bool \<times> 'a ide_state_scheme) option" where
  "partition_info pelem arg s = do {
     let part = parts s (part_tag_entry pelem);
     s \<leftarrow> printk ''    %s start_lba:0x%x, sec_cnt:0x%x\<newline>''
       [AStr (part_name part), AInt (start_lba part), AInt (sec_cnt part)] s;
     Some (False, s)
   }"

definition init_disk :: "u8 list \<Rightarrow> nat \<Rightarrow> nat \<Rightarrow> nat \<Rightarrow> 'a ide_state_scheme \<Rightarrow> 'a ide_state_scheme option" where
  "init_disk garbage depth channel_no i s = do {
     let channel = channel_at channel_no s;
     let dk = device_at channel i;
     nm \<leftarrow> sprintf_arr 8 ''sd%c'' [AChr (of_nat (97 + channel_no * 2 + i))];
     let s = s\<lparr>disks := (disks s)(dk := \<lparr>disk_name = nm, my_channel = channel, dev_no = of_nat i\<rparr>)\<rparr>;
     s \<leftarrow> identify_disk garbage dk s;
     s \<leftarrow> (if i \<noteq> 0 then partition_scan depth dk 0 s else Some s);
     Some (s\<lparr>p_no := 0, l_no := 0\<rparr>)
   }"

definition init_channel ::
    "addr \<Rightarrow> u8 list \<Rightarrow> nat \<Rightarrow> nat \<Rightarrow> 'a ide_state_scheme \<Rightarrow> 'a ide_state_scheme option" where
  "init_channel handler garbage depth channel_no s = do {
     let channel = channel_at channel_no s;
     nm \<leftarrow> sprintf_arr 8 ''ide%d'' [AInt (of_nat channel_no)];
     let (port, irq) = (case channel_no of 0 \<Rightarrow> (0x1f0, 0x20 + 14)
                          | Suc 0 \<Rightarrow> (0x170, 0x20 + 15)
                          | _ \<Rightarrow> (port_base (chans s channel), irq_no (chans s channel)));
     let s = upd_chan channel (\<lambda>_. \<lparr>channel_name = nm, port_base = port, irq_no = irq, expecting_intr = False\<rparr>) s;
     s \<leftarrow> lock_init (ch_lock channel) s;
     s \<leftarrow> sema_init (disk_done channel) 0 s;
     s \<leftarrow> register_handler irq handler s;
     s \<leftarrow> init_disk garbage depth channel_no 0 s;
     init_disk garbage depth channel_no 1 s
   }"

primrec init_channels ::
    "nat \<Rightarrow> nat \<Rightarrow> addr \<Rightarrow> u8 list \<Rightarrow> nat \<Rightarrow> 'a ide_state_scheme \<Rightarrow> 'a ide_state_scheme option" where
  "init_channels 0 channel_no handler garbage depth s = Some s"
| "init_channels (Suc n) channel_no handler garbage depth s = do {
     s \<leftarrow> init_channel handler garbage depth channel_no s;
     init_channels n (channel_no + 1) handler garbage depth s
   }"

text \<open>The firmware left the number of disks in the byte at address \<open>0x475\<close>; \<open>handler\<close> is the address of \<open>intr_hd_handler\<close>.\<close>

definition ide_init ::
    "addr \<Rightarrow> u8 list \<Rightarrow> nat \<Rightarrow> 'a ide_state_scheme \<Rightarrow> 'a ide_state_scheme option" where
  "ide_init handler garbage depth s = do {
     s \<leftarrow> printk ''ide_init start\<newline>'' [] s;
     w \<leftarrow> load32 0x474 s;
     let hd_cnt = (ucast (drop_bit 8 w) :: u8);
     _ \<leftarrow> ASSERT (hd_cnt > 0);
     s \<leftarrow> list_init (partition_list s) s;
     let s = s\<lparr>channel_cnt := ucast (DIV_ROUND_UP (ucast hd_cnt) 2)\<rparr>;
     s \<leftarrow> init_channels (unat (channel_cnt s)) 0 handler garbage depth s;
     s \<leftarrow> printk ''\<newline>  all partition info\<newline>'' [] s;
     (_, s) \<leftarrow> list_traversal (partition_list s) partition_info 0 s;
     printk ''ide_init done\<newline>'' [] s
   }"

subsection \<open>Correctness of the transfers\<close>

definition log_out :: "(u16 \<times> u8) list \<Rightarrow> 'a cpu_scheme \<Rightarrow> 'a cpu_scheme" where
  "log_out xs s = s\<lparr>outs := outs s @ xs\<rparr>"

lemma log_out_simps [simp]:
  "outs (log_out xs s) = outs s @ xs" "log_out ys (log_out xs s) = log_out (xs @ ys) s"
  by (simp_all add: log_out_def)

lemma outb_log: "outb p v s = log_out [(p, v)] s"
  by (simp add: outb_def log_out_def)

text \<open>The four address bytes put together again are the address.\<close>

lemma bit_0xf: "bit (0xf :: u8) n \<longleftrightarrow> n < 4" "bit (0xf :: int) n \<longleftrightarrow> n < 4" "bit (0xf :: nat) n \<longleftrightarrow> n < 4"
proof -
  have "(0xf :: u8) = mask 4" "(0xf :: int) = mask 4" "(0xf :: nat) = mask 4" by (simp_all add: mask_eq_exp_minus_1)
  then show "bit (0xf :: u8) n \<longleftrightarrow> n < 4" "bit (0xf :: int) n \<longleftrightarrow> n < 4" "bit (0xf :: nat) n \<longleftrightarrow> n < 4"
    by (simp only: bit_mask_iff; auto)+
qed

lemma low_nibble: "f AND (0xf :: u8) = 0 \<Longrightarrow> k < 4 \<Longrightarrow> \<not> bit f k"
  by (metis bit_0_eq bit_0xf(1) bit_and_iff bot_apply bot_bool_def)

lemma lba_bytes:
  assumes "lba < 0x10000000" "f AND 0xf = 0"
  shows "(ucast (ucast lba :: u8) :: u32) OR push_bit 8 (ucast (ucast (drop_bit 8 lba) :: u8)) OR
     push_bit 16 (ucast (ucast (drop_bit 16 lba) :: u8)) OR
     push_bit 24 (ucast ((f OR ucast (drop_bit 24 lba)) AND (0xf :: u8))) = lba"
proof (rule bit_word_eqI)
  fix n assume n: "n < LENGTH(32)"
  have hi: "\<not> bit lba n" if "28 \<le> n"
  proof -
    have "lba = take_bit 28 lba"
      using assms(1) by (simp add: word_unat_eq_iff unsigned_take_bit_eq word_less_nat_alt take_bit_eq_mod unat_mod)
    then show ?thesis using that by (metis bit_take_bit_iff not_less)
  qed
  have f: "\<not> bit f (n - 24)" if "n < 28" "24 \<le> n"
    using low_nibble [OF assms(2), of "n - 24"] that by simp
  consider "n < 8" | "8 \<le> n" "n < 16" | "16 \<le> n" "n < 24" | "24 \<le> n" "n < 28" | "28 \<le> n" by linarith
  then show "bit ((ucast (ucast lba :: u8) :: u32) OR push_bit 8 (ucast (ucast (drop_bit 8 lba) :: u8)) OR
     push_bit 16 (ucast (ucast (drop_bit 16 lba) :: u8)) OR
     push_bit 24 (ucast ((f OR ucast (drop_bit 24 lba)) AND (0xf :: u8)))) n = bit lba n"
    using n hi f by cases (auto simp: bit_or_iff bit_and_iff bit_push_bit_iff bit_ucast_iff bit_drop_bit_eq bit_0xf)
qed

text \<open>The channel of a disk is at rest and the device behind it answers; transfers keep this.\<close>

definition disk_port :: "addr \<Rightarrow> 'a ide_state_scheme \<Rightarrow> u16" where
  "disk_port dk s = port_base (chans s (my_channel (disks s dk)))"

definition disk_slave :: "addr \<Rightarrow> 'a ide_state_scheme \<Rightarrow> bool" where
  "disk_slave dk s \<longleftrightarrow> dev_no (disks s dk) = 1"

definition chan_ready :: "addr \<Rightarrow> 'a ide_state_scheme \<Rightarrow> bool" where
  "chan_ready dk s \<longleftrightarrow>
     (let ch = my_channel (disks s dk); c = chans s ch in
      sema_value s (disk_done ch) = 0 \<and> list_empty (sema_waiters (disk_done ch)) s = Some True \<and>
      (irq_no c = 0x2e \<or> irq_no c = 0x2f) \<and> channel_at (unat (irq_no c - 0x2e)) s = ch \<and> \<not> expecting_intr c \<and>
      (\<exists>v. ata_status s (port_base c + 7) = [v] \<and> v AND BIT_STAT_BSY = 0 \<and> v AND BIT_STAT_DRQ \<noteq> 0) \<and>
      (\<forall>l. length (platter s (port_base c) (disk_slave dk s) l) = 512))"

lemma chan_readyD:
  assumes "chan_ready dk s" "ch = my_channel (disks s dk)"
  shows "sema_value s (disk_done ch) = 0" "list_empty (sema_waiters (disk_done ch)) s = Some True"
    "irq_no (chans s ch) = 0x2e \<or> irq_no (chans s ch) = 0x2f" "channel_at (unat (irq_no (chans s ch) - 0x2e)) s = ch"
    "\<not> expecting_intr (chans s ch)" "length (platter s (disk_port dk s) (disk_slave dk s) l) = 512"
    "\<exists>v. ata_status s (disk_port dk s + 7) = [v] \<and> v AND BIT_STAT_BSY = 0 \<and> v AND BIT_STAT_DRQ \<noteq> 0"
  using assms by (auto simp: chan_ready_def disk_port_def Let_def)

lemma busy_wait_ready: 
  assumes "ata_status s (disk_port dk s + 7) = [v]" "v AND BIT_STAT_BSY = 0" "v AND BIT_STAT_DRQ \<noteq> 0"
  shows "busy_wait dk s = (True, s)"
proof -
  have "busy_loop (Suc n) (disk_port dk s + 7) s = (True, s)" for n
    using assms by (simp add: rd_status_def)
  from this [of 29998] show ?thesis by (simp add: busy_wait_def disk_port_def)
qed

lemma disk_wait_ok:
  fixes s :: "'a ide_state_scheme"
  assumes "chan_ready dk s" "ch = my_channel (disks s dk)"
  shows "disk_wait ch ((upd_chan ch (\<lambda>c. c\<lparr>expecting_intr := True\<rparr>) s)\<lparr>outs := os, platter := pl\<rparr>) =
    Some (s\<lparr>outs := os, platter := pl\<rparr>)"
proof -
  note R = chan_readyD [OF assms]
  let ?s = "s\<lparr>outs := os, platter := pl\<rparr>" and ?q = "disk_done ch"
  define t where "t = (upd_chan ch (\<lambda>c. c\<lparr>expecting_intr := True\<rparr>) s)\<lparr>outs := os, platter := pl\<rparr>"
  have at: "channel_at n t = channel_at n s" for n by (simp add: channel_at_def upd_chan_def t_def)
  have ct: "irq_no (chans t ch) = irq_no (chans s ch)" "expecting_intr (chans t ch)"
    by (simp_all add: t_def upd_chan_def)
  have "(chans s)(ch := (chans s ch)\<lparr>expecting_intr := False\<rparr>) = chans s"
    using R(5) by (intro ext) simp
  then have off: "upd_chan ch (\<lambda>c. c\<lparr>expecting_intr := False\<rparr>) t = ?s"
    by (simp add: upd_chan_def t_def)
  have e: "list_empty (sema_waiters ?q) ?s = Some True" using R(2) list_empty_cong [of ?s s] by simp
  have up: "sema_up ?q ?s = Some (set_value ?q 1 ?s)" using R(1) e by (intro sema_up_alone) simp_all
  obtain v where v: "ata_status s (port_base (chans s ch) + 7) = [v]"
    using R(7) assms(2) by (auto simp: disk_port_def)
  have rd: "rd_status (port_base (chans s ch) + 7) (set_value ?q 1 ?s) = (v, set_value ?q 1 ?s)"
    using v by (simp add: rd_status_def set_value_def)
  have "chans (set_value ?q 1 ?s) = chans s" by (simp add: set_value_def)
  then have "intr_hd_handler (irq_no (chans t ch)) t = Some (set_value ?q 1 ?s)"
    using R(3,4) by (auto simp: intr_hd_handler_def at ct off up rd)
  moreover have "set_value ?q 0 (set_value ?q 1 ?s) = ?s"
    using R(1) by (simp add: set_value_def fun_upd_idem)
  moreover have "sema_value (set_value ?q 1 ?s) ?q = 1" by (simp add: set_value_def)
  ultimately show ?thesis using sema_down_got [of "set_value ?q 1 ?s" ?q] by (simp add: disk_wait_def t_def [symmetric])
qed

definition xfer_log :: "u16 \<Rightarrow> bool \<Rightarrow> u32 \<Rightarrow> u8 \<Rightarrow> u8 \<Rightarrow> (u16 \<times> u8) list" where
  "xfer_log b d lba c cmd =
     [(b + 2, c), (b + 3, ucast lba), (b + 4, ucast (drop_bit 8 lba)), (b + 5, ucast (drop_bit 16 lba)),
      (b + 6, BIT_DEV_MBS OR BIT_DEV_LBA OR (if d then BIT_DEV_DEV else 0) OR ucast (drop_bit 24 lba)), (b + 7, cmd)]"

lemma xfer_regs:
  assumes "outs x = os @ xfer_log b d lba c cmd"
  shows "port_reg (b + 2) x = c" "port_reg (b + 3) x = ucast lba" "port_reg (b + 4) x = ucast (drop_bit 8 lba)"
    "port_reg (b + 5) x = ucast (drop_bit 16 lba)"
    "port_reg (b + 6) x = BIT_DEV_MBS OR BIT_DEV_LBA OR (if d then BIT_DEV_DEV else 0) OR ucast (drop_bit 24 lba)"
    "port_reg (b + 7) x = cmd"
  by (simp_all add: port_reg_def assms xfer_log_def)

lemma xfer_ata:
  assumes "outs x = os @ xfer_log b d lba c cmd" "lba \<le> max_lba"
  shows "ata_lba b x = lba" "ata_slave b x = d" "ata_cnt b x = (if c = 0 then 256 else unat c)"
proof -
  have l: "lba < 0x10000000" by (rule le_less_trans [OF assms(2)]) (simp add: max_lba_def)
  have f: "(BIT_DEV_MBS OR BIT_DEV_LBA OR (if d then BIT_DEV_DEV else 0)) AND 0xf = 0"
    by (simp add: BIT_DEV_MBS_def BIT_DEV_LBA_def BIT_DEV_DEV_def)
  show "ata_lba b x = lba"
    using lba_bytes [OF l f] by (simp add: ata_lba_def xfer_regs [OF assms(1)] or.assoc)
  have "\<not> bit lba 28"
  proof -
    have "lba = take_bit 28 lba"
      using l by (simp add: word_unat_eq_iff unsigned_take_bit_eq word_less_nat_alt take_bit_eq_mod unat_mod)
    then show ?thesis by (metis bit_take_bit_iff less_irrefl)
  qed
  then show "ata_slave b x = d"
    by (simp add: ata_slave_def xfer_regs [OF assms(1)] bit_or_iff bit_ucast_iff bit_drop_bit_eq BIT_DEV_MBS_def
        BIT_DEV_LBA_def BIT_DEV_DEV_def)
  show "ata_cnt b x = (if c = 0 then 256 else unat c)" by (simp add: ata_cnt_def xfer_regs [OF assms(1)])
qed

lemma start_cmd:
  assumes "lba \<le> max_lba"
  shows "select_sector dk lba c s = Some (log_out (butlast (xfer_log (disk_port dk s) (disk_slave dk s) lba c cmd)) s)"
    "cmd_out (my_channel (disks s dk)) cmd (log_out (butlast (xfer_log (disk_port dk s) (disk_slave dk s) lba c cmd)) s) =
     (upd_chan (my_channel (disks s dk)) (\<lambda>c. c\<lparr>expecting_intr := True\<rparr>) s)
       \<lparr>outs := outs s @ xfer_log (disk_port dk s) (disk_slave dk s) lba c cmd\<rparr>"
  using assms
  by (simp_all add: select_sector_def outb_log xfer_log_def disk_port_def disk_slave_def log_out_def Let_def cmd_out_def
      upd_chan_def outb_def)

lemma op_size:
  assumes "0 < op" "op \<le> (256 :: u32)"
  shows "size_in_byte (ucast op) = 512 * unat op" "(if (ucast op :: u8) = 0 then 256 else unat (ucast op :: u8)) = unat op"
proof -
  have u: "unat (ucast op :: u8) = unat op mod 256" by (simp add: unsigned_ucast_eq take_bit_eq_mod)
  have o: "0 < unat op" "unat op \<le> 256" using assms by (simp_all add: word_less_nat_alt word_le_nat_alt)
  have z: "(ucast op :: u8) = 0 \<longleftrightarrow> unat op = 256"
    using o by (auto simp: word_unat_eq_iff u)
  show "(if (ucast op :: u8) = 0 then 256 else unat (ucast op :: u8)) = unat op"
    using o z u by auto
  then show "size_in_byte (ucast op) = 512 * unat op" by (auto simp: size_in_byte_def)
qed

lemma length_sectors:
  assumes "\<And>l. length (platter s b d l) = 512"
  shows "length (sectors b d lba n s) = 512 * n"
  by (induction n) (simp_all add: sectors_def assms)

lemma sectors_cong: "platter s' = platter s \<Longrightarrow> sectors b d lba n s' = sectors b d lba n s"
  by (simp add: sectors_def)

lemma sectors_append:
  "sectors b d lba (m + n) s = sectors b d lba m s @ sectors b d (lba + of_nat m) n s"
by (induction n) (simp_all add: sectors_def add.assoc)

lemma chan_ready_outs: "chan_ready dk s \<Longrightarrow> chan_ready dk (s\<lparr>outs := os\<rparr>)"
  using list_empty_cong [of "s\<lparr>outs := os\<rparr>" s]
  by (simp add: chan_ready_def Let_def channel_at_def disk_slave_def)

lemma secs_op_facts:
  assumes "secs < nsec" "nsec < 0x80000000"
  shows "0 < secs_op secs nsec" "secs_op secs nsec \<le> 256"
    "unat (secs + secs_op secs nsec) = unat secs + unat (secs_op secs nsec)"
    "unat secs + unat (secs_op secs nsec) \<le> unat nsec"
proof -
  have a: "unat secs < unat nsec" "unat nsec < 0x80000000" using assms by (simp_all add: word_less_nat_alt)
  then have "unat (secs + 256) = unat secs + 256" by (subst unat_word_ariths) simp
  then have c: "secs + 256 \<le> nsec \<longleftrightarrow> unat secs + 256 \<le> unat nsec" by (simp add: word_le_nat_alt)
  have "unat (secs_op secs nsec) = min 256 (unat nsec - unat secs)"
    using a c unat_sub [of secs nsec] by (auto simp: secs_op_def word_le_nat_alt)
  then have o: "0 < unat (secs_op secs nsec)" "unat (secs_op secs nsec) \<le> 256"
    "unat secs + unat (secs_op secs nsec) \<le> unat nsec"
    using a by auto
  then show "0 < secs_op secs nsec" "secs_op secs nsec \<le> 256" "unat secs + unat (secs_op secs nsec) \<le> unat nsec"
    by (simp_all add: word_less_nat_alt word_le_nat_alt)
  show "unat (secs + secs_op secs nsec) = unat secs + unat (secs_op secs nsec)"
    using o a by (subst unat_word_ariths) simp
qed

lemma lba_add:
  assumes "unat lba + unat nsec \<le> Suc (unat max_lba)" "secs < nsec"
  shows "lba + secs \<le> max_lba"
proof -
  have m: "unat max_lba = 163839" by (simp add: max_lba_def)
  have "unat (lba + secs) = unat lba + unat secs"
    using assms by (subst unat_word_ariths) (simp add: m word_less_nat_alt)
  then show ?thesis using assms by (simp add: word_le_nat_alt word_less_nat_alt)
qed

lemma read_chunk:
  fixes op :: u32
  assumes r: "chan_ready dk s" and l: "lba \<le> max_lba" and op: "0 < op" "op \<le> 256"
  shows "\<exists>os. do {
      s \<leftarrow> select_sector dk lba (ucast op) s;
      let s = cmd_out (my_channel (disks s dk)) CMD_READ_SECTOR s;
      s \<leftarrow> disk_wait (my_channel (disks s dk)) s;
      let (ready, s) = busy_wait dk s;
      _ \<leftarrow> ASSERT ready;
      xs \<leftarrow> read_from_sector dk (ucast op) s;
      f xs s } = f (sectors (disk_port dk s) (disk_slave dk s) lba (unat op) s) (log_out os s)"
proof -
  let ?b = "disk_port dk s" and ?d = "disk_slave dk s" and ?ch = "my_channel (disks s dk)"
  define os where "os = xfer_log ?b ?d lba (ucast op) CMD_READ_SECTOR"
  define u where "u = (upd_chan ?ch (\<lambda>c. c\<lparr>expecting_intr := True\<rparr>) s)\<lparr>outs := outs s @ os\<rparr>"
  define t where "t = log_out os s"
  have u: "u = (upd_chan ?ch (\<lambda>c. c\<lparr>expecting_intr := True\<rparr>) s)\<lparr>outs := outs s @ os, platter := platter s\<rparr>"
    "s\<lparr>outs := outs s @ os, platter := platter s\<rparr> = t" by (simp_all add: u_def t_def log_out_def upd_chan_def)
  have w: "disk_wait ?ch u = Some t"
    using disk_wait_ok [OF r refl, of "platter s" "outs s @ os"] unfolding u .
  have rt: "chan_ready dk t" using chan_ready_outs r by (simp add: t_def log_out_def)
  have t: "disk_port dk t = ?b" "disks t = disks s" "platter t = platter s" "outs t = outs s @ os"
    by (simp_all add: t_def disk_port_def log_out_def)
  have bw: "busy_wait dk t = (True, t)" using chan_readyD(7) [OF rt refl] busy_wait_ready by blast
  have len: "length (sectors ?b ?d lba (unat op) t) = 512 * unat op"
    using chan_readyD(6) [OF r refl] t(3) by (intro length_sectors) simp
  have p: "port_base (chans t (my_channel (disks t dk))) = ?b" using t(1) by (simp only: disk_port_def)
  have rd: "read_from_sector dk (ucast op) t = Some (sectors ?b ?d lba (unat op) s)"
    using xfer_regs(6) [OF t(4) [unfolded os_def]] xfer_ata [OF t(4) [unfolded os_def] l] len sectors_cong [OF t(3)]
    unfolding read_from_sector_def p insw_def op_size [OF op] by (simp add: Let_def)
  have c: "cmd_out (my_channel (disks x dk)) CMD_READ_SECTOR x = u" "disks u = disks s"
    if "x = log_out (butlast os) s" for x
    using start_cmd(2) [OF l, where dk = dk and cmd = CMD_READ_SECTOR and c = "ucast op" and s = s] that
    by (simp_all add: u_def os_def log_out_def upd_chan_def)
  show ?thesis
    using start_cmd(1) [OF l, where dk = dk and cmd = CMD_READ_SECTOR and c = "ucast op" and s = s]
    by (intro exI [of _ os]) (simp add: os_def [symmetric] c w bw rd t_def [symmetric])
qed

lemma log_out_disk [simp]:
  "disks (log_out os s) = disks s" "chans (log_out os s) = chans s" "platter (log_out os s) = platter s"
  "disk_port dk (log_out os s) = disk_port dk s" "disk_slave dk (log_out os s) = disk_slave dk s"
  by (simp_all add: log_out_def disk_port_def disk_slave_def)

lemma read_loop_ok:
  assumes "chan_ready dk s" "unat lba + unat nsec \<le> Suc (unat max_lba)" "secs \<le> nsec"
  shows "\<exists>os. read_loop dk lba secs nsec bf s =
    Some (bf @ sectors (disk_port dk s) (disk_slave dk s) (lba + secs) (unat nsec - unat secs) s, log_out os s)"
  using assms
proof (induction "unat nsec - unat secs" arbitrary: secs bf s rule: less_induct)
  case less
  show ?case
  proof (cases "secs < nsec")
    case False
    then have "secs = nsec" using less.prems(3) by simp
    then show ?thesis by (simp add: read_loop.simps sectors_def log_out_def exI [of _ "[]"])
  next
    case True
    let ?op = "secs_op secs nsec" and ?b = "disk_port dk s" and ?d = "disk_slave dk s"
    have "nsec < 0x80000000" using less.prems(2) by (simp add: word_less_nat_alt max_lba_def)
    note o = secs_op_facts [OF True this]
    let ?xs = "sectors ?b ?d (lba + secs) (unat ?op) s"
    obtain os where os: "read_loop dk lba secs nsec bf s = read_loop dk lba (secs + ?op) nsec (bf @ ?xs) (log_out os s)"
      using read_chunk [OF less.prems(1) lba_add [OF less.prems(2) True] o(1,2),
        of "\<lambda>xs s. read_loop dk lba (secs + ?op) nsec (bf @ xs) s"] True
      unfolding read_loop.simps [of dk lba secs] if_P [OF True] Let_def [of "secs_op secs nsec"] by blast
    have "chan_ready dk (log_out os s)" using chan_ready_outs [OF less.prems(1)] by (simp add: log_out_def)
    moreover have "secs + ?op \<le> nsec" using o(3,4) by (simp add: word_le_nat_alt)
    moreover have "unat nsec - unat (secs + ?op) < unat nsec - unat secs"
      using o(1,3) True by (simp add: word_less_nat_alt)
    ultimately obtain os' where "read_loop dk lba (secs + ?op) nsec (bf @ ?xs) (log_out os s) =
        Some ((bf @ ?xs) @ sectors ?b ?d (lba + (secs + ?op)) (unat nsec - unat (secs + ?op)) (log_out os s), log_out os' (log_out os s))"
      using less.hyps [of "secs + ?op" "log_out os s" "bf @ ?xs"] less.prems(2) by auto
    moreover have "?xs @ sectors ?b ?d (lba + (secs + ?op)) (unat nsec - unat (secs + ?op)) s =
        sectors ?b ?d (lba + secs) (unat nsec - unat secs) s"
      using sectors_append [of ?b ?d "lba + secs" "unat ?op" "unat nsec - unat (secs + ?op)" s] o(3,4)
      by (simp add: add.assoc)
    ultimately show ?thesis using os sectors_cong [of "log_out os s" s] by auto
  qed
qed

lemma put_sectors_cong [simp]:
  "disks (put_sectors b d lba xs s) = disks s" "chans (put_sectors b d lba xs s) = chans s"
  "disk_port dk (put_sectors b d lba xs s) = disk_port dk s" "disk_slave dk (put_sectors b d lba xs s) = disk_slave dk s"
  "outs (put_sectors b d lba xs s) = outs s"
  by (simp_all add: put_sectors_def disk_port_def disk_slave_def)

lemma chan_ready_put:
  assumes "chan_ready dk s" "512 dvd length xs"
  shows "chan_ready dk (put_sectors b d lba xs s)"
proof -
  have "length (take 512 (drop (512 * n) xs)) = 512" if "512 * n < length xs" for n
    using that assms(2) by (auto elim!: dvdE)
  then have "length (platter (put_sectors b d lba xs s) (disk_port dk s) (disk_slave dk s) l) = 512" for l
    using chan_readyD(6) [OF assms(1) refl] by (simp add: put_sectors_def store_at_def)
  then show ?thesis
    using assms(1) list_empty_cong [of "put_sectors b d lba xs s" s]
    by (simp add: chan_ready_def Let_def channel_at_def disk_slave_def disk_port_def put_sectors_def)
qed

lemma store_at_append:
  assumes "length xs = 512 * m" "512 * m + length ys < 512 * 2 ^ 32"
  shows "store_at b d (lba + of_nat m) ys (store_at b d lba xs pl) = store_at b d lba (xs @ ys) pl"
proof (intro ext)
  fix b' d' l
  have "(if b' = b \<and> d' = d \<and> 512 * unat (l - (lba + of_nat m)) < length ys
          then take 512 (drop (512 * unat (l - (lba + of_nat m))) ys)
          else if b' = b \<and> d' = d \<and> 512 * unat (l - lba) < length xs then take 512 (drop (512 * unat (l - lba)) xs)
          else pl b' d' l) =
        (if b' = b \<and> d' = d \<and> 512 * unat (l - lba) < length (xs @ ys) then take 512 (drop (512 * unat (l - lba)) (xs @ ys))
          else pl b' d' l)"
  proof -
    let ?k = "unat (l - lba)"
    have m: "unat (of_nat m :: u32) = m" using assms(2) by (simp add: unat_of_nat)
    have k: "unat (l - (lba + of_nat m)) = (if m \<le> ?k then ?k - m else ?k + 2 ^ 32 - m)"
      using unat_sub_if' [of "l - lba" "of_nat m"] by (simp add: diff_diff_eq m)
    show ?thesis
    proof (cases "m \<le> ?k")
      case True
      then show ?thesis using k assms(1) by (auto simp: diff_mult_distrib2)
    next
      case False
      then have "\<not> 512 * unat (l - (lba + of_nat m)) < length ys" "512 * ?k + 512 \<le> length xs"
        using k assms by auto
      then show ?thesis by auto
    qed
  qed
  then show "store_at b d (lba + of_nat m) ys (store_at b d lba xs pl) b' d' l = store_at b d lba (xs @ ys) pl b' d' l"
    unfolding store_at_def .
qed

lemma write_chunk:
  fixes op :: u32
  assumes r: "chan_ready dk s" and l: "lba \<le> max_lba" and op: "0 < op" "op \<le> 256" and len: "512 * unat op \<le> length bf"
  shows "\<exists>os. do {
      s \<leftarrow> select_sector dk lba (ucast op) s;
      let s = cmd_out (my_channel (disks s dk)) CMD_WRITE_SECTOR s;
      let (ready, s) = busy_wait dk s;
      _ \<leftarrow> ASSERT ready;
      s \<leftarrow> write2sector dk bf (ucast op) s;
      s \<leftarrow> disk_wait (my_channel (disks s dk)) s;
      f s } = f (log_out os (put_sectors (disk_port dk s) (disk_slave dk s) lba (take (512 * unat op) bf) s))"
proof -
  let ?b = "disk_port dk s" and ?d = "disk_slave dk s" and ?ch = "my_channel (disks s dk)"
  let ?xs = "take (512 * unat op) bf"
  define os where "os = xfer_log ?b ?d lba (ucast op) CMD_WRITE_SECTOR"
  define u where "u = (upd_chan ?ch (\<lambda>c. c\<lparr>expecting_intr := True\<rparr>) s)\<lparr>outs := outs s @ os\<rparr>"
  define t where "t = log_out os (put_sectors ?b ?d lba ?xs s)"
  have u: "disk_port dk u = ?b" "disks u = disks s" "outs u = outs s @ os" "ata_status u = ata_status s"
    by (simp_all add: u_def disk_port_def upd_chan_def)
  have bw: "busy_wait dk u = (True, u)"
    using chan_readyD(7) [OF r refl] busy_wait_ready [of u dk] by (auto simp: u)
  have p: "port_base (chans u (my_channel (disks u dk))) = ?b" using u(1) by (simp only: disk_port_def)
  have wr: "write2sector dk bf (ucast op) u = Some (put_sectors ?b ?d lba ?xs u)"
    using xfer_regs(6) [OF u(3) [unfolded os_def]] xfer_ata [OF u(3) [unfolded os_def] l] len op_size(2) [OF op]
    unfolding write2sector_def p outsw_def op_size(1) [OF op] by simp
  have "put_sectors ?b ?d lba ?xs u = (upd_chan ?ch (\<lambda>c. c\<lparr>expecting_intr := True\<rparr>) s)
      \<lparr>outs := outs s @ os, platter := store_at ?b ?d lba ?xs (platter s)\<rparr>"
    "s\<lparr>outs := outs s @ os, platter := store_at ?b ?d lba ?xs (platter s)\<rparr> = t"
    by (simp_all add: u_def t_def put_sectors_def upd_chan_def log_out_def)
  then have w: "disk_wait ?ch (put_sectors ?b ?d lba ?xs u) = Some t"
    using disk_wait_ok [OF r refl, of "store_at ?b ?d lba ?xs (platter s)" "outs s @ os"] by simp
  have c: "cmd_out ?ch CMD_WRITE_SECTOR (log_out (butlast os) s) = u"
    using start_cmd(2) [OF l, where dk = dk and cmd = CMD_WRITE_SECTOR and c = "ucast op" and s = s]
    by (simp_all add: u_def os_def)
  show ?thesis
    using start_cmd(1) [OF l, where dk = dk and cmd = CMD_WRITE_SECTOR and c = "ucast op" and s = s]
    by (intro exI [of _ os]) (simp add: os_def [symmetric] c bw wr w u t_def [symmetric])
qed

lemma write_loop_ok:
  assumes "chan_ready dk s" "unat lba + unat nsec \<le> Suc (unat max_lba)" "secs \<le> nsec" "512 * unat nsec \<le> length bf"
  shows "\<exists>os. write_loop dk lba secs nsec bf s = Some (log_out os (put_sectors (disk_port dk s) (disk_slave dk s) (lba + secs)
    (take (512 * (unat nsec - unat secs)) (drop (512 * unat secs) bf)) s))"
  using assms
proof (induction "unat nsec - unat secs" arbitrary: secs s rule: less_induct)
  case less
  show ?case
  proof (cases "secs < nsec")
    case False
    then have "secs = nsec" using less.prems(3) by simp
    then show ?thesis by (simp add: write_loop.simps put_sectors_def store_at_def log_out_def exI [of _ "[]"])
  next
    case True
    let ?op = "secs_op secs nsec" and ?b = "disk_port dk s" and ?d = "disk_slave dk s"
    have "nsec < 0x80000000" using less.prems(2) by (simp add: word_less_nat_alt max_lba_def)
    note o = secs_op_facts [OF True this]
    let ?r = "unat nsec - unat (secs + ?op)"
    let ?xs = "take (512 * unat ?op) (drop (unat secs * 512) bf)" and ?ys = "take (512 * ?r) (drop (512 * unat (secs + ?op)) bf)"
    have len: "512 * unat ?op \<le> length (drop (unat secs * 512) bf)" using o(4) less.prems(4) by simp
    obtain os where os: "write_loop dk lba secs nsec bf s =
        write_loop dk lba (secs + ?op) nsec bf (log_out os (put_sectors ?b ?d (lba + secs) ?xs s))"
      using write_chunk [OF less.prems(1) lba_add [OF less.prems(2) True] o(1,2) len,
        of "write_loop dk lba (secs + ?op) nsec bf"] True
      unfolding write_loop.simps [of dk lba secs] if_P [OF True] Let_def [of "secs_op secs nsec"] by blast
    let ?s = "log_out os (put_sectors ?b ?d (lba + secs) ?xs s)"
    have "chan_ready dk ?s"
      using chan_ready_outs [OF chan_ready_put [OF less.prems(1)], of ?xs] len by (simp add: log_out_def min_absorb2)
    moreover have "secs + ?op \<le> nsec" using o(3,4) by (simp add: word_le_nat_alt)
    moreover have "?r < unat nsec - unat secs" using o(1,3) True by (simp add: word_less_nat_alt)
    ultimately obtain os' where w: "write_loop dk lba (secs + ?op) nsec bf ?s =
        Some (log_out os' (put_sectors ?b ?d (lba + (secs + ?op)) ?ys ?s))"
      using less.hyps [of "secs + ?op" ?s] less.prems(2,4) by auto
    have "?xs @ ?ys = take (512 * (unat nsec - unat secs)) (drop (512 * unat secs) bf)"
    proof -
      have "512 * (unat nsec - unat secs) = 512 * unat ?op + 512 * ?r" using o(3,4) by simp
      then show ?thesis using o(3) by (simp add: take_add add.commute mult.commute)
    qed
    moreover have "store_at ?b ?d (lba + secs + of_nat (unat ?op)) ?ys (store_at ?b ?d (lba + secs) ?xs (platter s)) =
        store_at ?b ?d (lba + secs) (?xs @ ?ys) (platter s)"
      using less.prems(2) o(3,4) len by (intro store_at_append) (auto simp: max_lba_def)
    ultimately have "put_sectors ?b ?d (lba + (secs + ?op)) ?ys ?s =
        log_out os (put_sectors ?b ?d (lba + secs) (take (512 * (unat nsec - unat secs)) (drop (512 * unat secs) bf)) s)"
      by (simp add: put_sectors_def log_out_def add.assoc)
    then show ?thesis using os w by auto
  qed
qed

text \<open>The whole calls, when the channel is at rest and its lock free.\<close>

definition disk_ready :: "addr \<Rightarrow> 'a ide_state_scheme \<Rightarrow> bool" where
  "disk_ready dk s \<longleftrightarrow> chan_ready dk s \<and> lock_idle (ch_lock (my_channel (disks s dk))) s \<and> running_thread s \<noteq> NULL"

lemma ch_lock_apart: "lock_sema (ch_lock ch) \<noteq> disk_done ch"
  by (simp add: lock_sema_def ch_lock_def disk_done_def)

lemma take_lock_disk [simp]:
  "disks (take_lock L s) = disks s" "chans (take_lock L s) = chans s" "platter (take_lock L s) = platter s"
  "disk_port dk (take_lock L s) = disk_port dk s" "disk_slave dk (take_lock L s) = disk_slave dk s"
  "sectors b d lba n (take_lock L s) = sectors b d lba n s" "outs (take_lock L s) = outs s"
  by (simp_all add: take_lock_def set_repeat_def set_holder_def set_value_def disk_port_def disk_slave_def sectors_def)

lemma chan_ready_locked: "chan_ready dk s \<Longrightarrow> chan_ready dk (take_lock (ch_lock (my_channel (disks s dk))) s)"
  using ch_lock_apart [of "my_channel (disks s dk)"]
    list_empty_cong [of "take_lock (ch_lock (my_channel (disks s dk))) s" s]
  by (auto simp: chan_ready_def Let_def channel_at_def disk_slave_def disk_port_def take_lock_def set_repeat_def
      set_holder_def set_value_def)

lemma release_disk:
  assumes "lock_idle L s"
  shows "lock_release L ((take_lock L s)\<lparr>outs := os, platter := pl\<rparr>) = Some (s\<lparr>outs := os, platter := pl\<rparr>)"
proof -
  let ?s = "s\<lparr>outs := os, platter := pl\<rparr>"
  have "(take_lock L s)\<lparr>outs := os, platter := pl\<rparr> = take_lock L ?s"
    by (simp add: take_lock_def set_repeat_def set_holder_def set_value_def running_thread_def)
  moreover have "lock_idle L ?s"
    using assms list_empty_cong [of ?s s] by (simp add: lock_idle_def lock_free_def)
  ultimately show ?thesis using release_taken [of L ?s] by simp
qed

lemma ide_read_ok:
  assumes "disk_ready dk s" "0 < nsec" "unat lba + unat nsec \<le> Suc (unat max_lba)"
  shows "\<exists>os. ide_read dk lba nsec s = Some (sectors (disk_port dk s) (disk_slave dk s) lba (unat nsec) s, log_out os s)"
proof -
  let ?L = "ch_lock (my_channel (disks s dk))"
  have L: "lock_idle ?L s" "lock_now ?L s = Some (take_lock ?L s)"
    using assms(1) by (auto simp: disk_ready_def lock_idle_def intro: lock_now_free)
  have same: "(take_lock ?L s)\<lparr>outs := xs, platter := platter s\<rparr> = (take_lock ?L s)\<lparr>outs := xs\<rparr>"
    "s\<lparr>outs := xs, platter := platter s\<rparr> = s\<lparr>outs := xs\<rparr>" for xs
    by (simp_all add: take_lock_def set_repeat_def set_holder_def set_value_def)
  obtain os where os: "select_disk dk (take_lock ?L s) = log_out os (take_lock ?L s)"
    by (simp add: select_disk_def outb_log Let_def)
  have "chan_ready dk (log_out os (take_lock ?L s))"
    using chan_ready_outs [OF chan_ready_locked, of dk s "outs s @ os"] assms(1) by (simp add: disk_ready_def log_out_def)
  from read_loop_ok [OF this assms(3), of 0 "[]"] obtain os' where
    rd: "read_loop dk lba 0 nsec [] (log_out os (take_lock ?L s)) =
      Some (sectors (disk_port dk s) (disk_slave dk s) lba (unat nsec) s, log_out os' (log_out os (take_lock ?L s)))"
    using sectors_cong [of "log_out os (take_lock ?L s)" "take_lock ?L s"] by auto
  have "lock_release ?L (log_out os' (log_out os (take_lock ?L s))) = Some (log_out (os @ os') s)"
    using release_disk [OF L(1), of "platter s" "outs s @ os @ os'"] by (simp add: log_out_def same)
  moreover have "lba \<le> max_lba"
    using assms(2,3) by (simp add: word_le_nat_alt word_less_nat_alt)
  ultimately show ?thesis using L(2) assms(2) os rd by (auto simp: ide_read_def)
qed

lemma outs_platter: "(s :: 'a ide_state_scheme)\<lparr>platter := pl, outs := os\<rparr> = s\<lparr>outs := os, platter := pl\<rparr>"
  by simp

lemma ide_write_ok:
  assumes "disk_ready dk s" "0 < nsec" "unat lba + unat nsec \<le> Suc (unat max_lba)" "512 * unat nsec \<le> length bf"
  shows "\<exists>os. ide_write dk lba bf nsec s =
    Some (log_out os (put_sectors (disk_port dk s) (disk_slave dk s) lba (take (512 * unat nsec) bf) s))"
proof -
  let ?L = "ch_lock (my_channel (disks s dk))" and ?b = "disk_port dk s" and ?d = "disk_slave dk s"
  let ?pl = "store_at ?b ?d lba (take (512 * unat nsec) bf) (platter s)"
  have L: "lock_idle ?L s" "lock_now ?L s = Some (take_lock ?L s)"
    using assms(1) by (auto simp: disk_ready_def lock_idle_def intro: lock_now_free)
  obtain os where os: "select_disk dk (take_lock ?L s) = log_out os (take_lock ?L s)"
    by (simp add: select_disk_def outb_log Let_def)
  have "chan_ready dk (log_out os (take_lock ?L s))"
    using chan_ready_outs [OF chan_ready_locked, of dk s "outs s @ os"] assms(1) by (simp add: disk_ready_def log_out_def)
  from write_loop_ok [OF this assms(3) _ assms(4), of 0] obtain os' where
    wr: "write_loop dk lba 0 nsec bf (log_out os (take_lock ?L s)) =
      Some (log_out os' (put_sectors ?b ?d lba (take (512 * unat nsec) bf) (log_out os (take_lock ?L s))))"
    by auto
  have "lock_release ?L (log_out os' (put_sectors ?b ?d lba (take (512 * unat nsec) bf) (log_out os (take_lock ?L s)))) =
      Some (log_out (os @ os') (put_sectors ?b ?d lba (take (512 * unat nsec) bf) s))"
    using release_disk [OF L(1), of ?pl "outs s @ os @ os'"]
    by (simp add: log_out_def put_sectors_def outs_platter)
  moreover have "lba \<le> max_lba"
    using assms(2,3) by (simp add: word_le_nat_alt word_less_nat_alt)
  ultimately show ?thesis using L(2) assms(2) os wr by (auto simp: ide_write_def)
qed

lemma sectors_put:
  assumes "length xs = 512 * n" "n < 2 ^ 32"
  shows "sectors b d lba n (put_sectors b d lba xs s) = xs"
proof -
  have c: "concat (map (\<lambda>i. take 512 (drop (512 * i) xs)) [0..<m]) = take (512 * m) xs" for m
    using take_add [of "512 * m" 512 xs for m] by (induction m) (simp_all add: add.commute [of 512])
  have "platter (put_sectors b d lba xs s) b d (lba + of_nat i) = take 512 (drop (512 * i) xs)" if "i < n" for i
    using that assms by (simp add: put_sectors_def store_at_def unat_of_nat)
  then have m: "map (\<lambda>i. platter (put_sectors b d lba xs s) b d (lba + of_nat i)) [0..<n] =
      map (\<lambda>i. take 512 (drop (512 * i) xs)) [0..<n]" by (intro map_cong) simp_all
  show ?thesis unfolding sectors_def m c using assms(1) by simp
qed

lemma disk_ready_log [simp]: "disk_ready dk s \<Longrightarrow> disk_ready dk (log_out os s)"
  using list_empty_cong [of "s\<lparr>outs := outs s @ os\<rparr>" s] chan_ready_outs [of dk s "outs s @ os"]
  by (auto simp: disk_ready_def lock_idle_def lock_free_def log_out_def running_thread_def)

lemma disk_ready_put: "disk_ready dk s \<Longrightarrow> 512 dvd length xs \<Longrightarrow> disk_ready dk (put_sectors b d lba xs s)"
  using list_empty_cong [of "put_sectors b d lba xs s" s] chan_ready_put [of dk s xs b d lba]
  by (auto simp: disk_ready_def lock_idle_def lock_free_def put_sectors_def running_thread_def)

text \<open>C39: the disk stores what is written. When the channel is at rest and its device answers, \<open>ide_write\<close> of any number of sectors
  inside the supported range returns, a later \<open>ide_read\<close> of these sectors returns the same bytes, however
  many transfers of up to 256 sectors both take, no other sector of any disk changes, and the channel is at rest again.\<close>

theorem ide_write_read:
  assumes "disk_ready dk s" "0 < nsec" "unat lba + unat nsec \<le> Suc (unat max_lba)" "length bf = 512 * unat nsec"
  shows "\<exists>s1 s2. ide_write dk lba bf nsec s = Some s1 \<and> ide_read dk lba nsec s1 = Some (bf, s2) \<and>
    disk_ready dk s2 \<and> platter s2 = platter s1 \<and>
    (\<forall>b d l. platter s1 b d l = platter s b d l \<or>
       b = disk_port dk s \<and> d = disk_slave dk s \<and> unat lba \<le> unat l \<and> unat l < unat lba + unat nsec)"
proof -
  let ?b = "disk_port dk s" and ?d = "disk_slave dk s"
  let ?p = "put_sectors ?b ?d lba bf s"
  obtain os where w: "ide_write dk lba bf nsec s = Some (log_out os ?p)"
    using ide_write_ok [OF assms(1-3), of bf] assms(4) by auto
  have r: "disk_ready dk (log_out os ?p)" using assms(1,4) by (intro disk_ready_log disk_ready_put) simp_all
  obtain os' where "ide_read dk lba nsec (log_out os ?p) = Some (sectors ?b ?d lba (unat nsec) (log_out os ?p), log_out os' (log_out os ?p))"
    using ide_read_ok [OF r assms(2,3)] by auto
  moreover have "sectors ?b ?d lba (unat nsec) (log_out os ?p) = bf"
    using sectors_put [OF assms(4)] sectors_cong [of "log_out os ?p" ?p] unsigned_less [of nsec] by simp
  moreover have "unat lba \<le> unat l \<and> unat l < unat lba + unat nsec" if "unat (l - lba) < unat nsec" for l
    using that assms(3) by (simp add: unat_sub_if' max_lba_def split: if_splits)
  then have "platter (log_out os ?p) b d l = platter s b d l \<or>
      b = ?b \<and> d = ?d \<and> unat lba \<le> unat l \<and> unat l < unat lba + unat nsec" for b d l
    using assms(4) by (auto simp: put_sectors_def store_at_def)
  ultimately show ?thesis using w disk_ready_log [OF r]
    by (intro exI [of _ "log_out os ?p"] exI [of _ "log_out os' (log_out os ?p)"]) simp
qed

definition demo_ide :: ide_state where
  "demo_ide = task_state.extend (Task.demo_task\<lparr>next_of := \<lambda>a. a + 8, sema_value := (sema_value Task.demo_task)(0xc000b02c := 0)\<rparr>)
     (ide_state.fields 0xc0009800 0xc000b000 1 0xc000b900 0 0 0
       (\<lambda>_. \<lparr>channel_name = lit ''ide0'', port_base = 0x1f0, irq_no = 0x2e, expecting_intr = False\<rparr>)
       (\<lambda>_. \<lparr>disk_name = lit ''sdb'', my_channel = 0xc000b000, dev_no = 1\<rparr>)
       (\<lambda>_. \<lparr>start_lba = 0, sec_cnt = 0, my_disk = 0xc000b350, part_name = [], sb = None,
          block_bitmap = \<lparr>btmp_bytes_len = 0, bits = []\<rparr>, inode_bitmap = \<lparr>btmp_bytes_len = 0, bits = []\<rparr>\<rparr>)
       (\<lambda>_ _ _. replicate 512 0) (\<lambda>_ _. replicate 512 0) (\<lambda>_. [0x48]))"

lemma demo_disk_ready: "disk_ready 0xc000b350 demo_ide"
  by (simp add: disk_ready_def chan_ready_def Let_def demo_ide_def task_state.defs ide_state.defs mem_state.defs
      Task.demo_task_def disk_done_def ch_lock_def channel_at_def lock_idle_def lock_free_def list_empty_def rd_next_def
      sema_waiters_def lock_sema_def list_head_def list_tail_def running_thread_def BIT_STAT_BSY_def BIT_STAT_DRQ_def)

theorem ide_write_read_witness:
  "\<exists>s1 s2. ide_write 0xc000b350 7 (replicate (512 * 300) 5) 300 demo_ide = Some s1 \<and>
    ide_read 0xc000b350 7 300 s1 = Some (replicate (512 * 300) 5, s2) \<and> disk_ready 0xc000b350 s2"
  using ide_write_read [OF demo_disk_ready, of 300 7 "replicate (512 * 300) 5"] by (auto simp: max_lba_def)

end
