(* ===== verification/Inode.thy ===== *)
theory Inode
  imports Ide
begin

text \<open>
  Index nodes, \<^verbatim>\<open>fs/inode.c\<close>, and the bitmaps of a partition from \<^verbatim>\<open>fs/file.c\<close>.

  \<open>fs_state\<close> adds the structures of the file system as typed heaps: \<open>inodes\<close> and \<open>dirs\<close> by address, the global
  \<open>file_table\<close>, the address of the current partition and of the static \<open>root_dir\<close>. On disk an inode is 76 bytes,
  little-endian words in the order of the fields. The list node \<open>inode_tag\<close> inside an inode is an address of the list heap.

  Buffers that a function allocates are modelled by their bytes, next to the real calls of \<open>sys_malloc\<close> and
  \<open>sys_free\<close>. \<open>io_buf\<close> arguments are work space, filled before every use, and have no counterpart.
\<close>

unbundle bit_operations_syntax

record inode =
  i_no :: u32
  i_size :: u32
  i_open_cnts :: u32
  write_deny :: bool
  i_sectors :: "u32 list"

record dir =
  dir_inode :: addr
  dir_pos :: u32
  dir_buf :: "u8 list"

record file_struct =
  fd_pos :: u32
  fd_flag :: u32
  fd_inode :: addr

record fs_state = ide_state +
  inodes :: "addr \<Rightarrow> inode"
  dirs :: "addr \<Rightarrow> dir"
  file_table :: "file_struct list"
  cur_part :: addr
  root_dir :: addr

definition SECTOR_SIZE :: u32 where "SECTOR_SIZE = 512"
definition BLOCK_SIZE :: u32 where "BLOCK_SIZE = SECTOR_SIZE"
definition MAX_FILES_PER_PART :: u32 where "MAX_FILES_PER_PART = 4096"
definition BITS_PER_SECTOR :: u32 where "BITS_PER_SECTOR = 4096"

definition sizeof_inode :: u32 where "sizeof_inode = 76"

definition inode_tag :: "addr \<Rightarrow> addr" where "inode_tag ino = ino + 68"
definition inode_tag_entry :: "addr \<Rightarrow> addr" where "inode_tag_entry elem = elem - 68"

definition upd_inode :: "addr \<Rightarrow> (inode \<Rightarrow> inode) \<Rightarrow> 'a fs_state_scheme \<Rightarrow> 'a fs_state_scheme" where
  "upd_inode a f s = s\<lparr>inodes := (inodes s)(a := f (inodes s a))\<rparr>"

text \<open>Access through a pointer to a structure.\<close>

definition rd_inode :: "addr \<Rightarrow> 'a fs_state_scheme \<Rightarrow> inode option" where
  "rd_inode a s = (if a = NULL then None else Some (inodes s a))"

definition rd_part :: "addr \<Rightarrow> 'a fs_state_scheme \<Rightarrow> (partition \<times> super_block) option" where
  "rd_part a s = (if a = NULL then None else map_option (Pair (parts s a)) (sb (parts s a)))"

subsection \<open>Bytes on disk\<close>

definition bytes32 :: "u32 \<Rightarrow> u8 list" where
  "bytes32 w = [ucast w, ucast (drop_bit 8 w), ucast (drop_bit 16 w), ucast (drop_bit 24 w)]"

text \<open>\<open>memcpy(buf + off, ys, length ys)\<close> on the bytes of \<open>buf\<close>.\<close>

definition patch :: "nat \<Rightarrow> 'a list \<Rightarrow> 'a list \<Rightarrow> 'a list" where
  "patch off ys xs = take off xs @ ys @ drop (off + length ys) xs"

definition words32 :: "nat \<Rightarrow> u8 list \<Rightarrow> u32 list" where
  "words32 n xs = map (\<lambda>i. le32 xs (4 * i)) [0..<n]"

definition inode_bytes :: "inode \<Rightarrow> u8 list" where
  "inode_bytes i = bytes32 (i_no i) @ bytes32 (i_size i) @ bytes32 (i_open_cnts i) @
     bytes32 (if write_deny i then 1 else 0) @ concat (map bytes32 (i_sectors i)) @ bytes32 0 @ bytes32 0"

definition inode_of :: "u8 list \<Rightarrow> inode" where
  "inode_of xs = \<lparr>i_no = le32 xs 0, i_size = le32 xs 4, i_open_cnts = le32 xs 8, write_deny = (le32 xs 12 \<noteq> 0),
     i_sectors = words32 13 (drop 16 xs)\<rparr>"

subsection \<open>Inodes\<close>

record inode_position =
  two_sec :: bool
  sec_lba :: u32
  off_size :: u32

definition inode_locate :: "addr \<Rightarrow> u32 \<Rightarrow> 'a fs_state_scheme \<Rightarrow> inode_position option" where
  "inode_locate part inode_no s = do {
     _ \<leftarrow> ASSERT (inode_no < 4096);
     (p, sp) \<leftarrow> rd_part part s;
     let off = inode_no * sizeof_inode;
     let off_sec = off div 512;
     let off_size_in_sec = off mod 512;
     let left_in_sec = 512 - off_size_in_sec;
     Some \<lparr>two_sec = left_in_sec < sizeof_inode, sec_lba = inode_table_lba sp + off_sec, off_size = off_size_in_sec\<rparr>
   }"

text \<open>Reading the sectors of an inode, and replacing its bytes there.\<close>

definition inode_secs :: "inode_position \<Rightarrow> u32" where
  "inode_secs pos = (if two_sec pos then 2 else 1)"

definition put_inode_bytes :: "addr \<Rightarrow> inode_position \<Rightarrow> u8 list \<Rightarrow> 'a fs_state_scheme \<Rightarrow> 'a fs_state_scheme option" where
  "put_inode_bytes part pos ys s = do {
     (inode_buf, s) \<leftarrow> ide_read (my_disk (parts s part)) (sec_lba pos) (inode_secs pos) s;
     let inode_buf = patch (unat (off_size pos)) ys inode_buf;
     ide_write (my_disk (parts s part)) (sec_lba pos) inode_buf (inode_secs pos) s
   }"

text \<open>\<open>uint8_t inode_no = inode->i_no\<close> keeps the low byte of the number.\<close>

definition inode_sync :: "addr \<Rightarrow> inode \<Rightarrow> 'a fs_state_scheme \<Rightarrow> 'a fs_state_scheme option" where
  "inode_sync part ino s = do {
     let inode_no = ucast (ucast (i_no ino) :: u8);
     inode_pos \<leftarrow> inode_locate part inode_no s;
     _ \<leftarrow> ASSERT (sec_lba inode_pos \<le> start_lba (parts s part) + sec_cnt (parts s part));
     let pure_inode = ino\<lparr>i_open_cnts := 0, write_deny := False\<rparr>;
     put_inode_bytes part inode_pos (inode_bytes pure_inode) s
   }"

partial_function (option) find_inode :: "addr \<Rightarrow> u32 \<Rightarrow> addr \<Rightarrow> 'a fs_state_scheme \<Rightarrow> addr option" where
  "find_inode end_tag inode_no elem s =
     (if elem \<noteq> end_tag then
        if i_no (inodes s (inode_tag_entry elem)) = inode_no then Some (inode_tag_entry elem)
        else do { n \<leftarrow> rd_next s elem; find_inode end_tag inode_no n s }
      else Some NULL)"

text \<open>\<open>sys_malloc\<close> and \<open>sys_free\<close> on the kernel's pool: \<open>cur->pgdir\<close> is \<open>NULL\<close> during the call.\<close>

definition as_kernel :: "('a kstate_scheme \<Rightarrow> ('b \<times> 'a kstate_scheme) option) \<Rightarrow> 'a kstate_scheme \<Rightarrow>
    ('b \<times> 'a kstate_scheme) option" where
  "as_kernel f s = do {
     let cur = running_thread s;
     t \<leftarrow> rd_task cur s;
     let cur_pagedir_bak = pgdir t;
     s \<leftarrow> wr_task cur (\<lambda>t. t\<lparr>pgdir := NULL\<rparr>) s;
     (r, s) \<leftarrow> f s;
     s \<leftarrow> wr_task cur (\<lambda>t. t\<lparr>pgdir := cur_pagedir_bak\<rparr>) s;
     Some (r, s)
   }"

definition inode_open :: "addr \<Rightarrow> u32 \<Rightarrow> 'a fs_state_scheme \<Rightarrow> (addr \<times> 'a fs_state_scheme) option" where
  "inode_open part inode_no s = do {
     elem \<leftarrow> rd_next s (list_head (open_inodes part));
     found \<leftarrow> find_inode (list_tail (open_inodes part)) inode_no elem s;
     if found \<noteq> NULL then Some (found, upd_inode found (\<lambda>i. i\<lparr>i_open_cnts := i_open_cnts i + 1\<rparr>) s)
     else do {
       inode_pos \<leftarrow> inode_locate part inode_no s;
       (inode_found, s) \<leftarrow> as_kernel (sys_malloc sizeof_inode) s;
       _ \<leftarrow> ASSERT (inode_found \<noteq> NULL);
       (inode_buf, s) \<leftarrow> sys_malloc (512 * inode_secs inode_pos) s;
       _ \<leftarrow> ASSERT (inode_buf \<noteq> NULL);
       (xs, s) \<leftarrow> ide_read (my_disk (parts s part)) (sec_lba inode_pos) (inode_secs inode_pos) s;
       let s = upd_inode inode_found (\<lambda>_. inode_of (drop (unat (off_size inode_pos)) xs)) s;
       s \<leftarrow> list_push (open_inodes part) (inode_tag inode_found) s;
       let s = upd_inode inode_found (\<lambda>i. i\<lparr>i_open_cnts := 1\<rparr>) s;
       s \<leftarrow> sys_free inode_buf s;
       Some (inode_found, s)
     }
   }"

definition inode_close :: "addr \<Rightarrow> 'a fs_state_scheme \<Rightarrow> 'a fs_state_scheme option" where
  "inode_close ino s = do {
     let (old_status, s) = intr_disable s;
     i \<leftarrow> rd_inode ino s;
     let s = upd_inode ino (\<lambda>i. i\<lparr>i_open_cnts := i_open_cnts i - 1\<rparr>) s;
     s \<leftarrow> (if i_open_cnts i - 1 = 0 then do {
         s \<leftarrow> list_remove (inode_tag ino) s;
         (_, s) \<leftarrow> as_kernel (\<lambda>s. map_option (Pair ()) (sys_free ino s)) s;
         Some s
       } else Some s);
     Some (snd (intr_set_status old_status s))
   }"

definition inode_delete :: "addr \<Rightarrow> u32 \<Rightarrow> 'a fs_state_scheme \<Rightarrow> 'a fs_state_scheme option" where
  "inode_delete part inode_no s = do {
     _ \<leftarrow> ASSERT (inode_no < 4096);
     inode_pos \<leftarrow> inode_locate part inode_no s;
     _ \<leftarrow> ASSERT (sec_lba inode_pos \<le> start_lba (parts s part) + sec_cnt (parts s part));
     put_inode_bytes part inode_pos (replicate 76 0) s
   }"

definition inode_init :: "u32 \<Rightarrow> inode" where
  "inode_init inode_no = \<lparr>i_no = inode_no, i_size = 0, i_open_cnts = 0, write_deny = False, i_sectors = replicate 13 0\<rparr>"

subsection \<open>The bitmaps of a partition\<close>

datatype bitmap_type = INODE_BITMAP | BLOCK_BITMAP

definition inode_bitmap_alloc :: "addr \<Rightarrow> 'a fs_state_scheme \<Rightarrow> (int \<times> 'a fs_state_scheme) option" where
  "inode_bitmap_alloc part s = do {
     bit_idx \<leftarrow> bitmap_scan (inode_bitmap (parts s part)) 1;
     if bit_idx = -1 then Some (-1, s)
     else do {
       b \<leftarrow> bitmap_set (inode_bitmap (parts s part)) (nat bit_idx) 1;
       Some (bit_idx, upd_part part (\<lambda>p. p\<lparr>inode_bitmap := b\<rparr>) s)
     }
   }"

definition block_bitmap_alloc :: "addr \<Rightarrow> 'a fs_state_scheme \<Rightarrow> (u32 \<times> 'a fs_state_scheme) option" where
  "block_bitmap_alloc part s = do {
     bit_idx \<leftarrow> bitmap_scan (block_bitmap (parts s part)) 1;
     if bit_idx = -1 then Some (- 1, s)
     else do {
       b \<leftarrow> bitmap_set (block_bitmap (parts s part)) (nat bit_idx) 1;
       (_, sp) \<leftarrow> rd_part part s;
       Some (data_start_lba sp + of_int bit_idx, upd_part part (\<lambda>p. p\<lparr>block_bitmap := b\<rparr>) s)
     }
   }"

definition bitmap_sync :: "addr \<Rightarrow> u32 \<Rightarrow> bitmap_type \<Rightarrow> 'a fs_state_scheme \<Rightarrow> 'a fs_state_scheme option" where
  "bitmap_sync part bit_idx btmp s = do {
     let off_sec = bit_idx div 4096;
     let off = off_sec * BLOCK_SIZE;
     (p, sp) \<leftarrow> rd_part part s;
     let (lba, bitmap_off) = (case btmp of
           INODE_BITMAP \<Rightarrow> (inode_bitmap_lba sp + off_sec, drop (unat off) (bits (inode_bitmap p)))
         | BLOCK_BITMAP \<Rightarrow> (block_bitmap_lba sp + off_sec, drop (unat off) (bits (block_bitmap p))));
     ide_write (my_disk p) lba bitmap_off 1 s
   }"

text \<open>Clearing a bit in the bitmap of \<open>part\<close> and writing its sector to the current partition.\<close>

definition free_block_bit :: "addr \<Rightarrow> u32 \<Rightarrow> 'a fs_state_scheme \<Rightarrow> 'a fs_state_scheme option" where
  "free_block_bit part block_bitmap_idx s = do {
     b \<leftarrow> bitmap_set (block_bitmap (parts s part)) (unat block_bitmap_idx) 0;
     bitmap_sync (cur_part s) block_bitmap_idx BLOCK_BITMAP (upd_part part (\<lambda>p. p\<lparr>block_bitmap := b\<rparr>) s)
   }"

primrec release_blocks :: "addr \<Rightarrow> u32 list \<Rightarrow> 'a fs_state_scheme \<Rightarrow> 'a fs_state_scheme option" where
  "release_blocks part [] s = Some s"
| "release_blocks part (lba # lbas) s = do {
     s \<leftarrow> (if lba \<noteq> 0 then do {
         (_, sp) \<leftarrow> rd_part part s;
         let block_bitmap_idx = lba - data_start_lba sp;
         _ \<leftarrow> ASSERT (block_bitmap_idx > 0);
         free_block_bit part block_bitmap_idx s
       } else Some s);
     release_blocks part lbas s
   }"

definition inode_release :: "addr \<Rightarrow> u32 \<Rightarrow> 'a fs_state_scheme \<Rightarrow> 'a fs_state_scheme option" where
  "inode_release part inode_no s = do {
     (inode_to_del, s) \<leftarrow> inode_open part inode_no s;
     i \<leftarrow> rd_inode inode_to_del s;
     _ \<leftarrow> ASSERT (i_no i = inode_no);
     let table = i_sectors i ! 12;
     (all_blocks, s) \<leftarrow> (if table \<noteq> 0 then do {
         (xs, s) \<leftarrow> ide_read (my_disk (parts s part)) table 1 s;
         (_, sp) \<leftarrow> rd_part part s;
         let block_bitmap_idx = table - data_start_lba sp;
         _ \<leftarrow> ASSERT (block_bitmap_idx > 0);
         s \<leftarrow> free_block_bit part block_bitmap_idx s;
         Some (take 12 (i_sectors i) @ words32 128 xs, s)
       } else Some (take 12 (i_sectors i), s));
     s \<leftarrow> release_blocks part all_blocks s;
     b \<leftarrow> bitmap_set (inode_bitmap (parts s part)) (unat inode_no) 0;
     s \<leftarrow> bitmap_sync (cur_part s) inode_no INODE_BITMAP (upd_part part (\<lambda>p. p\<lparr>inode_bitmap := b\<rparr>) s);
     (io_buf, s) \<leftarrow> sys_malloc 1024 s;
     s \<leftarrow> inode_delete part inode_no s;
     s \<leftarrow> sys_free io_buf s;
     inode_close inode_to_del s
   }"

subsection \<open>Encoding\<close>

lemma length_bytes32 [simp]: "length (bytes32 w) = 4"
  by (simp add: bytes32_def)

lemma le32_bytes32 [simp]: "le32 (bytes32 w @ xs) 0 = w"
proof (rule bit_word_eqI)
  fix n assume n: "n < LENGTH(32)"
  consider "n < 8" | "8 \<le> n" "n < 16" | "16 \<le> n" "n < 24" | "24 \<le> n" by linarith
  then show "bit (le32 (bytes32 w @ xs) 0) n = bit w n"
    using n by cases (auto simp: le32_def bytes32_def bit_or_iff bit_push_bit_iff bit_ucast_iff bit_drop_bit_eq)
qed

lemma le32_append: "le32 (ys @ xs) (length ys + i) = le32 xs i"
  by (simp add: le32_def nth_append)

lemma le32_skip [simp]: "le32 (bytes32 w @ xs) (4 + i) = le32 xs i"
  using le32_append [of "bytes32 w" xs i] by simp

lemma length_concat_bytes32 [simp]: "length (concat (map bytes32 ws)) = 4 * length ws"
  by (induction ws) simp_all

lemma le32_words: "i < length ws \<Longrightarrow> le32 (concat (map bytes32 ws) @ xs) (4 * i) = ws ! i"
proof (induction ws arbitrary: i)
  case (Cons w ws)
  show ?case
  proof (cases i)
    case 0
    then show ?thesis by simp
  next
    case (Suc j)
    then show ?thesis using Cons le32_skip [of w "concat (map bytes32 ws) @ xs" "4 * j"] by simp
  qed
qed simp

lemma words32_bytes: "words32 (length ws) (concat (map bytes32 ws) @ xs) = ws"
  by (rule nth_equalityI) (simp_all add: words32_def le32_words)

lemma length_inode_bytes: "length (i_sectors i) = 13 \<Longrightarrow> length (inode_bytes i) = 76"
  by (simp add: inode_bytes_def)

lemma inode_of_bytes:
  assumes "length (i_sectors i) = 13"
  shows "inode_of (inode_bytes i @ xs) = i"
proof -
  let ?t = "concat (map bytes32 (i_sectors i)) @ bytes32 0 @ bytes32 0 @ xs"
  let ?w = "bytes32 (if write_deny i then 1 else 0)"
  have b: "inode_bytes i @ xs = bytes32 (i_no i) @ bytes32 (i_size i) @ bytes32 (i_open_cnts i) @ ?w @ ?t"
    by (simp add: inode_bytes_def)
  have "le32 (inode_bytes i @ xs) 4 = i_size i" "le32 (inode_bytes i @ xs) 8 = i_open_cnts i"
    "le32 (inode_bytes i @ xs) 12 = (if write_deny i then 1 else 0)"
    using le32_append [of "bytes32 (i_no i)" "bytes32 (i_size i) @ bytes32 (i_open_cnts i) @ ?w @ ?t" 0]
      le32_append [of "bytes32 (i_no i) @ bytes32 (i_size i)" "bytes32 (i_open_cnts i) @ ?w @ ?t" 0]
      le32_append [of "bytes32 (i_no i) @ bytes32 (i_size i) @ bytes32 (i_open_cnts i)" "?w @ ?t" 0]
    by (simp_all only: b append_assoc length_append length_bytes32) simp_all
  moreover have "drop 16 (inode_bytes i @ xs) = ?t" by (simp add: b)
  moreover have "words32 13 ?t = i_sectors i" using words32_bytes [of "i_sectors i"] assms by simp
  moreover have "le32 (inode_bytes i @ xs) 0 = i_no i" by (simp add: b)
  ultimately show ?thesis by (simp add: inode_of_def)
qed

text \<open>The fields of an inode lie in its first 76 bytes.\<close>

lemma le32_cong: "(\<And>k. k < i + 4 \<Longrightarrow> xs ! k = ys ! k) \<Longrightarrow> le32 xs i = le32 ys i"
  by (simp add: le32_def)

lemma inode_of_cong:
  assumes "take 76 xs = take 76 ys" "76 \<le> length xs" "76 \<le> length ys"
  shows "inode_of xs = inode_of ys"
proof -
  have n: "xs ! k = ys ! k" if "k < 76" for k using that assms by (metis nth_take)
  have "le32 (drop 16 xs) (4 * i) = le32 (drop 16 ys) (4 * i)" if "i < 13" for i
    using that assms n by (intro le32_cong) simp
  then have "words32 13 (drop 16 xs) = words32 13 (drop 16 ys)" by (simp add: words32_def)
  moreover have "le32 xs i = le32 ys i" if "i < 72" for i using that n by (intro le32_cong) simp
  ultimately show ?thesis by (simp add: inode_of_def)
qed

subsection \<open>Patching a byte array\<close>

lemma length_patch [simp]: "off + length ys \<le> length xs \<Longrightarrow> length (patch off ys xs) = length xs"
  by (simp add: patch_def)

lemma take_drop_patch_same: "off + length ys \<le> length xs \<Longrightarrow> take (length ys) (drop off (patch off ys xs)) = ys"
  by (simp add: patch_def)

lemma take_drop_patch_other:
  assumes "off + length ys \<le> length xs" "i + n \<le> off \<or> off + length ys \<le> i"
  shows "take n (drop i (patch off ys xs)) = take n (drop i xs)"
proof (rule nth_equalityI)
  show "length (take n (drop i (patch off ys xs))) = length (take n (drop i xs))" using assms by simp
  fix k assume "k < length (take n (drop i (patch off ys xs)))"
  then show "take n (drop i (patch off ys xs)) ! k = take n (drop i xs) ! k"
    using assms by (auto simp: patch_def nth_append)
qed

lemma nth_patch:
  "off + length ys \<le> length xs \<Longrightarrow> k < length xs \<Longrightarrow>
   patch off ys xs ! k = (if off \<le> k \<and> k < off + length ys then ys ! (k - off) else xs ! k)"
  by (auto simp: patch_def nth_append min_absorb1)

lemma patch_patch:
  assumes "o1 + n \<le> length xs" "o2 + length ys \<le> n"
  shows "patch o1 (patch o2 ys (take n (drop o1 xs))) xs = patch (o1 + o2) ys xs"
proof (rule nth_equalityI)
  define p where "p = patch o2 ys (take n (drop o1 xs))"
  have l: "length p = n" using assms by (simp add: p_def)
  then show "length (patch o1 (patch o2 ys (take n (drop o1 xs))) xs) = length (patch (o1 + o2) ys xs)"
    using assms by (simp add: p_def [symmetric])
  fix k assume "k < length (patch o1 (patch o2 ys (take n (drop o1 xs))) xs)"
  then have k: "k < length xs" using assms l by (simp add: p_def [symmetric])
  have "p ! (k - o1) = (if o1 + o2 \<le> k \<and> k < o1 + o2 + length ys then ys ! (k - (o1 + o2)) else xs ! k)"
    if "o1 \<le> k" "k < o1 + n"
    unfolding p_def using that assms by (subst nth_patch) auto
  then have "patch o1 p xs ! k = patch (o1 + o2) ys xs ! k"
    using assms k by (simp add: nth_patch l)
  then show "patch o1 (patch o2 ys (take n (drop o1 xs))) xs ! k = patch (o1 + o2) ys xs ! k" by (simp add: p_def)
qed

subsection \<open>Ranges of sectors as byte arrays\<close>

lemma sectors_put_other:
  assumes "\<And>i. i < n \<Longrightarrow> length xs \<le> 512 * unat (lba + of_nat i - l)"
  shows "sectors b d lba n (put_sectors b d l xs s) = sectors b d lba n s"
proof -
  have "platter (put_sectors b d l xs s) b d (lba + of_nat i) = platter s b d (lba + of_nat i)" if "i < n" for i
    using assms [OF that] by (simp add: put_sectors_def store_at_def)
  then have "map (\<lambda>i. platter (put_sectors b d l xs s) b d (lba + of_nat i)) [0..<n] =
      map (\<lambda>i. platter s b d (lba + of_nat i)) [0..<n]" by (intro map_cong) simp_all
  then show ?thesis unfolding sectors_def by (rule arg_cong)
qed

lemma unat_below:
  assumes "i < j" "j < (2 :: nat) ^ 32"
  shows "unat (of_nat i - of_nat j :: u32) = 2 ^ 32 + i - j"
  using assms by (simp add: unat_sub_if' unat_of_nat)

lemma sectors_patch:
  assumes "length xs = 512 * k" "i + k \<le> n" "n < 2 ^ 32" "\<And>l. length (platter s b d l) = 512"
  shows "sectors b d lba n (put_sectors b d (lba + of_nat i) xs s) = patch (512 * i) xs (sectors b d lba n s)"
proof -
  let ?t = "put_sectors b d (lba + of_nat i) xs s" and ?r = "n - (i + k)"
  have n: "n = i + (k + ?r)" using assms(2) by simp
  have split: "sectors b d lba n u = sectors b d lba i u @ sectors b d (lba + of_nat i) k u @ sectors b d (lba + of_nat (i + k)) ?r u" for u
    using sectors_append [of b d lba i "k + ?r" u] sectors_append [of b d "lba + of_nat i" k ?r u] n by (simp add: add.assoc)
  have len: "length (sectors b d l m s) = 512 * m" for l m by (rule length_sectors [OF assms(4)])
  have "sectors b d lba i ?t = sectors b d lba i s"
  proof (rule sectors_put_other)
    fix j assume j: "j < i"
    then have "unat (lba + of_nat j - (lba + of_nat i)) = 2 ^ 32 + j - i" using assms(2,3) unat_below [of j i] by simp
    then show "length xs \<le> 512 * unat (lba + of_nat j - (lba + of_nat i))" using assms(1-3) j by simp
  qed
  moreover have "sectors b d (lba + of_nat (i + k)) ?r ?t = sectors b d (lba + of_nat (i + k)) ?r s"
  proof (rule sectors_put_other)
    fix j assume j: "j < ?r"
    have "lba + of_nat (i + k) + of_nat j - (lba + of_nat i) = (of_nat (k + j) :: u32)" by simp
    then have "unat (lba + of_nat (i + k) + of_nat j - (lba + of_nat i)) = k + j"
      using j assms(2,3) by (simp only: unat_of_nat) simp
    then show "length xs \<le> 512 * unat (lba + of_nat (i + k) + of_nat j - (lba + of_nat i))" using assms(1) by simp
  qed
  moreover have "sectors b d (lba + of_nat i) k ?t = xs" using assms(1-3) by (intro sectors_put) simp_all
  ultimately show ?thesis unfolding split [of ?t] split [of s] by (simp add: patch_def len assms(1))
qed

lemma sectors_part:
  assumes "i + k \<le> n" "\<And>l. length (platter s b d l) = 512"
  shows "sectors b d (lba + of_nat i) k s = take (512 * k) (drop (512 * i) (sectors b d lba n s))"
proof -
  have "sectors b d lba n s = sectors b d lba i s @ sectors b d (lba + of_nat i) k s @ sectors b d (lba + of_nat (i + k)) (n - (i + k)) s"
    using sectors_append [of b d lba i "k + (n - (i + k))" s] sectors_append [of b d "lba + of_nat i" k "n - (i + k)" s] assms(1)
    by (simp add: add.assoc)
  then show ?thesis by (simp add: length_sectors [OF assms(2)])
qed

subsection \<open>The table of inodes\<close>

text \<open>The table occupies 608 sectors. A partition is usable when it has a super block, its disk is ready and the table lies inside
  both the partition and the range the driver supports.\<close>

definition part_ok :: "addr \<Rightarrow> partition \<Rightarrow> super_block \<Rightarrow> 'a fs_state_scheme \<Rightarrow> bool" where
  "part_ok part p sp s \<longleftrightarrow> rd_part part s = Some (p, sp) \<and> disk_ready (my_disk p) s \<and>
     unat (inode_table_lba sp) + 608 \<le> Suc (unat max_lba) \<and> unat (inode_table_lba sp) + 608 \<le> unat (start_lba p + sec_cnt p)"

definition part_secs :: "addr \<Rightarrow> u32 \<Rightarrow> nat \<Rightarrow> 'a fs_state_scheme \<Rightarrow> u8 list" where
  "part_secs part lba n s = sectors (disk_port (my_disk (parts s part)) s) (disk_slave (my_disk (parts s part)) s) lba n s"

definition inode_table :: "addr \<Rightarrow> 'a fs_state_scheme \<Rightarrow> u8 list" where
  "inode_table part s = (case sb (parts s part) of None \<Rightarrow> [] | Some sp \<Rightarrow> part_secs part (inode_table_lba sp) 608 s)"

text \<open>Inode number \<open>n\<close> on the disk.\<close>

definition disk_inode :: "addr \<Rightarrow> nat \<Rightarrow> 'a fs_state_scheme \<Rightarrow> inode" where
  "disk_inode part n s = inode_of (drop (76 * n) (inode_table part s))"

lemma part_okD:
  assumes "part_ok part p sp s"
  shows "part \<noteq> NULL" "parts s part = p" "sb p = Some sp" "disk_ready (my_disk p) s"
    "unat (inode_table_lba sp) + 608 \<le> Suc (unat max_lba)" "unat (inode_table_lba sp) + 608 \<le> unat (start_lba p + sec_cnt p)"
    "inode_table part s = sectors (disk_port (my_disk p) s) (disk_slave (my_disk p) s) (inode_table_lba sp) 608 s"
    "length (platter s (disk_port (my_disk p) s) (disk_slave (my_disk p) s) l) = 512"
proof -
  show *: "part \<noteq> NULL" "parts s part = p" "sb p = Some sp" "disk_ready (my_disk p) s"
    "unat (inode_table_lba sp) + 608 \<le> Suc (unat max_lba)" "unat (inode_table_lba sp) + 608 \<le> unat (start_lba p + sec_cnt p)"
    using assms by (auto simp: part_ok_def rd_part_def split: if_splits)
  then show "inode_table part s = sectors (disk_port (my_disk p) s) (disk_slave (my_disk p) s) (inode_table_lba sp) 608 s"
    by (simp add: inode_table_def part_secs_def)
  show "length (platter s (disk_port (my_disk p) s) (disk_slave (my_disk p) s) l) = 512"
    using chan_readyD(6) [of "my_disk p" s "my_channel (disks s (my_disk p))" l] *(4) by (simp add: disk_ready_def)
qed

lemma length_inode_table: "part_ok part p sp s \<Longrightarrow> length (inode_table part s) = 311296"
  using part_okD(7,8) length_sectors by fastforce

text \<open>Where an inode lies: \<open>inode_locate\<close> finds the byte \<open>76 * n\<close> of the table, in one or two sectors.\<close>

lemma inode_locate_ok:
  assumes "part_ok part p sp s" "n < 4096"
  shows "\<exists>pos i. inode_locate part (of_nat n) s = Some pos \<and> sec_lba pos = inode_table_lba sp + of_nat i \<and>
    512 * i + unat (off_size pos) = 76 * n \<and> i + unat (inode_secs pos) \<le> 608 \<and> unat (off_size pos) + 76 \<le> 512 * unat (inode_secs pos) \<and>
    0 < inode_secs pos"
proof -
  let ?off = "of_nat n * sizeof_inode"
  have off: "unat ?off = 76 * n" using assms(2) by (simp add: sizeof_inode_def unat_word_ariths)
  have d: "unat (?off div 512) = 76 * n div 512" "unat (?off mod 512) = 76 * n mod 512"
    by (simp_all add: unat_div unat_mod off)
  let ?o = "76 * n mod 512"
  have u: "unat (512 - ?off mod 512) = 512 - ?o" 
    using d(2) unat_sub [of "?off mod 512" 512] by (simp add: word_le_nat_alt)
  have two: "512 - ?off mod 512 < sizeof_inode \<longleftrightarrow> 512 - ?o < 76"
    unfolding word_less_nat_alt u by (simp add: sizeof_inode_def)
  have o: "?o < 512" "512 * (76 * n div 512) + ?o = 76 * n"
    using mult_div_mod_eq [of 512 "76 * n"] by auto
  define pos where "pos = \<lparr>two_sec = 512 - ?off mod 512 < sizeof_inode, sec_lba = inode_table_lba sp + ?off div 512, off_size = ?off mod 512\<rparr>"
  have "inode_locate part (of_nat n) s = Some pos"
    using assms part_okD(1-3) [OF assms(1)] unfolding inode_locate_def pos_def
    by (simp add: word_less_nat_alt rd_part_def Let_def)
  moreover have "sec_lba pos = inode_table_lba sp + of_nat (76 * n div 512)"
    using d(1) by (simp add: pos_def) (metis of_nat_unat ucast_id)
  moreover have "unat (off_size pos) = ?o" by (simp add: pos_def d)
  moreover have "unat (inode_secs pos) = (if 512 - ?o < 76 then 2 else 1)" by (simp add: inode_secs_def pos_def two)
  ultimately show ?thesis using o assms(2)
    by (intro exI [of _ pos] exI [of _ "76 * n div 512"]) (auto simp: inode_secs_def split: if_splits)
qed

text \<open>\<open>s'\<close> is \<open>s\<close> up to the port log and the sectors of the disks.\<close>

definition same_but_disk :: "'a ide_state_scheme \<Rightarrow> 'a ide_state_scheme \<Rightarrow> bool" where
  "same_but_disk s s' \<longleftrightarrow> (\<exists>os pl. s' = s\<lparr>outs := os, platter := pl\<rparr>)"

lemma same_but_diskD:
  assumes "same_but_disk s s'"
  shows "parts s' = parts s" "disks s' = disks s" "disk_port dk s' = disk_port dk s" "disk_slave dk s' = disk_slave dk s"
  using assms by (auto simp: same_but_disk_def disk_port_def disk_slave_def)

lemma same_but_disk_put: "same_but_disk s (log_out os (put_sectors b d lba xs (log_out os' s)))"
  by (auto simp: same_but_disk_def log_out_def put_sectors_def outs_platter)

lemma log_out_parts [simp]: "parts (log_out os s) = parts s" "parts (put_sectors b d lba xs s) = parts s"
  by (simp_all add: log_out_def put_sectors_def)

lemma put_inode_bytes_ok:
  assumes ok: "part_ok part p sp s" and n: "n < 4096" and ys: "length ys = 76"
    and pos: "inode_locate part (of_nat n) s = Some pos"
  shows "\<exists>s'. put_inode_bytes part pos ys s = Some s' \<and> part_ok part p sp s' \<and> same_but_disk s s' \<and>
    inode_table part s' = patch (76 * n) ys (inode_table part s)"
proof -
  note D = part_okD [OF ok]
  let ?b = "disk_port (my_disk p) s" and ?d = "disk_slave (my_disk p) s" and ?T = "inode_table_lba sp"
  obtain i where i: "sec_lba pos = ?T + of_nat i" "512 * i + unat (off_size pos) = 76 * n"
      "i + unat (inode_secs pos) \<le> 608" "unat (off_size pos) + 76 \<le> 512 * unat (inode_secs pos)" "0 < inode_secs pos"
    using inode_locate_ok [OF ok n] pos by auto
  let ?k = "unat (inode_secs pos)"
  have "unat (?T + of_nat i) = unat ?T + i"
    using i(3) D(5) by (simp add: unat_word_ariths max_lba_def)
  then have rng: "unat (sec_lba pos) + ?k \<le> Suc (unat max_lba)" using i(1,3) D(5) by simp
  obtain os where rd: "ide_read (my_disk p) (sec_lba pos) (inode_secs pos) s =
      Some (sectors ?b ?d (sec_lba pos) ?k s, log_out os s)"
    using ide_read_ok [OF D(4) i(5) rng] by auto
  define xs where "xs = patch (unat (off_size pos)) ys (sectors ?b ?d (sec_lba pos) ?k s)"
  have len: "length xs = 512 * ?k" unfolding xs_def using ys i(4) length_sectors [OF D(8)] by simp
  obtain os' where wr: "ide_write (my_disk p) (sec_lba pos) xs (inode_secs pos) (log_out os s) =
      Some (log_out os' (put_sectors ?b ?d (sec_lba pos) xs (log_out os s)))"
    using ide_write_ok [OF disk_ready_log [OF D(4)] i(5) rng, of xs os] len by auto
  let ?s = "log_out os' (put_sectors ?b ?d (sec_lba pos) xs (log_out os s))"
  have same: "same_but_disk s ?s" by (rule same_but_disk_put)
  have ready: "disk_ready (my_disk p) ?s"
    using D(4) len by (intro disk_ready_log disk_ready_put) simp_all
  have ok': "part_ok part p sp ?s"
    using D(1-3,5,6) ready same_but_diskD(1) [OF same] by (simp add: part_ok_def rd_part_def)
  have xp: "xs = patch (unat (off_size pos)) ys (take (512 * ?k) (drop (512 * i) (inode_table part s)))"
    unfolding xs_def using sectors_part [OF i(3) D(8)] D(7) i(1) by simp
  have "inode_table part ?s = sectors ?b ?d ?T 608 (put_sectors ?b ?d (?T + of_nat i) xs (log_out os s))"
    using part_okD(7) [OF ok'] i(1) sectors_cong [of ?s "put_sectors ?b ?d (sec_lba pos) xs (log_out os s)"] by simp
  also have "\<dots> = patch (512 * i) xs (sectors ?b ?d ?T 608 (log_out os s))"
    using len i(3) D(8) by (intro sectors_patch) simp_all
  also have "sectors ?b ?d ?T 608 (log_out os s) = inode_table part s"
    using D(7) sectors_cong [of "log_out os s" s] by simp
  also have "patch (512 * i) xs (inode_table part s) = patch (76 * n) ys (inode_table part s)"
    unfolding xp using i ys length_inode_table [OF ok] by (subst patch_patch) simp_all
  finally have "inode_table part ?s = patch (76 * n) ys (inode_table part s)" .
  moreover have "put_inode_bytes part pos ys s = Some ?s" using rd wr D(2) by (simp add: put_inode_bytes_def xs_def)
  ultimately show ?thesis using ok' same by blast
qed

text \<open>The inodes after their table was patched.\<close>

lemma disk_inode_patched:
  assumes ok: "part_ok part p sp s" "part_ok part p sp s'" and t: "inode_table part s' = patch (76 * n) ys (inode_table part s)"
    and "n < 4096" "k < 4096" "length ys = 76"
  shows "disk_inode part k s' = (if k = n then inode_of ys else disk_inode part k s)"
proof -
  let ?t = "inode_table part s"
  have len: "length ?t = 311296" by (rule length_inode_table [OF ok(1)])
  show ?thesis
  proof (cases "k = n")
    case True
    have "take 76 (drop (76 * n) (patch (76 * n) ys ?t)) = ys"
      using take_drop_patch_same [of "76 * n" ys ?t] assms(4,6) len by simp
    then have "inode_of (drop (76 * n) (patch (76 * n) ys ?t)) = inode_of ys"
      using assms(4,6) len by (intro inode_of_cong) simp_all
    then show ?thesis using True by (simp add: disk_inode_def t)
  next
    case False
    then have "k < n \<or> n < k" by linarith
    then have "take 76 (drop (76 * k) (patch (76 * n) ys ?t)) = take 76 (drop (76 * k) ?t)"
      using assms(4-6) len by (intro take_drop_patch_other) auto
    then have "inode_of (drop (76 * k) (patch (76 * n) ys ?t)) = inode_of (drop (76 * k) ?t)"
      using assms(4-6) len by (intro inode_of_cong) simp_all
    then show ?thesis using False by (simp add: disk_inode_def t)
  qed
qed

lemma inode_table_after_sync:
  assumes ok: "part_ok part p sp s" and l: "length (i_sectors ino) = 13"
  shows "\<exists>s'. inode_sync part ino s = Some s' \<and> part_ok part p sp s' \<and> same_but_disk s s' \<and>
    inode_table part s' = patch (76 * (unat (i_no ino) mod 256)) (inode_bytes (ino\<lparr>i_open_cnts := 0, write_deny := False\<rparr>)) (inode_table part s)"
proof -
  let ?n = "unat (i_no ino) mod 256"
  have u: "unat (ucast (ucast (i_no ino) :: u8) :: u32) = ?n"
    by (simp add: unsigned_ucast_eq take_bit_eq_mod unat_mod)
  have n: "ucast (ucast (i_no ino) :: u8) = (of_nat ?n :: u32)" by (simp add: word_unat_eq_iff u unat_of_nat)
  have lt: "?n < 4096" by (rule less_trans [of _ 256]) simp_all
  obtain pos i where pos: "inode_locate part (of_nat ?n) s = Some pos" "sec_lba pos = inode_table_lba sp + of_nat i"
      "i + unat (inode_secs pos) \<le> 608" "0 < inode_secs pos"
    using inode_locate_ok [OF ok lt] by auto
  note D = part_okD [OF ok]
  have "unat (sec_lba pos) = unat (inode_table_lba sp) + i"
    using pos(2,3) D(5) by (simp add: unat_word_ariths max_lba_def)
  then have "sec_lba pos \<le> start_lba p + sec_cnt p" using pos(3) D(6) by (simp add: word_le_nat_alt)
  then show ?thesis
    using put_inode_bytes_ok [OF ok lt _ pos(1), of "inode_bytes (ino\<lparr>i_open_cnts := 0, write_deny := False\<rparr>)"]
      length_inode_bytes [of "ino\<lparr>i_open_cnts := 0, write_deny := False\<rparr>"] l pos(1) D(2)
    by (simp add: inode_sync_def n)
qed

text \<open>C40: an inode is stored under the low byte of its number. \<open>inode_sync\<close> returns and changes exactly one inode on the disk: the one whose
  number is \<open>i_no\<close> modulo 256, which becomes the inode in memory with the open count and the write flag
  cleared. So an inode up to number 255 comes back as it was, and one from 256 on overwrites another inode.\<close>

theorem inode_sync_stores:
  assumes "part_ok part p sp s" "length (i_sectors ino) = 13"
  shows "\<exists>s'. inode_sync part ino s = Some s' \<and> part_ok part p sp s' \<and> same_but_disk s s' \<and>
    (\<forall>k < 4096. disk_inode part k s' =
       (if k = unat (i_no ino) mod 256 then ino\<lparr>i_open_cnts := 0, write_deny := False\<rparr> else disk_inode part k s))"
proof -
  let ?n = "unat (i_no ino) mod 256" and ?ino = "ino\<lparr>i_open_cnts := 0, write_deny := False\<rparr>"
  obtain s' where s': "inode_sync part ino s = Some s'" "part_ok part p sp s'" "same_but_disk s s'"
      "inode_table part s' = patch (76 * ?n) (inode_bytes ?ino) (inode_table part s)"
    using inode_table_after_sync [OF assms] by auto
  have lt: "?n < 4096" by (rule less_trans [of _ 256]) simp_all
  have "inode_of (inode_bytes ?ino) = ?ino" using inode_of_bytes [of ?ino "[]"] assms(2) by simp
  then have "disk_inode part k s' = (if k = ?n then ?ino else disk_inode part k s)" if "k < 4096" for k
    using disk_inode_patched [OF assms(1) s'(2,4) lt that] length_inode_bytes [of ?ino] assms(2) by simp
  then show ?thesis using s'(1-3) by blast
qed

definition demo_sb :: super_block where
  "demo_sb = \<lparr>magic = 0x19590318, sb_sec_cnt = 4096, inode_cnt = 4096, part_lba_base = 63, block_bitmap_lba = 65,
     block_bitmap_sects = 1, inode_bitmap_lba = 66, inode_bitmap_sects = 1, inode_table_lba = 67, inode_table_sects = 608,
     data_start_lba = 675, root_inode_no = 0, dir_entry_size = 24\<rparr>"

definition demo_part :: partition where
  "demo_part = \<lparr>start_lba = 63, sec_cnt = 4096, my_disk = 0xc000b350, part_name = lit ''sdb1'', sb = Some demo_sb,
     block_bitmap = \<lparr>btmp_bytes_len = 512, bits = 1 # replicate 511 0\<rparr>,
     inode_bitmap = \<lparr>btmp_bytes_len = 512, bits = 1 # replicate 511 0\<rparr>\<rparr>"

definition demo_fs :: fs_state where
  "demo_fs = ide_state.extend (demo_ide\<lparr>parts := \<lambda>_. demo_part\<rparr>)
     (fs_state.fields (\<lambda>_. inode_init 0) (\<lambda>_. \<lparr>dir_inode = NULL, dir_pos = 0, dir_buf = replicate 512 0\<rparr>)
       (replicate 32 \<lparr>fd_pos = 0, fd_flag = 0, fd_inode = NULL\<rparr>) 0xc000b360 0xc000c000)"

lemma disk_ready_extend: "disk_ready dk (ide_state.extend (s\<lparr>parts := ps\<rparr>) m) = disk_ready dk s"
  using list_empty_cong [of "ide_state.extend (s\<lparr>parts := ps\<rparr>) m" s]
  by (simp add: disk_ready_def chan_ready_def Let_def channel_at_def disk_slave_def lock_idle_def lock_free_def
      running_thread_def ide_state.defs)

lemma demo_fs_part_ok: "part_ok 0xc000b360 demo_part demo_sb demo_fs"
proof -
  have "parts demo_fs = (\<lambda>_. demo_part)" by (simp add: demo_fs_def ide_state.defs)
  moreover have "disk_ready 0xc000b350 demo_fs" by (simp add: demo_fs_def disk_ready_extend demo_disk_ready)
  ultimately show ?thesis by (simp add: part_ok_def rd_part_def demo_part_def demo_sb_def max_lba_def)
qed

theorem inode_sync_stores_witness:
  "\<exists>s'. inode_sync 0xc000b360 ((inode_init 257)\<lparr>i_size := 48\<rparr>) demo_fs = Some s' \<and>
    disk_inode 0xc000b360 1 s' = (inode_init 257)\<lparr>i_size := 48\<rparr> \<and>
    disk_inode 0xc000b360 257 s' = disk_inode 0xc000b360 257 demo_fs"
  using inode_sync_stores [OF demo_fs_part_ok, of "(inode_init 257)\<lparr>i_size := 48\<rparr>"]
  by (auto simp: inode_init_def)

end
