(* ===== verification/Dir.thy ===== *)
theory Dir
  imports Inode
begin

text \<open>
  Directories, \<^verbatim>\<open>fs/dir.c\<close>. A directory is a file of 24-byte entries, 21 of them in a sector; entries with type
  \<open>FT_UNKNOWN\<close> are free. Pointers into a sector buffer are entry numbers; a name in a buffer is read up to its
  terminator, which for a name of 16 bytes lies in the fields behind it. A super block with another
  entry size than that of the structure is not followed.
\<close>

unbundle bit_operations_syntax

record dir_entry =
  filename :: "u8 list"
  de_i_no :: u32
  f_type :: u32

definition FT_UNKNOWN :: u32 where "FT_UNKNOWN = 0"
definition FT_REGULAR :: u32 where "FT_REGULAR = 1"
definition FT_DIRECTORY :: u32 where "FT_DIRECTORY = 2"

definition sizeof_dir_entry :: u32 where "sizeof_dir_entry = 24"
definition sizeof_dir :: u32 where "sizeof_dir = 520"

definition entry_bytes :: "dir_entry \<Rightarrow> u8 list" where
  "entry_bytes e = filename e @ bytes32 (de_i_no e) @ bytes32 (f_type e)"

definition entry_of :: "u8 list \<Rightarrow> dir_entry" where
  "entry_of xs = \<lparr>filename = take 16 xs, de_i_no = le32 xs 16, f_type = le32 xs 20\<rparr>"

text \<open>Entry number \<open>k\<close> of a sector, and its name.\<close>

definition entry_at :: "u8 list \<Rightarrow> nat \<Rightarrow> dir_entry" where
  "entry_at bf k = entry_of (drop (24 * k) bf)"

definition name_at :: "u8 list \<Rightarrow> nat \<Rightarrow> u8 list option" where
  "name_at bf k = str_of (drop (24 * k) bf)"

definition rd_dir_part :: "addr \<Rightarrow> 'a fs_state_scheme \<Rightarrow> (partition \<times> super_block) option" where
  "rd_dir_part part s = do {
     (p, sp) \<leftarrow> rd_part part s;
     _ \<leftarrow> ASSERT (dir_entry_size sp = sizeof_dir_entry);
     Some (p, sp)
   }"

definition entries_per_sec :: "super_block \<Rightarrow> nat" where
  "entries_per_sec sp = unat (SECTOR_SIZE div dir_entry_size sp)"

definition open_root_dir :: "addr \<Rightarrow> 'a fs_state_scheme \<Rightarrow> 'a fs_state_scheme option" where
  "open_root_dir part s = do {
     (_, sp) \<leftarrow> rd_part part s;
     (i, s) \<leftarrow> inode_open part (root_inode_no sp) s;
     Some (s\<lparr>dirs := (dirs s)(root_dir s := (dirs s (root_dir s))\<lparr>dir_inode := i, dir_pos := 0\<rparr>)\<rparr>)
   }"

definition dir_open :: "addr \<Rightarrow> u32 \<Rightarrow> 'a fs_state_scheme \<Rightarrow> (addr \<times> 'a fs_state_scheme) option" where
  "dir_open part inode_no s = do {
     (pdir, s) \<leftarrow> sys_malloc sizeof_dir s;
     _ \<leftarrow> ASSERT (pdir \<noteq> NULL);
     (i, s) \<leftarrow> inode_open part inode_no s;
     Some (pdir, s\<lparr>dirs := (dirs s)(pdir := (dirs s pdir)\<lparr>dir_inode := i, dir_pos := 0\<rparr>)\<rparr>)
   }"

text \<open>The sectors of a directory: twelve direct ones, and those of the indirect table when there is one.\<close>

definition dir_blocks :: "addr \<Rightarrow> inode \<Rightarrow> 'a fs_state_scheme \<Rightarrow> (u32 list \<times> 'a fs_state_scheme) option" where
  "dir_blocks part i s =
     (if i_sectors i ! 12 \<noteq> 0 then do {
        (xs, s) \<leftarrow> ide_read (my_disk (parts s part)) (i_sectors i ! 12) 1 s;
        Some (take 12 (i_sectors i) @ words32 128 xs, s)
      } else Some (take 12 (i_sectors i) @ replicate 128 0, s))"

primrec find_entry :: "u8 list \<Rightarrow> nat list \<Rightarrow> u8 list \<Rightarrow> nat option option" where
  "find_entry nm [] bf = Some None"
| "find_entry nm (k # ks) bf = do {
     n \<leftarrow> name_at bf k;
     if n = nm then Some (Some k) else find_entry nm ks bf
   }"

primrec search_blocks ::
    "addr \<Rightarrow> nat \<Rightarrow> u8 list \<Rightarrow> u32 list \<Rightarrow> 'a fs_state_scheme \<Rightarrow> (dir_entry option \<times> 'a fs_state_scheme) option" where
  "search_blocks part n nm [] s = Some (None, s)"
| "search_blocks part n nm (lba # lbas) s =
     (if lba = 0 then search_blocks part n nm lbas s
      else do {
        (bf, s) \<leftarrow> ide_read (my_disk (parts s part)) lba 1 s;
        r \<leftarrow> find_entry nm [0..<n] bf;
        case r of Some k \<Rightarrow> Some (Some (entry_at bf k), s) | None \<Rightarrow> search_blocks part n nm lbas s
      })"

definition search_dir_entry ::
    "addr \<Rightarrow> addr \<Rightarrow> u8 list \<Rightarrow> 'a fs_state_scheme \<Rightarrow> (dir_entry option \<times> 'a fs_state_scheme) option" where
  "search_dir_entry part pdir nm s = do {
     (all_blocks, s) \<leftarrow> sys_malloc (48 + 512) s;
     if all_blocks = NULL then do {
       s \<leftarrow> printk ''search_dir_entry: sys_malloc for all_blocks failed'' [] s;
       Some (None, s)
     } else do {
       i \<leftarrow> rd_inode (dir_inode (dirs s pdir)) s;
       (blocks, s) \<leftarrow> dir_blocks part i s;
       (bf, s) \<leftarrow> sys_malloc SECTOR_SIZE s;
       (_, sp) \<leftarrow> rd_dir_part part s;
       (r, s) \<leftarrow> search_blocks part (entries_per_sec sp) nm blocks s;
       s \<leftarrow> sys_free bf s;
       s \<leftarrow> sys_free all_blocks s;
       Some (r, s)
     }
   }"

definition dir_close :: "addr \<Rightarrow> 'a fs_state_scheme \<Rightarrow> 'a fs_state_scheme option" where
  "dir_close d s =
     (if d = root_dir s then Some s
      else do {
        s \<leftarrow> inode_close (dir_inode (dirs s d)) s;
        sys_free d s
      })"

definition create_dir_entry :: "u8 list \<Rightarrow> u32 \<Rightarrow> u32 \<Rightarrow> dir_entry \<Rightarrow> dir_entry option" where
  "create_dir_entry nm inode_no file_type p_de = do {
     _ \<leftarrow> ASSERT (length nm \<le> MAX_FILE_NAME_LEN);
     Some (p_de\<lparr>filename := patch 0 nm (filename p_de), de_i_no := inode_no, f_type := file_type\<rparr>)
   }"

definition zero_entry :: dir_entry where
  "zero_entry = \<lparr>filename = replicate 16 0, de_i_no = 0, f_type = 0\<rparr>"

subsection \<open>Adding an entry\<close>

text \<open>A new sector for block number \<open>k\<close> of the directory: the block is entered in the inode or in the indirect table.
  The result is \<open>False\<close> when no sector is left.\<close>

definition set_sector :: "addr \<Rightarrow> nat \<Rightarrow> u32 \<Rightarrow> 'a fs_state_scheme \<Rightarrow> 'a fs_state_scheme" where
  "set_sector ino k lba s = upd_inode ino (\<lambda>i. i\<lparr>i_sectors := (i_sectors i)[k := lba]\<rparr>) s"

definition alloc_synced :: "'a fs_state_scheme \<Rightarrow> (u32 \<times> 'a fs_state_scheme) option" where
  "alloc_synced s = do {
     (block_lba, s) \<leftarrow> block_bitmap_alloc (cur_part s) s;
     if block_lba = - 1 then Some (block_lba, s)
     else do {
       (_, sp) \<leftarrow> rd_part (cur_part s) s;
       let block_bitmap_idx = block_lba - data_start_lba sp;
       _ \<leftarrow> ASSERT (block_bitmap_idx \<noteq> - 1);
       s \<leftarrow> bitmap_sync (cur_part s) block_bitmap_idx BLOCK_BITMAP s;
       Some (block_lba, s)
     }
   }"

definition write_table :: "addr \<Rightarrow> u32 list \<Rightarrow> 'a fs_state_scheme \<Rightarrow> 'a fs_state_scheme option" where
  "write_table ino all_blocks s =
     ide_write (my_disk (parts s (cur_part s))) (i_sectors (inodes s ino) ! 12) (concat (map bytes32 (drop 12 all_blocks))) 1 s"

definition new_dir_block ::
    "addr \<Rightarrow> nat \<Rightarrow> u32 list \<Rightarrow> 'a fs_state_scheme \<Rightarrow> (bool \<times> u32 list \<times> 'a fs_state_scheme) option" where
  "new_dir_block ino k all_blocks s = do {
     (block_lba, s) \<leftarrow> alloc_synced s;
     if block_lba = - 1 then do {
       s \<leftarrow> printk ''alloc block bitmap for sync_dir_entry failed\<newline>'' [] s;
       Some (False, all_blocks, s)
     }
     else if k < 12 then Some (True, all_blocks[k := block_lba], set_sector ino k block_lba s)
     else if k = 12 then do {
       let s = set_sector ino 12 block_lba s;
       (block_lba, s) \<leftarrow> alloc_synced s;
       if block_lba = - 1 then do {
         (_, sp) \<leftarrow> rd_part (cur_part s) s;
         let block_bitmap_idx = i_sectors (inodes s ino) ! 12 - data_start_lba sp;
         b \<leftarrow> bitmap_set (block_bitmap (parts s (cur_part s))) (unat block_bitmap_idx) 0;
         let s = set_sector ino 12 0 (upd_part (cur_part s) (\<lambda>p. p\<lparr>block_bitmap := b\<rparr>) s);
         s \<leftarrow> printk ''alloc block bitmap for sync_dir_entry failed\<newline>'' [] s;
         Some (False, all_blocks, s)
       } else do {
         let all_blocks = all_blocks[12 := block_lba];
         s \<leftarrow> write_table ino all_blocks s;
         Some (True, all_blocks, s)
       }
     } else do {
       let all_blocks = all_blocks[k := block_lba];
       s \<leftarrow> write_table ino all_blocks s;
       Some (True, all_blocks, s)
     }
   }"

definition grow_dir :: "addr \<Rightarrow> u32 \<Rightarrow> 'a fs_state_scheme \<Rightarrow> 'a fs_state_scheme" where
  "grow_dir ino n s = upd_inode ino (\<lambda>i. i\<lparr>i_size := i_size i + n\<rparr>) s"

primrec free_entry :: "nat list \<Rightarrow> u8 list \<Rightarrow> nat option" where
  "free_entry [] bf = None"
| "free_entry (k # ks) bf = (if f_type (entry_at bf k) = FT_UNKNOWN then Some k else free_entry ks bf)"

text \<open>The turns of the loop for the block numbers in the list. A block that was just allocated gets the entry, and then, since there is no
  \<open>return\<close>, is searched for a free entry like an old one.\<close>

primrec sync_loop ::
    "addr \<Rightarrow> super_block \<Rightarrow> dir_entry \<Rightarrow> nat list \<Rightarrow> u32 list \<Rightarrow> 'a fs_state_scheme \<Rightarrow> (bool \<times> 'a fs_state_scheme) option" where
  "sync_loop ino sp p_de [] all_blocks s = do {
     s \<leftarrow> printk ''directory is full!\<newline>'' [] s;
     Some (False, s)
   }"
| "sync_loop ino sp p_de (k # ks) all_blocks s = do {
     (ok, all_blocks, s) \<leftarrow> (if all_blocks ! k = 0 then do {
         (ok, all_blocks, s) \<leftarrow> new_dir_block ino k all_blocks s;
         if ok then do {
           let bf = patch 0 (entry_bytes p_de) (replicate 512 0);
           s \<leftarrow> ide_write (my_disk (parts s (cur_part s))) (all_blocks ! k) bf 1 s;
           Some (True, all_blocks, grow_dir ino (dir_entry_size sp) s)
         } else Some (False, all_blocks, s)
       } else Some (True, all_blocks, s));
     if \<not> ok then Some (False, s)
     else do {
       (bf, s) \<leftarrow> ide_read (my_disk (parts s (cur_part s))) (all_blocks ! k) 1 s;
       case free_entry [0..<entries_per_sec sp] bf of
         Some j \<Rightarrow> do {
           s \<leftarrow> ide_write (my_disk (parts s (cur_part s))) (all_blocks ! k) (patch (24 * j) (entry_bytes p_de) bf) 1 s;
           Some (True, grow_dir ino (dir_entry_size sp) s)
         }
       | None \<Rightarrow> sync_loop ino sp p_de ks all_blocks s
     }
   }"

text \<open>Unlike the other functions, \<open>sync_dir_entry\<close> does not read the indirect table: \<open>all_blocks\<close> has zeros there.\<close>

definition sync_dir_entry :: "addr \<Rightarrow> dir_entry \<Rightarrow> 'a fs_state_scheme \<Rightarrow> (bool \<times> 'a fs_state_scheme) option" where
  "sync_dir_entry parent_dir p_de s = do {
     let ino = dir_inode (dirs s parent_dir);
     i \<leftarrow> rd_inode ino s;
     (_, sp) \<leftarrow> rd_dir_part (cur_part s) s;
     _ \<leftarrow> ASSERT (i_size i mod dir_entry_size sp = 0);
     sync_loop ino sp p_de [0..<140] (take 12 (i_sectors i) @ replicate 128 0) s
   }"

subsection \<open>Removing an entry\<close>

text \<open>One pass over the entries of a sector: whether it has the entry \<open>.\<close>, the number of entries besides \<open>.\<close> and \<open>..\<close>
  (a byte), and the entry with the inode number.\<close>

definition dot_name :: "u8 list" where "dot_name = lit ''.''"
definition dotdot_name :: "u8 list" where "dotdot_name = lit ''..''"

primrec count_entries ::
    "u32 \<Rightarrow> u8 list \<Rightarrow> nat list \<Rightarrow> bool \<times> u8 \<times> nat option \<Rightarrow> (bool \<times> u8 \<times> nat option) option" where
  "count_entries inode_no bf [] acc = Some acc"
| "count_entries inode_no bf (k # ks) acc = do {
     let (first, n, found) = acc;
     acc \<leftarrow> (if f_type (entry_at bf k) \<noteq> FT_UNKNOWN then do {
         nm \<leftarrow> name_at bf k;
         if nm = dot_name then Some (True, n, found)
         else if nm \<noteq> dotdot_name then
           if de_i_no (entry_at bf k) = inode_no then do {
             _ \<leftarrow> ASSERT (found = None);
             Some (first, n + 1, Some k)
           } else Some (first, n + 1, found)
         else Some (first, n, found)
       } else Some (first, n, found));
     count_entries inode_no bf ks acc
   }"

text \<open>The loop that counts the indirect blocks never advances its index.\<close>

partial_function (option) count_indirect :: "u32 list \<Rightarrow> nat \<Rightarrow> u32 \<Rightarrow> u32 option" where
  "count_indirect all_blocks idx n =
     (if idx < 140 then count_indirect all_blocks idx (if all_blocks ! idx \<noteq> 0 then n + 1 else n) else Some n)"

definition drop_dir_block :: "addr \<Rightarrow> addr \<Rightarrow> nat \<Rightarrow> u32 list \<Rightarrow> 'a fs_state_scheme \<Rightarrow> 'a fs_state_scheme option" where
  "drop_dir_block part ino k all_blocks s = do {
     (_, sp) \<leftarrow> rd_part part s;
     s \<leftarrow> free_block_bit part (all_blocks ! k - data_start_lba sp) s;
     if k < 12 then Some (set_sector ino k 0 s)
     else do {
       indirect_blocks \<leftarrow> count_indirect all_blocks 12 0;
       _ \<leftarrow> ASSERT (indirect_blocks \<ge> 1);
       if indirect_blocks > 1 then
         ide_write (my_disk (parts s part)) (i_sectors (inodes s ino) ! 12) (concat (map bytes32 (drop 12 (all_blocks[k := 0])))) 1 s
       else do {
         s \<leftarrow> free_block_bit part (i_sectors (inodes s ino) ! 12 - data_start_lba sp) s;
         Some (set_sector ino 12 0 s)
       }
     }
   }"

primrec delete_loop ::
    "addr \<Rightarrow> addr \<Rightarrow> super_block \<Rightarrow> u32 \<Rightarrow> u32 list \<Rightarrow> nat list \<Rightarrow> 'a fs_state_scheme \<Rightarrow> (bool \<times> 'a fs_state_scheme) option" where
  "delete_loop part ino sp inode_no all_blocks [] s = Some (False, s)"
| "delete_loop part ino sp inode_no all_blocks (k # ks) s =
     (if all_blocks ! k = 0 then delete_loop part ino sp inode_no all_blocks ks s
      else do {
        (bf, s) \<leftarrow> ide_read (my_disk (parts s part)) (all_blocks ! k) 1 s;
        (first, n, found) \<leftarrow> count_entries inode_no bf [0..<entries_per_sec sp] (False, 0, None);
        case found of
          None \<Rightarrow> delete_loop part ino sp inode_no all_blocks ks s
        | Some j \<Rightarrow> do {
            _ \<leftarrow> ASSERT (n \<ge> 1);
            s \<leftarrow> (if n = 1 \<and> \<not> first then drop_dir_block part ino k all_blocks s
                 else ide_write (my_disk (parts s part)) (all_blocks ! k) (patch (24 * j) (replicate 24 0) bf) 1 s);
            _ \<leftarrow> ASSERT (i_size (inodes s ino) \<ge> dir_entry_size sp);
            let s = upd_inode ino (\<lambda>i. i\<lparr>i_size := i_size i - dir_entry_size sp\<rparr>) s;
            s \<leftarrow> inode_sync part (inodes s ino) s;
            Some (True, s)
          }
      })"

definition delete_dir_entry :: "addr \<Rightarrow> addr \<Rightarrow> u32 \<Rightarrow> 'a fs_state_scheme \<Rightarrow> (bool \<times> 'a fs_state_scheme) option" where
  "delete_dir_entry part pdir inode_no s = do {
     let ino = dir_inode (dirs s pdir);
     i \<leftarrow> rd_inode ino s;
     (all_blocks, s) \<leftarrow> dir_blocks part i s;
     (_, sp) \<leftarrow> rd_dir_part part s;
     delete_loop part ino sp inode_no all_blocks [0..<140] s
   }"

subsection \<open>Reading a directory\<close>

text \<open>The entries of one sector: skip those before \<open>dir_pos\<close>. The result is the entry found and the offset counted so far.\<close>

primrec next_entry :: "u32 \<Rightarrow> u32 \<Rightarrow> u8 list \<Rightarrow> nat list \<Rightarrow> u32 \<Rightarrow> (nat option \<times> u32) option" where
  "next_entry sz pos bf [] at = Some (None, at)"
| "next_entry sz pos bf (k # ks) at =
     (if f_type (entry_at bf k) \<noteq> FT_UNKNOWN then
        if at < pos then next_entry sz pos bf ks (at + sz)
        else do { _ \<leftarrow> ASSERT (at = pos); Some (Some k, at) }
      else next_entry sz pos bf ks at)"

primrec read_blocks ::
    "addr \<Rightarrow> super_block \<Rightarrow> u32 list \<Rightarrow> u32 \<Rightarrow> 'a fs_state_scheme \<Rightarrow> (addr \<times> 'a fs_state_scheme) option" where
  "read_blocks d sp [] at s = Some (NULL, s)"
| "read_blocks d sp (lba # lbas) at s =
     (if dir_pos (dirs s d) \<ge> i_size (inodes s (dir_inode (dirs s d))) then Some (NULL, s)
      else if lba = 0 then read_blocks d sp lbas at s
      else do {
        (bf, s) \<leftarrow> ide_read (my_disk (parts s (cur_part s))) lba 1 s;
        let s = s\<lparr>dirs := (dirs s)(d := (dirs s d)\<lparr>dir_buf := bf\<rparr>)\<rparr>;
        (r, at) \<leftarrow> next_entry (dir_entry_size sp) (dir_pos (dirs s d)) bf [0..<entries_per_sec sp] at;
        case r of
          Some k \<Rightarrow> Some (d + 8 + of_nat k * sizeof_dir_entry,
            s\<lparr>dirs := (dirs s)(d := (dirs s d)\<lparr>dir_pos := dir_pos (dirs s d) + dir_entry_size sp\<rparr>)\<rparr>)
        | None \<Rightarrow> read_blocks d sp lbas at s
      })"

definition dir_read :: "addr \<Rightarrow> 'a fs_state_scheme \<Rightarrow> (addr \<times> 'a fs_state_scheme) option" where
  "dir_read d s = do {
     i \<leftarrow> rd_inode (dir_inode (dirs s d)) s;
     (all_blocks, s) \<leftarrow> dir_blocks (cur_part s) i s;
     (_, sp) \<leftarrow> rd_dir_part (cur_part s) s;
     read_blocks d sp (if i_sectors i ! 12 \<noteq> 0 then all_blocks else take 12 all_blocks) 0 s
   }"

definition dir_is_empty :: "addr \<Rightarrow> 'a fs_state_scheme \<Rightarrow> bool option" where
  "dir_is_empty d s = do {
     i \<leftarrow> rd_inode (dir_inode (dirs s d)) s;
     (_, sp) \<leftarrow> rd_part (cur_part s) s;
     Some (i_size i = dir_entry_size sp * 2)
   }"

definition dir_remove :: "addr \<Rightarrow> addr \<Rightarrow> 'a fs_state_scheme \<Rightarrow> (u32 \<times> 'a fs_state_scheme) option" where
  "dir_remove parent_dir child_dir s = do {
     i \<leftarrow> rd_inode (dir_inode (dirs s child_dir)) s;
     _ \<leftarrow> ASSERT (\<forall>k \<in> {1..<13}. i_sectors i ! k = 0);
     (io_buf, s) \<leftarrow> sys_malloc (SECTOR_SIZE * 2) s;
     if io_buf = NULL then do {
       s \<leftarrow> printk ''dir_remove: malloc for io_buf failed\<newline>'' [] s;
       Some (- 1, s)
     } else do {
       (_, s) \<leftarrow> delete_dir_entry (cur_part s) parent_dir (i_no (inodes s (dir_inode (dirs s child_dir)))) s;
       s \<leftarrow> inode_release (cur_part s) (i_no (inodes s (dir_inode (dirs s child_dir)))) s;
       s \<leftarrow> sys_free io_buf s;
       Some (0, s)
     }
   }"

lemma count_indirect_ends: "count_indirect bs idx n = Some m \<Longrightarrow> 140 \<le> idx"
proof (induction rule: count_indirect.raw_induct [rotated 1, consumes 1])
  case (1 f bs idx n m)
  then show ?case by (cases "idx < 140") auto
qed

text \<open>C22: taking back an indirect sector of a directory never ends. The loop of \<open>delete_dir_entry\<close> that counts the indirect sectors does not
  advance its index, so that it returns for no contents of the table; the call does not return whenever the entry that is deleted
  was the only one in a sector with an index from 12 on.\<close>

theorem drop_indirect_block_hangs:
  assumes "12 \<le> k"
  shows "count_indirect all_blocks 12 n = None \<and> drop_dir_block part ino k all_blocks s = None"
proof -
  have "count_indirect all_blocks 12 n = None" for n using count_indirect_ends [of all_blocks 12 n] by (cases "count_indirect all_blocks 12 n") auto
  then show ?thesis
    using assms by (auto simp: drop_dir_block_def rd_part_def split: option.splits bind_splits)
qed

theorem drop_indirect_block_hangs_witness:
  "let all_blocks = replicate 12 700 @ 800 # replicate 127 0
   in count_indirect all_blocks 12 0 = None \<and> drop_dir_block 0xc000b360 0xc000e000 12 all_blocks demo_fs = None"
  unfolding Let_def by (rule drop_indirect_block_hangs) simp

end
