(* ===== verification/File.thy ===== *)
theory File
  imports Dir
begin

text \<open>
  Open files, \<^verbatim>\<open>fs/file.c\<close>. A pointer to a file structure is an index into \<open>file_table\<close>; file descriptors of a process are
  the entries of \<open>fd_table\<close> in its task structure. The array \<open>all_blocks\<close> of a transfer is a list of 140 sector addresses, zero at first,
  since \<open>sys_malloc\<close> clears what it returns. Data to write is a list of bytes; data read is returned as one.
\<close>

unbundle bit_operations_syntax

definition MAX_FILE_OPEN :: nat where "MAX_FILE_OPEN = 32"
definition MAX_FILES_OPEN_PER_PROC :: nat where "MAX_FILES_OPEN_PER_PROC = 8"
definition O_WRONLY :: u8 where "O_WRONLY = 1"
definition O_RDWR :: u8 where "O_RDWR = 2"
definition O_CREAT :: u8 where "O_CREAT = 4"

definition upd_file :: "nat \<Rightarrow> (file_struct \<Rightarrow> file_struct) \<Rightarrow> 'a fs_state_scheme \<Rightarrow> 'a fs_state_scheme option" where
  "upd_file fd f s = do {
     x \<leftarrow> get_at (file_table s) fd;
     Some (s\<lparr>file_table := (file_table s)[fd := f x]\<rparr>)
   }"

definition get_free_slot_in_global :: "'a fs_state_scheme \<Rightarrow> (u32 \<times> 'a fs_state_scheme) option" where
  "get_free_slot_in_global s =
     (case List.find (\<lambda>i. fd_inode (file_table s ! i) = NULL) [3..<MAX_FILE_OPEN] of
        Some fd_idx \<Rightarrow> Some (of_nat fd_idx, s)
      | None \<Rightarrow> do {
          s \<leftarrow> printk ''exceed max open files\<newline>'' [] s;
          Some (- 1, s)
        })"

definition pcb_fd_install :: "u32 \<Rightarrow> 'a fs_state_scheme \<Rightarrow> (u32 \<times> 'a fs_state_scheme) option" where
  "pcb_fd_install globa_fd_idx s = do {
     let cur = running_thread s;
     t \<leftarrow> rd_task cur s;
     case List.find (\<lambda>i. fd_table t ! i = - 1) [3..<MAX_FILES_OPEN_PER_PROC] of
       Some local_fd_idx \<Rightarrow> do {
         s \<leftarrow> wr_task cur (\<lambda>t. t\<lparr>fd_table := (fd_table t)[local_fd_idx := globa_fd_idx]\<rparr>) s;
         Some (of_nat local_fd_idx, s)
       }
     | None \<Rightarrow> do {
         s \<leftarrow> printk ''exceed max open files_per_proc\<newline>'' [] s;
         Some (- 1, s)
       }
   }"

subsection \<open>Creating, opening, closing\<close>

text \<open>The steps below the label \<open>rollback\<close>, from \<open>rollback_step\<close> on.\<close>

definition file_rollback :: "nat \<Rightarrow> u32 \<Rightarrow> addr \<Rightarrow> int \<Rightarrow> addr \<Rightarrow> 'a fs_state_scheme \<Rightarrow> (u32 \<times> 'a fs_state_scheme) option" where
  "file_rollback rollback_step fd_idx new_file_inode inode_no io_buf s = do {
     s \<leftarrow> (if rollback_step = 3 then upd_file (unat fd_idx) (\<lambda>_. \<lparr>fd_pos = 0, fd_flag = 0, fd_inode = NULL\<rparr>) s else Some s);
     s \<leftarrow> (if rollback_step \<ge> 2 then sys_free new_file_inode s else Some s);
     b \<leftarrow> bitmap_set (inode_bitmap (parts s (cur_part s))) (nat inode_no) 0;
     let s = upd_part (cur_part s) (\<lambda>p. p\<lparr>inode_bitmap := b\<rparr>) s;
     s \<leftarrow> sys_free io_buf s;
     Some (- 1, s)
   }"

definition file_create :: "addr \<Rightarrow> u8 list \<Rightarrow> u8 \<Rightarrow> 'a fs_state_scheme \<Rightarrow> (u32 \<times> 'a fs_state_scheme) option" where
  "file_create parent_dir nm flag s = do {
     (io_buf, s) \<leftarrow> sys_malloc 1024 s;
     if io_buf = NULL then do {
       s \<leftarrow> printk ''in file_creat: sys_malloc for io_buf failed\<newline>'' [] s;
       Some (- 1, s)
     } else do {
       (inode_no, s) \<leftarrow> inode_bitmap_alloc (cur_part s) s;
       if inode_no = -1 then do {
         s \<leftarrow> printk ''in file_creat: allocate inode failed\<newline>'' [] s;
         Some (- 1, s)
       } else do {
         (new_file_inode, s) \<leftarrow> sys_malloc sizeof_inode s;
         if new_file_inode = NULL then do {
           s \<leftarrow> printk ''file_create: sys_malloc for inode failed\<newline>'' [] s;
           file_rollback 1 0 NULL inode_no io_buf s
         } else do {
           let s = upd_inode new_file_inode (\<lambda>_. inode_init (of_int inode_no)) s;
           (fd_idx, s) \<leftarrow> get_free_slot_in_global s;
           if fd_idx = - 1 then do {
             s \<leftarrow> printk ''exceed max open files\<newline>'' [] s;
             file_rollback 2 fd_idx new_file_inode inode_no io_buf s
           } else do {
             s \<leftarrow> upd_file (unat fd_idx) (\<lambda>_. \<lparr>fd_pos = 0, fd_flag = ucast flag, fd_inode = new_file_inode\<rparr>) s;
             let s = upd_inode new_file_inode (\<lambda>i. i\<lparr>write_deny := False\<rparr>) s;
             new_dir_entry \<leftarrow> create_dir_entry nm (of_int inode_no) FT_REGULAR zero_entry;
             (ok, s) \<leftarrow> sync_dir_entry parent_dir new_dir_entry s;
             if \<not> ok then do {
               s \<leftarrow> printk ''sync dir_entry to disk failed\<newline>'' [] s;
               file_rollback 3 fd_idx new_file_inode inode_no io_buf s
             } else do {
               s \<leftarrow> inode_sync (cur_part s) (inodes s (dir_inode (dirs s parent_dir))) s;
               s \<leftarrow> inode_sync (cur_part s) (inodes s new_file_inode) s;
               s \<leftarrow> bitmap_sync (cur_part s) (of_int inode_no) INODE_BITMAP s;
               s \<leftarrow> list_push (open_inodes (cur_part s)) (inode_tag new_file_inode) s;
               let s = upd_inode new_file_inode (\<lambda>i. i\<lparr>i_open_cnts := 1\<rparr>) s;
               s \<leftarrow> sys_free io_buf s;
               pcb_fd_install fd_idx s
             }
           }
         }
       }
     }
   }"

definition file_open :: "u32 \<Rightarrow> u8 \<Rightarrow> 'a fs_state_scheme \<Rightarrow> (u32 \<times> 'a fs_state_scheme) option" where
  "file_open inode_no flag s = do {
     (fd_idx, s) \<leftarrow> get_free_slot_in_global s;
     if fd_idx = - 1 then do {
       s \<leftarrow> printk ''exceed max open files\<newline>'' [] s;
       Some (- 1, s)
     } else do {
       (ino, s) \<leftarrow> inode_open (cur_part s) inode_no s;
       s \<leftarrow> upd_file (unat fd_idx) (\<lambda>_. \<lparr>fd_pos = 0, fd_flag = ucast flag, fd_inode = ino\<rparr>) s;
       if flag AND O_WRONLY \<noteq> 0 \<or> flag AND O_RDWR \<noteq> 0 then do {
         let (old_status, s) = intr_disable s;
         if \<not> write_deny (inodes s ino) then do {
           let s = upd_inode ino (\<lambda>i. i\<lparr>write_deny := True\<rparr>) s;
           pcb_fd_install fd_idx (snd (intr_set_status old_status s))
         } else do {
           s \<leftarrow> printk ''file can`t be write now, try again later\<newline>'' [] (snd (intr_set_status old_status s));
           Some (- 1, s)
         }
       } else pcb_fd_install fd_idx s
     }
   }"

definition file_close :: "nat option \<Rightarrow> 'a fs_state_scheme \<Rightarrow> (u32 \<times> 'a fs_state_scheme) option" where
  "file_close fl s =
     (case fl of None \<Rightarrow> Some (- 1, s)
      | Some fd \<Rightarrow> do {
          x \<leftarrow> get_at (file_table s) fd;
          _ \<leftarrow> rd_inode (fd_inode x) s;
          let s = upd_inode (fd_inode x) (\<lambda>i. i\<lparr>write_deny := False\<rparr>) s;
          s \<leftarrow> inode_close (fd_inode x) s;
          s \<leftarrow> upd_file fd (\<lambda>x. x\<lparr>fd_inode := NULL\<rparr>) s;
          Some (0, s)
        })"

subsection \<open>Writing\<close>

text \<open>The loops that allocate the blocks from number \<open>k\<close> up to \<open>will\<close>; \<open>None\<close> inside the result when no sector is left. Blocks below
  12 are entered in the inode.\<close>

definition alloc_block :: "string \<Rightarrow> addr \<Rightarrow> nat \<Rightarrow> u32 list \<Rightarrow> 'a fs_state_scheme \<Rightarrow> (u32 list option \<times> 'a fs_state_scheme) option" where
  "alloc_block msg ino k all_blocks s = do {
     (block_lba, s) \<leftarrow> block_bitmap_alloc (cur_part s) s;
     if block_lba = - 1 then do {
       s \<leftarrow> printk msg [] s;
       Some (None, s)
     } else do {
       s \<leftarrow> (if k < 12 then do {
           _ \<leftarrow> ASSERT (i_sectors (inodes s ino) ! k = 0);
           Some (set_sector ino k block_lba s)
         } else Some s);
       (_, sp) \<leftarrow> rd_part (cur_part s) s;
       s \<leftarrow> bitmap_sync (cur_part s) (block_lba - data_start_lba sp) BLOCK_BITMAP s;
       Some (Some (all_blocks[k := block_lba]), s)
     }
   }"

primrec alloc_blocks ::
    "string \<Rightarrow> addr \<Rightarrow> nat list \<Rightarrow> u32 list \<Rightarrow> 'a fs_state_scheme \<Rightarrow> (u32 list option \<times> 'a fs_state_scheme) option" where
  "alloc_blocks msg ino [] all_blocks s = Some (Some all_blocks, s)"
| "alloc_blocks msg ino (k # ks) all_blocks s = do {
     (r, s) \<leftarrow> alloc_block msg ino k all_blocks s;
     case r of None \<Rightarrow> Some (None, s) | Some all_blocks \<Rightarrow> alloc_blocks msg ino ks all_blocks s
   }"

definition read_table :: "u32 \<Rightarrow> u32 list \<Rightarrow> 'a fs_state_scheme \<Rightarrow> (u32 list \<times> 'a fs_state_scheme) option" where
  "read_table table all_blocks s = do {
     (xs, s) \<leftarrow> ide_read (my_disk (parts s (cur_part s))) table 1 s;
     Some (take 12 all_blocks @ words32 128 xs, s)
   }"

definition write_blocks ::
    "addr \<Rightarrow> nat \<Rightarrow> nat \<Rightarrow> u32 list \<Rightarrow> 'a fs_state_scheme \<Rightarrow> (u32 list option \<times> 'a fs_state_scheme) option" where
  "write_blocks ino has will all_blocks s = do {
     let i = inodes s ino;
     if has = will then
       if has \<le> 12 then Some (Some (all_blocks[has - 1 := i_sectors i ! (has - 1)]), s)
       else do {
         _ \<leftarrow> ASSERT (i_sectors i ! 12 \<noteq> 0);
         (all_blocks, s) \<leftarrow> read_table (i_sectors i ! 12) all_blocks s;
         Some (Some all_blocks, s)
       }
     else if will \<le> 12 then do {
       _ \<leftarrow> ASSERT (i_sectors i ! (has - 1) \<noteq> 0);
       alloc_blocks ''file_write: block_bitmap_alloc for situation 1 failed\<newline>'' ino [has..<will]
         (all_blocks[has - 1 := i_sectors i ! (has - 1)]) s
     }
     else if has \<le> 12 then do {
       let all_blocks = all_blocks[has - 1 := i_sectors i ! (has - 1)];
       (block_lba, s) \<leftarrow> block_bitmap_alloc (cur_part s) s;
       if block_lba = - 1 then do {
         s \<leftarrow> printk ''file_write: block_bitmap_alloc for situation 2 failed\<newline>'' [] s;
         Some (None, s)
       } else do {
         _ \<leftarrow> ASSERT (i_sectors i ! 12 = 0);
         let s = set_sector ino 12 block_lba s;
         (r, s) \<leftarrow> alloc_blocks ''file_write: block_bitmap_alloc for situation 2 failed\<newline>'' ino [has..<will] all_blocks s;
         case r of None \<Rightarrow> Some (None, s)
         | Some all_blocks \<Rightarrow> do { s \<leftarrow> write_table ino all_blocks s; Some (Some all_blocks, s) }
       }
     }
     else do {
       _ \<leftarrow> ASSERT (i_sectors i ! 12 \<noteq> 0);
       (all_blocks, s) \<leftarrow> read_table (i_sectors i ! 12) all_blocks s;
       (r, s) \<leftarrow> alloc_blocks ''file_write: block_bitmap_alloc for situation 3 failed\<newline>'' ino [has..<will] all_blocks s;
       case r of None \<Rightarrow> Some (None, s)
       | Some all_blocks \<Rightarrow> do { s \<leftarrow> write_table ino all_blocks s; Some (Some all_blocks, s) }
     }
   }"

text \<open>One turn of the loop that writes, and the loop; \<open>src\<close> is what is left to write.\<close>

definition chunk :: "u32 \<Rightarrow> nat \<Rightarrow> nat" where
  "chunk pos left = (let sec_left_bytes = unat (BLOCK_SIZE - pos mod BLOCK_SIZE) in if left < sec_left_bytes then left else sec_left_bytes)"

definition write_chunk_at ::
    "nat \<Rightarrow> u32 list \<Rightarrow> bool \<Rightarrow> u8 list \<Rightarrow> 'a fs_state_scheme \<Rightarrow> (u8 list \<times> 'a fs_state_scheme) option" where
  "write_chunk_at fd all_blocks first src s = do {
     let ino = fd_inode (file_table s ! fd);
     let sz = i_size (inodes s ino);
     lba \<leftarrow> get_at all_blocks (unat (sz div BLOCK_SIZE));
     let n = chunk sz (length src);
     (io_buf, s) \<leftarrow> (if first then ide_read (my_disk (parts s (cur_part s))) lba 1 s else Some (replicate 512 0, s));
     s \<leftarrow> ide_write (my_disk (parts s (cur_part s))) lba (patch (unat (sz mod BLOCK_SIZE)) (take n src) io_buf) 1 s;
     s \<leftarrow> printk ''file write at lba 0x%x\<newline>'' [AInt lba] s;
     let s = upd_inode ino (\<lambda>i. i\<lparr>i_size := i_size i + of_nat n\<rparr>) s;
     s \<leftarrow> upd_file fd (\<lambda>x. x\<lparr>fd_pos := fd_pos x + of_nat n\<rparr>) s;
     Some (drop n src, s)
   }"

partial_function (option) write_data :: "nat \<Rightarrow> u32 list \<Rightarrow> bool \<Rightarrow> u8 list \<Rightarrow> 'a fs_state_scheme \<Rightarrow> 'a fs_state_scheme option" where
  "write_data fd all_blocks first src s =
     (if src = [] then Some s
      else do {
        (src, s) \<leftarrow> write_chunk_at fd all_blocks first src s;
        write_data fd all_blocks False src s
      })"

definition file_write :: "nat \<Rightarrow> u8 list \<Rightarrow> u32 \<Rightarrow> 'a fs_state_scheme \<Rightarrow> (u32 \<times> 'a fs_state_scheme) option" where
  "file_write fd src count s = do {
     x \<leftarrow> get_at (file_table s) fd;
     let ino = fd_inode x;
     i \<leftarrow> rd_inode ino s;
     if i_size i + count > BLOCK_SIZE * 140 then do {
       s \<leftarrow> printk ''exceed max file_size 71680 bytes, write file failed\<newline>'' [] s;
       Some (- 1, s)
     } else do {
       (io_buf, s) \<leftarrow> sys_malloc BLOCK_SIZE s;
       if io_buf = NULL then do {
         s \<leftarrow> printk ''file_write: sys_malloc for io_buf failed\<newline>'' [] s;
         Some (- 1, s)
       } else do {
         (all_blocks, s) \<leftarrow> sys_malloc (BLOCK_SIZE + 48) s;
         if all_blocks = NULL then do {
           s \<leftarrow> printk ''file_write: sys_malloc for all_blocks failed\<newline>'' [] s;
           Some (- 1, s)
         } else do {
           (ok, s) \<leftarrow> (if i_sectors (inodes s ino) ! 0 = 0 then do {
               (block_lba, s) \<leftarrow> block_bitmap_alloc (cur_part s) s;
               if block_lba = - 1 then do {
                 s \<leftarrow> printk ''file_write: block_bitmap_alloc failed\<newline>'' [] s;
                 Some (False, s)
               } else do {
                 let s = set_sector ino 0 block_lba s;
                 (_, sp) \<leftarrow> rd_part (cur_part s) s;
                 let block_bitmap_idx = block_lba - data_start_lba sp;
                 _ \<leftarrow> ASSERT (block_bitmap_idx \<noteq> 0);
                 s \<leftarrow> bitmap_sync (cur_part s) block_bitmap_idx BLOCK_BITMAP s;
                 Some (True, s)
               }
             } else Some (True, s));
           if \<not> ok then Some (- 1, s)
           else do {
             let sz = i_size (inodes s ino);
             let has = unat (sz div BLOCK_SIZE + 1);
             let will = unat ((sz + count) div BLOCK_SIZE + 1);
             _ \<leftarrow> ASSERT (will \<le> 140);
             (r, s) \<leftarrow> write_blocks ino has will (replicate 140 0) s;
             case r of
               None \<Rightarrow> Some (- 1, s)
             | Some blocks \<Rightarrow> do {
                 s \<leftarrow> upd_file fd (\<lambda>x. x\<lparr>fd_pos := i_size (inodes s ino) - 1\<rparr>) s;
                 _ \<leftarrow> ASSERT (unat count \<le> length src);
                 s \<leftarrow> write_data fd blocks True (take (unat count) src) s;
                 s \<leftarrow> inode_sync (cur_part s) (inodes s ino) s;
                 s \<leftarrow> sys_free all_blocks s;
                 s \<leftarrow> sys_free io_buf s;
                 Some (count, s)
               }
           }
         }
       }
     }
   }"

subsection \<open>Reading\<close>

text \<open>The sector addresses for the blocks \<open>first\<close> to \<open>last\<close>.\<close>

definition copy_direct :: "nat \<Rightarrow> nat \<Rightarrow> inode \<Rightarrow> u32 list \<Rightarrow> u32 list" where
  "copy_direct a b i all_blocks = patch a (take (b - a) (drop a (i_sectors i))) all_blocks"

definition read_file_blocks ::
    "addr \<Rightarrow> nat \<Rightarrow> nat \<Rightarrow> u32 list \<Rightarrow> 'a fs_state_scheme \<Rightarrow> (u32 list \<times> 'a fs_state_scheme) option" where
  "read_file_blocks ino start end all_blocks s = do {
     let i = inodes s ino;
     if end < 12 then Some (copy_direct start (end + 1) i all_blocks, s)
     else if start < 12 then do {
       let all_blocks = copy_direct start 12 i all_blocks;
       _ \<leftarrow> ASSERT (i_sectors i ! 12 \<noteq> 0);
       read_table (i_sectors i ! 12) all_blocks s
     }
     else do {
       _ \<leftarrow> ASSERT (start = end \<or> i_sectors i ! 12 \<noteq> 0);
       read_table (i_sectors i ! 12) all_blocks s
     }
   }"

partial_function (option) read_data ::
    "nat \<Rightarrow> u32 list \<Rightarrow> nat \<Rightarrow> u8 list \<Rightarrow> 'a fs_state_scheme \<Rightarrow> (u8 list \<times> 'a fs_state_scheme) option" where
  "read_data fd all_blocks left acc s =
     (if left = 0 then Some (acc, s)
      else do {
        let pos = fd_pos (file_table s ! fd);
        lba \<leftarrow> get_at all_blocks (unat (pos div BLOCK_SIZE));
        let n = chunk pos left;
        (io_buf, s) \<leftarrow> ide_read (my_disk (parts s (cur_part s))) lba 1 s;
        s \<leftarrow> upd_file fd (\<lambda>x. x\<lparr>fd_pos := fd_pos x + of_nat n\<rparr>) s;
        read_data fd all_blocks (left - n) (acc @ take n (drop (unat (pos mod BLOCK_SIZE)) io_buf)) s
      })"

text \<open>The result is the return value with the bytes stored in the caller's buffer.\<close>

definition file_read :: "nat \<Rightarrow> u32 \<Rightarrow> 'a fs_state_scheme \<Rightarrow> (u32 \<times> u8 list \<times> 'a fs_state_scheme) option" where
  "file_read fd count s = do {
     x \<leftarrow> get_at (file_table s) fd;
     i \<leftarrow> rd_inode (fd_inode x) s;
     let sz = (if fd_pos x + count > i_size i then i_size i - fd_pos x else count);
     if fd_pos x + count > i_size i \<and> sz = 0 then Some (- 1, [], s)
     else do {
       (io_buf, s) \<leftarrow> sys_malloc BLOCK_SIZE s;
       s \<leftarrow> (if io_buf = NULL then printk ''file_read: sys_malloc for io_buf failed\<newline>'' [] s else Some s);
       (all_blocks, s) \<leftarrow> sys_malloc (BLOCK_SIZE + 48) s;
       if all_blocks = NULL then do {
         s \<leftarrow> printk ''file_read: sys_malloc for all_blocks failed\<newline>'' [] s;
         Some (- 1, [], s)
       } else do {
         let start = fd_pos x div BLOCK_SIZE;
         let end = (fd_pos x + sz) div BLOCK_SIZE;
         _ \<leftarrow> ASSERT (start < 139 \<and> end < 139);
         (blocks, s) \<leftarrow> read_file_blocks (fd_inode x) (unat start) (unat end) (replicate 140 0) s;
         (bf, s) \<leftarrow> read_data fd blocks (unat sz) [] s;
         s \<leftarrow> sys_free all_blocks s;
         s \<leftarrow> sys_free io_buf s;
         Some (sz, bf, s)
       }
     }
   }"

end
