(* ===== verification/Pipe.thy ===== *)
theory Pipe
  imports File
begin

text \<open>
  Pipes, \<^verbatim>\<open>shell/pipe.c\<close>, and the translation of file descriptors from \<^verbatim>\<open>fs/fs.c\<close>. A pipe is an I/O queue on a page of the
  kernel, entered in \<open>file_table\<close>: \<open>fd_inode\<close> is the address of the queue, \<open>fd_pos\<close> counts the open ends. Reading or writing a byte may
  put the caller to sleep.
\<close>

unbundle bit_operations_syntax

definition PIPE_FLAG :: u32 where "PIPE_FLAG = 0xFFFF"

definition fd_local2global :: "u32 \<Rightarrow> 'a fs_state_scheme \<Rightarrow> u32 option" where
  "fd_local2global local_fd s = do {
     t \<leftarrow> rd_task (running_thread s) s;
     global_fd \<leftarrow> get_at (fd_table t) (unat local_fd);
     _ \<leftarrow> ASSERT (0 \<le>s global_fd \<and> global_fd <s of_nat MAX_FILE_OPEN);
     Some global_fd
   }"

definition is_pipe :: "u32 \<Rightarrow> 'a fs_state_scheme \<Rightarrow> bool option" where
  "is_pipe local_fd s = do {
     global_fd \<leftarrow> fd_local2global local_fd s;
     x \<leftarrow> get_at (file_table s) (unat global_fd);
     Some (fd_flag x = PIPE_FLAG)
   }"

text \<open>The result of \<open>get_free_slot_in_global\<close> is used as an index without a check, and the queue is initialised before its address is
  checked.\<close>

definition sys_pipe :: "'a fs_state_scheme \<Rightarrow> (u32 \<times> u32 list \<times> 'a fs_state_scheme) option" where
  "sys_pipe s = do {
     (global_fd, s) \<leftarrow> get_free_slot_in_global s;
     (p, s) \<leftarrow> get_kernel_pages 1 s;
     s \<leftarrow> upd_file (unat global_fd) (\<lambda>x. x\<lparr>fd_inode := p\<rparr>) s;
     s \<leftarrow> ioqueue_init p s;
     if p = NULL then Some (- 1, [], s)
     else do {
       s \<leftarrow> upd_file (unat global_fd) (\<lambda>x. x\<lparr>fd_flag := PIPE_FLAG, fd_pos := 2\<rparr>) s;
       (a, s) \<leftarrow> pcb_fd_install global_fd s;
       (b, s) \<leftarrow> pcb_fd_install global_fd s;
       Some (0, [a, b], s)
     }
   }"

text \<open>The loops over the bytes. Each byte may put the caller to sleep: then the result is \<open>Waits\<close>, with the bytes read so far, or with the
  bytes that are still to be written, the one that waits first. A woken caller goes on in \<open>\<dots>_resume\<close>.\<close>

primrec get_bytes :: "nat \<Rightarrow> addr \<Rightarrow> 'a ioq_state_scheme \<Rightarrow> (unit blocking \<times> u8 list \<times> 'a ioq_state_scheme) option" where
  "get_bytes 0 ioq s = Some (Returns (), [], s)"
| "get_bytes (Suc n) ioq s = do {
     (w, s) \<leftarrow> ioq_getchar ioq s;
     case w of
       Waits i \<Rightarrow> Some (Waits i, [], s)
     | Returns b \<Rightarrow> do { (w, bs, s) \<leftarrow> get_bytes n ioq s; Some (w, b # bs, s) }
   }"

definition get_bytes_resume ::
    "intr_status \<Rightarrow> nat \<Rightarrow> addr \<Rightarrow> 'a ioq_state_scheme \<Rightarrow> (unit blocking \<times> u8 list \<times> 'a ioq_state_scheme) option" where
  "get_bytes_resume i n ioq s = do {
     (w, s) \<leftarrow> ioq_getchar_resume ioq i s;
     case w of
       Waits i \<Rightarrow> Some (Waits i, [], s)
     | Returns b \<Rightarrow> do { (w, bs, s) \<leftarrow> get_bytes (n - 1) ioq s; Some (w, b # bs, s) }
   }"

primrec put_bytes_ioq :: "u8 list \<Rightarrow> addr \<Rightarrow> 'a ioq_state_scheme \<Rightarrow> (unit blocking \<times> u8 list \<times> 'a ioq_state_scheme) option" where
  "put_bytes_ioq [] ioq s = Some (Returns (), [], s)"
| "put_bytes_ioq (b # bs) ioq s = do {
     (w, s) \<leftarrow> ioq_putchar ioq b s;
     case w of Waits i \<Rightarrow> Some (Waits i, b # bs, s) | Returns _ \<Rightarrow> put_bytes_ioq bs ioq s
   }"

definition put_bytes_resume ::
    "intr_status \<Rightarrow> u8 \<Rightarrow> u8 list \<Rightarrow> addr \<Rightarrow> 'a ioq_state_scheme \<Rightarrow> (unit blocking \<times> u8 list \<times> 'a ioq_state_scheme) option" where
  "put_bytes_resume i b bs ioq s = do {
     (w, s) \<leftarrow> ioq_putchar_resume ioq b i s;
     case w of Waits i \<Rightarrow> Some (Waits i, b # bs, s) | Returns _ \<Rightarrow> put_bytes_ioq bs ioq s
   }"

definition pipe_read :: "u32 \<Rightarrow> u32 \<Rightarrow> 'a fs_state_scheme \<Rightarrow> (u32 blocking \<times> u8 list \<times> 'a fs_state_scheme) option" where
  "pipe_read fd count s = do {
     global_fd \<leftarrow> fd_local2global fd s;
     x \<leftarrow> get_at (file_table s) (unat global_fd);
     let ioq = fd_inode x;
     let ioq_len = ioq_length ioq s;
     let n = (if ioq_len > unat count then unat count else ioq_len);
     (w, bs, s) \<leftarrow> get_bytes n ioq s;
     Some (map_blocking (\<lambda>_. of_nat n) w, bs, s)
   }"

definition pipe_write :: "u32 \<Rightarrow> u8 list \<Rightarrow> u32 \<Rightarrow> 'a fs_state_scheme \<Rightarrow> (u32 blocking \<times> u8 list \<times> 'a fs_state_scheme) option" where
  "pipe_write fd bs count s = do {
     global_fd \<leftarrow> fd_local2global fd s;
     x \<leftarrow> get_at (file_table s) (unat global_fd);
     let ioq = fd_inode x;
     let ioq_left = bufsize - ioq_length ioq s;
     let n = (if ioq_left > unat count then unat count else ioq_left);
     _ \<leftarrow> ASSERT (n \<le> length bs);
     (w, rest, s) \<leftarrow> put_bytes_ioq (take n bs) ioq s;
     Some (map_blocking (\<lambda>_. of_nat n) w, rest, s)
   }"

text \<open>A call whose caller is followed only if it does not sleep.\<close>

definition awake :: "('r blocking \<times> 'q \<times> 's) option \<Rightarrow> ('r \<times> 'q \<times> 's) option" where
  "awake m = do {
     (w, q, s) \<leftarrow> m;
     case w of Returns r \<Rightarrow> Some (r, q, s) | Waits _ \<Rightarrow> None
   }"

text \<open>Neither \<open>fd_local2global\<close> nor \<open>sys_fd_redirect\<close> checks that a descriptor is below \<open>MAX_FILES_OPEN_PER_PROC\<close>: the C code then reads or
  writes the fields behind \<open>fd_table\<close>. Here such an access outside of the array is \<open>None\<close>.\<close>

definition sys_fd_redirect :: "u32 \<Rightarrow> u32 \<Rightarrow> 'a fs_state_scheme \<Rightarrow> 'a fs_state_scheme option" where
  "sys_fd_redirect old_local_fd new_local_fd s = do {
     let cur = running_thread s;
     t \<leftarrow> rd_task cur s;
     g \<leftarrow> (if new_local_fd < 3 then Some new_local_fd else get_at (fd_table t) (unat new_local_fd));
     fds \<leftarrow> set_at (fd_table t) (unat old_local_fd) g;
     wr_task cur (\<lambda>t. t\<lparr>fd_table := fds\<rparr>) s
   }"

end
