(* ===== verification/Filesys.thy ===== *)
theory Filesys
  imports Pipe
begin

text \<open>
  The system calls on files and directories, \<^verbatim>\<open>fs/fs.c\<close>. Path names are strings without their terminator. \<open>searched_path\<close> is the
  512-byte array in which \<open>search_file\<close> records how far it came; local variables that the code leaves uninitialised are arguments:
  \<open>garbage\<close> has the 16 bytes of the name in \<open>path_depth_cnt\<close>, \<open>dir_e\<close> the directory entry of \<open>search_file\<close>. The calls return
  the value of the C function; buffers they fill are results too.
\<close>

unbundle bit_operations_syntax

record path_search_record =
  searched_path :: "u8 list"
  parent_dir :: addr
  file_type :: u32

definition zero_record :: path_search_record where
  "zero_record = \<lparr>searched_path = replicate MAX_PATH_LEN 0, parent_dir = NULL, file_type = 0\<rparr>"

definition root_names :: "u8 list set" where
  "root_names = {lit ''/'', lit ''/.'', lit ''/..''}"

partial_function (option) search_loop ::
    "u8 list option \<Rightarrow> u8 list \<Rightarrow> dir_entry \<Rightarrow> addr \<Rightarrow> u32 \<Rightarrow> path_search_record \<Rightarrow> 'a fs_state_scheme \<Rightarrow>
     (u32 \<times> path_search_record \<times> 'a fs_state_scheme) option" where
  "search_loop sub_path nm dir_e pdir parent_inode_no r s = do {
     c \<leftarrow> get_at nm 0;
     if c \<noteq> 0 then do {
       done \<leftarrow> str_of (searched_path r);
       _ \<leftarrow> ASSERT (length done < 512);
       path \<leftarrow> arr_strcat (searched_path r) [slash];
       n \<leftarrow> str_of nm;
       path \<leftarrow> arr_strcat path n;
       let r = r\<lparr>searched_path := path\<rparr>;
       (found, s) \<leftarrow> search_dir_entry (cur_part s) pdir n s;
       case found of
         None \<Rightarrow> Some (- 1, r, s)
       | Some dir_e \<Rightarrow> do {
           (sub_path, nm) \<leftarrow> next_name sub_path;
           if f_type dir_e = FT_DIRECTORY then do {
             let parent_inode_no = i_no (inodes s (dir_inode (dirs s pdir)));
             s \<leftarrow> dir_close pdir s;
             (d, s) \<leftarrow> dir_open (cur_part s) (de_i_no dir_e) s;
             search_loop sub_path nm dir_e d parent_inode_no (r\<lparr>parent_dir := d\<rparr>) s
           } else if f_type dir_e = FT_REGULAR then Some (de_i_no dir_e, r\<lparr>file_type := FT_REGULAR\<rparr>, s)
           else search_loop sub_path nm dir_e pdir parent_inode_no r s
         }
     } else do {
       s \<leftarrow> dir_close (parent_dir r) s;
       (d, s) \<leftarrow> dir_open (cur_part s) parent_inode_no s;
       Some (de_i_no dir_e, r\<lparr>parent_dir := d, file_type := FT_DIRECTORY\<rparr>, s)
     }
   }"

definition search_file ::
    "dir_entry \<Rightarrow> u8 list \<Rightarrow> path_search_record \<Rightarrow> 'a fs_state_scheme \<Rightarrow> (u32 \<times> path_search_record \<times> 'a fs_state_scheme) option" where
  "search_file dir_e pathname r s =
     (if pathname \<in> root_names then do {
        path \<leftarrow> set_at (searched_path r) 0 0;
        Some (0, \<lparr>searched_path = path, parent_dir = root_dir s, file_type = FT_DIRECTORY\<rparr>, s)
      } else do {
        c \<leftarrow> get_at pathname 0;
        _ \<leftarrow> ASSERT (c = slash \<and> length pathname > 1 \<and> length pathname < MAX_PATH_LEN);
        let r = r\<lparr>parent_dir := root_dir s, file_type := FT_UNKNOWN\<rparr>;
        (sub_path, nm) \<leftarrow> path_parse pathname (replicate MAX_FILE_NAME_LEN 0);
        search_loop sub_path nm dir_e (root_dir s) 0 r s
      })"

text \<open>\<open>strrchr(path, '/') + 1\<close>.\<close>

definition after_slash :: "u8 list \<Rightarrow> u8 list option" where
  "after_slash path = do { i \<leftarrow> last_index path slash; Some (drop (i + 1) path) }"

definition sys_open ::
    "dir_entry \<Rightarrow> u8 list \<Rightarrow> u8 list \<Rightarrow> u8 \<Rightarrow> 'a fs_state_scheme \<Rightarrow> (u32 \<times> 'a fs_state_scheme) option" where
  "sys_open dir_e garbage pathname flags s = do {
     _ \<leftarrow> ASSERT (pathname \<noteq> []);
     if last pathname = slash then do {
       s \<leftarrow> printk ''can`t open a directory %s\<newline>'' [AStr pathname] s;
       Some (- 1, s)
     } else do {
       _ \<leftarrow> ASSERT (flags \<le> 7);
       pathname_depth \<leftarrow> path_depth_cnt garbage pathname;
       (inode_no, r, s) \<leftarrow> search_file dir_e pathname zero_record s;
       let found = (inode_no \<noteq> - 1);
       if file_type r = FT_DIRECTORY then do {
         s \<leftarrow> printk ''can`t open a directory with open(), use opendir() to instead\<newline>'' [] s;
         s \<leftarrow> dir_close (parent_dir r) s;
         Some (- 1, s)
       } else do {
         searched \<leftarrow> str_of (searched_path r);
         path_searched_depth \<leftarrow> path_depth_cnt garbage searched;
         if pathname_depth \<noteq> path_searched_depth then do {
           s \<leftarrow> printk ''cannot access %s: Not a directory, subpath %s is`t exist\<newline>'' [AStr pathname, AStr searched] s;
           s \<leftarrow> dir_close (parent_dir r) s;
           Some (- 1, s)
         } else if \<not> found \<and> flags AND O_CREAT = 0 then do {
           nm \<leftarrow> after_slash searched;
           s \<leftarrow> printk ''in path %s, file %s is`t exist\<newline>'' [AStr searched, AStr nm] s;
           s \<leftarrow> dir_close (parent_dir r) s;
           Some (- 1, s)
         } else if found \<and> flags AND O_CREAT \<noteq> 0 then do {
           s \<leftarrow> printk ''%s has already exist!\<newline>'' [AStr pathname] s;
           s \<leftarrow> dir_close (parent_dir r) s;
           Some (- 1, s)
         } else if flags AND O_CREAT = O_CREAT then do {
           s \<leftarrow> printk ''creating file\<newline>'' [] s;
           nm \<leftarrow> after_slash pathname;
           (fd, s) \<leftarrow> file_create (parent_dir r) nm flags s;
           s \<leftarrow> dir_close (parent_dir r) s;
           Some (fd, s)
         } else file_open inode_no flags s
       }
     }
   }"

text \<open>Giving up one end of a pipe.\<close>

definition close_pipe_end :: "nat \<Rightarrow> 'a fs_state_scheme \<Rightarrow> 'a fs_state_scheme option" where
  "close_pipe_end g s = do {
     s \<leftarrow> upd_file g (\<lambda>x. x\<lparr>fd_pos := fd_pos x - 1\<rparr>) s;
     x \<leftarrow> get_at (file_table s) g;
     if fd_pos x = 0 then do {
       s \<leftarrow> mfree_page PF_KERNEL (fd_inode x) 1 s;
       upd_file g (\<lambda>x. x\<lparr>fd_inode := NULL\<rparr>) s
     } else Some s
   }"

definition sys_close :: "u32 \<Rightarrow> 'a fs_state_scheme \<Rightarrow> (u32 \<times> 'a fs_state_scheme) option" where
  "sys_close fd s =
     (if 2 <s fd then do {
        global_fd \<leftarrow> fd_local2global fd s;
        pipe \<leftarrow> is_pipe fd s;
        (ret, s) \<leftarrow> (if pipe then do { s \<leftarrow> close_pipe_end (unat global_fd) s; Some (0, s) }
                    else file_close (Some (unat global_fd)) s);
        s \<leftarrow> wr_task (running_thread s) (\<lambda>t. t\<lparr>fd_table := (fd_table t)[unat fd := - 1]\<rparr>) s;
        Some (ret, s)
      } else Some (- 1, s))"

text \<open>\<open>sys_write_turn\<close> and \<open>sys_read_turn\<close> follow the calls to their end or to the first sleep at a pipe or the keyboard; \<open>sys_write\<close> and
  \<open>sys_read\<close> are the calls that do not sleep. The bytes that a call stores in the caller's buffer are part of its result.\<close>

definition sys_write_turn ::
    "u32 \<Rightarrow> u8 list \<Rightarrow> u32 \<Rightarrow> 'a fs_state_scheme \<Rightarrow> (u32 blocking \<times> u8 list \<times> 'a fs_state_scheme) option" where
  "sys_write_turn fd bs count s =
     (if fd <s 0 then do {
        s \<leftarrow> printk ''sys_write: fd error\<newline>'' [] s;
        Some (Returns (- 1), [], s)
      } else do {
        pipe \<leftarrow> is_pipe fd s;
        if pipe then pipe_write fd bs count s
        else if fd = 1 then do {
          _ \<leftarrow> ASSERT (unat count \<le> length bs \<and> unat count \<le> 1024);
          t \<leftarrow> str_of (take (unat count) bs @ replicate (1024 - unat count) 0);
          s \<leftarrow> console_put_str (console_lock s) t s;
          Some (Returns count, [], s)
        } else do {
          g \<leftarrow> fd_local2global fd s;
          wr_file \<leftarrow> get_at (file_table s) (unat g);
          if fd_flag wr_file AND ucast O_WRONLY \<noteq> 0 \<or> fd_flag wr_file AND ucast O_RDWR \<noteq> 0 then do {
            (r, s) \<leftarrow> file_write (unat g) bs count s;
            Some (Returns r, [], s)
          } else do {
            s \<leftarrow> console_put_str (console_lock s)
              (lit ''sys_write: not allowed to write file without flag O_RDWR or O_WRONLY\<newline>'') s;
            Some (Returns (- 1), [], s)
          }
        }
      })"

definition sys_write :: "u32 \<Rightarrow> u8 list \<Rightarrow> u32 \<Rightarrow> 'a fs_state_scheme \<Rightarrow> (u32 \<times> 'a fs_state_scheme) option" where
  "sys_write fd bs count s = do {
     (r, _, s) \<leftarrow> awake (sys_write_turn fd bs count s);
     Some (r, s)
   }"

definition sys_read_turn :: "u32 \<Rightarrow> u32 \<Rightarrow> 'a fs_state_scheme \<Rightarrow> (u32 blocking \<times> u8 list \<times> 'a fs_state_scheme) option" where
  "sys_read_turn fd count s =
     (if fd <s 0 \<or> fd = 1 \<or> fd = 2 then do {
        s \<leftarrow> printk ''sys_read: fd error\<newline>'' [] s;
        Some (Returns (- 1), [], s)
      } else do {
        pipe \<leftarrow> is_pipe fd s;
        if pipe then pipe_read fd count s
        else if fd = 0 then do {
          (w, bs, s) \<leftarrow> get_bytes (unat count) (kbd_buf s) s;
          Some (map_blocking (\<lambda>_. if count = 0 then - 1 else count) w, bs, s)
        } else do {
          g \<leftarrow> fd_local2global fd s;
          (r, bs, s) \<leftarrow> file_read (unat g) count s;
          Some (Returns r, bs, s)
        }
      })"

definition sys_read :: "u32 \<Rightarrow> u32 \<Rightarrow> 'a fs_state_scheme \<Rightarrow> (u32 \<times> u8 list \<times> 'a fs_state_scheme) option" where
  "sys_read fd count s = awake (sys_read_turn fd count s)"

definition SEEK_SET :: u8 where "SEEK_SET = 1"
definition SEEK_CUR :: u8 where "SEEK_CUR = 2"
definition SEEK_END :: u8 where "SEEK_END = 3"

definition sys_lseek :: "u32 \<Rightarrow> u32 \<Rightarrow> u8 \<Rightarrow> 'a fs_state_scheme \<Rightarrow> (u32 \<times> 'a fs_state_scheme) option" where
  "sys_lseek fd offset whence s =
     (if fd <s 0 then do {
        s \<leftarrow> printk ''sys_lseek: fd error\<newline>'' [] s;
        Some (- 1, s)
      } else do {
        _ \<leftarrow> ASSERT (whence > 0 \<and> whence < 4);
        g \<leftarrow> fd_local2global fd s;
        pf \<leftarrow> get_at (file_table s) (unat g);
        i \<leftarrow> rd_inode (fd_inode pf) s;
        let file_size = i_size i;
        let new_pos = (if whence = SEEK_SET then offset else if whence = SEEK_CUR then fd_pos pf + offset else file_size + offset);
        if new_pos <s 0 \<or> file_size - 1 <s new_pos then Some (- 1, s)
        else do {
          s \<leftarrow> upd_file (unat g) (\<lambda>x. x\<lparr>fd_pos := new_pos\<rparr>) s;
          Some (new_pos, s)
        }
      })"

definition sys_unlink :: "dir_entry \<Rightarrow> u8 list \<Rightarrow> 'a fs_state_scheme \<Rightarrow> (u32 \<times> 'a fs_state_scheme) option" where
  "sys_unlink dir_e pathname s = do {
     _ \<leftarrow> ASSERT (length pathname < MAX_PATH_LEN);
     (inode_no, r, s) \<leftarrow> search_file dir_e pathname zero_record s;
     _ \<leftarrow> ASSERT (inode_no \<noteq> 0);
     if inode_no = - 1 then do {
       s \<leftarrow> printk ''file %s not found!\<newline>'' [AStr pathname] s;
       s \<leftarrow> dir_close (parent_dir r) s;
       Some (- 1, s)
     } else if file_type r = FT_DIRECTORY then do {
       s \<leftarrow> printk ''can`t delete a directory with unlink(), use rmdir() to instead\<newline>'' [] s;
       s \<leftarrow> dir_close (parent_dir r) s;
       Some (- 1, s)
     } else if \<exists>x \<in> set (take MAX_FILE_OPEN (file_table s)). fd_inode x \<noteq> NULL \<and> i_no (inodes s (fd_inode x)) = inode_no then do {
       s \<leftarrow> dir_close (parent_dir r) s;
       s \<leftarrow> printk ''file %s is in use, not allow to delete!\<newline>'' [AStr pathname] s;
       Some (- 1, s)
     } else do {
       (io_buf, s) \<leftarrow> sys_malloc (SECTOR_SIZE + SECTOR_SIZE) s;
       if io_buf = NULL then do {
         s \<leftarrow> dir_close (parent_dir r) s;
         s \<leftarrow> printk ''sys_unlink: malloc for io_buf failed\<newline>'' [] s;
         Some (- 1, s)
       } else do {
         (_, s) \<leftarrow> delete_dir_entry (cur_part s) (parent_dir r) inode_no s;
         s \<leftarrow> inode_release (cur_part s) inode_no s;
         s \<leftarrow> sys_free io_buf s;
         s \<leftarrow> dir_close (parent_dir r) s;
         Some (0, s)
       }
     }
   }"

text \<open>The first sector of a directory, with the entries for itself and for its parent.\<close>

definition dots_sector :: "u32 \<Rightarrow> u32 \<Rightarrow> u8 list \<Rightarrow> u8 list" where
  "dots_sector self parent bf =
     patch 24 (entry_bytes \<lparr>filename = patch 0 dotdot_name (replicate 16 0), de_i_no = parent, f_type = FT_DIRECTORY\<rparr>)
       (patch 0 (entry_bytes \<lparr>filename = patch 0 dot_name (replicate 16 0), de_i_no = self, f_type = FT_DIRECTORY\<rparr>) bf)"

definition mkdir_rollback :: "nat \<Rightarrow> int \<Rightarrow> addr \<Rightarrow> addr \<Rightarrow> 'a fs_state_scheme \<Rightarrow> (u32 \<times> 'a fs_state_scheme) option" where
  "mkdir_rollback rollback_step inode_no pdir io_buf s = do {
     s \<leftarrow> (if rollback_step = 2 then do {
         b \<leftarrow> bitmap_set (inode_bitmap (parts s (cur_part s))) (nat inode_no) 0;
         Some (upd_part (cur_part s) (\<lambda>p. p\<lparr>inode_bitmap := b\<rparr>) s)
       } else Some s);
     s \<leftarrow> dir_close pdir s;
     s \<leftarrow> sys_free io_buf s;
     Some (- 1, s)
   }"

text \<open>\<open>sys_mkdir\<close> from the allocation of the inode on.\<close>

definition make_dir :: "u8 list \<Rightarrow> addr \<Rightarrow> addr \<Rightarrow> 'a fs_state_scheme \<Rightarrow> (u32 \<times> 'a fs_state_scheme) option" where
  "make_dir dirname pdir io_buf s = do {
     (inode_no, s) \<leftarrow> inode_bitmap_alloc (cur_part s) s;
     if inode_no = -1 then do {
       s \<leftarrow> printk ''sys_mkdir: allocate inode failed\<newline>'' [] s;
       mkdir_rollback 1 inode_no pdir io_buf s
     } else do {
       (block_lba, s) \<leftarrow> block_bitmap_alloc (cur_part s) s;
       if block_lba = - 1 then do {
         s \<leftarrow> printk ''sys_mkdir: block_bitmap_alloc for create directory failed\<newline>'' [] s;
         mkdir_rollback 2 inode_no pdir io_buf s
       } else do {
         let new_dir_inode = (inode_init (of_int inode_no))\<lparr>i_sectors := (replicate 13 0)[0 := block_lba]\<rparr>;
         (_, sp) \<leftarrow> rd_dir_part (cur_part s) s;
         let block_bitmap_idx = block_lba - data_start_lba sp;
         _ \<leftarrow> ASSERT (block_bitmap_idx \<noteq> 0);
         s \<leftarrow> bitmap_sync (cur_part s) block_bitmap_idx BLOCK_BITMAP s;
         let sector = dots_sector (of_int inode_no) (i_no (inodes s (dir_inode (dirs s pdir)))) (replicate 512 0);
         s \<leftarrow> ide_write (my_disk (parts s (cur_part s))) block_lba sector 1 s;
         let new_dir_inode = new_dir_inode\<lparr>i_size := 2 * dir_entry_size sp\<rparr>;
         new_dir_entry \<leftarrow> create_dir_entry dirname (of_int inode_no) FT_DIRECTORY zero_entry;
         (ok, s) \<leftarrow> sync_dir_entry pdir new_dir_entry s;
         if \<not> ok then do {
           s \<leftarrow> printk ''sys_mkdir: sync_dir_entry to disk failed\<newline>'' [] s;
           mkdir_rollback 2 inode_no pdir io_buf s
         } else do {
           s \<leftarrow> inode_sync (cur_part s) (inodes s (dir_inode (dirs s pdir))) s;
           s \<leftarrow> inode_sync (cur_part s) new_dir_inode s;
           s \<leftarrow> bitmap_sync (cur_part s) (of_int inode_no) INODE_BITMAP s;
           s \<leftarrow> sys_free io_buf s;
           s \<leftarrow> dir_close pdir s;
           Some (0, s)
         }
       }
     }
   }"

definition sys_mkdir :: "dir_entry \<Rightarrow> u8 list \<Rightarrow> u8 list \<Rightarrow> 'a fs_state_scheme \<Rightarrow> (u32 \<times> 'a fs_state_scheme) option" where
  "sys_mkdir dir_e garbage pathname s = do {
     (io_buf, s) \<leftarrow> sys_malloc (SECTOR_SIZE * 2) s;
     if io_buf = NULL then do {
       s \<leftarrow> printk ''sys_mkdir: sys_malloc for io_buf failed\<newline>'' [] s;
       Some (- 1, s)
     } else do {
       (inode_no, r, s) \<leftarrow> search_file dir_e pathname zero_record s;
       if inode_no \<noteq> - 1 then do {
         s \<leftarrow> printk ''sys_mkdir: file or directory %s exist!\<newline>'' [AStr pathname] s;
         mkdir_rollback 1 0 (parent_dir r) io_buf s
       } else do {
         pathname_depth \<leftarrow> path_depth_cnt garbage pathname;
         searched \<leftarrow> str_of (searched_path r);
         path_searched_depth \<leftarrow> path_depth_cnt garbage searched;
         if pathname_depth \<noteq> path_searched_depth then do {
           s \<leftarrow> printk ''sys_mkdir: can`t access %s, subpath %s is not exist\<newline>'' [AStr pathname, AStr searched] s;
           mkdir_rollback 1 0 (parent_dir r) io_buf s
         } else do {
           dirname \<leftarrow> after_slash searched;
           make_dir dirname (parent_dir r) io_buf s
         }
       }
     }
   }"

definition sys_opendir :: "dir_entry \<Rightarrow> u8 list \<Rightarrow> 'a fs_state_scheme \<Rightarrow> (addr \<times> 'a fs_state_scheme) option" where
  "sys_opendir dir_e nm s = do {
     _ \<leftarrow> ASSERT (length nm < MAX_PATH_LEN);
     if nm = [slash] then Some (root_dir s, s)
     else do {
       (inode_no, r, s) \<leftarrow> search_file dir_e nm zero_record s;
       (ret, s) \<leftarrow> (if inode_no = - 1 then do {
           searched \<leftarrow> str_of (searched_path r);
           s \<leftarrow> printk ''In %s, sub path %s not exist\<newline>'' [AStr nm, AStr searched] s;
           Some (NULL, s)
         } else if file_type r = FT_REGULAR then do {
           s \<leftarrow> printk ''%s is regular file!\<newline>'' [AStr nm] s;
           Some (NULL, s)
         } else if file_type r = FT_DIRECTORY then dir_open (cur_part s) inode_no s
         else Some (NULL, s));
       s \<leftarrow> dir_close (parent_dir r) s;
       Some (ret, s)
     }
   }"

definition sys_closedir :: "addr \<Rightarrow> 'a fs_state_scheme \<Rightarrow> (u32 \<times> 'a fs_state_scheme) option" where
  "sys_closedir d s = (if d \<noteq> NULL then do { s \<leftarrow> dir_close d s; Some (0, s) } else Some (- 1, s))"

definition sys_readdir :: "addr \<Rightarrow> 'a fs_state_scheme \<Rightarrow> (addr \<times> 'a fs_state_scheme) option" where
  "sys_readdir d s = do { _ \<leftarrow> ASSERT (d \<noteq> NULL); dir_read d s }"

definition sys_rewinddir :: "addr \<Rightarrow> 'a fs_state_scheme \<Rightarrow> 'a fs_state_scheme" where
  "sys_rewinddir d s = s\<lparr>dirs := (dirs s)(d := (dirs s d)\<lparr>dir_pos := 0\<rparr>)\<rparr>"

definition sys_rmdir :: "dir_entry \<Rightarrow> u8 list \<Rightarrow> 'a fs_state_scheme \<Rightarrow> (u32 \<times> 'a fs_state_scheme) option" where
  "sys_rmdir dir_e pathname s = do {
     (inode_no, r, s) \<leftarrow> search_file dir_e pathname zero_record s;
     _ \<leftarrow> ASSERT (inode_no \<noteq> 0);
     (retval, s) \<leftarrow> (if inode_no = - 1 then do {
         searched \<leftarrow> str_of (searched_path r);
         s \<leftarrow> printk ''In %s, sub path %s not exist\<newline>'' [AStr pathname, AStr searched] s;
         Some (- 1, s)
       } else if file_type r = FT_REGULAR then do {
         s \<leftarrow> printk ''%s is regular file!\<newline>'' [AStr pathname] s;
         Some (- 1, s)
       } else do {
         (d, s) \<leftarrow> dir_open (cur_part s) inode_no s;
         empty \<leftarrow> dir_is_empty d s;
         (retval, s) \<leftarrow> (if \<not> empty then do {
             s \<leftarrow> printk ''dir %s is not empty, it is not allowed to delete a nonempty directory!\<newline>'' [AStr pathname] s;
             Some (- 1, s)
           } else do {
             (x, s) \<leftarrow> dir_remove (parent_dir r) d s;
             Some (if x = 0 then 0 else - 1, s)
           });
         s \<leftarrow> dir_close d s;
         Some (retval, s)
       });
     s \<leftarrow> dir_close (parent_dir r) s;
     Some (retval, s)
   }"

subsection \<open>The working directory and file attributes\<close>

definition get_parent_dir_inode_nr :: "u32 \<Rightarrow> 'a fs_state_scheme \<Rightarrow> (u32 \<times> 'a fs_state_scheme) option" where
  "get_parent_dir_inode_nr child_inode_nr s = do {
     (ino, s) \<leftarrow> inode_open (cur_part s) child_inode_nr s;
     let block_lba = i_sectors (inodes s ino) ! 0;
     (p, sp) \<leftarrow> rd_part (cur_part s) s;
     _ \<leftarrow> ASSERT (block_lba \<ge> data_start_lba sp);
     s \<leftarrow> inode_close ino s;
     (bf, s) \<leftarrow> ide_read (my_disk p) block_lba 1 s;
     let e = entry_at bf 1;
     _ \<leftarrow> ASSERT (de_i_no e < 4096 \<and> f_type e = FT_DIRECTORY);
     Some (de_i_no e, s)
   }"

text \<open>The search by inode number does not look at the type of an entry.\<close>

primrec entry_with_no :: "u32 \<Rightarrow> nat list \<Rightarrow> u8 list \<Rightarrow> nat option" where
  "entry_with_no n [] bf = None"
| "entry_with_no n (k # ks) bf = (if de_i_no (entry_at bf k) = n then Some k else entry_with_no n ks bf)"

primrec child_name_loop ::
    "super_block \<Rightarrow> u32 \<Rightarrow> u32 list \<Rightarrow> u8 list \<Rightarrow> 'a fs_state_scheme \<Rightarrow> (u32 \<times> u8 list \<times> 'a fs_state_scheme) option" where
  "child_name_loop sp n [] path s = Some (- 1, path, s)"
| "child_name_loop sp n (lba # lbas) path s =
     (if lba = 0 then child_name_loop sp n lbas path s
      else do {
        (bf, s) \<leftarrow> ide_read (my_disk (parts s (cur_part s))) lba 1 s;
        case entry_with_no n [0..<entries_per_sec sp] bf of
          Some k \<Rightarrow> do {
            path \<leftarrow> arr_strcat path [slash];
            nm \<leftarrow> name_at bf k;
            path \<leftarrow> arr_strcat path nm;
            Some (0, path, s)
          }
        | None \<Rightarrow> child_name_loop sp n lbas path s
      })"

definition get_child_dir_name ::
    "u32 \<Rightarrow> u32 \<Rightarrow> u8 list \<Rightarrow> 'a fs_state_scheme \<Rightarrow> (u32 \<times> u8 list \<times> 'a fs_state_scheme) option" where
  "get_child_dir_name p_inode_nr c_inode_nr path s = do {
     (ino, s) \<leftarrow> inode_open (cur_part s) p_inode_nr s;
     let i = inodes s ino;
     (all_blocks, s) \<leftarrow> dir_blocks (cur_part s) i s;
     s \<leftarrow> inode_close ino s;
     (_, sp) \<leftarrow> rd_dir_part (cur_part s) s;
     child_name_loop sp c_inode_nr all_blocks path s
   }"

text \<open>Up to the root; the names are collected in the order in which they are met. A directory that is its own ancestor would
  keep the loop running.\<close>

partial_function (option) cwd_loop ::
    "u32 \<Rightarrow> u8 list \<Rightarrow> 'a fs_state_scheme \<Rightarrow> (u8 list option \<times> 'a fs_state_scheme) option" where
  "cwd_loop child_inode_nr full_path_reverse s =
     (if child_inode_nr = 0 then Some (Some full_path_reverse, s)
      else do {
        (parent_inode_nr, s) \<leftarrow> get_parent_dir_inode_nr child_inode_nr s;
        (r, full_path_reverse, s) \<leftarrow> get_child_dir_name parent_inode_nr child_inode_nr full_path_reverse s;
        if r = - 1 then Some (None, s) else cwd_loop parent_inode_nr full_path_reverse s
      })"

text \<open>The last component of \<open>full_path_reverse\<close> moves to the end of \<open>bf\<close>, until none is left.\<close>

function turn_path :: "u8 list \<Rightarrow> u8 list \<Rightarrow> u8 list option" where
  "turn_path rev_path bf =
     (case last_index rev_path slash of
        None \<Rightarrow> Some bf
      | Some i \<Rightarrow> do {
          bf \<leftarrow> arr_strcat bf (drop i rev_path);
          turn_path (take i rev_path) bf
        })"
  by pat_completeness auto
termination
proof (relation "measure (\<lambda>(p, _). length p)")
  fix rev_path :: "u8 list" and i b
  assume "last_index rev_path slash = Some i"
  then have "i < length rev_path"
    by (auto simp: last_index_def split: if_splits) (metis diff_Suc_less diff_less_mono2 length_pos_if_in_set le_less_trans diff_le_self diff_Suc_eq_diff_pred)
  then show "((take i rev_path, b), (rev_path, b')) \<in> measure (\<lambda>(p, _). length p)" for b' by simp
qed simp

text \<open>The result tells whether the address of the buffer is returned, or the null pointer.\<close>

definition sys_getcwd :: "u8 list \<Rightarrow> u32 \<Rightarrow> 'a fs_state_scheme \<Rightarrow> (bool \<times> u8 list \<times> 'a fs_state_scheme) option" where
  "sys_getcwd bf n s = do {
     (io_buf, s) \<leftarrow> sys_malloc SECTOR_SIZE s;
     if io_buf = NULL then Some (False, bf, s)
     else do {
       t \<leftarrow> rd_task (running_thread s) s;
       let child_inode_nr = cwd_inode_nr t;
       _ \<leftarrow> ASSERT (0 \<le>s child_inode_nr \<and> child_inode_nr <s 4096);
       if child_inode_nr = 0 then do {
         bf \<leftarrow> set_at bf 0 slash;
         bf \<leftarrow> set_at bf 1 0;
         s \<leftarrow> sys_free io_buf s;
         Some (True, bf, s)
       } else do {
         _ \<leftarrow> ASSERT (unat n \<le> length bf);
         let bf = patch 0 (replicate (unat n) 0) bf;
         (r, s) \<leftarrow> cwd_loop child_inode_nr (replicate MAX_PATH_LEN 0) s;
         case r of
           None \<Rightarrow> do { s \<leftarrow> sys_free io_buf s; Some (False, bf, s) }
         | Some full_path_reverse \<Rightarrow> do {
             p \<leftarrow> str_of full_path_reverse;
             _ \<leftarrow> ASSERT (length p \<le> unat n);
             bf \<leftarrow> turn_path p bf;
             s \<leftarrow> sys_free io_buf s;
             Some (True, bf, s)
           }
       }
     }
   }"

definition sys_chdir :: "dir_entry \<Rightarrow> u8 list \<Rightarrow> 'a fs_state_scheme \<Rightarrow> (u32 \<times> 'a fs_state_scheme) option" where
  "sys_chdir dir_e path s = do {
     (inode_no, r, s) \<leftarrow> search_file dir_e path zero_record s;
     (ret, s) \<leftarrow> (if inode_no \<noteq> - 1 then
         if file_type r = FT_DIRECTORY then do {
           s \<leftarrow> wr_task (running_thread s) (\<lambda>t. t\<lparr>cwd_inode_nr := inode_no\<rparr>) s;
           Some (0, s)
         } else do {
           s \<leftarrow> printk ''sys_chdir: %s is regular file or other!\<newline>'' [AStr path] s;
           Some (- 1, s)
         }
       else Some (- 1, s));
     s \<leftarrow> dir_close (parent_dir r) s;
     Some (ret, s)
   }"

record stat =
  st_ino :: u32
  st_size :: u32
  st_filetype :: u32

definition sys_stat :: "dir_entry \<Rightarrow> u8 list \<Rightarrow> stat \<Rightarrow> 'a fs_state_scheme \<Rightarrow> (u32 \<times> stat \<times> 'a fs_state_scheme) option" where
  "sys_stat dir_e path bf s =
     (if path \<in> root_names then do {
        i \<leftarrow> rd_inode (dir_inode (dirs s (root_dir s))) s;
        Some (0, \<lparr>st_ino = 0, st_size = i_size i, st_filetype = FT_DIRECTORY\<rparr>, s)
      } else do {
        (inode_no, r, s) \<leftarrow> search_file dir_e path zero_record s;
        (ret, bf, s) \<leftarrow> (if inode_no \<noteq> - 1 then do {
            (ino, s) \<leftarrow> inode_open (cur_part s) inode_no s;
            let n = i_size (inodes s ino);
            s \<leftarrow> inode_close ino s;
            Some (0, \<lparr>st_ino = inode_no, st_size = n, st_filetype = file_type r\<rparr>, s)
          } else do {
            s \<leftarrow> printk ''sys_stat: %s not found\<newline>'' [AStr path] s;
            Some (- 1, bf, s)
          });
        s \<leftarrow> dir_close (parent_dir r) s;
        Some (ret, bf, s)
      })"

definition sys_putchar :: "u8 \<Rightarrow> 'a fs_state_scheme \<Rightarrow> 'a fs_state_scheme option" where
  "sys_putchar char_asci s = console_put_char (console_lock s) char_asci s"

definition help_text :: string where
  "help_text = '' buildin commands:\<newline>'' @ ''       ls: show directory or file information\<newline>'' @
     ''       cd: change current work directory\<newline>'' @ ''       mkdir: create a directory\<newline>'' @
     ''       rmdir: remove a empty directory\<newline>'' @ ''       rm: remove a regular file\<newline>'' @
     ''       pwd: show current work directory\<newline>'' @ ''       ps: show process information\<newline>'' @
     ''       clear: clear screen\<newline>'' @ '' shortcut key:\<newline>'' @ ''       ctrl+l: clear screen\<newline>'' @
     ''       ctrl+u: clear input\<newline>\<newline>''"

definition sys_help :: "'a fs_state_scheme \<Rightarrow> 'a fs_state_scheme option" where
  "sys_help s = printk help_text [] s"

lemma sint_u32: "sint (x :: u32) = (if unat x < 0x80000000 then int (unat x) else int (unat x) - 0x100000000)"
proof -
  have x: "0 \<le> uint x" "uint x < 0x100000000" using unsigned_less [of x, where 'a = int] by simp_all
  have s: "sint x = (uint x + 0x80000000) mod 0x100000000 - 0x80000000"
    by (simp add: sint_uint signed_take_bit_eq_take_bit_shift take_bit_eq_mod)
  have u: "int (unat x) = uint x" by simp
  show ?thesis
  proof (cases "uint x < 0x80000000")
    case True
    then have "(uint x + 0x80000000) mod 0x100000000 = uint x + 0x80000000" using x by (intro mod_pos_pos_trivial) simp_all
    moreover have "unat x < 0x80000000" using True u by linarith
    ultimately show ?thesis using s u by simp
  next
    case False
    then have "(uint x + 0x80000000) mod 0x100000000 = uint x + 0x80000000 - 0x100000000"
      using x mod_pos_pos_trivial [of "uint x + 0x80000000 - 0x100000000" "0x100000000"] minus_mod_self2 [of "uint x + 0x80000000" "0x100000000"] by simp
    moreover have "\<not> unat x < 0x80000000" using False u by linarith
    ultimately show ?thesis using s u by simp
  qed
qed

lemma signed_range:
  fixes n p :: u32
  assumes "n < 0x80000000"
  shows "p <s 0 \<or> n - 1 <s p \<longleftrightarrow> \<not> p < n"
proof -
  have n: "unat n < 0x80000000" using assms by (simp add: word_less_nat_alt)
  have p: "unat p < 0x100000000" using unsigned_less [of p, where 'a = nat] by simp
  have "sint (n - 1) = int (unat n) - 1"
  proof (cases "n = 0")
    case False
    then have "unat (n - 1) = unat n - 1" "0 < unat n" by (simp_all add: unat_minus_one unat_gt_0)
    then show ?thesis using n unfolding sint_u32 by auto
  qed simp
  then have "n - 1 <s p \<longleftrightarrow> int (unat n) - 1 < sint p" "p <s 0 \<longleftrightarrow> sint p < 0" by (simp_all add: word_sless_alt)
  moreover have "p < n \<longleftrightarrow> int (unat p) < int (unat n)" unfolding word_less_nat_alt by linarith
  moreover have "sint p < 0 \<or> int (unat n) - 1 < sint p \<longleftrightarrow> \<not> int (unat p) < int (unat n)"
    using n p sint_u32 [of p] by (cases "unat p < 0x80000000") (simp_all del: of_nat_unat; linarith)+
  ultimately show ?thesis by blast
qed

text \<open>C20: \<open>sys_lseek\<close> keeps the position inside the file. For every origin and offset, also negative ones and ones that wrap around, the new
  position is accepted exactly if it is the number of an existing byte; then it is stored and returned, and otherwise
  the call returns -1 and changes nothing. In particular no position of an empty file is accepted.\<close>

theorem lseek_bounds:
  assumes "\<not> fd <s 0" "0 < whence" "whence < 4" "fd_local2global fd s = Some g" "unat g < length (file_table s)"
    "fd_inode (file_table s ! unat g) = ino" "ino \<noteq> NULL" "i_size (inodes s ino) < 0x80000000"
    "new = (if whence = SEEK_SET then offset else if whence = SEEK_CUR then fd_pos (file_table s ! unat g) + offset
            else i_size (inodes s ino) + offset)"
  shows "sys_lseek fd offset whence s =
    (if new < i_size (inodes s ino)
     then Some (new, s\<lparr>file_table := (file_table s)[unat g := (file_table s ! unat g)\<lparr>fd_pos := new\<rparr>]\<rparr>)
     else Some (- 1, s))"
  using assms signed_range [OF assms(8), of new] by (simp add: sys_lseek_def Let_def rd_inode_def upd_file_def)

definition demo_lseek :: fs_state where
  "demo_lseek = demo_fs\<lparr>tcb := \<lambda>_. zero_task\<lparr>fd_table := [0, 1, 2, 3, - 1, - 1, - 1, - 1]\<rparr>,
     file_table := replicate 32 \<lparr>fd_pos = 40, fd_flag = 0, fd_inode = 0xc000e000\<rparr>,
     inodes := \<lambda>_. (inode_init 5)\<lparr>i_size := 100\<rparr>\<rparr>"

theorem lseek_bounds_witness:
  "sys_lseek 3 (- 10) 2 demo_lseek =
    (if (30 :: u32) < i_size (inodes demo_lseek 0xc000e000)
     then Some (30, demo_lseek\<lparr>file_table := (file_table demo_lseek)[unat (3 :: u32) := (file_table demo_lseek ! unat (3 :: u32))\<lparr>fd_pos := 30\<rparr>]\<rparr>)
     else Some (- 1, demo_lseek)) \<and> i_size (inodes demo_lseek 0xc000e000) = 100"
proof -
  have "running_thread demo_lseek \<noteq> NULL"
    by (simp add: demo_lseek_def demo_fs_def demo_ide_def task_state.defs ide_state.defs mem_state.defs Task.demo_task_def running_thread_def)
  moreover have "fd_table (tcb demo_lseek a) = [0, 1, 2, 3, - 1, - 1, - 1, - 1]" for a by (simp add: demo_lseek_def)
  moreover have "0 \<le>s (3 :: u32) \<and> (3 :: u32) <s 32" by code_simp
  ultimately have g: "fd_local2global 3 demo_lseek = Some 3"
    by (simp add: fd_local2global_def rd_task_def get_at_def ASSERT_def MAX_FILE_OPEN_def)
  have z: "inodes demo_lseek 0xc000e000 = (inode_init 5)\<lparr>i_size := 100\<rparr>" by (simp add: demo_lseek_def)
  have f: "length (file_table demo_lseek) = 32" "file_table demo_lseek ! 3 = \<lparr>fd_pos = 40, fd_flag = 0, fd_inode = 0xc000e000\<rparr>"
    by (simp_all add: demo_lseek_def)
  have "\<not> (3 :: u32) <s 0" by code_simp
  then show ?thesis
    using lseek_bounds [OF _ _ _ g, of 2 "0xc000e000" 30 "- 10"] f z by (simp add: SEEK_SET_def SEEK_CUR_def)
qed

end
