(* ===== verification/Mount.thy ===== *)
theory Mount
  imports Filesys
begin

text \<open>
  Creating and mounting the file system, the initialisation part of \<^verbatim>\<open>fs/fs.c\<close>. The super block is thirteen little-endian words and
  460 bytes of padding, which \<open>partition_format\<close> leaves uninitialised (\<open>padding\<close>).
\<close>

unbundle bit_operations_syntax

definition sb_bytes :: "super_block \<Rightarrow> u8 list" where
  "sb_bytes sp = concat (map bytes32 [magic sp, sb_sec_cnt sp, inode_cnt sp, part_lba_base sp, block_bitmap_lba sp, block_bitmap_sects sp,
     inode_bitmap_lba sp, inode_bitmap_sects sp, inode_table_lba sp, inode_table_sects sp, data_start_lba sp, root_inode_no sp,
     dir_entry_size sp])"

definition sb_of :: "u8 list \<Rightarrow> super_block" where
  "sb_of xs = \<lparr>magic = le32 xs 0, sb_sec_cnt = le32 xs 4, inode_cnt = le32 xs 8, part_lba_base = le32 xs 12,
     block_bitmap_lba = le32 xs 16, block_bitmap_sects = le32 xs 20, inode_bitmap_lba = le32 xs 24, inode_bitmap_sects = le32 xs 28,
     inode_table_lba = le32 xs 32, inode_table_sects = le32 xs 36, data_start_lba = le32 xs 40, root_inode_no = le32 xs 44,
     dir_entry_size = le32 xs 48\<rparr>"

text \<open>The callback of \<open>list_traversal\<close>; the argument it gets is the address of \<open>part_name\<close>.\<close>

definition mount_partition :: "u8 list \<Rightarrow> addr \<Rightarrow> u32 \<Rightarrow> 'a fs_state_scheme \<Rightarrow> (bool \<times> 'a fs_state_scheme) option" where
  "mount_partition nm pelem arg s = do {
     let part = part_tag_entry pelem;
     if part_name (parts s part) = nm then do {
       let s = s\<lparr>cur_part := part\<rparr>;
       let dk = my_disk (parts s part);
       (sb_buf, s) \<leftarrow> sys_malloc SECTOR_SIZE s;
       (sbp, s) \<leftarrow> sys_malloc 512 s;
       _ \<leftarrow> ASSERT (sbp \<noteq> NULL);
       (xs, s) \<leftarrow> ide_read dk (start_lba (parts s part) + 1) 1 s;
       let sp = sb_of xs;
       let s = upd_part part (\<lambda>p. p\<lparr>sb := Some sp\<rparr>) s;
       (b, s) \<leftarrow> sys_malloc (block_bitmap_sects sp * SECTOR_SIZE) s;
       _ \<leftarrow> ASSERT (b \<noteq> NULL);
       (xs, s) \<leftarrow> ide_read dk (block_bitmap_lba sp) (block_bitmap_sects sp) s;
       let s = upd_part part (\<lambda>p. p\<lparr>block_bitmap := \<lparr>btmp_bytes_len = unat (block_bitmap_sects sp * SECTOR_SIZE), bits = xs\<rparr>\<rparr>) s;
       (b, s) \<leftarrow> sys_malloc (inode_bitmap_sects sp * SECTOR_SIZE) s;
       _ \<leftarrow> ASSERT (b \<noteq> NULL);
       (xs, s) \<leftarrow> ide_read dk (inode_bitmap_lba sp) (inode_bitmap_sects sp) s;
       let s = upd_part part (\<lambda>p. p\<lparr>inode_bitmap := \<lparr>btmp_bytes_len = unat (inode_bitmap_sects sp * SECTOR_SIZE), bits = xs\<rparr>\<rparr>) s;
       s \<leftarrow> list_init (open_inodes part) s;
       s \<leftarrow> printk ''mount %s done!\<newline>'' [AStr (part_name (parts s part))] s;
       Some (True, s)
     } else Some (False, s)
   }"

text \<open>The layout of a partition with \<open>n\<close> sectors from \<open>start\<close> on, and the number of its blocks.\<close>

definition inode_table_secs :: u32 where
  "inode_table_secs = DIV_ROUND_UP (sizeof_inode * MAX_FILES_PER_PART) SECTOR_SIZE"

definition inode_bitmap_secs :: u32 where
  "inode_bitmap_secs = DIV_ROUND_UP MAX_FILES_PER_PART BITS_PER_SECTOR"

definition block_bitmap_bit_len :: "u32 \<Rightarrow> u32" where
  "block_bitmap_bit_len n =
     (let used_sects = 1 + 1 + inode_bitmap_secs + inode_table_secs;
          free_sects = n - used_sects
      in free_sects - DIV_ROUND_UP free_sects BITS_PER_SECTOR)"

definition layout :: "u32 \<Rightarrow> u32 \<Rightarrow> super_block" where
  "layout start n =
     (let bsecs = DIV_ROUND_UP (block_bitmap_bit_len n) BITS_PER_SECTOR;
          bb = start + 2; ib = bb + bsecs; it = ib + inode_bitmap_secs
      in \<lparr>magic = 0x19590318, sb_sec_cnt = n, inode_cnt = MAX_FILES_PER_PART, part_lba_base = start,
          block_bitmap_lba = bb, block_bitmap_sects = bsecs, inode_bitmap_lba = ib, inode_bitmap_sects = inode_bitmap_secs,
          inode_table_lba = it, inode_table_sects = inode_table_secs, data_start_lba = it + inode_table_secs,
          root_inode_no = 0, dir_entry_size = sizeof_dir_entry\<rparr>)"

text \<open>\<open>buf[i] &= ~(1 << k)\<close> for the bits \<open>0\<close> to \<open>last_bit\<close>, both included.\<close>

primrec clear_bits :: "nat list \<Rightarrow> u8 \<Rightarrow> u8" where
  "clear_bits [] b = b"
| "clear_bits (k # ks) b = clear_bits ks (b AND NOT (push_bit k 1))"

definition block_bitmap_init :: "u32 \<Rightarrow> u8 list \<Rightarrow> u8 list option" where
  "block_bitmap_init bit_len bf = do {
     b0 \<leftarrow> get_at bf 0;
     let bf = bf[0 := b0 OR 1];
     let last_byte = unat (bit_len div 8);
     let last_bit = unat (bit_len mod 8);
     let last_size = 512 - last_byte mod 512;
     _ \<leftarrow> ASSERT (last_byte + last_size \<le> length bf);
     let bf = patch last_byte (replicate last_size 0xff) bf;
     Some (bf[last_byte := clear_bits [0..<last_bit + 1] (bf ! last_byte)])
   }"

definition partition_format :: "u8 list \<Rightarrow> addr \<Rightarrow> 'a fs_state_scheme \<Rightarrow> 'a fs_state_scheme option" where
  "partition_format padding part s = do {
     let p = parts s part;
     let sp = layout (start_lba p) (sec_cnt p);
     s \<leftarrow> printk ''%s info:\<newline>'' [AStr (part_name p)] s;
     s \<leftarrow> printk (''   magic:0x%x\<newline>   part_lba_base:0x%x\<newline>   all_sectors:0x%x\<newline>   inode_cnt:0x%x\<newline>'' @
         ''   block_bitmap_lba:0x%x\<newline>   block_bitmap_sectors:0x%x\<newline>   inode_bitmap_lba:0x%x\<newline>'' @
         ''   inode_bitmap_sectors:0x%x\<newline>   inode_table_lba:0x%x\<newline>   inode_table_sectors:0x%x\<newline>   data_start_lba:0x%x\<newline>'')
       (map AInt [magic sp, part_lba_base sp, sb_sec_cnt sp, inode_cnt sp, block_bitmap_lba sp, block_bitmap_sects sp,
         inode_bitmap_lba sp, inode_bitmap_sects sp, inode_table_lba sp, inode_table_sects sp, data_start_lba sp]) s;
     let dk = my_disk p;
     s \<leftarrow> ide_write dk (start_lba p + 1) (sb_bytes sp @ padding) 1 s;
     s \<leftarrow> printk ''    super_block_lba:0x%x\<newline>'' [AInt (start_lba p + 1)] s;
     let buf_size = (if block_bitmap_sects sp \<ge> inode_bitmap_sects sp then block_bitmap_sects sp else inode_bitmap_sects sp);
     let buf_size = (if buf_size \<ge> inode_table_sects sp then buf_size else inode_table_sects sp) * SECTOR_SIZE;
     (bfp, s) \<leftarrow> sys_malloc buf_size s;
     _ \<leftarrow> ASSERT (bfp \<noteq> NULL);
     let zero = replicate (unat buf_size) 0;
     bf \<leftarrow> block_bitmap_init (block_bitmap_bit_len (sec_cnt p)) zero;
     s \<leftarrow> ide_write dk (block_bitmap_lba sp) bf (block_bitmap_sects sp) s;
     s \<leftarrow> ide_write dk (inode_bitmap_lba sp) (zero[0 := 1]) (inode_bitmap_sects sp) s;
     let root = (inode_init 0)\<lparr>i_size := dir_entry_size sp * 2, i_sectors := (replicate 13 0)[0 := data_start_lba sp]\<rparr>;
     s \<leftarrow> ide_write dk (inode_table_lba sp) (patch 0 (inode_bytes root) zero) (inode_table_sects sp) s;
     s \<leftarrow> ide_write dk (data_start_lba sp) (dots_sector 0 0 zero) 1 s;
     s \<leftarrow> printk ''    root_dir_lba:0x%x\<newline>'' [AInt (data_start_lba sp)] s;
     s \<leftarrow> printk ''%s format done\<newline>'' [AStr (part_name p)] s;
     sys_free bfp s
   }"

text \<open>The partitions of one disk; the twelve structures are contiguous.\<close>

primrec check_parts :: "u8 list \<Rightarrow> addr \<Rightarrow> nat list \<Rightarrow> 'a fs_state_scheme \<Rightarrow> 'a fs_state_scheme option" where
  "check_parts padding dk [] s = Some s"
| "check_parts padding dk (k # ks) s = do {
     let part = (if k < 4 then prim_part dk k else logic_part dk (k - 4));
     s \<leftarrow> (if sec_cnt (parts s part) \<noteq> 0 then do {
         (xs, s) \<leftarrow> ide_read dk (start_lba (parts s part) + 1) 1 s;
         if magic (sb_of xs) = 0x19590318 then printk ''%s has filesystem\<newline>'' [AStr (part_name (parts s part))] s
         else do {
           s \<leftarrow> printk ''formatting %s's partition %s......\<newline>'' [AStr (disk_name (disks s dk)), AStr (part_name (parts s part))] s;
           partition_format padding part s
         }
       } else Some s);
     check_parts padding dk ks s
   }"

text \<open>\<open>part_idx\<close> is never reset: the partitions of the first channel's second disk are visited, those of a second channel are
  not.\<close>

primrec check_channels :: "u8 list \<Rightarrow> nat list \<Rightarrow> nat \<Rightarrow> 'a fs_state_scheme \<Rightarrow> 'a fs_state_scheme option" where
  "check_channels padding [] part_idx s = Some s"
| "check_channels padding (c # cs) part_idx s = do {
     s \<leftarrow> check_parts padding (device_at (channel_at c s) 1) [part_idx..<12] s;
     check_channels padding cs (max part_idx 12) s
   }"

definition filesys_init :: "u8 list \<Rightarrow> 'a fs_state_scheme \<Rightarrow> 'a fs_state_scheme option" where
  "filesys_init padding s = do {
     (sb_buf, s) \<leftarrow> sys_malloc SECTOR_SIZE s;
     _ \<leftarrow> ASSERT (sb_buf \<noteq> NULL);
     s \<leftarrow> printk ''searching filesystem......\<newline>'' [] s;
     s \<leftarrow> check_channels padding [0..<unat (channel_cnt s)] 0 s;
     s \<leftarrow> sys_free sb_buf s;
     (_, s) \<leftarrow> list_traversal (partition_list s) (mount_partition (lit ''sdb1'')) 0 s;
     s \<leftarrow> open_root_dir (cur_part s) s;
     Some (s\<lparr>file_table := map (\<lambda>x. x\<lparr>fd_inode := NULL\<rparr>) (file_table s)\<rparr>)
   }"

subsection \<open>The layout\<close>

lemma layout_sizes: "inode_table_secs = 608" "inode_bitmap_secs = 1"
  by (simp_all add: inode_table_secs_def inode_bitmap_secs_def DIV_ROUND_UP_def sizeof_inode_def MAX_FILES_PER_PART_def SECTOR_SIZE_def BITS_PER_SECTOR_def)

lemma unat_sectors_up:
  assumes "unat n + 4095 < 2 ^ 32"
  shows "unat (DIV_ROUND_UP n BITS_PER_SECTOR) = (unat n + 4095) div 4096"
proof -
  have "unat (4095 + n) = unat n + 4095" using assms by (simp add: unat_word_ariths)
  then show ?thesis by (simp add: DIV_ROUND_UP_def BITS_PER_SECTOR_def unat_div)
qed

lemma layout_nums:
  assumes "611 < unat n" "unat n < 2 ^ 31" 
  defines "fr \<equiv> unat n - 611"
  shows "unat (block_bitmap_bit_len n) = fr - (fr + 4095) div 4096"
    "unat (block_bitmap_sects (layout st n)) = (fr - (fr + 4095) div 4096 + 4095) div 4096"
proof -
  have f: "unat (n - 611) = fr" using assms(1) by (simp add: fr_def unat_sub_if')
  have u: "unat (DIV_ROUND_UP (n - 611) BITS_PER_SECTOR) = (fr + 4095) div 4096"
    using assms(2) f by (subst unat_sectors_up) (simp_all add: fr_def)
  have le: "(fr + 4095) div 4096 \<le> fr" using assms(1) by (simp add: fr_def)
  show b: "unat (block_bitmap_bit_len n) = fr - (fr + 4095) div 4096"
    using u f le by (simp add: block_bitmap_bit_len_def layout_sizes Let_def unat_sub_if')
  show "unat (block_bitmap_sects (layout st n)) = (fr - (fr + 4095) div 4096 + 4095) div 4096"
    using b assms(2) unat_sectors_up [of "block_bitmap_bit_len n"] by (simp add: layout_def Let_def fr_def)
qed

lemma unat_add_fits: "unat (a :: u32) + unat b < 2 ^ 32 \<Longrightarrow> unat (a + b) = unat a + unat b"
  by (simp add: unat_word_ariths)

text \<open>C18: The layout that \<open>partition_format\<close> computes fits the partition. For a partition of more than 611 sectors the boot block, the super
  block, the two bitmaps and the inode table follow each other without a gap or an overlap and without wrapping
  around, the data blocks counted by the block bitmap end inside the partition, the block bitmap has a bit for each of
  them and the inode table has room for every inode.\<close>

theorem layout_fits:
  assumes "611 < unat n" "unat n < 2 ^ 31" "unat st + unat n < 2 ^ 32" "sp = layout st n"
  shows "unat (block_bitmap_lba sp) = unat st + 2 \<and>
    unat (inode_bitmap_lba sp) = unat (block_bitmap_lba sp) + unat (block_bitmap_sects sp) \<and>
    unat (inode_table_lba sp) = unat (inode_bitmap_lba sp) + unat (inode_bitmap_sects sp) \<and>
    unat (data_start_lba sp) = unat (inode_table_lba sp) + unat (inode_table_sects sp) \<and>
    unat (data_start_lba sp) + unat (block_bitmap_bit_len n) \<le> unat st + unat n \<and>
    unat (block_bitmap_bit_len n) \<le> 4096 * unat (block_bitmap_sects sp) \<and>
    unat MAX_FILES_PER_PART * unat sizeof_inode \<le> unat (inode_table_sects sp) * unat SECTOR_SIZE"
proof -
  define fr where "fr = unat n - 611"
  define up where "up = (fr + 4095) div 4096"
  define bs where "bs = (fr - up + 4095) div 4096"
  have N: "unat (block_bitmap_bit_len n) = fr - up" "unat (block_bitmap_sects sp) = bs"
    using layout_nums [OF assms(1,2)] by (simp_all add: assms(4) fr_def up_def bs_def)
  have fr: "0 < fr" "unat n = 611 + fr" using assms(1) by (simp_all add: fr_def)
  have up: "up \<le> fr" "bs \<le> up" "fr - up \<le> 4096 * bs" using fr(1) by (simp_all add: up_def bs_def div_le_mono)
  have bb: "unat (st + 2) = unat st + 2" using assms(3) fr by (subst unat_add_fits) simp_all
  have ib: "unat (st + 2 + block_bitmap_sects sp) = unat st + 2 + bs"
    using assms(3) fr up bb N(2) by (subst unat_add_fits) simp_all
  have it: "unat (st + 2 + block_bitmap_sects sp + 1) = unat st + 3 + bs"
    using assms(3) fr up ib by (subst unat_add_fits) simp_all
  have ds: "unat (st + 2 + block_bitmap_sects sp + 1 + 608) = unat st + 611 + bs"
    using assms(3) fr up it by (subst unat_add_fits) simp_all
  have L: "block_bitmap_lba sp = st + 2" "inode_bitmap_lba sp = st + 2 + block_bitmap_sects sp"
      "inode_table_lba sp = st + 2 + block_bitmap_sects sp + 1" "data_start_lba sp = st + 2 + block_bitmap_sects sp + 1 + 608"
      "inode_table_sects sp = 608" "inode_bitmap_sects sp = 1"
    by (simp_all add: assms(4) layout_def layout_sizes Let_def)
  show ?thesis
    using up fr unfolding L bb ib it ds N
    by (simp add: MAX_FILES_PER_PART_def sizeof_inode_def SECTOR_SIZE_def)
qed

theorem layout_fits_witness: "unat (data_start_lba (layout 63 83791)) + unat (block_bitmap_bit_len 83791) \<le> unat (63 :: u32) + unat (83791 :: u32)"
  using layout_fits [of 83791 63 "layout 63 83791"] by simp

subsection \<open>The block bitmap\<close>

lemma bit_clear_bits: "bit (clear_bits ks b) i \<longleftrightarrow> bit b i \<and> i \<notin> set ks"
proof (induction ks arbitrary: b)
  case (Cons k ks)
  have "bit (b AND NOT (push_bit k 1)) i \<longleftrightarrow> bit b i \<and> i \<noteq> k"
    using bit_imp_le_length [of b i] by (auto simp: bit_and_iff bit_not_iff_eq bit_exp_iff)
  then show ?case using Cons.IH by auto
qed simp

lemma bit_0xff: "bit (0xff :: u8) i \<longleftrightarrow> i < 8"
proof -
  have "(0xff :: u8) = mask 8" by (simp add: mask_eq_exp_minus_1)
  then show ?thesis by (simp only: bit_mask_iff) auto
qed

text \<open>C19: The block bitmap of a new partition. Of the bits of the sectors that are initialised, bit 0 (the root directory) is set, and so are the bits
  that no block corresponds to, with one exception: the loop that clears the valid bits of the last byte goes one bit too
  far, and the bit with number \<open>block_bitmap_bit_len\<close>, one past the last block, is clear. The allocator may
  hand out that block, which lies behind the data area.\<close>

theorem block_bitmap_init_bits:
  assumes "8 \<le> unat bl" "512 * (unat bl div 4096 + 1) \<le> m"
  shows "\<exists>bf. block_bitmap_init bl (replicate m 0) = Some bf \<and> length bf = m \<and>
    (\<forall>i < 4096 * (unat bl div 4096 + 1). bit (bf ! (i div 8)) (i mod 8) \<longleftrightarrow> i = 0 \<or> unat bl < i)"
proof -
  define n where "n = unat bl"
  define lb where "lb = n div 8"
  define ls where "ls = 512 - lb mod 512"
  have lb: "1 \<le> lb" "lb < lb + ls" "lb + ls = 512 * (n div 4096 + 1)"
  proof -
    show "1 \<le> lb" using assms(1) by (simp add: lb_def n_def)
    show "lb < lb + ls" by (simp add: ls_def)
    have "lb + ls = 512 * (lb div 512) + 512" 
      using mult_div_mod_eq [of 512 lb] mod_less_divisor [of 512 lb] unfolding ls_def by linarith
    then show "lb + ls = 512 * (n div 4096 + 1)" by (simp add: lb_def div_mult2_eq [symmetric])
  qed
  define b1 where "b1 = patch lb (replicate ls (0xff :: u8)) ((replicate m 0)[0 := 1])"
  define bf where "bf = b1[lb := clear_bits [0..<n mod 8 + 1] 0xff]"
  have m: "lb + ls \<le> m" using assms(2) lb(3) by (simp add: n_def)
  have b1: "length b1 = m" "j < m \<Longrightarrow> b1 ! j = (if lb \<le> j \<and> j < lb + ls then 0xff else if j = 0 then 1 else 0)" for j
    using m by (auto simp: b1_def nth_patch nth_list_update)
  have u: "unat (bl div 8) = lb" "unat (bl mod 8) = n mod 8" by (simp_all add: n_def lb_def unat_div unat_mod)
  have "block_bitmap_init bl (replicate m 0) = Some bf"
    using lb m b1(2) [of lb] unfolding block_bitmap_init_def u Let_def ls_def [symmetric]
    by (simp add: get_at_def b1_def [symmetric] bf_def)
  moreover have "bit (bf ! (i div 8)) (i mod 8) \<longleftrightarrow> i = 0 \<or> n < i" if i: "i < 4096 * (n div 4096 + 1)" for i
  proof -
    have j: "i div 8 < lb + ls" using i unfolding lb(3) by (simp add: less_mult_imp_div_less)
    have r: "i = 8 * (i div 8) + i mod 8" "n = 8 * lb + n mod 8" "i mod 8 < 8" "n mod 8 < 8" by (simp_all add: lb_def)
    consider "i div 8 < lb" | "i div 8 = lb" | "lb < i div 8" by linarith
    then show ?thesis
    proof cases
      case 1
      then have "i < n" using r by linarith
      moreover have "bf ! (i div 8) = (if i div 8 = 0 then 1 else 0)" using 1 j m b1 by (simp add: bf_def)
      moreover have "i div 8 = 0 \<and> i mod 8 = 0 \<longleftrightarrow> i = 0" using r(1) by auto
      ultimately show ?thesis by (auto simp: bit_1_iff)
    next
      case 2
      then have "n < i \<longleftrightarrow> n mod 8 < i mod 8" "i \<noteq> 0" using r lb(1) by linarith+
      moreover have "bf ! (i div 8) = clear_bits [0..<n mod 8 + 1] 0xff" using 2 j m b1(1) by (simp add: bf_def)
      moreover have "bit (0xff :: u8) (i mod 8)" unfolding bit_0xff by simp
      ultimately show ?thesis by (auto simp: bit_clear_bits)
    next
      case 3
      then have "n < i" using r by linarith
      moreover have "bf ! (i div 8) = 0xff" using 3 j m b1 by (simp add: bf_def)
      moreover have "bit (0xff :: u8) (i mod 8)" unfolding bit_0xff by simp
      ultimately show ?thesis by simp
    qed
  qed
  moreover have "length bf = m" by (simp add: bf_def b1(1))
  ultimately show ?thesis unfolding n_def by blast
qed

theorem block_bitmap_init_bits_witness:
  "\<exists>bf. block_bitmap_init 1000 (replicate 512 0) = Some bf \<and> \<not> bit (bf ! 125) 0 \<and> bit (bf ! 125) 1"
proof -
  obtain bf where "block_bitmap_init 1000 (replicate 512 0) = Some bf"
      "\<forall>i < 4096. bit (bf ! (i div 8)) (i mod 8) \<longleftrightarrow> i = 0 \<or> 1000 < i"
    using block_bitmap_init_bits [of 1000 512] by auto
  from this(1) this(2) [rule_format, of 1000] this(2) [rule_format, of 1001] show ?thesis by simp
qed

end
