(* ===== verification/Fork.thy ===== *)
theory Fork
  imports Mount
begin

text \<open>
  Duplicating a process, \<^verbatim>\<open>userprog/fork.c\<close>. The page of the parent's task structure is copied in both views of the model: word by word
  through the memory management unit (the kernel stack with the saved registers) and field by field (the task structure, the links and block
  descriptors inside it, its virtual address pool). The pages of the program are copied through \<open>buf_page\<close> while the page directory
  register is switched between the two processes.
\<close>

unbundle bit_operations_syntax

text \<open>\<open>memcpy(child, parent, PG_SIZE)\<close>.\<close>

definition task_links :: "addr \<Rightarrow> addr list" where
  "task_links p = [general_tag p, all_list_tag p] @ desc_links (u_block_desc p)"

definition task_descs :: "addr \<Rightarrow> addr list" where
  "task_descs p = map (desc_at (u_block_desc p)) [0..<DESC_CNT]"

definition copied :: "('a \<times> 'a) list \<Rightarrow> ('a \<Rightarrow> 'b) \<Rightarrow> 'a \<Rightarrow> 'b" where
  "copied ps f a = (case map_of ps a of None \<Rightarrow> f a | Some b \<Rightarrow> f b)"

definition copy_task :: "addr \<Rightarrow> addr \<Rightarrow> 'a task_state_scheme \<Rightarrow> 'a task_state_scheme option" where
  "copy_task dst src s = do {
     _ \<leftarrow> ASSERT (dst \<noteq> NULL \<and> src \<noteq> NULL);
     s \<leftarrow> copy_words 1024 dst src s;
     let ls = zip (task_links dst) (task_links src);
     Some (s\<lparr>prev_of := copied ls (prev_of s), next_of := copied ls (next_of s),
       tcb := copied [(dst, src)] (tcb s), userprog_vaddr := copied [(dst, src)] (userprog_vaddr s),
       user_bits := copied [(dst, src)] (user_bits s),
       block_descs := copied (zip (task_descs dst) (task_descs src)) (block_descs s)\<rparr>)
   }"

definition copy_pcb_vaddrbitmap_stack0 :: "addr \<Rightarrow> addr \<Rightarrow> 'a task_state_scheme \<Rightarrow> (u32 \<times> 'a task_state_scheme) option" where
  "copy_pcb_vaddrbitmap_stack0 child_thread parent_thread s = do {
     s \<leftarrow> copy_task child_thread parent_thread s;
     (p, s) \<leftarrow> fork_pid s;
     pt \<leftarrow> rd_task parent_thread s;
     s \<leftarrow> wr_task child_thread (\<lambda>t. t\<lparr>pid := p, elapsed_ticks := 0, status := TASK_READY, ticks := priority t, parent_pid := pid pt\<rparr>) s;
     let s = clear_links [general_tag child_thread, all_list_tag child_thread] s;
     s \<leftarrow> block_desc_init (u_block_desc child_thread) s;
     let bitmap_pg_cnt = DIV_ROUND_UP user_bitmap_bytes PG_SIZE;
     (vaddr_btmp, s) \<leftarrow> get_kernel_pages bitmap_pg_cnt s;
     if vaddr_btmp = NULL then Some (- 1, s)
     else do {
       s \<leftarrow> copy_words (unat (bitmap_pg_cnt * PG_SIZE) div 4) vaddr_btmp (user_bits s child_thread) s;
       let s = s\<lparr>user_bits := (user_bits s)(child_thread := vaddr_btmp)\<rparr>;
       t \<leftarrow> rd_task child_thread s;
       _ \<leftarrow> ASSERT (length (name t) < 11);
       s \<leftarrow> wr_task child_thread (\<lambda>t. t\<lparr>name := name t @ ''_fork''\<rparr>) s;
       Some (0, s)
     }
   }"

text \<open>One page of the parent: into the buffer, then under the child's page directory into a new page at the same address.\<close>

definition copy_page :: "addr \<Rightarrow> addr \<Rightarrow> addr \<Rightarrow> addr \<Rightarrow> 'a mem_state_scheme \<Rightarrow> 'a mem_state_scheme option" where
  "copy_page child_thread parent_thread buf_page prog_vaddr s = do {
     s \<leftarrow> copy_words 1024 buf_page prog_vaddr s;
     s \<leftarrow> page_dir_activate child_thread s;
     (_, s) \<leftarrow> get_a_page_without_opvaddrbitmap PF_USER prog_vaddr s;
     s \<leftarrow> copy_words 1024 prog_vaddr buf_page s;
     page_dir_activate parent_thread s
   }"

primrec copy_bits :: "addr \<Rightarrow> addr \<Rightarrow> addr \<Rightarrow> nat \<Rightarrow> nat list \<Rightarrow> 'a mem_state_scheme \<Rightarrow> 'a mem_state_scheme option" where
  "copy_bits child_thread parent_thread buf_page idx_byte [] s = Some s"
| "copy_bits child_thread parent_thread buf_page idx_byte (idx_bit # ks) s = do {
     let va = userprog_vaddr s parent_thread;
     b \<leftarrow> get_at (bits (vaddr_bitmap va)) idx_byte;
     s \<leftarrow> (if push_bit idx_bit BITMAP_MASK AND b \<noteq> 0 then
         copy_page child_thread parent_thread buf_page (of_nat (idx_byte * 8 + idx_bit) * PG_SIZE + vaddr_start va) s
       else Some s);
     copy_bits child_thread parent_thread buf_page idx_byte ks s
   }"

primrec copy_bytes :: "addr \<Rightarrow> addr \<Rightarrow> addr \<Rightarrow> nat list \<Rightarrow> 'a mem_state_scheme \<Rightarrow> 'a mem_state_scheme option" where
  "copy_bytes child_thread parent_thread buf_page [] s = Some s"
| "copy_bytes child_thread parent_thread buf_page (idx_byte # ks) s = do {
     b \<leftarrow> get_at (bits (vaddr_bitmap (userprog_vaddr s parent_thread))) idx_byte;
     s \<leftarrow> (if b \<noteq> 0 then copy_bits child_thread parent_thread buf_page idx_byte [0..<8] s else Some s);
     copy_bytes child_thread parent_thread buf_page ks s
   }"

definition copy_body_stack3 :: "addr \<Rightarrow> addr \<Rightarrow> addr \<Rightarrow> 'a mem_state_scheme \<Rightarrow> 'a mem_state_scheme option" where
  "copy_body_stack3 child_thread parent_thread buf_page s =
     copy_bytes child_thread parent_thread buf_page [0..<btmp_bytes_len (vaddr_bitmap (userprog_vaddr s parent_thread))] s"

text \<open>The frame of the saved registers at the top of the kernel stack.\<close>

definition intr_0_stack :: "addr \<Rightarrow> addr" where
  "intr_0_stack p = p + PG_SIZE - 76"

definition build_child_stack :: "symbols \<Rightarrow> addr \<Rightarrow> 'a kstate_scheme \<Rightarrow> 'a kstate_scheme option" where
  "build_child_stack sy child_thread s = do {
     let k = intr_0_stack child_thread;
     s \<leftarrow> store_words [(k + 32, 0), (k - 4, intr_exit_sym sy), (k - 8, 0), (k - 12, 0), (k - 16, 0), (k - 20, 0)] s;
     wr_task child_thread (\<lambda>t. t\<lparr>self_kstack := k - 20\<rparr>) s
   }"

primrec update_open_cnts :: "addr \<Rightarrow> nat list \<Rightarrow> 'a fs_state_scheme \<Rightarrow> 'a fs_state_scheme option" where
  "update_open_cnts thread [] s = Some s"
| "update_open_cnts thread (local_fd # ks) s = do {
     t \<leftarrow> rd_task thread s;
     global_fd \<leftarrow> get_at (fd_table t) local_fd;
     _ \<leftarrow> ASSERT (global_fd <s of_nat MAX_FILE_OPEN);
     s \<leftarrow> (if global_fd \<noteq> - 1 then do {
         pipe \<leftarrow> is_pipe (of_nat local_fd) s;
         if pipe then upd_file (unat global_fd) (\<lambda>x. x\<lparr>fd_pos := fd_pos x + 1\<rparr>) s
         else do {
           x \<leftarrow> get_at (file_table s) (unat global_fd);
           _ \<leftarrow> rd_inode (fd_inode x) s;
           Some (upd_inode (fd_inode x) (\<lambda>i. i\<lparr>i_open_cnts := i_open_cnts i + 1\<rparr>) s)
         }
       } else Some s);
     update_open_cnts thread ks s
   }"

definition update_inode_open_cnts :: "addr \<Rightarrow> 'a fs_state_scheme \<Rightarrow> 'a fs_state_scheme option" where
  "update_inode_open_cnts thread s = update_open_cnts thread [3..<8] s"

text \<open>The error returns give nothing back of what was allocated before.\<close>

definition copy_process :: "symbols \<Rightarrow> addr \<Rightarrow> addr \<Rightarrow> 'a fs_state_scheme \<Rightarrow> (u32 \<times> 'a fs_state_scheme) option" where
  "copy_process sy child_thread parent_thread s = do {
     (buf_page, s) \<leftarrow> get_kernel_pages 1 s;
     if buf_page = NULL then Some (- 1, s)
     else do {
       (r, s) \<leftarrow> copy_pcb_vaddrbitmap_stack0 child_thread parent_thread s;
       if r = - 1 then Some (- 1, s)
       else do {
         (d, s) \<leftarrow> create_page_dir sy s;
         s \<leftarrow> wr_task child_thread (\<lambda>t. t\<lparr>pgdir := d\<rparr>) s;
         if d = NULL then Some (- 1, s)
         else do {
           s \<leftarrow> copy_body_stack3 child_thread parent_thread buf_page s;
           s \<leftarrow> build_child_stack sy child_thread s;
           s \<leftarrow> update_inode_open_cnts child_thread s;
           s \<leftarrow> mfree_page PF_KERNEL buf_page 1 s;
           Some (0, s)
         }
       }
     }
   }"

text \<open>The result is a \<open>pid_t\<close>.\<close>

definition sys_fork :: "symbols \<Rightarrow> 'a fs_state_scheme \<Rightarrow> (u16 \<times> 'a fs_state_scheme) option" where
  "sys_fork sy s = do {
     let parent_thread = running_thread s;
     (child_thread, s) \<leftarrow> get_kernel_pages 1 s;
     if child_thread = NULL then Some (- 1, s)
     else do {
       t \<leftarrow> rd_task parent_thread s;
       _ \<leftarrow> ASSERT (intr_get_status s = INTR_OFF \<and> pgdir t \<noteq> NULL);
       (r, s) \<leftarrow> copy_process sy child_thread parent_thread s;
       if r = - 1 then Some (- 1, s)
       else do {
         s \<leftarrow> enqueue_task child_thread s;
         t \<leftarrow> rd_task child_thread s;
         Some (pid t, s)
       }
     }
   }"

end
