(* ===== verification/Wait_Exit.thy ===== *)
theory Wait_Exit
  imports Fork Page_Data
begin

text \<open>
  The end of a process and waiting for it, \<^verbatim>\<open>userprog/wait_exit.c\<close>. \<open>sys_wait\<close> is a loop with a sleep in it: \<open>sys_wait_turn\<close> is one pass, which
  ends with a result or with the caller asleep; a woken caller begins the next pass (\<open>sys_wait_resume\<close>). \<open>sys_exit\<close> is followed up to the
  switch to another thread, from which it does not come back.
\<close>

unbundle bit_operations_syntax

primrec release_ptes :: "addr \<Rightarrow> nat list \<Rightarrow> 'a mem_state_scheme \<Rightarrow> 'a mem_state_scheme option" where
  "release_ptes first_pte_vaddr [] s = Some s"
| "release_ptes first_pte_vaddr (pte_idx # ks) s = do {
     pte \<leftarrow> load32 (first_pte_vaddr + of_nat (4 * pte_idx)) s;
     s \<leftarrow> (if pte AND 1 \<noteq> 0 then free_a_phy_page (pte AND 0xfffff000) s else Some s);
     release_ptes first_pte_vaddr ks s
   }"

primrec release_pdes :: "addr \<Rightarrow> nat list \<Rightarrow> 'a mem_state_scheme \<Rightarrow> 'a mem_state_scheme option" where
  "release_pdes pgdir_vaddr [] s = Some s"
| "release_pdes pgdir_vaddr (pde_idx # ks) s = do {
     pde \<leftarrow> load32 (pgdir_vaddr + of_nat (4 * pde_idx)) s;
     s \<leftarrow> (if pde AND 1 \<noteq> 0 then do {
         s \<leftarrow> release_ptes (pte_ptr (of_nat pde_idx * 0x400000)) [0..<1024] s;
         free_a_phy_page (pde AND 0xfffff000) s
       } else Some s);
     release_pdes pgdir_vaddr ks s
   }"

primrec release_fds :: "addr \<Rightarrow> nat list \<Rightarrow> 'a fs_state_scheme \<Rightarrow> 'a fs_state_scheme option" where
  "release_fds release_thread [] s = Some s"
| "release_fds release_thread (fd_idx # ks) s = do {
     t \<leftarrow> rd_task release_thread s;
     g \<leftarrow> get_at (fd_table t) fd_idx;
     s \<leftarrow> (if g \<noteq> - 1 then do {
         pipe \<leftarrow> is_pipe (of_nat fd_idx) s;
         if pipe then do {
           global_fd \<leftarrow> fd_local2global (of_nat fd_idx) s;
           close_pipe_end (unat global_fd) s
         } else do {
           (_, s) \<leftarrow> sys_close (of_nat fd_idx) s;
           Some s
         }
       } else Some s);
     release_fds release_thread ks s
   }"

text \<open>The number of pages of the bitmap is rounded down here and rounded up where they are allocated.\<close>

definition release_prog_resource :: "addr \<Rightarrow> 'a fs_state_scheme \<Rightarrow> 'a fs_state_scheme option" where
  "release_prog_resource release_thread s = do {
     t \<leftarrow> rd_task release_thread s;
     s \<leftarrow> release_pdes (pgdir t) [0..<768] s;
     let bitmap_pg_cnt = btmp_bytes_len (vaddr_bitmap (userprog_vaddr s release_thread)) div 4096;
     s \<leftarrow> mfree_page PF_KERNEL (user_bits s release_thread) (of_nat bitmap_pg_cnt) s;
     release_fds release_thread [3..<8] s
   }"

text \<open>The callbacks of \<open>list_traversal\<close>; \<open>parent_pid\<close> is sign-extended for the comparison.\<close>

definition find_child :: "addr \<Rightarrow> u32 \<Rightarrow> 'a kstate_scheme \<Rightarrow> (bool \<times> 'a kstate_scheme) option" where
  "find_child pelem ppid s = do {
     t \<leftarrow> rd_task (all_list_tag_entry pelem) s;
     Some (scast (parent_pid t) = ppid, s)
   }"

definition find_hanging_child :: "addr \<Rightarrow> u32 \<Rightarrow> 'a kstate_scheme \<Rightarrow> (bool \<times> 'a kstate_scheme) option" where
  "find_hanging_child pelem ppid s = do {
     t \<leftarrow> rd_task (all_list_tag_entry pelem) s;
     Some (scast (parent_pid t) = ppid \<and> status t = TASK_HANGING, s)
   }"

definition init_adopt_a_child :: "addr \<Rightarrow> u32 \<Rightarrow> 'a kstate_scheme \<Rightarrow> (bool \<times> 'a kstate_scheme) option" where
  "init_adopt_a_child pelem p s = do {
     let pthread = all_list_tag_entry pelem;
     t \<leftarrow> rd_task pthread s;
     s \<leftarrow> (if scast (parent_pid t) = p then wr_task pthread (\<lambda>t. t\<lparr>parent_pid := 1\<rparr>) s else Some s);
     Some (False, s)
   }"

datatype wait_result = Child u16 u32 | No_child | Asleep intr_status

definition sys_wait_turn :: "'a task_state_scheme \<Rightarrow> (wait_result \<times> 'a task_state_scheme) option" where
  "sys_wait_turn s = do {
     pt \<leftarrow> rd_task (running_thread s) s;
     (child_elem, s) \<leftarrow> list_traversal (thread_all_list s) find_hanging_child (scast (pid pt)) s;
     if child_elem \<noteq> NULL then do {
       let child_thread = all_list_tag_entry child_elem;
       t \<leftarrow> rd_task child_thread s;
       s \<leftarrow> thread_exit child_thread False s;
       Some (Child (pid t) (scast (exit_status t)), s)
     } else do {
       (child_elem, s) \<leftarrow> list_traversal (thread_all_list s) find_child (scast (pid pt)) s;
       if child_elem = NULL then Some (No_child, s)
       else do {
         (old_status, s) \<leftarrow> thread_block TASK_WAITING s;
         Some (Asleep old_status, s)
       }
     }
   }"

definition sys_wait_resume :: "intr_status \<Rightarrow> 'a task_state_scheme \<Rightarrow> (wait_result \<times> 'a task_state_scheme) option" where
  "sys_wait_resume old_status s = sys_wait_turn (resume_intr old_status s)"

text \<open>The last part of \<open>sys_exit\<close>: the parent is woken if it waits, and the caller stays as a hanging task until the parent has
  taken its exit status.\<close>

definition exit_handover :: "addr \<Rightarrow> 'a kstate_scheme \<Rightarrow> 'a kstate_scheme option" where
  "exit_handover child_thread s = do {
     t \<leftarrow> rd_task child_thread s;
     (parent_thread, s) \<leftarrow> pid2thread (scast (parent_pid t)) s;
     pt \<leftarrow> rd_task parent_thread s;
     s \<leftarrow> (if status pt = TASK_WAITING then thread_unblock parent_thread s else Some s);
     (_, s) \<leftarrow> thread_block TASK_HANGING s;
     Some s
   }"

definition sys_exit :: "u32 \<Rightarrow> 'a fs_state_scheme \<Rightarrow> 'a fs_state_scheme option" where
  "sys_exit stat s = do {
     let child_thread = running_thread s;
     s \<leftarrow> wr_task child_thread (\<lambda>t. t\<lparr>exit_status := ucast stat\<rparr>) s;
     t \<leftarrow> rd_task child_thread s;
     _ \<leftarrow> ASSERT (parent_pid t \<noteq> - 1);
     (_, s) \<leftarrow> list_traversal (thread_all_list s) init_adopt_a_child (scast (pid t)) s;
     s \<leftarrow> release_prog_resource child_thread s;
     exit_handover child_thread s
   }"

subsection \<open>The list of all tasks\<close>

definition all_tasks :: "addr list \<Rightarrow> 'a kstate_scheme \<Rightarrow> bool" where
  "all_tasks ps s \<longleftrightarrow> dlist s (thread_all_list s) (map all_list_tag ps) \<and> NULL \<notin> set ps"

definition is_child :: "addr \<Rightarrow> u32 \<Rightarrow> 'a kstate_scheme \<Rightarrow> bool" where
  "is_child p ppid s \<longleftrightarrow> scast (parent_pid (tcb s p)) = ppid"

lemma find_all_list_tag:
  "find (\<lambda>x. P (all_list_tag_entry x)) (map all_list_tag ps) = map_option all_list_tag (find P ps)"
  by (induction ps) auto

text \<open>A callback that only looks at the task structures finds the first task it accepts.\<close>

lemma all_tasks_traversal:
  assumes "all_tasks ps s" "\<And>p. p \<noteq> NULL \<Longrightarrow> func (all_list_tag p) arg s = Some (P p, s)"
  shows "list_traversal (thread_all_list s) func arg s = Some (case find P ps of Some p \<Rightarrow> all_list_tag p | None \<Rightarrow> NULL, s)"
proof -
  have "func x arg s = Some (P (all_list_tag_entry x), s)" if "x \<in> set (map all_list_tag ps)" for x
  proof -
    obtain p where "x = all_list_tag p" "p \<in> set ps" using \<open>x \<in> _\<close> by auto
    moreover from this have "p \<noteq> NULL" using assms(1) by (auto simp: all_tasks_def)
    ultimately show ?thesis using assms(2) by simp
  qed
  then have "list_traversal (thread_all_list s) func arg s =
      Some (case find (\<lambda>x. P (all_list_tag_entry x)) (map all_list_tag ps) of Some x \<Rightarrow> x | None \<Rightarrow> NULL, s)"
    using assms(1) by (intro dlist_traversal) (auto simp: all_tasks_def)
  then show ?thesis unfolding find_all_list_tag by (simp add: option.case_eq_if option.map_sel)
qed

lemma all_tasks_tag: "all_tasks ps s \<Longrightarrow> p \<in> set ps \<Longrightarrow> all_list_tag p \<noteq> NULL"
  using dlist_suffix(3) [of s "thread_all_list s" "map all_list_tag ps"] by (auto simp: all_tasks_def image_iff)

lemma find_some_in: "find P xs = Some x \<Longrightarrow> x \<in> set xs \<and> P x"
  by (auto simp: find_Some_iff)

lemma traversal_child:
  assumes "all_tasks ps s"
  shows "list_traversal (thread_all_list s) find_hanging_child ppid s =
      Some (case find (\<lambda>p. is_child p ppid s \<and> status (tcb s p) = TASK_HANGING) ps of Some p \<Rightarrow> all_list_tag p | None \<Rightarrow> NULL, s)"
    "list_traversal (thread_all_list s) find_child ppid s =
      Some (case find (\<lambda>p. is_child p ppid s) ps of Some p \<Rightarrow> all_list_tag p | None \<Rightarrow> NULL, s)"
    "list_traversal (thread_all_list s) pid_check p s =
      Some (case find (\<lambda>q. scast (pid (tcb s q)) = p) ps of Some q \<Rightarrow> all_list_tag q | None \<Rightarrow> NULL, s)"
  by (rule all_tasks_traversal [OF assms]; simp add: find_hanging_child_def find_child_def pid_check_def is_child_def rd_task_def)+

lemma pid2thread_find:
  assumes "all_tasks ps s"
  shows "pid2thread p s = Some (case find (\<lambda>q. scast (pid (tcb s q)) = p) ps of Some q \<Rightarrow> q | None \<Rightarrow> NULL, s)"
  using all_tasks_tag [OF assms] find_some_in [of "\<lambda>q. scast (pid (tcb s q)) = p" ps]
  by (auto simp: pid2thread_def traversal_child [OF assms] split: option.splits)

lemma wait_turn_eq:
  assumes "all_tasks ps s" "running_thread s \<noteq> NULL"
    "child = (\<lambda>p. is_child p (scast (pid (tcb s (running_thread s)))) s)"
  shows "sys_wait_turn s =
    (if \<forall>p \<in> set ps. \<not> child p then Some (No_child, s)
     else case find (\<lambda>p. child p \<and> status (tcb s p) = TASK_HANGING) ps of
       Some c \<Rightarrow> map_option (\<lambda>s'. (Child (pid (tcb s c)) (scast (exit_status (tcb s c))), s')) (thread_exit c False s)
     | None \<Rightarrow> map_option (\<lambda>(i, s'). (Asleep i, s')) (thread_block TASK_WAITING s))"
proof -
  let ?hanging = "find (\<lambda>p. child p \<and> status (tcb s p) = TASK_HANGING) ps"
  let ?exit = "\<lambda>c. map_option (\<lambda>s'. (Child (pid (tcb s c)) (scast (exit_status (tcb s c))), s')) (thread_exit c False s)"
  let ?sleep = "map_option (\<lambda>(i, s'). (Asleep i, s')) (thread_block TASK_WAITING s)"
  have tag: "all_list_tag p \<noteq> NULL" "p \<noteq> NULL" if "p \<in> set ps" for p
    using all_tasks_tag [OF assms(1)] assms(1) that by (auto simp: all_tasks_def)
  let ?me = "scast (pid (tcb s (running_thread s))) :: u32"
  have ch: "child p = is_child p ?me s" for p by (simp add: assms(3))
  have hang: "list_traversal (thread_all_list s) find_hanging_child ?me s = Some (case ?hanging of Some p \<Rightarrow> all_list_tag p | None \<Rightarrow> NULL, s)"
    and kid: "list_traversal (thread_all_list s) find_child ?me s = Some (case find child ps of Some p \<Rightarrow> all_list_tag p | None \<Rightarrow> NULL, s)"
    unfolding ch traversal_child(1,2) [OF assms(1)] by (simp_all add: assms(3))
  have me: "rd_task p s = Some (tcb s p)" if "p \<noteq> NULL" for p using that by (simp add: rd_task_def)
  note step = sys_wait_turn_def me [OF assms(2)] bind.bind_lunit prod.case hang kid Let_def
  have "sys_wait_turn s = (case ?hanging of Some c \<Rightarrow> ?exit c | None \<Rightarrow> (case find child ps of None \<Rightarrow> Some (No_child, s) | Some _ \<Rightarrow> ?sleep))"
  proof (cases ?hanging)
    case None
    then show ?thesis
    proof (cases "find child ps")
      case (Some c)
      then have "c \<in> set ps" using find_some_in [OF Some] by simp
      then show ?thesis using tag unfolding step None Some by (cases "thread_block TASK_WAITING s") auto
    qed (simp add: step)
  next
    case (Some c)
    then have "c \<in> set ps" using find_some_in [OF Some] by simp
    then show ?thesis using tag me unfolding step Some by (cases "thread_exit c False s") simp_all
  qed
  moreover have "find child ps = None \<longleftrightarrow> (\<forall>p \<in> set ps. \<not> child p)" by (auto simp: find_None_iff)
  moreover have "?hanging = None" if "\<forall>p \<in> set ps. \<not> child p" using that by (auto simp: find_None_iff)
  ultimately show ?thesis by (auto split: option.splits)
qed

text \<open>\<open>sys_wait\<close> serves the right child. It looks at the tasks in the order of \<open>thread_all_list\<close>: a caller without children gets the
  error result and nothing changes; if a child is hanging, the first one is reaped by \<open>thread_exit\<close> and its pid and its sign-extended exit
  status are the result, both read before the task structure is given up; if there are children and none is hanging, the caller goes to sleep
  with status \<open>TASK_WAITING\<close>.\<close>

theorem wait_selects:
  assumes "all_tasks ps s" "running_thread s \<noteq> NULL"
    "child = (\<lambda>p. is_child p (scast (pid (tcb s (running_thread s)))) s)"
  shows "sys_wait_turn s =
    (if \<forall>p \<in> set ps. \<not> child p then Some (No_child, s)
     else case find (\<lambda>p. child p \<and> status (tcb s p) = TASK_HANGING) ps of
       Some c \<Rightarrow> map_option (\<lambda>s'. (Child (pid (tcb s c)) (scast (exit_status (tcb s c))), s')) (thread_exit c False s)
     | None \<Rightarrow> map_option (\<lambda>(i, s'). (Asleep i, s')) (thread_block TASK_WAITING s))"
  by (rule wait_turn_eq [OF assms])

subsection \<open>Adoption by init\<close>

definition adopted :: "addr set \<Rightarrow> u32 \<Rightarrow> 'a kstate_scheme \<Rightarrow> 'a kstate_scheme" where
  "adopted P ppid s = s\<lparr>tcb := \<lambda>q. if q \<in> P \<and> is_child q ppid s then (tcb s q)\<lparr>parent_pid := 1\<rparr> else tcb s q\<rparr>"

lemma adopted_empty [simp]: "adopted {} ppid s = s"
  by (simp add: adopted_def)

lemma init_adopt_a_child_adopted:
  assumes "q \<noteq> NULL" "q \<notin> P"
  shows "init_adopt_a_child (all_list_tag q) ppid (adopted P ppid s) = Some (False, adopted (insert q P) ppid s)"
proof (cases "is_child q ppid s")
  case True
  then have "(\<lambda>p. if p \<in> insert q P \<and> is_child p ppid s then (tcb s p)\<lparr>parent_pid := 1\<rparr> else tcb s p) =
      (\<lambda>p. if p \<in> P \<and> is_child p ppid s then (tcb s p)\<lparr>parent_pid := 1\<rparr> else tcb s p)(q := (tcb s q)\<lparr>parent_pid := 1\<rparr>)"
    by auto
  then show ?thesis using True assms by (simp add: init_adopt_a_child_def adopted_def rd_task_def wr_task_def is_child_def Let_def)
next
  case False
  then have "(\<lambda>p. if p \<in> insert q P \<and> is_child p ppid s then (tcb s p)\<lparr>parent_pid := 1\<rparr> else tcb s p) =
      (\<lambda>p. if p \<in> P \<and> is_child p ppid s then (tcb s p)\<lparr>parent_pid := 1\<rparr> else tcb s p)" by auto
  then show ?thesis using False assms unfolding adopted_def by (simp add: init_adopt_a_child_def rd_task_def is_child_def Let_def)
qed

lemma adopt_loop:
  assumes "linked s (map all_list_tag qs @ [t])" "t \<notin> set (map all_list_tag qs)" "NULL \<notin> set (map all_list_tag qs)" "NULL \<notin> set qs"
    "distinct qs" "set qs \<inter> P = {}"
  shows "list_traversal_loop t init_adopt_a_child ppid (hd (map all_list_tag qs @ [t])) (adopted P ppid s) =
    Some (NULL, adopted (P \<union> set qs) ppid s)"
  using assms
proof (induction qs arbitrary: P)
  case Nil
  then show ?case by (simp add: list_traversal_loop.simps)
next
  case (Cons q qs)
  then have n: "next_of s (all_list_tag q) = hd (map all_list_tag qs @ [t])" "linked s (map all_list_tag qs @ [t])"
    by (cases qs; simp)+
  have "list_traversal_loop t init_adopt_a_child ppid (hd (map all_list_tag qs @ [t])) (adopted (insert q P) ppid s) =
      Some (NULL, adopted (insert q P \<union> set qs) ppid s)"
    using Cons by (intro Cons.IH n(2)) auto
  then show ?case
    using Cons.prems n(1) init_adopt_a_child_adopted [of q P ppid s]
    by (subst list_traversal_loop.simps) (auto simp: rd_next_def adopted_def)
qed

text \<open>C14: the children of a process that ends get \<open>init\<close> as their parent. The traversal in \<open>sys_exit\<close> ends on every well-formed task list; it
  sets the parent of exactly the children of the process to 1, leaves every other field and task alone, and afterwards no task in the list
  names the process (whose pid is not 1) as its parent.\<close>

theorem exit_adopts_children:
  assumes "all_tasks ps s" "ppid \<noteq> 1"
  shows "\<exists>s'. list_traversal (thread_all_list s) init_adopt_a_child ppid s = Some (NULL, s') \<and>
    s' = s\<lparr>tcb := \<lambda>q. if q \<in> set ps \<and> is_child q ppid s then (tcb s q)\<lparr>parent_pid := 1\<rparr> else tcb s q\<rparr> \<and>
    (\<forall>q \<in> set ps. \<not> is_child q ppid s' \<and> is_child q 1 s' = (is_child q 1 s \<or> is_child q ppid s))"
proof -
  have d: "dlist s (thread_all_list s) (map all_list_tag ps)" and n: "NULL \<notin> set ps" and dist: "distinct ps"
    using assms(1) by (auto simp: all_tasks_def dlist_def nodes_def distinct_map)
  have "list_traversal_loop (list_tail (thread_all_list s)) init_adopt_a_child ppid (hd (map all_list_tag ps @ [list_tail (thread_all_list s)]))
      (adopted {} ppid s) = Some (NULL, adopted ({} \<union> set ps) ppid s)"
    by (rule adopt_loop [OF dlist_suffix [OF d] n dist]) simp
  then have "list_traversal (thread_all_list s) init_adopt_a_child ppid s = Some (NULL, adopted (set ps) ppid s)"
    using d by (auto simp: list_traversal_def dlist_head_next dlist_empty)
  then show ?thesis using assms(2) by (auto simp: adopted_def is_child_def)
qed

subsection \<open>The meeting of parent and child\<close>

text \<open>The links of the list of all tasks are none of those of the ready queue.\<close>

definition apart_lists :: "addr set \<Rightarrow> addr list \<Rightarrow> 'a kstate_scheme \<Rightarrow> bool" where
  "apart_lists T ps s \<longleftrightarrow> set (nodes (thread_all_list s) (map all_list_tag ps)) \<inter> tag_nodes s T = {}"

lemma all_tasks_keep:
  assumes "all_tasks ps s" "apart_lists T ps s" "same_env (s\<lparr>eflags := e\<rparr>) s'" "links_same (tag_nodes s Q) s s'" "Q \<subseteq> T"
  shows "all_tasks ps s' \<and> apart_lists T ps s'"
proof -
  have t: "thread_all_list s' = thread_all_list s" "tag_nodes s' T = tag_nodes s T"
    using assms(3) by (auto simp: same_env_def tag_nodes_def)
  have "set (nodes (thread_all_list s) (map all_list_tag ps)) \<inter> tag_nodes s Q = {}"
    using assms(2) tag_nodes_mono [OF assms(5), of s] by (auto simp: apart_lists_def)
  then have "dlist s' (thread_all_list s) (map all_list_tag ps)"
    using assms(1) by (intro dlist_links_same [OF _ assms(4)]) (auto simp: all_tasks_def)
  then show ?thesis using assms(1,2) t by (simp add: all_tasks_def apart_lists_def)
qed

lemma exit_handover_ok:
  assumes inv: "sched_inv pd T rl s" and run: "status (tcb s (running_thread s)) = TASK_RUNNING"
    and list: "all_tasks ps s" "apart_lists T ps s"
    and par: "find (\<lambda>q. scast (pid (tcb s q)) = (scast (parent_pid (tcb s (running_thread s))) :: u32)) ps = Some p"
      "p \<in> T" "status (tcb s p) = TASK_WAITING"
  shows "\<exists>s'. exit_handover (running_thread s) s = Some s' \<and> sched_inv pd T rl s' \<and> running_thread s' = p \<and>
    all_tasks ps s' \<and> (\<forall>q. kin (tcb s' q) = kin (tcb s q)) \<and>
    (\<forall>q. status (tcb s' q) = (if q = p then TASK_RUNNING else if q = running_thread s then TASK_HANGING else status (tcb s q))) \<and>
    same_env (s\<lparr>eflags := eflags s'\<rparr>) s' \<and> links_same (tag_nodes s T) s s'"
proof -
  let ?cur = "running_thread s"
  have ne: "?cur \<noteq> NULL" "p \<noteq> NULL" "?cur \<noteq> p" "?cur \<notin> set rl"
    using inv run par(2,3) by (auto simp: sched_inv_def tasks_ok_def)
  have rlT: "set rl \<subseteq> T" using inv by (simp add: sched_inv_def)
  obtain s1 where s1: "thread_unblock p s = Some s1" "sched_inv pd T (p # rl) s1"
      "tcb s1 = (tcb s)(p := (tcb s p)\<lparr>status := TASK_READY\<rparr>)" "same_env s s1" "same_cpu s s1"
      "links_same (tag_nodes s (insert p (set rl))) s s1"
    using thread_unblock_inv [OF inv par(2)] par(3) by (auto simp: is_blocked_def)
  have r1: "running_thread s1 = ?cur" using s1(5) by (simp add: same_cpu_def running_thread_def)
  have l1: "all_tasks ps s1 \<and> apart_lists T ps s1"
    using s1(4,6) par(2) rlT by (intro all_tasks_keep [OF list _ s1(6), of "eflags s"]) (auto simp: same_env_def)
  obtain s2 where s2: "thread_block TASK_HANGING s1 = Some (intr_get_status s1, s2)" "sched_inv pd T rl s2" "running_thread s2 = p"
      "\<forall>q. kin (tcb s2 q) = kin (tcb s1 q)"
      "\<forall>q. status (tcb s2 q) = (if q = p then TASK_RUNNING else if q = ?cur then TASK_HANGING else status (tcb s1 q))"
      "same_env (s1\<lparr>eflags := eflags s1 AND NOT EFLAGS_IF\<rparr>) s2" "links_same (tag_nodes s1 (set (p # rl))) s1 s2"
    using thread_block_inv [OF s1(2), of TASK_HANGING p] ne r1 by (auto simp: is_blocked_def)
  have "all_tasks ps s2"
    using l1 par(2) rlT all_tasks_keep [OF _ _ s2(6,7), of ps T] by simp
  moreover have "exit_handover ?cur s = Some s2"
    using ne par s1(1) s2(1) by (simp add: exit_handover_def rd_task_def pid2thread_find [OF list(1)])
  moreover have "\<forall>q. kin (tcb s2 q) = kin (tcb s q)" using s2(4) s1(3) by simp
  moreover have "\<forall>q. status (tcb s2 q) = (if q = p then TASK_RUNNING else if q = ?cur then TASK_HANGING else status (tcb s q))"
    using s2(5) s1(3) by simp
  moreover have "same_env (s\<lparr>eflags := eflags s2\<rparr>) s2" using s1(4) s2(6) by (simp add: same_env_def)
  moreover have "links_same (tag_nodes s T) s s2"
  proof (rule links_same_mono [OF links_same_trans [OF s1(6) s2(7)]])
    have "tag_nodes s1 Q = tag_nodes s Q" for Q using s1(4) by (simp add: same_env_def tag_nodes_def)
    then show "tag_nodes s (insert p (set rl)) \<union> tag_nodes s1 (set (p # rl)) \<subseteq> tag_nodes s T"
      using par(2) rlT tag_nodes_mono [of "insert p (set rl)" T s] by simp
  qed
  ultimately show ?thesis using s2(2,3) by blast
qed

subsection \<open>Reaping a child\<close>

text \<open>The task structure of a child and its page directory, if it has one, are pages of the kernel.\<close>

definition child_pages :: "addr \<Rightarrow> 'a task_state_scheme \<Rightarrow> bool" where
  "child_pages c s \<longleftrightarrow> mem_inv s \<and> owned_page PF_KERNEL c s \<and> main_thread s \<noteq> c \<and>
     (pgdir (tcb s c) \<noteq> NULL \<longrightarrow> pgdir (tcb s c) \<noteq> c \<and> owned_page PF_KERNEL (pgdir (tcb s c)) s)"

lemma kstate_more_fields:
  fixes s s' :: "'a task_state_scheme"
  assumes "kstate.more s' = kstate.more s"
  shows "kernel_pool s' = kernel_pool s" "user_pool s' = user_pool s" "kernel_vaddr s' = kernel_vaddr s" "pid_bitmap s' = pid_bitmap s"
    "pid_start s' = pid_start s" "pid_lock s' = pid_lock s" "sema_value s' = sema_value s" "lock_holder s' = lock_holder s"
    "lock_repeat s' = lock_repeat s"
  using assms by (cases s; cases s'; simp)+

lemma mem_more_fields:
  fixes s s' :: "'a task_state_scheme"
  assumes "mem_state.more s' = mem_state.more s"
  shows "pid_bitmap s' = pid_bitmap s" "pid_start s' = pid_start s" "pid_lock s' = pid_lock s"
  using assms by (cases s; cases s'; simp)+

text \<open>The pool of identifiers does not notice that nodes of other lists move.\<close>

lemma pid_pool_keep:
  assumes "pid_pool_ok s" "links_same S s s'" "list_head (lock_waiters (pid_lock s)) \<notin> S" "running_thread s' \<noteq> NULL"
    "pid_bitmap s' = pid_bitmap s" "pid_start s' = pid_start s" "pid_lock s' = pid_lock s" "sema_value s' = sema_value s"
    "lock_holder s' = lock_holder s" "lock_repeat s' = lock_repeat s"
  shows "pid_pool_ok s'"
proof -
  have "next_of s' (list_head (lock_waiters (pid_lock s))) = next_of s (list_head (lock_waiters (pid_lock s)))"
    using assms(2,3) by (simp add: links_same_def)
  then have "list_empty (lock_waiters (pid_lock s)) s' = list_empty (lock_waiters (pid_lock s)) s"
    by (simp add: list_empty_def rd_next_def)
  then show ?thesis using assms(1,4-) by (simp add: pid_pool_ok_def lock_idle_def lock_free_def)
qed

lemma remove1_all_list_tag: "remove1 (all_list_tag c) (map all_list_tag ps) = map all_list_tag (remove1 c ps)"
  by (induction ps) auto

lemma thread_reap_ok:
  fixes s :: "'a task_state_scheme"
  assumes ready: "dlist s (thread_ready_list s) (map general_tag rl)" "c \<notin> set rl" "c \<noteq> NULL"
    and tasks: "dlist s (thread_all_list s) (map all_list_tag ps)" "c \<in> set ps"
    and mem: "mem_inv s" "owned_page PF_KERNEL c s" "main_thread s \<noteq> c"
      "pgdir (tcb s c) \<noteq> NULL \<Longrightarrow> pgdir (tcb s c) \<noteq> c \<and> owned_page PF_KERNEL (pgdir (tcb s c)) s"
    and pids: "pid_pool_ok s" "list_head (lock_waiters (pid_lock s)) \<notin> set (nodes (thread_all_list s) (map all_list_tag ps))"
      "pid (tcb s c) = of_nat (j + 1)" "j < 1024"
  shows "\<exists>s'. thread_reap c s = Some s' \<and> thread_all_list s' = thread_all_list s \<and>
    dlist s' (thread_all_list s) (map all_list_tag (remove1 c ps)) \<and> mem_inv s' \<and> xlat s' c = None \<and>
    bm_bit (pid_bitmap s') = (bm_bit (pid_bitmap s))(j := False)"
proof -
  let ?S = "set (nodes (thread_all_list s) (map all_list_tag ps))"
  let ?s1 = "(snd (intr_disable s))\<lparr>tcb := (tcb s)(c := (tcb s c)\<lparr>status := TASK_DIED\<rparr>)\<rparr>"
  have f1: "pmem ?s1 = pmem s" "cr3 ?s1 = cr3 s" "kernel_pool ?s1 = kernel_pool s" "user_pool ?s1 = user_pool s"
      "vaddr_pool PF_KERNEL ?s1 = vaddr_pool PF_KERNEL s" "next_of ?s1 = next_of s" "prev_of ?s1 = prev_of s"
      "mem_state.more ?s1 = mem_state.more s" "esp ?s1 = esp s" "main_thread ?s1 = main_thread s"
      "thread_all_list ?s1 = thread_all_list s" "thread_ready_list ?s1 = thread_ready_list s" "sema_value ?s1 = sema_value s"
      "lock_holder ?s1 = lock_holder s" "lock_repeat ?s1 = lock_repeat s" "tcb (snd (intr_disable s)) = tcb s"
    by (simp_all add: intr_disable_def cli_def vaddr_pool_def)
  have m1: "mem_inv ?s1" "owned_page PF_KERNEL v ?s1 = owned_page PF_KERNEL v s" for v
    using mem_cong [OF f1(1-4)] f1(5) mem(1) by blast+
  have find: "elem_find (thread_ready_list ?s1) (general_tag c) ?s1 = Some False"
    using dlist_elem_find [of ?s1 "thread_ready_list s" "map general_tag rl" "general_tag c"] ready(1,2) dlist_cong [of ?s1 s] f1(6,7,12) by auto
  obtain s2 where s2: "(if pgdir (tcb s c) \<noteq> NULL then mfree_page PF_KERNEL (pgdir (tcb s c)) 1 ?s1 else Some ?s1) = Some s2"
      "mem_inv s2" "owned_page PF_KERNEL c s2" "next_of s2 = next_of s" "prev_of s2 = prev_of s" "tcb s2 = tcb ?s1"
      "mem_state.more s2 = mem_state.more s" "esp s2 = esp s" "main_thread s2 = main_thread s" "thread_all_list s2 = thread_all_list s"
      "sema_value s2 = sema_value s" "lock_holder s2 = lock_holder s" "lock_repeat s2 = lock_repeat s"
  proof (cases "pgdir (tcb s c) = NULL")
    case True
    then show ?thesis using that [of ?s1] m1 mem(2) f1 by simp
  next
    case False
    obtain s2 where "mfree_page PF_KERNEL (pgdir (tcb s c)) 1 ?s1 = Some s2" and fr: "page_freed PF_KERNEL (pgdir (tcb s c)) ?s1 s2"
      using mfree_owned [OF m1(1)] m1(2) mem(4) False by blast
    moreover have "mem_inv s2" "owned_page PF_KERNEL c s2" using fr m1(2) mem(2,4) False by (auto simp: page_freed_def)
    ultimately show ?thesis using that [of s2] False page_freedD [OF fr] f1 by simp
  qed
  obtain s3 where s3: "list_remove (all_list_tag c) s2 = Some s3" "dlist s3 (thread_all_list s) (remove1 (all_list_tag c) (map all_list_tag ps))"
      "only_links ?S s2 s3"
    using dlist_remove [of s2 "thread_all_list s" "map all_list_tag ps" "all_list_tag c"] tasks dlist_cong [of s2 s] s2(4,5) by auto
  obtain nx pv where e3: "s3 = s2\<lparr>next_of := nx, prev_of := pv\<rparr>" using only_links_update [OF s3(3)] by blast
  have m3: "mem_inv s3" "owned_page PF_KERNEL c s3"
    using mem_cong [of s3 s2] s2(2,3) by (simp_all add: e3 vaddr_pool_def)
  obtain s4 where s4: "mfree_page PF_KERNEL c 1 s3 = Some s4" and fr: "page_freed PF_KERNEL c s3 s4"
    using mfree_owned [OF m3] by blast
  note d = page_freedD [OF fr]
  have more: "mem_state.more s4 = mem_state.more s" using d(10) s2(7) by (simp add: e3)
  have "links_same ?S s s4" using only_links_same [OF s3(3)] s2(4,5) d(1,2) by (simp add: links_same_def)
  then have "pid_pool_ok s4"
    using pids(1,2) d(4,11-13) s2(8,11-13) mem_more_fields [OF more]
    by (intro pid_pool_keep [of s ?S s4]) (simp_all add: e3 running_thread_def pid_pool_ok_def)
  then obtain b where b: "release_pid (of_nat (j + 1)) s4 = Some (s4\<lparr>pid_bitmap := b\<rparr>)" "bm_bit b = (bm_bit (pid_bitmap s4))(j := False)"
    using release_pid_ok [of s4 j] pids(4) by blast
  have t: "tcb s4 = (tcb s)(c := (tcb s c)\<lparr>status := TASK_DIED\<rparr>)" using d(3) s2(6) by (simp add: e3)
  have "thread_reap c s = do {
      s \<leftarrow> (if pgdir (tcb s c) \<noteq> NULL then mfree_page PF_KERNEL (pgdir (tcb s c)) 1 ?s1 else Some ?s1);
      s \<leftarrow> list_remove (all_list_tag c) s;
      s \<leftarrow> (if c \<noteq> main_thread s then mfree_page PF_KERNEL c 1 s else Some s);
      t \<leftarrow> rd_task c s;
      release_pid (pid t) s }"
    using ready(3) find f1(12,16) by (simp add: thread_reap_def wr_task_def rd_task_def Let_def)
  then have "thread_reap c s = Some (s4\<lparr>pid_bitmap := b\<rparr>)"
    unfolding s2(1) using ready(3) s3(1) s4 b(1) pids(3) t s2(9) mem(3) by (simp add: rd_task_def e3)
  moreover have "dlist (s4\<lparr>pid_bitmap := b\<rparr>) (thread_all_list s) (map all_list_tag (remove1 c ps))"
    using s3(2) dlist_cong [of "s4\<lparr>pid_bitmap := b\<rparr>" s3] d(1,2) by (simp add: remove1_all_list_tag)
  moreover have "mem_inv (s4\<lparr>pid_bitmap := b\<rparr>)" using mem_cong(1) [of "s4\<lparr>pid_bitmap := b\<rparr>" s4] fr by (simp add: page_freed_def)
  moreover have "xlat s4 c = None"
    using fr m3(2) by (simp add: page_freed_def owned_page_def page_range_def)
  moreover have "thread_all_list s4 = thread_all_list s" using d(7) s2(10) by (simp add: e3)
  ultimately show ?thesis using b(2) mem_more_fields(1) [OF more] by auto
qed

lemma wait_takes_child:
  fixes s :: "'a task_state_scheme"
  assumes tasks: "all_tasks ps s" "c \<in> set ps" and run: "running_thread s \<noteq> NULL"
    and hang: "\<And>q. q \<in> set ps \<Longrightarrow> is_child q (scast (pid (tcb s (running_thread s)))) s \<and> status (tcb s q) = TASK_HANGING \<longleftrightarrow> q = c"
    and ready: "ready_queue s rl" "c \<notin> set rl" and pages: "child_pages c s"
    and pids: "pid_pool_ok s" "list_head (lock_waiters (pid_lock s)) \<notin> set (nodes (thread_all_list s) (map all_list_tag ps))"
      "pid (tcb s c) = of_nat (j + 1)" "j < 1024"
  shows "\<exists>s'. sys_wait_turn s = Some (Child (pid (tcb s c)) (scast (exit_status (tcb s c))), s') \<and> all_tasks (remove1 c ps) s' \<and>
    mem_inv s' \<and> xlat s' c = None \<and> bm_bit (pid_bitmap s') = (bm_bit (pid_bitmap s))(j := False)"
proof -
  have dl: "dlist s (thread_all_list s) (map all_list_tag ps)" "c \<noteq> NULL" using tasks by (auto simp: all_tasks_def)
  obtain s' where s': "thread_reap c s = Some s'" "thread_all_list s' = thread_all_list s"
      "dlist s' (thread_all_list s) (map all_list_tag (remove1 c ps))" "mem_inv s'" "xlat s' c = None"
      "bm_bit (pid_bitmap s') = (bm_bit (pid_bitmap s))(j := False)"
    using thread_reap_ok [OF _ ready(2) dl(2,1) tasks(2) _ _ _ _ pids] ready(1) pages by (auto simp: child_pages_def ready_queue_def)
  have "find (\<lambda>q. is_child q (scast (pid (tcb s (running_thread s)))) s \<and> status (tcb s q) = TASK_HANGING) ps = find (\<lambda>q. q = c) ps"
    by (rule find_cong) (use hang in auto)
  also have "\<dots> = Some c" using tasks(2) by (induction ps) auto
  finally have "sys_wait_turn s = map_option (\<lambda>s'. (Child (pid (tcb s c)) (scast (exit_status (tcb s c))), s')) (thread_exit c False s)"
    using wait_turn_eq [OF tasks(1) run refl] hang [OF tasks(2)] tasks(2) by auto
  moreover have "all_tasks (remove1 c ps) s'"
    using s'(2,3) tasks(1) set_remove1_subset [of c ps] by (auto simp: all_tasks_def)
  ultimately show ?thesis using s' by (simp add: thread_exit_def)
qed


subsection \<open>Witnesses\<close>

text \<open>Main (pid 1) sleeps in \<open>sys_wait\<close>; its child at \<open>0xc0101000\<close> (pid 2) runs and is about to end with status -3; the child of the
  child (pid 3) has ended with status 7 and was not waited for.\<close>

definition demo_exit :: task_state where
  "demo_exit = Task.demo_task\<lparr>eflags := 0x2,
     prev_of := (\<lambda>_. 0)(0xc0009008 := 0xc0009000, 0xc009e04c := 0xc0009100, 0xc010104c := 0xc009e04c, 0xc010204c := 0xc010104c,
       0xc0009108 := 0xc010204c),
     next_of := (\<lambda>_. 0)(0xc0009000 := 0xc0009008, 0xc0009100 := 0xc009e04c, 0xc009e04c := 0xc010104c, 0xc010104c := 0xc010204c,
       0xc010204c := 0xc0009108),
     pmem := boot_pm, cr3 := 0x100000, esp := 0xc0101800,
     tcb := (\<lambda>a. Thread.demo_task a TASK_BLOCKED)
       (0xc009e000 := Thread.demo_task 0xc009e000 TASK_WAITING,
        0xc0101000 := (Thread.demo_task 0xc0101000 TASK_RUNNING)\<lparr>pid := 2, parent_pid := 1, exit_status := - 3\<rparr>,
        0xc0102000 := (Thread.demo_task 0xc0102000 TASK_HANGING)\<lparr>pid := 3, parent_pid := 2, exit_status := 7\<rparr>),
     idle_thread := 0xc0100000, thread_ready_list := 0xc0009000, thread_all_list := 0xc0009100\<rparr>"

lemma demo_exit_inv:
  "sched_inv (\<lambda>_. 0x100000) {0xc009e000, 0xc0100000, 0xc0101000} [] demo_exit"
  "all_tasks [0xc009e000, 0xc0101000, 0xc0102000] demo_exit"
  "apart_lists {0xc009e000, 0xc0100000, 0xc0101000} [0xc009e000, 0xc0101000, 0xc0102000] demo_exit"
  by (simp_all add: demo_exit_def demo_defs is_blocked_def all_tasks_def apart_lists_def tag_nodes_def all_list_tag_def)

lemma demo_exit_sim: "running_thread demo_exit = 0xc0101000" "tcb demo_exit 0xc0101000 = (Thread.demo_task 0xc0101000 TASK_RUNNING)\<lparr>pid := 2, parent_pid := 1, exit_status := - 3\<rparr>"
  "tcb demo_exit 0xc009e000 = Thread.demo_task 0xc009e000 TASK_WAITING"
  "tcb demo_exit 0xc0102000 = (Thread.demo_task 0xc0102000 TASK_HANGING)\<lparr>pid := 3, parent_pid := 2, exit_status := 7\<rparr>"
  by (simp_all add: demo_exit_def running_thread_def)

theorem wait_selects_witness:
  "sys_wait_turn demo_exit = map_option (\<lambda>s'. (Child 3 7, s')) (thread_exit 0xc0102000 False demo_exit)"
  using wait_selects [OF demo_exit_inv(2) _ refl] by (simp add: demo_exit_sim is_child_def Thread.demo_task_def)

text \<open>Main (pid 1) sleeps in \<open>sys_wait\<close>; its child (pid 2), a process whose task structure and page directory are the two pages of the kernel
  heap, runs and is about to end with status -3.\<close>

definition reap_pm :: "u32 \<Rightarrow> u32" where
  "reap_pm = heap_pm(0x201c00 := 0x101007, 0x201ffc := 0x201007)"

definition demo_reap :: task_state where
  "demo_reap = Task.demo_task\<lparr>eflags := 0x2,
     prev_of := (\<lambda>_. 0)(0xc0009008 := 0xc0009000, 0xc009e04c := 0xc0009100, 0xc010004c := 0xc009e04c, 0xc0009108 := 0xc010004c),
     next_of := (\<lambda>_. 0)(0xc0009000 := 0xc0009008, 0xc0009100 := 0xc009e04c, 0xc009e04c := 0xc010004c, 0xc010004c := 0xc0009108,
       list_head (lock_waiters 0xc000a000) := list_tail (lock_waiters 0xc000a000)),
     pmem := reap_pm, cr3 := 0x201000, esp := 0xc0100800,
     kernel_pool := kernel_pool demo_heap, kernel_vaddr := kernel_vaddr demo_heap,
     tcb := (\<lambda>a. Thread.demo_task a TASK_BLOCKED)
       (0xc009e000 := Thread.demo_task 0xc009e000 TASK_WAITING,
        0xc0100000 := (Thread.demo_task 0xc0100000 TASK_RUNNING)\<lparr>pid := 2, parent_pid := 1, exit_status := - 3, pgdir := 0xc0101000\<rparr>),
     main_thread := 0xc009e000, idle_thread := 0xc009f000, thread_ready_list := 0xc0009000, thread_all_list := 0xc0009100\<rparr>"

lemma demo_reap_pages: "child_pages 0xc0100000 (demo_reap\<lparr>cr3 := 0x100000\<rparr>)"
proof -
  let ?h = "demo_heap\<lparr>pmem := reap_pm\<rparr>" and ?s = "demo_reap\<lparr>cr3 := 0x100000\<rparr>"
  have x: "xlat demo_heap 0xc0101000 = Some 0x201000"
    by (simp add: demo_heap_fields heap_pm_def mmu_def pde_at_def pte_at_def PDE_IDX_def PTE_IDX_def boot_pm_def boot_pde_def
        present_def page_of_def PG_P_1_def)
  have "pm' a = pmem demo_heap a" if "page_of a \<noteq> 0x201000" "pm' = reap_pm" for a pm'
    using that by (auto simp: reap_pm_def demo_heap_fields page_of_def)
  then have d: "mem_inv ?h" "xlat ?h w = xlat demo_heap w" for w
    using mem_inv_data [OF demo_heap_inv owned_fresh [OF demo_heap_inv demo_heap_owned(2) x], of reap_pm] by blast+
  have o: "owned_page PF_KERNEL v ?h = owned_page PF_KERNEL v demo_heap" for v
    unfolding owned_page_def d(2) by (simp add: va_bits_def)
  have f: "pmem ?s = pmem ?h" "cr3 ?s = cr3 ?h" "kernel_pool ?s = kernel_pool ?h" "user_pool ?s = user_pool ?h" "vaddr_pool PF_KERNEL ?s = vaddr_pool PF_KERNEL ?h"
    by (simp_all add: demo_reap_def Task.demo_task_def mem_state.defs task_state.defs demo_heap_fields vaddr_pool_def demo_heap_def)
  have m: "mem_inv ?s" "owned_page PF_KERNEL v ?s = owned_page PF_KERNEL v demo_heap" for v
    using mem_cong [OF f(1-4)] f(5) d(1) o by blast+
  show ?thesis
    unfolding child_pages_def m(2) using m(1) demo_heap_owned by (simp add: demo_reap_def)
qed

lemma demo_reap_inv:
  "sched_inv ((\<lambda>_. 0x100000)(0xc0100000 := 0x201000)) {0xc009e000, 0xc009f000, 0xc0100000} [] demo_reap"
  "all_tasks [0xc009e000, 0xc0100000] demo_reap"
  "apart_lists {0xc009e000, 0xc009f000, 0xc0100000} [0xc009e000, 0xc0100000] demo_reap"
  "pid_pool_ok demo_reap" "pid_lock demo_reap = 0xc000a000"
proof -
  note d = demo_reap_def demo_defs is_blocked_def all_tasks_def apart_lists_def tag_nodes_def all_list_tag_def list_head_def list_tail_def
    sema_waiters_def lock_sema_def
  have w: "reap_pm 0x100c00 = 0x101007" "reap_pm 0x100ffc = 0x100007" "reap_pm 0x101404 = 0x201007" "reap_pm 0x201c00 = 0x101007"
    "reap_pm 0x201ffc = 0x201007"
    by (simp_all add: reap_pm_def heap_pm_def boot_pm_def boot_pde_def)
  note a = addr_v2p_def load32_def mmu_def pde_at_def pte_at_def pte_ptr_def PDE_IDX_def PTE_IDX_def present_def page_of_def PG_P_1_def
  have p: "pmem (demo_reap\<lparr>cr3 := c\<rparr>) = reap_pm" for c by (simp add: demo_reap_def)
  have "addr_v2p 0xc0101000 (demo_reap\<lparr>cr3 := 0x100000\<rparr>) = Some 0x201000" "addr_v2p 0xc0101000 (demo_reap\<lparr>cr3 := 0x201000\<rparr>) = Some 0x201000"
    by (simp_all add: a p w)
  then have v: "addr_v2p 0xc0101000 (demo_reap\<lparr>cr3 := c\<rparr>) = Some 0x201000" if "c = 0x100000 \<or> c = 0x201000" for c
    using that by blast
  show "sched_inv ((\<lambda>_. 0x100000)(0xc0100000 := 0x201000)) {0xc009e000, 0xc009f000, 0xc0100000} [] demo_reap"
    using v by (simp add: d)
  show "all_tasks [0xc009e000, 0xc0100000] demo_reap"
    "apart_lists {0xc009e000, 0xc009f000, 0xc0100000} [0xc009e000, 0xc0100000] demo_reap" by (simp_all add: d)
  show "pid_pool_ok demo_reap" "pid_lock demo_reap = 0xc000a000"
    by (simp_all add: demo_reap_def pid_pool_ok_def Task.demo_task_def mem_state.defs task_state.defs bm_wf_def bm_size_def lock_idle_def
        lock_free_def list_empty_def rd_next_def running_thread_def list_head_def sema_waiters_def lock_sema_def)
qed

lemma demo_reap_sim: "running_thread demo_reap = 0xc0100000"
  "tcb demo_reap 0xc0100000 = (Thread.demo_task 0xc0100000 TASK_RUNNING)\<lparr>pid := 2, parent_pid := 1, exit_status := - 3, pgdir := 0xc0101000\<rparr>"
  "tcb demo_reap 0xc009e000 = Thread.demo_task 0xc009e000 TASK_WAITING"
  by (simp_all add: demo_reap_def running_thread_def)


theorem exit_adopts_children_witness:
  "\<exists>s'. list_traversal (thread_all_list demo_exit) init_adopt_a_child 2 demo_exit = Some (NULL, s') \<and>
    s' = demo_exit\<lparr>tcb := \<lambda>q. if q \<in> set [0xc009e000, 0xc0101000, 0xc0102000] \<and> is_child q 2 demo_exit
      then (tcb demo_exit q)\<lparr>parent_pid := 1\<rparr> else tcb demo_exit q\<rparr> \<and>
    (\<forall>q \<in> set [0xc009e000, 0xc0101000, 0xc0102000]. \<not> is_child q 2 s' \<and> is_child q 1 s' = (is_child q 1 demo_exit \<or> is_child q 2 demo_exit))"
  by (rule exit_adopts_children [OF demo_exit_inv(2)]) simp

end
