(* ===== verification/Exec.thy ===== *)
theory Exec
  imports Wait_Exit
begin

text \<open>
  Loading a program, \<^verbatim>\<open>userprog/exec.c\<close>. The bytes a segment is loaded from are stored in the user's memory through the memory
  management unit, a byte at a time inside its word; the headers of the file are read into local variables. \<open>sys_execv\<close> ends with a jump to
  \<open>intr_exit\<close> on the rewritten frame of saved registers.
\<close>

unbundle bit_operations_syntax

definition set_byte :: "nat \<Rightarrow> u8 \<Rightarrow> u32 \<Rightarrow> u32" where
  "set_byte k b w = (w AND NOT (push_bit (8 * k) 0xff)) OR push_bit (8 * k) (ucast b)"

definition store8 :: "addr \<Rightarrow> u8 \<Rightarrow> 'a pg_state_scheme \<Rightarrow> 'a pg_state_scheme option" where
  "store8 v b s = do {
     w \<leftarrow> load32 (v AND NOT 3) s;
     store32 (v AND NOT 3) (set_byte (unat (v AND 3)) b w) s
   }"

primrec store_bytes :: "addr \<Rightarrow> u8 list \<Rightarrow> 'a pg_state_scheme \<Rightarrow> 'a pg_state_scheme option" where
  "store_bytes v [] s = Some s"
| "store_bytes v (b # bs) s = do { s \<leftarrow> store8 v b s; store_bytes (v + 1) bs s }"

definition le16 :: "u8 list \<Rightarrow> nat \<Rightarrow> u16" where
  "le16 xs i = ucast (xs ! i) OR push_bit 8 (ucast (xs ! (i + 1)))"

record Elf32_Ehdr =
  e_ident :: "u8 list"
  e_type :: u16
  e_machine :: u16
  e_version :: u32
  e_entry :: u32
  e_phoff :: u32
  e_shoff :: u32
  e_flags :: u32
  e_ehsize :: u16
  e_phentsize :: u16
  e_phnum :: u16
  e_shentsize :: u16
  e_shnum :: u16
  e_shstrndx :: u16

record Elf32_Phdr =
  p_type :: u32
  p_offset :: u32
  p_vaddr :: u32
  p_paddr :: u32
  p_filesz :: u32
  p_memsz :: u32
  p_flags :: u32
  p_align :: u32

definition PT_LOAD :: u32 where "PT_LOAD = 1"
definition O_RDONLY :: u8 where "O_RDONLY = 0"

text \<open>The structures as the bytes of the file fill them.\<close>

definition ehdr_of :: "u8 list \<Rightarrow> Elf32_Ehdr" where
  "ehdr_of xs = \<lparr>e_ident = take 16 xs, e_type = le16 xs 16, e_machine = le16 xs 18, e_version = le32 xs 20, e_entry = le32 xs 24,
     e_phoff = le32 xs 28, e_shoff = le32 xs 32, e_flags = le32 xs 36, e_ehsize = le16 xs 40, e_phentsize = le16 xs 42,
     e_phnum = le16 xs 44, e_shentsize = le16 xs 46, e_shnum = le16 xs 48, e_shstrndx = le16 xs 50\<rparr>"

definition phdr_of :: "u8 list \<Rightarrow> Elf32_Phdr" where
  "phdr_of xs = \<lparr>p_type = le32 xs 0, p_offset = le32 xs 4, p_vaddr = le32 xs 8, p_paddr = le32 xs 12, p_filesz = le32 xs 16,
     p_memsz = le32 xs 20, p_flags = le32 xs 24, p_align = le32 xs 28\<rparr>"

definition occupy_pages :: "u32 \<Rightarrow> u32 \<Rightarrow> u32" where
  "occupy_pages filesz vaddr =
     (let size_in_first_page = PG_SIZE - (vaddr AND 0x00000fff)
      in if filesz > size_in_first_page then DIV_ROUND_UP (filesz - size_in_first_page) PG_SIZE + 1 else 1)"

text \<open>Pages that the old program of the process has are used again.\<close>

primrec load_pages :: "nat \<Rightarrow> addr \<Rightarrow> 'a mem_state_scheme \<Rightarrow> (bool \<times> 'a mem_state_scheme) option" where
  "load_pages 0 vaddr_page s = Some (True, s)"
| "load_pages (Suc n) vaddr_page s = do {
     pde \<leftarrow> load32 (pde_ptr vaddr_page) s;
     missing \<leftarrow> (if pde AND 1 = 0 then Some True else do { pte \<leftarrow> load32 (pte_ptr vaddr_page) s; Some (pte AND 1 = 0) });
     (p, s) \<leftarrow> (if missing then get_a_page PF_USER vaddr_page s else Some (vaddr_page, s));
     if missing \<and> p = NULL then Some (False, s) else load_pages n (vaddr_page + PG_SIZE) s
   }"

definition segment_load :: "u32 \<Rightarrow> u32 \<Rightarrow> u32 \<Rightarrow> u32 \<Rightarrow> 'a fs_state_scheme \<Rightarrow> (bool \<times> 'a fs_state_scheme) option" where
  "segment_load fd offset filesz vaddr s = do {
     (ok, s) \<leftarrow> load_pages (unat (occupy_pages filesz vaddr)) (vaddr AND 0xfffff000) s;
     if \<not> ok then Some (False, s)
     else do {
       (_, s) \<leftarrow> sys_lseek fd offset SEEK_SET s;
       (_, bs, s) \<leftarrow> sys_read fd filesz s;
       s \<leftarrow> store_bytes vaddr bs s;
       Some (True, s)
     }
   }"

definition bad_elf :: "Elf32_Ehdr \<Rightarrow> bool" where
  "bad_elf h \<longleftrightarrow> take 7 (e_ident h) \<noteq> [0x7f, 0x45, 0x4c, 0x46, 1, 1, 1] \<or> e_type h \<noteq> 2 \<or> e_machine h \<noteq> 3 \<or> e_version h \<noteq> 1 \<or>
     e_phnum h > 1024 \<or> e_phentsize h \<noteq> 32"

text \<open>The bytes of a short read do not matter: the header is looked at only when all of them were read.\<close>

primrec load_segments :: "nat \<Rightarrow> u32 \<Rightarrow> u32 \<Rightarrow> u16 \<Rightarrow> 'a fs_state_scheme \<Rightarrow> (bool \<times> 'a fs_state_scheme) option" where
  "load_segments 0 fd off phsize s = Some (True, s)"
| "load_segments (Suc n) fd off phsize s = do {
     (_, s) \<leftarrow> sys_lseek fd off SEEK_SET s;
     (r, bs, s) \<leftarrow> sys_read fd (ucast phsize) s;
     if r \<noteq> ucast phsize then Some (False, s)
     else do {
       let prog_header = phdr_of bs;
       (ok, s) \<leftarrow> (if PT_LOAD = p_type prog_header
         then segment_load fd (p_offset prog_header) (p_filesz prog_header) (p_vaddr prog_header) s
         else Some (True, s));
       if \<not> ok then Some (False, s) else load_segments n fd (off + ucast phsize) phsize s
     }
   }"

definition load :: "dir_entry \<Rightarrow> u8 list \<Rightarrow> u8 list \<Rightarrow> 'a fs_state_scheme \<Rightarrow> (u32 \<times> 'a fs_state_scheme) option" where
  "load dir_e garbage pathname s = do {
     (fd, s) \<leftarrow> sys_open dir_e garbage pathname O_RDONLY s;
     if fd = - 1 then Some (- 1, s)
     else do {
       (r, bs, s) \<leftarrow> sys_read fd 52 s;
       (ret, s) \<leftarrow> (if r \<noteq> 52 then Some (- 1, s)
         else let elf_header = ehdr_of bs
           in if bad_elf elf_header then Some (- 1, s)
             else do {
               (ok, s) \<leftarrow> load_segments (unat (e_phnum elf_header)) fd (e_phoff elf_header) (e_phentsize elf_header) s;
               Some (if ok then e_entry elf_header else - 1, s)
             });
       (_, s) \<leftarrow> sys_close fd s;
       Some (ret, s)
     }
   }"

text \<open>The length of the argument array, up to its null pointer.\<close>

partial_function (option) count_args :: "addr \<Rightarrow> u32 \<Rightarrow> 'a pg_state_scheme \<Rightarrow> u32 option" where
  "count_args argv argc s = do {
     p \<leftarrow> load32 (argv + 4 * argc) s;
     if p \<noteq> 0 then count_args argv (argc + 1) s else Some argc
   }"

definition sys_execv :: "dir_entry \<Rightarrow> u8 list \<Rightarrow> u8 list \<Rightarrow> addr \<Rightarrow> 'a fs_state_scheme \<Rightarrow> (u32 \<times> 'a fs_state_scheme) option" where
  "sys_execv dir_e garbage path argv s = do {
     argc \<leftarrow> count_args argv 0 s;
     (entry_point, s) \<leftarrow> load dir_e garbage path s;
     if entry_point = - 1 then Some (- 1, s)
     else do {
       let cur = running_thread s;
       s \<leftarrow> wr_task cur (\<lambda>t. t\<lparr>name := map (\<lambda>b. char_of (unat b)) (take 15 path)\<rparr>) s;
       let k = intr_0_stack cur;
       s \<leftarrow> store_words [(k + 20, argv), (k + 28, argc), (k + 56, entry_point), (k + 68, 0xc0000000)] s;
       Some (0, s\<lparr>esp := k\<rparr>)
     }
   }"

text \<open>\<open>segment_load\<close> provides exactly the pages a segment touches. For a segment of at least one byte that ends inside the user's half of the
  address space, the number of pages is the number of page frames from the one of its first byte to the one of its last; none of the
  sums wraps around.\<close>

theorem occupy_pages_exact:
  assumes "0 < filesz" "unat vaddr + unat filesz \<le> 0xc0000000"
  shows "unat (occupy_pages filesz vaddr) = (unat vaddr + unat filesz - 1) div 4096 - unat vaddr div 4096 + 1"
proof -
  let ?v = "unat vaddr" and ?f = "unat filesz" and ?o = "unat vaddr mod 4096"
  have f: "0 < ?f" using assms(1) by (simp add: word_less_nat_alt)
  have "vaddr AND 0xfff = take_bit 12 vaddr" by (simp add: take_bit_eq_mask mask_eq_exp_minus_1)
  then have lo: "unat (vaddr AND 0xfff) = ?o" by (simp add: take_bit_eq_mod unat_mod)
  then have first: "unat (PG_SIZE - (vaddr AND 0x00000fff)) = 4096 - ?o" by (simp add: unat_sub_if' PG_SIZE_def)
  define d where "d = 4096 - ?o"
  have o: "?o < 4096" by simp
  have "?v + ?f - 1 = ?o + ?f - 1 + ?v div 4096 * 4096" using div_mult_mod_eq [of ?v 4096] f by linarith
  then have last: "(?v + ?f - 1) div 4096 = ?v div 4096 + (?o + ?f - 1) div 4096" by simp
  show ?thesis
  proof (cases "?f \<le> d")
    case True
    then have "\<not> PG_SIZE - (vaddr AND 0x00000fff) < filesz" by (simp add: word_less_nat_alt first d_def)
    moreover have "(?v + ?f - 1) div 4096 = ?v div 4096" using True o f unfolding last d_def by simp
    ultimately show ?thesis by (simp add: occupy_pages_def Let_def)
  next
    case False
    then have big: "PG_SIZE - (vaddr AND 0x00000fff) < filesz" by (simp add: word_less_nat_alt first d_def)
    have sub: "unat (filesz - (PG_SIZE - (vaddr AND 0x00000fff))) = ?f - d" using False first unfolding d_def by (subst unat_sub) (simp_all add: word_le_nat_alt)
    have "unat (DIV_ROUND_UP (filesz - (PG_SIZE - (vaddr AND 0x00000fff))) PG_SIZE) = (?f - d + 4095) div 4096"
      using unat_sectors_up [of "filesz - (PG_SIZE - (vaddr AND 0x00000fff))"] assms(2) f unfolding sub
      by (simp add: BITS_PER_SECTOR_def PG_SIZE_def)
    moreover have "(?f - d + 4095) div 4096 + 1 < 0x100000000" using assms(2) by linarith
    moreover have "(?v + ?f - 1) div 4096 - ?v div 4096 = (?f - d + 4095) div 4096" using False o f unfolding last d_def by (simp add: algebra_simps)
    ultimately show ?thesis using big by (simp add: occupy_pages_def Let_def unat_word_ariths)
  qed
qed

theorem occupy_pages_exact_witness:
  "unat (occupy_pages 0x2001 0x8048fff) = (unat (0x8048fff :: u32) + unat (0x2001 :: u32) - 1) div 4096 - unat (0x8048fff :: u32) div 4096 + 1 \<and>
    occupy_pages 0x2001 0x8048fff = 3"
  using occupy_pages_exact [of "0x2001" "0x8048fff"] by (simp add: occupy_pages_def DIV_ROUND_UP_def PG_SIZE_def Let_def)

end
