(* ===== verification/Syscall.thy ===== *)
theory Syscall
  imports Exec
begin

text \<open>
  The system call interface: the wrappers of \<^verbatim>\<open>lib/user/syscall.c\<close>, the table of \<^verbatim>\<open>userprog/syscall-init.c\<close> and the listing of threads
  from \<^verbatim>\<open>thread/thread.c\<close>. A wrapper loads registers and executes \<open>int $0x80\<close>; the handler in \<^verbatim>\<open>kernel/kernel.S\<close> pushes
  \<open>edx\<close>, \<open>ecx\<close> and \<open>ebx\<close> and calls the entry of the table with the number in \<open>eax\<close>. The entries of the table are named by the
  function whose address they hold.
\<close>

unbundle bit_operations_syntax

record regs =
  r_eax :: u32
  r_ebx :: u32
  r_ecx :: u32
  r_edx :: u32

datatype kernel_fn =
  K_getpid | K_write | K_malloc | K_free | K_fork | K_read | K_putchar | K_cls_screen | K_getcwd | K_open | K_close | K_lseek |
  K_unlink | K_mkdir | K_opendir | K_closedir | K_chdir | K_rmdir | K_readdir | K_rewinddir | K_stat | K_ps | K_execv | K_exit |
  K_wait | K_pipe | K_fd_redirect | K_help

text \<open>The numbers, in the order of the enumeration.\<close>

definition SYS_GETPID :: u32 where "SYS_GETPID = 0"
definition SYS_WRITE :: u32 where "SYS_WRITE = 1"
definition SYS_MALLOC :: u32 where "SYS_MALLOC = 2"
definition SYS_FREE :: u32 where "SYS_FREE = 3"
definition SYS_FORK :: u32 where "SYS_FORK = 4"
definition SYS_READ :: u32 where "SYS_READ = 5"
definition SYS_PUTCHAR :: u32 where "SYS_PUTCHAR = 6"
definition SYS_CLEAR :: u32 where "SYS_CLEAR = 7"
definition SYS_GETCWD :: u32 where "SYS_GETCWD = 8"
definition SYS_OPEN :: u32 where "SYS_OPEN = 9"
definition SYS_CLOSE :: u32 where "SYS_CLOSE = 10"
definition SYS_LSEEK :: u32 where "SYS_LSEEK = 11"
definition SYS_UNLINK :: u32 where "SYS_UNLINK = 12"
definition SYS_MKDIR :: u32 where "SYS_MKDIR = 13"
definition SYS_OPENDIR :: u32 where "SYS_OPENDIR = 14"
definition SYS_CLOSEDIR :: u32 where "SYS_CLOSEDIR = 15"
definition SYS_CHDIR :: u32 where "SYS_CHDIR = 16"
definition SYS_RMDIR :: u32 where "SYS_RMDIR = 17"
definition SYS_READDIR :: u32 where "SYS_READDIR = 18"
definition SYS_REWINDDIR :: u32 where "SYS_REWINDDIR = 19"
definition SYS_STAT :: u32 where "SYS_STAT = 20"
definition SYS_PS :: u32 where "SYS_PS = 21"
definition SYS_EXECV :: u32 where "SYS_EXECV = 22"
definition SYS_EXIT :: u32 where "SYS_EXIT = 23"
definition SYS_WAIT :: u32 where "SYS_WAIT = 24"
definition SYS_PIPE :: u32 where "SYS_PIPE = 25"
definition SYS_FD_REDIRECT :: u32 where "SYS_FD_REDIRECT = 26"
definition SYS_HELP :: u32 where "SYS_HELP = 27"

named_theorems syscall_numbers

lemmas syscall_number_defs [syscall_numbers] =
  SYS_GETPID_def SYS_WRITE_def SYS_MALLOC_def SYS_FREE_def SYS_FORK_def SYS_READ_def SYS_PUTCHAR_def SYS_CLEAR_def SYS_GETCWD_def
  SYS_OPEN_def SYS_CLOSE_def SYS_LSEEK_def SYS_UNLINK_def SYS_MKDIR_def SYS_OPENDIR_def SYS_CLOSEDIR_def SYS_CHDIR_def SYS_RMDIR_def
  SYS_READDIR_def SYS_REWINDDIR_def SYS_STAT_def SYS_PS_def SYS_EXECV_def SYS_EXIT_def SYS_WAIT_def SYS_PIPE_def SYS_FD_REDIRECT_def
  SYS_HELP_def

subsection \<open>The wrappers\<close>

definition syscall0 :: "u32 \<Rightarrow> regs \<Rightarrow> regs" where
  "syscall0 n r = r\<lparr>r_eax := n\<rparr>"

definition syscall1 :: "u32 \<Rightarrow> u32 \<Rightarrow> regs \<Rightarrow> regs" where
  "syscall1 n a r = r\<lparr>r_eax := n, r_ebx := a\<rparr>"

definition syscall2 :: "u32 \<Rightarrow> u32 \<Rightarrow> u32 \<Rightarrow> regs \<Rightarrow> regs" where
  "syscall2 n a b r = r\<lparr>r_eax := n, r_ebx := a, r_ecx := b\<rparr>"

definition syscall3 :: "u32 \<Rightarrow> u32 \<Rightarrow> u32 \<Rightarrow> u32 \<Rightarrow> regs \<Rightarrow> regs" where
  "syscall3 n a b c r = r\<lparr>r_eax := n, r_ebx := a, r_ecx := b, r_edx := c\<rparr>"

text \<open>The registers each wrapper traps with. Arguments narrower than a word are widened as their type says.\<close>

definition u_getpid :: "regs \<Rightarrow> regs" where "u_getpid = syscall0 SYS_GETPID"
definition u_write :: "u32 \<Rightarrow> addr \<Rightarrow> u32 \<Rightarrow> regs \<Rightarrow> regs" where "u_write fd bf count = syscall3 SYS_WRITE fd bf count"
definition u_malloc :: "u32 \<Rightarrow> regs \<Rightarrow> regs" where "u_malloc n = syscall1 SYS_MALLOC n"
definition u_free :: "addr \<Rightarrow> regs \<Rightarrow> regs" where "u_free p = syscall1 SYS_FREE p"
definition u_fork :: "regs \<Rightarrow> regs" where "u_fork = syscall0 SYS_FORK"
definition u_read :: "u32 \<Rightarrow> addr \<Rightarrow> u32 \<Rightarrow> regs \<Rightarrow> regs" where "u_read fd bf count = syscall3 SYS_READ fd bf count"
definition u_putchar :: "u8 \<Rightarrow> regs \<Rightarrow> regs" where "u_putchar c = syscall1 SYS_PUTCHAR (scast c)"
definition u_clear :: "regs \<Rightarrow> regs" where "u_clear = syscall0 SYS_CLEAR"
definition u_getcwd :: "addr \<Rightarrow> u32 \<Rightarrow> regs \<Rightarrow> regs" where "u_getcwd bf n = syscall2 SYS_GETCWD bf n"
definition u_open :: "addr \<Rightarrow> u8 \<Rightarrow> regs \<Rightarrow> regs" where "u_open pathname flag = syscall2 SYS_OPEN pathname (ucast flag)"
definition u_close :: "u32 \<Rightarrow> regs \<Rightarrow> regs" where "u_close fd = syscall1 SYS_CLOSE fd"
definition u_lseek :: "u32 \<Rightarrow> u32 \<Rightarrow> u8 \<Rightarrow> regs \<Rightarrow> regs" where
  "u_lseek fd offset whence = syscall3 SYS_LSEEK fd offset (ucast whence)"
definition u_unlink :: "addr \<Rightarrow> regs \<Rightarrow> regs" where "u_unlink pathname = syscall1 SYS_UNLINK pathname"
definition u_mkdir :: "addr \<Rightarrow> regs \<Rightarrow> regs" where "u_mkdir pathname = syscall1 SYS_MKDIR pathname"
definition u_opendir :: "addr \<Rightarrow> regs \<Rightarrow> regs" where "u_opendir nm = syscall1 SYS_OPENDIR nm"
definition u_closedir :: "addr \<Rightarrow> regs \<Rightarrow> regs" where "u_closedir d = syscall1 SYS_CLOSEDIR d"
definition u_rmdir :: "addr \<Rightarrow> regs \<Rightarrow> regs" where "u_rmdir pathname = syscall1 SYS_RMDIR pathname"
definition u_readdir :: "addr \<Rightarrow> regs \<Rightarrow> regs" where "u_readdir d = syscall1 SYS_READDIR d"
definition u_rewinddir :: "addr \<Rightarrow> regs \<Rightarrow> regs" where "u_rewinddir d = syscall1 SYS_REWINDDIR d"
definition u_stat :: "addr \<Rightarrow> addr \<Rightarrow> regs \<Rightarrow> regs" where "u_stat path bf = syscall2 SYS_STAT path bf"
definition u_chdir :: "addr \<Rightarrow> regs \<Rightarrow> regs" where "u_chdir path = syscall1 SYS_CHDIR path"
definition u_ps :: "regs \<Rightarrow> regs" where "u_ps = syscall0 SYS_PS"
definition u_execv :: "addr \<Rightarrow> addr \<Rightarrow> regs \<Rightarrow> regs" where "u_execv pathname argv = syscall2 SYS_EXECV pathname argv"
definition u_exit :: "u32 \<Rightarrow> regs \<Rightarrow> regs" where "u_exit stat = syscall1 SYS_EXIT stat"
definition u_wait :: "addr \<Rightarrow> regs \<Rightarrow> regs" where "u_wait stat = syscall1 SYS_WAIT stat"
definition u_pipe :: "addr \<Rightarrow> regs \<Rightarrow> regs" where "u_pipe pipefd = syscall1 SYS_PIPE pipefd"
definition u_fd_redirect :: "u32 \<Rightarrow> u32 \<Rightarrow> regs \<Rightarrow> regs" where
  "u_fd_redirect old_local_fd new_local_fd = syscall2 SYS_FD_REDIRECT old_local_fd new_local_fd"
definition u_help :: "regs \<Rightarrow> regs" where "u_help = syscall0 SYS_HELP"

lemmas wrapper_defs =
  u_getpid_def u_write_def u_malloc_def u_free_def u_fork_def u_read_def u_putchar_def u_clear_def u_getcwd_def u_open_def u_close_def
  u_lseek_def u_unlink_def u_mkdir_def u_opendir_def u_closedir_def u_rmdir_def u_readdir_def u_rewinddir_def u_stat_def u_chdir_def
  u_ps_def u_execv_def u_exit_def u_wait_def u_pipe_def u_fd_redirect_def u_help_def syscall0_def syscall1_def syscall2_def syscall3_def

subsection \<open>The table\<close>

type_synonym syscall_table = "kernel_fn option list"

definition syscall_nr :: nat where "syscall_nr = 32"

primrec install :: "(u32 \<times> kernel_fn) list \<Rightarrow> syscall_table \<Rightarrow> syscall_table option" where
  "install [] t = Some t"
| "install (e # es) t = do { t \<leftarrow> set_at t (unat (fst e)) (Some (snd e)); install es t }"

definition syscall_entries :: "(u32 \<times> kernel_fn) list" where
  "syscall_entries =
     [(SYS_GETPID, K_getpid), (SYS_WRITE, K_write), (SYS_MALLOC, K_malloc), (SYS_FREE, K_free), (SYS_FORK, K_fork), (SYS_READ, K_read),
      (SYS_PUTCHAR, K_putchar), (SYS_CLEAR, K_cls_screen), (SYS_GETCWD, K_getcwd), (SYS_OPEN, K_open), (SYS_CLOSE, K_close),
      (SYS_LSEEK, K_lseek), (SYS_UNLINK, K_unlink), (SYS_MKDIR, K_mkdir), (SYS_OPENDIR, K_opendir), (SYS_CLOSEDIR, K_closedir),
      (SYS_CHDIR, K_chdir), (SYS_RMDIR, K_rmdir), (SYS_READDIR, K_readdir), (SYS_REWINDDIR, K_rewinddir), (SYS_STAT, K_stat),
      (SYS_PS, K_ps), (SYS_EXECV, K_execv), (SYS_EXIT, K_exit), (SYS_WAIT, K_wait), (SYS_PIPE, K_pipe),
      (SYS_FD_REDIRECT, K_fd_redirect), (SYS_HELP, K_help)]"

definition syscall_init :: "syscall_table \<Rightarrow> 'a cpu_scheme \<Rightarrow> (syscall_table \<times> 'a cpu_scheme) option" where
  "syscall_init t s = do {
     let s = put_str (lit ''syscall_init start\<newline>'') s;
     t \<leftarrow> install syscall_entries t;
     Some (t, put_str (lit ''syscall_init done\<newline>'') s)
   }"

text \<open>The handler does not check the number; an entry outside of the table or a null entry is no function.\<close>

definition syscall_handler :: "syscall_table \<Rightarrow> regs \<Rightarrow> (kernel_fn \<times> u32 \<times> u32 \<times> u32) option" where
  "syscall_handler t r = do {
     e \<leftarrow> get_at t (unat (r_eax r));
     f \<leftarrow> e;
     Some (f, r_ebx r, r_ecx r, r_edx r)
   }"

subsection \<open>Calls of the table that are in no other theory\<close>

definition sys_getpid :: "'a kstate_scheme \<Rightarrow> u32 option" where
  "sys_getpid s = do { t \<leftarrow> rd_task (running_thread s) s; Some (scast (pid t)) }"

text \<open>\<open>cls_screen\<close> of \<^verbatim>\<open>lib/kernel/print.S\<close>.\<close>

definition cls_screen :: "'a dev_state_scheme \<Rightarrow> 'a dev_state_scheme" where
  "cls_screen s = s\<lparr>screen := []\<rparr>"

text \<open>\<open>pad_print\<close> with its buffer of 16 bytes, of which 15 are written.\<close>

definition pad_print :: "string \<Rightarrow> fmt_arg \<Rightarrow> 'a fs_state_scheme \<Rightarrow> 'a fs_state_scheme option" where
  "pad_print fmt a s = do {
     t \<leftarrow> format (lit fmt) [a];
     _ \<leftarrow> ASSERT (length t < 16);
     (_, s) \<leftarrow> sys_write 1 (t @ replicate (16 - length t) 32) 15 s;
     Some s
   }"

fun status_text :: "task_status \<Rightarrow> string" where
  "status_text TASK_RUNNING = ''RUNNING''"
| "status_text TASK_READY = ''READY''"
| "status_text TASK_BLOCKED = ''BLOCKED''"
| "status_text TASK_WAITING = ''WAITING''"
| "status_text TASK_HANGING = ''HANGING''"
| "status_text TASK_DIED = ''DIED''"

definition elem2thread_info :: "addr \<Rightarrow> u32 \<Rightarrow> 'a fs_state_scheme \<Rightarrow> (bool \<times> 'a fs_state_scheme) option" where
  "elem2thread_info pelem arg s = do {
     t \<leftarrow> rd_task (all_list_tag_entry pelem) s;
     s \<leftarrow> pad_print ''%d'' (AInt (scast (pid t))) s;
     s \<leftarrow> (if parent_pid t = - 1 then pad_print ''%s'' (AStr (lit ''NULL'')) s
          else pad_print ''%d'' (AInt (scast (parent_pid t))) s);
     s \<leftarrow> pad_print ''%s'' (AStr (lit (status_text (status t)))) s;
     s \<leftarrow> pad_print ''%x'' (AInt (elapsed_ticks t)) s;
     _ \<leftarrow> ASSERT (length (name t) < 16);
     out_pad \<leftarrow> arr_strcat (patch 0 (lit (name t)) (replicate 16 0)) [10];
     line \<leftarrow> str_of out_pad;
     (_, s) \<leftarrow> sys_write 1 out_pad (of_nat (length line)) s;
     Some (False, s)
   }"

definition ps_title :: string where
  "ps_title = ''PID            PPID           STAT           TICKS          COMMAND\<newline>''"

definition sys_ps :: "'a fs_state_scheme \<Rightarrow> 'a fs_state_scheme option" where
  "sys_ps s = do {
     (_, s) \<leftarrow> sys_write 1 (lit ps_title) (of_nat (length ps_title)) s;
     (_, s) \<leftarrow> list_traversal (thread_all_list s) elem2thread_info 0 s;
     Some s
   }"

subsection \<open>Calls that fill a buffer\<close>

text \<open>The functions of the kernel give the contents of the caller's buffer as a part of their result, since callers inside the kernel pass local
  arrays. As system calls they get an address, at which the bytes are stored through the caller's page tables. Nothing checks that the address is
  one of the process.\<close>

definition read_to :: "u32 \<Rightarrow> addr \<Rightarrow> u32 \<Rightarrow> 'a fs_state_scheme \<Rightarrow> (u32 blocking \<times> 'a fs_state_scheme) option" where
  "read_to fd bf count s = do {
     _ \<leftarrow> ASSERT (bf \<noteq> NULL);
     (w, bs, s) \<leftarrow> sys_read_turn fd count s;
     s \<leftarrow> store_bytes bf bs s;
     Some (w, s)
   }"

text \<open>\<open>old\<close> is what the buffer held before.\<close>

definition getcwd_to :: "addr \<Rightarrow> u8 list \<Rightarrow> u32 \<Rightarrow> 'a fs_state_scheme \<Rightarrow> (addr \<times> 'a fs_state_scheme) option" where
  "getcwd_to bf old n s = do {
     _ \<leftarrow> ASSERT (bf \<noteq> NULL);
     (ok, bs, s) \<leftarrow> sys_getcwd old n s;
     s \<leftarrow> store_bytes bf bs s;
     Some (if ok then bf else NULL, s)
   }"

definition stat_bytes :: "stat \<Rightarrow> u8 list" where
  "stat_bytes st = bytes32 (st_ino st) @ bytes32 (st_size st) @ bytes32 (st_filetype st)"

definition stat_to :: "dir_entry \<Rightarrow> u8 list \<Rightarrow> addr \<Rightarrow> stat \<Rightarrow> 'a fs_state_scheme \<Rightarrow> (u32 \<times> 'a fs_state_scheme) option" where
  "stat_to dir_e path bf old s = do {
     (r, st, s) \<leftarrow> sys_stat dir_e path old s;
     s \<leftarrow> store_bytes bf (stat_bytes st) s;
     Some (r, s)
   }"

definition pipe_to :: "addr \<Rightarrow> 'a fs_state_scheme \<Rightarrow> (u32 \<times> 'a fs_state_scheme) option" where
  "pipe_to pipefd s = do {
     (r, fds, s) \<leftarrow> sys_pipe s;
     s \<leftarrow> store_bytes pipefd (concat (map bytes32 fds)) s;
     Some (r, s)
   }"

definition store_status :: "addr \<Rightarrow> wait_result \<times> 'a fs_state_scheme \<Rightarrow> (wait_result \<times> 'a fs_state_scheme) option" where
  "store_status p = (\<lambda>(r, s). case r of
       Child _ st \<Rightarrow> do { s \<leftarrow> store32 p st s; Some (r, s) }
     | No_child \<Rightarrow> Some (r, s)
     | Asleep _ \<Rightarrow> Some (r, s))"

definition wait_to :: "addr \<Rightarrow> 'a fs_state_scheme \<Rightarrow> (wait_result \<times> 'a fs_state_scheme) option" where
  "wait_to p s = sys_wait_turn s \<bind> store_status p"

definition wait_to_resume :: "addr \<Rightarrow> intr_status \<Rightarrow> 'a fs_state_scheme \<Rightarrow> (wait_result \<times> 'a fs_state_scheme) option" where
  "wait_to_resume p i s = sys_wait_resume i s \<bind> store_status p"

subsection \<open>Dispatch\<close>

text \<open>C15: Every wrapper reaches the kernel function of its name with its arguments in their order, whatever the other registers hold: the
  numbers of the wrappers, the table that \<open>syscall_init\<close> fills and the order in which the handler pushes the registers agree.\<close>

theorem syscall_dispatch:
  "\<exists>t. syscall_init (replicate syscall_nr None) (s :: 'a cpu_scheme) =
       Some (t, put_str (lit (''syscall_init start\<newline>'' @ ''syscall_init done\<newline>'')) s) \<and>
     (\<forall>r. \<exists>a b c. syscall_handler t (u_getpid r) = Some (K_getpid, a, b, c)) \<and>
     (\<forall>r fd bf n. syscall_handler t (u_write fd bf n r) = Some (K_write, fd, bf, n)) \<and>
     (\<forall>r n. \<exists>b c. syscall_handler t (u_malloc n r) = Some (K_malloc, n, b, c)) \<and>
     (\<forall>r p. \<exists>b c. syscall_handler t (u_free p r) = Some (K_free, p, b, c)) \<and>
     (\<forall>r. \<exists>a b c. syscall_handler t (u_fork r) = Some (K_fork, a, b, c)) \<and>
     (\<forall>r fd bf n. syscall_handler t (u_read fd bf n r) = Some (K_read, fd, bf, n)) \<and>
     (\<forall>r ch. \<exists>b c. syscall_handler t (u_putchar ch r) = Some (K_putchar, scast ch, b, c)) \<and>
     (\<forall>r. \<exists>a b c. syscall_handler t (u_clear r) = Some (K_cls_screen, a, b, c)) \<and>
     (\<forall>r bf n. \<exists>c. syscall_handler t (u_getcwd bf n r) = Some (K_getcwd, bf, n, c)) \<and>
     (\<forall>r path flag. \<exists>c. syscall_handler t (u_open path flag r) = Some (K_open, path, ucast flag, c)) \<and>
     (\<forall>r fd. \<exists>b c. syscall_handler t (u_close fd r) = Some (K_close, fd, b, c)) \<and>
     (\<forall>r fd off whence. syscall_handler t (u_lseek fd off whence r) = Some (K_lseek, fd, off, ucast whence)) \<and>
     (\<forall>r path. \<exists>b c. syscall_handler t (u_unlink path r) = Some (K_unlink, path, b, c)) \<and>
     (\<forall>r path. \<exists>b c. syscall_handler t (u_mkdir path r) = Some (K_mkdir, path, b, c)) \<and>
     (\<forall>r path. \<exists>b c. syscall_handler t (u_opendir path r) = Some (K_opendir, path, b, c)) \<and>
     (\<forall>r d. \<exists>b c. syscall_handler t (u_closedir d r) = Some (K_closedir, d, b, c)) \<and>
     (\<forall>r path. \<exists>b c. syscall_handler t (u_chdir path r) = Some (K_chdir, path, b, c)) \<and>
     (\<forall>r path. \<exists>b c. syscall_handler t (u_rmdir path r) = Some (K_rmdir, path, b, c)) \<and>
     (\<forall>r d. \<exists>b c. syscall_handler t (u_readdir d r) = Some (K_readdir, d, b, c)) \<and>
     (\<forall>r d. \<exists>b c. syscall_handler t (u_rewinddir d r) = Some (K_rewinddir, d, b, c)) \<and>
     (\<forall>r path bf. \<exists>c. syscall_handler t (u_stat path bf r) = Some (K_stat, path, bf, c)) \<and>
     (\<forall>r. \<exists>a b c. syscall_handler t (u_ps r) = Some (K_ps, a, b, c)) \<and>
     (\<forall>r path av. \<exists>c. syscall_handler t (u_execv path av r) = Some (K_execv, path, av, c)) \<and>
     (\<forall>r st. \<exists>b c. syscall_handler t (u_exit st r) = Some (K_exit, st, b, c)) \<and>
     (\<forall>r p. \<exists>b c. syscall_handler t (u_wait p r) = Some (K_wait, p, b, c)) \<and>
     (\<forall>r p. \<exists>b c. syscall_handler t (u_pipe p r) = Some (K_pipe, p, b, c)) \<and>
     (\<forall>r old new. \<exists>c. syscall_handler t (u_fd_redirect old new r) = Some (K_fd_redirect, old, new, c)) \<and>
     (\<forall>r. \<exists>a b c. syscall_handler t (u_help r) = Some (K_help, a, b, c))"
proof -
  define t where "t = map Some [K_getpid, K_write, K_malloc, K_free, K_fork, K_read, K_putchar, K_cls_screen, K_getcwd, K_open, K_close,
    K_lseek, K_unlink, K_mkdir, K_opendir, K_closedir, K_chdir, K_rmdir, K_readdir, K_rewinddir, K_stat, K_ps, K_execv, K_exit, K_wait,
    K_pipe, K_fd_redirect, K_help] @ replicate 4 None"
  have "install syscall_entries (replicate syscall_nr None) = Some t"
    unfolding t_def by code_simp
  then have "syscall_init (replicate syscall_nr None) s =
      Some (t, put_str (lit (''syscall_init start\<newline>'' @ ''syscall_init done\<newline>'')) s)"
    by (simp add: syscall_init_def put_str_screen lit_append [symmetric])
  then show ?thesis
    by (intro exI [of _ t] conjI)
      (simp_all add: wrapper_defs syscall_handler_def syscall_numbers t_def get_at_def)
qed

end
