(* ===== verification/Shell.thy ===== *)
theory Shell
  imports Path
begin

text \<open>
  The shell's handling of its input line: \<open>readline\<close> and \<open>cmd_parse\<close> of \<^verbatim>\<open>shell/shell.c\<close>.

  The command line is a character array; pointers into it are indices and \<open>argv\<close> is an array of
  optional indices. \<open>readline\<close> takes the bytes that the successive calls of \<open>read\<close> deliver and
  collects what it sends to the screen; when the bytes run out the shell is waiting and the call does not return.

  \<open>readline\<close> is compared with \<open>edit\<close>, the effect of a key on the text typed so far, and \<open>cmd_parse\<close>
  with \<open>tokens\<close>, the words of a string.
\<close>

definition MAX_ARG_NR :: nat where "MAX_ARG_NR = 16"

subsection \<open>Reading a line\<close>

datatype screen_op = Putchar u8 | Clear_screen | Print_prompt | Print_str "u8 list"

definition bytes_of :: "string \<Rightarrow> u8 list" where
  "bytes_of cs = map (\<lambda>c. of_nat (of_char c)) cs"

text \<open>\<open>while (buf != pos) { putchar('\b'); *(pos--) = 0; }\<close>\<close>

primrec erase_line :: "nat \<Rightarrow> u8 list \<Rightarrow> u8 list option" where
  "erase_line 0 buf = Some buf"
| "erase_line (Suc pos) buf = do { buf \<leftarrow> set_at buf (Suc pos) 0; erase_line pos buf }"

text \<open>The body of the loop after \<open>read\<close> has stored a character: the new buffer and position and the output, or
  \<open>Inl\<close> when the line is complete.\<close>

definition readline_key ::
    "u8 list \<Rightarrow> nat \<Rightarrow> ((u8 list \<times> screen_op list) + (u8 list \<times> nat \<times> screen_op list)) option" where
  "readline_key buf pos = do {
     c \<leftarrow> get_at buf pos;
     if c = 10 \<or> c = 13 then do {
       buf \<leftarrow> set_at buf pos 0;
       Some (Inl (buf, [Putchar 10]))
     } else if c = 8 then do {
       b0 \<leftarrow> get_at buf 0;
       if b0 \<noteq> 8 then (if pos = 0 then None else Some (Inr (buf, pos - 1, [Putchar 8])))
       else Some (Inr (buf, pos, []))
     } else if c = 11 then do {
       buf \<leftarrow> set_at buf pos 0;
       s \<leftarrow> str_of buf;
       Some (Inr (buf, pos, [Clear_screen, Print_prompt, Print_str s]))
     } else if c = 20 then do {
       buf \<leftarrow> erase_line pos buf;
       Some (Inr (buf, 0, replicate pos (Putchar 8)))
     } else Some (Inr (buf, pos + 1, [Putchar c]))
   }"

primrec readline :: "u8 list \<Rightarrow> u8 list \<Rightarrow> nat \<Rightarrow> nat \<Rightarrow> (u8 list \<times> screen_op list) option" where
  "readline [] buf pos count = None"
| "readline (k # ks) buf pos count = do {
     buf \<leftarrow> set_at buf pos k;
     if pos < count then do {
       r \<leftarrow> readline_key buf pos;
       case r of
         Inl (buf, out) \<Rightarrow> Some (buf, out)
       | Inr (buf, pos, out) \<Rightarrow> do {
           (buf, out') \<leftarrow> readline ks buf pos count;
           Some (buf, out @ out')
         }
      } else Some (buf, [Print_str (bytes_of ''readline: can`t find enter_key in the cmd_line, max num of char is 128'')])
   }"

definition edit :: "u8 list \<Rightarrow> u8 \<Rightarrow> u8 list" where
  "edit xs k = (if k = 8 then butlast xs else if k = 11 then xs else if k = 20 then [] else xs @ [k])"

subsection \<open>Splitting a line into words\<close>

partial_function (option) skip_token :: "u8 list \<Rightarrow> nat \<Rightarrow> u8 \<Rightarrow> nat option" where
  "skip_token line nxt token = do {
     c \<leftarrow> get_at line nxt;
     if c = token then skip_token line (nxt + 1) token else Some nxt
   }"

partial_function (option) find_end :: "u8 list \<Rightarrow> nat \<Rightarrow> u8 \<Rightarrow> nat option" where
  "find_end line nxt token = do {
     c \<leftarrow> get_at line nxt;
     if c \<noteq> 0 \<and> c \<noteq> token then find_end line (nxt + 1) token else Some nxt
   }"

type_synonym argv = "nat option list"

partial_function (option) parse_loop :: "u8 list \<Rightarrow> argv \<Rightarrow> nat \<Rightarrow> nat \<Rightarrow> u8 \<Rightarrow> (int \<times> u8 list \<times> argv) option" where
  "parse_loop line av nxt argc token = do {
     c \<leftarrow> get_at line nxt;
     if c = 0 then Some (int argc, line, av)
     else do {
       nxt \<leftarrow> skip_token line nxt token;
       c \<leftarrow> get_at line nxt;
       if c = 0 then Some (int argc, line, av)
       else do {
         av \<leftarrow> set_at av argc (Some nxt);
         nxt \<leftarrow> find_end line nxt token;
         c \<leftarrow> get_at line nxt;
         (line, nxt) \<leftarrow>
           (if c \<noteq> 0 then do { line \<leftarrow> set_at line nxt 0; Some (line, nxt + 1) } else Some (line, nxt));
         if argc > MAX_ARG_NR then Some (-1, line, av)
         else parse_loop line av nxt (argc + 1) token
       }
     }
   }"

definition cmd_parse :: "u8 list \<Rightarrow> nat \<Rightarrow> u8 \<Rightarrow> (int \<times> u8 list \<times> argv) option" where
  "cmd_parse line cmd_str token = parse_loop line (replicate MAX_ARG_NR None) cmd_str 0 token"

function tokens :: "u8 \<Rightarrow> u8 list \<Rightarrow> u8 list list" where
  "tokens t cs =
     (let q = dropWhile (\<lambda>c. c = t) cs in
      if q = [] then [] else takeWhile (\<lambda>c. c \<noteq> t) q # tokens t (tl (dropWhile (\<lambda>c. c \<noteq> t) q)))"
  by auto

termination tokens
proof (relation "measure (\<lambda>(t, cs). length cs)")
  fix t :: u8 and cs q :: "u8 list" assume q: "q = dropWhile (\<lambda>c. c = t) cs" "q \<noteq> []"
  have "length (tl (dropWhile (\<lambda>c. c \<noteq> t) q)) \<le> length q - 1"
    using length_dropWhile_le [of "\<lambda>c. c \<noteq> t" q] by simp
  also have "\<dots> < length q" using q(2) by simp
  also have "\<dots> \<le> length cs" using length_dropWhile_le [of "\<lambda>c. c = t" cs] q(1) by simp
  finally show "((t, tl (dropWhile (\<lambda>c. c \<noteq> t) q)), (t, cs)) \<in> measure (\<lambda>(t, cs). length cs)" by simp
qed simp

declare tokens.simps [simp del]

lemma skip_token_eq:
  assumes "line = pre @ cs @ 0 # rest" "t \<noteq> 0"
  shows "skip_token line (length pre) t = Some (length pre + length (takeWhile (\<lambda>c. c = t) cs))"
  using assms
proof (induction cs arbitrary: pre)
  case Nil
  then show ?case by (subst skip_token.simps) (simp add: get_at_def)
next
  case (Cons c cs)
  then show ?case using Cons.IH [of "pre @ [c]"]
    by (subst skip_token.simps) (auto simp: get_at_def)
qed

lemma find_end_eq:
  assumes "line = pre @ cs @ 0 # rest" "0 \<notin> set cs"
  shows "find_end line (length pre) t = Some (length pre + length (takeWhile (\<lambda>c. c \<noteq> t) cs))"
  using assms
proof (induction cs arbitrary: pre)
  case Nil
  then show ?case by (subst find_end.simps) (simp add: get_at_def)
next
  case (Cons c cs)
  then show ?case using Cons.IH [of "pre @ [c]"]
    by (subst find_end.simps) (auto simp: get_at_def)
qed

text \<open>What a call of \<open>parse_loop\<close> from argument \<open>k\<close> on leaves: the words \<open>ws\<close> in the line, the arguments from \<open>k\<close>
  on pointing to them, everything before \<open>n\<close> in the line as it was.\<close>

definition parsed :: "nat \<Rightarrow> nat \<Rightarrow> u8 list list \<Rightarrow> u8 list \<Rightarrow> argv \<Rightarrow> u8 list \<Rightarrow> argv \<Rightarrow> bool" where
  "parsed n k ws line av line' av' \<longleftrightarrow>
     length line' = length line \<and> take n line' = take n line \<and> length av' = length av \<and>
     (\<forall>i < length av. i < k \<or> k + length ws \<le> i \<longrightarrow> av' ! i = av ! i) \<and>
     (\<forall>i < length ws. \<exists>p. av' ! (k + i) = Some p \<and> str_of (drop p line') = Some (ws ! i))"

text \<open>One turn of the outer loop, on a line that continues with separators \<open>sp\<close> and the word \<open>w\<close>.\<close>

lemma parse_step:
  assumes "line = pre @ sp @ w @ r @ 0 # rest" "\<forall>c \<in> set sp. c = t" "w \<noteq> []" "t \<notin> set w" "0 \<notin> set w" "0 \<notin> set r"
    "r = [] \<or> hd r = t" "t \<noteq> 0" "k < length av" "k \<le> MAX_ARG_NR"
  shows "parse_loop line av (length pre) k t =
    (if r = [] then parse_loop line (av[k := Some (length (pre @ sp))]) (length (pre @ sp @ w)) (k + 1) t
     else parse_loop (pre @ sp @ w @ 0 # tl r @ 0 # rest) (av[k := Some (length (pre @ sp))])
       (length (pre @ sp @ w @ [0])) (k + 1) t)"
proof -
  obtain x xs where w: "w = x # xs" "x \<noteq> t" "x \<noteq> 0" using assms(3-5) by (cases w) auto
  have tsp: "takeWhile (\<lambda>c. c = t) (sp @ w @ r) = sp"
    using assms(2) w by (simp add: takeWhile_append)
  have tw: "takeWhile (\<lambda>c. c \<noteq> t) (w @ r) = w"
    using assms(4,7) by (cases r) (auto simp: takeWhile_append)
  have sk: "skip_token line (length pre) t = Some (length (pre @ sp))"
    using skip_token_eq [of line pre "sp @ w @ r" rest t] assms(1,8) tsp by simp
  have fe: "find_end line (length (pre @ sp)) t = Some (length (pre @ sp @ w))"
    using find_end_eq [of line "pre @ sp" "w @ r" rest t] assms(1,5,6) tw by simp
  have g1: "get_at line (length pre) = Some (hd (sp @ w))" "hd (sp @ w) \<noteq> 0"
    using assms(1,2,8) w by (cases sp, auto simp: get_at_def)+
  have g2: "get_at line (length (pre @ sp)) = Some x"
    using assms(1) w by (simp add: get_at_def nth_append)
  have g3: "get_at line (length (pre @ sp @ w)) = Some (case r of [] \<Rightarrow> 0 | c # _ \<Rightarrow> c)"
    using assms(1) by (cases r) (auto simp: get_at_def nth_append)
  have st: "set_at line (length (pre @ sp @ w)) 0 = Some (pre @ sp @ w @ 0 # tl r @ 0 # rest)" if "r \<noteq> []"
    using assms(1) that by (cases r) (auto simp: set_at_def list_update_append)
  have nz: "c \<noteq> 0" if "r = c # r'" for c r' using assms(6) that by auto
  show ?thesis
  proof (cases r)
    case Nil
    then show ?thesis using sk fe g1 g2 g3 w assms(9,10)
      by (subst parse_loop.simps) simp
  next
    case (Cons c r')
    then show ?thesis using sk fe g1 g2 g3 w st nz assms(9,10)
      by (subst parse_loop.simps) simp
  qed
qed

lemma parsed_step:
  assumes "parsed (length (pre @ w @ [0])) (Suc k) ws (pre @ w @ 0 # r) (av[k := Some (length pre)]) line' av'"
    "0 \<notin> set w" "length line = length (pre @ w @ 0 # r)" "n \<le> length pre" "take n line = take n pre" "k < length av"
  shows "parsed n k (w # ws) line av line' av'"
proof -
  have t: "take (length (pre @ w @ [0])) line' = pre @ w @ [0]" "length line' = length line"
    using assms(1,3) by (auto simp: parsed_def)
  then have l: "line' = pre @ w @ 0 # drop (length (pre @ w @ [0])) line'"
    by (metis append_Cons append_Nil append_assoc append_take_drop_id)
  have "take n line' = take n line" using assms(4,5) by (subst l) simp
  moreover have "str_of (drop (length pre) line') = Some w"
    using assms(2) by (subst l) (auto simp: str_of_iff)
  moreover have "av' ! k = Some (length pre)" using assms(1,6) by (simp add: parsed_def)
  moreover have "\<exists>p. av' ! (k + i) = Some p \<and> str_of (drop p line') = Some ((w # ws) ! i)"
    if "i < length (w # ws)" for i
  proof (cases i)
    case 0
    then show ?thesis using calculation(2,3) by auto
  next
    case (Suc j)
    then show ?thesis using assms(1) that by (auto simp: parsed_def)
  qed
  ultimately show ?thesis using assms(1) t(2) by (auto simp: parsed_def)
qed

lemma parse_loop_ok:
  assumes "line = pre @ cs @ 0 # rest" "0 \<notin> set cs" "t \<noteq> 0" "k + length (tokens t cs) \<le> length av"
    "length av = MAX_ARG_NR"
  shows "\<exists>line' av'. parse_loop line av (length pre) k t = Some (int (k + length (tokens t cs)), line', av') \<and>
    parsed (length pre) k (tokens t cs) line av line' av'"
  using assms
proof (induction "length cs" arbitrary: cs pre line av k rule: less_induct)
  case less
  define sp q w r where "sp = takeWhile (\<lambda>c. c = t) cs" and "q = dropWhile (\<lambda>c. c = t) cs"
    and "w = takeWhile (\<lambda>c. c \<noteq> t) q" and "r = dropWhile (\<lambda>c. c \<noteq> t) q"
  have cs: "cs = sp @ w @ r" by (simp add: sp_def q_def w_def r_def)
  have line: "line = pre @ sp @ w @ r @ 0 # rest" using less.prems(1) cs by simp
  have tk: "tokens t cs = (if q = [] then [] else w # tokens t (tl r))"
    unfolding q_def w_def r_def by (subst tokens.simps) (simp only: Let_def)
  have sp: "\<forall>c \<in> set sp. c = t" by (auto simp: sp_def dest: set_takeWhileD)
  show ?case
  proof (cases "q = []")
    case True
    then have "w = []" "r = []" by (simp_all add: w_def r_def)
    then have l: "line = pre @ sp @ 0 # rest" "cs = sp" using line cs by simp_all
    have "takeWhile (\<lambda>c. c = t) sp = sp" using sp by (simp only: takeWhile_eq_all_conv)
    then have "skip_token line (length pre) t = Some (length (pre @ sp))"
      using skip_token_eq [OF l(1) less.prems(3)] by (simp only: length_append)
    moreover have "get_at line (length (pre @ sp)) = Some 0" "get_at line (length pre) \<noteq> None"
      using l(1) by (simp_all add: get_at_def nth_append)
    ultimately show ?thesis using tk True
      by (subst parse_loop.simps) (auto simp: parsed_def)
  next
    case False
    have ne: "w \<noteq> []" "t \<notin> set w" "r = [] \<or> hd r = t"
    proof -
      show "w \<noteq> []" using hd_dropWhile [of "\<lambda>c. c = t" cs] False by (cases q) (auto simp: w_def q_def)
      show "t \<notin> set w" by (auto simp: w_def dest: set_takeWhileD)
      show "r = [] \<or> hd r = t" unfolding r_def by (metis (mono_tags, lifting) hd_dropWhile)
    qed
    have z: "0 \<notin> set w" "0 \<notin> set r" using less.prems(2) cs by auto
    have k: "k < length av" "k \<le> MAX_ARG_NR" "Suc k + length (tokens t (tl r)) \<le> length av"
      using less.prems(4,5) tk False by auto
    note step = parse_step [OF line sp ne(1,2) z ne(3) less.prems(3) k(1,2)]
    let ?av = "av[k := Some (length (pre @ sp))]"
    show ?thesis
    proof (cases "r = []")
      case True
      have "get_at line (length (pre @ sp @ w)) = Some 0"
        using line True by (simp add: get_at_def nth_append)
      moreover have "tokens t [] = []" by (subst tokens.simps) simp
      ultimately have "parse_loop line av (length pre) k t = Some (int (k + length (tokens t cs)), line, ?av)"
        using step True tk False parse_loop.simps [of line ?av "length (pre @ sp @ w)" "k + 1" t] by simp
      moreover have "parsed (length pre) k (tokens t cs) line av line ?av"
        using tk False True \<open>tokens t [] = []\<close> k(1) line z
        by (auto simp: parsed_def nth_list_update str_of_iff)
      ultimately show ?thesis by blast
    next
      case rne: False
      let ?pre = "pre @ sp @ w @ [0]" and ?line = "pre @ sp @ w @ 0 # tl r @ 0 # rest"
      have "length (tl r) < length cs" using cs rne by (cases r) auto
      moreover have "0 \<notin> set (tl r)" using z(2) rne by (cases r) auto
      ultimately obtain line' av' where
        r: "parse_loop ?line ?av (length ?pre) (Suc k) t = Some (int (Suc k + length (tokens t (tl r))), line', av')"
          "parsed (length ?pre) (Suc k) (tokens t (tl r)) ?line ?av line' av'"
        using less.hyps [of "tl r" ?line ?pre "Suc k" ?av] less.prems(3,5) k(3) by auto
      have "length line = length ?line" using line rne by (cases r) auto
      with r(2) z(1) k(1) have "parsed (length pre) k (w # tokens t (tl r)) line av line' av'"
        by (intro parsed_step [where pre = "pre @ sp" and r = "tl r @ 0 # rest"]) (simp_all add: line)
      with r(1) step rne tk False show ?thesis by simp
    qed
  qed
qed

lemma parse_overflow:
  assumes "line = pre @ sp @ w @ r @ 0 # rest" "\<forall>c \<in> set sp. c = t" "w \<noteq> []" "t \<notin> set w" "0 \<notin> set w" "t \<noteq> 0"
    "length av \<le> k"
  shows "parse_loop line av (length pre) k t = None"
proof -
  obtain x xs where w: "w = x # xs" "x \<noteq> t" "x \<noteq> 0" using assms(3-5) by (cases w) auto
  have "takeWhile (\<lambda>c. c = t) (sp @ w @ r) = sp"
    using assms(2) w by (simp add: takeWhile_append)
  then have "skip_token line (length pre) t = Some (length (pre @ sp))"
    using skip_token_eq [of line pre "sp @ w @ r" rest t] assms(1,6) by simp
  moreover have "get_at line (length pre) = Some (hd (sp @ w))" "hd (sp @ w) \<noteq> 0"
    using assms(1,2,6) w by (cases sp, auto simp: get_at_def)+
  moreover have "get_at line (length (pre @ sp)) = Some x"
    using assms(1) w by (simp add: get_at_def nth_append)
  ultimately show ?thesis using w assms(7)
    by (subst parse_loop.simps) (simp add: set_at_def)
qed

lemma parse_loop_too_many:
  assumes "line = pre @ cs @ 0 # rest" "0 \<notin> set cs" "t \<noteq> 0" "length av < k + length (tokens t cs)"
    "length av = MAX_ARG_NR" "k \<le> length av"
  shows "parse_loop line av (length pre) k t = None"
  using assms
proof (induction "length cs" arbitrary: cs pre line av k rule: less_induct)
  case less
  define sp q w r where "sp = takeWhile (\<lambda>c. c = t) cs" and "q = dropWhile (\<lambda>c. c = t) cs"
    and "w = takeWhile (\<lambda>c. c \<noteq> t) q" and "r = dropWhile (\<lambda>c. c \<noteq> t) q"
  have cs: "cs = sp @ w @ r" by (simp add: sp_def q_def w_def r_def)
  have line: "line = pre @ sp @ w @ r @ 0 # rest" using less.prems(1) cs by simp
  have tk: "tokens t cs = (if q = [] then [] else w # tokens t (tl r))"
    unfolding q_def w_def r_def by (subst tokens.simps) (simp only: Let_def)
  have sp: "\<forall>c \<in> set sp. c = t" by (auto simp: sp_def dest: set_takeWhileD)
  have q: "q \<noteq> []" using tk less.prems(4,6) by auto
  have ne: "w \<noteq> []" "t \<notin> set w" "r = [] \<or> hd r = t"
  proof -
    show "w \<noteq> []" using hd_dropWhile [of "\<lambda>c. c = t" cs] q by (cases q) (auto simp: w_def q_def)
    show "t \<notin> set w" by (auto simp: w_def dest: set_takeWhileD)
    show "r = [] \<or> hd r = t" unfolding r_def by (metis (mono_tags, lifting) hd_dropWhile)
  qed
  have z: "0 \<notin> set w" "0 \<notin> set r" using less.prems(2) cs by auto
  show ?case
  proof (cases "k < length av")
    case False
    then show ?thesis using less.prems(3) by (intro parse_overflow [OF line sp ne(1,2) z(1)]) simp_all
  next
    case True
    have k: "k \<le> MAX_ARG_NR" "length av < Suc k + length (tokens t (tl r))"
      using True less.prems(4,5) tk q by auto
    have rne: "r \<noteq> []"
    proof
      assume "r = []"
      moreover have "tokens t [] = []" by (subst tokens.simps) simp
      ultimately show False using k(2) True by simp
    qed
    note step = parse_step [OF line sp ne(1,2) z ne(3) less.prems(3) True k(1)]
    have "length (tl r) < length cs" "0 \<notin> set (tl r)" using cs rne z(2) by (cases r, auto)+
    then have "parse_loop (pre @ sp @ w @ 0 # tl r @ 0 # rest) (av[k := Some (length (pre @ sp))])
        (length (pre @ sp @ w @ [0])) (Suc k) t = None"
      using less.hyps [of "tl r" "pre @ sp @ w @ 0 # tl r @ 0 # rest" "pre @ sp @ w @ [0]" _ "Suc k"] less.prems(3,5) k(2) True
      by simp
    with step rne show ?thesis by simp
  qed
qed

text \<open>C35: \<open>cmd_parse\<close> splits a line into words. With at most 16 words it returns their number, \<open>argv[i]\<close> points to the
  \<open>i\<close>-th word, which is now a string of its own, and the other entries of \<open>argv\<close> are null; with more
  words it stores past the end of \<open>argv\<close>.\<close>

theorem cmd_parse_tokens:
  assumes "line = pre @ cs @ 0 # rest" "0 \<notin> set cs" "t \<noteq> 0"
  shows "(length (tokens t cs) \<le> 16 \<longrightarrow> (\<exists>line' av.
      cmd_parse line (length pre) t = Some (int (length (tokens t cs)), line', av) \<and> length av = 16 \<and>
      (\<forall>i < length (tokens t cs). \<exists>p. av ! i = Some p \<and> str_of (drop p line') = Some (tokens t cs ! i)) \<and>
      (\<forall>i < 16. length (tokens t cs) \<le> i \<longrightarrow> av ! i = None))) \<and>
    (16 < length (tokens t cs) \<longrightarrow> cmd_parse line (length pre) t = None)"
proof (intro conjI impI)
  let ?av = "replicate 16 None :: argv"
  assume "length (tokens t cs) \<le> 16"
  then obtain line' av where "parse_loop line ?av (length pre) 0 t = Some (int (length (tokens t cs)), line', av)"
      "parsed (length pre) 0 (tokens t cs) line ?av line' av"
    using parse_loop_ok [OF assms, of 0 ?av] by (auto simp: MAX_ARG_NR_def)
  then show "\<exists>line' av.
      cmd_parse line (length pre) t = Some (int (length (tokens t cs)), line', av) \<and> length av = 16 \<and>
      (\<forall>i < length (tokens t cs). \<exists>p. av ! i = Some p \<and> str_of (drop p line') = Some (tokens t cs ! i)) \<and>
      (\<forall>i < 16. length (tokens t cs) \<le> i \<longrightarrow> av ! i = None)"
    by (auto simp: cmd_parse_def MAX_ARG_NR_def parsed_def)
next
  assume "16 < length (tokens t cs)"
  then show "cmd_parse line (length pre) t = None"
    using parse_loop_too_many [OF assms, of "replicate 16 None" 0] by (simp add: cmd_parse_def MAX_ARG_NR_def)
qed

theorem cmd_parse_tokens_witness:
  "\<exists>line' av p. cmd_parse [32, 99, 100, 32, 32, 47, 97, 0] 0 32 = Some (2, line', av) \<and>
     av ! 1 = Some p \<and> str_of (drop p line') = Some [47, 97]"
proof -
  have t: "tokens 32 [32, 99, 100, 32, 32, 47, 97] = [[99, 100], [47, 97]]" by (simp add: tokens.simps)
  from cmd_parse_tokens [of "[32, 99, 100, 32, 32, 47, 97, 0]" "[]" "[32, 99, 100, 32, 32, 47, 97]" "[]" 32]
  show ?thesis unfolding t by auto
qed

text \<open>The line editor: the text before the position is the text edited so far.\<close>

definition plain :: "u8 \<Rightarrow> bool" where
  "plain k \<longleftrightarrow> k \<notin> {0, 8, 10, 11, 13, 20}"

lemma erase_line_ok: "pos < length buf \<Longrightarrow> \<exists>buf'. erase_line pos buf = Some buf' \<and> length buf' = length buf"
proof (induction pos arbitrary: buf)
  case (Suc pos)
  then show ?case using Suc.IH [of "buf[Suc pos := 0]"] by auto
qed simp

lemma edit_plain: "\<forall>c \<in> set xs. plain c \<Longrightarrow> k \<in> {8, 11, 20} \<or> plain k \<Longrightarrow> \<forall>c \<in> set (edit xs k). plain c"
  by (auto simp: edit_def dest: in_set_butlastD)

lemma readline_key_ok:
  assumes "take pos buf = xs" "length xs = pos" "pos < length buf" "\<forall>c \<in> set xs. plain c" "buf ! pos = k"
    "k \<in> {8, 11, 20} \<or> plain k"
  shows "\<exists>buf' out. readline_key buf pos = Some (Inr (buf', length (edit xs k), out)) \<and>
    length buf' = length buf \<and> take (length (edit xs k)) buf' = edit xs k"
proof -
  have g: "get_at buf pos = Some k" using assms(3,5) by simp
  have b0: "buf ! 0 = (if pos = 0 then k else hd xs)"
    using assms(1,2,5) by (cases xs; cases buf) auto
  consider "k = 8" | "k = 11" | "k = 20" | "plain k" using assms(6) by auto
  then show ?thesis
  proof cases
    case 1
    have h8: "pos \<noteq> 0 \<Longrightarrow> hd xs \<noteq> 8" using assms(2,4) by (cases xs) (auto simp: plain_def)
    have "get_at buf 0 = Some (buf ! 0)" using assms(3) by (intro get_at_in) linarith
    moreover have "take (pos - 1) buf = butlast xs" using assms(1-3) by (auto simp: butlast_conv_take min_def)
    ultimately show ?thesis using 1 g b0 h8 assms(1-3) by (auto simp: readline_key_def edit_def)
  next
    case 2
    have "0 \<in> set (buf[pos := 0])" using assms(3) by (metis set_update_memI)
    then obtain s where "str_of (buf[pos := 0]) = Some s" by (auto simp: str_of_def)
    with 2 g assms(1-3) show ?thesis by (auto simp: readline_key_def edit_def)
  next
    case 3
    with g erase_line_ok [OF assms(3)] show ?thesis by (auto simp: readline_key_def edit_def)
  next
    case 4
    then have "take (Suc pos) buf = xs @ [k]" using assms(1,3,5) by (simp add: take_Suc_conv_app_nth)
    with 4 g assms(2) show ?thesis by (auto simp: readline_key_def edit_def plain_def)
  qed
qed

lemma readline_ok:
  assumes "take pos buf = xs" "length xs = pos" "length buf = count" "\<forall>c \<in> set xs. plain c"
    "\<forall>k \<in> set ks. k \<in> {8, 11, 20} \<or> plain k" "nl = 10 \<or> nl = 13"
    "\<forall>i \<le> length ks. length (foldl edit xs (take i ks)) < count"
  shows "\<exists>buf' out. readline (ks @ nl # more_keys) buf pos count = Some (buf', out) \<and>
    str_of buf' = Some (foldl edit xs ks)"
  using assms
proof (induction ks arbitrary: xs buf pos)
  case Nil
  then have p: "pos < length buf" by auto
  then have "set_at buf pos nl = Some (buf[pos := nl])" "readline_key (buf[pos := nl]) pos = Some (Inl (buf[pos := 0], [Putchar 10]))"
    using Nil.prems(6) by (auto simp: readline_key_def)
  moreover have "str_of (buf[pos := 0]) = Some xs"
    unfolding str_of_iff
  proof
    show "\<exists>r. buf[pos := 0] = xs @ 0 # r" using p Nil.prems(1) by (auto simp: upd_conv_take_nth_drop)
    show "0 \<notin> set xs" using Nil.prems(4) by (auto simp: plain_def)
  qed
  ultimately show ?case using p Nil.prems(3) by simp
next
  case (Cons k ks)
  have p: "pos < length buf" using Cons.prems(2,3,7) by (auto dest: spec [of _ 0])
  obtain buf' out where b: "readline_key (buf[pos := k]) pos = Some (Inr (buf', length (edit xs k), out))"
      "length buf' = length buf" "take (length (edit xs k)) buf' = edit xs k"
    using readline_key_ok [of pos "buf[pos := k]" xs k] Cons.prems p by auto
  have "\<forall>i \<le> length ks. length (foldl edit (edit xs k) (take i ks)) < count"
    using Cons.prems(7) by (metis Suc_le_mono foldl_Cons length_Cons take_Suc_Cons)
  then obtain buf'' out' where
    "readline (ks @ nl # more_keys) buf' (length (edit xs k)) count = Some (buf'', out')"
    "str_of buf'' = Some (foldl edit (edit xs k) ks)"
    using Cons.IH [OF b(3) refl _ edit_plain] b(2) Cons.prems by auto
  with b(1) p Cons.prems(3) show ?case by simp
qed

text \<open>C36: \<open>readline\<close> returns the edited line. When the user types \<open>ks\<close> and a newline and the text never fills the
  buffer, the buffer holds the result of applying the keys one after the other: backspace drops the
  last character, control-u the whole text, control-l redraws, any other key is appended.\<close>

theorem readline_edits:
  assumes "length buf = count" "\<forall>k \<in> set ks. k \<in> {8, 11, 20} \<or> plain k" "nl = 10 \<or> nl = 13"
    "\<forall>i \<le> length ks. length (foldl edit [] (take i ks)) < count"
  shows "\<exists>buf' out. readline (ks @ nl # more_keys) buf 0 count = Some (buf', out) \<and> str_of buf' = Some (foldl edit [] ks)"
  using readline_ok [of 0 buf "[]" count ks nl more_keys] assms by simp

theorem readline_edits_witness:
  "\<exists>buf' out. readline ([108, 97, 8, 115] @ 10 # []) (replicate 512 0) 0 512 = Some (buf', out) \<and>
     str_of buf' = Some [108, 115]"
proof -
  have "\<forall>i \<le> length [108 :: u8, 97, 8, 115]. length (foldl edit [] (take i [108, 97, 8, 115])) < 512"
    by (simp add: edit_def take_Cons split: nat.split)
  from readline_edits [OF _ _ _ this, of "replicate 512 0" 10 "[]"]
  show ?thesis by (simp add: edit_def plain_def)
qed

end
