(* ===== verification/Commands.thy ===== *)
theory Commands
  imports Syscall Shell
begin

text \<open>
  The shell's commands: \<^verbatim>\<open>shell/buildin_cmd.c\<close> without the path functions of \<open>Path\<close>, and the execution of a command line by
  \<^verbatim>\<open>shell/shell.c\<close>. \<open>shell_state\<close> adds the shell's global arrays. A system call is the kernel function it is dispatched to (\<open>Syscall\<close>).
  The words of a command are strings. An external command is run by a child while the shell waits: what happens to the system between \<open>fork\<close> and the
  return of \<open>wait\<close> is the parameter \<open>run\<close>, which returns the identifier of the child that was collected and its status; the child's own steps up to
  \<open>execv\<close> are \<open>external_child\<close>.
\<close>

unbundle bit_operations_syntax

record shell_state = fs_state +
  final_path :: "u8 list"
  cwd_cache :: "u8 list"

definition printf :: "string \<Rightarrow> fmt_arg list \<Rightarrow> 'a fs_state_scheme \<Rightarrow> 'a fs_state_scheme option" where
  "printf fmt args s = do {
     t \<leftarrow> format (lit fmt) args;
     _ \<leftarrow> ASSERT (length t < 1024);
     (_, s) \<leftarrow> sys_write 1 t (of_nat (length t)) s;
     Some s
   }"

text \<open>\<open>make_clear_abs_path(path, final_path)\<close> with its system call.\<close>

definition clear_abs_path :: "u8 list \<Rightarrow> 'a shell_state_scheme \<Rightarrow> 'a shell_state_scheme option" where
  "clear_abs_path path s = do {
     (ok, bf, s) \<leftarrow> (if path \<noteq> [] \<and> hd path = slash then Some (False, [], s)
       else sys_getcwd (replicate MAX_PATH_LEN 0) (of_nat MAX_PATH_LEN) s);
     cwd \<leftarrow> (if ok then map_option Some (str_of bf) else Some None);
     fp \<leftarrow> make_clear_abs_path cwd path (final_path s);
     Some (s\<lparr>final_path := fp\<rparr>)
   }"

definition getcwd_final :: "'a shell_state_scheme \<Rightarrow> (bool \<times> 'a shell_state_scheme) option" where
  "getcwd_final s = do {
     (ok, bf, s) \<leftarrow> sys_getcwd (final_path s) (of_nat MAX_PATH_LEN) s;
     Some (ok, s\<lparr>final_path := bf\<rparr>)
   }"

definition buildin_pwd :: "u8 list list \<Rightarrow> 'a shell_state_scheme \<Rightarrow> 'a shell_state_scheme option" where
  "buildin_pwd argv s =
     (if length argv \<noteq> 1 then printf ''pwd: no argument support!\<newline>'' [] s
      else do {
        (ok, s) \<leftarrow> getcwd_final s;
        if ok then do { p \<leftarrow> str_of (final_path s); printf ''%s\<newline>'' [AStr p] s }
        else printf ''pwd: get current work directory failed.\<newline>'' [] s
      })"

definition buildin_cd :: "dir_entry \<Rightarrow> u8 list list \<Rightarrow> 'a shell_state_scheme \<Rightarrow> (bool \<times> 'a shell_state_scheme) option" where
  "buildin_cd dir_e argv s =
     (if length argv > 2 then do {
        s \<leftarrow> printf ''cd: only support 1 argument!\<newline>'' [] s;
        Some (False, s)
      } else do {
        s \<leftarrow> (if length argv = 1 then do {
            fp \<leftarrow> set_at (final_path s) 0 slash;
            fp \<leftarrow> set_at fp 1 0;
            Some (s\<lparr>final_path := fp\<rparr>)
          } else do { a \<leftarrow> get_at argv 1; clear_abs_path a s });
        p \<leftarrow> str_of (final_path s);
        (r, s) \<leftarrow> sys_chdir dir_e p s;
        if r = - 1 then do {
          s \<leftarrow> printf ''cd: no such directory %s\<newline>'' [AStr p] s;
          Some (False, s)
        } else Some (True, s)
      })"

text \<open>The options of \<open>ls\<close>: a message to print and return with, or whether \<open>-l\<close> was given and the path.\<close>

fun ls_options :: "u8 list list \<Rightarrow> bool \<Rightarrow> u8 list option \<Rightarrow> (string \<times> fmt_arg list) + (bool \<times> u8 list option)" where
  "ls_options [] long_info pathname = Inr (long_info, pathname)"
| "ls_options (a # as) long_info pathname =
     (if a \<noteq> [] \<and> hd a = 45 then
        if a = lit ''-l'' then ls_options as True pathname
        else if a = lit ''-h'' then
          Inl (''usage: -l list all infomation about the file.\<newline>-h for help\<newline>list all files in the current dirctory if no option\<newline>'', [])
        else Inl (''ls: invalid option %s\<newline>Try `ls -h' for more information.\<newline>'', [AStr a])
      else if pathname = None then ls_options as long_info (Some a)
      else Inl (''ls: only support one path\<newline>'', []))"

text \<open>The entry a call of \<open>readdir\<close> points to, inside the buffer of the directory.\<close>

definition dirent_idx :: "addr \<Rightarrow> addr \<Rightarrow> nat" where
  "dirent_idx d p = unat ((p - d - 8) div sizeof_dir_entry)"

partial_function (option) ls_names :: "addr \<Rightarrow> 'a fs_state_scheme \<Rightarrow> 'a fs_state_scheme option" where
  "ls_names d s = do {
     (p, s) \<leftarrow> sys_readdir d s;
     if p = NULL then Some s
     else do {
       nm \<leftarrow> name_at (dir_buf (dirs s d)) (dirent_idx d p);
       s \<leftarrow> printf ''%s '' [AStr nm] s;
       ls_names d s
     }
   }"

text \<open>The long listing; \<open>False\<close> when it ends with an error, which leaves the directory open.\<close>

partial_function (option) ls_long :: "dir_entry \<Rightarrow> addr \<Rightarrow> u8 list \<Rightarrow> nat \<Rightarrow> 'a fs_state_scheme \<Rightarrow> (bool \<times> 'a fs_state_scheme) option" where
  "ls_long dir_e d sub_pathname pathname_len s = do {
     (p, s) \<leftarrow> sys_readdir d s;
     if p = NULL then Some (True, s)
     else do {
       let e = entry_at (dir_buf (dirs s d)) (dirent_idx d p);
       let ftype = (if f_type e = FT_REGULAR then 45 else 100);
       nm \<leftarrow> name_at (dir_buf (dirs s d)) (dirent_idx d p);
       sub_pathname \<leftarrow> set_at sub_pathname pathname_len 0;
       sub_pathname \<leftarrow> arr_strcat sub_pathname nm;
       sub \<leftarrow> str_of sub_pathname;
       (r, file_stat, s) \<leftarrow> sys_stat dir_e sub \<lparr>st_ino = 0, st_size = 0, st_filetype = 0\<rparr> s;
       if r = - 1 then do {
         s \<leftarrow> printf ''ls: cannot access %s: No such file or directory\<newline>'' [AStr nm] s;
         Some (False, s)
       } else do {
         s \<leftarrow> printf ''%c  %d  %d  %s\<newline>'' [AChr ftype, AInt (de_i_no e), AInt (st_size file_stat), AStr nm] s;
         ls_long dir_e d sub_pathname pathname_len s
       }
     }
   }"

definition ls_dir :: "dir_entry \<Rightarrow> bool \<Rightarrow> u8 list \<Rightarrow> stat \<Rightarrow> 'a fs_state_scheme \<Rightarrow> 'a fs_state_scheme option" where
  "ls_dir dir_e long_info pathname file_stat s = do {
     (d, s) \<leftarrow> sys_opendir dir_e pathname s;
     let sub_pathname = patch 0 pathname (replicate MAX_PATH_LEN 0);
     let pathname_len = length pathname;
     _ \<leftarrow> ASSERT (pathname_len > 0 \<and> pathname_len \<le> MAX_PATH_LEN);
     (sub_pathname, pathname_len) \<leftarrow> (if last pathname \<noteq> slash then do {
         sub \<leftarrow> set_at sub_pathname pathname_len slash;
         Some (sub, pathname_len + 1)
       } else Some (sub_pathname, pathname_len));
     let s = sys_rewinddir d s;
     if long_info then do {
       s \<leftarrow> printf ''total: %d\<newline>'' [AInt (st_size file_stat)] s;
       (ok, s) \<leftarrow> ls_long dir_e d sub_pathname pathname_len s;
       if ok then do { (_, s) \<leftarrow> sys_closedir d s; Some s } else Some s
     } else do {
       s \<leftarrow> ls_names d s;
       s \<leftarrow> printf ''\<newline>'' [] s;
       (_, s) \<leftarrow> sys_closedir d s;
       Some s
     }
   }"

definition buildin_ls :: "dir_entry \<Rightarrow> u8 list list \<Rightarrow> 'a shell_state_scheme \<Rightarrow> 'a shell_state_scheme option" where
  "buildin_ls dir_e argv s =
     (case ls_options (tl argv) False None of
        Inl (fmt, args) \<Rightarrow> printf fmt args s
      | Inr (long_info, path) \<Rightarrow> do {
          (ok, s) \<leftarrow> (case path of None \<Rightarrow> getcwd_final s | Some p \<Rightarrow> do { s \<leftarrow> clear_abs_path p s; Some (True, s) });
          if \<not> ok then printf ''ls: getcwd for default path failed\<newline>'' [] s
          else do {
            pathname \<leftarrow> str_of (final_path s);
            (r, file_stat, s) \<leftarrow> sys_stat dir_e pathname \<lparr>st_ino = 0, st_size = 0, st_filetype = 0\<rparr> s;
            if r = - 1 then printf ''ls: cannot access %s: No such file or directory\<newline>'' [AStr pathname] s
            else if st_filetype file_stat = FT_DIRECTORY then ls_dir dir_e long_info pathname file_stat s
            else if long_info then
              printf ''-  %d  %d  %s\<newline>'' [AInt (st_ino file_stat), AInt (st_size file_stat), AStr pathname] s
            else printf ''%s\<newline>'' [AStr pathname] s
          }
        })"

definition buildin_ps :: "u8 list list \<Rightarrow> 'a fs_state_scheme \<Rightarrow> 'a fs_state_scheme option" where
  "buildin_ps argv s = (if length argv \<noteq> 1 then printf ''ps: no argument support!\<newline>'' [] s else sys_ps s)"

definition buildin_clear :: "u8 list list \<Rightarrow> 'a fs_state_scheme \<Rightarrow> 'a fs_state_scheme option" where
  "buildin_clear argv s = (if length argv \<noteq> 1 then printf ''clear: no argument support!\<newline>'' [] s else Some (cls_screen s))"

text \<open>The common shape of \<open>mkdir\<close>, \<open>rmdir\<close> and \<open>rm\<close>: nothing happens to the root directory.\<close>

definition path_command ::
    "(u8 list \<Rightarrow> 'a shell_state_scheme \<Rightarrow> (u32 \<times> 'a shell_state_scheme) option) \<Rightarrow> string \<Rightarrow> string \<Rightarrow> u8 list list \<Rightarrow>
     'a shell_state_scheme \<Rightarrow> (u32 \<times> 'a shell_state_scheme) option" where
  "path_command call usage failed argv s =
     (if length argv \<noteq> 2 then do { s \<leftarrow> printf usage [] s; Some (- 1, s) }
      else do {
        s \<leftarrow> clear_abs_path (argv ! 1) s;
        p \<leftarrow> str_of (final_path s);
        if p = [slash] then Some (- 1, s)
        else do {
          (r, s) \<leftarrow> call p s;
          if r = 0 then Some (0, s) else do { s \<leftarrow> printf failed [AStr (argv ! 1)] s; Some (- 1, s) }
        }
      })"

definition buildin_mkdir :: "dir_entry \<Rightarrow> u8 list \<Rightarrow> u8 list list \<Rightarrow> 'a shell_state_scheme \<Rightarrow> (u32 \<times> 'a shell_state_scheme) option" where
  "buildin_mkdir dir_e garbage =
     path_command (sys_mkdir dir_e garbage) ''mkdir: only support 1 argument!\<newline>'' ''mkdir: create directory %s failed.\<newline>''"

definition buildin_rmdir :: "dir_entry \<Rightarrow> u8 list list \<Rightarrow> 'a shell_state_scheme \<Rightarrow> (u32 \<times> 'a shell_state_scheme) option" where
  "buildin_rmdir dir_e = path_command (sys_rmdir dir_e) ''rmdir: only support 1 argument!\<newline>'' ''rmdir: remove %s failed.\<newline>''"

definition buildin_rm :: "dir_entry \<Rightarrow> u8 list list \<Rightarrow> 'a shell_state_scheme \<Rightarrow> (u32 \<times> 'a shell_state_scheme) option" where
  "buildin_rm dir_e = path_command (sys_unlink dir_e) ''rm: only support 1 argument!\<newline>'' ''rm: delete %s failed.\<newline>''"

definition buildin_help :: "'a fs_state_scheme \<Rightarrow> 'a fs_state_scheme option" where
  "buildin_help s = sys_help s"

subsection \<open>Executing a command line\<close>

definition print_prompt :: "'a shell_state_scheme \<Rightarrow> 'a shell_state_scheme option" where
  "print_prompt s = do { p \<leftarrow> str_of (cwd_cache s); printf ''[swings@localhost %s]$ '' [AStr p] s }"

text \<open>The parent's side of an external command; a child that cannot be waited for is a panic.\<close>

definition external_parent :: "u32 \<Rightarrow> u32 \<Rightarrow> 'a fs_state_scheme \<Rightarrow> 'a fs_state_scheme option" where
  "external_parent child_pid stat s = do {
     _ \<leftarrow> ASSERT (child_pid \<noteq> - 1);
     printf ''child_pid %d, it's status: %d\<newline>'' [AInt child_pid, AInt stat] s
   }"

text \<open>The child's side; \<open>argv\<close> is the address of the array whose first pointer becomes that of \<open>final_path\<close> (\<open>path_addr\<close>).\<close>

definition external_child ::
    "dir_entry \<Rightarrow> u8 list \<Rightarrow> u8 list \<Rightarrow> addr \<Rightarrow> addr \<Rightarrow> 'a shell_state_scheme \<Rightarrow> 'a shell_state_scheme option" where
  "external_child dir_e garbage cmd argv path_addr s = do {
     s \<leftarrow> clear_abs_path cmd s;
     s \<leftarrow> store32 argv path_addr s;
     p \<leftarrow> str_of (final_path s);
     (r, _, s) \<leftarrow> sys_stat dir_e p \<lparr>st_ino = 0, st_size = 0, st_filetype = 0\<rparr> s;
     if r = - 1 then do {
       s \<leftarrow> printf ''my_shell: cannot access %s: No such file or directory\<newline>'' [AStr p] s;
       sys_exit (- 1) s
     } else do {
       (_, s) \<leftarrow> sys_execv dir_e garbage p argv s;
       Some s
     }
   }"

text \<open>A command without words makes \<open>strcmp\<close> stop on the null pointer.\<close>

definition cmd_execute ::
    "(u8 list list \<Rightarrow> 'a shell_state_scheme \<Rightarrow> (u32 \<times> u32 \<times> 'a shell_state_scheme) option) \<Rightarrow> dir_entry \<Rightarrow> u8 list \<Rightarrow> u8 list list \<Rightarrow>
     'a shell_state_scheme \<Rightarrow> 'a shell_state_scheme option" where
  "cmd_execute run dir_e garbage argv s = do {
     cmd \<leftarrow> get_at argv 0;
     if cmd = lit ''ls'' then buildin_ls dir_e argv s
     else if cmd = lit ''cd'' then do {
       (ok, s) \<leftarrow> buildin_cd dir_e argv s;
       if ok then do {
         p \<leftarrow> str_of (final_path s);
         cc \<leftarrow> write_at (replicate MAX_PATH_LEN 0) 0 p;
         cc \<leftarrow> set_at cc (length p) 0;
         Some (s\<lparr>cwd_cache := cc\<rparr>)
       } else Some s
     } else if cmd = lit ''pwd'' then buildin_pwd argv s
     else if cmd = lit ''ps'' then buildin_ps argv s
     else if cmd = lit ''clear'' then buildin_clear argv s
     else if cmd = lit ''mkdir'' then do { (_, s) \<leftarrow> buildin_mkdir dir_e garbage argv s; Some s }
     else if cmd = lit ''rmdir'' then do { (_, s) \<leftarrow> buildin_rmdir dir_e argv s; Some s }
     else if cmd = lit ''rm'' then do { (_, s) \<leftarrow> buildin_rm dir_e argv s; Some s }
     else if cmd = lit ''help'' then buildin_help s
     else do {
       (child_pid, stat, s) \<leftarrow> run argv s;
       external_parent child_pid stat s
     }
   }"

text \<open>The words \<open>cmd_parse\<close> found, as strings.\<close>

primrec words_at :: "u8 list \<Rightarrow> nat option list \<Rightarrow> u8 list list option" where
  "words_at line [] = Some []"
| "words_at line (a # av) = (case a of None \<Rightarrow> Some []
     | Some i \<Rightarrow> do { w \<leftarrow> str_of (drop i line); ws \<leftarrow> words_at line av; Some (w # ws) })"

text \<open>One command of a pipeline: the part of the line from \<open>each_cmd\<close> on is split and executed.\<close>

definition run_part ::
    "(u8 list list \<Rightarrow> 'a shell_state_scheme \<Rightarrow> (u32 \<times> u32 \<times> 'a shell_state_scheme) option) \<Rightarrow> dir_entry \<Rightarrow> u8 list \<Rightarrow> u8 list \<Rightarrow> nat \<Rightarrow>
     'a shell_state_scheme \<Rightarrow> (u8 list \<times> 'a shell_state_scheme) option" where
  "run_part run dir_e garbage line each_cmd s = do {
     (argc, line, av) \<leftarrow> cmd_parse line each_cmd 32;
     argv \<leftarrow> words_at line av;
     s \<leftarrow> cmd_execute run dir_e garbage argv s;
     Some (line, s)
   }"

definition bar :: u8 where "bar = 124"

text \<open>\<open>strchr\<close> from an index on.\<close>

definition index_from :: "u8 list \<Rightarrow> nat \<Rightarrow> u8 \<Rightarrow> nat option option" where
  "index_from line i c = do {
     t \<leftarrow> str_of (drop i line);
     Some (if c \<in> set t then Some (i + length (takeWhile (\<lambda>x. x \<noteq> c) t)) else None)
   }"

partial_function (option) middle_commands ::
    "(u8 list list \<Rightarrow> 'a shell_state_scheme \<Rightarrow> (u32 \<times> u32 \<times> 'a shell_state_scheme) option) \<Rightarrow> dir_entry \<Rightarrow> u8 list \<Rightarrow> u8 list \<Rightarrow> nat \<Rightarrow>
     'a shell_state_scheme \<Rightarrow> (u8 list \<times> nat \<times> 'a shell_state_scheme) option" where
  "middle_commands run dir_e garbage line each_cmd s = do {
     r \<leftarrow> index_from line each_cmd bar;
     case r of
       None \<Rightarrow> Some (line, each_cmd, s)
     | Some pipe_symbol \<Rightarrow> do {
         line \<leftarrow> set_at line pipe_symbol 0;
         (line, s) \<leftarrow> run_part run dir_e garbage line each_cmd s;
         middle_commands run dir_e garbage line (pipe_symbol + 1) s
       }
   }"

text \<open>The branch for a line with a \<open>|\<close> at \<open>pipe_symbol\<close>. When \<open>pipe\<close> fails its descriptors keep their initial values.\<close>

definition pipeline ::
    "(u8 list list \<Rightarrow> 'a shell_state_scheme \<Rightarrow> (u32 \<times> u32 \<times> 'a shell_state_scheme) option) \<Rightarrow> dir_entry \<Rightarrow> u8 list \<Rightarrow> u8 list \<Rightarrow> nat \<Rightarrow>
     'a shell_state_scheme \<Rightarrow> 'a shell_state_scheme option" where
  "pipeline run dir_e garbage line pipe_symbol s = do {
     (r, fds, s) \<leftarrow> sys_pipe s;
     let fd = (if r = - 1 then [- 1, 0] else fds);
     s \<leftarrow> sys_fd_redirect 1 (fd ! 1) s;
     line \<leftarrow> set_at line pipe_symbol 0;
     (line, s) \<leftarrow> run_part run dir_e garbage line 0 s;
     s \<leftarrow> sys_fd_redirect 0 (fd ! 0) s;
     (line, each_cmd, s) \<leftarrow> middle_commands run dir_e garbage line (pipe_symbol + 1) s;
     s \<leftarrow> sys_fd_redirect 1 1 s;
     (line, s) \<leftarrow> run_part run dir_e garbage line each_cmd s;
     s \<leftarrow> sys_fd_redirect 0 0 s;
     (_, s) \<leftarrow> sys_close (fd ! 0) s;
     (_, s) \<leftarrow> sys_close (fd ! 1) s;
     Some s
   }"

fun screen_effect :: "screen_op \<Rightarrow> 'a shell_state_scheme \<Rightarrow> 'a shell_state_scheme option" where
  "screen_effect (Putchar c) s = sys_putchar c s"
| "screen_effect Clear_screen s = Some (cls_screen s)"
| "screen_effect Print_prompt s = print_prompt s"
| "screen_effect (Print_str t) s = printf ''%s'' [AStr t] s"

primrec screen_effects :: "screen_op list \<Rightarrow> 'a shell_state_scheme \<Rightarrow> 'a shell_state_scheme option" where
  "screen_effects [] s = Some s"
| "screen_effects (x # xs) s = do { s \<leftarrow> screen_effect x s; screen_effects xs s }"

text \<open>One turn of the shell's endless loop on the bytes \<open>keys\<close> that \<open>read\<close> delivers.\<close>

definition shell_turn ::
    "(u8 list list \<Rightarrow> 'a shell_state_scheme \<Rightarrow> (u32 \<times> u32 \<times> 'a shell_state_scheme) option) \<Rightarrow> dir_entry \<Rightarrow> u8 list \<Rightarrow> u8 list \<Rightarrow>
     'a shell_state_scheme \<Rightarrow> 'a shell_state_scheme option" where
  "shell_turn run dir_e garbage keys s = do {
     s \<leftarrow> print_prompt s;
     let s = s\<lparr>final_path := replicate MAX_PATH_LEN 0\<rparr>;
     (line, out) \<leftarrow> readline keys (replicate MAX_PATH_LEN 0) 0 MAX_PATH_LEN;
     s \<leftarrow> screen_effects out s;
     c \<leftarrow> get_at line 0;
     if c = 0 then Some s
     else do {
       r \<leftarrow> index_from line 0 bar;
       case r of
         Some pipe_symbol \<Rightarrow> pipeline run dir_e garbage line pipe_symbol s
       | None \<Rightarrow> do {
           (argc, line, av) \<leftarrow> cmd_parse line 0 32;
           if argc = -1 then printf ''num of arguments exceed %d\<newline>'' [AInt (of_nat MAX_ARG_NR)] s
           else do { argv \<leftarrow> words_at line av; cmd_execute run dir_e garbage argv s }
         }
     }
   }"

end
