(* ===== verification/Programs.thy ===== *)
theory Programs
  imports Commands
begin

text \<open>
  The start of the kernel and the programs above it: \<open>init_all\<close> of \<^verbatim>\<open>kernel/init.c\<close>, the main thread and the process \<open>init\<close> of
  \<^verbatim>\<open>kernel/main.c\<close>, and the commands of the directory \<^verbatim>\<open>command\<close>, on the kernel functions their system calls are dispatched to. The result of \<open>cat\<close> is the status the process ends with: \<open>main\<close>
  returns it to \<^verbatim>\<open>command/start.S\<close>, which passes it to \<open>exit\<close>.
\<close>

unbundle bit_operations_syntax

definition O_RDWR :: u8 where "O_RDWR = 2"

subsection \<open>Start of the kernel\<close>

text \<open>The addresses of the entry points and of the static variables that initialisation hands on, and what the memory for the bitmaps, the
  buffers of \<open>ide_init\<close> and the padding of formatted sectors hold at that time.\<close>

record boot_image =
  intr_entry_sym :: "addr list"
  syscall_handler_sym :: addr
  general_intr_sym :: addr
  idt_sym :: addr
  kernel_pool_lock_sym :: addr
  user_pool_lock_sym :: addr
  timer_handler_sym :: addr
  keyboard_handler_sym :: addr
  hd_handler_sym :: addr
  bitmap_memory :: "u8 list"
  buffer_garbage :: "u8 list"
  sector_padding :: "u8 list"

definition init_all ::
    "boot_image \<Rightarrow> symbols \<Rightarrow> nat \<Rightarrow> syscall_table \<Rightarrow> 'a fs_state_scheme \<Rightarrow> (syscall_table \<times> 'a fs_state_scheme) option" where
  "init_all b sy depth table s = do {
     let s = put_str (lit ''init_all\<newline>'') s;
     let s = idt_init (intr_entry_sym b) (syscall_handler_sym b) (general_intr_sym b) (idt_sym b) s;
     s \<leftarrow> mem_init (bitmap_memory b) (kernel_pool_lock_sym b) (user_pool_lock_sym b) s;
     s \<leftarrow> thread_init sy s;
     s \<leftarrow> timer_init (timer_handler_sym b) s;
     s \<leftarrow> console_init (console_lock s) s;
     s \<leftarrow> keyboard_init (keyboard_handler_sym b) s;
     s \<leftarrow> tss_init sy s;
     (table, s) \<leftarrow> syscall_init table s;
     let (_, s) = intr_enable s;
     s \<leftarrow> ide_init (hd_handler_sym b) (buffer_garbage b) depth s;
     s \<leftarrow> filesys_init (sector_padding b) s;
     Some (table, s)
   }"

text \<open>The program \<open>cat\<close> is copied from the raw disk into the file system; a write error ends in an endless loop.\<close>

definition install_cat :: "dir_entry \<Rightarrow> u8 list \<Rightarrow> 'a fs_state_scheme \<Rightarrow> 'a fs_state_scheme option" where
  "install_cat dir_e garbage s = do {
     let file_size = 5352;
     let nsec = DIV_ROUND_UP file_size 512;
     let sda = device_at (channel_at 0 s) 0;
     (prog_buf, s) \<leftarrow> sys_malloc file_size s;
     _ \<leftarrow> ASSERT (prog_buf \<noteq> NULL);
     (bs, s) \<leftarrow> ide_read sda 300 nsec s;
     (fd, s) \<leftarrow> sys_open dir_e garbage (lit ''/cat'') (O_CREAT OR O_RDWR) s;
     if fd \<noteq> - 1 then do {
       (r, s) \<leftarrow> sys_write fd (take (unat file_size) bs) file_size s;
       _ \<leftarrow> ASSERT (r \<noteq> - 1);
       Some s
     } else Some s
   }"

text \<open>\<open>main\<close> after \<open>init_all\<close>: it ends with the exit of the main thread, which switches to another one.\<close>

definition main_after_init :: "dir_entry \<Rightarrow> u8 list \<Rightarrow> 'a fs_state_scheme \<Rightarrow> 'a fs_state_scheme option" where
  "main_after_init dir_e garbage s = do {
     s \<leftarrow> install_cat dir_e garbage s;
     let s = cls_screen s;
     s \<leftarrow> console_put_str (console_lock s) (lit ''[swings@localhost /]$ '') s;
     thread_exit (running_thread s) True s
   }"

definition kernel_main ::
    "boot_image \<Rightarrow> symbols \<Rightarrow> nat \<Rightarrow> syscall_table \<Rightarrow> dir_entry \<Rightarrow> 'a fs_state_scheme \<Rightarrow> (syscall_table \<times> 'a fs_state_scheme) option" where
  "kernel_main b sy depth table dir_e s = do {
     let s = put_str (lit ''I am kernel\<newline>'') s;
     (table, s) \<leftarrow> init_all b sy depth table s;
     s \<leftarrow> main_after_init dir_e (buffer_garbage b) s;
     Some (table, s)
   }"

subsection \<open>The first process\<close>

text \<open>A pass of the loop in which \<open>init\<close> collects ended processes; \<open>status\<close> keeps its value when there is no child.\<close>

definition init_report :: "u32 \<Rightarrow> wait_result \<Rightarrow> 'a fs_state_scheme \<Rightarrow> 'a fs_state_scheme option" where
  "init_report stat r s =
     (case r of
        Child p st' \<Rightarrow> printf ''I'm init, my pid is 1, I receive a child, it's pid is %d, status is %d\<newline>'' [AInt (scast p), AInt st'] s
      | No_child \<Rightarrow> printf ''I'm init, my pid is 1, I receive a child, it's pid is %d, status is %d\<newline>'' [AInt (- 1), AInt stat] s
      | Asleep _ \<Rightarrow> Some s)"

definition init_turn :: "u32 \<Rightarrow> 'a fs_state_scheme \<Rightarrow> (wait_result \<times> 'a fs_state_scheme) option" where
  "init_turn stat s = do {
     (r, s) \<leftarrow> sys_wait_turn s;
     s \<leftarrow> init_report stat r s;
     Some (r, s)
   }"

subsection \<open>Commands\<close>

partial_function (option) cat_loop :: "u32 \<Rightarrow> u32 \<Rightarrow> 'a fs_state_scheme \<Rightarrow> 'a fs_state_scheme option" where
  "cat_loop fd buf_size s = do {
     (read_bytes, bs, s) \<leftarrow> sys_read fd buf_size s;
     if read_bytes = - 1 then Some s
     else do {
       (_, s) \<leftarrow> sys_write 1 bs read_bytes s;
       cat_loop fd buf_size s
     }
   }"

definition cat_path :: "u8 list \<Rightarrow> 'a fs_state_scheme \<Rightarrow> (u8 list \<times> 'a fs_state_scheme) option" where
  "cat_path arg s =
     (let abs_path = replicate 512 0
      in if arg = [] \<or> hd arg \<noteq> slash then do {
           (_, abs_path, s) \<leftarrow> sys_getcwd abs_path 512 s;
           abs_path \<leftarrow> arr_strcat abs_path [slash];
           abs_path \<leftarrow> arr_strcat abs_path arg;
           Some (abs_path, s)
         } else do { abs_path \<leftarrow> write_at (arg @ [0]) 0 abs_path; Some (abs_path, s) })"

definition cat_main :: "dir_entry \<Rightarrow> u8 list \<Rightarrow> u8 list list \<Rightarrow> 'a fs_state_scheme \<Rightarrow> (u32 \<times> 'a fs_state_scheme) option" where
  "cat_main dir_e garbage argv s =
     (if length argv > 2 then do {
        s \<leftarrow> printf ''cat: argument error\<newline>'' [] s;
        Some (- 2, s)
      } else if length argv = 1 then do {
        (_, bs, s) \<leftarrow> sys_read 0 512 s;
        t \<leftarrow> str_of (patch 0 bs (replicate 512 0));
        s \<leftarrow> printf ''%s'' [AStr t] s;
        Some (0, s)
      } else do {
        (bf, s) \<leftarrow> sys_malloc 1024 s;
        if bf = NULL then do {
          s \<leftarrow> printf ''cat: malloc memory failed\<newline>'' [] s;
          Some (- 1, s)
        } else do {
          arg \<leftarrow> get_at argv 1;
          (abs_path, s) \<leftarrow> cat_path arg s;
          path \<leftarrow> str_of abs_path;
          (fd, s) \<leftarrow> sys_open dir_e garbage path O_RDONLY s;
          if fd = - 1 then do {
            s \<leftarrow> printf ''cat: open: open %s failed\<newline>'' [AStr arg] s;
            Some (- 1, s)
          } else do {
            s \<leftarrow> cat_loop fd 1024 s;
            s \<leftarrow> sys_free bf s;
            (_, s) \<leftarrow> sys_close fd s;
            Some (66, s)
          }
        }
      })"

text \<open>A failed assertion of a user program: the state in which \<open>user_spin\<close> loops for ever.\<close>

definition user_spin :: "u8 list \<Rightarrow> u32 \<Rightarrow> u8 list \<Rightarrow> u8 list \<Rightarrow> 'a fs_state_scheme \<Rightarrow> 'a fs_state_scheme option" where
  "user_spin fname line func condition s =
     printf ''\<newline>\<newline>\<newline>\<newline>filename %s\<newline>line %d\<newline>function %s\<newline>condition %s\<newline>''
       [AStr fname, AInt line, AStr func, AStr condition] s"

text \<open>The three programs that show how processes work. \<open>prog_no_arg_main\<close> and \<open>prog_arg_main\<close> give the state in which the program enters its
  endless loop. A program that forks is cut at the call: \<open>\<dots>_main\<close> is the parent, and a child goes on with \<open>\<dots>_forked\<close> and the result 0
  once it is scheduled.\<close>

definition prog_no_arg_main :: "'a fs_state_scheme \<Rightarrow> 'a fs_state_scheme option" where
  "prog_no_arg_main s = printf ''prog_no_arg from disk\<newline>'' [] s"

text \<open>\<open>pid\<close> is the result of \<open>fork\<close>, \<open>fds\<close> the array that \<open>pipe\<close> filled.\<close>

definition prog_pipe_forked :: "u16 \<Rightarrow> u32 list \<Rightarrow> 'a fs_state_scheme \<Rightarrow> (u32 \<times> 'a fs_state_scheme) option" where
  "prog_pipe_forked p fds s = do {
     inp \<leftarrow> get_at fds 0;
     outp \<leftarrow> get_at fds 1;
     if p \<noteq> 0 then do {
       (_, s) \<leftarrow> sys_close inp s;
       (_, s) \<leftarrow> sys_write outp (lit ''Hi, my son, I love you!'' @ [0]) 24 s;
       me \<leftarrow> sys_getpid s;
       s \<leftarrow> printf ''\<newline>I'm father, my pid is %d\<newline>'' [AInt me] s;
       Some (8, s)
     } else do {
       (_, s) \<leftarrow> sys_close outp s;
       (_, bs, s) \<leftarrow> sys_read inp 24 s;
       me \<leftarrow> sys_getpid s;
       s \<leftarrow> printf ''\<newline>I'm child, my pid is %d\<newline>'' [AInt me] s;
       t \<leftarrow> str_of (patch 0 bs (replicate 32 0));
       s \<leftarrow> printf ''I'm child, my father said to me: \"%s\"\<newline>'' [AStr t] s;
       Some (9, s)
     }
   }"

definition prog_pipe_main :: "symbols \<Rightarrow> 'a fs_state_scheme \<Rightarrow> (u32 \<times> 'a fs_state_scheme) option" where
  "prog_pipe_main sy s = do {
     (_, filled, s) \<leftarrow> sys_pipe s;
     let fds = (if filled = [] then [- 1, 0] else filled);
     (p, s) \<leftarrow> sys_fork sy s;
     prog_pipe_forked p fds s
   }"

primrec print_args :: "u8 list list \<Rightarrow> u32 \<Rightarrow> 'a fs_state_scheme \<Rightarrow> 'a fs_state_scheme option" where
  "print_args [] arg_idx s = Some s"
| "print_args (arg # args) arg_idx s = do {
     s \<leftarrow> printf ''argv[%d] is %s\<newline>'' [AInt arg_idx, AStr arg] s;
     print_args args (arg_idx + 1) s
   }"

text \<open>\<open>argv\<close> is the address of the array, \<open>args\<close> the strings it points to.\<close>

definition prog_arg_forked ::
    "dir_entry \<Rightarrow> u8 list \<Rightarrow> addr \<Rightarrow> u8 list list \<Rightarrow> u16 \<Rightarrow> 'a fs_state_scheme \<Rightarrow> 'a fs_state_scheme option" where
  "prog_arg_forked dir_e garbage argv args p s = do {
     me \<leftarrow> sys_getpid s;
     if p \<noteq> 0 then do {
       s \<leftarrow> printf ''\<newline>    I'm father prog, my pid:%d, I will show process list\<newline>'' [AInt me] s;
       sys_ps s
     } else do {
       arg \<leftarrow> get_at args 1;
       s \<leftarrow> printf ''\<newline>    I'm child prog, my pid:%d, I will exec %s right now\<newline>'' [AInt me, AStr arg] s;
       (path, s) \<leftarrow> (if arg = [] \<or> hd arg \<noteq> slash then do {
            (abs_path, s) \<leftarrow> cat_path arg s;
            path \<leftarrow> str_of abs_path;
            Some (path, s)
          } else Some (arg, s));
       (_, s) \<leftarrow> sys_execv dir_e garbage path argv s;
       Some s
     }
   }"

definition prog_arg_main ::
    "symbols \<Rightarrow> dir_entry \<Rightarrow> u8 list \<Rightarrow> addr \<Rightarrow> u8 list list \<Rightarrow> 'a fs_state_scheme \<Rightarrow> 'a fs_state_scheme option" where
  "prog_arg_main sy dir_e garbage argv args s = do {
     s \<leftarrow> print_args args 0 s;
     (p, s) \<leftarrow> sys_fork sy s;
     prog_arg_forked dir_e garbage argv args p s
   }"

end
