(* ===== verification/Blocks.thy ===== *)
theory Blocks
  imports Inode
begin

text \<open>
  The interface between the disk driver and the file system. \<open>sector_store\<close> is what the file system relies on: a sector that is
  read is the sector last written, other sectors and the rest of the state stay. Inside the locale the data of a sequence of sectors
  is treated as one string of bytes (\<open>contents\<close>), and the read-modify-write of one sector as an update of that string.
  The interpretation \<open>hd\<close> discharges the laws for \<open>ide_read\<close> and \<open>ide_write\<close> of one sector.
\<close>

unbundle bit_operations_syntax

definition contents :: "(u32 \<Rightarrow> u8 list) \<Rightarrow> u32 list \<Rightarrow> u8 list" where
  "contents sec bs = concat (map sec bs)"

lemma contents_simps [simp]:
  "contents sec [] = []" "contents sec (b # bs) = sec b @ contents sec bs" "contents sec (as @ bs) = contents sec as @ contents sec bs"
  by (simp_all add: contents_def)

lemma length_contents: "(\<And>b. length (sec b) = 512) \<Longrightarrow> length (contents sec bs) = 512 * length bs"
  by (induction bs) simp_all

lemma contents_other: "b \<notin> set bs \<Longrightarrow> contents (sec(b := xs)) bs = contents sec bs"
  by (induction bs) auto

lemma contents_split:
  assumes "k < length bs"
  shows "contents sec bs = contents sec (take k bs) @ sec (bs ! k) @ contents sec (drop (Suc k) bs)"
  using contents_simps(3) [of sec "take k bs" "bs ! k # drop (Suc k) bs"] id_take_nth_drop [OF assms] by simp

lemma contents_nth:
  assumes "k < length bs" "\<And>b. length (sec b) = 512" "off + n \<le> 512"
  shows "take n (drop (512 * k + off) (contents sec bs)) = take n (drop off (sec (bs ! k)))"
proof -
  have l: "length (contents sec (take k bs)) = 512 * k" using assms(1,2) by (simp add: length_contents)
  show ?thesis using assms l by (simp add: contents_split [OF assms(1)] flip: drop_drop)
qed

lemma contents_update:
  assumes "distinct bs" "k < length bs" "\<And>b. length (sec b) = 512" "length xs = 512"
  shows "contents (sec(bs ! k := xs)) bs = patch (512 * k) xs (contents sec bs)"
proof -
  have l: "length (contents sec (take k bs)) = 512 * k" using assms(2,3) by (simp add: length_contents)
  have "distinct (take k bs @ bs ! k # drop (Suc k) bs)"
    using assms(1) id_take_nth_drop [OF assms(2)] by simp
  then have "bs ! k \<notin> set (take k bs)" "bs ! k \<notin> set (drop (Suc k) bs)" by auto
  then show ?thesis
    using l assms(3,4) by (simp add: contents_split [OF assms(2)] contents_other patch_def del: contents_simps(2,3))
qed

locale sector_store =
  fixes ready :: "'s \<Rightarrow> bool" and sector :: "'s \<Rightarrow> u32 \<Rightarrow> u8 list"
    and rd :: "u32 \<Rightarrow> 's \<Rightarrow> (u8 list \<times> 's) option" and wr :: "u32 \<Rightarrow> u8 list \<Rightarrow> 's \<Rightarrow> 's option"
    and same :: "'s \<Rightarrow> 's \<Rightarrow> bool" and last_lba :: u32
  assumes length_sector: "ready s \<Longrightarrow> length (sector s lba) = 512"
    and read_sector: "ready s \<Longrightarrow> lba \<le> last_lba \<Longrightarrow>
      \<exists>s'. rd lba s = Some (sector s lba, s') \<and> ready s' \<and> same s s' \<and> sector s' = sector s"
    and write_sector: "ready s \<Longrightarrow> lba \<le> last_lba \<Longrightarrow> length xs = 512 \<Longrightarrow>
      \<exists>s'. wr lba xs s = Some s' \<and> ready s' \<and> same s s' \<and> sector s' = (sector s)(lba := xs)"
    and same_refl: "same s s"
    and same_trans: "same s s' \<Longrightarrow> same s' s'' \<Longrightarrow> same s s''"
begin

text \<open>Writing \<open>xs\<close> at offset \<open>off\<close> of block \<open>k\<close>: the sector is read first, or, when \<open>off\<close> is 0 and nothing behind \<open>xs\<close> matters, taken as zeroes.\<close>

lemma write_part:
  assumes "ready s" "distinct bs" "k < length bs" "bs ! k \<le> last_lba" "off + length xs \<le> 512" "first \<or> off = 0"
  shows "\<exists>old s1 s2. (if first then rd (bs ! k) s else Some (replicate 512 0, s)) = Some (old, s1) \<and> same s s1 \<and>
    wr (bs ! k) (patch off xs old) s1 = Some s2 \<and> ready s2 \<and> same s s2 \<and>
    take (512 * k + off + length xs) (contents (sector s2) bs) = take (512 * k + off) (contents (sector s) bs) @ xs"
proof -
  let ?b = "bs ! k"
  define old where "old = (if first then sector s ?b else replicate 512 0)"
  have lo: "length old = 512" using length_sector [OF assms(1)] by (simp add: old_def)
  obtain s1 where s1: "(if first then rd ?b s else Some (replicate 512 0, s)) = Some (old, s1)" "ready s1" "same s s1"
      "sector s1 = sector s"
    using read_sector [OF assms(1,4)] assms(1) same_refl [of s] by (cases first) (auto simp: old_def)
  let ?new = "patch off xs old" and ?C = "contents (sector s) bs"
  have ln: "length ?new = 512" using lo assms(5) by simp
  obtain s2 where s2: "wr ?b ?new s1 = Some s2" "ready s2" "same s1 s2" "sector s2 = (sector s)(?b := ?new)"
    using write_sector [OF s1(2) assms(4) ln] s1(4) by auto
  have "same s s2" using s1(3) s2(3) by (rule same_trans)
  have lC: "length ?C = 512 * length bs" "length (contents (sector s) (take k bs)) = 512 * k"
    using assms(3) length_sector [OF assms(1)] by (simp_all add: length_contents)
  have t0: "take (off + length xs) ?new = take off old @ xs" using lo assms(5) by (simp add: patch_def)
  have "take off old = take off (sector s ?b)" using assms(6) by (auto simp: old_def)
  also have "\<dots> = take off (drop (512 * k) ?C)"
    using contents_nth [OF assms(3) length_sector [OF assms(1)], of 0 off] assms(5) by simp
  finally have t: "take (off + length xs) ?new = take off (drop (512 * k) ?C) @ xs" unfolding t0 by simp
  have "contents (sector s2) bs = patch (512 * k) ?new ?C"
    unfolding s2(4) using contents_update [OF assms(2,3) length_sector [OF assms(1)] ln] .
  then have "take (512 * k + off + length xs) (contents (sector s2) bs) = take (512 * k) ?C @ take (off + length xs) ?new"
    using lC(1) ln assms(3,5) by (simp add: patch_def [of "512 * k"] min_absorb1)
  also have "\<dots> = take (512 * k + off) ?C @ xs" unfolding t by (simp add: take_add)
  finally show ?thesis using s1(1,3) s2(1,2) \<open>same s s2\<close> by blast
qed

end

text \<open>The driver is such a store, for every disk.\<close>

definition disk_sector :: "addr \<Rightarrow> 'a ide_state_scheme \<Rightarrow> u32 \<Rightarrow> u8 list" where
  "disk_sector dk s lba = platter s (disk_port dk s) (disk_slave dk s) lba"

lemma sectors_one: "sectors (disk_port dk s) (disk_slave dk s) lba 1 s = disk_sector dk s lba"
  by (simp add: sectors_def disk_sector_def)

lemma same_but_disk_refl: "same_but_disk s s"
  unfolding same_but_disk_def by (intro exI [of _ "outs s"] exI [of _ "platter s"]) simp

lemma same_but_disk_trans: "same_but_disk s s' \<Longrightarrow> same_but_disk s' s'' \<Longrightarrow> same_but_disk s s''"
  by (auto simp: same_but_disk_def) metis

interpretation hd: sector_store "disk_ready dk" "disk_sector dk" "\<lambda>lba s. ide_read dk lba 1 s" "\<lambda>lba xs s. ide_write dk lba xs 1 s"
  same_but_disk max_lba for dk
proof
  fix s :: "'a ide_state_scheme" and lba :: u32 and xs :: "u8 list"
  assume r: "disk_ready dk s"
  show "length (disk_sector dk s lba) = 512"
    using r chan_readyD(6) [of dk s] by (simp add: disk_ready_def disk_sector_def)
  assume "lba \<le> max_lba"
  then have l: "unat lba + unat (1 :: u32) \<le> Suc (unat max_lba)" by (simp add: word_le_nat_alt)
  obtain os where "ide_read dk lba 1 s = Some (disk_sector dk s lba, log_out os s)"
    using ide_read_ok [OF r _ l] sectors_one [of dk s lba] by auto
  moreover have "same_but_disk s (log_out os s)"
    unfolding same_but_disk_def log_out_def by (intro exI [of _ "outs s @ os"] exI [of _ "platter s"]) simp
  moreover have "disk_sector dk (log_out os s) = disk_sector dk s" by (simp add: disk_sector_def fun_eq_iff)
  ultimately show "\<exists>s'. ide_read dk lba 1 s = Some (disk_sector dk s lba, s') \<and> disk_ready dk s' \<and> same_but_disk s s' \<and>
      disk_sector dk s' = disk_sector dk s"
    using r by auto
  assume xs: "length xs = 512"
  let ?t = "put_sectors (disk_port dk s) (disk_slave dk s) lba xs s"
  obtain os where w: "ide_write dk lba xs 1 s = Some (log_out os ?t)"
    using ide_write_ok [OF r _ l, of xs] xs by auto
  have pl: "platter ?t = store_at (disk_port dk s) (disk_slave dk s) lba xs (platter s)" by (simp add: put_sectors_def)
  have "disk_sector dk (log_out os ?t) l = ((disk_sector dk s)(lba := xs)) l" for l
  proof (cases "l = lba")
    case False
    then have "0 < unat (l - lba)" by (simp add: unat_gt_0)
    then show ?thesis using False xs by (simp add: disk_sector_def pl store_at_def)
  qed (simp add: disk_sector_def pl store_at_def xs)
  then have "disk_sector dk (log_out os ?t) = (disk_sector dk s)(lba := xs)" by (rule ext)
  moreover have "disk_ready dk (log_out os ?t)" using r xs by (intro disk_ready_log disk_ready_put) simp_all
  moreover have "same_but_disk s (log_out os ?t)"
    using same_but_disk_put [of s os "disk_port dk s" "disk_slave dk s" lba xs "[]"] by (simp add: log_out_def)
  ultimately show "\<exists>s'. ide_write dk lba xs 1 s = Some s' \<and> disk_ready dk s' \<and> same_but_disk s s' \<and>
      disk_sector dk s' = (disk_sector dk s)(lba := xs)"
    using w by auto
qed (rule same_but_disk_refl, rule same_but_disk_trans)

end
