(* ===== verification/File_Data.thy ===== *)
theory File_Data
  imports File Blocks
begin

text \<open>
  What the transfer loops of \<open>file_write\<close> and \<open>file_read\<close> do to the data of a file. The file is the string of bytes in its
  sectors \<open>ws\<close> up to \<open>i_size\<close>; the array \<open>blocks\<close> the code works with needs to agree with \<open>ws\<close> only where it is used.
\<close>

unbundle bit_operations_syntax

subsection \<open>The console\<close>

definition console_idle :: "'a ide_state_scheme \<Rightarrow> bool" where
  "console_idle s \<longleftrightarrow> lock_idle (console_lock s) s \<and> running_thread s \<noteq> NULL"

lemma printk_ok:
  assumes "console_idle s" "format (lit fmt) args = Some t" "length t < 1024"
  shows "printk fmt args s = Some (s\<lparr>screen := screen s @ t\<rparr>)"
proof -
  let ?L = "console_lock s" and ?s = "s\<lparr>screen := screen s @ t\<rparr>"
  have "put_str t (take_lock ?L s) = take_lock ?L ?s"
    by (simp add: put_str_screen take_lock_def set_repeat_def set_holder_def set_value_def running_thread_def)
  moreover have "lock_idle ?L ?s"
    using assms(1) list_empty_cong [of ?s s] by (simp add: console_idle_def lock_idle_def lock_free_def)
  ultimately have "lock_release ?L (put_str t (take_lock ?L s)) = Some ?s" by (simp add: release_taken)
  then show ?thesis
    using assms lock_now_free [of ?L s] 
    by (simp add: printk_def console_put_str_def console_acquire_def console_release_def console_idle_def lock_idle_def)
qed

lemma length_to_base: "2 \<le> b \<Longrightarrow> n < b ^ Suc k \<Longrightarrow> length (to_base b n) \<le> Suc k"
proof (induction k arbitrary: n)
  case 0
  then show ?case by (subst to_base.simps) simp
next
  case (Suc k)
  have "n div b < b ^ Suc k" using Suc.prems by (simp add: less_mult_imp_div_less mult.commute)
  then show ?case using Suc.IH [of "n div b"] Suc.prems(1) by (subst to_base.simps) simp
qed

lemma length_base_str: "length (base_str 16 w) \<le> 8"
  using length_to_base [of 16 "unat w" 7] unsigned_less [of w, where 'a = nat] by (simp add: base_str_def)

subsection \<open>State that a transfer leaves alone\<close>

definition with_io :: "nat \<Rightarrow> u32 \<Rightarrow> u32 \<Rightarrow> (u16 \<times> u8) list \<Rightarrow> (u16 \<Rightarrow> bool \<Rightarrow> u32 \<Rightarrow> u8 list) \<Rightarrow> u8 list \<Rightarrow> 'a fs_state_scheme \<Rightarrow> 'a fs_state_scheme" where
  "with_io fd sz pos os pl sc s = s\<lparr>outs := os, screen := sc, platter := pl,
     inodes := (inodes s)(fd_inode (file_table s ! fd) := (inodes s (fd_inode (file_table s ! fd)))\<lparr>i_size := sz\<rparr>),
     file_table := (file_table s)[fd := (file_table s ! fd)\<lparr>fd_pos := pos\<rparr>]\<rparr>"

text \<open>\<open>with_io\<close> collects the fields a transfer changes: the log of the ports, the text on the screen, the sectors, the size of the inode and the
  position of the open file.\<close>

lemma with_io_simps [simp]:
  "platter (with_io fd sz pos os pl sc s) = pl" "parts (with_io fd sz pos os pl sc s) = parts s"
  "cur_part (with_io fd sz pos os pl sc s) = cur_part s" "disks (with_io fd sz pos os pl sc s) = disks s"
  "disk_port dk (with_io fd sz pos os pl sc s) = disk_port dk s" "disk_slave dk (with_io fd sz pos os pl sc s) = disk_slave dk s"
  "length (file_table (with_io fd sz pos os pl sc s)) = length (file_table s)"
  by (simp_all add: with_io_def disk_port_def disk_slave_def)

lemma with_io_with_io [simp]:
  "fd < length (file_table s) \<Longrightarrow> with_io fd sz' pos' os' pl' sc' (with_io fd sz pos os pl sc s) = with_io fd sz' pos' os' pl' sc' s"
  by (simp add: with_io_def)

lemma with_io_file [simp]:
  assumes "fd < length (file_table s)"
  shows "file_table (with_io fd sz pos os pl sc s) ! fd = (file_table s ! fd)\<lparr>fd_pos := pos\<rparr>"
    "i_size (inodes (with_io fd sz pos os pl sc s) (fd_inode (file_table s ! fd))) = sz"
  using assms by (simp_all add: with_io_def)

definition part_disk :: "'a fs_state_scheme \<Rightarrow> addr" where
  "part_disk s = my_disk (parts s (cur_part s))"

lemma part_disk_with_io [simp]: "part_disk (with_io fd sz pos os pl sc s) = part_disk s"
  by (simp add: part_disk_def)

definition file_data :: "u32 list \<Rightarrow> 'a fs_state_scheme \<Rightarrow> u8 list" where
  "file_data ws s = contents (disk_sector (part_disk s) s) ws"

definition file_ready :: "nat \<Rightarrow> u32 list \<Rightarrow> 'a fs_state_scheme \<Rightarrow> bool" where
  "file_ready fd ws s \<longleftrightarrow> fd < length (file_table s) \<and> disk_ready (part_disk s) s \<and> console_idle s \<and>
     distinct ws \<and> length ws \<le> 140 \<and> (\<forall>l \<in> set ws. l \<le> max_lba)"

abbreviation fsize :: "nat \<Rightarrow> 'a fs_state_scheme \<Rightarrow> u32" where
  "fsize fd s \<equiv> i_size (inodes s (fd_inode (file_table s ! fd)))"

lemma ready_with_io:
  "disk_ready dk (with_io fd sz pos os pl sc s) = disk_ready dk (s\<lparr>outs := os, platter := pl\<rparr>)"
  "console_idle (with_io fd sz pos os pl sc s) = console_idle s"
  using list_empty_cong [of "with_io fd sz pos os pl sc s" s] list_empty_cong [of "s\<lparr>outs := os, platter := pl\<rparr>" s]
  by (simp_all add: with_io_def disk_ready_def chan_ready_def Let_def channel_at_def disk_slave_def lock_idle_def lock_free_def
      running_thread_def console_idle_def)

lemma console_idle_disk: "console_idle (s\<lparr>outs := os, platter := pl\<rparr>) = console_idle s"
  using list_empty_cong [of "s\<lparr>outs := os, platter := pl\<rparr>" s]
  by (simp add: lock_idle_def lock_free_def running_thread_def console_idle_def)

lemma disk_sector_platter: "platter s' = platter s \<Longrightarrow> disks s' = disks s \<Longrightarrow> chans s' = chans s \<Longrightarrow> disk_sector dk s' = disk_sector dk s"
  by (simp add: fun_eq_iff disk_sector_def disk_port_def disk_slave_def)

subsection \<open>One turn of the loops\<close>

lemma block_pos:
  fixes p :: u32
  shows "unat (p div BLOCK_SIZE) = unat p div 512" "unat (p mod BLOCK_SIZE) = unat p mod 512"
    "unat (BLOCK_SIZE - p mod BLOCK_SIZE) = 512 - unat p mod 512"
  by (simp_all add: BLOCK_SIZE_def SECTOR_SIZE_def unat_div unat_mod unat_sub_if')

lemma chunk_bounds:
  assumes "0 < left"
  shows "0 < chunk p left" "chunk p left \<le> left" "unat p mod 512 + chunk p left \<le> 512"
    "chunk p left = left \<or> (unat p + chunk p left) mod 512 = 0"
proof -
  define r where "r = unat p mod 512"
  have m: "r < 512" by (simp add: r_def)
  show "0 < chunk p left" "chunk p left \<le> left" "unat p mod 512 + chunk p left \<le> 512"
    unfolding chunk_def block_pos Let_def r_def [symmetric] using assms m by auto
  show "chunk p left = left \<or> (unat p + chunk p left) mod 512 = 0"
  proof (cases "left < 512 - unat p mod 512")
    case False
    then have "chunk p left = 512 - unat p mod 512" by (simp add: chunk_def block_pos Let_def)
    moreover have "unat p = 512 * (unat p div 512) + r" by (simp add: r_def)
    ultimately have "unat p + chunk p left = 512 * (unat p div 512) + 512" using m unfolding r_def [symmetric] by linarith
    then show ?thesis by simp
  qed (simp add: chunk_def block_pos Let_def)
qed

lemma write_chunk_ok:
  assumes "file_ready fd ws s" "src \<noteq> []" "unat (fsize fd s) + length src \<le> 512 * length ws"
    "get_at blocks (unat (fsize fd s) div 512) = Some (ws ! (unat (fsize fd s) div 512))" "first \<or> unat (fsize fd s) mod 512 = 0"
    and n: "n = chunk (fsize fd s) (length src)"
  shows "\<exists>os pl sc. let s' = with_io fd (fsize fd s + of_nat n) (fd_pos (file_table s ! fd) + of_nat n) os pl sc s in
    write_chunk_at fd blocks first src s = Some (drop n src, s') \<and> file_ready fd ws s' \<and>
    take (unat (fsize fd s) + n) (file_data ws s') = take (unat (fsize fd s)) (file_data ws s) @ take n src"
proof -
  let ?sz = "fsize fd s" and ?dk = "part_disk s"
  let ?k = "unat ?sz div 512" and ?off = "unat ?sz mod 512"
  let ?ino = "fd_inode (file_table s ! fd)"
  have F: "fd < length (file_table s)" "disk_ready ?dk s" "console_idle s" "distinct ws" "\<And>l. l \<in> set ws \<Longrightarrow> l \<le> max_lba" "length ws \<le> 140"
    using assms(1) by (simp_all add: file_ready_def)
  have c: "n \<le> length src" "?off + n \<le> 512" using chunk_bounds [of "length src" ?sz] assms(2) by (simp_all add: n)
  have "unat ?sz < 512 * length ws" using assms(2,3) by (cases src) simp_all
  then have k: "?k < length ws" by (simp add: less_mult_imp_div_less mult.commute)
  have w: "ws ! ?k \<le> max_lba" using F(5) k by simp
  obtain old s1 s2 where rw: "(if first then ide_read ?dk (ws ! ?k) 1 s else Some (replicate 512 0, s)) = Some (old, s1)"
      "same_but_disk s s1" "ide_write ?dk (ws ! ?k) (patch ?off (take n src) old) 1 s1 = Some s2" "disk_ready ?dk s2" "same_but_disk s s2"
      "take (512 * ?k + ?off + n) (contents (disk_sector ?dk s2) ws) = take (512 * ?k + ?off) (contents (disk_sector ?dk s) ws) @ take n src"
    using hd.write_part [OF F(2,4) k w, of ?off "take n src" first] c assms(5) by (auto simp: min_absorb1)
  obtain os1 pl1 where s1: "s1 = s\<lparr>outs := os1, platter := pl1\<rparr>" using rw(2) by (auto simp: same_but_disk_def)
  obtain os pl where s2: "s2 = s\<lparr>outs := os, platter := pl\<rparr>" using rw(5) by (auto simp: same_but_disk_def)
  define t where "t = lit ''file write at lba 0x'' @ base_str 16 (ws ! ?k) @ [10]"
  have f: "format (lit ''file write at lba 0x%x\<newline>'') [AInt (ws ! ?k)] = Some t"
    by (simp add: t_def lit_def char_code_def is_conv_def)
  have "length t < 1024" using length_base_str [of "ws ! ?k"] by (simp add: t_def lit_def)
  then have p: "printk ''file write at lba 0x%x\<newline>'' [AInt (ws ! ?k)] s2 = Some (s2\<lparr>screen := screen s2 @ t\<rparr>)"
    using F(3) by (intro printk_ok [OF _ f]) (simp_all add: s2 console_idle_disk)
  let ?s' = "with_io fd (?sz + of_nat n) (fd_pos (file_table s ! fd) + of_nat n) os pl (screen s @ t) s"
  have "write_chunk_at fd blocks first src s = Some (drop n src, ?s')"
    using rw(1) [unfolded part_disk_def] rw(3) p assms(4) F(1)
    by (simp add: write_chunk_at_def Let_def n [symmetric] block_pos part_disk_def s1 s2 upd_inode_def upd_file_def with_io_def)
  moreover have "file_ready fd ws ?s'"
    using F rw(4) by (simp add: file_ready_def ready_with_io s2)
  moreover have "disk_sector ?dk ?s' = disk_sector ?dk s2"
    unfolding s2 by (simp add: fun_eq_iff disk_sector_def disk_port_def disk_slave_def with_io_def)
  ultimately show ?thesis
    using rw(6) by (intro exI [of _ os] exI [of _ pl] exI [of _ "screen s @ t"]) (simp add: file_data_def Let_def)
qed

subsection \<open>The loops\<close>

text \<open>\<open>blocks\<close> has the file's sectors where bytes \<open>a\<close> to \<open>b\<close> lie.\<close>

definition agrees :: "u32 list \<Rightarrow> u32 list \<Rightarrow> nat \<Rightarrow> nat \<Rightarrow> bool" where
  "agrees blocks ws a b \<longleftrightarrow> (\<forall>k. a \<le> 512 * k + 511 \<and> 512 * k < b \<longrightarrow> get_at blocks k = Some (ws ! k))"

lemma agreesD: "agrees blocks ws a b \<Longrightarrow> a < b \<Longrightarrow> get_at blocks (a div 512) = Some (ws ! (a div 512))"
  unfolding agrees_def by (elim allE [of _ "a div 512"]) (use mult_div_mod_eq [of 512 a] mod_less_divisor [of 512 a] in linarith)

lemma agrees_mono: "agrees blocks ws a b \<Longrightarrow> a \<le> a' \<Longrightarrow> b' \<le> b \<Longrightarrow> agrees blocks ws a' b'"
  by (auto simp: agrees_def)

lemma unat_file_add:
  fixes x :: u32
  assumes "unat x + n \<le> 71680"
  shows "unat (x + of_nat n) = unat x + n"
  using assms by (simp add: unat_word_ariths unat_of_nat)

lemma write_data_ok:
  assumes "file_ready fd ws s" "unat (fsize fd s) + length src \<le> 512 * length ws"
    "agrees blocks ws (unat (fsize fd s)) (unat (fsize fd s) + length src)" "first \<or> unat (fsize fd s) mod 512 = 0 \<or> src = []"
  shows "\<exists>os pl sc. let s' = with_io fd (fsize fd s + of_nat (length src)) (fd_pos (file_table s ! fd) + of_nat (length src)) os pl sc s in
    write_data fd blocks first src s = Some s' \<and> file_ready fd ws s' \<and>
    take (unat (fsize fd s) + length src) (file_data ws s') = take (unat (fsize fd s)) (file_data ws s) @ src"
  using assms
proof (induction "length src" arbitrary: src s first rule: less_induct)
  case less
  show ?case
  proof (cases "src = []")
    case True
    have "with_io fd (fsize fd s) (fd_pos (file_table s ! fd)) (outs s) (platter s) (screen s) s = s"
      using less.prems(1) by (simp add: with_io_def file_ready_def)
    then show ?thesis
      using True less.prems(1)
      by (intro exI [of _ "outs s"] exI [of _ "platter s"] exI [of _ "screen s"]) (simp add: write_data.simps)
  next
    case False
    let ?sz = "fsize fd s" and ?p = "fd_pos (file_table s ! fd)"
    define n where "n = chunk ?sz (length src)"
    have fd: "fd < length (file_table s)" and ws: "length ws \<le> 140" using less.prems(1) by (simp_all add: file_ready_def)
    have c: "0 < n" "n \<le> length src" "n = length src \<or> (unat ?sz + n) mod 512 = 0"
      using chunk_bounds [of "length src" ?sz] False by (simp_all add: n_def)
    have g: "get_at blocks (unat ?sz div 512) = Some (ws ! (unat ?sz div 512))"
      using agreesD [OF less.prems(3)] False by simp
    have f: "first \<or> unat ?sz mod 512 = 0" using less.prems(4) False by simp
    obtain os pl sc where w: "write_chunk_at fd blocks first src s = Some (drop n src, with_io fd (?sz + of_nat n) (?p + of_nat n) os pl sc s)"
        "file_ready fd ws (with_io fd (?sz + of_nat n) (?p + of_nat n) os pl sc s)"
        "take (unat ?sz + n) (file_data ws (with_io fd (?sz + of_nat n) (?p + of_nat n) os pl sc s)) =
           take (unat ?sz) (file_data ws s) @ take n src"
      using write_chunk_ok [OF less.prems(1) False less.prems(2) g f n_def] unfolding Let_def by blast
    let ?t = "with_io fd (?sz + of_nat n) (?p + of_nat n) os pl sc s"
    have sz: "fsize fd ?t = ?sz + of_nat n" "fd_pos (file_table ?t ! fd) = ?p + of_nat n" using fd by simp_all
    have u: "unat (?sz + of_nat n) = unat ?sz + n" using less.prems(2) ws c(2) by (intro unat_file_add) linarith
    have "\<exists>os' pl' sc'. let s' = with_io fd (fsize fd ?t + of_nat (length (drop n src)))
        (fd_pos (file_table ?t ! fd) + of_nat (length (drop n src))) os' pl' sc' ?t in
      write_data fd blocks False (drop n src) ?t = Some s' \<and> file_ready fd ws s' \<and>
      take (unat (fsize fd ?t) + length (drop n src)) (file_data ws s') = take (unat (fsize fd ?t)) (file_data ws ?t) @ drop n src"
    proof (rule less.hyps)
      show "length (drop n src) < length src" using c(1) False by simp
      show "unat (fsize fd ?t) + length (drop n src) \<le> 512 * length ws" using less.prems(2) c(2) unfolding sz u by simp
      show "agrees blocks ws (unat (fsize fd ?t)) (unat (fsize fd ?t) + length (drop n src))"
        unfolding sz u by (rule agrees_mono [OF less.prems(3)]) (use c(2) in simp_all)
      show "False \<or> unat (fsize fd ?t) mod 512 = 0 \<or> drop n src = []" unfolding sz u using c(3) by auto
    qed (rule w(2))
    then obtain os' pl' sc' where r: "write_data fd blocks False (drop n src) ?t =
          Some (with_io fd (?sz + of_nat (length src)) (?p + of_nat (length src)) os' pl' sc' s)"
        "file_ready fd ws (with_io fd (?sz + of_nat (length src)) (?p + of_nat (length src)) os' pl' sc' s)"
        "take (unat ?sz + length src) (file_data ws (with_io fd (?sz + of_nat (length src)) (?p + of_nat (length src)) os' pl' sc' s)) =
          take (unat ?sz + n) (file_data ws ?t) @ drop n src"
      using c(2) fd unfolding sz u by (auto simp: Let_def add.assoc simp flip: of_nat_add)
    show ?thesis
      using r w(1,3) False
      by (intro exI [of _ os'] exI [of _ pl'] exI [of _ sc']) (simp add: Let_def write_data.simps [of fd blocks first])
  qed
qed

lemma read_data_ok:
  assumes "file_ready fd ws s" "unat (fd_pos (file_table s ! fd)) + left \<le> 512 * length ws"
    "agrees blocks ws (unat (fd_pos (file_table s ! fd))) (unat (fd_pos (file_table s ! fd)) + left)"
  shows "\<exists>os pl. let s' = with_io fd (fsize fd s) (fd_pos (file_table s ! fd) + of_nat left) os pl (screen s) s in
    read_data fd blocks left acc s = Some (acc @ take left (drop (unat (fd_pos (file_table s ! fd))) (file_data ws s)), s') \<and>
    file_ready fd ws s' \<and> file_data ws s' = file_data ws s"
  using assms
proof (induction left arbitrary: acc s rule: less_induct)
  case (less left)
  let ?p = "fd_pos (file_table s ! fd)" and ?dk = "part_disk s"
  have F: "fd < length (file_table s)" "disk_ready ?dk s" "console_idle s" "distinct ws" "\<And>l. l \<in> set ws \<Longrightarrow> l \<le> max_lba" "length ws \<le> 140"
    using less.prems(1) by (simp_all add: file_ready_def)
  show ?case
  proof (cases "left = 0")
    case True
    have "with_io fd (fsize fd s) ?p (outs s) (platter s) (screen s) s = s" using F(1) by (simp add: with_io_def)
    then show ?thesis using True less.prems(1) by (intro exI [of _ "outs s"] exI [of _ "platter s"]) (simp add: read_data.simps)
  next
    case False
    define n where "n = chunk ?p left"
    have c: "0 < n" "n \<le> left" "unat ?p mod 512 + n \<le> 512" using chunk_bounds [of left ?p] False by (simp_all add: n_def)
    let ?k = "unat ?p div 512"
    have g: "get_at blocks ?k = Some (ws ! ?k)" using agreesD [OF less.prems(3)] False by simp
    have "unat ?p < 512 * length ws" using False less.prems(2) by simp
    then have k: "?k < length ws" by (simp add: less_mult_imp_div_less mult.commute)
    obtain s1 where rd: "ide_read ?dk (ws ! ?k) 1 s = Some (disk_sector ?dk s (ws ! ?k), s1)" "disk_ready ?dk s1" "same_but_disk s s1"
        "disk_sector ?dk s1 = disk_sector ?dk s"
      using hd.read_sector [OF F(2) F(5)] k by (meson nth_mem)
    obtain os pl where s1: "s1 = s\<lparr>outs := os, platter := pl\<rparr>" using rd(3) by (auto simp: same_but_disk_def)
    let ?t = "with_io fd (fsize fd s) (?p + of_nat n) os pl (screen s) s"
    have t: "upd_file fd (\<lambda>x. x\<lparr>fd_pos := fd_pos x + of_nat n\<rparr>) s1 = Some ?t"
      using F(1) by (simp add: upd_file_def s1 with_io_def)
    have sec: "disk_sector ?dk ?t = disk_sector ?dk s"
      unfolding rd(4) [symmetric] s1 by (simp add: fun_eq_iff disk_sector_def disk_port_def disk_slave_def with_io_def)
    have fd: "file_data ws ?t = file_data ws s" by (simp add: file_data_def sec)
    have pos: "fd_pos (file_table ?t ! fd) = ?p + of_nat n" "fsize fd ?t = fsize fd s" "screen ?t = screen s"
      using F(1) by (simp_all add: with_io_def)
    have u: "unat (?p + of_nat n) = unat ?p + n" using less.prems(2) F(6) c(2) by (intro unat_file_add) linarith
    have bytes: "take n (drop (unat ?p mod 512) (disk_sector ?dk s (ws ! ?k))) = take n (drop (unat ?p) (file_data ws s))"
      using contents_nth [OF k hd.length_sector [OF F(2)] c(3)] by (simp add: file_data_def)
    have "\<exists>os' pl'. let s' = with_io fd (fsize fd ?t) (fd_pos (file_table ?t ! fd) + of_nat (left - n)) os' pl' (screen ?t) ?t in
      read_data fd blocks (left - n) (acc @ take n (drop (unat ?p) (file_data ws s))) ?t =
        Some ((acc @ take n (drop (unat ?p) (file_data ws s))) @
          take (left - n) (drop (unat (fd_pos (file_table ?t ! fd))) (file_data ws ?t)), s') \<and>
      file_ready fd ws s' \<and> file_data ws s' = file_data ws ?t"
    proof (rule less.IH)
      show "file_ready fd ws ?t" using F rd(2) by (simp add: file_ready_def ready_with_io s1)
      show "left - n < left" using c(1) False by simp
      show "unat (fd_pos (file_table ?t ! fd)) + (left - n) \<le> 512 * length ws" using less.prems(2) c(2) unfolding pos u by simp
      show "agrees blocks ws (unat (fd_pos (file_table ?t ! fd))) (unat (fd_pos (file_table ?t ! fd)) + (left - n))"
        unfolding pos u by (rule agrees_mono [OF less.prems(3)]) (use c(2) in simp_all)
    qed
    then obtain os' pl' where r: "let s' = with_io fd (fsize fd s) (?p + of_nat left) os' pl' (screen s) s in
        read_data fd blocks (left - n) (acc @ take n (drop (unat ?p) (file_data ws s))) ?t =
          Some (acc @ take left (drop (unat ?p) (file_data ws s)), s') \<and> file_ready fd ws s' \<and> file_data ws s' = file_data ws s"
      using c(2) F(1) take_add [of n "left - n" "drop (unat ?p) (file_data ws s)"]
      unfolding pos u fd by (auto simp: Let_def add.assoc add.commute simp flip: of_nat_add)
    have "read_data fd blocks left acc s = read_data fd blocks (left - n) (acc @ take n (drop (unat ?p) (file_data ws s))) ?t"
      using g rd(1) t False bytes
      by (subst read_data.simps) (simp add: Let_def block_pos n_def [symmetric] part_disk_def [symmetric])
    then show ?thesis using r by (intro exI [of _ os'] exI [of _ pl']) (simp only: Let_def)
  qed
qed

subsection \<open>Writing and reading back\<close>

text \<open>C10: The transfer loops of \<open>file_write\<close> and \<open>file_read\<close> implement a byte string. Writing \<open>src\<close> to a file whose sectors are
  \<open>ws\<close> appends it: the loop returns, \<open>i_size\<close> grows by its length, the bytes before stay and the new bytes follow them, whatever the
  alignment of the old size and the number of sectors; the array of sector addresses has to be right only where it is used. A read from any position inside the file then returns
  exactly the bytes of that string.\<close>

theorem file_append_then_read:
  assumes "file_ready fd ws s" "unat (fsize fd s) + length src \<le> 512 * length ws"
    "agrees wblocks ws (unat (fsize fd s)) (unat (fsize fd s) + length src)" "agrees rblocks ws pos (pos + left)"
    "pos + left \<le> unat (fsize fd s) + length src"
  shows "\<exists>s1. write_data fd wblocks True src s = Some s1 \<and> unat (fsize fd s1) = unat (fsize fd s) + length src \<and>
    (\<exists>s2. read_data fd rblocks left [] (s1\<lparr>file_table := (file_table s1)[fd := (file_table s1 ! fd)\<lparr>fd_pos := of_nat pos\<rparr>]\<rparr>) =
       Some (take left (drop pos (take (unat (fsize fd s)) (file_data ws s) @ src)), s2))"
proof -
  have fd: "fd < length (file_table s)" and ws: "length ws \<le> 140" using assms(1) by (simp_all add: file_ready_def)
  obtain os pl sc where w: "write_data fd wblocks True src s =
        Some (with_io fd (fsize fd s + of_nat (length src)) (fd_pos (file_table s ! fd) + of_nat (length src)) os pl sc s)"
      "file_ready fd ws (with_io fd (fsize fd s + of_nat (length src)) (fd_pos (file_table s ! fd) + of_nat (length src)) os pl sc s)"
      "take (unat (fsize fd s) + length src) (file_data ws
         (with_io fd (fsize fd s + of_nat (length src)) (fd_pos (file_table s ! fd) + of_nat (length src)) os pl sc s)) =
       take (unat (fsize fd s)) (file_data ws s) @ src"
    using write_data_ok [OF assms(1,2,3)] unfolding Let_def by blast
  let ?s1 = "with_io fd (fsize fd s + of_nat (length src)) (fd_pos (file_table s ! fd) + of_nat (length src)) os pl sc s"
  have sz: "unat (fsize fd ?s1) = unat (fsize fd s) + length src"
    using fd unat_file_add [of "fsize fd s" "length src"] assms(2) ws by simp
  let ?t = "?s1\<lparr>file_table := (file_table ?s1)[fd := (file_table ?s1 ! fd)\<lparr>fd_pos := of_nat pos\<rparr>]\<rparr>"
  have t: "?t = with_io fd (fsize fd s + of_nat (length src)) (of_nat pos) os pl sc s" using fd by (simp add: with_io_def)
  have p: "unat (of_nat pos :: u32) = pos" using assms(2,5) ws by (simp add: unat_of_nat)
  have tf: "file_ready fd ws ?t" "fd_pos (file_table ?t ! fd) = of_nat pos" "file_data ws ?t = file_data ws ?s1"
    unfolding t using w(2) fd by (simp_all add: file_ready_def ready_with_io file_data_def disk_sector_def [abs_def])
  have le: "pos + left \<le> 512 * length ws" using assms(2,5) by simp
  obtain s2 where "read_data fd rblocks left [] ?t = Some ([] @ take left (drop pos (file_data ws ?s1)), s2)"
    using read_data_ok [OF tf(1), of left rblocks "[]"] assms(4) le unfolding tf p Let_def by blast
  moreover have "take left (drop pos (file_data ws ?s1)) = take left (drop pos (take (unat (fsize fd s)) (file_data ws s) @ src))"
    unfolding w(3) [symmetric] using assms(5) by (simp add: drop_take min_absorb1)
  ultimately show ?thesis using w(1) sz by auto
qed

text \<open>A file of 500 bytes in three sectors, to which 600 bytes are appended.\<close>

definition demo_file :: fs_state where
  "demo_file = demo_fs\<lparr>inodes := \<lambda>_. (inode_init 0)\<lparr>i_size := 500\<rparr>\<rparr>"

lemma demo_file_ready: "file_ready 3 [700, 701, 702] demo_file"
proof -
  have "console_idle demo_file"
    by (simp add: console_idle_def demo_file_def demo_fs_def demo_ide_def task_state.defs ide_state.defs mem_state.defs Task.demo_task_def
        lock_idle_def lock_free_def list_empty_def rd_next_def sema_waiters_def lock_sema_def list_head_def list_tail_def running_thread_def)
  moreover have "disk_ready 0xc000b350 demo_file"
    using part_okD(4) [OF demo_fs_part_ok] list_empty_cong [of demo_file demo_fs]
    by (simp add: demo_file_def demo_part_def disk_ready_def chan_ready_def Let_def channel_at_def disk_slave_def lock_idle_def
        lock_free_def running_thread_def)
  moreover have "part_disk demo_file = 0xc000b350"
    by (simp add: part_disk_def demo_file_def demo_fs_def demo_part_def ide_state.defs)
  moreover have "length (file_table demo_file) = 32" by (simp add: demo_file_def demo_fs_def ide_state.defs fs_state.defs)
  ultimately show ?thesis by (simp add: file_ready_def max_lba_def)
qed

theorem file_append_then_read_witness:
  "\<exists>s1 s2. write_data 3 [700, 701, 702] True (replicate 600 7) demo_file = Some s1 \<and>
     read_data 3 [700, 701, 702] 300 [] (s1\<lparr>file_table := (file_table s1)[3 := (file_table s1 ! 3)\<lparr>fd_pos := of_nat 600\<rparr>]\<rparr>) =
       Some (replicate 300 7, s2)"
proof -
  have sz: "fsize 3 demo_file = 500" by (simp add: demo_file_def)
  have ag: "agrees [700, 701, 702] [700, 701, 702] a b" if "b \<le> 1536" for a b
    using that by (auto simp: agrees_def get_at_def)
  have l: "length (file_data [700, 701, 702] demo_file) = 1536"
    using demo_file_ready unfolding file_data_def file_ready_def by (subst length_contents) (simp_all add: hd.length_sector)
  show ?thesis
    using file_append_then_read [OF demo_file_ready, of "replicate 600 7" "[700, 701, 702]" "[700, 701, 702]" 600 300] ag sz l
    by (auto simp: min_absorb1)
qed

end
