(* ===== verification/Dir_Data.thy ===== *)
theory Dir_Data
  imports File_Data
begin

text \<open>
  What the operations of \<open>Dir\<close> do to a directory, seen as the array of the 21 entries in each of its sectors
  (\<open>dir_slots\<close>): \<open>sync_dir_entry\<close> fills the first free slot and \<open>search_dir_entry\<close> finds the first slot with a name.
\<close>

unbundle bit_operations_syntax

definition sector_slots :: "u8 list \<Rightarrow> dir_entry list" where
  "sector_slots bf = map (entry_at bf) [0..<21]"

definition dir_slots :: "(u32 \<Rightarrow> u8 list) \<Rightarrow> u32 list \<Rightarrow> dir_entry list" where
  "dir_slots sec ws = concat (map (\<lambda>l. sector_slots (sec l)) ws)"

definition entry_name :: "dir_entry \<Rightarrow> u8 list" where
  "entry_name e = takeWhile (\<lambda>c. c \<noteq> 0) (filename e)"

definition named :: "dir_entry \<Rightarrow> bool" where
  "named e \<longleftrightarrow> 0 \<in> set (filename e)"

lemma length_slots [simp]: "length (sector_slots bf) = 21" "length (dir_slots sec ws) = 21 * length ws"
  by (induction ws) (simp_all add: sector_slots_def dir_slots_def)

lemma dir_slots_simps [simp]:
  "dir_slots sec [] = []" "dir_slots sec (w # ws) = sector_slots (sec w) @ dir_slots sec ws"
  "dir_slots sec (vs @ ws) = dir_slots sec vs @ dir_slots sec ws"
  by (simp_all add: dir_slots_def)

lemma dir_slots_other: "w \<notin> set ws \<Longrightarrow> dir_slots (sec(w := xs)) ws = dir_slots sec ws"
  by (induction ws) auto

subsection \<open>Entries and their bytes\<close>

lemma entry_of_bytes:
  assumes "length (filename e) = 16"
  shows "entry_of (entry_bytes e) = e" "length (entry_bytes e) = 24"
proof -
  have "le32 (filename e @ bytes32 (de_i_no e) @ bytes32 (f_type e)) 16 = de_i_no e"
    using le32_append [of "filename e" "bytes32 (de_i_no e) @ bytes32 (f_type e)" 0] assms by simp
  moreover have "le32 (filename e @ bytes32 (de_i_no e) @ bytes32 (f_type e)) 20 = f_type e"
    using le32_append [of "filename e @ bytes32 (de_i_no e)" "bytes32 (f_type e) @ []" 0] assms le32_bytes32 [of "f_type e" "[]"] by simp
  ultimately show "entry_of (entry_bytes e) = e" using assms by (simp add: entry_of_def entry_bytes_def)
  show "length (entry_bytes e) = 24" using assms by (simp add: entry_bytes_def)
qed

lemma entry_at_take: "entry_at bf k = entry_of (take 24 (drop (24 * k) bf))"
  by (simp add: entry_at_def entry_of_def le32_def min_def)

lemma entry_at_patch:
  assumes "length bf = 512" "length (filename e) = 16" "j < 21" "k < 21"
  shows "entry_at (patch (24 * j) (entry_bytes e) bf) k = (if k = j then e else entry_at bf k)"
proof (cases "k = j")
  case True
  then show ?thesis
    using assms take_drop_patch_same [of "24 * j" "entry_bytes e" bf] entry_of_bytes [OF assms(2)] by (simp add: entry_at_take)
next
  case False
  then have "24 * k + 24 \<le> 24 * j \<or> 24 * j + 24 \<le> 24 * k" by linarith
  then show ?thesis
    using assms False take_drop_patch_other [of "24 * j" "entry_bytes e" bf "24 * k" 24] entry_of_bytes(2) [OF assms(2)]
    by (simp add: entry_at_take)
qed

lemma slots_patch:
  assumes "length bf = 512" "length (filename e) = 16" "j < 21"
  shows "sector_slots (patch (24 * j) (entry_bytes e) bf) = (sector_slots bf)[j := e]"
proof (rule nth_equalityI)
  fix i assume "i < length (sector_slots (patch (24 * j) (entry_bytes e) bf))"
  then show "sector_slots (patch (24 * j) (entry_bytes e) bf) ! i = (sector_slots bf)[j := e] ! i"
    using entry_at_patch [OF assms] by (simp add: sector_slots_def nth_list_update)
qed simp

lemma takeWhile_take_zero: "(0 :: u8) \<in> set (take n xs) \<Longrightarrow> takeWhile (\<lambda>c. c \<noteq> 0) (take n xs) = takeWhile (\<lambda>c. c \<noteq> 0) xs"
  by (induction xs arbitrary: n) (auto simp: take_Cons split: nat.splits)

lemma name_at_slot:
  assumes "named (entry_at bf k)"
  shows "name_at bf k = Some (entry_name (entry_at bf k))"
proof -
  have z: "0 \<in> set (take 16 (drop (24 * k) bf))" using assms by (simp add: named_def entry_at_def entry_of_def)
  then show ?thesis
    using in_set_takeD [OF z] by (simp add: name_at_def str_of_def entry_name_def entry_at_def entry_of_def takeWhile_take_zero)
qed

subsection \<open>Searching\<close>

lemma find_entry_slots:
  assumes "\<And>k. k \<in> set ks \<Longrightarrow> named (entry_at bf k)"
  shows "find_entry nm ks bf = Some (find (\<lambda>k. entry_name (entry_at bf k) = nm) ks)"
  using assms by (induction ks) (simp_all add: name_at_slot)

lemma find_map_slots: "map_option (entry_at bf) (find (\<lambda>k. P (entry_at bf k)) ks) = find P (map (entry_at bf) ks)"
  by (induction ks) simp_all

lemma find_append: "find P (xs @ ys) = (case find P xs of None \<Rightarrow> find P ys | Some x \<Rightarrow> Some x)"
  by (induction xs) simp_all

lemma search_blocks_ok:
  assumes "disk_ready (my_disk (parts s part)) s" "\<And>l. l \<in> set lbas \<Longrightarrow> l \<le> max_lba"
    "\<And>e. e \<in> set (dir_slots (disk_sector (my_disk (parts s part)) s) (filter (\<lambda>l. l \<noteq> 0) lbas)) \<Longrightarrow> named e"
  shows "\<exists>s'. search_blocks part 21 nm lbas s =
      Some (find (\<lambda>e. entry_name e = nm) (dir_slots (disk_sector (my_disk (parts s part)) s) (filter (\<lambda>l. l \<noteq> 0) lbas)), s') \<and>
    same_but_disk s s' \<and> disk_ready (my_disk (parts s part)) s' \<and> disk_sector (my_disk (parts s part)) s' = disk_sector (my_disk (parts s part)) s"
  using assms
proof (induction lbas arbitrary: s)
  case Nil
  then show ?case using same_but_disk_refl by simp
next
  case (Cons l lbas)
  let ?dk = "my_disk (parts s part)"
  show ?case
  proof (cases "l = 0")
    case False
    let ?bf = "disk_sector ?dk s l"
    obtain s1 where s1: "ide_read ?dk l 1 s = Some (?bf, s1)" "disk_ready ?dk s1" "same_but_disk s s1"
        "disk_sector ?dk s1 = disk_sector ?dk s"
      using hd.read_sector [OF Cons.prems(1)] Cons.prems(2) by (meson list.set_intros(1))
    have dk: "my_disk (parts s1 part) = ?dk" using same_but_diskD(1) [OF s1(3)] by simp
    have fe: "find_entry nm [0..<21] ?bf = Some (find (\<lambda>k. entry_name (entry_at ?bf k) = nm) [0..<21])"
      by (rule find_entry_slots) (use Cons.prems(3) False in \<open>auto simp: sector_slots_def\<close>)
    have sl: "find (\<lambda>e. entry_name e = nm) (sector_slots ?bf) = map_option (entry_at ?bf) (find (\<lambda>k. entry_name (entry_at ?bf k) = nm) [0..<21])"
      unfolding sector_slots_def by (rule find_map_slots [symmetric])
    obtain s2 where s2: "search_blocks part 21 nm lbas s1 =
          Some (find (\<lambda>e. entry_name e = nm) (dir_slots (disk_sector ?dk s) (filter (\<lambda>l. l \<noteq> 0) lbas)), s2)"
        "same_but_disk s1 s2" "disk_ready ?dk s2" "disk_sector ?dk s2 = disk_sector ?dk s"
      using Cons.IH [of s1] Cons.prems False s1 unfolding dk by fastforce
    show ?thesis
      using s1 s2 False fe sl same_but_disk_trans [OF s1(3) s2(2)]
      by (cases "find (\<lambda>k. entry_name (entry_at ?bf k) = nm) [0..<21]") (auto simp: find_append)
  qed (use Cons in auto)
qed

subsection \<open>Adding an entry\<close>

lemma free_entry_slots:
  "free_entry ks bf = find (\<lambda>k. f_type (entry_at bf k) = FT_UNKNOWN) ks"
  by (induction ks) simp_all

text \<open>The first free slot of an array of slots.\<close>

definition first_free :: "dir_entry list \<Rightarrow> nat \<Rightarrow> bool" where
  "first_free es p \<longleftrightarrow> p < length es \<and> f_type (es ! p) = FT_UNKNOWN \<and> (\<forall>q < p. f_type (es ! q) \<noteq> FT_UNKNOWN)"

lemma find_upt_Some: "find P [0..<n] = Some j \<longleftrightarrow> j < n \<and> P j \<and> (\<forall>i < j. \<not> P i)"
  by (auto simp: find_Some_iff)

lemma first_free_cases:
  assumes "first_free (sector_slots bf @ es) p"
  shows "p < 21 \<and> free_entry [0..<21] bf = Some p \<or> 21 \<le> p \<and> free_entry [0..<21] bf = None \<and> first_free es (p - 21)"
proof (cases "p < 21")
  case True
  then have "free_entry [0..<21] bf = Some p"
    using assms unfolding free_entry_slots find_upt_Some by (auto simp: first_free_def nth_append sector_slots_def)
  then show ?thesis using True by simp
next
  case False
  have a: "f_type ((sector_slots bf @ es) ! q) \<noteq> FT_UNKNOWN" if "q < p" for q using assms that by (simp add: first_free_def)
  have "f_type (entry_at bf k) \<noteq> FT_UNKNOWN" if "k < 21" for k
    using a [of k] that False by (simp add: nth_append sector_slots_def)
  moreover have "f_type (es ! q) \<noteq> FT_UNKNOWN" if "q < p - 21" for q
    using a [of "21 + q"] that False by (simp add: nth_append)
  ultimately show ?thesis
    using assms False by (auto simp: free_entry_slots find_None_iff first_free_def nth_append)
qed

text \<open>The state after the entry was written to sector \<open>w\<close>.\<close>

lemma sync_loop_ok:
  assumes "disk_ready (part_disk s) s" "entries_per_sec sp = 21" "length (filename e) = 16"
    "first_free (dir_slots (disk_sector (part_disk s) s) (map ((!) blocks) ks)) p" "distinct (map ((!) blocks) ks)"
    "\<And>k. k \<in> set ks \<Longrightarrow> blocks ! k \<noteq> 0 \<and> blocks ! k \<le> max_lba"
  shows "\<exists>s1. sync_loop ino sp e (ks @ ks') blocks s = Some (True, grow_dir ino (dir_entry_size sp) s1) \<and>
    disk_ready (part_disk s) s1 \<and> same_but_disk s s1 \<and>
    (\<forall>l. l \<notin> set (map ((!) blocks) ks) \<longrightarrow> disk_sector (part_disk s) s1 l = disk_sector (part_disk s) s l) \<and>
    dir_slots (disk_sector (part_disk s) s1) (map ((!) blocks) ks) =
      (dir_slots (disk_sector (part_disk s) s) (map ((!) blocks) ks))[p := e]"
  using assms
proof (induction ks arbitrary: s p)
  case Nil
  then show ?case by (simp add: first_free_def)
next
  case (Cons k ks)
  let ?dk = "part_disk s" and ?w = "blocks ! k" and ?ws = "map ((!) blocks) ks"
  let ?bf = "disk_sector ?dk s ?w"
  have w: "?w \<noteq> 0" "?w \<le> max_lba" and nw: "?w \<notin> set ?ws" using Cons.prems(5,6) by auto
  have lb: "length ?bf = 512" by (rule hd.length_sector [OF Cons.prems(1)])
  obtain s1 where s1: "ide_read ?dk ?w 1 s = Some (?bf, s1)" "disk_ready ?dk s1" "same_but_disk s s1" "disk_sector ?dk s1 = disk_sector ?dk s"
    using hd.read_sector [OF Cons.prems(1) w(2)] by blast
  obtain os pl where u1: "s1 = s\<lparr>outs := os, platter := pl\<rparr>" using s1(3) by (auto simp: same_but_disk_def)
  have dk: "part_disk s1 = ?dk" by (simp add: part_disk_def u1)
  from first_free_cases [of ?bf "dir_slots (disk_sector ?dk s) ?ws" p] Cons.prems(4)
  consider (here) "p < 21" "free_entry [0..<21] ?bf = Some p" |
    (later) "21 \<le> p" "free_entry [0..<21] ?bf = None" "first_free (dir_slots (disk_sector ?dk s) ?ws) (p - 21)"
    by auto
  then show ?case
  proof cases
    case here
    let ?new = "patch (24 * p) (entry_bytes e) ?bf"
    have ln: "length ?new = 512" using lb entry_of_bytes(2) [OF Cons.prems(3)] here(1) by simp
    obtain s2 where s2: "ide_write ?dk ?w ?new 1 s1 = Some s2" "disk_ready ?dk s2" "same_but_disk s1 s2"
        "disk_sector ?dk s2 = (disk_sector ?dk s)(?w := ?new)"
      using hd.write_sector [OF s1(2) w(2) ln] s1(4) by auto
    have "dir_slots (disk_sector ?dk s2) (?w # ?ws) = (sector_slots ?bf)[p := e] @ dir_slots (disk_sector ?dk s) ?ws"
      using nw slots_patch [OF lb Cons.prems(3) here(1)] by (simp add: s2(4) dir_slots_other)
    also have "\<dots> = (dir_slots (disk_sector ?dk s) (?w # ?ws))[p := e]" using here(1) by (simp add: list_update_append)
    finally have sl: "dir_slots (disk_sector ?dk s2) (?w # ?ws) = (dir_slots (disk_sector ?dk s) (?w # ?ws))[p := e]" .
    have "sync_loop ino sp e ((k # ks) @ ks') blocks s = Some (True, grow_dir ino (dir_entry_size sp) s2)"
      using s1(1) s2(1) here w(1) Cons.prems(2) by (simp add: part_disk_def [symmetric] dk)
    moreover have "\<forall>l. l \<notin> set (map ((!) blocks) (k # ks)) \<longrightarrow> disk_sector ?dk s2 l = disk_sector ?dk s l"
      using s2(4) by simp
    ultimately show ?thesis using s2(2) same_but_disk_trans [OF s1(3) s2(3)] sl by (intro exI [of _ s2]) (simp only: list.map)
  next
    case later
    obtain s2 where s2: "sync_loop ino sp e (ks @ ks') blocks s1 = Some (True, grow_dir ino (dir_entry_size sp) s2)"
        "disk_ready ?dk s2" "same_but_disk s1 s2" "\<forall>l. l \<notin> set ?ws \<longrightarrow> disk_sector ?dk s2 l = disk_sector ?dk s l"
        "dir_slots (disk_sector ?dk s2) ?ws = (dir_slots (disk_sector ?dk s) ?ws)[p - 21 := e]"
      using Cons.IH [of s1 "p - 21"] Cons.prems later(3) s1(2,4) unfolding dk by auto
    have "dir_slots (disk_sector ?dk s2) (?w # ?ws) = sector_slots ?bf @ (dir_slots (disk_sector ?dk s) ?ws)[p - 21 := e]"
      using s2(4,5) nw by simp
    also have "\<dots> = (dir_slots (disk_sector ?dk s) (?w # ?ws))[p := e]" using later(1) by (simp add: list_update_append)
    finally have sl: "dir_slots (disk_sector ?dk s2) (?w # ?ws) = (dir_slots (disk_sector ?dk s) (?w # ?ws))[p := e]" .
    have "sync_loop ino sp e ((k # ks) @ ks') blocks s = Some (True, grow_dir ino (dir_entry_size sp) s2)"
      using s1(1) s2(1) later(2) w(1) Cons.prems(2) by (simp add: part_disk_def [symmetric] dk)
    moreover have "\<forall>l. l \<notin> set (map ((!) blocks) (k # ks)) \<longrightarrow> disk_sector ?dk s2 l = disk_sector ?dk s l"
      using s2(4) by simp
    ultimately show ?thesis using s2(2) same_but_disk_trans [OF s1(3) s2(3)] sl by (intro exI [of _ s2]) (simp only: list.map)
  qed
qed

subsection \<open>Adding and finding\<close>

text \<open>A directory whose sectors are the direct ones \<open>ws\<close>.\<close>

definition dir_ok :: "addr \<Rightarrow> u32 list \<Rightarrow> 'a fs_state_scheme \<Rightarrow> bool" where
  "dir_ok d ws s \<longleftrightarrow>
     (let i = inodes s (dir_inode (dirs s d)) in
      dir_inode (dirs s d) \<noteq> NULL \<and> i_sectors i = ws @ replicate (13 - length ws) 0 \<and> length ws \<le> 12 \<and> distinct ws \<and>
      (\<forall>l \<in> set ws. l \<noteq> 0 \<and> l \<le> max_lba) \<and> i_size i mod 24 = 0 \<and> disk_ready (part_disk s) s \<and>
      (\<exists>sp. sb (parts s (cur_part s)) = Some sp \<and> cur_part s \<noteq> NULL \<and> dir_entry_size sp = 24))"

definition slots_of :: "u32 list \<Rightarrow> 'a fs_state_scheme \<Rightarrow> dir_entry list" where
  "slots_of ws s = dir_slots (disk_sector (part_disk s) s) ws"

lemma sync_dir_entry_ok:
  assumes "dir_ok d ws s" "first_free (slots_of ws s) p" "length (filename e) = 16"
  shows "\<exists>s'. sync_dir_entry d e s = Some (True, grow_dir (dir_inode (dirs s d)) 24 s') \<and> same_but_disk s s' \<and>
    disk_ready (part_disk s) s' \<and> slots_of ws s' = (slots_of ws s)[p := e]"
proof -
  let ?i = "inodes s (dir_inode (dirs s d))"
  obtain sp where D: "dir_inode (dirs s d) \<noteq> NULL" "i_sectors ?i = ws @ replicate (13 - length ws) 0" "length ws \<le> 12" "distinct ws"
      "\<And>l. l \<in> set ws \<Longrightarrow> l \<noteq> 0 \<and> l \<le> max_lba" "i_size ?i mod 24 = 0" "disk_ready (part_disk s) s"
      "sb (parts s (cur_part s)) = Some sp" "cur_part s \<noteq> NULL" "dir_entry_size sp = 24"
    using assms(1) unfolding dir_ok_def Let_def by auto
  let ?b = "take 12 (i_sectors ?i) @ replicate 128 0"
  have b: "?b = ws @ replicate (140 - length ws) 0"
  proof -
    have "12 - length ws + 128 = 140 - length ws" using D(3) by simp
    then show ?thesis using D(2,3) by (simp flip: replicate_add)
  qed
  have m: "map ((!) ?b) [0..<length ws] = ws" unfolding b by (rule nth_equalityI) (simp_all add: nth_append)
  have ks: "[0..<140] = [0..<length ws] @ [length ws..<140]" 
    using upt_add_eq_append [of 0 "length ws" "140 - length ws"] D(3) by simp
  have e21: "entries_per_sec sp = 21" by (simp add: entries_per_sec_def D(10) SECTOR_SIZE_def)
  obtain s' where s': "sync_loop (dir_inode (dirs s d)) sp e ([0..<length ws] @ [length ws..<140]) ?b s =
        Some (True, grow_dir (dir_inode (dirs s d)) (dir_entry_size sp) s')"
      "disk_ready (part_disk s) s'" "same_but_disk s s'"
      "dir_slots (disk_sector (part_disk s) s') ws = (dir_slots (disk_sector (part_disk s) s) ws)[p := e]"
    using sync_loop_ok [OF D(7) e21 assms(3), of ?b "[0..<length ws]" p "dir_inode (dirs s d)" "[length ws..<140]"] assms(2) D(4,5)
    unfolding m slots_of_def by (auto simp: b nth_append)
  have "part_disk s' = part_disk s" using s'(3) by (auto simp: same_but_disk_def part_disk_def)
  moreover have "sync_dir_entry d e s = Some (True, grow_dir (dir_inode (dirs s d)) 24 s')"
    using s'(1) D unfolding ks [symmetric]
    by (simp add: sync_dir_entry_def rd_inode_def rd_dir_part_def rd_part_def sizeof_dir_entry_def Let_def ASSERT_def)
  ultimately show ?thesis using s'(2-4) by (auto simp: slots_of_def)
qed

lemma grow_dir_same [simp]:
  "parts (grow_dir ino n s) = parts s" "cur_part (grow_dir ino n s) = cur_part s" "part_disk (grow_dir ino n s) = part_disk s"
  "disk_sector dk (grow_dir ino n s) = disk_sector dk s" "disk_ready dk (grow_dir ino n s) = disk_ready dk s"
  "slots_of ws (grow_dir ino n s) = slots_of ws s"
  using list_empty_cong [of "grow_dir ino n s" s]
  by (simp_all add: grow_dir_def upd_inode_def part_disk_def disk_sector_def [abs_def] disk_port_def disk_slave_def disk_ready_def
      chan_ready_def Let_def channel_at_def lock_idle_def lock_free_def running_thread_def slots_of_def)

text \<open>C11: Adding an entry to a directory that has a free slot in one of its sectors: \<open>sync_dir_entry\<close> returns, stores the entry in the first free slot and
  nowhere else, the directory grows by one entry, and when no entry had the name before, the search of \<open>search_dir_entry\<close>
  over the sectors of the directory returns the new entry.\<close>

theorem dir_add_then_search:
  assumes "dir_ok d ws s" "first_free (slots_of ws s) p" "length (filename e) = 16" "named e"
    "\<forall>x \<in> set (slots_of ws s). named x \<and> entry_name x \<noteq> entry_name e"
  shows "\<exists>s1. sync_dir_entry d e s = Some (True, s1) \<and> slots_of ws s1 = (slots_of ws s)[p := e] \<and>
    i_size (inodes s1 (dir_inode (dirs s d))) = i_size (inodes s (dir_inode (dirs s d))) + 24 \<and>
    (\<exists>s2. search_blocks (cur_part s1) 21 (entry_name e) (take 12 (i_sectors (inodes s (dir_inode (dirs s d))))) s1 = Some (Some e, s2))"
proof -
  let ?ino = "dir_inode (dirs s d)"
  obtain s' where s': "sync_dir_entry d e s = Some (True, grow_dir ?ino 24 s')" "same_but_disk s s'" "disk_ready (part_disk s) s'"
      "slots_of ws s' = (slots_of ws s)[p := e]"
    using sync_dir_entry_ok [OF assms(1-3)] by blast
  obtain os pl where u: "s' = s\<lparr>outs := os, platter := pl\<rparr>" using s'(2) by (auto simp: same_but_disk_def)
  have pd: "part_disk s' = part_disk s" "cur_part s' = cur_part s" by (simp_all add: u part_disk_def)
  let ?s1 = "grow_dir ?ino 24 s'" and ?ls = "take 12 (i_sectors (inodes s ?ino))"
  have D: "i_sectors (inodes s ?ino) = ws @ replicate (13 - length ws) 0" "length ws \<le> 12" "\<And>l. l \<in> set ws \<Longrightarrow> l \<noteq> 0 \<and> l \<le> max_lba"
    using assms(1) by (auto simp: dir_ok_def Let_def)
  have ls: "filter (\<lambda>l. l \<noteq> 0) ?ls = ws" "\<And>l. l \<in> set ?ls \<Longrightarrow> l \<le> max_lba"
    using D by (auto simp: filter_id_conv)
  have p: "p < length (slots_of ws s)" using assms(2) by (simp add: first_free_def)
  have dk: "my_disk (parts ?s1 (cur_part ?s1)) = part_disk s" using pd by (simp add: part_disk_def)
  have sl: "dir_slots (disk_sector (part_disk s) ?s1) ws = (slots_of ws s)[p := e]"
    using s'(4) pd(1) by (simp add: slots_of_def)
  have nm: "named x" if "x \<in> set (dir_slots (disk_sector (part_disk s) ?s1) ws)" for x
    using that assms(4,5) set_update_subset_insert [of "slots_of ws s" p e] unfolding sl by auto
  have "find (\<lambda>x. entry_name x = entry_name e) (take p (slots_of ws s)) = None"
    using assms(5) by (auto simp: find_None_iff dest: in_set_takeD)
  then have f: "find (\<lambda>x. entry_name x = entry_name e) ((slots_of ws s)[p := e]) = Some e"
    using p by (simp add: upd_conv_take_nth_drop find_append)
  obtain s2 where "search_blocks (cur_part ?s1) 21 (entry_name e) ?ls ?s1 = Some (Some e, s2)"
    using search_blocks_ok [where part = "cur_part ?s1" and s = ?s1 and lbas = ?ls and nm = "entry_name e"] s'(3) ls nm f sl unfolding dk by auto
  moreover have "i_size (inodes ?s1 ?ino) = i_size (inodes s ?ino) + 24" by (simp add: grow_dir_def upd_inode_def u)
  ultimately show ?thesis using s'(1,4) by (intro exI [of _ ?s1]) (simp add: grow_dir_same)
qed

text \<open>A directory with one sector of zeroes.\<close>

definition demo_dir :: fs_state where
  "demo_dir = demo_file\<lparr>dirs := \<lambda>_. \<lparr>dir_inode = 0xc000d000, dir_pos = 0, dir_buf = replicate 512 0\<rparr>,
     inodes := \<lambda>_. (inode_init 5)\<lparr>i_size := 48, i_sectors := 700 # replicate 12 0\<rparr>\<rparr>"

definition demo_entry :: dir_entry where
  "demo_entry = \<lparr>filename = lit ''cat'' @ replicate 13 0, de_i_no = 7, f_type = FT_REGULAR\<rparr>"

lemma demo_dir_sector: "disk_sector (part_disk demo_dir) demo_dir 700 = replicate 512 0"
  by (simp add: disk_sector_def demo_dir_def demo_file_def demo_fs_def demo_ide_def task_state.defs ide_state.defs)

lemma demo_dir_ok: "dir_ok 0xc000c000 [700] demo_dir"
proof -
  have "disk_ready (part_disk demo_file) demo_file" using demo_file_ready by (simp add: file_ready_def)
  then have "disk_ready (part_disk demo_dir) demo_dir"
    using list_empty_cong [of demo_dir demo_file]
    by (simp add: demo_dir_def part_disk_def disk_ready_def chan_ready_def Let_def channel_at_def disk_slave_def lock_idle_def
        lock_free_def running_thread_def)
  moreover have "parts demo_dir (cur_part demo_dir) = demo_part" "cur_part demo_dir = 0xc000b360"
    by (simp_all add: demo_dir_def demo_file_def demo_fs_def ide_state.defs fs_state.defs)
  moreover have "inodes demo_dir a = (inode_init 5)\<lparr>i_size := 48, i_sectors := 700 # replicate 12 0\<rparr>"
      "dir_inode (dirs demo_dir b) = 0xc000d000" for a b
    by (simp_all add: demo_dir_def)
  ultimately show ?thesis
    by (simp add: dir_ok_def Let_def demo_part_def demo_sb_def max_lba_def)
qed

theorem dir_add_then_search_witness:
  "\<exists>s1. sync_dir_entry 0xc000c000 demo_entry demo_dir = Some (True, s1) \<and>
     (\<exists>s2. search_blocks (cur_part s1) 21 (lit ''cat'') (700 # replicate 11 0) s1 = Some (Some demo_entry, s2))"
proof -
  have z: "entry_at (replicate 512 0) k = \<lparr>filename = replicate 16 0, de_i_no = 0, f_type = 0\<rparr>" if "k < 21" for k
    using that by (simp add: entry_at_def entry_of_def le32_def min_def)
  then have sl: "slots_of [700] demo_dir = replicate 21 \<lparr>filename = replicate 16 0, de_i_no = 0, f_type = 0\<rparr>"
    by (auto simp: slots_of_def demo_dir_sector sector_slots_def intro: nth_equalityI)
  have nm: "entry_name demo_entry = lit ''cat''" "named demo_entry" "length (filename demo_entry) = 16"
    by (simp_all add: entry_name_def named_def demo_entry_def lit_def char_code_def)
  have x: "entry_name \<lparr>filename = replicate 16 0, de_i_no = 0, f_type = 0\<rparr> = []" "named \<lparr>filename = replicate 16 0, de_i_no = 0, f_type = 0\<rparr>"
    by (simp_all add: entry_name_def named_def)
  have i: "take 12 (i_sectors (inodes demo_dir (dir_inode (dirs demo_dir 0xc000c000)))) = 700 # replicate 11 0"
    by (simp add: demo_dir_def)
  show ?thesis
    using dir_add_then_search [OF demo_dir_ok, of 0 demo_entry] unfolding i
    by (auto simp: sl first_free_def FT_UNKNOWN_def nm x lit_def)
qed

end
