(* ===== verification/Pipe_Data.thy ===== *)
theory Pipe_Data
  imports Filesys
begin

text \<open>
  Pipes as byte streams. A pipe at which nobody sleeps is an instance of \<open>byte_fifo\<close> whose operations change nothing but the queue itself
  (\<open>pipe_quiet\<close>), so the client lemmas of the locale give what \<open>sys_write\<close> and \<open>sys_read\<close> do at the two ends of a pipe.
\<close>

unbundle bit_operations_syntax

definition pipe_quiet :: "addr \<Rightarrow> 'a ioq_state_scheme \<Rightarrow> 'a ioq_state_scheme \<Rightarrow> bool" where
  "pipe_quiet p s0 s \<longleftrightarrow> intr_get_status s0 = INTR_OFF \<and>
     (\<exists>q. s = upd_ioq p (\<lambda>_. q) s0 \<and> q_wf q \<and> consumer q = NULL \<and> producer q = NULL)"

lemma upd_ioq_upd_ioq [simp]: "upd_ioq p f (upd_ioq p g s) = upd_ioq p (\<lambda>q. f (g q)) s"
  by (simp add: upd_ioq_def)

lemma pipe_quiet_put:
  assumes "pipe_quiet p s0 s" "length (ioq_list p s) < bufsize - 1"
  shows "\<exists>s'. putchar_now p b s = Some s' \<and> pipe_quiet p s0 s' \<and> ioq_list p s' = ioq_list p s @ [b]"
proof -
  obtain q where q: "intr_get_status s0 = INTR_OFF" "s = upd_ioq p (\<lambda>_. q) s0" "q_wf q" "consumer q = NULL" "producer q = NULL"
    using assms(1) by (auto simp: pipe_quiet_def)
  let ?q = "q\<lparr>buf := (buf q)[head q := b], head := next_pos (head q)\<rparr>"
  have len: "q_length q < bufsize - 1" using assms(2) by (simp add: ioq_list_def q(2))
  have "ioq_putchar p b s = Some (Returns (), upd_ioq p (\<lambda>_. ?q) s0)"
    using q len q_full_iff [OF q(3)]
    by (simp add: ioq_putchar_def ioq_putchar_turn_def ioq_full_def ioq_give_def q_wf_def Let_def)
  then show ?thesis
    using q q_wf_put [OF q(3), of "head q" b] q_list_put [OF q(3) len]
    by (auto simp: putchar_now_def pipe_quiet_def ioq_list_def)
qed

lemma pipe_quiet_get:
  assumes "pipe_quiet p s0 s" "ioq_list p s = b # bs"
  shows "\<exists>s'. getchar_now p s = Some (b, s') \<and> pipe_quiet p s0 s' \<and> ioq_list p s' = bs"
proof -
  obtain q where q: "intr_get_status s0 = INTR_OFF" "s = upd_ioq p (\<lambda>_. q) s0" "q_wf q" "consumer q = NULL" "producer q = NULL"
    using assms(1) by (auto simp: pipe_quiet_def)
  let ?q = "q\<lparr>tail := next_pos (tail q)\<rparr>"
  obtain n where len: "q_length q = Suc n"
    using assms(2) length_q_list [of q] by (cases "q_length q") (auto simp: ioq_list_def q(2))
  have l: "buf q ! tail q = b" "q_list ?q = bs" using q_list_take [OF q(3) len] assms(2) by (simp_all add: ioq_list_def q(2))
  have "ioq_getchar p s = Some (Returns b, upd_ioq p (\<lambda>_. ?q) s0)"
    using q len q_empty_iff [OF q(3)] l(1)
    by (simp add: ioq_getchar_def ioq_getchar_turn_def ioq_empty_def ioq_take_def q_wf_def Let_def)
  then show ?thesis
    using q q_wf_take [OF q(3)] l(2) by (auto simp: getchar_now_def pipe_quiet_def ioq_list_def)
qed

interpretation pq: byte_fifo "pipe_quiet p s0" "ioq_list p" "bufsize - 1" "putchar_now p" "getchar_now p" for p s0
  by unfold_locales (erule (1) pipe_quiet_put, erule (1) pipe_quiet_get)

text \<open>The loops, as long as the caller does not sleep.\<close>

lemma put_bytes_ioq_all:
  "put_all (putchar_now p) xs s = Some s1 \<Longrightarrow> put_bytes_ioq (xs @ ys) p s = put_bytes_ioq ys p s1"
  by (induction xs arbitrary: s) (fastforce simp: putchar_now_def split: option.splits Option.bind_splits blocking.splits prod.splits)+

lemma get_bytes_n: "get_n (getchar_now p) n s = Some (bs, s1) \<Longrightarrow> get_bytes n p s = Some (Returns (), bs, s1)"
  by (induction n arbitrary: s bs) (fastforce simp: getchar_now_def split: option.splits Option.bind_splits blocking.splits prod.splits)+

lemma pipe_quiet_keeps:
  assumes "pipe_quiet p s0 s"
  shows "fd_local2global fd s = fd_local2global fd s0" "file_table s = file_table s0" "ioq_length p s = length (ioq_list p s)"
  using assms ioq_length_q [of s p]
  by (auto simp: pipe_quiet_def fd_local2global_def rd_task_def ioq_list_def running_thread_def upd_ioq_def)

text \<open>\<open>fd\<close> is an end of the pipe \<open>p\<close>.\<close>

definition pipe_end :: "u32 \<Rightarrow> addr \<Rightarrow> 'a fs_state_scheme \<Rightarrow> bool" where
  "pipe_end fd p s \<longleftrightarrow> \<not> fd <s 0 \<and> (\<exists>g. fd_local2global fd s = Some g \<and> unat g < length (file_table s) \<and>
     fd_flag (file_table s ! unat g) = PIPE_FLAG \<and> fd_inode (file_table s ! unat g) = p)"

lemma pipe_end_quiet: "pipe_quiet p s0 s \<Longrightarrow> pipe_end fd p s = pipe_end fd p s0"
  by (simp add: pipe_end_def pipe_quiet_keeps)

lemma pipe_end_calls:
  assumes "pipe_end fd p s"
  shows "sys_write fd bs n s = map_option (\<lambda>(r, _, s). (r, s)) (awake (pipe_write fd bs n s))"
    "fd \<noteq> 1 \<Longrightarrow> fd \<noteq> 2 \<Longrightarrow> sys_read fd n s = awake (pipe_read fd n s)"
  using assms
  by (auto simp: pipe_end_def sys_write_def sys_write_turn_def sys_read_def sys_read_turn_def is_pipe_def map_conv_bind_option
      intro!: bind_option_cong)

lemma pipe_write_room:
  assumes "pipe_end fd p s" "pipe_quiet p s0 s" "ioq_length p s + length bs \<le> 2047"
  shows "\<exists>s1. pipe_write fd bs (of_nat (length bs)) s = Some (Returns (of_nat (length bs)), [], s1) \<and> pipe_quiet p s0 s1 \<and>
    ioq_list p s1 = ioq_list p s @ bs"
proof -
  have l: "unat (of_nat (length bs) :: u32) = length bs" using assms(3) by (simp add: unat_of_nat)
  obtain s1 where "put_all (putchar_now p) bs s = Some s1" "pipe_quiet p s0 s1" "ioq_list p s1 = ioq_list p s @ bs"
    using pq.put_all [OF assms(2), of bs] assms(3) pipe_quiet_keeps(3) [OF assms(2)] by (auto simp: bufsize_def)
  then show ?thesis
    using assms(1,3) l put_bytes_ioq_all [of p bs s s1 "[]"] by (auto simp: pipe_write_def pipe_end_def bufsize_def Let_def)
qed

lemma pipe_read_min:
  assumes "pipe_end fd p s" "pipe_quiet p s0 s" "m = min (length (ioq_list p s)) (unat n)"
  shows "\<exists>s1. pipe_read fd n s = Some (Returns (of_nat m), take m (ioq_list p s), s1) \<and> pipe_quiet p s0 s1 \<and>
    ioq_list p s1 = drop m (ioq_list p s)"
proof -
  obtain s1 where "get_n (getchar_now p) m s = Some (take m (ioq_list p s), s1)" "pipe_quiet p s0 s1" "ioq_list p s1 = drop m (ioq_list p s)"
    using pq.get_n [OF assms(2), of "take m (ioq_list p s)" "drop m (ioq_list p s)"] assms(3) by auto
  then show ?thesis
    using assms(1,3) pipe_quiet_keeps(3) [OF assms(2)] get_bytes_n [of p m s] by (auto simp: pipe_read_def pipe_end_def Let_def min_def)
qed

text \<open>C16: A pipe is a stream of bytes. When nobody sleeps at the pipe and the bytes fit, \<open>sys_write\<close> at one end returns their number, and a later
  \<open>sys_read\<close> at the other end returns as many bytes as asked for or available, in the order in which they were written and after
  those that were already there; what was not read stays in the pipe.\<close>

theorem pipe_round_trip:
  assumes "pipe_end w p s" "pipe_end r p s" "r \<noteq> 1" "r \<noteq> 2" "pipe_quiet p s s" "ioq_length p s + length bs \<le> 2047"
    "m = min (ioq_length p s + length bs) (unat n)"
  shows "\<exists>s1 s2. sys_write w bs (of_nat (length bs)) s = Some (of_nat (length bs), s1) \<and>
    sys_read r n s1 = Some (of_nat m, take m (ioq_list p s @ bs), s2) \<and> ioq_list p s2 = drop m (ioq_list p s @ bs)"
proof -
  obtain s1 where s1: "pipe_write w bs (of_nat (length bs)) s = Some (Returns (of_nat (length bs)), [], s1)" "pipe_quiet p s s1"
      "ioq_list p s1 = ioq_list p s @ bs"
    using pipe_write_room [OF assms(1,5,6)] by blast
  have "pipe_end r p s1" using assms(2) pipe_end_quiet [OF s1(2)] by simp
  moreover from this obtain s2 where "pipe_read r n s1 = Some (Returns (of_nat m), take m (ioq_list p s @ bs), s2)"
      "ioq_list p s2 = drop m (ioq_list p s @ bs)"
    using pipe_read_min [OF _ s1(2), of r m n] assms(7) pipe_quiet_keeps(3) [OF assms(5)] s1(3) by auto
  ultimately have "sys_read r n s1 = Some (of_nat m, take m (ioq_list p s @ bs), s2)" "ioq_list p s2 = drop m (ioq_list p s @ bs)"
    using pipe_end_calls(2) [of r p s1 n] assms(3,4) by (simp_all add: awake_def)
  moreover have "sys_write w bs (of_nat (length bs)) s = Some (of_nat (length bs), s1)"
    using pipe_end_calls(1) [OF assms(1)] s1(1) by (simp add: awake_def)
  ultimately show ?thesis by blast
qed

text \<open>C17: A write that exceeds the room of a pipe puts the writer to sleep, although \<open>pipe_write\<close> limits the number of bytes to avoid that: the
  limit \<open>bufsize - ioq_length\<close> is one more than the queue can take. However many bytes are to be written, the writer stores as many as fit and
  falls asleep with exactly one byte of the limited amount left; the queue is full, the writer is registered as its waiting producer, and the next
  ready thread runs.\<close>

theorem pipe_write_too_much:
  assumes "pipe_end w p s" "pipe_quiet p s s" "2047 < ioq_length p s + length bs" "length bs < 2 ^ 32"
    "sched_inv pd T rl s" "lock_free (ioq_lock p) s" "running_thread s \<notin> set rl" "running_thread s \<noteq> idle_thread s"
  shows "\<exists>s'. pipe_write w bs (of_nat (length bs)) s = Some (Waits INTR_OFF, [bs ! (2047 - ioq_length p s)], s') \<and>
    ioq_list p s' = ioq_list p s @ take (2047 - ioq_length p s) bs \<and> length (ioq_list p s') = 2047 \<and>
    producer (ioqs s' p) = running_thread s \<and> status (tcb s' (running_thread s)) = TASK_BLOCKED \<and>
    running_thread s' = (case rl of [] \<Rightarrow> idle_thread s | q # _ \<Rightarrow> q) \<and> sched_inv pd T (tl rl) s'"
proof -
  define n where "n = 2047 - ioq_length p s"
  have q: "ioq_length p s \<le> 2047"
    using pipe_quiet_keeps(3) [OF assms(2)] q_length_less [of "ioqs s p"] by (simp add: ioq_list_def bufsize_def)
  have len: "n < length bs" using assms(3) q by (simp add: n_def)
  obtain s1 where s1: "put_all (putchar_now p) (take n bs) s = Some s1" "pipe_quiet p s s1" "ioq_list p s1 = ioq_list p s @ take n bs"
    using pq.put_all [OF assms(2), of "take n bs"] len q pipe_quiet_keeps(3) [OF assms(2)] by (auto simp: bufsize_def n_def)
  have full: "length (ioq_list p s1) = bufsize - 1"
    using s1(3) len q pipe_quiet_keeps(3) [OF assms(2)] by (simp add: bufsize_def n_def)
  obtain Q where Q: "s1 = upd_ioq p (\<lambda>_. Q) s" "q_wf Q" "consumer Q = NULL" "producer Q = NULL" "intr_get_status s = INTR_OFF"
    using s1(2) by (auto simp: pipe_quiet_def)
  have same: "running_thread s1 = running_thread s" "idle_thread s1 = idle_thread s" "lock_free (ioq_lock p) s1"
    using Q(1) assms(6) by (simp_all add: upd_ioq_def running_thread_def lock_free_def)
  have inv: "ioq_inv pd T p rl s1" using assms(5) Q by (simp add: ioq_inv_def waiter_ok_def)
  obtain s' where s': "ioq_putchar p (bs ! n) s1 = Some (Waits INTR_OFF, s')" "ioq_inv pd T p (tl rl) s'"
      "running_thread s' = (case rl of [] \<Rightarrow> idle_thread s | q # _ \<Rightarrow> q)" "producer (ioqs s' p) = running_thread s"
      "ioq_list p s' = ioq_list p s1" "status (tcb s' (running_thread s)) = TASK_BLOCKED"
    using ioq_putchar_sleep [OF inv full _ same(3) _ _ _ refl, of "bs ! n"] assms(7,8) Q same(1,2)
    by (auto cong: list.case_cong)
  have "put_bytes_ioq (take (Suc n) bs) p s = Some (Waits INTR_OFF, [bs ! n], s')"
    using put_bytes_ioq_all [OF s1(1), of "[bs ! n]"] s'(1) len by (simp add: take_Suc_conv_app_nth)
  moreover have "(if bufsize - ioq_length p s > unat (of_nat (length bs) :: u32) then unat (of_nat (length bs) :: u32)
      else bufsize - ioq_length p s) = Suc n"
    using assms(4) len q unfolding n_def by (simp add: unat_of_nat bufsize_def; arith)
  ultimately have "pipe_write w bs (of_nat (length bs)) s = Some (Waits INTR_OFF, [bs ! n], s')"
    using assms(1) len by (auto simp: pipe_write_def pipe_end_def Let_def simp del: take_Suc)
  then show ?thesis using s'(2-6) s1(3) full unfolding n_def by (auto simp: ioq_inv_def bufsize_def)
qed

text \<open>The two ends are the descriptors 3 and 4 of the running thread.\<close>

definition demo_pipe :: fs_state where
  "demo_pipe = demo_fs\<lparr>eflags := 0x2, ioqs := \<lambda>_. demo_q, tcb := \<lambda>_. zero_task\<lparr>fd_table := [0, 1, 2, 3, 3, - 1, - 1, - 1]\<rparr>,
     file_table := (replicate 32 \<lparr>fd_pos = 0, fd_flag = 0, fd_inode = NULL\<rparr>)[3 := \<lparr>fd_pos = 2, fd_flag = 0xffff, fd_inode = 0xc000e000\<rparr>]\<rparr>"

lemma demo_pipe_running: "running_thread demo_pipe \<noteq> NULL"
  by (simp add: demo_pipe_def demo_fs_def demo_ide_def task_state.defs ide_state.defs mem_state.defs Task.demo_task_def running_thread_def)

lemma demo_pipe_end: "fd = 3 \<or> fd = 4 \<Longrightarrow> pipe_end fd 0xc000e000 demo_pipe"
proof -
  have "fd_table (tcb demo_pipe a) = [0, 1, 2, 3, 3, - 1, - 1, - 1]" for a by (simp add: demo_pipe_def)
  moreover have "length (file_table demo_pipe) = 32"
      "file_table demo_pipe ! 3 = \<lparr>fd_pos = 2, fd_flag = 0xffff, fd_inode = 0xc000e000\<rparr>"
    by (simp_all add: demo_pipe_def)
  moreover have "\<not> (3 :: u32) <s 0" "\<not> (4 :: u32) <s 0" "0 \<le>s (3 :: u32)" "(3 :: u32) <s 32" by code_simp+
  moreover assume "fd = 3 \<or> fd = 4"
  ultimately show "pipe_end fd 0xc000e000 demo_pipe"
    using demo_pipe_running
    by (auto simp: pipe_end_def fd_local2global_def rd_task_def MAX_FILE_OPEN_def PIPE_FLAG_def)
qed

lemma demo_pipe_quiet: "pipe_quiet 0xc000e000 demo_pipe demo_pipe" "ioq_list 0xc000e000 demo_pipe = []" "ioq_length 0xc000e000 demo_pipe = 0"
proof -
  have q: "ioqs demo_pipe = (\<lambda>_. demo_q)" by (simp add: demo_pipe_def)
  have "(ioqs demo_pipe)(0xc000e000 := demo_q) = ioqs demo_pipe" by (simp add: q fun_eq_iff)
  then have "demo_pipe = upd_ioq 0xc000e000 (\<lambda>_. demo_q) demo_pipe" by (simp only: upd_ioq_def) simp
  moreover have "intr_get_status demo_pipe = INTR_OFF" by (simp add: demo_pipe_def intr_get_status_bit)
  ultimately show "pipe_quiet 0xc000e000 demo_pipe demo_pipe"
    unfolding pipe_quiet_def by (intro conjI exI [of _ demo_q]) (simp_all add: demo_q_def q_wf_def bufsize_def)
  show "ioq_list 0xc000e000 demo_pipe = []" "ioq_length 0xc000e000 demo_pipe = 0"
    by (simp_all add: ioq_list_def q_list_def q_length_def ioq_length_def q demo_q_def bufsize_def)
qed

theorem pipe_round_trip_witness:
  "\<exists>s1 s2. sys_write 4 [7, 8, 9] (of_nat (length [7 :: u8, 8, 9])) demo_pipe = Some (of_nat (length [7 :: u8, 8, 9]), s1) \<and>
     sys_read 3 2 s1 = Some (of_nat 2, [7, 8], s2) \<and> ioq_list 0xc000e000 s2 = [9]"
proof -
  have m: "2 = min (ioq_length 0xc000e000 demo_pipe + length [7 :: u8, 8, 9]) (unat (2 :: u32))"
    and l: "ioq_length 0xc000e000 demo_pipe + length [7 :: u8, 8, 9] \<le> 2047"
    unfolding demo_pipe_quiet by simp_all
  have e: "pipe_end 4 0xc000e000 demo_pipe" "pipe_end 3 0xc000e000 demo_pipe" by (rule demo_pipe_end; simp)+
  have n: "(3 :: u32) \<noteq> 1" "(3 :: u32) \<noteq> 2" "take 2 ([] @ [7 :: u8, 8, 9]) = [7, 8]" "drop 2 ([] @ [7 :: u8, 8, 9]) = [9]" by simp_all
  show ?thesis
    using pipe_round_trip [OF e n(1,2) demo_pipe_quiet(1) l m] unfolding demo_pipe_quiet(2) n(3,4) .
qed

text \<open>The same pipe while the main thread runs and two other threads are ready.\<close>

definition demo_writer :: fs_state where
  "demo_writer = demo_pipe\<lparr>prev_of := prev_of demo_sync, next_of := next_of demo_sync, pmem := boot_pm, cr3 := 0x100000, esp := 0xc009e800,
     tcb := (\<lambda>a. (tcb demo_sync a)\<lparr>fd_table := [0, 1, 2, 3, 3, - 1, - 1, - 1]\<rparr>), main_thread := 0xc009e000, idle_thread := 0xc0100000,
     thread_ready_list := 0xc0009000, thread_all_list := 0xc0009100, sema_value := \<lambda>_. 1, lock_holder := \<lambda>_. NULL, lock_repeat := \<lambda>_. 0\<rparr>"

lemma demo_writer_fields: "running_thread demo_writer = 0xc009e000" "idle_thread demo_writer = 0xc0100000"
    "lock_free L demo_writer" "ioqs demo_writer = (\<lambda>_. demo_q)" "intr_get_status demo_writer = INTR_OFF"
  by (simp_all add: demo_writer_def demo_pipe_def running_thread_def lock_free_def intr_get_status_bit)

lemma demo_writer_sched: "sched_inv (\<lambda>_. 0x100000) demo_tasks [0xc0101000, 0xc0102000] demo_writer"
  by (simp add: demo_writer_def demo_sync_def demo_defs demo_tasks_def is_blocked_def kstate.defs sync_state.defs)

lemma demo_writer_quiet: "pipe_quiet 0xc000e000 demo_writer demo_writer" "ioq_length 0xc000e000 demo_writer = 0"
proof -
  have "(ioqs demo_writer)(0xc000e000 := demo_q) = ioqs demo_writer" by (simp add: demo_writer_fields fun_eq_iff)
  then have "demo_writer = upd_ioq 0xc000e000 (\<lambda>_. demo_q) demo_writer" by (simp only: upd_ioq_def) simp
  then show "pipe_quiet 0xc000e000 demo_writer demo_writer"
    unfolding pipe_quiet_def using demo_writer_fields(5) by (intro conjI exI [of _ demo_q]) (simp_all add: demo_q_def q_wf_def bufsize_def)
  show "ioq_length 0xc000e000 demo_writer = 0" by (simp add: ioq_length_def demo_writer_fields demo_q_def)
qed

lemma demo_writer_end: "pipe_end 4 0xc000e000 demo_writer"
proof -
  have "fd_local2global 4 demo_writer = fd_local2global 4 demo_pipe" "file_table demo_writer = file_table demo_pipe"
    using demo_pipe_running demo_writer_fields(1) by (simp_all add: demo_writer_def demo_pipe_def fd_local2global_def rd_task_def)
  then show ?thesis using demo_pipe_end [of 4] by (simp add: pipe_end_def)
qed

theorem pipe_write_too_much_witness:
  "\<exists>s'. pipe_write 4 (replicate 3000 7) 3000 demo_writer = Some (Waits INTR_OFF, [7], s') \<and> length (ioq_list 0xc000e000 s') = 2047 \<and>
    producer (ioqs s' 0xc000e000) = 0xc009e000 \<and> running_thread s' = 0xc0101000"
proof -
  have "2047 < ioq_length 0xc000e000 demo_writer + length (replicate 3000 (7 :: u8))" "length (replicate 3000 (7 :: u8)) < 2 ^ 32"
    "running_thread demo_writer \<notin> set [0xc0101000, 0xc0102000]" "running_thread demo_writer \<noteq> idle_thread demo_writer"
    by (simp_all only: demo_writer_quiet demo_writer_fields length_replicate) simp_all
  note w = pipe_write_too_much [OF demo_writer_end demo_writer_quiet(1) this(1,2) demo_writer_sched demo_writer_fields(3) this(3,4)]
  show ?thesis using w unfolding demo_writer_fields demo_writer_quiet length_replicate by auto
qed

end
