(* ===== verification/Page_Words.thy ===== *)
theory Page_Words
  imports Page_Data
begin

text \<open>
  Words inside one mapped page. A store through the memory management unit into a page whose frame holds no paging structure changes that word and no
  translation; \<open>store_words\<close>, by which stack frames are prepared, stores what is listed and nothing else.
\<close>

unbundle bit_operations_syntax

subsection \<open>Storing words in a page\<close>

text \<open>The page \<open>c\<close> is mapped to the frame \<open>f\<close>, which holds no paging structure.\<close>

definition page_mapped :: "addr \<Rightarrow> u32 \<Rightarrow> 'a pg_state_scheme \<Rightarrow> bool" where
  "page_mapped c f s \<longleftrightarrow> dir_wf (pmem s) (page_of (cr3 s)) \<and> fresh_frame (pmem s) (page_of (cr3 s)) f \<and>
     (\<forall>w. page_of w = c \<longrightarrow> xlat s w = Some (f + (w AND 0xfff)))"

lemma page_mapped_frame: "page_mapped c f s \<Longrightarrow> page_of (f + (w AND 0xfff)) = f"
  by (auto simp: page_mapped_def fresh_frame_def intro: page_of_off)

lemma page_mapped_xlat: "page_mapped c f s \<Longrightarrow> page_of w = c \<Longrightarrow> \<exists>p. xlat s w = Some p \<and> page_of p = f"
  using page_mapped_frame [of c f s w] by (simp add: page_mapped_def)

lemma page_mapped_data:
  assumes "page_mapped c f s" "\<And>x. page_of x \<noteq> f \<Longrightarrow> pm' x = pmem s x"
  shows "page_mapped c f (s\<lparr>pmem := pm'\<rparr>)" "xlat (s\<lparr>pmem := pm'\<rparr>) w = xlat s w"
  using assms data_frame [of "pmem s" "page_of (cr3 s)" f pm'] by (auto simp: page_mapped_def)

lemma same_page_offset:
  assumes "page_of v = c" "page_of w = c" "v AND 0xfff = w AND 0xfff"
  shows "v = w"
proof (rule bit_word_eqI)
  fix n assume "n < LENGTH(32)"
  have "bit (page_of v) n = bit (page_of w) n" "bit (v AND 0xfff) n = bit (w AND 0xfff) n" using assms by simp_all
  then show "bit v n = bit w n" unfolding bit_page_of bit_offset by (cases "n < 12") (use \<open>n < LENGTH(32)\<close> in auto)
qed

lemma store_in_page:
  assumes "page_mapped c f s" "page_of v = c"
  shows "\<exists>pm'. store32 v x s = Some (s\<lparr>pmem := pm'\<rparr>) \<and> page_mapped c f (s\<lparr>pmem := pm'\<rparr>) \<and> (\<forall>a. page_of a \<noteq> f \<longrightarrow> pm' a = pmem s a) \<and>
    (\<forall>w. page_of w = c \<longrightarrow> load32 w (s\<lparr>pmem := pm'\<rparr>) = (if w = v then Some x else load32 w s))"
proof -
  let ?p = "f + (v AND 0xfff)" and ?pm = "(pmem s)(f + (v AND 0xfff) := x)"
  have out: "page_of a \<noteq> f \<Longrightarrow> ?pm a = pmem s a" for a using page_mapped_frame [OF assms(1), of v] by auto
  note D = page_mapped_data [of c f s ?pm, OF assms(1) out]
  have "page_mapped c f (s\<lparr>pmem := ?pm\<rparr>)" by (rule D(1))
  moreover have "load32 w (s\<lparr>pmem := ?pm\<rparr>) = (if w = v then Some x else load32 w s)" if "page_of w = c" for w
  proof -
    have "xlat s w = Some (f + (w AND 0xfff))" using assms(1) that by (simp add: page_mapped_def)
    then show ?thesis using same_page_offset [OF that assms(2)] using D(2) [of w] by (auto simp: load32_def)
  qed
  moreover have "store32 v x s = Some (s\<lparr>pmem := ?pm\<rparr>)" using assms by (simp add: page_mapped_def store32_def)
  ultimately show ?thesis using out by blast
qed

lemma store_words_ok:
  assumes "page_mapped c f s" "\<forall>(v, x) \<in> set vs. page_of v = c"
  shows "\<exists>pm'. store_words vs s = Some (s\<lparr>pmem := pm'\<rparr>) \<and> page_mapped c f (s\<lparr>pmem := pm'\<rparr>) \<and> (\<forall>a. page_of a \<noteq> f \<longrightarrow> pm' a = pmem s a) \<and>
    (\<forall>w. page_of w = c \<longrightarrow> load32 w (s\<lparr>pmem := pm'\<rparr>) = (case map_of (rev vs) w of Some x \<Rightarrow> Some x | None \<Rightarrow> load32 w s))"
  using assms
proof (induction vs arbitrary: s)
  case Nil
  then show ?case by (intro exI [of _ "pmem s"]) simp
next
  case (Cons vx vs)
  obtain v x where vx: "vx = (v, x)" by fastforce
  obtain pm1 where pm1: "store32 v x s = Some (s\<lparr>pmem := pm1\<rparr>)" "page_mapped c f (s\<lparr>pmem := pm1\<rparr>)" "\<forall>a. page_of a \<noteq> f \<longrightarrow> pm1 a = pmem s a"
      "\<forall>w. page_of w = c \<longrightarrow> load32 w (s\<lparr>pmem := pm1\<rparr>) = (if w = v then Some x else load32 w s)"
    using store_in_page [OF Cons.prems(1), of v x] Cons.prems(2) vx by auto
  obtain pm' where pm': "store_words vs (s\<lparr>pmem := pm1\<rparr>) = Some (s\<lparr>pmem := pm'\<rparr>)" "page_mapped c f (s\<lparr>pmem := pm'\<rparr>)"
      "\<forall>a. page_of a \<noteq> f \<longrightarrow> pm' a = pm1 a"
      "\<forall>w. page_of w = c \<longrightarrow> load32 w (s\<lparr>pmem := pm'\<rparr>) = (case map_of (rev vs) w of Some x \<Rightarrow> Some x | None \<Rightarrow> load32 w (s\<lparr>pmem := pm1\<rparr>))"
    using Cons.IH [OF pm1(2)] Cons.prems(2) by auto
  then show ?case using pm1 unfolding vx by (intro exI [of _ pm']) (auto simp: map_add_def split: option.splits)
qed

subsection \<open>The pages of the boot mapping\<close>

lemma boot_low_page:
  assumes "pmem s = boot_pm" "cr3 s = 0x100000" "k < 256" "c = of_nat (0xc0000000 + k * 4096)" "f = of_nat (k * 4096)"
  shows "page_mapped c f s"
proof -
  have u: "unat c = 0xc0000000 + k * 4096" "unat f = k * 4096" using assms(3) unfolding assms(4,5) by (intro unat_of_nat32; simp)+
  have pf: "page_of f = f" by (simp add: page_aligned u)
  have fr: "fresh_frame boot_pm 0x100000 f"
    unfolding fresh_frame_def
  proof (intro conjI allI impI)
    fix i assume i: "i < (1024 :: nat)" and "present (dir_entry boot_pm 0x100000 i)"
    then have "0x100000 \<le> unat (page_of (boot_pde i))"
      unfolding boot_pde_frame [OF i] by (auto simp: boot_dir_entry [OF i] present_odd boot_pde_unat [OF i] split: if_splits)
    then show "page_of (dir_entry boot_pm 0x100000 i) \<noteq> f" using u(2) assms(3) by (auto simp: boot_dir_entry [OF i])
  qed (rule pf)
  have "mmu boot_pm 0x100000 w = Some (f + (w AND 0xfff))" if "page_of w = c" for w
  proof -
    have "PDE_IDX w = PDE_IDX c" "PTE_IDX w = PTE_IDX c" using page_of_idx(1,2) [of w] that by simp_all
    moreover have "unat (PDE_IDX c) = 768" using assms(3) by (simp add: PDE_IDX_unat u)
    moreover have "unat (PTE_IDX c) = k"
    proof -
      have "(0xc0000000 + k * 4096) div 2 ^ 12 mod 2 ^ 10 = (k + 768 * 1024) mod 1024" by (simp add: add.commute)
      also have "\<dots> = k mod 1024" by (rule mod_mult_self1)
      finally show ?thesis using assms(3) by (simp add: PTE_IDX_unat u)
    qed
    ultimately have i: "unat (PDE_IDX w) = 768" "unat (PTE_IDX w) = k" by simp_all
    then have "PDE_IDX w = 768" by (simp add: word_unat_eq_iff)
    then have "boot_pm (pde_at 0x100000 w) = boot_pde 768" using boot_dir_entry [of 768] by (simp add: pde_at_entry)
    then have pde: "boot_pm (pde_at 0x100000 w) = 0x101007" by (simp add: boot_pde_def)
    have "unat (PTE_IDX w * 4) = 4 * k" using i(2) assms(3) by (simp add: unat_word_ariths)
    then have "unat (0x101000 + PTE_IDX w * 4) = 0x101000 + 4 * k" using assms(3) by (simp add: unat_word_ariths)
    moreover have "pte_at boot_pm 0x100000 w = 0x101000 + PTE_IDX w * 4" by (simp add: pte_at_def pde page_of_def)
    ultimately have e: "boot_pm (pte_at boot_pm 0x100000 w) = of_nat (k * 4096 + 7)" using assms(3) by (simp add: boot_pm_def)
    have ue: "unat (of_nat (k * 4096 + 7) :: u32) = k * 4096 + 7" using assms(3) by (intro unat_of_nat32) simp
    have "page_of (of_nat (k * 4096 + 7)) = f" using ue by (simp add: word_unat_eq_iff unat_page_of u(2))
    moreover have "present (of_nat (k * 4096 + 7))" using ue by (simp add: present_odd)
    ultimately show ?thesis by (simp add: mmu_def pde e present_def PG_P_1_def)
  qed
  then show ?thesis using fr boot_dir_wf assms(1,2) by (simp add: page_mapped_def)
qed

lemma boot_page_mapped:
  assumes "pmem s = boot_pm" "cr3 s = 0x100000"
  shows "page_mapped 0xc00a0000 0xa0000 s" "page_mapped 0xc009f000 0x9f000 s"
  by (rule boot_low_page [OF assms, of 160]; simp) (rule boot_low_page [OF assms, of 159]; simp)

end
