(* ===== verification/Arena.thy ===== *)
theory Arena
  imports Page_Words
begin

text \<open>
  The block allocator of \<^verbatim>\<open>kernel/memory.c\<close>: what \<open>sys_malloc\<close> and \<open>sys_free\<close> do to the blocks of an arena. \<open>arena_inv\<close> ties the header of an arena to the free
  list of its descriptor; splitting a new arena establishes it, handing out and taking back a block keep it, and the arena is taken apart when
  its last block comes back. The free lists are the pointer lists of \<open>Klist\<close>, used through \<open>dlist\<close> and the interpretation \<open>klist\<close>; the words of a
  block are cleared through the memory management unit.
\<close>

unbundle bit_operations_syntax

subsection \<open>The blocks of an arena\<close>

definition block_at :: "addr \<Rightarrow> u32 \<Rightarrow> nat \<Rightarrow> addr" where
  "block_at a bs i = a + sizeof_arena + of_nat i * bs"

definition arena_blocks :: "addr \<Rightarrow> u32 \<Rightarrow> nat \<Rightarrow> addr set" where
  "arena_blocks a bs n = block_at a bs ` {..<n}"

text \<open>\<open>n\<close> blocks of \<open>bs\<close> bytes fit into the page of the arena behind its header.\<close>

definition arena_fits :: "addr \<Rightarrow> u32 \<Rightarrow> nat \<Rightarrow> bool" where
  "arena_fits a bs n \<longleftrightarrow> block2arena a = a \<and> a \<noteq> NULL \<and> 0 < bs \<and> 12 + n * unat bs \<le> 4096"

lemma block2arena_page: "block2arena b = page_of b"
  by (simp add: block2arena_def page_of_def)

lemma unat_block_at:
  assumes "arena_fits a bs n" "i < n"
  shows "unat (block_at a bs i) = unat a + 12 + i * unat bs" "i * unat bs + unat bs + 12 \<le> 4096"
proof -
  have "(i + 1) * unat bs \<le> n * unat bs" using assms(2) by (intro mult_right_mono) simp_all
  then show le: "i * unat bs + unat bs + 12 \<le> 4096" using assms(1) by (simp add: arena_fits_def)
  have al: "unat a mod 4096 = 0" using assms(1) by (simp add: arena_fits_def block2arena_page page_aligned)
  have "unat a < 2 ^ 32" using unsigned_less [of a, where 'a = nat] by simp
  moreover obtain q where q: "unat a = 4096 * q" using al by auto
  ultimately have "unat a + 4096 \<le> 2 ^ 32" by simp
  then have b: "unat a + 12 + i * unat bs < 2 ^ 32" using le assms(1) by (simp add: arena_fits_def word_less_nat_alt)
  have eq: "block_at a bs i = of_nat (unat a + 12 + i * unat bs)" by (simp add: block_at_def sizeof_arena_def algebra_simps)
  show "unat (block_at a bs i) = unat a + 12 + i * unat bs" unfolding eq by (rule unat_of_nat32) (use b in simp)
qed

lemma block_at_arena:
  assumes "arena_fits a bs n" "i < n"
  shows "block2arena (block_at a bs i) = a" "block_at a bs i \<noteq> NULL"
proof -
  note u = unat_block_at [OF assms]
  have al: "unat a mod 4096 = 0" using assms(1) by (simp add: arena_fits_def block2arena_page page_aligned)
  have "unat bs > 0" using assms(1) by (simp add: arena_fits_def word_less_nat_alt)
  moreover obtain q where q: "unat a = 4096 * q" using al by auto
  ultimately have "(unat a + 12 + i * unat bs) div 4096 * 4096 = unat a"
    using u(2) by (simp add: add.assoc)
  then show "block2arena (block_at a bs i) = a"
    unfolding block2arena_page by (metis u(1) unat_page_of word_unat_eq_iff)
  show "block_at a bs i \<noteq> NULL" using u(1) by (auto simp: word_unat_eq_iff)
qed

lemma block_at_inj:
  assumes "arena_fits a bs n" "i < n" "j < n"
  shows "block_at a bs i = block_at a bs j \<longleftrightarrow> i = j"
proof -
  have "0 < unat bs" using assms(1) by (simp add: arena_fits_def word_less_nat_alt)
  then show ?thesis using unat_block_at(1) [OF assms(1,2)] unat_block_at(1) [OF assms(1,3)] by (auto simp: word_unat_eq_iff)
qed

lemma card_arena_blocks: "arena_fits a bs n \<Longrightarrow> card (arena_blocks a bs n) = n"
  unfolding arena_blocks_def by (subst card_image) (auto simp: inj_on_def block_at_inj)

lemma arena2block_at: "block_size (block_descs s (desc (arenas s a))) = bs \<Longrightarrow> arena2block a (of_nat i) s = block_at a bs i"
  by (simp add: arena2block_def block_at_def)

subsection \<open>Splitting an arena and taking it apart\<close>

lemma only_links_trans:
  assumes "only_links S h h1" "only_links S' h1 h2" "S \<subseteq> R" "S' \<subseteq> R"
  shows "only_links R h h2"
proof -
  obtain n1 p1 n2 p2 where "h1 = h\<lparr>next_of := n1, prev_of := p1\<rparr>" "h2 = h1\<lparr>next_of := n2, prev_of := p2\<rparr>"
    using only_links_update [OF assms(1)] only_links_update [OF assms(2)] by blast
  moreover have "next_of h2 x = next_of h x \<and> prev_of h2 x = prev_of h x" if "x \<notin> R" for x
  proof -
    have "x \<notin> S" "x \<notin> S'" using that assms(3,4) by blast+
    then show ?thesis using only_links_same [OF assms(1)] only_links_same [OF assms(2)] by (simp add: links_same_def)
  qed
  ultimately show ?thesis by (simp add: only_links_def)
qed

lemma block_at_later [simp]:
  assumes "arena_fits a bs m" "Suc (i + j) < m"
  shows "block_at a bs (Suc (i + j)) \<noteq> block_at a bs i"
  using block_at_inj [OF assms, of i] assms(2) by simp

text \<open>What the list operations leave alone of the view the loops have of an arena.\<close>

lemma only_links_arena:
  assumes "only_links S s s'"
  shows "arenas s' = arenas s" "block_descs s' = block_descs s"
proof -
  obtain nx pv where "s' = s\<lparr>next_of := nx, prev_of := pv\<rparr>" using only_links_update [OF assms] by blast
  then show "arenas s' = arenas s" "block_descs s' = block_descs s" by simp_all
qed

definition arena_of :: "addr \<Rightarrow> addr \<Rightarrow> u32 \<Rightarrow> 'a mem_state_scheme \<Rightarrow> bool" where
  "arena_of a d bs s \<longleftrightarrow> desc (arenas s a) = d \<and> \<not> large (arenas s a) \<and> block_size (block_descs s d) = bs"

text \<open>The sentinels of the free list lie outside the page of the arena.\<close>

definition list_outside :: "addr \<Rightarrow> addr \<Rightarrow> bool" where
  "list_outside d a \<longleftrightarrow> block2arena (list_head (free_list d)) \<noteq> a \<and> block2arena (list_tail (free_list d)) \<noteq> a"

lemma block_linkable: "arena_fits a bs n \<Longrightarrow> i < n \<Longrightarrow> list_outside d a \<Longrightarrow> linkable (free_list d) (block_at a bs i)"
  using block_at_arena [of a bs n i] by (auto simp: linkable_def list_outside_def)

lemma split_arena_ok:
  assumes "arena_fits a bs m" "i + n \<le> m" "list_outside d a" "arena_of a d bs s" "dlist s (free_list d) ys"
    "\<forall>j < n. block_at a bs (i + j) \<notin> set ys"
  shows "\<exists>s'. split_arena n (of_nat i) a s = Some s' \<and> dlist s' (free_list d) (ys @ map (block_at a bs) [i..<i + n]) \<and>
    only_links (set (nodes (free_list d) (ys @ map (block_at a bs) [i..<i + n]))) s s'"
  using assms(2,4-)
proof (induction n arbitrary: i s ys)
  case 0
  then show ?case by (simp add: only_links_def)
next
  case (Suc n)
  let ?b = "block_at a bs i"
  have fl: "desc (arenas s a) = d" and blk: "arena2block a (of_nat i) s = ?b"
    using Suc.prems(2) arena2block_at [of s a bs i] by (simp_all add: arena_of_def)
  have b: "linkable (free_list d) ?b" "?b \<notin> set ys"
    using block_linkable [OF assms(1) _ assms(3), of i] Suc.prems(1,4) by (auto dest: spec [of _ 0])
  obtain s1 where s1: "list_append (free_list d) ?b s = Some s1" "dlist s1 (free_list d) (ys @ [?b])"
      "only_links (set (nodes (free_list d) (ys @ [?b]))) s s1"
    using dlist_append [OF Suc.prems(3) b] by blast
  have "arena_of a d bs s1" using Suc.prems(2) only_links_arena [OF s1(3)] by (simp add: arena_of_def)
  moreover have "\<forall>j < n. block_at a bs (Suc i + j) \<notin> set (ys @ [?b])"
    using Suc.prems(1,4) assms(1) by (auto dest: spec [of _ "Suc _"])
  ultimately obtain s' where s': "split_arena n (of_nat (Suc i)) a s1 = Some s'"
      "dlist s' (free_list d) ((ys @ [?b]) @ map (block_at a bs) [Suc i..<Suc i + n])"
      "only_links (set (nodes (free_list d) ((ys @ [?b]) @ map (block_at a bs) [Suc i..<Suc i + n]))) s1 s'"
    using Suc.IH [of "Suc i" s1 "ys @ [?b]"] Suc.prems(1) s1(2) by auto
  have "split_arena (Suc n) (of_nat i) a s = Some s'"
    using s1(1) s'(1) b(2) dlist_elem_find [OF Suc.prems(3), of ?b] by (simp add: fl blk Let_def add.commute)
  moreover have eq: "(ys @ [?b]) @ map (block_at a bs) [Suc i..<Suc i + n] = ys @ map (block_at a bs) [i..<i + Suc n]"
    using upt_conv_Cons [of i "i + Suc n"] by simp
  moreover have "only_links (set (nodes (free_list d) (ys @ map (block_at a bs) [i..<i + Suc n]))) s s'"
    unfolding eq [symmetric] by (rule only_links_trans [OF s1(3) s'(3)]) (auto simp: nodes_def)
  ultimately show ?case using s'(2) by metis
qed

lemma drop_arena_ok:
  assumes "arena_fits a bs m" "i + n \<le> m" "arena_of a d bs s" "dlist s (free_list d) ys"
    "\<forall>j < n. block_at a bs (i + j) \<in> set ys"
  shows "\<exists>s'. drop_arena n (of_nat i) a s = Some s' \<and>
    dlist s' (free_list d) (filter (\<lambda>x. x \<notin> block_at a bs ` {i..<i + n}) ys) \<and> only_links (set (nodes (free_list d) ys)) s s'"
  using assms(2-)
proof (induction n arbitrary: i s ys)
  case 0
  then show ?case by (simp add: only_links_def)
next
  case (Suc n)
  let ?b = "block_at a bs i"
  have fl: "desc (arenas s a) = d" and blk: "arena2block a (of_nat i) s = ?b"
    using Suc.prems(2) arena2block_at [of s a bs i] by (simp_all add: arena_of_def)
  have b: "?b \<in> set ys" using Suc.prems(4) by (auto dest: spec [of _ 0])
  have dist: "distinct ys" using klist.distinct [OF Suc.prems(3)] .
  obtain s1 where s1: "list_remove ?b s = Some s1" "dlist s1 (free_list d) (remove1 ?b ys)"
      "only_links (set (nodes (free_list d) ys)) s s1"
    using dlist_remove [OF Suc.prems(3) b] by blast
  have "arena_of a d bs s1" using Suc.prems(2) only_links_arena [OF s1(3)] by (simp add: arena_of_def)
  moreover have "\<forall>j < n. block_at a bs (Suc i + j) \<in> set (remove1 ?b ys)"
    using Suc.prems(1,4) assms(1) dist by (auto dest: spec [of _ "Suc _"])
  ultimately obtain s' where s': "drop_arena n (of_nat (Suc i)) a s1 = Some s'"
      "dlist s' (free_list d) (filter (\<lambda>x. x \<notin> block_at a bs ` {Suc i..<Suc i + n}) (remove1 ?b ys))"
      "only_links (set (nodes (free_list d) (remove1 ?b ys))) s1 s'"
    using Suc.IH [of "Suc i" s1 "remove1 ?b ys"] Suc.prems(1) s1(2) by auto
  have "drop_arena (Suc n) (of_nat i) a s = Some s'"
    using s1(1) s'(1) b dlist_elem_find [OF Suc.prems(3), of ?b] by (simp add: fl blk Let_def add.commute)
  moreover have "{i..<i + Suc n} = insert i {Suc i..<Suc i + n}" by auto
  then have "filter (\<lambda>x. x \<notin> block_at a bs ` {Suc i..<Suc i + n}) (remove1 ?b ys) =
      filter (\<lambda>x. x \<notin> block_at a bs ` {i..<i + Suc n}) ys"
    using dist by (auto simp: distinct_remove1_removeAll removeAll_filter_not_eq intro!: filter_cong)
  moreover have "only_links (set (nodes (free_list d) ys)) s s'"
    by (rule only_links_trans [OF s1(3) s'(3) order_refl]) (use set_remove1_subset [of ?b ys] in \<open>auto simp: nodes_def\<close>)
  ultimately show ?case using s'(2) by metis
qed

text \<open>What handing out and taking back a block changes: links, words of memory and headers of arenas.\<close>

definition with_blocks :: "(addr \<Rightarrow> addr) \<Rightarrow> (addr \<Rightarrow> addr) \<Rightarrow> (u32 \<Rightarrow> u32) \<Rightarrow> (addr \<Rightarrow> arena) \<Rightarrow> 'a mem_state_scheme \<Rightarrow> 'a mem_state_scheme" where
  "with_blocks nx pv pm ar s = s\<lparr>next_of := nx, prev_of := pv, pmem := pm, arenas := ar\<rparr>"

definition only_blocks :: "addr set \<Rightarrow> 'a mem_state_scheme \<Rightarrow> 'a mem_state_scheme \<Rightarrow> bool" where
  "only_blocks S s s' \<longleftrightarrow> s' = with_blocks (next_of s') (prev_of s') (pmem s') (arenas s') s \<and> links_same S s s'"

subsection \<open>The invariant\<close>

text \<open>
  \<open>n\<close> blocks of \<open>bs\<close> bytes of the arena \<open>a\<close> belong to the descriptor \<open>d\<close>, whose free list is \<open>xs\<close>; elements of the list inside the page of the arena are
  blocks of it, and the header counts those that are free.
\<close>

definition arena_inv :: "addr \<Rightarrow> addr \<Rightarrow> u32 \<Rightarrow> nat \<Rightarrow> addr list \<Rightarrow> 'a mem_state_scheme \<Rightarrow> bool" where
  "arena_inv a d bs n xs s \<longleftrightarrow> arena_fits a bs n \<and> list_outside d a \<and> arena_of a d bs s \<and> blocks_per_arena (block_descs s d) = of_nat n \<and>
     dlist s (free_list d) xs \<and> (\<forall>x \<in> set xs. block2arena x = a \<longrightarrow> x \<in> arena_blocks a bs n) \<and>
     unat (cnt (arenas s a)) = card (set xs \<inter> arena_blocks a bs n)"

lemma arena_block_in: "arena_fits a bs n \<Longrightarrow> x \<in> arena_blocks a bs n \<Longrightarrow> block2arena x = a"
  using block_at_arena(1) [of a bs n] by (auto simp: arena_blocks_def)

lemma arena_blocks_finite [simp]: "finite (arena_blocks a bs n)"
  by (simp add: arena_blocks_def)

lemma arena_small:
  assumes "arena_fits a bs n"
  shows "n < 4096" "unat (of_nat n :: u32) = n"
proof -
  have "n * 1 \<le> n * unat bs" using assms by (intro mult_left_mono) (auto simp: arena_fits_def word_less_nat_alt)
  then show "n < 4096" using assms unfolding arena_fits_def by linarith
  then show "unat (of_nat n :: u32) = n" by (simp add: unat_of_nat32)
qed

lemma split_arena_inv:
  assumes "arena_fits a bs n" "list_outside d a" "arena_of a d bs s" "blocks_per_arena (block_descs s d) = of_nat n"
    "cnt (arenas s a) = of_nat n" "dlist s (free_list d) xs" "\<forall>x \<in> set xs. block2arena x \<noteq> a"
  shows "\<exists>s'. split_arena n 0 a s = Some s' \<and> arena_inv a d bs n (xs @ map (block_at a bs) [0..<n]) s'"
proof -
  have out: "\<forall>j < n. block_at a bs (0 + j) \<notin> set xs" using assms(7) block_at_arena(1) [OF assms(1)] by auto
  obtain s' where s': "split_arena n (of_nat 0) a s = Some s'" "dlist s' (free_list d) (xs @ map (block_at a bs) [0..<0 + n])"
      "only_links (set (nodes (free_list d) (xs @ map (block_at a bs) [0..<0 + n]))) s s'"
    using split_arena_ok [OF assms(1) _ assms(2,3,6) out] by auto
  have "set (xs @ map (block_at a bs) [0..<n]) \<inter> arena_blocks a bs n = arena_blocks a bs n"
    by (auto simp: arena_blocks_def atLeast0LessThan)
  then have "arena_inv a d bs n (xs @ map (block_at a bs) [0..<n]) s'"
    using assms s'(2) only_links_arena [OF s'(3)] card_arena_blocks [OF assms(1)] arena_small(2) [OF assms(1)]
    by (auto simp: arena_inv_def arena_of_def arena_blocks_def)
  then show ?thesis using s'(1) by simp
qed

lemma free_block_ok:
  assumes inv: "arena_inv a d bs n xs s" and b: "b \<in> arena_blocks a bs n" "b \<notin> set xs"
  shows "if arena_blocks a bs n - {b} \<subseteq> set xs
    then \<exists>s'. free_block PF a b s = mfree_page PF a 1 s' \<and> dlist s' (free_list d) (filter (\<lambda>x. block2arena x \<noteq> a) xs) \<and>
      only_blocks (set (nodes (free_list d) (xs @ [b]))) s s' \<and> pmem s' = pmem s
    else \<exists>s'. free_block PF a b s = Some s' \<and> arena_inv a d bs n (xs @ [b]) s' \<and>
      only_blocks (set (nodes (free_list d) (xs @ [b]))) s s'"
proof -
  let ?B = "arena_blocks a bs n"
  have fits: "arena_fits a bs n" and ao: "arena_of a d bs s" and dl: "dlist s (free_list d) xs" and out: "list_outside d a"
    and bpa: "blocks_per_arena (block_descs s d) = of_nat n" and c: "unat (cnt (arenas s a)) = card (set xs \<inter> ?B)"
    and own: "\<forall>x \<in> set xs. block2arena x = a \<longrightarrow> x \<in> ?B"
    using inv by (auto simp: arena_inv_def)
  obtain i where i: "b = block_at a bs i" "i < n" using b(1) by (auto simp: arena_blocks_def)
  obtain s1 where s1: "list_append (free_list d) b s = Some s1" "dlist s1 (free_list d) (xs @ [b])"
      "only_links (set (nodes (free_list d) (xs @ [b]))) s s1"
    using dlist_append [OF dl block_linkable [OF fits i(2) out]] b(2) i(1) by auto
  let ?s2 = "upd_arena a (\<lambda>r. r\<lparr>cnt := cnt r + 1\<rparr>) s1"
  note eq = only_links_arena [OF s1(3)]
  have ins: "set (xs @ [b]) \<inter> ?B = insert b (set xs \<inter> ?B)" using b(1) by auto
  have card: "card (set (xs @ [b]) \<inter> ?B) = card (set xs \<inter> ?B) + 1" unfolding ins using b(2) by simp
  have le: "card (set (xs @ [b]) \<inter> ?B) \<le> n" using card_mono [of ?B "set (xs @ [b]) \<inter> ?B"] card_arena_blocks [OF fits] by simp
  have d2: "dlist ?s2 (free_list d) (xs @ [b])" using s1(2) dlist_cong [of ?s2 s1] by (simp add: upd_arena_def)
  have cnt2: "cnt (arenas ?s2 a) = cnt (arenas s a) + 1" and desc2: "desc (arenas ?s2 a) = d" "desc (arenas s a) = d"
    and ds2: "block_descs ?s2 = block_descs s" "\<not> large (arenas ?s2 a)"
    using ao by (simp_all add: upd_arena_def eq arena_of_def)
  have u: "unat (cnt (arenas ?s2 a)) = card (set (xs @ [b]) \<inter> ?B)"
    unfolding cnt2 card using c card le arena_small(1) [OF fits] by (simp add: unat_word_ariths)
  have full: "cnt (arenas ?s2 a) = of_nat n \<longleftrightarrow> ?B - {b} \<subseteq> set xs"
  proof -
    have "cnt (arenas ?s2 a) = of_nat n \<longleftrightarrow> card (set (xs @ [b]) \<inter> ?B) = n"
      unfolding word_unat_eq_iff u arena_small(2) [OF fits] ..
    also have "\<dots> \<longleftrightarrow> set (xs @ [b]) \<inter> ?B = ?B"
      using card_subset_eq [of ?B "set (xs @ [b]) \<inter> ?B"] card_arena_blocks [OF fits] by auto
    finally show ?thesis by auto
  qed
  have run: "free_block PF a b s =
      (if cnt (arenas ?s2 a) = of_nat n then do { s \<leftarrow> drop_arena n 0 a ?s2; mfree_page PF a 1 s } else Some ?s2)"
    using s1(1) arena_small(2) [OF fits] by (simp add: free_block_def Let_def desc2 ds2 bpa)
  show ?thesis
  proof (cases "?B - {b} \<subseteq> set xs")
    case True
    then have all: "\<forall>j < n. block_at a bs (0 + j) \<in> set (xs @ [b])" by (auto simp: arena_blocks_def)
    have "arena_of a d bs ?s2" using ao by (simp add: arena_of_def desc2 ds2)
    then obtain s3 where s3: "drop_arena n (of_nat 0) a ?s2 = Some s3"
        "dlist s3 (free_list d) (filter (\<lambda>x. x \<notin> block_at a bs ` {0..<0 + n}) (xs @ [b]))"
        "only_links (set (nodes (free_list d) (xs @ [b]))) ?s2 s3"
      using drop_arena_ok [OF fits _ _ d2 all] by auto
    have "filter (\<lambda>x. x \<notin> block_at a bs ` {0..<0 + n}) (xs @ [b]) = filter (\<lambda>x. block2arena x \<noteq> a) xs"
      using own b(1) arena_block_in [OF fits] by (auto simp: arena_blocks_def atLeast0LessThan intro!: filter_cong)
    moreover have "only_blocks (set (nodes (free_list d) (xs @ [b]))) s s3 \<and> pmem s3 = pmem s"
    proof -
      obtain nx pv nx' pv' where "s1 = s\<lparr>next_of := nx, prev_of := pv\<rparr>" "s3 = ?s2\<lparr>next_of := nx', prev_of := pv'\<rparr>"
        using only_links_update [OF s1(3)] only_links_update [OF s3(3)] by blast
      moreover have "links_same (set (nodes (free_list d) (xs @ [b]))) s s3"
        using only_links_same [OF s1(3)] only_links_same [OF s3(3)] by (simp add: links_same_def upd_arena_def)
      ultimately show ?thesis by (simp add: only_blocks_def with_blocks_def upd_arena_def)
    qed
    ultimately show ?thesis using True full run s3 by auto
  next
    case False
    have "arena_inv a d bs n (xs @ [b]) ?s2"
      using fits out ao bpa d2 own b(1) u by (auto simp: arena_inv_def arena_of_def desc2 ds2)
    moreover have "only_blocks (set (nodes (free_list d) (xs @ [b]))) s ?s2"
      using only_links_update [OF s1(3)] only_links_same [OF s1(3)]
      by (auto simp: only_blocks_def with_blocks_def upd_arena_def links_same_def)
    ultimately show ?thesis using False full run by auto
  qed
qed

subsection \<open>Handing out a block\<close>

lemma memset_words_ok:
  assumes "page_mapped a f s" "\<forall>j < k. page_of (v + 4 * of_nat j) = a"
  shows "\<exists>pm'. memset_words k v s = Some (s\<lparr>pmem := pm'\<rparr>) \<and> (\<forall>x. page_of x \<noteq> f \<longrightarrow> pm' x = pmem s x) \<and>
    (\<forall>x. pm' x = pmem s x \<or> pm' x = 0) \<and> (\<forall>j < k. load32 (v + 4 * of_nat j) (s\<lparr>pmem := pm'\<rparr>) = Some 0)"
  using assms
proof (induction k arbitrary: v s)
  case 0
  then show ?case by (auto intro!: exI [of _ "pmem s"])
next
  case (Suc k)
  obtain p where p: "xlat s v = Some p" "page_of p = f"
    using page_mapped_xlat [OF Suc.prems(1), of v] Suc.prems(2) [rule_format, of 0] by auto
  let ?s1 = "s\<lparr>pmem := (pmem s)(p := 0)\<rparr>"
  have m: "page_mapped a f ?s1" by (rule page_mapped_data [OF Suc.prems(1)]) (use p(2) in auto)
  have "page_of (v + 4 + 4 * of_nat j) = a" if "j < k" for j
    using Suc.prems(2) [rule_format, of "Suc j"] that by (simp add: algebra_simps)
  then have "\<forall>j < k. page_of (v + 4 + 4 * of_nat j) = a" by blast
  from Suc.IH [OF m this] obtain pm' where pm': "memset_words k (v + 4) ?s1 = Some (?s1\<lparr>pmem := pm'\<rparr>)"
      "\<forall>x. page_of x \<noteq> f \<longrightarrow> pm' x = pmem ?s1 x" "\<forall>x. pm' x = pmem ?s1 x \<or> pm' x = 0"
      "\<forall>j < k. load32 (v + 4 + 4 * of_nat j) (?s1\<lparr>pmem := pm'\<rparr>) = Some 0"
    by blast
  have x: "xlat (s\<lparr>pmem := pm'\<rparr>) w = xlat s w" for w
    by (rule page_mapped_data(2) [OF Suc.prems(1)]) (use pm'(2) p(2) in auto)
  have "pm' p = 0" using pm'(3) [rule_format, of p] by simp
  then have "load32 (v + 4 * of_nat j) (s\<lparr>pmem := pm'\<rparr>) = Some 0" if "j < Suc k" for j
    using that pm'(4) x [of v] p(1) by (cases j) (auto simp: load32_def algebra_simps)
  moreover have "store32 v 0 s = Some ?s1" using p(1) by (simp add: store32_def)
  moreover have "pm' x = pmem s x" if "page_of x \<noteq> f" for x using pm'(2) that p(2) by auto
  moreover have "pm' x = pmem s x \<or> pm' x = 0" for x using pm'(3) [rule_format, of x] by (cases "x = p") auto
  ultimately show ?case using pm'(1) by (intro exI [of _ pm']) simp
qed

lemma block_words_in_page:
  assumes "arena_fits a bs n" "b \<in> arena_blocks a bs n" "j < unat bs div 4"
  shows "page_of (b + 4 * of_nat j) = a"
proof -
  obtain i where i: "b = block_at a bs i" "i < n" using assms(2) by (auto simp: arena_blocks_def)
  note u = unat_block_at [OF assms(1) i(2)]
  have j: "4 * j + 4 \<le> unat bs" using assms(3) by linarith
  obtain q where q: "unat a = 4096 * q"
    using assms(1) page_aligned [of a] by (auto simp: arena_fits_def block2arena_page)
  have "unat a < 2 ^ 32" using unsigned_less [of a, where 'a = nat] by simp
  then have lim: "unat a + 4096 \<le> 2 ^ 32" using q by simp
  have ub: "unat b + 4 * j = unat a + (12 + i * unat bs + 4 * j)" using u(1) i(1) by simp
  have "b + 4 * of_nat j = of_nat (unat b + 4 * j)" by simp
  moreover have "unat b + 4 * j < 2 ^ 32" unfolding ub using u(2) j lim by linarith
  ultimately have v: "unat (b + 4 * of_nat j) = unat a + (12 + i * unat bs + 4 * j)"
    using unat_of_nat32 [of "unat b + 4 * j"] ub by simp
  have "unat (page_of (b + 4 * of_nat j)) = unat a"
    unfolding unat_page_of v q using u(2) j by simp
  then show ?thesis by (simp add: word_unat_eq_iff)
qed

lemma malloc_small_ok:
  assumes idx: "find_desc DESC_CNT 0 descs sz s < DESC_CNT" "d = desc_at descs (find_desc DESC_CNT 0 descs sz s)"
    and inv: "arena_inv a d bs n (b # xs) s" and b: "b \<in> arena_blocks a bs n" and pg: "page_mapped a f s"
  shows "\<exists>s'. malloc_small PF descs sz s = Some (b, s') \<and> arena_inv a d bs n xs s' \<and> page_mapped a f s' \<and>
    (\<forall>j < unat bs div 4. load32 (b + 4 * of_nat j) s' = Some 0) \<and> (\<forall>x. page_of x \<noteq> f \<longrightarrow> pmem s' x = pmem s x) \<and>
    only_blocks (set (nodes (free_list d) (b # xs))) s s'"
proof -
  have fits: "arena_fits a bs n" and ao: "arena_of a d bs s" and dl: "dlist s (free_list d) (b # xs)"
    and c: "unat (cnt (arenas s a)) = card (set (b # xs) \<inter> arena_blocks a bs n)"
    using inv by (auto simp: arena_inv_def)
  have ne: "list_empty (free_list d) s = Some False" using dlist_empty [OF dl] by simp
  obtain s1 where s1: "list_pop (free_list d) s = Some (b, s1)" "dlist s1 (free_list d) xs" "only_links (set (nodes (free_list d) (b # xs))) s s1"
    using dlist_pop [OF dl] by blast
  obtain nx pv where u1: "s1 = s\<lparr>next_of := nx, prev_of := pv\<rparr>" using only_links_update [OF s1(3)] by blast
  have bsz: "block_size (block_descs s1 d) = bs" using ao by (simp add: u1 arena_of_def)
  have "page_mapped a f s1" using pg by (simp add: page_mapped_def u1)
  then obtain pm' where pm': "memset_words (unat bs div 4) b s1 = Some (s1\<lparr>pmem := pm'\<rparr>)"
      "\<forall>x. page_of x \<noteq> f \<longrightarrow> pm' x = pmem s1 x" "\<forall>x. pm' x = pmem s1 x \<or> pm' x = 0"
      "\<forall>j < unat bs div 4. load32 (b + 4 * of_nat j) (s1\<lparr>pmem := pm'\<rparr>) = Some 0"
    using memset_words_ok block_words_in_page [OF fits b] by metis
  let ?s2 = "s1\<lparr>pmem := pm'\<rparr>" and ?s3 = "upd_arena a (\<lambda>r. r\<lparr>cnt := cnt r - 1\<rparr>) (s1\<lparr>pmem := pm'\<rparr>)"
  have "malloc_small PF descs sz s = Some (b, ?s3)"
    using idx ne s1(1) pm'(1) bsz arena_block_in [OF fits b] by (simp add: malloc_small_def Let_def)
  moreover have "arena_inv a d bs n xs ?s3"
  proof -
    have "dlist ?s3 (free_list d) xs" using s1(2) dlist_cong [of ?s3 s1] by (simp add: upd_arena_def)
    moreover have "unat (cnt (arenas ?s3 a)) = card (set xs \<inter> arena_blocks a bs n)"
    proof -
      have "b \<notin> set xs" using klist.distinct [OF dl] by simp
      then have "card (set (b # xs) \<inter> arena_blocks a bs n) = card (set xs \<inter> arena_blocks a bs n) + 1" using b by simp
      then have "unat (cnt (arenas s a)) = card (set xs \<inter> arena_blocks a bs n) + 1" using c by simp
      then show ?thesis by (simp add: upd_arena_def u1 unat_sub_if')
    qed
    ultimately show ?thesis using inv by (simp add: arena_inv_def arena_of_def upd_arena_def u1)
  qed
  moreover have "page_mapped a f ?s3"
    using page_mapped_data(1) [OF \<open>page_mapped a f s1\<close>, of pm'] pm'(2) by (simp add: page_mapped_def upd_arena_def)
  moreover have "load32 w ?s3 = load32 w ?s2" for w by (simp add: load32_def upd_arena_def)
  moreover have "pmem ?s3 x = pmem s x" if "page_of x \<noteq> f" for x
    using pm'(2) that by (simp add: upd_arena_def u1)
  moreover have "only_blocks (set (nodes (free_list d) (b # xs))) s ?s3"
    using only_links_same [OF s1(3)] by (auto simp: only_blocks_def with_blocks_def upd_arena_def links_same_def u1)
  ultimately show ?thesis using pm'(4) by auto
qed

subsection \<open>Under the lock of the pool\<close>

lemma take_lock_arena [simp]:
  "arena_inv a d bs n xs (take_lock L s) = arena_inv a d bs n xs s" "page_mapped a f (take_lock L s) = page_mapped a f s"
  "find_desc m i descs sz (take_lock L s) = find_desc m i descs sz s" "block_descs (take_lock L s) = block_descs s"
  "arenas (take_lock L s) = arenas s" "next_of (take_lock L s) = next_of s" "prev_of (take_lock L s) = prev_of s"
  "load32 w (take_lock L s) = load32 w s"
proof -
  show f: "arenas (take_lock L s) = arenas s" "block_descs (take_lock L s) = block_descs s"
    "next_of (take_lock L s) = next_of s" "prev_of (take_lock L s) = prev_of s" for s :: "'a mem_state_scheme"
    by (simp_all add: take_lock_def set_repeat_def set_holder_def set_value_def)
  show "arena_inv a d bs n xs (take_lock L s) = arena_inv a d bs n xs s"
    using dlist_cong [of "take_lock L s" s] by (simp add: arena_inv_def arena_of_def f)
  show "page_mapped a f (take_lock L s) = page_mapped a f s" "load32 w (take_lock L s) = load32 w s"
    by (simp_all add: page_mapped_def load32_def)
  show "find_desc m i descs sz (take_lock L s) = find_desc m i descs sz s"
    by (induction m arbitrary: i) (simp_all add: f)
qed

lemma with_blocks_take_lock: "with_blocks nx pv pm ar (take_lock L s) = take_lock L (with_blocks nx pv pm ar s)"
  by (simp add: with_blocks_def take_lock_def set_repeat_def set_holder_def set_value_def running_thread_def)

text \<open>An idle lock whose list of waiters has no node in \<open>S\<close>.\<close>

definition lock_apart :: "addr \<Rightarrow> addr set \<Rightarrow> 'a sync_state_scheme \<Rightarrow> bool" where
  "lock_apart L S s \<longleftrightarrow> lock_idle L s \<and> list_head (lock_waiters L) \<notin> S"

lemma release_blocks:
  assumes "lock_apart L S s" "only_blocks S (take_lock L s) s'"
  shows "\<exists>s''. lock_release L s' = Some s'' \<and> s' = take_lock L s'' \<and> only_blocks S s s'' \<and> lock_idle L s''"
proof -
  let ?s = "with_blocks (next_of s') (prev_of s') (pmem s') (arenas s') s"
  have eq: "s' = take_lock L ?s" using assms(2) unfolding only_blocks_def with_blocks_take_lock by simp
  have ls: "links_same S s s'" using assms(2) by (simp add: only_blocks_def links_same_def)
  have "next_of ?s (list_head (lock_waiters L)) = next_of s (list_head (lock_waiters L))"
    using ls assms(1) by (simp add: links_same_def with_blocks_def lock_apart_def)
  then have "list_empty (lock_waiters L) ?s = list_empty (lock_waiters L) s" by (simp add: list_empty_def rd_next_def)
  then have idle: "lock_idle L ?s" using assms(1) by (simp add: lock_apart_def lock_idle_def lock_free_def with_blocks_def)
  have "only_blocks S s ?s" using ls by (simp add: only_blocks_def links_same_def with_blocks_def)
  then show ?thesis using release_taken [OF idle] eq idle by (metis (no_types))
qed

lemma only_blocksD:
  assumes "only_blocks S s s'"
  shows "tcb s' = tcb s" "running_thread s' = running_thread s" "mem_pool PF s' = mem_pool PF s" "block_descs s' = block_descs s"
proof -
  obtain nx pv pm ar where "s' = with_blocks nx pv pm ar s" using assms unfolding only_blocks_def by blast
  then show "tcb s' = tcb s" "running_thread s' = running_thread s" "mem_pool PF s' = mem_pool PF s" "block_descs s' = block_descs s"
    by (simp_all add: with_blocks_def running_thread_def mem_pool_def split: pool_flags.split)
qed

lemma sys_malloc_block:
  assumes run: "running_thread s \<noteq> NULL" "kern \<longleftrightarrow> pgdir (tcb s (running_thread s)) = NULL" "PF = (if kern then PF_KERNEL else PF_USER)"
      "descs = (if kern then k_block_descs s else u_block_desc (running_thread s))"
    and sz: "0 < sz" "sz \<le> 1024" "sz < pool_size (mem_pool PF s)"
    and idx: "find_desc DESC_CNT 0 descs sz s < DESC_CNT" "d = desc_at descs (find_desc DESC_CNT 0 descs sz s)"
    and inv: "arena_inv a d bs n (b # xs) s" "b \<in> arena_blocks a bs n" "page_mapped a f s"
    and lock: "lock_apart (pool_lock (mem_pool PF s)) (set (nodes (free_list d) (b # xs))) s"
  shows "\<exists>s1. sys_malloc sz s = Some (b, s1) \<and> arena_inv a d bs n xs s1 \<and>
    lock_apart (pool_lock (mem_pool PF s)) (set (nodes (free_list d) (b # xs))) s1 \<and>
    (\<forall>j < unat bs div 4. load32 (b + 4 * of_nat j) s1 = Some 0) \<and> (\<forall>x. page_of x \<noteq> f \<longrightarrow> pmem s1 x = pmem s x) \<and>
    only_blocks (set (nodes (free_list d) (b # xs))) s s1"
proof -
  let ?L = "pool_lock (mem_pool PF s)" and ?S = "set (nodes (free_list d) (b # xs))"
  have now: "lock_now ?L s = Some (take_lock ?L s)" using lock run(1) by (intro lock_now_free) (simp_all add: lock_apart_def lock_idle_def)
  obtain t where t: "malloc_small PF descs sz (take_lock ?L s) = Some (b, t)" "arena_inv a d bs n xs t"
      "\<forall>j < unat bs div 4. load32 (b + 4 * of_nat j) t = Some 0" "\<forall>x. page_of x \<noteq> f \<longrightarrow> pmem t x = pmem s x"
      "only_blocks ?S (take_lock ?L s) t"
    using malloc_small_ok [of descs sz "take_lock ?L s" d a bs n b xs f PF] idx inv by auto
  obtain s1 where s1: "lock_release ?L t = Some s1" "t = take_lock ?L s1" "only_blocks ?S s s1" "lock_idle ?L s1"
    using release_blocks [OF lock t(5)] by blast
  have "\<not> 1024 < sz" using sz(2) by simp
  then have "sys_malloc sz s = Some (b, s1)"
    using run sz now t(1) s1(1) by (auto simp: sys_malloc_def rd_task_def Let_def)
  then show ?thesis using t(2-4) s1 lock unfolding s1(2) by (auto simp: lock_apart_def)
qed

lemma sys_free_block:
  assumes inv: "arena_inv a d bs n xs s" and b: "b \<in> arena_blocks a bs n" "b \<notin> set xs" "\<not> arena_blocks a bs n - {b} \<subseteq> set xs"
    and run: "running_thread s \<noteq> NULL" "kern \<longleftrightarrow> pgdir (tcb s (running_thread s)) = NULL" "PF = (if kern then PF_KERNEL else PF_USER)"
      "kern \<longrightarrow> K_HEAP_START \<le> b"
    and lock: "lock_apart (pool_lock (mem_pool PF s)) (set (nodes (free_list d) (xs @ [b]))) s"
  shows "\<exists>s'. sys_free b s = Some s' \<and> arena_inv a d bs n (xs @ [b]) s' \<and> lock_idle (pool_lock (mem_pool PF s)) s'"
proof -
  let ?L = "pool_lock (mem_pool PF s)" and ?S = "set (nodes (free_list d) (xs @ [b]))"
  have fits: "arena_fits a bs n" and small: "\<not> large (arenas s a)" using inv by (auto simp: arena_inv_def arena_of_def)
  have ba: "block2arena b = a" "b \<noteq> NULL"
    using arena_block_in [OF fits b(1)] block_at_arena(2) [OF fits] b(1) by (auto simp: arena_blocks_def)
  have now: "lock_now ?L s = Some (take_lock ?L s)" using lock run(1) by (intro lock_now_free) (simp_all add: lock_apart_def lock_idle_def)
  obtain t where t: "free_block PF a b (take_lock ?L s) = Some t" "arena_inv a d bs n (xs @ [b]) t" "only_blocks ?S (take_lock ?L s) t"
    using free_block_ok [of a d bs n xs "take_lock ?L s" b PF] inv b by auto
  obtain s' where s': "lock_release ?L t = Some s'" "t = take_lock ?L s'" "lock_idle ?L s'"
    using release_blocks [OF lock t(3)] by blast
  have "sys_free b s = Some s'"
    using run ba now t(1) s'(1) small by (auto simp: sys_free_def rd_task_def Let_def)
  then show ?thesis using t(2) s' by auto
qed

subsection \<open>Properties\<close>

text \<open>C30: the life of a small block. When the lock of the pool is free and the free list of the smallest fitting descriptor begins with a block of
  an arena, \<open>sys_malloc\<close> returns that block with every word cleared, takes it from the list and changes no memory outside the page of the
  arena; the header goes on counting the free blocks. Giving the block to \<open>sys_free\<close> while another one of the arena is in use puts it at the
  end of the list and restores the count, and the lock is free again.\<close>

theorem block_round_trip:
  assumes "running_thread s \<noteq> NULL" "kern \<longleftrightarrow> pgdir (tcb s (running_thread s)) = NULL" "PF = (if kern then PF_KERNEL else PF_USER)"
    "descs = (if kern then k_block_descs s else u_block_desc (running_thread s))"
    "0 < sz" "sz \<le> 1024" "sz < pool_size (mem_pool PF s)" "kern \<longrightarrow> K_HEAP_START \<le> b"
    "find_desc DESC_CNT 0 descs sz s < DESC_CNT" "d = desc_at descs (find_desc DESC_CNT 0 descs sz s)"
    "arena_inv a d bs n (b # xs) s" "b \<in> arena_blocks a bs n" "page_mapped a f s" "\<not> arena_blocks a bs n \<subseteq> set (b # xs)"
    "lock_apart (pool_lock (mem_pool PF s)) (set (nodes (free_list d) (b # xs))) s"
  shows "\<exists>s1 s2. sys_malloc sz s = Some (b, s1) \<and> arena_inv a d bs n xs s1 \<and>
    (\<forall>j < unat bs div 4. load32 (b + 4 * of_nat j) s1 = Some 0) \<and> (\<forall>x. page_of x \<noteq> f \<longrightarrow> pmem s1 x = pmem s x) \<and>
    sys_free b s1 = Some s2 \<and> arena_inv a d bs n (xs @ [b]) s2 \<and> lock_idle (pool_lock (mem_pool PF s)) s2"
proof -
  let ?L = "pool_lock (mem_pool PF s)" and ?S = "set (nodes (free_list d) (b # xs))"
  obtain s1 where s1: "sys_malloc sz s = Some (b, s1)" "arena_inv a d bs n xs s1" "lock_apart ?L ?S s1"
      "\<forall>j < unat bs div 4. load32 (b + 4 * of_nat j) s1 = Some 0" "\<forall>x. page_of x \<noteq> f \<longrightarrow> pmem s1 x = pmem s x" "only_blocks ?S s s1"
    using sys_malloc_block [OF assms(1-7,9-13,15)] by blast
  have "b \<notin> set xs" using klist.distinct assms(11) unfolding arena_inv_def by (metis distinct.simps(2))
  moreover have "\<not> arena_blocks a bs n - {b} \<subseteq> set xs" using assms(14) by auto
  moreover have "set (nodes (free_list d) (xs @ [b])) = ?S" by (auto simp: nodes_def)
  ultimately obtain s2 where "sys_free b s1 = Some s2" "arena_inv a d bs n (xs @ [b]) s2" "lock_idle ?L s2"
    using sys_free_block [OF s1(2) assms(12), of kern PF] only_blocksD [OF s1(6)] assms(1-3,8) s1(3) by auto
  then show ?thesis using s1 by blast
qed

text \<open>C31: an arena is given back whole. When the last block of an arena in use is freed and the page of the arena is a page of the pool,
  \<open>free_block\<close> returns: none of the assertions on the way fails, all blocks of the arena have left the free list, so that none can be handed
  out again, and the blocks of other arenas are in it in their order; the page is no longer mapped and its frame is free, every other page
  keeps its translation and the memory invariant holds.\<close>

theorem arena_given_back:
  assumes "arena_inv a d bs n xs s" "b \<in> arena_blocks a bs n" "b \<notin> set xs" "arena_blocks a bs n - {b} \<subseteq> set xs"
    "mem_inv s" "owned_page PF a s"
  shows "\<exists>s'. free_block PF a b s = Some s' \<and> dlist s' (free_list d) (filter (\<lambda>x. block2arena x \<noteq> a) xs) \<and> mem_inv s' \<and>
    (\<forall>w. mappable w \<longrightarrow> xlat s' w = (if page_of w = a then None else xlat s w)) \<and> (\<exists>j \<in> free_idx PF s'. xlat s a = Some (frame PF j s))"
proof -
  obtain t where t: "free_block PF a b s = mfree_page PF a 1 t" "dlist t (free_list d) (filter (\<lambda>x. block2arena x \<noteq> a) xs)"
      "only_blocks (set (nodes (free_list d) (xs @ [b]))) s t" "pmem t = pmem s"
    using free_block_ok [OF assms(1-3), of PF] assms(4) by auto
  obtain nx pv ar where "t = with_blocks nx pv (pmem s) ar s" using t(3,4) unfolding only_blocks_def by metis
  then have same: "pmem t = pmem s" "cr3 t = cr3 s" "kernel_pool t = kernel_pool s" "user_pool t = user_pool s" "vaddr_pool PF t = vaddr_pool PF s"
      "frame PF j t = frame PF j s" for j
    by (cases PF; simp add: with_blocks_def vaddr_pool_def running_thread_def frame_def mem_pool_def)+
  obtain s' where s': "mfree_page PF a 1 t = Some s'" "page_freed PF a t s'"
    using mfree_owned [of t PF a] mem_cong [OF same(1-4)] same(5) assms(5,6) by blast
  have "dlist s' (free_list d) (filter (\<lambda>x. block2arena x \<noteq> a) xs)"
    using t(2) dlist_cong [of s' t] page_freedD [OF s'(2)] by simp
  then show ?thesis using t(1) s' same unfolding page_freed_def by auto
qed

subsection \<open>Witnesses\<close>

text \<open>An arena of three blocks of 1024 bytes in a mapped page, the second one in use; the running thread is a process.\<close>

definition demo_arena :: mem_state where
  "demo_arena = demo_mem\<lparr>
     tcb := \<lambda>a. (Thread.demo_task a TASK_RUNNING)\<lparr>pgdir := 0xc0200000\<rparr>,
     sema_value := \<lambda>_. 1, lock_holder := \<lambda>_. NULL, lock_repeat := \<lambda>_. 0,
     next_of := (\<lambda>_. 0)(0xc009e0fc := 0xc00a000c, 0xc00a000c := 0xc00a080c, 0xc00a080c := 0xc009e104,
       list_head (lock_waiters 0xc0009600) := list_tail (lock_waiters 0xc0009600)),
     prev_of := (\<lambda>_. 0)(0xc00a000c := 0xc009e0fc, 0xc00a080c := 0xc00a000c, 0xc009e104 := 0xc00a080c),
     block_descs := (\<lambda>_. \<lparr>block_size = 16, blocks_per_arena = 255\<rparr>)(0xc009e0f4 := \<lparr>block_size = 1024, blocks_per_arena = 3\<rparr>),
     arenas := \<lambda>_. \<lparr>desc = 0xc009e0f4, cnt = 2, large = False\<rparr>\<rparr>"

lemma demo_arena_blocks: "arena_blocks 0xc00a0000 1024 3 = {0xc00a000c, 0xc00a040c, 0xc00a080c}"
proof -
  have "{..<3 :: nat} = {0, 1, 2}" by auto
  then show ?thesis by (simp add: arena_blocks_def block_at_def sizeof_arena_def)
qed

lemma demo_arena_inv: "arena_inv 0xc00a0000 0xc009e0f4 1024 3 [0xc00a000c, 0xc00a080c] demo_arena"
  unfolding arena_inv_def demo_arena_blocks
  by (simp add: arena_fits_def list_outside_def arena_of_def demo_arena_def block2arena_def free_list_def dlist_def nodes_def
      list_head_def list_tail_def sema_waiters_def lock_sema_def)

lemma demo_arena_mapped: "page_mapped 0xc00a0000 0xa0000 demo_arena"
  by (rule boot_page_mapped) (simp_all add: demo_arena_def)

lemma demo_arena_run: "running_thread demo_arena = 0xc009e000" "mem_pool PF_USER demo_arena = user_pool demo_mem"
  by (simp_all add: demo_arena_def running_thread_def mem_pool_def demo_mem_defs demo_dev_def demo_ioq_def demo_sync_def demo_state_def
      kstate.defs sync_state.defs ioq_state.defs)

theorem block_round_trip_witness:
  "\<exists>s1 s2. sys_malloc 1000 demo_arena = Some (0xc00a000c, s1) \<and>
    arena_inv 0xc00a0000 0xc009e0f4 1024 3 [0xc00a080c] s1 \<and>
    (\<forall>j < unat (1024 :: u32) div 4. load32 (0xc00a000c + 4 * of_nat j) s1 = Some 0) \<and>
    (\<forall>x. page_of x \<noteq> 0xa0000 \<longrightarrow> pmem s1 x = pmem demo_arena x) \<and>
    sys_free 0xc00a000c s1 = Some s2 \<and> arena_inv 0xc00a0000 0xc009e0f4 1024 3 ([0xc00a080c] @ [0xc00a000c]) s2 \<and>
    lock_idle (pool_lock (mem_pool PF_USER demo_arena)) s2"
proof -
  have seven: "DESC_CNT = Suc (Suc (Suc (Suc (Suc (Suc (Suc 0))))))" by (simp add: DESC_CNT_def)
  have idx: "find_desc DESC_CNT 0 0xc009e064 1000 demo_arena = 6" unfolding seven by (simp add: demo_arena_def desc_at_def)
  have pool: "pool_size (user_pool demo_mem) = 0x8000" "pool_lock (user_pool demo_mem) = 0xc0009600" by (simp_all add: demo_mem_defs)
  have lock: "lock_apart 0xc0009600 (set (nodes (free_list 0xc009e0f4) [0xc00a000c, 0xc00a080c])) demo_arena"
    by (simp add: lock_apart_def lock_idle_def lock_free_def demo_arena_def list_empty_def rd_next_def nodes_def free_list_def
        list_head_def list_tail_def sema_waiters_def lock_sema_def)
  have pg: "pgdir (tcb demo_arena 0xc009e000) = 0xc0200000" by (simp add: demo_arena_def)
  show ?thesis
    by (rule block_round_trip [where kern = False, OF _ _ _ _ _ _ _ _ _ _ demo_arena_inv _ demo_arena_mapped])
      (simp_all only: demo_arena_run demo_arena_blocks pg idx pool if_False u_block_desc_def, use lock in \<open>simp_all add: idx [unfolded DESC_CNT_def] DESC_CNT_def desc_at_def\<close>)
qed

text \<open>The same arena in a page of the kernel heap.\<close>

definition demo_arena_heap :: mem_state where
  "demo_arena_heap = demo_heap\<lparr>
     next_of := (\<lambda>_. 0)(0xc009e0fc := 0xc010000c, 0xc010000c := 0xc010080c, 0xc010080c := 0xc009e104),
     prev_of := (\<lambda>_. 0)(0xc010000c := 0xc009e0fc, 0xc010080c := 0xc010000c, 0xc009e104 := 0xc010080c),
     block_descs := block_descs demo_arena, arenas := arenas demo_arena\<rparr>"

lemma demo_arena_heap_blocks: "arena_blocks 0xc0100000 1024 3 = {0xc010000c, 0xc010040c, 0xc010080c}"
proof -
  have "{..<3 :: nat} = {0, 1, 2}" by auto
  then show ?thesis by (simp add: arena_blocks_def block_at_def sizeof_arena_def)
qed

lemma demo_arena_heap_inv: "arena_inv 0xc0100000 0xc009e0f4 1024 3 [0xc010000c, 0xc010080c] demo_arena_heap"
  unfolding arena_inv_def demo_arena_heap_blocks
  by (simp add: arena_fits_def list_outside_def arena_of_def demo_arena_heap_def demo_arena_def block2arena_def free_list_def dlist_def nodes_def
      list_head_def list_tail_def)

theorem arena_given_back_witness:
  "\<exists>s'. free_block PF_KERNEL 0xc0100000 0xc010040c demo_arena_heap = Some s' \<and> dlist s' (free_list 0xc009e0f4) [] \<and> mem_inv s' \<and>
    xlat s' 0xc0100000 = None"
proof -
  have f: "pmem demo_arena_heap = pmem demo_heap" "cr3 demo_arena_heap = cr3 demo_heap" "kernel_pool demo_arena_heap = kernel_pool demo_heap"
      "user_pool demo_arena_heap = user_pool demo_heap" "vaddr_pool PF_KERNEL demo_arena_heap = vaddr_pool PF_KERNEL demo_heap"
    by (simp_all add: demo_arena_heap_def vaddr_pool_def)
  have m: "mem_inv demo_arena_heap" "owned_page PF_KERNEL 0xc0100000 demo_arena_heap"
    using mem_cong [OF f(1-4)] f(5) demo_heap_inv demo_heap_owned(1) by blast+
  have sub: "arena_blocks 0xc0100000 1024 3 - {0xc010040c} \<subseteq> set [0xc010000c, 0xc010080c]" by (auto simp: demo_arena_heap_blocks)
  have "mappable 0xc0100000" "page_of (0xc0100000 :: u32) = 0xc0100000" by (simp_all add: mappable_def PDE_IDX_def page_of_def)
  then show ?thesis
    using arena_given_back [OF demo_arena_heap_inv _ _ sub m] by (force simp: demo_arena_heap_blocks block2arena_def)
qed

end
