(* ===== verification/Fork_Data.thy ===== *)
theory Fork_Data
  imports Fork Page_Words
begin

text \<open>
  The two returns of \<open>fork\<close>. The way into the kernel and out of it, \<open>syscall_handler\<close> and \<open>intr_exit\<close> of \<^verbatim>\<open>kernel/kernel.S\<close> and the second half of \<open>switch_to\<close> of
  \<^verbatim>\<open>thread/switch.S\<close>, as pushes and pops of words through the memory management unit; then what \<open>copy_task\<close> and \<open>build_child_stack\<close> make of the
  frame of the parent.
\<close>

unbundle bit_operations_syntax

subsection \<open>Into the kernel and out of it\<close>

text \<open>The registers of a process at a system call; the general registers without the stack pointer in the order of \<open>popad\<close>.\<close>

record regs =
  r_edi :: u32
  r_esi :: u32
  r_ebp :: u32
  r_ebx :: u32
  r_edx :: u32
  r_ecx :: u32
  r_eax :: u32
  r_gs :: u32
  r_fs :: u32
  r_es :: u32
  r_ds :: u32
  r_eip :: u32
  r_cs :: u32
  r_eflags :: u32
  r_esp :: u32
  r_ss :: u32

primrec push_words :: "u32 list \<Rightarrow> addr \<Rightarrow> 'a pg_state_scheme \<Rightarrow> (addr \<times> 'a pg_state_scheme) option" where
  "push_words [] sp s = Some (sp, s)"
| "push_words (x # xs) sp s = do {
     s \<leftarrow> store32 (sp - 4) x s;
     push_words xs (sp - 4) s
   }"

primrec pop_words :: "nat \<Rightarrow> addr \<Rightarrow> 'a pg_state_scheme \<Rightarrow> (u32 list \<times> addr) option" where
  "pop_words 0 sp s = Some ([], sp)"
| "pop_words (Suc n) sp s = do {
     x \<leftarrow> load32 sp s;
     (xs, sp) \<leftarrow> pop_words n (sp + 4) s;
     Some (x # xs, sp)
   }"

text \<open>The processor changes to the stack that the task state segment names and pushes five registers, \<open>syscall_handler\<close> pushes the rest; its result is the stack
  pointer behind the frame, before the arguments of the call are pushed.\<close>

definition syscall_entry :: "regs \<Rightarrow> 'a kstate_scheme \<Rightarrow> (addr \<times> 'a kstate_scheme) option" where
  "syscall_entry r s = do {
     (sp, s) \<leftarrow> push_words [r_ss r, r_esp r, r_eflags r, r_cs r, r_eip r] (tss_esp0 s) s;
     (sp, s) \<leftarrow> push_words [0, r_ds r, r_es r, r_fs r, r_gs r] sp s;
     (sp, s) \<leftarrow> push_words [r_eax r, r_ecx r, r_edx r, r_ebx r, sp, r_ebp r, r_esi r, r_edi r] sp s;
     push_words [0x80] sp s
   }"

text \<open>\<open>popad\<close> skips the word of the stack pointer; \<open>iretd\<close> goes back to the user's privilege level and pops five words.\<close>

definition intr_exit :: "addr \<Rightarrow> 'a pg_state_scheme \<Rightarrow> regs option" where
  "intr_exit sp s = do {
     (w, sp) \<leftarrow> pop_words 8 (sp + 4) s;
     (seg, sp) \<leftarrow> pop_words 4 sp s;
     (ret, sp) \<leftarrow> pop_words 5 (sp + 4) s;
     Some \<lparr>r_edi = w ! 0, r_esi = w ! 1, r_ebp = w ! 2, r_ebx = w ! 4, r_edx = w ! 5, r_ecx = w ! 6, r_eax = w ! 7,
       r_gs = seg ! 0, r_fs = seg ! 1, r_es = seg ! 2, r_ds = seg ! 3,
       r_eip = ret ! 0, r_cs = ret ! 1, r_eflags = ret ! 2, r_esp = ret ! 3, r_ss = ret ! 4\<rparr>
   }"

text \<open>The end of \<open>syscall_handler\<close>: the result of the call goes to the word of \<open>eax\<close>.\<close>

definition syscall_exit :: "addr \<Rightarrow> u32 \<Rightarrow> 'a pg_state_scheme \<Rightarrow> regs option" where
  "syscall_exit sp ret s = do {
     s \<leftarrow> store32 (sp + 8 * 4) ret s;
     intr_exit sp s
   }"

text \<open>\<open>switch_to\<close> from the load of the new stack pointer on: the address to which it returns, and the stack pointer there.\<close>

definition switch_in :: "addr \<Rightarrow> 'a kstate_scheme \<Rightarrow> (addr \<times> addr) option" where
  "switch_in nxt s = do {
     t \<leftarrow> rd_task nxt s;
     (w, sp) \<leftarrow> pop_words 5 (self_kstack t) s;
     Some (w ! 4, sp)
   }"

subsection \<open>The frame of a system call\<close>

lemma pop_words_numeral [simp]:
  "pop_words (numeral n) sp s = do { x \<leftarrow> load32 sp s; (xs, sp) \<leftarrow> pop_words (pred_numeral n) (sp + 4) s; Some (x # xs, sp) }"
  by (simp add: numeral_eq_Suc)

lemma page_of_within:
  assumes "page_of c = c" "k < 4096"
  shows "page_of (c + of_nat k) = c"
proof -
  have "(of_nat k :: u32) AND 0xfff = take_bit 12 (of_nat k)" by (simp add: take_bit_eq_mask mask_eq_exp_minus_1)
  also have "\<dots> = of_nat (take_bit 12 k)" by (simp add: take_bit_of_nat)
  also have "\<dots> = of_nat k" using assms(2) by (simp add: take_bit_nat_eq_self)
  finally show ?thesis using page_of_off [OF assms(1), of "of_nat k"] by simp
qed

text \<open>Data written to the frame of one page leaves the other pages mapped.\<close>

lemma page_mapped_other:
  assumes "page_mapped d fd s" "page_mapped a fa s" "\<And>x. page_of x \<noteq> fd \<Longrightarrow> pm' x = pmem s x"
  shows "page_mapped a fa (s\<lparr>pmem := pm'\<rparr>)"
  using assms page_mapped_data [OF assms(1,3)] data_frame(4) [of "pmem s" "page_of (cr3 s)" fd pm' fa] by (auto simp: page_mapped_def)

text \<open>The copy of a page has the words of the original.\<close>

lemma copy_words_page:
  assumes "page_mapped d fd s" "page_mapped a fa s" "fd \<noteq> fa" "page_of d = d" "page_of a = a" "j + n \<le> 1024"
  shows "\<exists>pm'. copy_words n (d + of_nat (4 * j)) (a + of_nat (4 * j)) s = Some (s\<lparr>pmem := pm'\<rparr>) \<and>
    (\<forall>x. page_of x \<noteq> fd \<longrightarrow> pm' x = pmem s x) \<and>
    (\<forall>i. j \<le> i \<longrightarrow> i < j + n \<longrightarrow> load32 (d + of_nat (4 * i)) (s\<lparr>pmem := pm'\<rparr>) = load32 (a + of_nat (4 * i)) s) \<and>
    (\<forall>i < j. load32 (d + of_nat (4 * i)) (s\<lparr>pmem := pm'\<rparr>) = load32 (d + of_nat (4 * i)) s)"
  using assms(1,2,6)
proof (induction n arbitrary: j s)
  case 0
  then show ?case by (intro exI [of _ "pmem s"]) simp
next
  case (Suc n)
  have pg: "page_of (d + of_nat (4 * i)) = d" "page_of (a + of_nat (4 * i)) = a" if "i < 1024" for i
    using page_of_within [OF assms(4), of "4 * i"] page_of_within [OF assms(5), of "4 * i"] that by simp_all
  obtain p where "xlat s (a + of_nat (4 * j)) = Some p" using page_mapped_xlat [OF Suc.prems(2)] pg(2) [of j] Suc.prems(3) by auto
  then obtain w where w: "load32 (a + of_nat (4 * j)) s = Some w" by (simp add: load32_def)
  obtain pm1 where pm1: "store32 (d + of_nat (4 * j)) w s = Some (s\<lparr>pmem := pm1\<rparr>)" "page_mapped d fd (s\<lparr>pmem := pm1\<rparr>)"
      "\<forall>x. page_of x \<noteq> fd \<longrightarrow> pm1 x = pmem s x"
      "\<forall>v. page_of v = d \<longrightarrow> load32 v (s\<lparr>pmem := pm1\<rparr>) = (if v = d + of_nat (4 * j) then Some w else load32 v s)"
    using store_in_page [OF Suc.prems(1), of "d + of_nat (4 * j)" w] pg(1) [of j] Suc.prems(3) by auto
  have x1: "xlat (s\<lparr>pmem := pm1\<rparr>) v = xlat s v" for v by (rule page_mapped_data(2) [OF Suc.prems(1)]) (use pm1(3) in auto)
  have same: "load32 v (s\<lparr>pmem := pm1\<rparr>) = load32 v s" if "page_of v = a" for v
    using page_mapped_xlat [OF Suc.prems(2) that] x1 [of v] pm1(3) assms(3) by (auto simp: load32_def)
  have ma: "page_mapped a fa (s\<lparr>pmem := pm1\<rparr>)" by (rule page_mapped_other [OF Suc.prems(1,2)]) (use pm1(3) in auto)
  obtain pm' where pm': "copy_words n (d + of_nat (4 * Suc j)) (a + of_nat (4 * Suc j)) (s\<lparr>pmem := pm1\<rparr>) = Some (s\<lparr>pmem := pm'\<rparr>)"
      "\<forall>x. page_of x \<noteq> fd \<longrightarrow> pm' x = pm1 x"
      "\<forall>i. Suc j \<le> i \<longrightarrow> i < Suc j + n \<longrightarrow> load32 (d + of_nat (4 * i)) (s\<lparr>pmem := pm'\<rparr>) = load32 (a + of_nat (4 * i)) (s\<lparr>pmem := pm1\<rparr>)"
      "\<forall>i < Suc j. load32 (d + of_nat (4 * i)) (s\<lparr>pmem := pm'\<rparr>) = load32 (d + of_nat (4 * i)) (s\<lparr>pmem := pm1\<rparr>)"
    using Suc.IH [OF pm1(2) ma, of "Suc j"] Suc.prems(3) by auto
  have "load32 (d + of_nat (4 * i)) (s\<lparr>pmem := pm'\<rparr>) = load32 (a + of_nat (4 * i)) s" if "j \<le> i" "i < j + Suc n" for i
  proof (cases "i = j")
    case True
    then show ?thesis using pm'(4) pm1(4) pg(1) [of j] Suc.prems(3) w by simp
  next
    case False
    then show ?thesis using that pm'(3) same [OF pg(2) [of i]] Suc.prems(3) by simp
  qed
  moreover have "load32 (d + of_nat (4 * i)) (s\<lparr>pmem := pm'\<rparr>) = load32 (d + of_nat (4 * i)) s" if "i < j" for i
  proof -
    have "unat (of_nat (4 * i) :: u32) = 4 * i" "unat (of_nat (4 * j) :: u32) = 4 * j"
      using that Suc.prems(3) by (intro unat_of_nat32; simp)+
    then have "d + of_nat (4 * i) \<noteq> d + (of_nat (4 * j) :: u32)" using that by (metis add_left_cancel less_irrefl mult_left_cancel zero_neq_numeral)
    then show ?thesis using pm'(4) that pm1(4) pg(1) [of i] Suc.prems(3) by simp
  qed
  moreover have "pm' x = pmem s x" if "page_of x \<noteq> fd" for x using pm'(2) pm1(3) that by simp
  moreover have "copy_words (Suc n) (d + of_nat (4 * j)) (a + of_nat (4 * j)) s = Some (s\<lparr>pmem := pm'\<rparr>)"
    using w pm1(1) pm'(1) by (simp add: algebra_simps)
  ultimately show ?case by blast
qed

text \<open>What the frame of a system call at the top of the kernel stack holds, with the offsets of the words; \<open>d\<close> is the stack pointer that
  \<open>pushad\<close> stores and \<open>popad\<close> skips.\<close>

definition frame_words :: "regs \<Rightarrow> u32 \<Rightarrow> (nat \<times> u32) list" where
  "frame_words r d = [(4092, r_ss r), (4088, r_esp r), (4084, r_eflags r), (4080, r_cs r), (4076, r_eip r), (4072, 0),
     (4068, r_ds r), (4064, r_es r), (4060, r_fs r), (4056, r_gs r), (4052, r_eax r), (4048, r_ecx r),
     (4044, r_edx r), (4040, r_ebx r), (4036, d), (4032, r_ebp r), (4028, r_esi r), (4024, r_edi r), (4020, 0x80)]"

definition holds_frame :: "addr \<Rightarrow> (nat \<times> u32) list \<Rightarrow> 'a pg_state_scheme \<Rightarrow> bool" where
  "holds_frame p ws s \<longleftrightarrow> (\<forall>(k, x) \<in> set ws. load32 (p + of_nat k) s = Some x)"

lemma frame_words_range: "(k, x) \<in> set (frame_words r d) \<Longrightarrow> 4020 \<le> k \<and> k < 4096 \<and> k mod 4 = 0"
  by (auto simp: frame_words_def)

lemma syscall_entry_frame:
  assumes "tss_esp0 s = p + PG_SIZE"
  shows "syscall_entry r s = map_option (Pair (p + 4020)) (store_words (map (\<lambda>(k, x). (p + of_nat k, x)) (frame_words r (p + 4056))) s)"
  by (simp add: syscall_entry_def frame_words_def assms PG_SIZE_def map_conv_bind_option Option.bind_assoc comp_def add.commute [of "numeral _" p])

lemma syscall_entry_ok:
  assumes "tss_esp0 s = p + PG_SIZE" "page_of p = p" "page_mapped p f s"
  shows "\<exists>pm'. syscall_entry r s = Some (p + 4020, s\<lparr>pmem := pm'\<rparr>) \<and> (\<forall>a. page_of a \<noteq> f \<longrightarrow> pm' a = pmem s a) \<and>
    holds_frame p (frame_words r (p + 4056)) (s\<lparr>pmem := pm'\<rparr>)"
proof -
  let ?vs = "map (\<lambda>(k, x). (p + of_nat k, x)) (frame_words r (p + 4056))"
  have "\<forall>(v, x) \<in> set ?vs. page_of v = p" using page_of_within [OF assms(2)] frame_words_range by fastforce
  then obtain pm' where pm': "store_words ?vs s = Some (s\<lparr>pmem := pm'\<rparr>)" "\<forall>a. page_of a \<noteq> f \<longrightarrow> pm' a = pmem s a"
      "\<forall>w. page_of w = p \<longrightarrow> load32 w (s\<lparr>pmem := pm'\<rparr>) = (case map_of (rev ?vs) w of Some x \<Rightarrow> Some x | None \<Rightarrow> load32 w s)"
    using store_words_ok [OF assms(3)] by blast
  have dist: "distinct (map fst (rev ?vs))" by (simp add: frame_words_def)
  have "load32 (p + of_nat k) (s\<lparr>pmem := pm'\<rparr>) = Some x" if "(k, x) \<in> set (frame_words r (p + 4056))" for k x
  proof -
    have "(p + of_nat k, x) \<in> set (rev ?vs)" using that by force
    then have "map_of (rev ?vs) (p + of_nat k) = Some x" by (rule map_of_is_SomeI [OF dist])
    then show ?thesis using pm'(3) page_of_within [OF assms(2)] frame_words_range [OF that] by simp
  qed
  then have "holds_frame p (frame_words r (p + 4056)) (s\<lparr>pmem := pm'\<rparr>)" by (auto simp: holds_frame_def)
  then show ?thesis using pm'(1,2) unfolding syscall_entry_frame [OF assms(1)] by auto
qed

lemma intr_exit_frame: "holds_frame p (frame_words r d) s \<Longrightarrow> intr_exit (p + 4020) s = Some r"
  by (simp add: holds_frame_def intr_exit_def frame_words_def add.assoc)

lemma frame_same:
  assumes "holds_frame p (frame_words r d) s"
    "\<And>k. 4020 \<le> k \<Longrightarrow> k < 4096 \<Longrightarrow> load32 (p + of_nat k) s' = load32 (p + of_nat k) s"
  shows "holds_frame p (frame_words r d) s'"
proof -
  have "load32 (p + of_nat k) s' = Some x" if "(k, x) \<in> set (frame_words r d)" for k x
    using assms(1) assms(2) [of k] that frame_words_range [OF that] by (auto simp: holds_frame_def)
  then show ?thesis by (auto simp: holds_frame_def)
qed

text \<open>Only the word of \<open>eax\<close> is overwritten.\<close>

lemma frame_eax:
  assumes "holds_frame p (frame_words r d) s" "load32 (p + 4052) s' = Some v"
    "\<And>k. 4020 \<le> k \<Longrightarrow> k < 4096 \<Longrightarrow> k \<noteq> 4052 \<Longrightarrow> load32 (p + of_nat k) s' = load32 (p + of_nat k) s"
  shows "holds_frame p (frame_words (r\<lparr>r_eax := v\<rparr>) d) s'"
proof -
  have "load32 (p + of_nat k) s' = Some x" if w: "(k, x) \<in> set (frame_words (r\<lparr>r_eax := v\<rparr>) d)" for k x
  proof (cases "k = 4052")
    case True
    moreover have "filter (\<lambda>w. fst w = 4052) (frame_words (r\<lparr>r_eax := v\<rparr>) d) = [(4052, v)]" by (simp add: frame_words_def)
    moreover have "(k, x) \<in> set (filter (\<lambda>w. fst w = 4052) (frame_words (r\<lparr>r_eax := v\<rparr>) d))" using w True by (simp only: set_filter) simp
    ultimately have "x = v" by (simp only: list.set) simp
    then show ?thesis using True assms(2) by simp
  next
    case False
    moreover have "filter (\<lambda>w. fst w \<noteq> 4052) (frame_words (r\<lparr>r_eax := v\<rparr>) d) = filter (\<lambda>w. fst w \<noteq> 4052) (frame_words r d)"
      by (simp add: frame_words_def)
    moreover have "(k, x) \<in> set (filter (\<lambda>w. fst w \<noteq> 4052) (frame_words (r\<lparr>r_eax := v\<rparr>) d))" using w False by (simp only: set_filter) simp
    ultimately have "(k, x) \<in> set (filter (\<lambda>w. fst w \<noteq> 4052) (frame_words r d))" by (simp only:)
    then have "(k, x) \<in> set (frame_words r d)" by (simp only: set_filter) simp
    then have "load32 (p + of_nat k) s = Some x" using assms(1) by (auto simp: holds_frame_def)
    then show ?thesis using assms(3) [of k] False frame_words_range [OF w] by simp
  qed
  then show ?thesis by (auto simp: holds_frame_def)
qed

lemma syscall_exit_frame:
  assumes "holds_frame p (frame_words r d) s" "page_of p = p" "page_mapped p f s"
  shows "syscall_exit (p + 4020) v s = Some (r\<lparr>r_eax := v\<rparr>)"
proof -
  have pg: "page_of (p + 4052) = p" using page_of_within [OF assms(2), of 4052] by simp
  obtain pm' where pm': "store32 (p + 4052) v s = Some (s\<lparr>pmem := pm'\<rparr>)"
      "\<forall>w. page_of w = p \<longrightarrow> load32 w (s\<lparr>pmem := pm'\<rparr>) = (if w = p + 4052 then Some v else load32 w s)"
    using store_in_page [OF assms(3) pg] by blast
  have "load32 (p + of_nat k) (s\<lparr>pmem := pm'\<rparr>) = load32 (p + of_nat k) s" if "k < 4096" "k \<noteq> 4052" for k
  proof -
    have "unat (of_nat k :: u32) = k" using that(1) by (intro unat_of_nat32) simp
    then have "(of_nat k :: u32) \<noteq> 4052" using that(2) by auto
    then show ?thesis using pm'(2) page_of_within [OF assms(2) that(1)] by simp
  qed
  then have "holds_frame p (frame_words (r\<lparr>r_eax := v\<rparr>) d) (s\<lparr>pmem := pm'\<rparr>)"
    using pm'(2) pg by (intro frame_eax [OF assms(1)]) simp_all
  then show ?thesis using intr_exit_frame pm'(1) by (simp add: syscall_exit_def add.assoc)
qed

lemma copy_task_frame:
  assumes "page_mapped c fc s" "page_mapped p fp s" "fc \<noteq> fp" "page_of c = c" "page_of p = p" "c \<noteq> NULL" "p \<noteq> NULL"
    "holds_frame p (frame_words r d) s"
  shows "\<exists>s'. copy_task c p s = Some s' \<and> page_mapped c fc s' \<and> holds_frame c (frame_words r d) s'"
proof -
  obtain pm' where pm': "copy_words 1024 c p s = Some (s\<lparr>pmem := pm'\<rparr>)" "\<forall>x. page_of x \<noteq> fc \<longrightarrow> pm' x = pmem s x"
      "\<forall>i < 1024. load32 (c + of_nat (4 * i)) (s\<lparr>pmem := pm'\<rparr>) = load32 (p + of_nat (4 * i)) s"
    using copy_words_page [OF assms(1-5), of 0 1024] by auto
  then obtain s' where s': "copy_task c p s = Some s'" "pmem s' = pm'" "cr3 s' = cr3 s" using assms(6,7) by (simp add: copy_task_def Let_def)
  have "page_mapped c fc (s\<lparr>pmem := pm'\<rparr>)" by (rule page_mapped_data(1) [OF assms(1)]) (use pm'(2) in auto)
  then have map: "page_mapped c fc s'" using s'(2,3) by (simp add: page_mapped_def)
  have "load32 (c + of_nat k) s' = Some x" if "(k, x) \<in> set (frame_words r d)" for k x
  proof -
    have k: "k = 4 * (k div 4)" "k div 4 < 1024" using frame_words_range [OF that] by auto
    have "load32 (c + of_nat (4 * (k div 4))) (s\<lparr>pmem := pm'\<rparr>) = load32 (p + of_nat (4 * (k div 4))) s" using pm'(3) k(2) by blast
    then have "load32 (c + of_nat k) s' = load32 (p + of_nat k) s" unfolding k(1) [symmetric] using s'(2,3) by (simp add: load32_def)
    then show ?thesis using assms(8) that by (auto simp: holds_frame_def)
  qed
  then show ?thesis using s'(1) map by (auto simp: holds_frame_def)
qed

subsection \<open>The stack of the child\<close>

lemma page_of_small:
  assumes "page_of c = c" "i AND 0xfff = i"
  shows "page_of (c + i) = c"
  using page_of_off [OF assms(1), of i] assms(2) by simp

text \<open>The words that are stored, with their offsets in the page.\<close>

lemma child_stack_words:
  assumes "page_of c = c"
  shows "\<forall>(v, x) \<in> set [(intr_0_stack c + 32, 0), (intr_0_stack c - 4, e), (intr_0_stack c - 8, 0), (intr_0_stack c - 12, 0), (intr_0_stack c - 16, 0),
    (intr_0_stack c - 20, 0)]. page_of v = c"
  using page_of_small [OF assms, of 4052] page_of_small [OF assms, of 4016] page_of_small [OF assms, of 4012] page_of_small [OF assms, of 4008]
    page_of_small [OF assms, of 4004] page_of_small [OF assms, of 4000]
  by (simp add: intr_0_stack_def PG_SIZE_def add.commute [of _ c])

lemma build_child_stack_words:
  assumes "page_of c = c" "c \<noteq> NULL" "page_mapped c f s" "k = intr_0_stack c"
  shows "\<exists>s'. build_child_stack sy c s = Some s' \<and> self_kstack (tcb s' c) = k - 20 \<and>
    (\<forall>i \<in> {0, 4, 8, 12}. load32 (k - 20 + i) s' = Some 0) \<and> load32 (k - 20 + 16) s' = Some (intr_exit_sym sy) \<and> load32 (k + 32) s' = Some 0 \<and>
    (\<forall>w. page_of w = c \<longrightarrow> w \<notin> {k - 20, k - 16, k - 12, k - 8, k - 4, k + 32} \<longrightarrow> load32 w s' = load32 w s)"
proof -
  let ?vs = "[(k + 32, 0), (k - 4, intr_exit_sym sy), (k - 8, 0), (k - 12, 0), (k - 16, 0), (k - 20, 0 :: u32)]"
  have pg: "\<forall>(v, x) \<in> set ?vs. page_of v = c" unfolding assms(4) by (rule child_stack_words [OF assms(1)])
  obtain pm' where pm': "store_words ?vs s = Some (s\<lparr>pmem := pm'\<rparr>)" "\<forall>a. page_of a \<noteq> f \<longrightarrow> pm' a = pmem s a"
      "\<forall>w. page_of w = c \<longrightarrow> load32 w (s\<lparr>pmem := pm'\<rparr>) = (case map_of (rev ?vs) w of Some x \<Rightarrow> Some x | None \<Rightarrow> load32 w s)"
    using store_words_ok [OF assms(3) pg] by blast
  let ?s' = "s\<lparr>pmem := pm', tcb := (tcb s)(c := (tcb s c)\<lparr>self_kstack := k - 20\<rparr>)\<rparr>"
  have run: "build_child_stack sy c s = Some ?s'"
    using pm'(1) assms(2) unfolding build_child_stack_def Let_def assms(4) by (simp del: store_words.simps add: wr_task_def)
  have ld: "load32 w ?s' = (case map_of (rev ?vs) w of Some x \<Rightarrow> Some x | None \<Rightarrow> load32 w s)" if "page_of w = c" for w
    using pm'(3) that by (simp add: load32_def)
  have "load32 w ?s' = Some x" if "(w, x) \<in> set ?vs" for w x
    using ld [of w] pg that by auto
  moreover have "load32 w ?s' = load32 w s" if "page_of w = c" "w \<notin> {k - 20, k - 16, k - 12, k - 8, k - 4, k + 32}" for w
    using ld [OF that(1)] that(2) by auto
  ultimately show ?thesis using run by (intro exI [of _ ?s']) auto
qed

lemma child_switch_in:
  assumes "page_of c = c" "c \<noteq> NULL" "page_mapped c f s" "holds_frame c (frame_words r d) s"
  shows "\<exists>s'. build_child_stack sy c s = Some s' \<and> switch_in c s' = Some (intr_exit_sym sy, c + 4020) \<and>
    holds_frame c (frame_words (r\<lparr>r_eax := 0\<rparr>) d) s'"
proof -
  have k: "intr_0_stack c = c + 4020" by (simp add: intr_0_stack_def PG_SIZE_def)
  obtain s' where s': "build_child_stack sy c s = Some s'" "self_kstack (tcb s' c) = c + 4000"
      "\<forall>i \<in> {0, 4, 8, 12}. load32 (c + 4000 + i) s' = Some 0" "load32 (c + 4016) s' = Some (intr_exit_sym sy)" "load32 (c + 4052) s' = Some 0"
      "\<forall>w. page_of w = c \<longrightarrow> w \<notin> {c + 4000, c + 4004, c + 4008, c + 4012, c + 4016, c + 4052} \<longrightarrow> load32 w s' = load32 w s"
    using build_child_stack_words [OF assms(1-3) k [symmetric], of sy] by (auto simp: add.assoc add.commute [of "numeral _" c])
  have same: "load32 (c + of_nat m) s' = load32 (c + of_nat m) s" if m: "4020 \<le> m" "m < 4096" "m \<noteq> 4052" for m
  proof -
    have "(of_nat m :: u32) = of_nat n \<longleftrightarrow> m = n" if "n < 4096" for n
      using m(2) that unat_of_nat32 [of m] unat_of_nat32 [of n] by (auto simp: word_unat_eq_iff simp del: unsigned_of_nat)
    from this [of 4000] this [of 4004] this [of 4008] this [of 4012] this [of 4016] this [of 4052]
    have "c + of_nat m \<notin> {c + 4000, c + 4004, c + 4008, c + 4012, c + 4016, c + 4052}" using m by simp
    then show ?thesis using s'(6) page_of_within [OF assms(1) m(2)] by blast
  qed
  have "switch_in c s' = Some (intr_exit_sym sy, c + 4020)"
    using s'(2-4) assms(2) by (simp add: switch_in_def rd_task_def add.assoc)
  moreover have "holds_frame c (frame_words (r\<lparr>r_eax := 0\<rparr>) d) s'" by (rule frame_eax [OF assms(4) s'(5) same])
  ultimately show ?thesis using s'(1) by blast
qed

subsection \<open>Properties\<close>

text \<open>C13: \<open>fork\<close> returns twice. A process with registers \<open>r\<close> enters the kernel by a system call. If the frame that the entry pushed (at \<open>sp\<close> and above, in the page of
  the parent \<open>p\<close>) is intact when \<open>memcpy\<close> copies that page to the page \<open>c\<close> of the child, and the copy is intact when \<open>build_child_stack\<close> runs,
  then the child, once \<open>switch_to\<close> has loaded its stack, returns to \<open>intr_exit\<close> and continues with the registers \<open>r\<close> except that \<open>eax\<close> is 0; the parent continues with
  the registers \<open>r\<close> and the result of the call in \<open>eax\<close>.\<close>

theorem fork_child_frame:
  assumes "page_of p = p" "page_mapped p fp s" "tss_esp0 s = p + PG_SIZE" "syscall_entry r s = Some (sp, s0)"
    "page_mapped p fp s1" "\<forall>w. page_of w = p \<longrightarrow> sp - p \<le> w - p \<longrightarrow> load32 w s1 = load32 w s0"
    "page_of c = c" "c \<noteq> NULL" "page_mapped c fc s1" "fc \<noteq> fp" "copy_task c p s1 = Some s2"
    "page_mapped c fc s3" "\<forall>w. page_of w = c \<longrightarrow> sp - p \<le> w - c \<longrightarrow> load32 w s3 = load32 w s2"
  shows "(\<exists>s4 sp'. build_child_stack sy c s3 = Some s4 \<and> switch_in c s4 = Some (intr_exit_sym sy, sp') \<and>
      intr_exit sp' s4 = Some (r\<lparr>r_eax := 0\<rparr>)) \<and> syscall_exit sp v s1 = Some (r\<lparr>r_eax := v\<rparr>)"
proof -
  have e: "sp = p + 4020" "holds_frame p (frame_words r (p + 4056)) s0" using syscall_entry_ok [OF assms(3,1,2), of r] assms(4) by auto
  let ?ws = "frame_words r (p + 4056)"
  have top: "sp - p \<le> of_nat k" if "4020 \<le> k" "k < 4096" for k
  proof -
    have "unat (of_nat k :: u32) = k" using that(2) by (intro unat_of_nat32) simp
    then show ?thesis using that(1) by (simp add: e(1) word_le_nat_alt)
  qed
  have f1: "holds_frame p ?ws s1"
    using assms(6) top page_of_within [OF assms(1)] by (intro frame_same [OF e(2)]) simp
  have "p \<noteq> NULL" using assms(11) by (auto simp: copy_task_def split: if_splits)
  then have f2: "holds_frame c ?ws s2" using copy_task_frame [OF assms(9,5,10,7,1,8) _ f1] assms(11) by auto
  have f3: "holds_frame c ?ws s3"
    using assms(13) top page_of_within [OF assms(7)] by (intro frame_same [OF f2]) simp
  show ?thesis
    using child_switch_in [OF assms(7,8,12) f3, of sy] intr_exit_frame syscall_exit_frame [OF f1 assms(1,5)] e(1) by blast
qed

definition demo_symbols :: symbols where
  "demo_symbols = \<lparr>kernel_thread_sym = 0xc0001000, start_process_sym = 0xc0001100, idle_sym = 0xc0001200, init_sym = 0xc0001300,
     intr_exit_sym = 0xc0001400, console_lock_sym = 0xc0001500, tss_sym = 0xc0001600\<rparr>"

text \<open>A process whose task structure is at 0xc009f000 makes the call; the page at 0xc00a0000 is for the child.\<close>

definition demo_regs :: regs where
  "demo_regs = \<lparr>r_edi = 1, r_esi = 2, r_ebp = 3, r_ebx = 4, r_edx = 5, r_ecx = 6, r_eax = 7, r_gs = 0, r_fs = 0x33, r_es = 0x33, r_ds = 0x33,
     r_eip = 0x8048123, r_cs = 0x2b, r_eflags = 0x202, r_esp = 0xbffff000, r_ss = 0x33\<rparr>"

theorem fork_child_frame_witness:
  "\<exists>sp s0 s2 s4 sp'. syscall_entry demo_regs (demo_task\<lparr>tss_esp0 := 0xc00a0000\<rparr>) = Some (sp, s0) \<and> copy_task 0xc00a0000 0xc009f000 s0 = Some s2 \<and>
    build_child_stack demo_symbols 0xc00a0000 s2 = Some s4 \<and> switch_in 0xc00a0000 s4 = Some (0xc0001400, sp') \<and>
    intr_exit sp' s4 = Some (demo_regs\<lparr>r_eax := 0\<rparr>) \<and> syscall_exit sp 9 s0 = Some (demo_regs\<lparr>r_eax := 9\<rparr>)"
proof -
  let ?p = "0xc009f000 :: addr" and ?c = "0xc00a0000 :: addr" and ?s = "demo_task\<lparr>tss_esp0 := 0xc00a0000\<rparr>"
  have mem: "pmem ?s = boot_pm" "cr3 ?s = 0x100000" by (simp_all add: demo_task_def mem_state.defs task_state.defs)
  have mp: "page_mapped ?p 0x9f000 ?s" "page_mapped ?c 0xa0000 ?s"
    by (rule boot_page_mapped; simp add: mem)+
  have al: "page_of ?p = ?p" "page_of ?c = ?c" by (simp_all add: page_of_def)
  have top: "tss_esp0 ?s = ?p + PG_SIZE" by (simp add: PG_SIZE_def)
  obtain pm0 where s0: "syscall_entry demo_regs ?s = Some (?p + 4020, ?s\<lparr>pmem := pm0\<rparr>)" "\<forall>a. page_of a \<noteq> 0x9f000 \<longrightarrow> pm0 a = pmem ?s a"
      "holds_frame ?p (frame_words demo_regs (?p + 4056)) (?s\<lparr>pmem := pm0\<rparr>)"
    using syscall_entry_ok [OF top al(1) mp(1)] by blast
  let ?s0 = "?s\<lparr>pmem := pm0\<rparr>"
  have m0: "page_mapped ?p 0x9f000 ?s0" "page_mapped ?c 0xa0000 ?s0"
    using page_mapped_other [OF mp(1) mp(1), of pm0] page_mapped_other [OF mp(1) mp(2), of pm0] s0(2) by blast+
  obtain s2 where s2: "copy_task ?c ?p ?s0 = Some s2" "page_mapped ?c 0xa0000 s2"
    using copy_task_frame [OF m0(2,1) _ al(2,1) _ _ s0(3)] by auto
  show ?thesis
    using fork_child_frame [OF al(1) mp(1) top s0(1) m0(1) _ al(2) _ m0(2) _ s2(1) s2(2), of demo_symbols 9] s0(1) s2(1)
    by (force simp: demo_symbols_def)
qed

end
