(* ===== verification/Ensures.thy ===== *)
theory Ensures
  imports Prelude
begin

text \<open>
  A calculus of postconditions for functions with an optional result: \<open>ensures m Q\<close> states that the result of \<open>m\<close>, if there is one, has
  the property \<open>Q\<close>. The collection \<open>ens\<close> holds one rule for every construct of the model's programs; a component adds a rule for every
  function, so that \<open>intro ens\<close> walks through a body and leaves the side conditions. \<open>to1\<close> and \<open>to2\<close> lift a property of the
  state to results in which other values stand before the state.
\<close>

named_theorems ens

definition ensures :: "'a option \<Rightarrow> ('a \<Rightarrow> bool) \<Rightarrow> bool" where
  "ensures m Q \<longleftrightarrow> (\<forall>x. m = Some x \<longrightarrow> Q x)"

definition to1 :: "('s \<Rightarrow> bool) \<Rightarrow> 'r \<times> 's \<Rightarrow> bool" where
  "to1 P x \<longleftrightarrow> P (snd x)"

definition to2 :: "('s \<Rightarrow> bool) \<Rightarrow> 'r \<times> 'q \<times> 's \<Rightarrow> bool" where
  "to2 P x \<longleftrightarrow> P (snd (snd x))"

lemma to_simps [simp]: "to1 P (r, s) = P s" "to2 P (r, q, s) = P s"
  by (simp_all add: to1_def to2_def)

lemma ensD: "m = Some x \<Longrightarrow> ensures m Q \<Longrightarrow> Q x"
  by (simp add: ensures_def)

lemma ens_pure: "(\<And>x. m = Some x \<Longrightarrow> Q x) \<Longrightarrow> ensures m Q"
  by (simp add: ensures_def)

lemma ens_Some [ens]: "Q x \<Longrightarrow> ensures (Some x) Q"
  by (simp add: ensures_def)

lemma ens_None [ens]: "ensures None Q"
  by (simp add: ensures_def)

lemma ens_bind [ens]: "ensures m (\<lambda>x. ensures (k x) Q) \<Longrightarrow> ensures (m \<bind> k) Q"
  by (auto simp: ensures_def bind_eq_Some_conv)

lemma ens_if [ens]: "(b \<Longrightarrow> ensures m Q) \<Longrightarrow> (\<not> b \<Longrightarrow> ensures n Q) \<Longrightarrow> ensures (if b then m else n) Q"
  by simp

lemma ens_case_option [ens]:
  "(x = None \<Longrightarrow> ensures n Q) \<Longrightarrow> (\<And>y. x = Some y \<Longrightarrow> ensures (f y) Q) \<Longrightarrow>
   ensures (case x of None \<Rightarrow> n | Some y \<Rightarrow> f y) Q"
  by (simp split: option.split)

lemma ens_case_prod [ens]: "(\<And>a b. x = (a, b) \<Longrightarrow> ensures (f a b) Q) \<Longrightarrow> ensures (case x of (a, b) \<Rightarrow> f a b) Q"
  by (cases x) simp

lemma ens_map_option [ens]: "ensures m (\<lambda>x. Q (f x)) \<Longrightarrow> ensures (map_option f m) Q"
  by (auto simp: ensures_def)

text \<open>The rule of a function with the postcondition \<open>P\<close>, \<open>to1 P\<close> or \<open>to2 P\<close>, for any postcondition.\<close>

lemma ens_mono: "ensures m R \<Longrightarrow> (\<And>x. R x \<Longrightarrow> Q x) \<Longrightarrow> ensures m Q"
  by (auto simp: ensures_def)

lemma ens_to1: "ensures m (to1 P) \<Longrightarrow> (\<And>r s. P s \<Longrightarrow> Q (r, s)) \<Longrightarrow> ensures m Q"
  by (auto simp: ensures_def)

lemma ens_to2: "ensures m (to2 P) \<Longrightarrow> (\<And>r q s. P s \<Longrightarrow> Q (r, q, s)) \<Longrightarrow> ensures m Q"
  by (auto simp: ensures_def)

end
