(* ===== verification/Invariant.thy ===== *)
theory Invariant
  imports Ensures Filesys
begin

text \<open>
  Invariants of the whole kernel. \<open>machine_invariant\<close> is the contract of a property of the kernel's state that every operation keeps which changes
  neither the file table nor the disk: it does not depend on the fields that may change freely, it bears a new value of the other fields
  if that value is well formed, and it implies that the present values are. \<open>Invariant_Fs\<close> extends it by the file table and by the disk.
  The well-formedness predicates say of a value what its C type and the checks of the code promise: a
  descriptor is -1 or an index of \<open>file_table\<close>, a descriptor table has eight entries, an inode thirteen sector numbers, a sector 512 bytes.

  The lemmas prove once, for every such property, that the functions of the kernel keep it, from the interrupt flag up to the memory
  allocator and the process table; \<open>Invariant_Fs\<close> goes on with the disk and the file system.
\<close>

unbundle bit_operations_syntax

subsection \<open>Well-formed values\<close>

definition fd_typed :: "u32 \<Rightarrow> bool" where
  "fd_typed g \<longleftrightarrow> g = - 1 \<or> unat g < MAX_FILE_OPEN"

definition task_typed :: "task_struct \<Rightarrow> bool" where
  "task_typed t \<longleftrightarrow> length (fd_table t) = MAX_FILES_OPEN_PER_PROC \<and>
     (\<forall>g \<in> set (fd_table t). fd_typed g) \<and> length (name t) < 16"

definition part_typed :: "partition \<Rightarrow> bool" where
  "part_typed p \<longleftrightarrow> bm_wf (block_bitmap p) \<and> bm_wf (inode_bitmap p)"

definition inode_typed :: "inode \<Rightarrow> bool" where
  "inode_typed i \<longleftrightarrow> length (i_sectors i) = 13"

definition platter_typed :: "platters \<Rightarrow> bool" where
  "platter_typed pl \<longleftrightarrow> (\<forall>b d l. length (pl b d l) = 512)"

subsection \<open>Rules for the other constructs\<close>

text \<open>Functions that only read the state, recognised by the type of their result.\<close>

lemmas ens_readers [ens] =
  ens_pure [where ?'a = u32] ens_pure [where ?'a = bool] ens_pure [where ?'a = unit] ens_pure [where ?'a = task_struct]
  ens_pure [where ?'a = int] ens_pure [where ?'a = "u8 list"] ens_pure [where ?'a = u8] ens_pure [where ?'a = nat]
  ens_pure [where ?'a = "u32 list"] ens_pure [where ?'a = inode] ens_pure [where ?'a = file_struct]
  ens_pure [where ?'a = "partition \<times> super_block"] ens_pure [where ?'a = inode_position] ens_pure [where ?'a = dir_entry]
  ens_pure [where ?'a = "nat option"] ens_pure [where ?'a = "u8 list option \<times> u8 list"]
  ens_pure [where ?'a = "bool \<times> u8 \<times> nat option"] ens_pure [where ?'a = "nat option \<times> u32"]

lemma ens_case_wait [ens]:
  "(w = Got \<Longrightarrow> ensures m Q) \<Longrightarrow> (\<And>i. w = Slept i \<Longrightarrow> ensures (f i) Q) \<Longrightarrow> ensures (case w of Got \<Rightarrow> m | Slept i \<Rightarrow> f i) Q"
  by (cases w) auto

lemma ens_case_blocking [ens]:
  "(\<And>i. w = Waits i \<Longrightarrow> ensures (f i) Q) \<Longrightarrow> (\<And>x. w = Returns x \<Longrightarrow> ensures (g x) Q) \<Longrightarrow>
   ensures (case w of Waits i \<Rightarrow> f i | Returns x \<Rightarrow> g x) Q"
  by (cases w) auto

lemma bitmap_set_ens [THEN ens_mono, ens]: "bm_wf b \<Longrightarrow> ensures (bitmap_set b i v) bm_wf"
  by (auto simp: bm_wf_def ensures_def dest: bitmap_set_length)

lemma bitmap_set_run_ens [THEN ens_mono, ens]: "bm_wf b \<Longrightarrow> ensures (bitmap_set_run b i n v) bm_wf"
  by (auto simp: bm_wf_def ensures_def dest: bitmap_set_run_length)

lemma store_at_typed:
  assumes "platter_typed pl" "length xs = 512 * n"
  shows "platter_typed (store_at b d lba xs pl)"
  using assms by (auto simp: platter_typed_def store_at_def)

lemma task_typed_fd: "task_typed t \<Longrightarrow> get_at (fd_table t) k = Some g \<Longrightarrow> fd_typed g"
  by (auto simp: task_typed_def get_at_eq_Some)

lemma fd_typed_small: "g < 3 \<Longrightarrow> fd_typed g"
  by (auto simp: fd_typed_def word_less_nat_alt MAX_FILE_OPEN_def)

lemma find_slot_bound:
  assumes "find p [3..<MAX_FILE_OPEN] = Some k"
  shows "fd_typed (of_nat k)"
proof -
  have "k < MAX_FILE_OPEN" using assms nth_mem [of _ "[3..<MAX_FILE_OPEN]"] by (fastforce simp: find_Some_iff simp del: nth_upt)
  then show ?thesis by (simp add: fd_typed_def unat_of_nat MAX_FILE_OPEN_def)
qed

lemma rd_task_eq: "rd_task p s = Some t \<longleftrightarrow> p \<noteq> NULL \<and> t = tcb s p"
  by (auto simp: rd_task_def)

subsection \<open>The contract\<close>

locale machine_invariant =
  fixes P :: "'a fs_state_scheme \<Rightarrow> bool"
  assumes plain [simp]:
    "P (s\<lparr>eflags := a1\<rparr>) = P s" "P (s\<lparr>outs := a2\<rparr>) = P s" "P (s\<lparr>prev_of := a3\<rparr>) = P s" "P (s\<lparr>next_of := a3\<rparr>) = P s"
    "P (s\<lparr>pmem := a3\<rparr>) = P s" "P (s\<lparr>cr3 := a4\<rparr>) = P s" "P (s\<lparr>esp := a4\<rparr>) = P s" "P (s\<lparr>thread_tag := a4\<rparr>) = P s"
    "P (s\<lparr>tss_esp0 := a4\<rparr>) = P s" "P (s\<lparr>sema_value := a5\<rparr>) = P s" "P (s\<lparr>lock_holder := a3\<rparr>) = P s"
    "P (s\<lparr>lock_repeat := a3\<rparr>) = P s" "P (s\<lparr>total_ticks := a4\<rparr>) = P s" "P (s\<lparr>screen := a6\<rparr>) = P s"
    "P (s\<lparr>block_descs := a7\<rparr>) = P s" "P (s\<lparr>arenas := a8\<rparr>) = P s" "P (s\<lparr>user_bits := a3\<rparr>) = P s" "P (s\<lparr>chans := a9\<rparr>) = P s"
    "P (s\<lparr>ata_status := a10\<rparr>) = P s" "P (s\<lparr>dirs := a11\<rparr>) = P s" "P (s\<lparr>ctrl_status := a12\<rparr>) = P s"
    "P (s\<lparr>shift_status := a12\<rparr>) = P s" "P (s\<lparr>alt_status := a12\<rparr>) = P s" "P (s\<lparr>caps_lock_status := a12\<rparr>) = P s"
    "P (s\<lparr>ext_scancode := a12\<rparr>) = P s"
  and task_kept: "P s \<Longrightarrow> (\<And>p. task_typed (t p)) \<Longrightarrow> P (s\<lparr>tcb := t\<rparr>)"
  and ioq_kept: "P s \<Longrightarrow> (\<And>p. q_wf (q p)) \<Longrightarrow> P (s\<lparr>ioqs := q\<rparr>)"
  and kernel_pool_kept: "P s \<Longrightarrow> bm_wf b \<Longrightarrow> P (s\<lparr>kernel_pool := (kernel_pool s)\<lparr>pool_bitmap := b\<rparr>\<rparr>)"
  and user_pool_kept: "P s \<Longrightarrow> bm_wf b \<Longrightarrow> P (s\<lparr>user_pool := (user_pool s)\<lparr>pool_bitmap := b\<rparr>\<rparr>)"
  and kernel_vaddr_kept: "P s \<Longrightarrow> bm_wf b \<Longrightarrow> P (s\<lparr>kernel_vaddr := (kernel_vaddr s)\<lparr>vaddr_bitmap := b\<rparr>\<rparr>)"
  and userprog_vaddr_kept: "P s \<Longrightarrow> (\<And>p. bm_wf (vaddr_bitmap (v p))) \<Longrightarrow> P (s\<lparr>userprog_vaddr := v\<rparr>)"
  and pid_bitmap_kept: "P s \<Longrightarrow> bm_wf b \<Longrightarrow> P (s\<lparr>pid_bitmap := b\<rparr>)"
  and inode_kept: "P s \<Longrightarrow> (\<And>p. inode_typed (i p)) \<Longrightarrow> P (s\<lparr>inodes := i\<rparr>)"
  and typed: "P s \<Longrightarrow> task_typed (tcb s p)" "P s \<Longrightarrow> q_wf (ioqs s p)" "P s \<Longrightarrow> bm_wf (pool_bitmap (kernel_pool s))"
    "P s \<Longrightarrow> bm_wf (pool_bitmap (user_pool s))" "P s \<Longrightarrow> bm_wf (vaddr_bitmap (kernel_vaddr s))"
    "P s \<Longrightarrow> bm_wf (vaddr_bitmap (userprog_vaddr s p))" "P s \<Longrightarrow> bm_wf (pid_bitmap s)" "P s \<Longrightarrow> part_typed (parts s p)"
    "P s \<Longrightarrow> platter_typed (platter s)" "P s \<Longrightarrow> inode_typed (inodes s p)"
begin

lemma wr_task_keeps [THEN ens_mono, ens]: "P s \<Longrightarrow> (task_typed (tcb s p) \<Longrightarrow> task_typed (f (tcb s p))) \<Longrightarrow> ensures (wr_task p f s) P"
  by (simp add: wr_task_def ensures_def task_kept typed)

lemma task_typed_simps [simp]:
  "task_typed (t\<lparr>self_kstack := b1\<rparr>) = task_typed t" "task_typed (t\<lparr>pid := b2\<rparr>) = task_typed t" "task_typed (t\<lparr>status := b3\<rparr>) = task_typed t"
  "task_typed (t\<lparr>priority := b4\<rparr>) = task_typed t" "task_typed (t\<lparr>ticks := b4\<rparr>) = task_typed t" "task_typed (t\<lparr>elapsed_ticks := b1\<rparr>) = task_typed t"
  "task_typed (t\<lparr>pgdir := b1\<rparr>) = task_typed t" "task_typed (t\<lparr>cwd_inode_nr := b1\<rparr>) = task_typed t" "task_typed (t\<lparr>parent_pid := b2\<rparr>) = task_typed t"
  "task_typed (t\<lparr>exit_status := b4\<rparr>) = task_typed t" "task_typed (t\<lparr>stack_magic := b1\<rparr>) = task_typed t"
  by (simp_all add: task_typed_def)

lemma task_typed_fd_update [simp]: "task_typed t \<Longrightarrow> fd_typed g \<Longrightarrow> task_typed (t\<lparr>fd_table := (fd_table t)[k := g]\<rparr>)"
  using set_update_subset_insert [of "fd_table t" k g] by (auto simp: task_typed_def)

lemma task_typed_name [simp]: "task_typed t \<Longrightarrow> length n < 16 \<Longrightarrow> task_typed (t\<lparr>name := n\<rparr>)"
  by (simp add: task_typed_def)

lemma fd_typed_none [simp]: "fd_typed (- 1)"
  by (simp add: fd_typed_def)

lemma inode_typed_simps [simp]:
  "inode_typed (i\<lparr>i_open_cnts := c\<rparr>) = inode_typed i" "inode_typed (i\<lparr>i_size := c\<rparr>) = inode_typed i"
  "inode_typed (i\<lparr>write_deny := w\<rparr>) = inode_typed i" "inode_typed (i\<lparr>i_sectors := (i_sectors i)[k := c]\<rparr>) = inode_typed i"
  "inode_typed (inode_of xs)" "inode_typed (inode_init n)"
  by (simp_all add: inode_typed_def inode_of_def inode_init_def words32_def)

lemma part_typed_simps [simp]:
  "part_typed p \<Longrightarrow> bm_wf b \<Longrightarrow> part_typed (p\<lparr>inode_bitmap := b\<rparr>)"
  "part_typed p \<Longrightarrow> bm_wf b \<Longrightarrow> part_typed (p\<lparr>block_bitmap := b\<rparr>)"
  by (simp_all add: part_typed_def)

lemma bitmaps_typed [simp]: "P s \<Longrightarrow> bm_wf (inode_bitmap (parts s p))" "P s \<Longrightarrow> bm_wf (block_bitmap (parts s p))"
  using typed(8) [of s p] by (simp_all add: part_typed_def)

lemmas kept [simp] = pid_bitmap_kept typed

subsection \<open>The processor\<close>

lemma outb_keeps [simp]: "P (outb x1 x2 s) = P s"
  by (simp add: outb_def)

lemma intr_keeps [simp]: "P (snd (intr_disable s)) = P s" "P (snd (intr_set_status st s)) = P s"
  by (simp_all add: intr_disable_def intr_set_status_def intr_enable_def sti_def cli_def)

lemma intr_pair_keeps [simp]: "intr_disable s = (x, s') \<Longrightarrow> P s \<Longrightarrow> P s'"
  using intr_keeps(1) [of s] by simp

subsection \<open>Lists\<close>

lemma wr_prev_keeps [THEN ens_mono, ens]: "P s \<Longrightarrow> ensures (wr_prev x1 x2 s) P"
  by (unfold wr_prev_def Let_def) (intro ens; simp)

lemma wr_next_keeps [THEN ens_mono, ens]: "P s \<Longrightarrow> ensures (wr_next x1 x2 s) P"
  by (unfold wr_next_def Let_def) (intro ens; simp)

lemma list_init_keeps [THEN ens_mono, ens]: "P s \<Longrightarrow> ensures (list_init x1 s) P"
  by (unfold list_init_def Let_def) (intro ens; simp)

lemma list_insert_before_keeps [THEN ens_mono, ens]: "P s \<Longrightarrow> ensures (list_insert_before x1 x2 s) P"
  by (unfold list_insert_before_def Let_def) (intro ens; simp)

lemma list_push_keeps [THEN ens_mono, ens]: "P s \<Longrightarrow> ensures (list_push x1 x2 s) P"
  by (unfold list_push_def Let_def) (intro ens; simp)

lemma list_append_keeps [THEN ens_mono, ens]: "P s \<Longrightarrow> ensures (list_append x1 x2 s) P"
  by (unfold list_append_def Let_def) (intro ens; simp)

lemma list_remove_keeps [THEN ens_mono, ens]: "P s \<Longrightarrow> ensures (list_remove x1 s) P"
  by (unfold list_remove_def Let_def) (intro ens; simp)

lemma list_pop_keeps [THEN ens_to1, ens]: "P s \<Longrightarrow> ensures (list_pop x1 s) (to1 P)"
  by (unfold list_pop_def Let_def) (intro ens; simp)

text \<open>The callback of a traversal keeps the invariant.\<close>

lemma list_traversal_loop_keeps:
  assumes func: "\<And>elem s. P s \<Longrightarrow> ensures (func elem arg s) (to1 P)" and "P s"
  shows "ensures (list_traversal_loop t func arg elem s) (to1 P)"
proof (rule ens_pure)
  fix r assume "list_traversal_loop t func arg elem s = Some r"
  then show "to1 P r" using func \<open>P s\<close>
  proof (induction rule: list_traversal_loop.raw_induct [rotated 1, consumes 1])
    case (1 f t func arg elem s y)
    have keep: "to1 P z" if "func elem arg s = Some z" for z using ensD [OF that 1(3) [OF 1(4)]] .
    show ?case
    proof (cases "elem = t")
      case False
      then obtain hit s' where c: "func elem arg s = Some (hit, s')"
        and y: "(if hit then Some (elem, s') else rd_next s' elem \<bind> (\<lambda>n. f t func arg n s')) = Some y"
        using 1(2) by (auto simp: bind_eq_Some_conv)
      have p: "P s'" using keep [OF c] by simp
      show ?thesis
      proof (cases hit)
        case False
        then obtain n where "f t func arg n s' = Some y" using y by (auto simp: bind_eq_Some_conv)
        then show ?thesis by (rule 1(1)) (rule 1(3) p; assumption?)+
      qed (use y p in auto)
    qed (use 1 in auto)
  qed
qed

lemma list_traversal_keeps:
  assumes "P s" "\<And>elem s. P s \<Longrightarrow> ensures (func elem arg s) (to1 P)"
  shows "ensures (list_traversal l func arg s) (to1 P)"
proof -
  have loop: "ensures (list_traversal_loop t func arg elem s) (to1 P)" for t elem
    by (rule list_traversal_loop_keeps) (rule assms; assumption?)+
  show ?thesis using assms(1) by (unfold list_traversal_def) (intro ens loop; simp)
qed

lemmas traversal_rule [ens] = list_traversal_keeps [THEN ens_to1]

subsection \<open>Words of memory\<close>

lemma store32_keeps [THEN ens_mono, ens]: "P s \<Longrightarrow> ensures (store32 x1 x2 s) P"
  by (unfold store32_def Let_def) (intro ens; simp)

lemma memset_page_keeps [THEN ens_mono, ens]: "P s \<Longrightarrow> ensures (memset_page x1 s) P"
  by (unfold memset_page_def Let_def) (intro ens; simp)

lemma page_table_pte_remove_keeps [THEN ens_mono, ens]: "P s \<Longrightarrow> ensures (page_table_pte_remove x1 s) P"
  by (unfold page_table_pte_remove_def Let_def) (intro ens; simp)

subsection \<open>Threads and the scheduler\<close>

lemma update_tss_esp_keeps [simp]: "P (update_tss_esp x1 s) = P s"
  by (simp add: update_tss_esp_def)

lemma page_dir_activate_keeps [THEN ens_mono, ens]: "P s \<Longrightarrow> ensures (page_dir_activate x1 s) P"
  by (unfold page_dir_activate_def Let_def) (intro ens; simp)

lemma process_activate_keeps [THEN ens_mono, ens]: "P s \<Longrightarrow> ensures (process_activate x1 s) P"
  by (unfold process_activate_def Let_def) (intro ens; simp)

lemma switch_to_keeps [THEN ens_mono, ens]: "P s \<Longrightarrow> ensures (switch_to x1 x2 s) P"
  by (unfold switch_to_def Let_def) (intro ens; simp)

lemma thread_unblock_keeps [THEN ens_mono, ens]: "P s \<Longrightarrow> ensures (thread_unblock x1 s) P"
  by (unfold thread_unblock_def Let_def) (intro ens; simp)

lemma schedule_requeue_keeps [THEN ens_mono, ens]: "P s \<Longrightarrow> ensures (schedule_requeue x1 s) P"
  by (unfold schedule_requeue_def Let_def) (intro ens; simp)

lemma schedule_wake_idle_keeps [THEN ens_mono, ens]: "P s \<Longrightarrow> ensures (schedule_wake_idle s) P"
  by (unfold schedule_wake_idle_def Let_def) (intro ens; simp)

lemma schedule_dispatch_keeps [THEN ens_mono, ens]: "P s \<Longrightarrow> ensures (schedule_dispatch x1 s) P"
  by (unfold schedule_dispatch_def Let_def) (intro ens; simp)

lemma schedule_keeps [THEN ens_mono, ens]: "P s \<Longrightarrow> ensures (schedule s) P"
  by (unfold schedule_def Let_def) (intro ens; simp)

lemma thread_block_keeps [THEN ens_to1, ens]: "P s \<Longrightarrow> ensures (thread_block x1 s) (to1 P)"
  by (unfold thread_block_def Let_def) (intro ens; simp)

lemma resume_intr_keeps [simp]: "P (resume_intr x1 s) = P s"
  by (simp add: resume_intr_def)

subsection \<open>Semaphores and locks\<close>

lemma set_value_keeps [simp]: "P (set_value x1 x2 s) = P s"
  by (simp add: set_value_def)

lemma set_holder_keeps [simp]: "P (set_holder x1 x2 s) = P s"
  by (simp add: set_holder_def)

lemma set_repeat_keeps [simp]: "P (set_repeat x1 x2 s) = P s"
  by (simp add: set_repeat_def)

lemma sema_init_keeps [THEN ens_mono, ens]: "P s \<Longrightarrow> ensures (sema_init x1 x2 s) P"
  by (unfold sema_init_def Let_def) (intro ens; simp)

lemma lock_init_keeps [THEN ens_mono, ens]: "P s \<Longrightarrow> ensures (lock_init x1 s) P"
  by (unfold lock_init_def Let_def) (intro ens; simp)

lemma sema_down_turn_keeps [THEN ens_to1, ens]: "P s \<Longrightarrow> ensures (sema_down_turn x1 s) (to1 P)"
  by (unfold sema_down_turn_def Let_def) (intro ens; simp)

lemma sema_down_end_keeps [THEN ens_to1, ens]: "to1 P ws \<Longrightarrow> ensures (sema_down_end st ws) (to1 P)"
  by (cases ws; cases "fst ws") (simp_all add: sema_down_end_def ens_Some)

lemma sema_down_keeps [THEN ens_to2, ens]: "P s \<Longrightarrow> ensures (sema_down l s) (to2 P)"
  by (unfold sema_down_def Let_def) (intro ens; simp)

lemma sema_up_keeps [THEN ens_mono, ens]: "P s \<Longrightarrow> ensures (sema_up x1 s) P"
  by (unfold sema_up_def Let_def) (intro ens; simp)

lemma acquire_own_keeps [simp]: "P (acquire_own x1 s) = P s"
  by (simp add: acquire_own_def)

lemma acquire_count_keeps [THEN ens_mono, ens]: "P s \<Longrightarrow> ensures (acquire_count x1 s) P"
  by (unfold acquire_count_def Let_def) (intro ens; simp)

lemma lock_acquire_keeps [THEN ens_to1, ens]: "P s \<Longrightarrow> ensures (lock_acquire x1 s) (to1 P)"
  by (unfold lock_acquire_def Let_def) (intro ens; simp)

lemma release_check_keeps [THEN ens_to1, ens]: "P s \<Longrightarrow> ensures (release_check x1 s) (to1 P)"
  by (unfold release_check_def Let_def) (intro ens; simp)

lemma lock_release_keeps [THEN ens_mono, ens]: "P s \<Longrightarrow> ensures (lock_release x1 s) P"
  by (unfold lock_release_def Let_def) (intro ens; simp)

subsection \<open>Queues\<close>

lemma upd_ioq_keeps: "P s \<Longrightarrow> q_wf (f (ioqs s q)) \<Longrightarrow> P (upd_ioq q f s)"
  by (simp add: upd_ioq_def ioq_kept)

lemma upd_ioq_typed [simp]:
  assumes "P s"
  shows "P (upd_ioq q (\<lambda>q. q\<lparr>producer := p\<rparr>) s)" "P (upd_ioq q (\<lambda>q. q\<lparr>consumer := p\<rparr>) s)"
    "P (upd_ioq q (\<lambda>q. q\<lparr>producer := NULL, consumer := NULL, head := 0, tail := 0\<rparr>) s)"
    "P (upd_ioq q (\<lambda>q. q\<lparr>tail := next_pos (tail q)\<rparr>) s)"
    "set_at (buf (ioqs s q)) k v = Some b \<Longrightarrow> P (upd_ioq q (\<lambda>q. q\<lparr>buf := b, head := next_pos (head q)\<rparr>) s)"
  using typed(2) [OF assms, of q]
  by (auto intro!: upd_ioq_keeps [OF assms] simp: q_wf_def next_pos_def bufsize_def set_at_eq_Some)

lemma ioqueue_init_keeps [THEN ens_mono, ens]: "P s \<Longrightarrow> ensures (ioqueue_init x1 s) P"
  by (unfold ioqueue_init_def Let_def) (intro ens; simp)

lemma ioq_wait_consumer_keeps [THEN ens_to1, ens]: "P s \<Longrightarrow> ensures (ioq_wait_consumer x1 s) (to1 P)"
  by (unfold ioq_wait_consumer_def Let_def) (intro ens; simp)

lemma ioq_wait_producer_keeps [THEN ens_to1, ens]: "P s \<Longrightarrow> ensures (ioq_wait_producer x1 s) (to1 P)"
  by (unfold ioq_wait_producer_def Let_def) (intro ens; simp)

lemma wakeup_consumer_keeps [THEN ens_mono, ens]: "P s \<Longrightarrow> ensures (wakeup_consumer x1 s) P"
  by (unfold wakeup_consumer_def Let_def) (intro ens; simp)

lemma wakeup_producer_keeps [THEN ens_mono, ens]: "P s \<Longrightarrow> ensures (wakeup_producer x1 s) P"
  by (unfold wakeup_producer_def Let_def) (intro ens; simp)

lemma ioq_take_keeps [THEN ens_to1, ens]: "P s \<Longrightarrow> ensures (ioq_take x1 s) (to1 P)"
  by (unfold ioq_take_def Let_def) (intro ens; simp)

lemma ioq_getchar_turn_keeps [THEN ens_to1, ens]: "P s \<Longrightarrow> ensures (ioq_getchar_turn x1 s) (to1 P)"
  by (unfold ioq_getchar_turn_def Let_def) (intro ens; simp)

lemma ioq_getchar_keeps [THEN ens_to1, ens]: "P s \<Longrightarrow> ensures (ioq_getchar x1 s) (to1 P)"
  by (unfold ioq_getchar_def Let_def) (intro ens; simp)

lemma ioq_give_keeps [THEN ens_mono, ens]: "P s \<Longrightarrow> ensures (ioq_give x1 x2 s) P"
  by (unfold ioq_give_def Let_def) (intro ens; simp)

lemma ioq_putchar_turn_keeps [THEN ens_to1, ens]: "P s \<Longrightarrow> ensures (ioq_putchar_turn x1 x2 s) (to1 P)"
  by (unfold ioq_putchar_turn_def Let_def) (intro ens; simp)

lemma ioq_putchar_keeps [THEN ens_to1, ens]: "P s \<Longrightarrow> ensures (ioq_putchar x1 x2 s) (to1 P)"
  by (unfold ioq_putchar_def Let_def) (intro ens; simp)

subsection \<open>The screen\<close>

lemma put_char_keeps [simp]: "P (put_char x1 s) = P s"
  by (simp add: put_char_def)

lemma put_str_keeps [simp]: "P (put_str cs s) = P s"
  by (unfold put_str_def) (induction cs arbitrary: s; simp)

subsection \<open>Memory\<close>

lemma set_pool_bitmap_keeps [simp]: "P s \<Longrightarrow> bm_wf b \<Longrightarrow> P (set_pool_bitmap pf b s)"
  by (cases pf) (simp_all add: set_pool_bitmap_def kernel_pool_kept user_pool_kept)

lemma set_vaddr_bitmap_keeps [simp]: "P s \<Longrightarrow> bm_wf b \<Longrightarrow> P (set_vaddr_bitmap pf b s)"
  by (cases pf) (simp_all add: set_vaddr_bitmap_def kernel_vaddr_kept userprog_vaddr_kept)

lemma pools_typed [simp]:
  "P s \<Longrightarrow> bm_wf (pool_bitmap (mem_pool pf s))" "P s \<Longrightarrow> bm_wf (vaddr_bitmap (vaddr_pool pf s))"
  by (cases pf; simp add: mem_pool_def vaddr_pool_def typed)+

lemma lock_now_keeps [THEN ens_mono, ens]: "P s \<Longrightarrow> ensures (lock_now x1 s) P"
  by (unfold lock_now_def Let_def) (intro ens; simp)

lemma vaddr_get_keeps [THEN ens_to1, ens]: "P s \<Longrightarrow> ensures (vaddr_get x1 x2 s) (to1 P)"
  by (unfold vaddr_get_def Let_def) (intro ens; simp)

lemma vaddr_remove_keeps [THEN ens_mono, ens]: "P s \<Longrightarrow> ensures (vaddr_remove x1 x2 x3 s) P"
  by (unfold vaddr_remove_def Let_def) (intro ens; simp)

lemma palloc_keeps [THEN ens_to1, ens]: "P s \<Longrightarrow> ensures (palloc x1 s) (to1 P)"
  by (unfold palloc_def Let_def) (intro ens; simp)

lemma page_table_add_keeps [THEN ens_mono, ens]: "P s \<Longrightarrow> ensures (page_table_add x1 x2 s) P"
  by (unfold page_table_add_def Let_def) (intro ens; simp)

lemma map_pages_keeps [THEN ens_to1, ens]: "P s \<Longrightarrow> ensures (map_pages x1 x2 x3 s) (to1 P)"
  by (induction x1 arbitrary: x2 x3 s; simp only: map_pages.simps Let_def; intro ens; simp)

lemma malloc_page_keeps [THEN ens_to1, ens]: "P s \<Longrightarrow> ensures (malloc_page x1 x2 s) (to1 P)"
  by (unfold malloc_page_def Let_def) (intro ens; simp)

lemma memset_pages_keeps [THEN ens_mono, ens]: "P s \<Longrightarrow> ensures (memset_pages x1 x2 s) P"
  by (induction x1 arbitrary: x2 s; simp only: memset_pages.simps Let_def; intro ens; simp)

lemma memset_words_keeps [THEN ens_mono, ens]: "P s \<Longrightarrow> ensures (memset_words x1 x2 s) P"
  by (induction x1 arbitrary: x2 s; simp only: memset_words.simps Let_def; intro ens; simp)

lemma get_pages_keeps [THEN ens_to1, ens]: "P s \<Longrightarrow> ensures (get_pages x1 x2 s) (to1 P)"
  by (unfold get_pages_def Let_def) (intro ens; simp)

lemma get_kernel_pages_keeps [THEN ens_to1, ens]: "P s \<Longrightarrow> ensures (get_kernel_pages x1 s) (to1 P)"
  by (unfold get_kernel_pages_def Let_def) (intro ens; simp)

lemma install_page_keeps [THEN ens_to1, ens]: "P s \<Longrightarrow> ensures (install_page x1 x2 s) (to1 P)"
  by (unfold install_page_def Let_def) (intro ens; simp)

lemma get_a_page_keeps [THEN ens_to1, ens]: "P s \<Longrightarrow> ensures (get_a_page x1 x2 s) (to1 P)"
  by (unfold get_a_page_def Let_def) (intro ens; simp)

lemma get_a_page_without_opvaddrbitmap_keeps [THEN ens_to1, ens]: "P s \<Longrightarrow> ensures (get_a_page_without_opvaddrbitmap x1 x2 s) (to1 P)"
  by (unfold get_a_page_without_opvaddrbitmap_def Let_def) (intro ens; simp)

lemma pfree_keeps [THEN ens_mono, ens]: "P s \<Longrightarrow> ensures (pfree x1 s) P"
  by (unfold pfree_def Let_def) (intro ens; simp)

lemma free_a_phy_page_keeps [THEN ens_mono, ens]: "P s \<Longrightarrow> ensures (free_a_phy_page x1 s) P"
  by (unfold free_a_phy_page_def Let_def) (intro ens; simp)

lemma unmap_pages_keeps [THEN ens_mono, ens]: "P s \<Longrightarrow> ensures (unmap_pages x1 x2 x3 s) P"
  by (induction x1 arbitrary: x2 x3 s; simp only: unmap_pages.simps Let_def; intro ens; simp)

lemma mfree_page_keeps [THEN ens_mono, ens]: "P s \<Longrightarrow> ensures (mfree_page x1 x2 x3 s) P"
  by (unfold mfree_page_def Let_def) (intro ens; simp)

lemma block_desc_loop_keeps [THEN ens_mono, ens]: "P s \<Longrightarrow> ensures (block_desc_loop x1 x2 x3 s) P"
  by (induction x1 arbitrary: x2 x3 s; simp only: block_desc_loop.simps Let_def; intro ens; simp)

lemma block_desc_init_keeps [THEN ens_mono, ens]: "P s \<Longrightarrow> ensures (block_desc_init x1 s) P"
  by (unfold block_desc_init_def Let_def) (intro ens; simp)

lemma upd_arena_keeps [simp]: "P (upd_arena x1 x2 s) = P s"
  by (simp add: upd_arena_def)

lemma split_arena_keeps [THEN ens_mono, ens]: "P s \<Longrightarrow> ensures (split_arena x1 x2 x3 s) P"
  by (induction x1 arbitrary: x2 x3 s; simp only: split_arena.simps Let_def; intro ens; simp)

lemma new_arena_keeps [THEN ens_to1, ens]: "P s \<Longrightarrow> ensures (new_arena x1 x2 s) (to1 P)"
  by (unfold new_arena_def Let_def) (intro ens; simp)

lemma malloc_large_keeps [THEN ens_to1, ens]: "P s \<Longrightarrow> ensures (malloc_large x1 x2 s) (to1 P)"
  by (unfold malloc_large_def Let_def) (intro ens; simp)

lemma malloc_small_keeps [THEN ens_to1, ens]: "P s \<Longrightarrow> ensures (malloc_small x1 x2 x3 s) (to1 P)"
  by (unfold malloc_small_def Let_def) (intro ens; simp)

lemma sys_malloc_keeps [THEN ens_to1, ens]: "P s \<Longrightarrow> ensures (sys_malloc x1 s) (to1 P)"
  by (unfold sys_malloc_def Let_def) (intro ens; simp)

lemma drop_arena_keeps [THEN ens_mono, ens]: "P s \<Longrightarrow> ensures (drop_arena x1 x2 x3 s) P"
  by (induction x1 arbitrary: x2 x3 s; simp only: drop_arena.simps Let_def; intro ens; simp)

lemma free_block_keeps [THEN ens_mono, ens]: "P s \<Longrightarrow> ensures (free_block x1 x2 x3 s) P"
  by (unfold free_block_def Let_def) (intro ens; simp)

lemma sys_free_keeps [THEN ens_mono, ens]: "P s \<Longrightarrow> ensures (sys_free x1 s) P"
  by (unfold sys_free_def Let_def) (intro ens; simp)

subsection \<open>Tasks\<close>

lemma console_acquire_keeps [THEN ens_mono, ens]: "P s \<Longrightarrow> ensures (console_acquire x1 s) P"
  by (unfold console_acquire_def Let_def) (intro ens; simp)

lemma console_release_keeps [THEN ens_mono, ens]: "P s \<Longrightarrow> ensures (console_release x1 s) P"
  by (unfold console_release_def Let_def) (intro ens; simp)

lemma console_put_str_keeps [THEN ens_mono, ens]: "P s \<Longrightarrow> ensures (console_put_str x1 x2 s) P"
  by (unfold console_put_str_def Let_def) (intro ens; simp)

lemma console_put_char_keeps [THEN ens_mono, ens]: "P s \<Longrightarrow> ensures (console_put_char x1 x2 s) P"
  by (unfold console_put_char_def Let_def) (intro ens; simp)

lemma allocate_pid_keeps [THEN ens_to1, ens]: "P s \<Longrightarrow> ensures (allocate_pid s) (to1 P)"
  by (unfold allocate_pid_def Let_def) (intro ens; simp)

lemma release_pid_keeps [THEN ens_mono, ens]: "P s \<Longrightarrow> ensures (release_pid x1 s) P"
  by (unfold release_pid_def Let_def) (intro ens; simp)

lemma fork_pid_keeps [THEN ens_to1, ens]: "P s \<Longrightarrow> ensures (fork_pid s) (to1 P)"
  by (unfold fork_pid_def Let_def) (intro ens; simp)

lemma store_words_keeps [THEN ens_mono, ens]: "P s \<Longrightarrow> ensures (store_words x1 s) P"
  by (induction x1 arbitrary: s; simp only: store_words.simps Let_def; intro ens; simp)

lemma clear_links_keeps [simp]: "P (clear_links x1 s) = P s"
  by (simp add: clear_links_def)

lemma enqueue_task_keeps [THEN ens_mono, ens]: "P s \<Longrightarrow> ensures (enqueue_task x1 s) P"
  by (unfold enqueue_task_def Let_def) (intro ens; simp)

lemma pid_check_keeps [THEN ens_to1, ens]: "P s \<Longrightarrow> ensures (pid_check x1 x2 s) (to1 P)"
  by (unfold pid_check_def Let_def) (intro ens; simp)

lemma pid2thread_keeps [THEN ens_to1, ens]: "P s \<Longrightarrow> ensures (pid2thread x1 s) (to1 P)"
  by (unfold pid2thread_def Let_def) (intro ens; simp)

lemma thread_reap_keeps [THEN ens_mono, ens]: "P s \<Longrightarrow> ensures (thread_reap x1 s) P"
  by (unfold thread_reap_def Let_def) (intro ens; simp)

lemma thread_exit_keeps [THEN ens_mono, ens]: "P s \<Longrightarrow> ensures (thread_exit x1 x2 s) P"
  by (unfold thread_exit_def Let_def) (intro ens; simp)

lemma copy_words_keeps [THEN ens_mono, ens]: "P s \<Longrightarrow> ensures (copy_words x1 x2 x3 s) P"
  by (induction x1 arbitrary: x2 x3 s; simp only: copy_words.simps Let_def; intro ens; simp)

lemma create_page_dir_keeps [THEN ens_to1, ens]: "P s \<Longrightarrow> ensures (create_page_dir x1 s) (to1 P)"
  by (unfold create_page_dir_def Let_def) (intro ens; simp)

end

end
