(* ===== verification/Invariant_Fs.thy ===== *)
theory Invariant_Fs
  imports Invariant
begin

text \<open>
  The file system and invariants. The functions that only read the disk keep every property under \<open>machine_invariant\<close> or, if they
  change entries of \<open>file_table\<close>, under \<open>reader_invariant\<close>; those that write sectors or change the bitmaps of a partition keep the properties
  under \<open>writer_invariant\<close>, and \<open>kernel_invariant\<close> joins the two.
\<close>

unbundle bit_operations_syntax

subsection \<open>Reading the disk\<close>

context machine_invariant begin

lemma upd_chan_keeps [simp]: "P (upd_chan x1 x2 s) = P s"
  by (simp add: upd_chan_def)

lemma printk_keeps [THEN ens_mono, ens]: "P s \<Longrightarrow> ensures (printk x1 x2 s) P"
  by (unfold printk_def Let_def) (intro ens; simp)

lemma rd_status_keeps [simp]: "P (snd (rd_status x1 s)) = P s"
  by (simp add: rd_status_def split: list.split)

lemma select_disk_keeps [simp]: "P (select_disk x1 s) = P s"
  by (simp add: select_disk_def Let_def)

lemma select_sector_keeps [THEN ens_mono, ens]: "P s \<Longrightarrow> ensures (select_sector x1 x2 x3 s) P"
  by (unfold select_sector_def Let_def) (intro ens; simp)

lemma cmd_out_keeps [simp]: "P (cmd_out x1 x2 s) = P s"
  by (simp add: cmd_out_def Let_def)

lemma busy_loop_keeps [simp]: "P (snd (busy_loop n b s)) = P s"
proof (induction n arbitrary: s)
  case (Suc n)
  have "P s2 = P s1" if "rd_status b s1 = (v, s2)" for v s1 s2 using rd_status_keeps [of b s1] that by simp
  then show ?case using Suc by (auto simp: Let_def split: prod.split)
qed simp

lemma busy_wait_keeps [simp]: "busy_wait dk s = (r, s') \<Longrightarrow> P s \<Longrightarrow> P s'"
  using busy_loop_keeps [of _ _ s] by (metis busy_wait_def snd_conv)

lemma intr_hd_handler_keeps [THEN ens_mono, ens]: "P s \<Longrightarrow> ensures (intr_hd_handler x1 s) P"
  by (unfold intr_hd_handler_def Let_def) (intro ens; simp)

lemma disk_wait_keeps [THEN ens_mono, ens]: "P s \<Longrightarrow> ensures (disk_wait x1 s) P"
  by (unfold disk_wait_def Let_def) (intro ens; simp)

lemma read_loop_keeps [THEN ens_to1, ens]: "ensures (read_loop x1 x2 x3 x4 x5 s) (to1 P)" if "P s"
proof (rule ens_pure)
  fix r assume "read_loop x1 x2 x3 x4 x5 s = Some r"
  then show "to1 P r" using \<open>P s\<close>
  proof (induction rule: read_loop.raw_induct [rotated 1, consumes 1])
    case (1 f x1 x2 x3 x4 x5 s y)
    have [THEN ens_to1, ens]: "P s \<Longrightarrow> ensures (f a1 a2 a3 a4 a5 s) (to1 P)" for a1 a2 a3 a4 a5 s by (rule ens_pure, rule 1(1))
    show ?case by (rule ensD [where Q = "to1 P", OF 1(2)]) (use 1(3) in \<open>unfold Let_def, intro ens; simp\<close>)
  qed
qed

lemma ide_read_keeps [THEN ens_to1, ens]: "P s \<Longrightarrow> ensures (ide_read x1 x2 x3 s) (to1 P)"
  by (unfold ide_read_def Let_def) (intro ens; simp)

subsubsection \<open>Inodes and directories\<close>

lemma upd_inode_keeps [simp]: "P s \<Longrightarrow> (inode_typed (inodes s a) \<Longrightarrow> inode_typed (f (inodes s a))) \<Longrightarrow> P (upd_inode a f s)"
  by (simp add: upd_inode_def inode_kept typed)

lemma as_kernel_keeps:
  assumes "P s" "\<And>s. P s \<Longrightarrow> ensures (f s) (to1 P)"
  shows "ensures (as_kernel f s) (to1 P)"
proof -
  note assms(2) [THEN ens_to1, ens]
  show ?thesis using assms(1) by (unfold as_kernel_def Let_def) (intro ens; simp)
qed

lemmas as_kernel_rule [ens] = as_kernel_keeps [THEN ens_to1]

lemma inode_open_keeps [THEN ens_to1, ens]: "P s \<Longrightarrow> ensures (inode_open x1 x2 s) (to1 P)"
  by (unfold inode_open_def Let_def) (intro ens; simp)

lemma inode_close_keeps [THEN ens_mono, ens]: "P s \<Longrightarrow> ensures (inode_close x1 s) P"
  by (unfold inode_close_def Let_def) (intro ens; simp)

lemma dir_open_keeps [THEN ens_to1, ens]: "P s \<Longrightarrow> ensures (dir_open x1 x2 s) (to1 P)"
  by (unfold dir_open_def Let_def) (intro ens; simp)

lemma dir_blocks_keeps [THEN ens_to1, ens]: "P s \<Longrightarrow> ensures (dir_blocks x1 x2 s) (to1 P)"
  by (unfold dir_blocks_def Let_def) (intro ens; simp)

lemma search_blocks_keeps [THEN ens_to1, ens]: "P s \<Longrightarrow> ensures (search_blocks x1 x2 x3 x4 s) (to1 P)"
  by (induction x4 arbitrary: x1 x2 x3 s; simp only: search_blocks.simps Let_def; intro ens; simp)

lemma search_dir_entry_keeps [THEN ens_to1, ens]: "P s \<Longrightarrow> ensures (search_dir_entry x1 x2 x3 s) (to1 P)"
  by (unfold search_dir_entry_def Let_def) (intro ens; simp)

lemma dir_close_keeps [THEN ens_mono, ens]: "P s \<Longrightarrow> ensures (dir_close x1 s) P"
  by (unfold dir_close_def Let_def) (intro ens; simp)

lemma set_sector_keeps [simp]: "P s \<Longrightarrow> P (set_sector ino k lba s)"
  by (simp add: set_sector_def)

lemma grow_dir_keeps [simp]: "P s \<Longrightarrow> P (grow_dir ino n s)"
  by (simp add: grow_dir_def)

lemma read_blocks_keeps [THEN ens_to1, ens]: "P s \<Longrightarrow> ensures (read_blocks x1 x2 x3 x4 s) (to1 P)"
  by (induction x3 arbitrary: x1 x2 x4 s; simp only: read_blocks.simps Let_def; intro ens; simp)

lemma dir_read_keeps [THEN ens_to1, ens]: "P s \<Longrightarrow> ensures (dir_read x1 s) (to1 P)"
  by (unfold dir_read_def Let_def) (intro ens; simp)

end

subsection \<open>Open files\<close>

locale reader_invariant = machine_invariant +
  assumes file_kept [simp]: "P s \<Longrightarrow> P (s\<lparr>file_table := (file_table s)[k := x]\<rparr>)"
begin

lemma upd_file_keeps [THEN ens_mono, ens]: "P s \<Longrightarrow> ensures (upd_file x1 x2 s) P"
  by (unfold upd_file_def Let_def) (intro ens; simp)

lemma get_free_slot_keeps [ens]:
  assumes "P s" "\<And>g s'. P s' \<Longrightarrow> fd_typed g \<Longrightarrow> Q (g, s')"
  shows "ensures (get_free_slot_in_global s) Q"
  using assms(1) by (unfold get_free_slot_in_global_def) (intro ens; simp add: find_slot_bound assms(2))

lemma pcb_fd_install_keeps [THEN ens_to1, ens]: "P s \<Longrightarrow> fd_typed g \<Longrightarrow> ensures (pcb_fd_install g s) (to1 P)"
  by (unfold pcb_fd_install_def Let_def) (intro ens; simp)

lemma file_open_keeps [THEN ens_to1, ens]: "P s \<Longrightarrow> ensures (file_open x1 x2 s) (to1 P)"
  by (unfold file_open_def Let_def) (intro ens; simp)

lemma file_close_keeps [THEN ens_to1, ens]: "P s \<Longrightarrow> ensures (file_close x1 s) (to1 P)"
  by (unfold file_close_def Let_def) (intro ens; simp)

lemma read_table_keeps [THEN ens_to1, ens]: "P s \<Longrightarrow> ensures (read_table x1 x2 s) (to1 P)"
  by (unfold read_table_def Let_def) (intro ens; simp)

lemma read_file_blocks_keeps [THEN ens_to1, ens]: "P s \<Longrightarrow> ensures (read_file_blocks x1 x2 x3 x4 s) (to1 P)"
  by (unfold read_file_blocks_def Let_def) (intro ens; simp)

lemma read_data_keeps [THEN ens_to1, ens]: "ensures (read_data x1 x2 x3 x4 s) (to1 P)" if "P s"
proof (rule ens_pure)
  fix r assume "read_data x1 x2 x3 x4 s = Some r"
  then show "to1 P r" using \<open>P s\<close>
  proof (induction rule: read_data.raw_induct [rotated 1, consumes 1])
    case (1 f x1 x2 x3 x4 s y)
    have [THEN ens_to1, ens]: "P s \<Longrightarrow> ensures (f a1 a2 a3 a4 s) (to1 P)" for a1 a2 a3 a4 s by (rule ens_pure, rule 1(1))
    show ?case by (rule ensD [where Q = "to1 P", OF 1(2)]) (use 1(3) in \<open>unfold Let_def, intro ens; simp\<close>)
  qed
qed

lemma file_read_keeps [THEN ens_to2, ens]: "P s \<Longrightarrow> ensures (file_read x1 x2 s) (to2 P)"
  by (unfold file_read_def Let_def) (intro ens; simp)

lemma sys_pipe_keeps [THEN ens_to2, ens]: "P s \<Longrightarrow> ensures (sys_pipe s) (to2 P)"
  by (unfold sys_pipe_def Let_def) (intro ens; simp)

lemma get_bytes_keeps [THEN ens_to2, ens]: "P s \<Longrightarrow> ensures (get_bytes n ioq s) (to2 P)"
proof (induction n arbitrary: s)
  case (Suc n)
  note Suc.IH [THEN ens_to2, ens]
  show ?case using Suc.prems by (unfold get_bytes.simps) (intro ens; simp)
qed (simp add: ens_Some)

lemma put_bytes_ioq_keeps [THEN ens_to2, ens]: "P s \<Longrightarrow> ensures (put_bytes_ioq x1 x2 s) (to2 P)"
  by (induction x1 arbitrary: x2 s; simp only: put_bytes_ioq.simps Let_def; intro ens; simp)

lemma ioq_resume_keeps [THEN ens_to1, ens]:
  "P s \<Longrightarrow> ensures (ioq_getchar_resume x1 x2 s) (to1 P)" "P s \<Longrightarrow> ensures (ioq_putchar_resume x1 x3 x2 s) (to1 P)"
  by (unfold ioq_getchar_resume_def ioq_putchar_resume_def) (intro ens; simp)+

lemma bytes_resume_keeps [THEN ens_to2, ens]:
  "P s \<Longrightarrow> ensures (get_bytes_resume x1 x2 x3 s) (to2 P)" "P s \<Longrightarrow> ensures (put_bytes_resume x1 x4 x5 x3 s) (to2 P)"
  by (unfold get_bytes_resume_def put_bytes_resume_def) (intro ens; simp)+

lemma pipe_read_keeps [THEN ens_to2, ens]: "P s \<Longrightarrow> ensures (pipe_read x1 x2 s) (to2 P)"
  by (unfold pipe_read_def Let_def) (intro ens; simp)

lemma pipe_write_keeps [THEN ens_to2, ens]: "P s \<Longrightarrow> ensures (pipe_write x1 x2 x3 s) (to2 P)"
  by (unfold pipe_write_def Let_def) (intro ens; simp)

lemma sys_fd_redirect_keeps [THEN ens_mono, ens]: "P s \<Longrightarrow> ensures (sys_fd_redirect old new s) P"
  by (unfold sys_fd_redirect_def Let_def) (intro ens; auto simp: set_at_eq_Some rd_task_eq fd_typed_small task_typed_fd [OF typed(1)])

lemma search_loop_keeps [THEN ens_to2, ens]: "ensures (search_loop x1 x2 x3 x4 x5 x6 s) (to2 P)" if "P s"
proof (rule ens_pure)
  fix r assume "search_loop x1 x2 x3 x4 x5 x6 s = Some r"
  then show "to2 P r" using \<open>P s\<close>
  proof (induction rule: search_loop.raw_induct [rotated 1, consumes 1])
    case (1 f x1 x2 x3 x4 x5 x6 s y)
    have [THEN ens_to2, ens]: "P s \<Longrightarrow> ensures (f a1 a2 a3 a4 a5 a6 s) (to2 P)" for a1 a2 a3 a4 a5 a6 s by (rule ens_pure, rule 1(1))
    show ?case by (rule ensD [where Q = "to2 P", OF 1(2)]) (use 1(3) in \<open>unfold Let_def, intro ens; simp\<close>)
  qed
qed

lemma search_file_keeps [THEN ens_to2, ens]: "P s \<Longrightarrow> ensures (search_file x1 x2 x3 s) (to2 P)"
  by (unfold search_file_def Let_def) (intro ens; simp)

lemma close_pipe_end_keeps [THEN ens_mono, ens]: "P s \<Longrightarrow> ensures (close_pipe_end x1 s) P"
  by (unfold close_pipe_end_def Let_def) (intro ens; simp)

lemma sys_close_keeps [THEN ens_to1, ens]: "P s \<Longrightarrow> ensures (sys_close x1 s) (to1 P)"
  by (unfold sys_close_def Let_def) (intro ens; simp)

lemma awake_keeps: "ensures m (to2 P) \<Longrightarrow> ensures (awake m) (to2 P)"
  by (cases m) (auto simp: ensures_def awake_def split: blocking.splits)

lemma sys_read_turn_keeps [THEN ens_to2, ens]: "P s \<Longrightarrow> ensures (sys_read_turn x1 x2 s) (to2 P)"
  by (unfold sys_read_turn_def Let_def) (intro ens; simp)

lemma sys_read_keeps [THEN ens_to2, ens]: "P s \<Longrightarrow> ensures (sys_read x1 x2 s) (to2 P)"
  by (unfold sys_read_def) (intro awake_keeps ens; simp)

lemma sys_lseek_keeps [THEN ens_to1, ens]: "P s \<Longrightarrow> ensures (sys_lseek x1 x2 x3 s) (to1 P)"
  by (unfold sys_lseek_def Let_def) (intro ens; simp)

lemma sys_opendir_keeps [THEN ens_to1, ens]: "P s \<Longrightarrow> ensures (sys_opendir x1 x2 s) (to1 P)"
  by (unfold sys_opendir_def Let_def) (intro ens; simp)

lemma sys_closedir_keeps [THEN ens_to1, ens]: "P s \<Longrightarrow> ensures (sys_closedir x1 s) (to1 P)"
  by (unfold sys_closedir_def Let_def) (intro ens; simp)

lemma sys_readdir_keeps [THEN ens_to1, ens]: "P s \<Longrightarrow> ensures (sys_readdir x1 s) (to1 P)"
  by (unfold sys_readdir_def Let_def) (intro ens; simp)

lemma sys_rewinddir_keeps [simp]: "P (sys_rewinddir x1 s) = P s"
  by (simp add: sys_rewinddir_def)

lemma get_parent_dir_inode_nr_keeps [THEN ens_to1, ens]: "P s \<Longrightarrow> ensures (get_parent_dir_inode_nr x1 s) (to1 P)"
  by (unfold get_parent_dir_inode_nr_def Let_def) (intro ens; simp)

lemma child_name_loop_keeps [THEN ens_to2, ens]: "P s \<Longrightarrow> ensures (child_name_loop x1 x2 x3 x4 s) (to2 P)"
  by (induction x3 arbitrary: x1 x2 x4 s; simp only: child_name_loop.simps Let_def; intro ens; simp)

lemma get_child_dir_name_keeps [THEN ens_to2, ens]: "P s \<Longrightarrow> ensures (get_child_dir_name x1 x2 x3 s) (to2 P)"
  by (unfold get_child_dir_name_def Let_def) (intro ens; simp)

lemma cwd_loop_keeps [THEN ens_to1, ens]: "ensures (cwd_loop x1 x2 s) (to1 P)" if "P s"
proof (rule ens_pure)
  fix r assume "cwd_loop x1 x2 s = Some r"
  then show "to1 P r" using \<open>P s\<close>
  proof (induction rule: cwd_loop.raw_induct [rotated 1, consumes 1])
    case (1 f x1 x2 s y)
    have [THEN ens_to1, ens]: "P s \<Longrightarrow> ensures (f a1 a2 s) (to1 P)" for a1 a2 s by (rule ens_pure, rule 1(1))
    show ?case by (rule ensD [where Q = "to1 P", OF 1(2)]) (use 1(3) in \<open>intro ens; simp\<close>)
  qed
qed

lemma sys_getcwd_keeps [THEN ens_to2, ens]: "P s \<Longrightarrow> ensures (sys_getcwd x1 x2 s) (to2 P)"
  by (unfold sys_getcwd_def Let_def) (intro ens; simp)

lemma sys_chdir_keeps [THEN ens_to1, ens]: "P s \<Longrightarrow> ensures (sys_chdir x1 x2 s) (to1 P)"
  by (unfold sys_chdir_def Let_def) (intro ens; simp)

lemma sys_stat_keeps [THEN ens_to2, ens]: "P s \<Longrightarrow> ensures (sys_stat x1 x2 x3 s) (to2 P)"
  by (unfold sys_stat_def Let_def) (intro ens; simp)

lemma sys_putchar_keeps [THEN ens_mono, ens]: "P s \<Longrightarrow> ensures (sys_putchar x1 s) P"
  by (unfold sys_putchar_def Let_def) (intro ens; simp)

lemma sys_help_keeps [THEN ens_mono, ens]: "P s \<Longrightarrow> ensures (sys_help s) P"
  by (unfold sys_help_def Let_def) (intro ens; simp)

text \<open>Opening an existing file, and writing to the standard output.\<close>

lemma sys_open_reading: "P s \<Longrightarrow> flags AND O_CREAT = 0 \<Longrightarrow> ensures (sys_open dir_e garbage path flags s) (to1 P)"
  by (unfold sys_open_def Let_def) (intro ens; simp add: O_CREAT_def)

lemma sys_write_output: "P s \<Longrightarrow> ensures (sys_write 1 bs n s) (to1 P)"
  by (unfold sys_write_def sys_write_turn_def Let_def) (intro ens awake_keeps [THEN ens_to2]; simp)

end

subsection \<open>Writing the disk\<close>

locale writer_invariant = machine_invariant +
  assumes part_kept: "P s \<Longrightarrow> (\<And>p. part_typed (pt p)) \<Longrightarrow> P (s\<lparr>parts := pt\<rparr>)"
    and platter_kept: "P s \<Longrightarrow> platter_typed pl \<Longrightarrow> P (s\<lparr>platter := pl\<rparr>)"
begin

lemma upd_part_keeps [simp]: "P s \<Longrightarrow> (part_typed (parts s a) \<Longrightarrow> part_typed (f (parts s a))) \<Longrightarrow> P (upd_part a f s)"
  by (simp add: upd_part_def part_kept typed)

lemma outsw_keeps [THEN ens_mono, ens]: "P s \<Longrightarrow> ensures (outsw b xs s) P"
  by (auto simp: outsw_def put_sectors_def ensures_def typed intro!: platter_kept store_at_typed)

lemma write2sector_keeps [THEN ens_mono, ens]: "P s \<Longrightarrow> ensures (write2sector x1 x2 x3 s) P"
  by (unfold write2sector_def Let_def) (intro ens; simp)

lemma write_loop_keeps [THEN ens_mono, ens]: "ensures (write_loop x1 x2 x3 x4 x5 s) P" if "P s"
proof (rule ens_pure)
  fix r assume "write_loop x1 x2 x3 x4 x5 s = Some r"
  then show "P r" using \<open>P s\<close>
  proof (induction rule: write_loop.raw_induct [rotated 1, consumes 1])
    case (1 f x1 x2 x3 x4 x5 s y)
    have [THEN ens_mono, ens]: "P s \<Longrightarrow> ensures (f a1 a2 a3 a4 a5 s) P" for a1 a2 a3 a4 a5 s by (rule ens_pure, rule 1(1))
    show ?case by (rule ensD [where Q = "P", OF 1(2)]) (use 1(3) in \<open>unfold Let_def, intro ens; simp\<close>)
  qed
qed

lemma ide_write_keeps [THEN ens_mono, ens]: "P s \<Longrightarrow> ensures (ide_write x1 x2 x3 x4 s) P"
  by (unfold ide_write_def Let_def) (intro ens; simp)

lemma put_inode_bytes_keeps [THEN ens_mono, ens]: "P s \<Longrightarrow> ensures (put_inode_bytes x1 x2 x3 s) P"
  by (unfold put_inode_bytes_def Let_def) (intro ens; simp)

lemma inode_sync_keeps [THEN ens_mono, ens]: "P s \<Longrightarrow> ensures (inode_sync x1 x2 s) P"
  by (unfold inode_sync_def Let_def) (intro ens; simp)

lemma inode_delete_keeps [THEN ens_mono, ens]: "P s \<Longrightarrow> ensures (inode_delete x1 x2 s) P"
  by (unfold inode_delete_def Let_def) (intro ens; simp)

lemma inode_bitmap_alloc_keeps [THEN ens_to1, ens]: "P s \<Longrightarrow> ensures (inode_bitmap_alloc x1 s) (to1 P)"
  by (unfold inode_bitmap_alloc_def Let_def) (intro ens; simp)

lemma block_bitmap_alloc_keeps [THEN ens_to1, ens]: "P s \<Longrightarrow> ensures (block_bitmap_alloc x1 s) (to1 P)"
  by (unfold block_bitmap_alloc_def Let_def) (intro ens; simp)

lemma bitmap_sync_keeps [THEN ens_mono, ens]: "P s \<Longrightarrow> ensures (bitmap_sync x1 x2 x3 s) P"
  by (unfold bitmap_sync_def Let_def) (intro ens; simp)

lemma free_block_bit_keeps [THEN ens_mono, ens]: "P s \<Longrightarrow> ensures (free_block_bit x1 x2 s) P"
  by (unfold free_block_bit_def Let_def) (intro ens; simp)

lemma release_blocks_keeps [THEN ens_mono, ens]: "P s \<Longrightarrow> ensures (release_blocks x1 x2 s) P"
  by (induction x2 arbitrary: x1 s; simp only: release_blocks.simps Let_def; intro ens; simp)

lemma inode_release_keeps [THEN ens_mono, ens]: "P s \<Longrightarrow> ensures (inode_release x1 x2 s) P"
  by (unfold inode_release_def Let_def) (intro ens; simp)

lemma alloc_synced_keeps [THEN ens_to1, ens]: "P s \<Longrightarrow> ensures (alloc_synced s) (to1 P)"
  by (unfold alloc_synced_def Let_def) (intro ens; simp)

lemma write_table_keeps [THEN ens_mono, ens]: "P s \<Longrightarrow> ensures (write_table x1 x2 s) P"
  by (unfold write_table_def Let_def) (intro ens; simp)

lemma new_dir_block_keeps [THEN ens_to2, ens]: "P s \<Longrightarrow> ensures (new_dir_block x1 x2 x3 s) (to2 P)"
  by (unfold new_dir_block_def Let_def) (intro ens; simp)

lemma sync_loop_keeps [THEN ens_to1, ens]: "P s \<Longrightarrow> ensures (sync_loop x1 x2 x3 x4 x5 s) (to1 P)"
  by (induction x4 arbitrary: x1 x2 x3 x5 s; simp only: sync_loop.simps Let_def; intro ens; simp)

lemma sync_dir_entry_keeps [THEN ens_to1, ens]: "P s \<Longrightarrow> ensures (sync_dir_entry x1 x2 s) (to1 P)"
  by (unfold sync_dir_entry_def Let_def) (intro ens; simp)

lemma drop_dir_block_keeps [THEN ens_mono, ens]: "P s \<Longrightarrow> ensures (drop_dir_block x1 x2 x3 x4 s) P"
  by (unfold drop_dir_block_def Let_def) (intro ens; simp)

lemma delete_loop_keeps [THEN ens_to1, ens]: "P s \<Longrightarrow> ensures (delete_loop x1 x2 x3 x4 x5 x6 s) (to1 P)"
  by (induction x6 arbitrary: x1 x2 x3 x4 x5 s; simp only: delete_loop.simps Let_def; intro ens; simp)

lemma delete_dir_entry_keeps [THEN ens_to1, ens]: "P s \<Longrightarrow> ensures (delete_dir_entry x1 x2 x3 s) (to1 P)"
  by (unfold delete_dir_entry_def Let_def) (intro ens; simp)

lemma dir_remove_keeps [THEN ens_to1, ens]: "P s \<Longrightarrow> ensures (dir_remove x1 x2 s) (to1 P)"
  by (unfold dir_remove_def Let_def) (intro ens; simp)

end

locale kernel_invariant = reader_invariant + writer_invariant
begin

lemma alloc_block_keeps [THEN ens_to1, ens]: "P s \<Longrightarrow> ensures (alloc_block x1 x2 x3 x4 s) (to1 P)"
  by (unfold alloc_block_def Let_def) (intro ens; simp)

lemma alloc_blocks_keeps [THEN ens_to1, ens]: "P s \<Longrightarrow> ensures (alloc_blocks x1 x2 x3 x4 s) (to1 P)"
  by (induction x3 arbitrary: x1 x2 x4 s; simp only: alloc_blocks.simps Let_def; intro ens; simp)

lemma write_blocks_keeps [THEN ens_to1, ens]: "P s \<Longrightarrow> ensures (write_blocks x1 x2 x3 x4 s) (to1 P)"
  by (unfold write_blocks_def Let_def) (intro ens; simp)

lemma file_rollback_keeps [THEN ens_to1, ens]: "P s \<Longrightarrow> ensures (file_rollback x1 x2 x3 x4 x5 s) (to1 P)"
  by (unfold file_rollback_def Let_def) (intro ens; simp)

lemma file_create_keeps [THEN ens_to1, ens]: "P s \<Longrightarrow> ensures (file_create x1 x2 x3 s) (to1 P)"
  by (unfold file_create_def Let_def) (intro ens; simp)

lemma write_chunk_at_keeps [THEN ens_to1, ens]: "P s \<Longrightarrow> ensures (write_chunk_at x1 x2 x3 x4 s) (to1 P)"
  by (unfold write_chunk_at_def Let_def) (intro ens; simp)

lemma write_data_keeps [THEN ens_mono, ens]: "ensures (write_data x1 x2 x3 x4 s) P" if "P s"
proof (rule ens_pure)
  fix r assume "write_data x1 x2 x3 x4 s = Some r"
  then show "P r" using \<open>P s\<close>
  proof (induction rule: write_data.raw_induct [rotated 1, consumes 1])
    case (1 f x1 x2 x3 x4 s y)
    have [THEN ens_mono, ens]: "P s \<Longrightarrow> ensures (f a1 a2 a3 a4 s) P" for a1 a2 a3 a4 s by (rule ens_pure, rule 1(1))
    show ?case by (rule ensD [where Q = "P", OF 1(2)]) (use 1(3) in \<open>intro ens; simp\<close>)
  qed
qed

lemma file_write_keeps [THEN ens_to1, ens]: "P s \<Longrightarrow> ensures (file_write x1 x2 x3 s) (to1 P)"
  by (unfold file_write_def Let_def) (intro ens; simp)

lemma sys_open_keeps [THEN ens_to1, ens]: "P s \<Longrightarrow> ensures (sys_open x1 x2 x3 x4 s) (to1 P)"
  by (unfold sys_open_def Let_def) (intro ens; simp)

lemma sys_write_turn_keeps [THEN ens_to2, ens]: "P s \<Longrightarrow> ensures (sys_write_turn x1 x2 x3 s) (to2 P)"
  by (unfold sys_write_turn_def Let_def) (intro ens; simp)

lemma sys_write_keeps [THEN ens_to1, ens]: "P s \<Longrightarrow> ensures (sys_write x1 x2 x3 s) (to1 P)"
  by (unfold sys_write_def) (intro ens awake_keeps [THEN ens_to2]; simp)

lemma sys_unlink_keeps [THEN ens_to1, ens]: "P s \<Longrightarrow> ensures (sys_unlink x1 x2 s) (to1 P)"
  by (unfold sys_unlink_def Let_def) (intro ens; simp)

lemma mkdir_rollback_keeps [THEN ens_to1, ens]: "P s \<Longrightarrow> ensures (mkdir_rollback x1 x2 x3 x4 s) (to1 P)"
  by (unfold mkdir_rollback_def Let_def) (intro ens; simp)

lemma make_dir_keeps [THEN ens_to1, ens]: "P s \<Longrightarrow> ensures (make_dir x1 x2 x3 s) (to1 P)"
  by (unfold make_dir_def Let_def) (intro ens; simp)

lemma sys_mkdir_keeps [THEN ens_to1, ens]: "P s \<Longrightarrow> ensures (sys_mkdir x1 x2 x3 s) (to1 P)"
  by (unfold sys_mkdir_def Let_def) (intro ens; simp)

lemma sys_rmdir_keeps [THEN ens_to1, ens]: "P s \<Longrightarrow> ensures (sys_rmdir x1 x2 s) (to1 P)"
  by (unfold sys_rmdir_def Let_def) (intro ens; simp)

end

end
