(* ===== verification/Kernel_Calls.thy ===== *)
theory Kernel_Calls
  imports Invariant_Fs Syscall
begin

text \<open>
  The kernel as a transition system: \<open>kernel_step\<close> has a rule for every system call of the table of \<^verbatim>\<open>userprog/syscall-init.c\<close>,
  for the handlers of the timer, of the disk and of the keyboard, and for a thread that gives up the processor. A step is labelled with its
  cause; it ends when the call returns or when the caller has gone to sleep, and the rest of a call that slept is a step of its own. The
  calls that fill a buffer of the caller store into the caller's memory. A rule has the conditions on the arguments that the code relies
  on without checking them: \<open>fd_arg\<close> and \<open>user_buffer\<close>; pointers to structures of the kernel have the type that the
  call takes them to have, because the model keeps the structures of a type in a map of their own; an access outside of an array
  has no successor state, so it is no step.

  \<open>kernel_typed\<close> is the type invariant of its state, \<open>kernel_globals\<close> the variables that only the initialisation sets. Both together are
  a \<open>kernel_invariant\<close>, so every sequence of steps keeps them. The contents of the disk are a \<open>reader_invariant\<close>: five of the
  system calls can change them.
\<close>

unbundle bit_operations_syntax

context reader_invariant begin

subsection \<open>Fork\<close>

lemma copied_one: "copied [(d, a)] m = m(d := m a)"
  by (auto simp: copied_def)

lemma copy_task_keeps [THEN ens_mono, ens]: "P s \<Longrightarrow> ensures (copy_task dst src s) P"
  by (unfold copy_task_def Let_def copied_one) (intro ens; simp add: task_kept userprog_vaddr_kept)

lemma copy_pcb_vaddrbitmap_stack0_keeps [THEN ens_to1, ens]: "P s \<Longrightarrow> ensures (copy_pcb_vaddrbitmap_stack0 x1 x2 s) (to1 P)"
  by (unfold copy_pcb_vaddrbitmap_stack0_def Let_def) (intro ens; simp add: rd_task_eq)

lemma copy_page_keeps [THEN ens_mono, ens]: "P s \<Longrightarrow> ensures (copy_page x1 x2 x3 x4 s) P"
  by (unfold copy_page_def Let_def) (intro ens; simp)

lemma copy_bits_keeps [THEN ens_mono, ens]: "P s \<Longrightarrow> ensures (copy_bits x1 x2 x3 x4 x5 s) P"
  by (induction x5 arbitrary: x1 x2 x3 x4 s; simp only: copy_bits.simps Let_def; intro ens; simp)

lemma copy_bytes_keeps [THEN ens_mono, ens]: "P s \<Longrightarrow> ensures (copy_bytes x1 x2 x3 x4 s) P"
  by (induction x4 arbitrary: x1 x2 x3 s; simp only: copy_bytes.simps Let_def; intro ens; simp)

lemma copy_body_stack3_keeps [THEN ens_mono, ens]: "P s \<Longrightarrow> ensures (copy_body_stack3 x1 x2 x3 s) P"
  by (unfold copy_body_stack3_def Let_def) (intro ens; simp)

lemma build_child_stack_keeps [THEN ens_mono, ens]: "P s \<Longrightarrow> ensures (build_child_stack x1 x2 s) P"
  by (unfold build_child_stack_def Let_def) (intro ens; simp)

lemma update_open_cnts_keeps [THEN ens_mono, ens]: "P s \<Longrightarrow> ensures (update_open_cnts x1 x2 s) P"
  by (induction x2 arbitrary: x1 s; simp only: update_open_cnts.simps Let_def; intro ens; simp)

lemma update_inode_open_cnts_keeps [THEN ens_mono, ens]: "P s \<Longrightarrow> ensures (update_inode_open_cnts x1 s) P"
  by (unfold update_inode_open_cnts_def Let_def) (intro ens; simp)

lemma copy_process_keeps [THEN ens_to1, ens]: "P s \<Longrightarrow> ensures (copy_process x1 x2 x3 s) (to1 P)"
  by (unfold copy_process_def Let_def) (intro ens; simp)

lemma sys_fork_keeps [THEN ens_to1, ens]: "P s \<Longrightarrow> ensures (sys_fork x1 s) (to1 P)"
  by (unfold sys_fork_def Let_def) (intro ens; simp)

subsection \<open>Wait and exit\<close>

lemma release_ptes_keeps [THEN ens_mono, ens]: "P s \<Longrightarrow> ensures (release_ptes x1 x2 s) P"
  by (induction x2 arbitrary: x1 s; simp only: release_ptes.simps Let_def; intro ens; simp)

lemma release_pdes_keeps [THEN ens_mono, ens]: "P s \<Longrightarrow> ensures (release_pdes x1 x2 s) P"
  by (induction x2 arbitrary: x1 s; simp only: release_pdes.simps Let_def; intro ens; simp)

lemma release_fds_keeps [THEN ens_mono, ens]: "P s \<Longrightarrow> ensures (release_fds x1 x2 s) P"
  by (induction x2 arbitrary: x1 s; simp only: release_fds.simps Let_def; intro ens; simp)

lemma release_prog_resource_keeps [THEN ens_mono, ens]: "P s \<Longrightarrow> ensures (release_prog_resource x1 s) P"
  by (unfold release_prog_resource_def Let_def) (intro ens; simp)

lemma find_child_keeps [THEN ens_to1, ens]: "P s \<Longrightarrow> ensures (find_child x1 x2 s) (to1 P)"
  by (unfold find_child_def Let_def) (intro ens; simp)

lemma find_hanging_child_keeps [THEN ens_to1, ens]: "P s \<Longrightarrow> ensures (find_hanging_child x1 x2 s) (to1 P)"
  by (unfold find_hanging_child_def Let_def) (intro ens; simp)

lemma init_adopt_a_child_keeps [THEN ens_to1, ens]: "P s \<Longrightarrow> ensures (init_adopt_a_child x1 x2 s) (to1 P)"
  by (unfold init_adopt_a_child_def Let_def) (intro ens; simp)

lemma sys_wait_turn_keeps [THEN ens_to1, ens]: "P s \<Longrightarrow> ensures (sys_wait_turn s) (to1 P)"
  by (unfold sys_wait_turn_def Let_def) (intro ens; simp)

lemma sys_wait_resume_keeps [THEN ens_to1, ens]: "P s \<Longrightarrow> ensures (sys_wait_resume x1 s) (to1 P)"
  by (unfold sys_wait_resume_def Let_def) (intro ens; simp)

lemma exit_handover_keeps [THEN ens_mono, ens]: "P s \<Longrightarrow> ensures (exit_handover x1 s) P"
  by (unfold exit_handover_def Let_def) (intro ens; simp)

lemma sys_exit_keeps [THEN ens_mono, ens]: "P s \<Longrightarrow> ensures (sys_exit x1 s) P"
  by (unfold sys_exit_def Let_def) (intro ens; simp)

subsection \<open>Execution of programs\<close>

lemma store8_keeps [THEN ens_mono, ens]: "P s \<Longrightarrow> ensures (store8 x1 x2 s) P"
  by (unfold store8_def Let_def) (intro ens; simp)

lemma store_bytes_keeps [THEN ens_mono, ens]: "P s \<Longrightarrow> ensures (store_bytes x1 x2 s) P"
  by (induction x2 arbitrary: x1 s; simp only: store_bytes.simps Let_def; intro ens; simp)

lemma load_pages_keeps [THEN ens_to1, ens]: "P s \<Longrightarrow> ensures (load_pages x1 x2 s) (to1 P)"
  by (induction x1 arbitrary: x2 s; simp only: load_pages.simps Let_def; intro ens; simp)

lemma segment_load_keeps [THEN ens_to1, ens]: "P s \<Longrightarrow> ensures (segment_load x1 x2 x3 x4 s) (to1 P)"
  by (unfold segment_load_def Let_def) (intro ens; simp)

lemma load_segments_keeps [THEN ens_to1, ens]: "P s \<Longrightarrow> ensures (load_segments x1 x2 x3 x4 s) (to1 P)"
  by (induction x1 arbitrary: x2 x3 x4 s; simp only: load_segments.simps Let_def; intro ens; simp)

lemma load_keeps [THEN ens_to1, ens]: "P s \<Longrightarrow> ensures (load x1 x2 x3 s) (to1 P)"
  by (unfold load_def Let_def) (intro ens sys_open_reading [THEN ens_to1]; simp add: O_RDONLY_def)

lemma sys_execv_keeps [THEN ens_to1, ens]: "P s \<Longrightarrow> ensures (sys_execv x1 x2 x3 x4 s) (to1 P)"
  by (unfold sys_execv_def Let_def) (intro ens; simp)

subsection \<open>The list of threads\<close>

lemma cls_screen_keeps [simp]: "P (cls_screen s) = P s"
  by (simp add: cls_screen_def)

lemma pad_print_keeps [THEN ens_mono, ens]: "P s \<Longrightarrow> ensures (pad_print x1 x2 s) P"
  by (unfold pad_print_def Let_def) (intro ens sys_write_output [THEN ens_to1]; simp)

lemma elem2thread_info_keeps [THEN ens_to1, ens]: "P s \<Longrightarrow> ensures (elem2thread_info x1 x2 s) (to1 P)"
  by (unfold elem2thread_info_def Let_def) (intro ens sys_write_output [THEN ens_to1]; simp)

lemma sys_ps_keeps [THEN ens_mono, ens]: "P s \<Longrightarrow> ensures (sys_ps s) P"
  by (unfold sys_ps_def Let_def) (intro ens sys_write_output [THEN ens_to1]; simp)

lemma buffer_calls_keep [THEN ens_to1, ens]:
  "P s \<Longrightarrow> ensures (read_to x1 x2 x3 s) (to1 P)" "P s \<Longrightarrow> ensures (getcwd_to x2 x4 x3 s) (to1 P)"
  "P s \<Longrightarrow> ensures (stat_to x5 x4 x2 x6 s) (to1 P)" "P s \<Longrightarrow> ensures (pipe_to x2 s) (to1 P)"
  by (unfold read_to_def getcwd_to_def stat_to_def pipe_to_def) (intro ens; simp)+

lemma store_status_keeps: "to1 P rs \<Longrightarrow> ensures (store_status p rs) (to1 P)"
  unfolding store_status_def by (cases rs; cases "fst rs") (simp; intro ens; simp)+

lemma wait_to_keeps [THEN ens_to1, ens]:
  "P s \<Longrightarrow> ensures (wait_to x1 s) (to1 P)" "P s \<Longrightarrow> ensures (wait_to_resume x1 x2 s) (to1 P)"
  by (unfold wait_to_def wait_to_resume_def) (intro ens store_status_keeps; simp)+

lemma intr_timer_handler_keeps [THEN ens_mono, ens]: "P s \<Longrightarrow> ensures (intr_timer_handler s) P"
  by (unfold intr_timer_handler_def Let_def) (intro ens; simp)

lemma kbd_state_keeps [simp]: "P (kbd_press x1 s) = P s" "P (kbd_break x1 s) = P s"
  by (simp_all add: kbd_press_def kbd_break_def Let_def)

lemma kbd_char_keeps [THEN ens_to1, ens]: "P s \<Longrightarrow> ensures (kbd_char x1 s) (to1 P)"
  by (unfold kbd_char_def Let_def) (intro ens; simp)

lemma kbd_make_keeps [THEN ens_to1, ens]: "P s \<Longrightarrow> ensures (kbd_make x1 s) (to1 P)"
  by (unfold kbd_make_def Let_def) (intro ens ens_pure [where ?'a = "u8 \<times> u8"]; simp)

lemma intr_keyboard_handler_keeps [THEN ens_to1, ens]: "P s \<Longrightarrow> ensures (intr_keyboard_handler x1 s) (to1 P)"
  by (unfold intr_keyboard_handler_def Let_def) (intro ens; simp split: if_splits)

lemma thread_yield_keeps [THEN ens_to1, ens]: "P s \<Longrightarrow> ensures (thread_yield s) (to1 P)"
  by (unfold thread_yield_def Let_def) (intro ens; simp)

end

subsection \<open>Steps of the kernel\<close>

text \<open>The causes of a step; \<open>Create\<close> is \<open>open\<close> with the flag \<open>O_CREAT\<close>. The arguments of a call are arbitrary, but for two things that the code
  does not check: a descriptor is negative or below \<open>MAX_FILES_OPEN_PER_PROC\<close>, and a buffer that the call fills lies in the user's half
  of the address space. Otherwise the call reads or writes structures of the kernel at random.\<close>

definition fd_arg :: "u32 \<Rightarrow> bool" where
  "fd_arg fd \<longleftrightarrow> fd <s 0 \<or> unat fd < MAX_FILES_OPEN_PER_PROC"

definition user_buffer :: "addr \<Rightarrow> nat \<Rightarrow> bool" where
  "user_buffer bf n \<longleftrightarrow> unat bf + n \<le> 0xc0000000"

datatype event = Call kernel_fn | Create | Tick | Disk | Key | Yield

definition writers :: "event set" where
  "writers = {Call K_write, Create, Call K_unlink, Call K_mkdir, Call K_rmdir}"

inductive kernel_step :: "symbols \<Rightarrow> event \<Rightarrow> 'a fs_state_scheme \<Rightarrow> 'a fs_state_scheme \<Rightarrow> bool" for sy where
  s_getpid: "sys_getpid s = Some r \<Longrightarrow> kernel_step sy (Call K_getpid) s s"
| s_write: "sys_write_turn fd bs n s = Some (w, rest, s') \<Longrightarrow> fd_arg fd \<Longrightarrow> kernel_step sy (Call K_write) s s'"
| s_write_again: "put_bytes_resume i b bs ioq s = Some (w, rest, s') \<Longrightarrow> kernel_step sy (Call K_write) s s'"
| s_malloc: "sys_malloc n s = Some (p, s') \<Longrightarrow> kernel_step sy (Call K_malloc) s s'"
| s_free: "sys_free p s = Some s' \<Longrightarrow> kernel_step sy (Call K_free) s s'"
| s_fork: "sys_fork sy s = Some (p, s') \<Longrightarrow> kernel_step sy (Call K_fork) s s'"
| s_read: "read_to fd bf n s = Some (w, s') \<Longrightarrow> fd_arg fd \<Longrightarrow> user_buffer bf (unat n) \<Longrightarrow> kernel_step sy (Call K_read) s s'"
| s_read_again: "get_bytes_resume i n ioq s = Some (w, bs, s1) \<Longrightarrow> store_bytes bf bs s1 = Some s' \<Longrightarrow> user_buffer bf n \<Longrightarrow>
    kernel_step sy (Call K_read) s s'"
| s_putchar: "sys_putchar c s = Some s' \<Longrightarrow> kernel_step sy (Call K_putchar) s s'"
| s_clear: "kernel_step sy (Call K_cls_screen) s (cls_screen s)"
| s_getcwd: "getcwd_to bf old n s = Some (r, s') \<Longrightarrow> user_buffer bf (length old) \<Longrightarrow> kernel_step sy (Call K_getcwd) s s'"
| s_open: "sys_open dir_e garbage path flags s = Some (r, s') \<Longrightarrow> flags AND O_CREAT = 0 \<Longrightarrow> kernel_step sy (Call K_open) s s'"
| s_create: "sys_open dir_e garbage path flags s = Some (r, s') \<Longrightarrow> flags AND O_CREAT \<noteq> 0 \<Longrightarrow> kernel_step sy Create s s'"
| s_close: "sys_close fd s = Some (r, s') \<Longrightarrow> fd_arg fd \<Longrightarrow> kernel_step sy (Call K_close) s s'"
| s_lseek: "sys_lseek fd offset whence s = Some (r, s') \<Longrightarrow> fd_arg fd \<Longrightarrow> kernel_step sy (Call K_lseek) s s'"
| s_unlink: "sys_unlink dir_e path s = Some (r, s') \<Longrightarrow> kernel_step sy (Call K_unlink) s s'"
| s_mkdir: "sys_mkdir dir_e garbage path s = Some (r, s') \<Longrightarrow> kernel_step sy (Call K_mkdir) s s'"
| s_opendir: "sys_opendir dir_e path s = Some (d, s') \<Longrightarrow> kernel_step sy (Call K_opendir) s s'"
| s_closedir: "sys_closedir d s = Some (r, s') \<Longrightarrow> kernel_step sy (Call K_closedir) s s'"
| s_chdir: "sys_chdir dir_e path s = Some (r, s') \<Longrightarrow> kernel_step sy (Call K_chdir) s s'"
| s_rmdir: "sys_rmdir dir_e path s = Some (r, s') \<Longrightarrow> kernel_step sy (Call K_rmdir) s s'"
| s_readdir: "sys_readdir d s = Some (e, s') \<Longrightarrow> kernel_step sy (Call K_readdir) s s'"
| s_rewinddir: "kernel_step sy (Call K_rewinddir) s (sys_rewinddir d s)"
| s_stat: "stat_to dir_e path bf old s = Some (r, s') \<Longrightarrow> user_buffer bf 12 \<Longrightarrow> kernel_step sy (Call K_stat) s s'"
| s_ps: "sys_ps s = Some s' \<Longrightarrow> kernel_step sy (Call K_ps) s s'"
| s_execv: "sys_execv dir_e garbage path argv s = Some (r, s') \<Longrightarrow> kernel_step sy (Call K_execv) s s'"
| s_exit: "sys_exit code s = Some s' \<Longrightarrow> kernel_step sy (Call K_exit) s s'"
| s_wait: "wait_to p s = Some (r, s') \<Longrightarrow> user_buffer p 4 \<Longrightarrow> kernel_step sy (Call K_wait) s s'"
| s_wait_again: "wait_to_resume p i s = Some (r, s') \<Longrightarrow> user_buffer p 4 \<Longrightarrow> kernel_step sy (Call K_wait) s s'"
| s_pipe: "pipe_to pipefd s = Some (r, s') \<Longrightarrow> user_buffer pipefd 8 \<Longrightarrow> kernel_step sy (Call K_pipe) s s'"
| s_fd_redirect: "sys_fd_redirect old_fd new_fd s = Some s' \<Longrightarrow> fd_arg old_fd \<Longrightarrow> fd_arg new_fd \<Longrightarrow> kernel_step sy (Call K_fd_redirect) s s'"
| s_help: "sys_help s = Some s' \<Longrightarrow> kernel_step sy (Call K_help) s s'"
| s_timer: "intr_timer_handler s = Some s' \<Longrightarrow> kernel_step sy Tick s s'"
| s_disk: "intr_hd_handler irq s = Some s' \<Longrightarrow> kernel_step sy Disk s s'"
| s_key: "intr_keyboard_handler code s = Some (w, s') \<Longrightarrow> kernel_step sy Key s s'"
| s_yield: "thread_yield s = Some (i, s') \<Longrightarrow> kernel_step sy Yield s s'"

text \<open>A run of the kernel, with the causes of its steps.\<close>

inductive kernel_run :: "symbols \<Rightarrow> event list \<Rightarrow> 'a fs_state_scheme \<Rightarrow> 'a fs_state_scheme \<Rightarrow> bool" for sy where
  run_done: "kernel_run sy [] s s"
| run_step: "kernel_step sy e s s1 \<Longrightarrow> kernel_run sy es s1 s' \<Longrightarrow> kernel_run sy (e # es) s s'"

context reader_invariant begin

lemma step_keeps:
  "m0 = Some s' \<Longrightarrow> ensures m0 P \<Longrightarrow> P s'" "m1 = Some (r1, s') \<Longrightarrow> ensures m1 (to1 P) \<Longrightarrow> P s'"
  "m2 = Some (r2, q2, s') \<Longrightarrow> ensures m2 (to2 P) \<Longrightarrow> P s'"
  by (simp_all add: ensures_def)

lemma reading_step_keeps: "kernel_step sy e s s' \<Longrightarrow> e \<notin> writers \<Longrightarrow> P s \<Longrightarrow> P s'"
  by (induction rule: kernel_step.induct)
    (simp add: writers_def | (erule step_keeps, intro ens sys_open_reading; simp))+

lemma reading_run_keeps: "kernel_run sy es s s' \<Longrightarrow> set es \<inter> writers = {} \<Longrightarrow> P s \<Longrightarrow> P s'"
  by (induction rule: kernel_run.induct) (auto intro: reading_step_keeps)

end

context kernel_invariant begin

lemma writing_step_keeps: "kernel_step sy e s s' \<Longrightarrow> e \<in> writers \<Longrightarrow> P s \<Longrightarrow> P s'"
  by (induction rule: kernel_step.induct) (simp add: writers_def | (erule step_keeps, intro ens; simp))+

lemma kernel_step_keeps: "kernel_step sy e s s' \<Longrightarrow> P s \<Longrightarrow> P s'"
  using reading_step_keeps writing_step_keeps by blast

lemma kernel_run_keeps: "kernel_run sy es s s' \<Longrightarrow> P s \<Longrightarrow> P s'"
  by (induction rule: kernel_run.induct) (auto intro: kernel_step_keeps)

end

subsection \<open>The type invariant\<close>

definition kernel_typed :: "'a fs_state_scheme \<Rightarrow> bool" where
  "kernel_typed s \<longleftrightarrow> length (file_table s) = MAX_FILE_OPEN \<and> (\<forall>p. task_typed (tcb s p)) \<and> (\<forall>p. q_wf (ioqs s p)) \<and>
     (\<forall>pf. bm_wf (pool_bitmap (mem_pool pf s))) \<and> bm_wf (vaddr_bitmap (kernel_vaddr s)) \<and>
     (\<forall>p. bm_wf (vaddr_bitmap (userprog_vaddr s p))) \<and> bm_wf (pid_bitmap s) \<and> (\<forall>p. part_typed (parts s p)) \<and>
     platter_typed (platter s) \<and> (\<forall>p. inode_typed (inodes s p))"

text \<open>The variables that are set once, when the system starts.\<close>

definition kernel_globals where
  "kernel_globals s = (main_thread s, idle_thread s, thread_ready_list s, thread_all_list s, k_block_descs s,
     map (\<lambda>p. (phy_addr_start p, pool_size p, pool_lock p)) [kernel_pool s, user_pool s], vaddr_start (kernel_vaddr s),
     pid_start s, pid_lock s, console_lock s, (channels s, channel_cnt s, disks s), partition_list s, cur_part s, root_dir s, kbd_buf s)"

definition typed_with :: "_ \<Rightarrow> 'a fs_state_scheme \<Rightarrow> bool" where
  "typed_with g s \<longleftrightarrow> kernel_typed s \<and> kernel_globals s = g"

text \<open>The operations below the file table leave it alone.\<close>

definition typed_files :: "file_struct list \<Rightarrow> 'a fs_state_scheme \<Rightarrow> bool" where
  "typed_files ft s \<longleftrightarrow> kernel_typed s \<and> file_table s = ft"

text \<open>The contents of the disks and the bitmaps of the partitions.\<close>

definition typed_disk :: "platters \<times> (addr \<Rightarrow> partition) \<Rightarrow> 'a fs_state_scheme \<Rightarrow> bool" where
  "typed_disk d s \<longleftrightarrow> kernel_typed s \<and> (platter s, parts s) = d"

lemma typed_disk_invariant: "reader_invariant (typed_disk d)"
  by unfold_locales (auto simp: typed_disk_def kernel_typed_def mem_pool_def split: pool_flags.splits)

lemma typed_with_invariant: "kernel_invariant (typed_with g)"
  by unfold_locales (auto simp: typed_with_def kernel_typed_def kernel_globals_def mem_pool_def split: pool_flags.splits)

lemma typed_files_invariant: "machine_invariant (typed_files ft)"
  by unfold_locales (auto simp: typed_files_def kernel_typed_def mem_pool_def split: pool_flags.splits)

interpretation typed_kernel: kernel_invariant "typed_with g" for g
  by (rule typed_with_invariant)

interpretation same_disk: reader_invariant "typed_disk d" for d
  by (rule typed_disk_invariant)

interpretation same_files: machine_invariant "typed_files ft" for ft
  by (rule typed_files_invariant)



definition demo_calls :: fs_state where
  "demo_calls = demo_fs\<lparr>tcb := \<lambda>_. zero_task\<lparr>fd_table := [0, 1, 2, 3, 4, - 1, - 1, - 1]\<rparr>\<rparr>"

lemmas demo_chain = demo_fs_def demo_ide_def Task.demo_task_def demo_mem_def demo_kbd_def kbd_state.defs demo_dev_def demo_ioq_def ide_state.defs fs_state.defs
  task_state.defs mem_state.defs dev_state.defs ioq_state.defs sync_state.defs

lemma demo_calls_typed: "kernel_typed demo_calls"
proof -
  have task: "task_typed (zero_task\<lparr>fd_table := [0, 1, 2, 3, 4, - 1, - 1, - 1]\<rparr>)"
    by (simp add: task_typed_def fd_typed_def zero_task_def MAX_FILES_OPEN_PER_PROC_def MAX_FILE_OPEN_def)
  have heaps: "q_wf (ioqs demo_fs p)" "platter_typed (platter demo_fs)" "part_typed (parts demo_fs p)" "inode_typed (inodes demo_fs p)" for p
    by (simp_all add: demo_chain demo_q_def q_wf_def bufsize_def platter_typed_def part_typed_def demo_part_def bm_wf_def inode_typed_def
        inode_init_def)
  have pools: "bm_wf (pool_bitmap (mem_pool pf demo_fs))" "bm_wf (vaddr_bitmap (kernel_vaddr demo_fs))"
    "bm_wf (vaddr_bitmap (userprog_vaddr demo_fs p))" "bm_wf (pid_bitmap demo_fs)" "length (file_table demo_fs) = MAX_FILE_OPEN" for pf p
    by (cases pf; simp add: demo_chain mem_pool_def bm_wf_def MAX_FILE_OPEN_def)+
  have "mem_pool pf (demo_fs\<lparr>tcb := t\<rparr>) = mem_pool pf demo_fs" for pf t by (cases pf) (simp_all add: mem_pool_def)
  then show ?thesis
    unfolding kernel_typed_def demo_calls_def by (intro conjI allI) (simp_all add: task heaps pools)
qed

definition demo_redirected :: fs_state where
  "demo_redirected = demo_calls\<lparr>tcb := (tcb demo_calls)(0xc009f000 := zero_task\<lparr>fd_table := [0, 4, 2, 3, 4, - 1, - 1, - 1]\<rparr>)\<rparr>"

lemma demo_redirect: "sys_fd_redirect 1 4 demo_calls = Some demo_redirected"
proof -
  have run: "running_thread demo_calls = 0xc009f000" by (simp add: running_thread_def demo_calls_def demo_chain)
  have t: "tcb demo_calls p = zero_task\<lparr>fd_table := [0, 1, 2, 3, 4, - 1, - 1, - 1]\<rparr>" for p by (simp add: demo_calls_def)
  show ?thesis
    by (simp add: sys_fd_redirect_def Let_def run t rd_task_def wr_task_def demo_redirected_def get_at_def set_at_def)
qed

lemma demo_run: "kernel_run sy [Call K_fd_redirect, Call K_cls_screen] demo_calls (cls_screen demo_redirected)"
  by (rule run_step [OF s_fd_redirect [OF demo_redirect] run_step [OF s_clear run_done]]) (simp_all add: fd_arg_def MAX_FILES_OPEN_PER_PROC_def)



end
