(* ===== verification/Descriptors.thy ===== *)
theory Descriptors
  imports Kernel_Calls
begin

text \<open>
  Descriptors that two processes share after a fork. \<open>sys_fork\<close> copies the descriptor table and counts the new references in the inodes of the open
  files, but the entry of \<open>file_table\<close> has no count of its own: the first \<open>sys_close\<close> clears it for both processes.
\<close>

lemma file_close_slot:
  assumes "kernel_typed s" "file_close (Some g) s = Some (r, s')"
  shows "g < length (file_table s')" "fd_inode (file_table s' ! g) = NULL" "fd_flag (file_table s' ! g) = fd_flag (file_table s ! g)"
proof -
  obtain x s1 where x: "get_at (file_table s) g = Some x"
    and c: "inode_close (fd_inode x) (upd_inode (fd_inode x) (\<lambda>i. i\<lparr>write_deny := False\<rparr>) s) = Some s1"
    and u: "upd_file g (\<lambda>x. x\<lparr>fd_inode := NULL\<rparr>) s1 = Some s'"
    using assms(2) by (auto simp: file_close_def bind_eq_Some_conv)
  have "ensures (inode_close (fd_inode x) (upd_inode (fd_inode x) (\<lambda>i. i\<lparr>write_deny := False\<rparr>) s))
      (typed_files (file_table s))"
    using assms(1) by (intro same_files.inode_close_keeps same_files.upd_inode_keeps) (simp_all add: typed_files_def)
  then have "typed_files (file_table s) s1" by (rule ensD [OF c])
  then have "file_table s1 = file_table s" by (simp add: typed_files_def)
  then show "g < length (file_table s')" "fd_inode (file_table s' ! g) = NULL" "fd_flag (file_table s' ! g) = fd_flag (file_table s ! g)"
    using u by (auto simp: upd_file_def bind_eq_Some_conv get_at_eq_Some)
qed

lemma sys_close_slot:
  assumes "kernel_typed s" "2 <s fd" "fd_local2global fd s = Some g" "is_pipe fd s = Some False" "sys_close fd s = Some (r, s')"
  shows "unat g < length (file_table s')" "fd_inode (file_table s' ! unat g) = NULL" "fd_flag (file_table s' ! unat g) \<noteq> PIPE_FLAG"
proof -
  obtain s1 where c: "file_close (Some (unat g)) s = Some (r, s1)"
    and w: "wr_task (running_thread s1) (\<lambda>t. t\<lparr>fd_table := (fd_table t)[unat fd := - 1]\<rparr>) s1 = Some s'"
    using assms(2-5) by (auto simp: sys_close_def bind_eq_Some_conv)
  have "file_table s' = file_table s1" using w by (auto simp: wr_task_def split: if_splits)
  moreover have "fd_flag (file_table s ! unat g) \<noteq> PIPE_FLAG"
    using assms(3,4) by (auto simp: is_pipe_def bind_eq_Some_conv get_at_eq_Some)
  ultimately show "unat g < length (file_table s')" "fd_inode (file_table s' ! unat g) = NULL"
    "fd_flag (file_table s' ! unat g) \<noteq> PIPE_FLAG"
    using file_close_slot [OF assms(1) c] by simp_all
qed

lemma above_two: "2 <s (fd :: u32) \<Longrightarrow> \<not> fd <s 0 \<and> fd \<noteq> 0 \<and> fd \<noteq> 1 \<and> fd \<noteq> 2"
  by (auto simp: word_sless_alt)

text \<open>C21: a file that a process closes is gone for every process with which it shares the descriptor, as a parent and its children do after a
  fork. \<open>sys_close\<close> clears the entry of \<open>file_table\<close>, which no count protects; in every later state in which the entry has not been taken again,
  reading from the other process's descriptor follows a null pointer, and so does closing it.\<close>

theorem close_breaks_sharing:
  assumes "kernel_typed s" "2 <s fd" "fd_local2global fd s = Some g" "is_pipe fd s = Some False" "sys_close fd s = Some (r, s')"
    "file_table t ! unat g = file_table s' ! unat g" "length (file_table t) = length (file_table s')" "2 <s fd'" "fd_local2global fd' t = Some g"
  shows "sys_read_turn fd' n t = None \<and> sys_read fd' n t = None \<and> sys_close fd' t = None"
proof -
  note slot = sys_close_slot [OF assms(1-5)]
  have x: "get_at (file_table t) (unat g) = Some (file_table s' ! unat g)" using slot(1) assms(6,7) by (simp add: get_at_def)
  have p: "is_pipe fd' t = Some False" using slot(3) assms(9) x by (simp add: is_pipe_def)
  have "file_read (unat g) n t = None" "file_close (Some (unat g)) t = None"
    using x slot(2) by (simp_all add: file_read_def file_close_def rd_inode_def)
  then show ?thesis using above_two [OF assms(8)] p assms(8,9) by (simp add: sys_read_def sys_read_turn_def awake_def sys_close_def)
qed

text \<open>Descriptor 3 of every task is entry 3, an inode with two references: the state after a fork. The running thread closes it, then the
  thread at 0xc0101000 uses it.\<close>

definition demo_shared :: fs_state where
  "demo_shared = demo_calls\<lparr>eflags := 2, file_table := (replicate 32 \<lparr>fd_pos = 0, fd_flag = 0, fd_inode = NULL\<rparr>)[3 := \<lparr>fd_pos = 0, fd_flag = 0, fd_inode = 0xc000e000\<rparr>],
     inodes := \<lambda>_. (inode_init 5)\<lparr>i_open_cnts := 2\<rparr>\<rparr>"

lemma demo_shared_typed: "kernel_typed demo_shared"
proof -
  have "mem_pool pf demo_shared = mem_pool pf demo_calls" for pf by (cases pf) (simp_all add: mem_pool_def demo_shared_def)
  then show ?thesis using demo_calls_typed
    by (simp add: kernel_typed_def demo_shared_def inode_typed_def inode_init_def MAX_FILE_OPEN_def)
qed

lemma demo_shared_fd:
  assumes "running_thread t \<noteq> NULL" "tcb t (running_thread t) = zero_task\<lparr>fd_table := [0, 1, 2, 3, 4, - 1, - 1, - 1]\<rparr>"
  shows "fd_local2global 3 t = Some 3"
  using assms by (simp add: fd_local2global_def rd_task_def get_at_def MAX_FILE_OPEN_def word_sle_eq word_sless_alt)

lemma inode_close_counted:
  assumes "intr_get_status s = INTR_OFF" "a \<noteq> NULL" "i_open_cnts (inodes s a) \<noteq> 1"
  shows "inode_close a s = Some (upd_inode a (\<lambda>i. i\<lparr>i_open_cnts := i_open_cnts i - 1\<rparr>) s)"
  using assms by (simp add: inode_close_def rd_inode_def intr_disable_def intr_set_status_def upd_inode_def intr_get_status_def)

theorem close_breaks_sharing_witness:
  "\<exists>s'. sys_close 3 demo_shared = Some (0, s') \<and> sys_read 3 100 (s'\<lparr>esp := 0xc0101f00\<rparr>) = None \<and> sys_close 3 (s'\<lparr>esp := 0xc0101f00\<rparr>) = None"
proof -
  have run: "running_thread demo_shared = 0xc009f000"
    by (simp add: running_thread_def demo_shared_def demo_calls_def demo_chain)
  have t: "tcb demo_shared p = zero_task\<lparr>fd_table := [0, 1, 2, 3, 4, - 1, - 1, - 1]\<rparr>" for p by (simp add: demo_shared_def demo_calls_def)
  have fd: "fd_local2global 3 demo_shared = Some 3" by (rule demo_shared_fd) (simp_all add: run t)
  have x: "get_at (file_table demo_shared) 3 = Some \<lparr>fd_pos = 0, fd_flag = 0, fd_inode = 0xc000e000\<rparr>"
    by (simp add: demo_shared_def get_at_def)
  have p: "is_pipe 3 demo_shared = Some False" by (simp add: is_pipe_def fd x PIPE_FLAG_def)
  have i: "inodes demo_shared a = (inode_init 5)\<lparr>i_open_cnts := 2\<rparr>" for a by (simp add: demo_shared_def)
  let ?s1 = "upd_inode 0xc000e000 (\<lambda>i. i\<lparr>write_deny := False\<rparr>) demo_shared"
  have "intr_get_status ?s1 = INTR_OFF" by (simp add: demo_shared_def upd_inode_def intr_get_status_def EFLAGS_IF_def)
  then have "inode_close 0xc000e000 ?s1 = Some (upd_inode 0xc000e000 (\<lambda>i. i\<lparr>i_open_cnts := i_open_cnts i - 1\<rparr>) ?s1)"
    by (rule inode_close_counted) (simp_all add: upd_inode_def i)
  then obtain s' where c: "sys_close 3 demo_shared = Some (0, s')" and o: "\<And>p. p \<noteq> 0xc009f000 \<Longrightarrow> tcb s' p = tcb demo_shared p"
    using x run by (simp add: sys_close_def fd p file_close_def rd_inode_def upd_file_def wr_task_def word_sless_alt)
      (simp add: upd_inode_def running_thread_def get_at_eq_Some)
  have "fd_local2global 3 (s'\<lparr>esp := 0xc0101f00\<rparr>) = Some 3"
    by (rule demo_shared_fd) (simp_all add: running_thread_def o t)
  then show ?thesis using close_breaks_sharing [OF demo_shared_typed _ fd p c, of "s'\<lparr>esp := 0xc0101f00\<rparr>" 3 100] c
    by (simp add: word_sless_alt)
qed

end
