(* ===== verification/Boot_Memory.thy ===== *)
theory Boot_Memory
  imports Memory_Pages
begin

text \<open>
  The state in which \<open>mem_init\<close> leaves the memory management: the invariants on which the theorems on pages rest hold at the start.

  \<open>loader_tables\<close> says that the page directory and the entries of the first page table are as the loader writes them; that the entries it does not
  write are absent is a hypothesis of its own.
  \<open>boot_pool\<close> describes a pool after initialisation, \<open>boot_apart\<close> says that the static objects that are initialised do not overlap.
\<close>

unbundle bit_operations_syntax

subsection \<open>Empty lists\<close>

definition link_empty :: "addr \<Rightarrow> 'a list_heap_scheme \<Rightarrow> 'a list_heap_scheme" where
  "link_empty p h = h\<lparr>prev_of := (prev_of h)(list_head p := NULL, list_tail p := list_head p),
     next_of := (next_of h)(list_head p := list_tail p, list_tail p := NULL)\<rparr>"

definition ends :: "addr \<Rightarrow> addr set" where
  "ends p = {list_head p, list_tail p}"

lemma list_init_eq: "NULL \<notin> ends p \<Longrightarrow> list_init p h = Some (link_empty p h)"
  by (auto simp: ends_def list_init_def wr_prev_def wr_next_def link_empty_def)

lemma dlist_link_same: "NULL \<notin> ends p \<Longrightarrow> dlist (link_empty p h) p []"
  using list_init_dlist [of p h] by (auto simp: list_init_eq ends_def)

lemma dlist_link_other: "dlist h q [] \<Longrightarrow> ends p \<inter> ends q = {} \<Longrightarrow> dlist (link_empty p h) q []"
  by (auto simp: dlist_def nodes_def link_empty_def ends_def)

subsection \<open>The descriptors of the block sizes\<close>

definition size_class :: "u16 \<Rightarrow> mem_block_desc" where
  "size_class sz = \<lparr>block_size = ucast sz, blocks_per_arena = (PG_SIZE - sizeof_arena) div ucast sz\<rparr>"

definition only_descs :: "'a mem_state_scheme \<Rightarrow> 'a mem_state_scheme \<Rightarrow> bool" where
  "only_descs s s' \<longleftrightarrow> (\<exists>p n b. s' = s\<lparr>prev_of := p, next_of := n, block_descs := b\<rparr>)"

definition desc_ends :: "addr \<Rightarrow> nat \<Rightarrow> addr set" where
  "desc_ends d n = (\<Union>k<n. ends (free_list (desc_at d k)))"

lemma desc_at_Suc: "desc_at (d + 24) k = desc_at d (Suc k)" "desc_at d 0 = d"
  by (simp_all add: desc_at_def)

lemma desc_at_offset:
  assumes "desc_at d i + of_nat a = desc_at d j + of_nat b" "24 * i + a < 4294967296" "24 * j + b < 4294967296"
  shows "24 * i + a = 24 * j + b"
proof -
  have "(of_nat (24 * i + a) :: u32) = of_nat (24 * j + b)" using assms(1) by (simp add: desc_at_def add.assoc)
  then have "unat (of_nat (24 * i + a) :: u32) = unat (of_nat (24 * j + b) :: u32)" by (rule arg_cong)
  then show ?thesis unfolding unat_of_nat32 [OF assms(2)] unat_of_nat32 [OF assms(3)] .
qed

lemma desc_at_inj:
  assumes "desc_at d i = desc_at d j" "i \<le> 7" "j \<le> 7"
  shows "i = j"
  using desc_at_offset [of d i 0 j 0] assms by simp

lemma free_list_ends: "ends (free_list d) = {d + 8, d + 16}"
  by (simp add: ends_def list_head_def list_tail_def free_list_def ac_simps)

lemma free_lists_apart:
  assumes "i \<noteq> j" "i \<le> 7" "j \<le> 7"
  shows "ends (free_list (desc_at d i)) \<inter> ends (free_list (desc_at d j)) = {}"
  using desc_at_offset [of d i 8 j 8] desc_at_offset [of d i 8 j 16] desc_at_offset [of d i 16 j 8] desc_at_offset [of d i 16 j 16] assms
  by (auto simp: free_list_ends)

lemma block_desc_loop_ok:
  assumes "n \<le> 7" "NULL \<notin> desc_ends d n"
  shows "\<exists>s'. block_desc_loop n d sz s = Some s' \<and> only_descs s s' \<and>
    (\<forall>k<n. block_descs s' (desc_at d k) = size_class (sz * 2 ^ k) \<and> dlist s' (free_list (desc_at d k)) []) \<and>
    (\<forall>e. (\<forall>k<n. e \<noteq> desc_at d k) \<longrightarrow> block_descs s' e = block_descs s e) \<and>
    (\<forall>q. ends q \<inter> desc_ends d n = {} \<longrightarrow> dlist s q [] \<longrightarrow> dlist s' q [])"
  using assms
proof (induction n arbitrary: d sz s)
  case 0
  have "s = s\<lparr>prev_of := prev_of s, next_of := next_of s, block_descs := block_descs s\<rparr>" by simp
  then have "only_descs s s" unfolding only_descs_def by blast
  then show ?case by simp
next
  case (Suc n)
  let ?s = "link_empty (free_list d) (s\<lparr>block_descs := (block_descs s)(d := size_class sz)\<rparr>)"
  have ends: "desc_ends d (Suc n) = ends (free_list d) \<union> desc_ends (d + 24) n"
    unfolding desc_ends_def desc_at_Suc lessThan_Suc_eq_insert_0 by (simp add: desc_at_Suc)
  have nz: "NULL \<notin> ends (free_list d)" "NULL \<notin> desc_ends (d + 24) n" using Suc.prems(2) ends by auto
  have apart: "ends (free_list d) \<inter> desc_ends (d + 24) n = {}"
  proof -
    have "ends (free_list d) \<inter> ends (free_list (desc_at (d + 24) k)) = {}" if "k < n" for k
      using free_lists_apart [of 0 "Suc k" d] Suc.prems(1) that unfolding desc_at_Suc by simp
    then show ?thesis unfolding desc_ends_def by blast
  qed
  have fresh: "d \<noteq> desc_at (d + 24) k" if "k < n" for k
    using desc_at_inj [of d 0 "Suc k"] that Suc.prems(1) by (auto simp: desc_at_Suc)
  obtain s' where s': "block_desc_loop n (d + 24) (sz * 2) ?s = Some s'" "only_descs ?s s'"
      "\<forall>k<n. block_descs s' (desc_at (d + 24) k) = size_class (sz * 2 * 2 ^ k) \<and> dlist s' (free_list (desc_at (d + 24) k)) []"
      "\<forall>e. (\<forall>k<n. e \<noteq> desc_at (d + 24) k) \<longrightarrow> block_descs s' e = block_descs ?s e"
      "\<forall>q. ends q \<inter> desc_ends (d + 24) n = {} \<longrightarrow> dlist ?s q [] \<longrightarrow> dlist s' q []"
    using Suc.IH [OF Suc_leD [OF Suc.prems(1)] nz(2), of "sz * 2" ?s] by (elim exE conjE) (rule that)
  have run: "block_desc_loop (Suc n) d sz s = Some s'"
    using s'(1) by (simp add: list_init_eq [OF nz(1)] size_class_def)
  have mine: "block_descs s' d = size_class sz" using s'(4) fresh by (simp add: link_empty_def)
  have head: "dlist s' (free_list d) []" using s'(5) apart dlist_link_same [OF nz(1)] by blast
  have all: "block_descs s' (desc_at d k) = size_class (sz * 2 ^ k) \<and> dlist s' (free_list (desc_at d k)) []" if "k < Suc n" for k
    using that s'(3) mine head by (cases k) (auto simp: desc_at_Suc mult.assoc)
  have other: "block_descs s' e = block_descs s e" if "\<forall>k<Suc n. e \<noteq> desc_at d k" for e
    using s'(4) that [rule_format, of 0] that by (auto simp: desc_at_Suc link_empty_def)
  have kept: "dlist s' q []" if "ends q \<inter> desc_ends d (Suc n) = {}" "dlist s q []" for q
    using s'(5) that dlist_link_other [of "s\<lparr>block_descs := (block_descs s)(d := size_class sz)\<rparr>" q "free_list d"]
      dlist_cong [of "s\<lparr>block_descs := (block_descs s)(d := size_class sz)\<rparr>" s q] unfolding ends by (simp add: Int_Un_distrib Int_commute)
  have "only_descs s s'" using s'(2) by (auto simp: only_descs_def link_empty_def)
  then show ?case using run all other kept by blast
qed

subsection \<open>The page tables of the loader\<close>

lemma loader_heap:
  assumes "stray_free s" "0xc0100000 \<le> unat w" "unat w < 0xffc00000"
  shows "xlat s w = None"
proof (rule ccontr)
  have t: "loader_pm (pmem s)" "rest_absent (pmem s)" "page_of (cr3 s) = 0x100000"
    using assms(1) by (simp_all add: stray_free_def loader_tables_def)
  assume "xlat s w \<noteq> None"
  then obtain p where p: "mmu (pmem s) 0x100000 w = Some p" using t(3) by auto
  have d: "unat (PDE_IDX w) = unat w div 2 ^ 22" "unat (PTE_IDX w) = unat w div 2 ^ 12 mod 2 ^ 10"
    by (simp_all add: PDE_IDX_unat PTE_IDX_unat)
  have "PDE_IDX w \<noteq> 0" "PDE_IDX w \<noteq> 1023" using d(1) assms(2,3) by (auto simp: word_unat_eq_iff)
  then have "mappable w" by (simp add: mappable_def)
  from loader_mapped(1) [OF t(1,2) this p] have m: "unat w div 2 ^ 22 = 768" "unat w div 2 ^ 12 mod 2 ^ 10 < 256" by (simp_all add: d)
  have q: "x < 786688" if "x div 1024 = 768" "x mod 1024 < 256" for x :: nat
    using div_mult_mod_eq [of x 1024] that by linarith
  have "unat w div 4096 div 1024 = 768" using m(1) by (simp add: div_mult2_eq [symmetric])
  then have "unat w div 4096 < 786688" using q [of "unat w div 4096"] m(2) by simp
  then show False using assms(2) by (simp add: div_less_iff_less_mult)
qed

subsection \<open>The division of the memory\<close>

text \<open>The pages above the first 2 MiB.\<close>

definition free_pages :: "u32 \<Rightarrow> nat" where
  "free_pages n = (unat n - 0x200000) div 4096"

lemma free_pages_lt: "unat n < 0x10200000 \<Longrightarrow> free_pages n < 65536"
  unfolding free_pages_def by (rule less_mult_imp_div_less) simp

lemma unat_of_nat16: "k < 65536 \<Longrightarrow> unat (of_nat k :: u16) = k"
  by (simp add: unat_of_nat)

lemma halves:
  assumes "k < 65536"
  shows "unat (of_nat k div 2 :: u16) = k div 2" "unat (of_nat k - of_nat k div 2 :: u16) = k - k div 2"
  using assms unat_of_nat16 [OF assms] by (simp_all add: unat_div unat_sub_if')

lemma free_pages_word:
  assumes "0x200000 \<le> unat n" "unat n < 0x10200000"
  shows "(ucast ((n - 0x200000) div PG_SIZE) :: u16) = of_nat (free_pages n)"
proof -
  have "unat (n - 0x200000) = unat n - 0x200000" using assms(1) by (simp add: unat_sub_if')
  then have "unat ((n - 0x200000) div PG_SIZE) = free_pages n"
    by (simp add: free_pages_def PG_SIZE_def unat_div)
  then show ?thesis
    using free_pages_lt [OF assms(2)] by (simp add: word_unat_eq_iff unat_of_nat16 unsigned_ucast_eq take_bit_nat_eq_self)
qed

text \<open>Bitmaps that \<open>mem_pool_init\<close> lays out: cleared for their length, the bytes behind as they were.\<close>

definition cleared :: "nat \<Rightarrow> u8 list \<Rightarrow> bitmap" where
  "cleared len m = \<lparr>btmp_bytes_len = len, bits = replicate len 0 @ drop len m\<rparr>"

lemma bitmap_init_cleared: "len \<le> length m \<Longrightarrow> bitmap_init \<lparr>btmp_bytes_len = len, bits = m\<rparr> = Some (cleared len m)"
  by (simp add: bitmap_init_def cleared_def)

lemma cleared_facts:
  "bm_size (cleared len m) = 8 * len" "bm_wf (cleared len m)" "i < 8 * len \<Longrightarrow> \<not> bm_bit (cleared len m) i"
  using less_mult_imp_div_less [of i len 8] by (simp_all add: cleared_def bm_size_def bm_wf_def bm_bit_def nth_append)

subsection \<open>The pools\<close>

definition fresh_lock :: "addr \<Rightarrow> 'a sync_state_scheme \<Rightarrow> 'a sync_state_scheme" where
  "fresh_lock L s = link_empty (lock_waiters L) (set_value (lock_sema L) 1 (set_repeat L 0 (set_holder L NULL s)))"

lemma lock_init_eq: "NULL \<notin> ends (lock_waiters L) \<Longrightarrow> lock_init L s = Some (fresh_lock L s)"
  by (simp add: lock_init_def sema_init_def fresh_lock_def list_init_eq)

lemmas fresh_lock_unfold = fresh_lock_def link_empty_def set_value_def set_repeat_def set_holder_def

lemma unat_ucast_16_32: "unat (ucast w :: u32) = unat w" for w :: u16
proof -
  have "unat w < 2 ^ 32" using unsigned_less [of w, where 'a = nat] by simp
  then show ?thesis by (simp add: unsigned_ucast_eq take_bit_nat_eq_self)
qed

lemma pool_words:
  assumes "0x200000 \<le> unat n" "unat n < 0x10200000"
  defines "fp \<equiv> free_pages n"
  shows "unat (ucast ((of_nat fp div 2) div 8 :: u16) :: u32) = fp div 2 div 8"
    "unat (ucast ((of_nat fp - of_nat fp div 2) div 8 :: u16) :: u32) = (fp - fp div 2) div 8"
    "unat (0x200000 + ucast (of_nat fp div 2 :: u16) * PG_SIZE) = 0x200000 + fp div 2 * 4096"
proof -
  note lt = free_pages_lt [OF assms(2), folded fp_def]
  note h = halves [OF lt]
  have "unat (of_nat fp div 2 div 8 :: u16) = fp div 2 div 8"
    using h(1) by (simp add: unat_div)
  then show "unat (ucast ((of_nat fp div 2) div 8 :: u16) :: u32) = fp div 2 div 8"
    by (simp add: unat_ucast_16_32)
  have "unat ((of_nat fp - of_nat fp div 2) div 8 :: u16) = (fp - fp div 2) div 8"
    using h(2) by (simp add: unat_div)
  then show "unat (ucast ((of_nat fp - of_nat fp div 2) div 8 :: u16) :: u32) = (fp - fp div 2) div 8"
    by (simp add: unat_ucast_16_32)
  have "ucast (of_nat fp div 2 :: u16) = (of_nat (fp div 2) :: u32)"
    using h(1) lt by (simp add: word_unat_eq_iff unat_ucast_16_32)
  then show "unat (0x200000 + ucast (of_nat fp div 2 :: u16) * PG_SIZE) = 0x200000 + fp div 2 * 4096"
    using unat_page_offset [where v = "0x200000" and n = "fp div 2"] lt by simp
qed

definition boot_pool :: "nat \<Rightarrow> nat \<Rightarrow> u8 list \<Rightarrow> pool \<Rightarrow> bool" where
  "boot_pool start pages m p \<longleftrightarrow> pool_bitmap p = cleared (pages div 8) m \<and> unat (phy_addr_start p) = start"

lemma mem_pool_init_ok:
  assumes "0x200000 \<le> unat n" "unat n < 0x10200000" "length mem = 0x4000"
    "NULL \<notin> ends (lock_waiters klock)" "NULL \<notin> ends (lock_waiters ulock)"
  defines "kp \<equiv> free_pages n div 2" and "up \<equiv> free_pages n - free_pages n div 2"
  shows "\<exists>t p q. mem_pool_init n mem klock ulock s = Some ((fresh_lock ulock (fresh_lock klock s))\<lparr>screen := t, kernel_pool := p, user_pool := q,
      kernel_vaddr := \<lparr>vaddr_bitmap = cleared (kp div 8) (drop (kp div 8 + up div 8) mem), vaddr_start = K_HEAP_START\<rparr>\<rparr>) \<and>
    boot_pool 0x200000 kp mem p \<and> pool_lock p = klock \<and>
    boot_pool (0x200000 + kp * 4096) up (drop (kp div 8) mem) q \<and> pool_lock q = ulock"
proof -
  note w = pool_words [OF assms(1,2)] and f = free_pages_word [OF assms(1,2)] and lt = free_pages_lt [OF assms(2)]
  have len: "kp div 8 \<le> length mem" "up div 8 \<le> length mem - kp div 8" "kp div 8 \<le> length mem - (kp div 8 + up div 8)"
    using lt assms(3) by (simp_all add: kp_def up_def)
  have sum: "unat (ucast ((of_nat (free_pages n) div 2) div 8 :: u16) + ucast ((of_nat (free_pages n) - of_nat (free_pages n) div 2) div 8 :: u16) :: u32)
      = kp div 8 + up div 8"
  proof -
    have "kp div 8 + up div 8 < 2 ^ 32" using lt by (simp add: kp_def up_def)
    then show ?thesis using w(1,2) by (simp add: unat_word_ariths kp_def up_def)
  qed
  let ?k = "of_nat (free_pages n) div 2 :: u16" and ?u = "of_nat (free_pages n) - of_nat (free_pages n) div 2 :: u16"
  have used: "PG_SIZE * 256 + 0x100000 = 0x200000" by (simp add: PG_SIZE_def)
  let ?m = "put_pair (lit ''user_pool_phy_addr_start:'') (0x200000 + ucast ?k * PG_SIZE)
    (put_pair (lit ''user_pool_bitmap_start:'') (MEM_BITMAP_BASE + ucast (?k div 8))
    (put_pair (lit ''kernel_pool_phy_addr_start:'') 0x200000
    (put_pair (lit ''kernel_pool_bitmap_start:'') MEM_BITMAP_BASE (put_str (lit ''mem_pool_init start\<newline>'') s))))"
  let ?p = "\<lparr>pool_bitmap = cleared (kp div 8) mem, phy_addr_start = 0x200000, pool_size = ucast ?k * PG_SIZE, pool_lock = klock\<rparr>"
  let ?q = "\<lparr>pool_bitmap = cleared (up div 8) (drop (kp div 8) mem), phy_addr_start = 0x200000 + ucast ?k * PG_SIZE,
      pool_size = ucast ?u * PG_SIZE, pool_lock = ulock\<rparr>"
  let ?s = "put_str (lit ''mem_pool_init done\<newline>'') ((fresh_lock ulock (fresh_lock klock ?m))\<lparr>kernel_pool := ?p, user_pool := ?q,
       kernel_vaddr := \<lparr>vaddr_bitmap = cleared (kp div 8) (drop (kp div 8 + up div 8) mem), vaddr_start = K_HEAP_START\<rparr>\<rparr>)"
  have "mem_pool_init n mem klock ulock s = Some ?s"
    by (simp add: mem_pool_init_def Let_def used f w(1,2) sum [unfolded kp_def up_def] lock_init_eq assms(4,5)
        bitmap_init_cleared len [unfolded kp_def up_def] kp_def up_def)
  moreover have "?s = (fresh_lock ulock (fresh_lock klock s))\<lparr>screen := screen ?s, kernel_pool := ?p, user_pool := ?q,
      kernel_vaddr := \<lparr>vaddr_bitmap = cleared (kp div 8) (drop (kp div 8 + up div 8) mem), vaddr_start = K_HEAP_START\<rparr>\<rparr>"
    by (simp add: put_pair_def put_int_def put_str_screen fresh_lock_unfold)
  moreover have "boot_pool 0x200000 kp mem ?p" "pool_lock ?p = klock"
    "boot_pool (0x200000 + kp * 4096) up (drop (kp div 8) mem) ?q" "pool_lock ?q = ulock"
    using w(3) by (simp_all add: boot_pool_def kp_def)
  ultimately show ?thesis by metis
qed

definition boot_apart :: "addr \<Rightarrow> addr \<Rightarrow> addr \<Rightarrow> bool" where
  "boot_apart klock ulock descs \<longleftrightarrow> klock \<noteq> ulock \<and>
     NULL \<notin> ends (lock_waiters klock) \<union> ends (lock_waiters ulock) \<union> desc_ends descs 7 \<and>
     ends (lock_waiters klock) \<inter> ends (lock_waiters ulock) = {} \<and>
     (ends (lock_waiters klock) \<union> ends (lock_waiters ulock)) \<inter> desc_ends descs 7 = {}"

lemma size_class_16: "k < 7 \<Longrightarrow> size_class (16 * 2 ^ k) = \<lparr>block_size = 16 * 2 ^ k, blocks_per_arena = 4084 div (16 * 2 ^ k)\<rparr>"
proof -
  assume "k < 7"
  then have "k = 0 \<or> k = 1 \<or> k = 2 \<or> k = 3 \<or> k = 4 \<or> k = 5 \<or> k = 6" by linarith
  then show ?thesis by (elim disjE) (simp_all add: size_class_def PG_SIZE_def sizeof_arena_def)
qed

lemma boot_pools_ok:
  assumes "boot_pool 0x200000 kp m (kernel_pool s)" "boot_pool (0x200000 + kp * 4096) up m' (user_pool s)"
    "0x200000 + (kp + up) * 4096 \<le> lim" "lim < 2 ^ 32"
  shows "pools_ok s" "i < bm_size (pool_bits pf s) \<Longrightarrow> unat (frame pf i s) + 4096 \<le> lim"
    "free_idx pf s = {..<bm_size (pool_bits pf s)}"
    "bm_size (pool_bits PF_KERNEL s) = kp div 8 * 8" "bm_size (pool_bits PF_USER s) = up div 8 * 8"
proof -
  have sz: "bm_size (pool_bits PF_KERNEL s) = kp div 8 * 8" "bm_size (pool_bits PF_USER s) = up div 8 * 8"
    using assms(1,2) by (simp_all add: boot_pool_def pool_bits_def mem_pool_def cleared_facts)
  have st: "unat (phy_addr_start (mem_pool PF_KERNEL s)) = 0x200000" "unat (phy_addr_start (mem_pool PF_USER s)) = 0x200000 + kp * 4096"
    using assms(1,2) by (simp_all add: boot_pool_def mem_pool_def)
  have le: "kp div 8 * 8 \<le> kp" "up div 8 * 8 \<le> up" by simp_all
  have wf: "bm_wf (pool_bits pf s)" for pf
    using assms(1,2) by (cases pf) (simp_all add: boot_pool_def pool_bits_def mem_pool_def cleared_facts)
  have al: "(0x200000 + kp * 4096) mod 4096 = 0" by presburger
  have K: "pool_ok PF_KERNEL s" and U: "pool_ok PF_USER s"
    using wf assms(3,4) st sz le al by (simp_all add: pool_ok_def page_aligned)
  show "pools_ok s" using K U st sz le(1) by (simp add: pools_ok_def mem_pool_def)
  show "unat (frame pf i s) + 4096 \<le> lim" if "i < bm_size (pool_bits pf s)"
    using that frame_facts(1) [of pf s i] K U st sz le assms(3) by (cases pf) simp_all
  show "free_idx pf s = {..<bm_size (pool_bits pf s)}"
    using assms(1,2) by (cases pf) (auto simp: free_idx_def boot_pool_def pool_bits_def mem_pool_def cleared_facts)
qed (use assms(1,2) in \<open>simp_all add: boot_pool_def pool_bits_def mem_pool_def cleared_facts\<close>)

lemma boot_va_inv:
  assumes "stray_free s" "kernel_vaddr s = \<lparr>vaddr_bitmap = cleared len m, vaddr_start = K_HEAP_START\<rparr>" "len < length m" "len < 4096"
  shows "va_inv PF_KERNEL s"
proof -
  have b: "va_bits PF_KERNEL s = cleared len m" "vaddr_start (vaddr_pool PF_KERNEL s) = 0xc0100000"
    using assms(2) by (simp_all add: va_bits_def vaddr_pool_def K_HEAP_START_def)
  have "xlat s (va_page PF_KERNEL i s) = None" if "i < 8 * len" for i
  proof -
    have "unat (0xc0100000 + of_nat i * PG_SIZE :: u32) = 0xc0100000 + i * 4096"
      using unat_page_offset [of "0xc0100000" i] that assms(4) by simp
    then have "unat (va_page PF_KERNEL i s) = 0xc0100000 + i * 4096" by (simp add: va_page_def page_def b)
    then show ?thesis using loader_heap [OF assms(1)] that assms(4) by simp
  qed
  then show ?thesis
    using assms(3,4) by (simp add: va_inv_def b cleared_facts page_of_def) (simp add: cleared_def)
qed

lemma fresh_lock_idle: "NULL \<notin> ends (lock_waiters L) \<Longrightarrow> lock_free L (fresh_lock L s) \<and> dlist (fresh_lock L s) (lock_waiters L) []"
  by (simp add: fresh_lock_def dlist_link_same) (simp add: lock_free_def link_empty_def set_value_def set_repeat_def set_holder_def)

lemma fresh_lock_other:
  assumes "lock_free L s \<and> dlist s (lock_waiters L) []" "L \<noteq> M" "ends (lock_waiters L) \<inter> ends (lock_waiters M) = {}"
  shows "lock_free L (fresh_lock M s) \<and> dlist (fresh_lock M s) (lock_waiters L) []"
proof
  show "lock_free L (fresh_lock M s)" using assms(1,2) by (simp add: lock_free_def fresh_lock_unfold lock_sema_def)
  have "dlist (set_value (lock_sema M) 1 (set_repeat M 0 (set_holder M NULL s))) (lock_waiters L) []"
    using assms(1) dlist_cong [of "set_value (lock_sema M) 1 (set_repeat M 0 (set_holder M NULL s))" s]
    by (simp add: set_value_def set_repeat_def set_holder_def)
  then show "dlist (fresh_lock M s) (lock_waiters L) []"
    unfolding fresh_lock_def using assms(3) by (intro dlist_link_other) auto
qed

text \<open>\<open>mem_init\<close> returns: the pools and descriptors it sets up, and what it leaves alone.\<close>

lemma mem_init_run:
  assumes "load32 0xb00 s = Some n" "0x200000 \<le> unat n" "unat n < 0x10200000" "length mem = 0x4000"
    "boot_apart klock ulock (k_block_descs s)"
  defines "kp \<equiv> free_pages n div 2" and "up \<equiv> free_pages n - free_pages n div 2"
  shows "\<exists>s'. mem_init mem klock ulock s = Some s' \<and> pmem s' = pmem s \<and> cr3 s' = cr3 s \<and>
    boot_pool 0x200000 kp mem (kernel_pool s') \<and> pool_lock (kernel_pool s') = klock \<and> lock_idle klock s' \<and>
    boot_pool (0x200000 + kp * 4096) up (drop (kp div 8) mem) (user_pool s') \<and> pool_lock (user_pool s') = ulock \<and> lock_idle ulock s' \<and>
    kernel_vaddr s' = \<lparr>vaddr_bitmap = cleared (kp div 8) (drop (kp div 8 + up div 8) mem), vaddr_start = K_HEAP_START\<rparr> \<and>
    (\<forall>k<7. block_descs s' (desc_at (k_block_descs s) k) = size_class (16 * 2 ^ k) \<and> dlist s' (free_list (desc_at (k_block_descs s) k)) [])"
proof -
  let ?d = "k_block_descs s"
  note apart = assms(5) [unfolded boot_apart_def]
  have nz: "NULL \<notin> ends (lock_waiters klock)" "NULL \<notin> ends (lock_waiters ulock)" "NULL \<notin> desc_ends ?d 7" using apart by auto
  define s0 where "s0 = put_pair (lit ''mem_bytes_total: 0x'') n (put_str (lit ''mem_init start\<newline>'') s)"
  obtain t0 where s0: "s0 = s\<lparr>screen := t0\<rparr>" by (simp add: s0_def put_pair_def put_int_def put_str_screen)
  obtain t p q where s1: "mem_pool_init n mem klock ulock s0 = Some ((fresh_lock ulock (fresh_lock klock s0))\<lparr>screen := t, kernel_pool := p, user_pool := q,
      kernel_vaddr := \<lparr>vaddr_bitmap = cleared (kp div 8) (drop (kp div 8 + up div 8) mem), vaddr_start = K_HEAP_START\<rparr>\<rparr>)"
      "boot_pool 0x200000 kp mem p" "pool_lock p = klock"
      "boot_pool (0x200000 + kp * 4096) up (drop (kp div 8) mem) q" "pool_lock q = ulock"
    using mem_pool_init_ok [OF assms(2-4) nz(1,2), of s0, folded kp_def up_def] by (elim exE conjE) (rule that)
  let ?s1 = "(fresh_lock ulock (fresh_lock klock s0))\<lparr>screen := t, kernel_pool := p, user_pool := q,
      kernel_vaddr := \<lparr>vaddr_bitmap = cleared (kp div 8) (drop (kp div 8 + up div 8) mem), vaddr_start = K_HEAP_START\<rparr>\<rparr>"
  obtain s2 where s2: "block_desc_loop 7 ?d 16 ?s1 = Some s2" "only_descs ?s1 s2"
      "\<forall>k<7. block_descs s2 (desc_at ?d k) = size_class (16 * 2 ^ k) \<and> dlist s2 (free_list (desc_at ?d k)) []"
      "\<forall>r. ends r \<inter> desc_ends ?d 7 = {} \<longrightarrow> dlist ?s1 r [] \<longrightarrow> dlist s2 r []"
    using block_desc_loop_ok [OF order_refl nz(3), of 16 ?s1] by (elim exE conjE) (rule that)
  let ?s = "put_str (lit ''mem_init done\<newline>'') s2"
  have d: "k_block_descs (fresh_lock ulock (fresh_lock klock s0)) = ?d" by (simp add: s0 fresh_lock_unfold)
  have "load32 0xb00 (put_str (lit ''mem_init start\<newline>'') s) = Some n" using assms(1) by (simp add: put_str_screen load32_def)
  then have run: "mem_init mem klock ulock s = Some ?s"
    using s1(1) s2(1) d by (simp add: mem_init_def Let_def s0_def [symmetric] block_desc_init_def DESC_CNT_def)
  obtain pr nx bd where e: "s2 = ?s1\<lparr>prev_of := pr, next_of := nx, block_descs := bd\<rparr>" using s2(2) unfolding only_descs_def by blast
  have fields: "kernel_pool ?s = p" "user_pool ?s = q"
      "kernel_vaddr ?s = \<lparr>vaddr_bitmap = cleared (kp div 8) (drop (kp div 8 + up div 8) mem), vaddr_start = K_HEAP_START\<rparr>"
    by (simp_all add: e put_str_screen)
  have keeps: "pmem ?s = pmem s" "cr3 ?s = cr3 s" by (simp_all add: e put_str_screen s0 fresh_lock_unfold)
  have idle: "lock_idle L ?s" if L: "L = klock \<or> L = ulock" for L
  proof -
    have "lock_free L (fresh_lock ulock (fresh_lock klock s0)) \<and> dlist (fresh_lock ulock (fresh_lock klock s0)) (lock_waiters L) []"
      using L fresh_lock_idle [OF nz(2)] fresh_lock_other [OF fresh_lock_idle [OF nz(1)]] apart by blast
    moreover have "ends (lock_waiters L) \<inter> desc_ends ?d 7 = {}" using L apart by blast
    ultimately have "lock_free L s2" "dlist s2 (lock_waiters L) []"
      using s2(4) dlist_cong [of ?s1 "fresh_lock ulock (fresh_lock klock s0)"] by (simp_all add: lock_free_def e)
    then show ?thesis
      using dlist_empty [of s2 "lock_waiters L" "[]"] list_empty_cong [of ?s s2] by (simp add: lock_idle_def lock_free_def put_str_screen)
  qed
  have descs: "\<forall>k<7. block_descs ?s (desc_at ?d k) = size_class (16 * 2 ^ k) \<and> dlist ?s (free_list (desc_at ?d k)) []"
    using s2(3) dlist_cong [of ?s s2] by (simp add: put_str_screen)
  show ?thesis
    by (rule exI [of _ ?s]) (use run keeps idle descs fields s1(2-5) in auto)
qed



end
