(* ===== verification/Spec2Isabelle.thy ===== *)
theory Spec2Isabelle
  imports Keyboard Programs Dir_Data Pipe_Data Arena Fork_Data Descriptors Boot_Memory
begin

text \<open>
  A verification library for the teaching kernel \<open>os-core\<close>: a 32-bit x86 kernel with threads, user processes, paging, a keyboard and a disk driver, a
  file system with pipes, and a shell.

  \<^bold>\<open>The parts and how they interact.\<close> Every lock, semaphore, device queue and the scheduler keep their elements in pointer lists
  (\<^verbatim>\<open>lib/kernel/list.c\<close>); memory pools, pids, inodes and blocks are handed out by bitmaps (\<^verbatim>\<open>lib/kernel/bitmap.c\<close>). The scheduler
  (\<^verbatim>\<open>thread/thread.c\<close>) blocks and wakes threads for semaphores and locks (\<^verbatim>\<open>thread/sync.c\<close>), for the I/O queues (\<^verbatim>\<open>device/ioqueue.c\<close>)
  that the keyboard and the pipes use, for the disk driver and for \<open>wait\<close>. The page allocator (\<^verbatim>\<open>kernel/memory.c\<close>) works on page tables that the
  processor walks. The file system (\<^verbatim>\<open>fs\<close>) stores inodes, directories and files in sectors of the disk driver (\<^verbatim>\<open>device/ide.c\<close>). System
  calls reach the kernel through a table (\<^verbatim>\<open>userprog/syscall-init.c\<close>), processes are duplicated, loaded and ended by
  \<^verbatim>\<open>userprog/fork.c\<close>, \<^verbatim>\<open>exec.c\<close> and \<^verbatim>\<open>wait_exit.c\<close>, and the shell (\<^verbatim>\<open>shell\<close>) runs on these calls.

  \<^bold>\<open>Conventions.\<close> C integers are words of their width, so that sums wrap; comparisons of signed values are signed. A function that may not return
  has its result in \<open>option\<close>: \<open>None\<close> stands for a failed \<open>ASSERT\<close> or a \<open>PANIC\<close> (which spin), for an access through a null pointer or
  outside an object, and for a loop that does not end. A call that puts its caller to sleep is split there: the first part ends with a result that says so, and
  a second function begins where the thread is woken. The state is one chain of records, each theory extending the one below it:
  \<open>cpu\<close> (flags, ports, screen), \<open>idt_state\<close> (interrupt tables), \<open>list_heap\<close> (links), \<open>pg_state\<close> (physical memory, page directory register),
  \<open>kstate\<close> (tasks), \<open>sync_state\<close>, \<open>ioq_state\<close>, \<open>dev_state\<close> (ticks), \<open>kbd_state\<close> (modifier keys), \<open>mem_state\<close> (pools, arenas),
  \<open>task_state\<close> (pids, segments), \<open>ide_state\<close> (channels, disks, partitions), \<open>fs_state\<close> (inodes, open files), \<open>shell_state\<close>. All operations are polymorphic in what extends their record. Where a local variable is read before it is written, its contents are
  an argument of the model (\<open>garbage\<close>, \<open>dir_e\<close>, \<open>padding\<close>).

  \<^bold>\<open>Theories and sources.\<close>

  \<^item> \<open>Prelude\<close>: the integer types, \<open>ASSERT\<close>, checked list access, collections of facts.
  \<^item> \<open>Klist\<close> (\<^verbatim>\<open>lib/kernel/list.c\<close>): lists on a heap of links. The locale \<open>kqueue\<close> is the contract of a queue; its interpretation
    \<open>klist\<close> shows that the pointer operations implement sequences, return, and leave disjoint lists alone.
  \<^item> \<open>Bitmap\<close> (\<^verbatim>\<open>lib/kernel/bitmap.c\<close>): locale \<open>bit_pool\<close>, interpretation \<open>bm\<close>; the first-fit search against its specification.
  \<^item> \<open>Interrupt\<close> (\<^verbatim>\<open>kernel/interrupt.c\<close>, \<^verbatim>\<open>kernel/debug.c\<close>, \<^verbatim>\<open>lib/kernel/io.h\<close>): the interrupt flag, the descriptor table, the interrupt
    controllers, the screen, \<open>panic_spin\<close>.
  \<^item> \<open>Paging\<close>, \<open>Memory\<close>, \<open>Memory_Pages\<close>, \<open>Page_Data\<close>, \<open>Page_Words\<close>, \<open>Arena\<close>, \<open>Boot_Memory\<close> (\<^verbatim>\<open>kernel/memory.c\<close>): the walk of the processor and the recursive mapping through which
    the code reaches its tables; all operations of the allocator; the invariant that ties the pools to the page tables, kept by allocating and freeing
    pages; the contents of pages; the blocks of \<open>sys_malloc\<close> and \<open>sys_free\<close> with the invariant of an arena; the state that
    \<open>mem_init\<close> leaves.
  \<^item> \<open>Thread\<close>, \<open>Task\<close> (\<^verbatim>\<open>thread/thread.c\<close>, \<^verbatim>\<open>userprog/process.c\<close>, \<^verbatim>\<open>userprog/tss.c\<close>, \<^verbatim>\<open>device/console.c\<close>): the scheduler with its invariant
    \<open>sched_inv\<close>, creation and end of threads and processes, pids. The locale \<open>scheduler\<close> is what sleeping components rely on.
  \<^item> \<open>Sync\<close> (\<^verbatim>\<open>thread/sync.c\<close>): semaphores and locks, and the step relation of any number of threads that use one lock, preempted at any statement.
  \<^item> \<open>Ioqueue\<close> (\<^verbatim>\<open>device/ioqueue.c\<close>), \<open>Timer\<close> (\<^verbatim>\<open>device/timer.c\<close>), \<open>Keyboard\<close> (\<^verbatim>\<open>device/keyboard.c\<close>). The locale \<open>byte_fifo\<close> is a bounded
    byte stream; it is interpreted for a queue between threads (\<open>ioq\<close>) and for a pipe (\<open>pq\<close>).
  \<^item> \<open>Cstring\<close> (\<^verbatim>\<open>lib/string.c\<close>), \<open>Stdio\<close> (\<^verbatim>\<open>lib/stdio.c\<close>): on a byte-addressed memory, against functions on lists.
  \<^item> \<open>Ide\<close> (\<^verbatim>\<open>device/ide.c\<close>, \<^verbatim>\<open>lib/kernel/stdio-kernel.c\<close>): the driver over the ports of the disk; \<open>Blocks\<close>: the locale \<open>sector_store\<close>,
    which the file system relies on, interpreted as \<open>hd\<close>.
  \<^item> \<open>Inode\<close>, \<open>Dir\<close>, \<open>File\<close>, \<open>Filesys\<close>, \<open>Mount\<close>, \<open>Path\<close> (\<^verbatim>\<open>fs/inode.c\<close>, \<^verbatim>\<open>dir.c\<close>, \<^verbatim>\<open>file.c\<close>, \<^verbatim>\<open>fs.c\<close>): the operations;
    \<open>File_Data\<close> and \<open>Dir_Data\<close>: a file as a string of bytes, a directory as an array of entries.
  \<^item> \<open>Pipe\<close>, \<open>Pipe_Data\<close> (\<^verbatim>\<open>shell/pipe.c\<close>): pipes, and what passes through them.
  \<^item> \<open>Fork\<close>, \<open>Fork_Data\<close>, \<open>Wait_Exit\<close>, \<open>Exec\<close> (\<^verbatim>\<open>userprog\<close>): the life of a process. \<open>Syscall\<close> (\<^verbatim>\<open>lib/user/syscall.c\<close>, \<^verbatim>\<open>userprog/syscall-init.c\<close>): wrappers,
    table and dispatch.
  \<^item> \<open>Shell\<close>, \<open>Commands\<close> (\<^verbatim>\<open>shell/shell.c\<close>, \<^verbatim>\<open>shell/buildin_cmd.c\<close>): line editing, splitting into words, the commands, pipelines, a turn of the loop.
    \<open>Programs\<close> (\<^verbatim>\<open>kernel/init.c\<close>, \<^verbatim>\<open>kernel/main.c\<close>, \<^verbatim>\<open>command\<close>, \<^verbatim>\<open>lib/user/assert.c\<close>): \<open>init_all\<close>, the main thread, \<open>init\<close>, the commands.
  \<^item> \<open>Ensures\<close>, \<open>Invariant\<close>, \<open>Invariant_Fs\<close>, \<open>Kernel_Calls\<close>: a calculus of postconditions; the locales \<open>machine_invariant\<close>,
    \<open>reader_invariant\<close>, \<open>writer_invariant\<close> and \<open>kernel_invariant\<close>, contracts under which the functions of the kernel, one lemma each, keep a
    property of its state; the step relation \<open>kernel_step\<close> of all system calls, interrupts and switches with any arguments, on which the contracts are interpreted
    for the type invariant, for the contents of the disk and for the file table. \<open>Descriptors\<close>: descriptors that processes share.

  \<^bold>\<open>What is shown.\<close> Mutual exclusion, absence of failed assertions and of lost wake-ups for a lock under every interleaving; the queue, the bitmap and the pid
  pool as their specifications; that the kernel's state stays well typed and that five calls alone write to the disk, over all runs; that initialisation
  establishes the invariants of the memory; the choice of the scheduler, round robin and time slices; the handshake of \<open>exit\<close> and \<open>wait\<close>; that pages handed out
  are fresh, distinct and given back without a trace; the stack from which a forked child starts; that what is written to the disk, a file, a directory or a pipe is read back; the layout of a partition; the
  range of \<open>lseek\<close> and the pages of a segment; the character each key gives, the text a line of keys gives, the words of a command and the cleaned
  path; formatted output; the dispatch of system calls. Some theorems state where the code does not do what it means to: the
  extra bit of the block bitmap, the pipe that is one byte too small, the loop in \<open>delete_dir_entry\<close>, the file table entry that the
  first of two sharing processes closes for both.

  \<^bold>\<open>Loops.\<close> Loops over a fixed range are recursions on it; loops that depend on memory are \<open>partial_function (option)\<close>, and the
  theorems about them state that they return. The one bound is the argument \<open>depth\<close> of \<open>partition_scan\<close>, the nesting of extended partitions
  on the disk, which the code does not limit; deeper nesting gives \<open>None\<close>. Sums of sizes are bounded by hypotheses where the code itself does not check them.

  \<^bold>\<open>Not modelled.\<close> Assembly (boot code, interrupt entry points, \<open>switch_to\<close>, the screen) appears only as far as the C code relies on it. Interrupts
  are taken between the steps of the lock model and at the points where a thread waits; the other operations are followed without one. Contention for a lock is
  followed in \<open>Sync\<close> and \<open>Ioqueue\<close>; elsewhere a caller that finds a lock taken is followed up to its sleep.

  \<^bold>\<open>Open.\<close> Blocks larger than 1024 bytes and the first block of a new arena are covered by the lemmas on pages and on splitting, not by a theorem on
  \<open>sys_malloc\<close>; the transfer loops of files are verified, the allocation of new sectors in \<open>file_write\<close> is not; \<open>init_all\<close> after
  \<open>mem_init\<close> and the parsing of an executable file have definitions and no theorem of their own.
\<close>

end
